(* ===== verification/Exo_Prelude.thy ===== *)
theory Exo_Prelude
  imports Main "HOL-Library.Word"
begin

text \<open>
  Shared vocabulary of the development: the machine integers of the C sources,
  the error numbers of \<^verbatim>\<open>fs/vfs.h\<close>, casts between the 64-bit system-call
  arguments and C's narrower types, and the generic facts on bit masks, lists
  and array updates that the component theories use.
\<close>

unbundle bit_operations_syntax

section \<open>Machine integers\<close>

type_synonym u8 = "8 word"
type_synonym u16 = "16 word"
type_synonym u32 = "32 word"
type_synonym u64 = "64 word"

text \<open>The cast \<^verbatim>\<open>(int)a\<close> of a 64-bit system-call argument: truncate to 32 bits
  and read as a signed number.\<close>

definition c_int :: "u64 \<Rightarrow> int" where
  "c_int a = sint (ucast a :: u32)"

text \<open>The cast \<^verbatim>\<open>(uint32_t)i\<close> of a C \<^verbatim>\<open>int\<close>.\<close>

definition c_u32 :: "int \<Rightarrow> u32" where
  "c_u32 i = word_of_int i"

section \<open>Error numbers (fs/vfs.h)\<close>

abbreviation EPERM :: int where "EPERM \<equiv> 1"
abbreviation ENOENT :: int where "ENOENT \<equiv> 2"
abbreviation ESRCH :: int where "ESRCH \<equiv> 3"
abbreviation EINTR :: int where "EINTR \<equiv> 4"
abbreviation EIO :: int where "EIO \<equiv> 5"
abbreviation ENXIO :: int where "ENXIO \<equiv> 6"
abbreviation ENOEXEC :: int where "ENOEXEC \<equiv> 8"
abbreviation EBADF :: int where "EBADF \<equiv> 9"
abbreviation ECHILD :: int where "ECHILD \<equiv> 10"
abbreviation EAGAIN :: int where "EAGAIN \<equiv> 11"
abbreviation ENOMEM :: int where "ENOMEM \<equiv> 12"
abbreviation EACCES :: int where "EACCES \<equiv> 13"
abbreviation EFAULT :: int where "EFAULT \<equiv> 14"
abbreviation EBUSY :: int where "EBUSY \<equiv> 16"
abbreviation EEXIST :: int where "EEXIST \<equiv> 17"
abbreviation EXDEV :: int where "EXDEV \<equiv> 18"
abbreviation ENODEV :: int where "ENODEV \<equiv> 19"
abbreviation ENOTDIR :: int where "ENOTDIR \<equiv> 20"
abbreviation EISDIR :: int where "EISDIR \<equiv> 21"
abbreviation EINVAL :: int where "EINVAL \<equiv> 22"
abbreviation EMFILE :: int where "EMFILE \<equiv> 24"
abbreviation EFBIG :: int where "EFBIG \<equiv> 27"
abbreviation ENOSPC :: int where "ENOSPC \<equiv> 28"
abbreviation ESPIPE :: int where "ESPIPE \<equiv> 29"
abbreviation EPIPE :: int where "EPIPE \<equiv> 32"
abbreviation ENAMETOOLONG :: int where "ENAMETOOLONG \<equiv> 36"
abbreviation ENOSYS :: int where "ENOSYS \<equiv> 38"
abbreviation ENOTEMPTY :: int where "ENOTEMPTY \<equiv> 39"
abbreviation ELOOP :: int where "ELOOP \<equiv> 40"
abbreviation EMSGSIZE :: int where "EMSGSIZE \<equiv> 90"
abbreviation EADDRINUSE :: int where "EADDRINUSE \<equiv> 98"
abbreviation ENETDOWN :: int where "ENETDOWN \<equiv> 100"
abbreviation ENETUNREACH :: int where "ENETUNREACH \<equiv> 101"
abbreviation ECONNRESET :: int where "ECONNRESET \<equiv> 104"
abbreviation ENOTCONN :: int where "ENOTCONN \<equiv> 107"
abbreviation ETIMEDOUT :: int where "ETIMEDOUT \<equiv> 110"
abbreviation ECONNREFUSED :: int where "ECONNREFUSED \<equiv> 111"

section \<open>Collections\<close>

named_theorems mask_simps "inclusion of bit masks"
named_theorems kernel_simps "projections of the kernel state after an update"

section \<open>Bit masks as sets of flags\<close>

text \<open>\<open>mask_le a b\<close>: every flag of \<open>a\<close> is a flag of \<open>b\<close>; the C idiom is
  \<^verbatim>\<open>(a & ~b) == 0\<close>.\<close>

definition mask_le :: "'a::len word \<Rightarrow> 'a word \<Rightarrow> bool" where
  "mask_le a b \<longleftrightarrow> a AND NOT b = 0"

lemma mask_le_bit:
  "mask_le a b \<longleftrightarrow> (\<forall>n. bit a n \<longrightarrow> bit b n)"
  unfolding mask_le_def
  by (auto simp: bit_eq_iff bit_simps) (metis bit_imp_le_length)

lemma mask_le_refl [mask_simps, simp]: "mask_le a a"
  by (simp add: mask_le_bit)

lemma mask_le_trans: "mask_le a b \<Longrightarrow> mask_le b c \<Longrightarrow> mask_le a c"
  by (simp add: mask_le_bit)

lemma mask_le_zero [mask_simps, simp]: "mask_le 0 a"
  by (simp add: mask_le_bit)

lemma mask_le_and1 [mask_simps]: "mask_le a c \<Longrightarrow> mask_le (a AND b) c"
  by (simp add: mask_le_bit bit_simps)

lemma mask_le_and2 [mask_simps]: "mask_le b c \<Longrightarrow> mask_le (a AND b) c"
  by (simp add: mask_le_bit bit_simps)

lemma mask_le_and_self [mask_simps, simp]: "mask_le (a AND b) b" "mask_le (a AND b) a"
  by (simp_all add: mask_le_bit bit_simps)

lemma mask_le_and_iff [mask_simps]: "mask_le a (b AND c) \<longleftrightarrow> mask_le a b \<and> mask_le a c"
  by (auto simp: mask_le_bit bit_simps)

section \<open>Bounds of words\<close>

lemma unat_lt: "unat (w :: 'a::len word) < 2 ^ LENGTH('a)"
  by (rule unsigned_less)

lemma unat_lt64: "unat (w :: u64) < 18446744073709551616"
  using unat_lt [of w] by simp

lemma unat_lt32: "unat (w :: u32) < 4294967296"
  using unat_lt [of w] by simp

lemma unat_lt16: "unat (w :: u16) < 65536"
  using unat_lt [of w] by simp

lemma unat_lt8: "unat (w :: u8) < 256"
  using unat_lt [of w] by simp

section \<open>Arrays\<close>

lemma nth_list_update_other [simp]: "i \<noteq> j \<Longrightarrow> xs[i := v] ! j = xs ! j"
  by simp

lemma set_list_update_subset: "set (xs[i := v]) \<subseteq> insert v (set xs)"
  by (rule set_update_subset_insert)

end
