(* ===== verification/Task_Model.thy ===== *)
theory Task_Model
  imports Exo_Prelude
begin

text \<open>
  The data of \<^verbatim>\<open>sched/cred.h\<close>, \<^verbatim>\<open>sched/task.h\<close>, \<^verbatim>\<open>ipc/signal.h\<close> and the per-CPU
  scheduler state of \<^verbatim>\<open>sched/sched.c\<close>, gathered in one kernel state.
  A task pointer is a number (\<open>tptr\<close>) into the store \<open>k_task\<close>; NULL is
  \<open>None\<close>.  An intrusive list (\<^verbatim>\<open>next\<close>, \<^verbatim>\<open>sleep_next\<close>, \<^verbatim>\<open>child_next\<close>) is the HOL
  list of its elements in traversal order, held where the code holds the head
  pointer.  Fields the modelled operations never touch (saved registers, FPU
  buffer, environment block) are left out.
\<close>

type_synonym tptr = nat

section \<open>Credentials (sched/cred.h)\<close>

record cred =
  cr_uid :: u32
  cr_euid :: u32
  cr_suid :: u32
  cr_fsuid :: u32
  cr_gid :: u32
  cr_egid :: u32
  cr_sgid :: u32
  cr_fsgid :: u32
  cap_effective :: u64
  cap_permitted :: u64
  cap_inheritable :: u64
  cap_bounding :: u64
  securebits :: u32
  cr_groups :: "u32 list"
  group_count :: u32

section \<open>Signals and memory areas\<close>

record kernel_sigaction =
  sa_handler :: u64
  sa_flags :: u64
  sa_restorer :: u64
  sa_mask :: u64

record vma =
  v_start :: u64
  v_end :: u64
  v_flags :: u32
  v_file :: "nat option"
  v_file_offset :: u64
  v_file_size :: u64
  v_mmap_flags :: u32

section \<open>Tasks (sched/task.h)\<close>

datatype task_state =
  TASK_RUNNABLE | TASK_RUNNING | TASK_BLOCKED | TASK_DEAD | TASK_SLEEPING | TASK_ZOMBIE

record task =
  t_state :: task_state
  t_tid :: u32
  t_cpu_id :: nat
  t_name :: string
  t_pid :: u32
  t_ppid :: u32
  t_pgid :: u32
  t_sid :: u32
  t_cred :: cred
  t_umask :: u32
  t_no_new_privs :: u8
  t_keep_caps :: u8
  t_seccomp_mode :: u8
  t_parent :: "tptr option"
  t_children :: "tptr list"
  t_exit_status :: int
  t_is_user :: bool
  t_is_kthread :: bool
  t_priority :: u8
  t_weight :: u32
  t_vruntime :: u64
  t_deadline :: u64
  t_slice_ticks :: u32
  t_ticks_used :: u32
  t_user_ticks :: u64
  t_system_ticks :: u64
  t_nvcsw :: u64
  t_nivcsw :: u64
  t_vruntime_initialized :: bool
  t_sleep_deadline :: u64
  t_itimer_real_deadline :: u64
  t_itimer_real_interval :: u64
  t_sig_pending :: u64
  t_sig_mask :: u64
  t_sig_handlers :: "u64 list option"
  t_sigactions :: "kernel_sigaction list option"
  t_mailbox :: "nat option"
  t_vma_list :: "vma list"
  t_brk_base :: u64
  t_brk_current :: u64
  t_mmap_next :: u64
  t_fd_table :: "nat option list"
  t_fd_flags :: "u8 list"
  t_altstack_sp :: u64
  t_altstack_size :: u64
  t_altstack_flags :: u32

section \<open>Per-CPU scheduler state and the kernel state\<close>

record sched_cpu_stat =
  st_user_ticks :: u64
  st_system_ticks :: u64
  st_idle_ticks :: u64

record cpu_sched =
  cs_current :: "tptr option"
  cs_rq :: "tptr list"
  cs_V_system :: u64
  cs_idle :: "tptr option"
  cs_sleep :: "tptr list"
  cs_queue_len :: u32
  cs_stats :: sched_cpu_stat

record kernel =
  k_task :: "tptr \<Rightarrow> task"
  k_table :: "tptr option list"
  k_sched :: "nat \<Rightarrow> cpu_sched"
  k_self :: "nat option"
  k_init_task :: "tptr option"
  k_jiffies :: u64
  k_next_user_tid :: u32
  k_next_kthread_tid :: u32
  k_rr_cpu :: u32

definition TASK_TABLE_SIZE :: nat where "TASK_TABLE_SIZE = 1024"

definition upd_task :: "tptr \<Rightarrow> (task \<Rightarrow> task) \<Rightarrow> kernel \<Rightarrow> kernel" where
  "upd_task p f k = k\<lparr>k_task := (k_task k)(p := f (k_task k p))\<rparr>"

definition upd_sched :: "nat \<Rightarrow> (cpu_sched \<Rightarrow> cpu_sched) \<Rightarrow> kernel \<Rightarrow> kernel" where
  "upd_sched c f k = k\<lparr>k_sched := (k_sched k)(c := f (k_sched k c))\<rparr>"

section \<open>Zeroed memory\<close>

text \<open>What \<^verbatim>\<open>memset(t, 0, sizeof(*t))\<close> leaves in a fresh task.\<close>

definition TASK_FD_TABLE_SIZE :: nat where "TASK_FD_TABLE_SIZE = 256"

definition cred_zero :: cred where
  "cred_zero =
     \<lparr>cr_uid = 0, cr_euid = 0, cr_suid = 0, cr_fsuid = 0,
      cr_gid = 0, cr_egid = 0, cr_sgid = 0, cr_fsgid = 0,
      cap_effective = 0, cap_permitted = 0, cap_inheritable = 0, cap_bounding = 0,
      securebits = 0, cr_groups = replicate 32 0, group_count = 0\<rparr>"

definition task_zero :: task where
  "task_zero =
     \<lparr>t_state = TASK_RUNNABLE, t_tid = 0, t_cpu_id = 0,
      t_name = [], t_pid = 0, t_ppid = 0,
      t_pgid = 0, t_sid = 0, t_cred = cred_zero,
      t_umask = 0, t_no_new_privs = 0, t_keep_caps = 0,
      t_seccomp_mode = 0, t_parent = None, t_children = [], t_exit_status = 0,
      t_is_user = False, t_is_kthread = False, t_priority = 0,
      t_weight = 0, t_vruntime = 0, t_deadline = 0,
      t_slice_ticks = 0, t_ticks_used = 0, t_user_ticks = 0,
      t_system_ticks = 0, t_nvcsw = 0, t_nivcsw = 0,
      t_vruntime_initialized = False, t_sleep_deadline = 0, t_itimer_real_deadline = 0,
      t_itimer_real_interval = 0, t_sig_pending = 0, t_sig_mask = 0,
      t_sig_handlers = None, t_sigactions = None, t_mailbox = None,
      t_vma_list = [], t_brk_base = 0, t_brk_current = 0,
      t_mmap_next = 0, t_fd_table = replicate TASK_FD_TABLE_SIZE None, t_fd_flags = replicate TASK_FD_TABLE_SIZE 0,
      t_altstack_sp = 0, t_altstack_size = 0, t_altstack_flags = 0\<rparr>"

definition cpu_sched_zero :: cpu_sched where
  "cpu_sched_zero =
     \<lparr>cs_current = None, cs_rq = [], cs_V_system = 0, cs_idle = None, cs_sleep = [],
      cs_queue_len = 0, cs_stats = \<lparr>st_user_ticks = 0, st_system_ticks = 0, st_idle_ticks = 0\<rparr>\<rparr>"

definition kernel_zero :: kernel where
  "kernel_zero =
     \<lparr>k_task = (\<lambda>_. task_zero), k_table = replicate TASK_TABLE_SIZE None,
      k_sched = (\<lambda>_. cpu_sched_zero), k_self = None, k_init_task = None, k_jiffies = 0,
      k_next_user_tid = 1, k_next_kthread_tid = 1023, k_rr_cpu = 0\<rparr>"

section \<open>Lookup\<close>

definition sched_current :: "kernel \<Rightarrow> tptr option" where
  "sched_current k = (case k_self k of None \<Rightarrow> None | Some c \<Rightarrow> cs_current (k_sched k c))"

definition task_get_from_table :: "kernel \<Rightarrow> nat \<Rightarrow> tptr option" where
  "task_get_from_table k index =
     (if index \<ge> TASK_TABLE_SIZE then None else k_table k ! index)"

definition task_lookup :: "kernel \<Rightarrow> u32 \<Rightarrow> tptr option" where
  "task_lookup k tid =
     (if tid = 0 \<or> unat tid \<ge> TASK_TABLE_SIZE then None else k_table k ! unat tid)"

definition task_register :: "tptr \<Rightarrow> kernel \<Rightarrow> kernel" where
  "task_register t k =
     (let tid = unat (t_tid (k_task k t)) in
      if tid < TASK_TABLE_SIZE then k\<lparr>k_table := (k_table k)[tid := Some t]\<rparr> else k)"

definition task_unregister :: "tptr \<Rightarrow> kernel \<Rightarrow> kernel" where
  "task_unregister t k =
     (let tid = unat (t_tid (k_task k t)) in
      if tid < TASK_TABLE_SIZE then k\<lparr>k_table := (k_table k)[tid := None]\<rparr> else k)"

section \<open>State algebra\<close>

lemma upd_task_same [kernel_simps, simp]: "k_task (upd_task p f k) p = f (k_task k p)"
  by (simp add: upd_task_def)

lemma upd_task_other [kernel_simps]: "q \<noteq> p \<Longrightarrow> k_task (upd_task p f k) q = k_task k q"
  by (simp add: upd_task_def)

lemma upd_task_apply: "k_task (upd_task p f k) q = (if q = p then f (k_task k p) else k_task k q)"
  by (simp add: upd_task_def)

lemma upd_task_frame [kernel_simps, simp]:
  "k_table (upd_task p f k) = k_table k"
  "k_sched (upd_task p f k) = k_sched k"
  "k_self (upd_task p f k) = k_self k"
  "k_init_task (upd_task p f k) = k_init_task k"
  "k_jiffies (upd_task p f k) = k_jiffies k"
  by (simp_all add: upd_task_def)

lemma upd_sched_same [kernel_simps, simp]: "k_sched (upd_sched c f k) c = f (k_sched k c)"
  by (simp add: upd_sched_def)

lemma upd_sched_other [kernel_simps]: "d \<noteq> c \<Longrightarrow> k_sched (upd_sched c f k) d = k_sched k d"
  by (simp add: upd_sched_def)

lemma upd_sched_apply:
  "k_sched (upd_sched c f k) d = (if d = c then f (k_sched k c) else k_sched k d)"
  by (simp add: upd_sched_def)

lemma upd_sched_frame [kernel_simps, simp]:
  "k_task (upd_sched c f k) = k_task k"
  "k_table (upd_sched c f k) = k_table k"
  "k_self (upd_sched c f k) = k_self k"
  "k_init_task (upd_sched c f k) = k_init_task k"
  "k_jiffies (upd_sched c f k) = k_jiffies k"
  by (simp_all add: upd_sched_def)

lemma sched_current_upd_task [kernel_simps, simp]:
  "sched_current (upd_task p f k) = sched_current k"
  by (simp add: sched_current_def split: option.splits)

lemma task_lookup_upd_task [kernel_simps, simp]:
  "task_lookup (upd_task p f k) = task_lookup k"
  by (rule ext) (simp add: task_lookup_def)

lemma task_lookup_register:
  assumes "length (k_table k) = TASK_TABLE_SIZE" "t_tid (k_task k t) \<noteq> 0"
    "unat (t_tid (k_task k t)) < TASK_TABLE_SIZE"
  shows "task_lookup (task_register t k) (t_tid (k_task k t)) = Some t"
  using assms by (simp add: task_lookup_def task_register_def Let_def)

end
