(* ===== verification/Cred.thy ===== *)
theory Cred
  imports Task_Model
begin

text \<open>
  Credentials and capabilities: the inline operations of \<^verbatim>\<open>sched/cred.h\<close>, the
  identity system calls of \<^verbatim>\<open>syscall/syscall.c\<close> and the credential
  transition of \<^verbatim>\<open>sys_execve\<close>.  An operation on one task is a function
  \<open>task \<Rightarrow> task \<times> int\<close>, the integer being the value the C function returns; a
  system call applies it to the current task (\<open>on_current\<close>) and returns
  \<open>-ESRCH\<close> when there is none, which is also the NULL test the inline helpers
  repeat.  A user pointer to an input array is an optional index function and
  a user pointer to an output buffer is a flag whether it is NULL; what is
  stored through it is part of the result.
\<close>

section \<open>sched/cred.h\<close>

definition TASK_MAX_GROUPS :: nat where "TASK_MAX_GROUPS = 32"

abbreviation CAP_DAC_OVERRIDE :: nat where "CAP_DAC_OVERRIDE \<equiv> 1"
abbreviation CAP_DAC_READ_SEARCH :: nat where "CAP_DAC_READ_SEARCH \<equiv> 2"
abbreviation CAP_FOWNER :: nat where "CAP_FOWNER \<equiv> 3"
abbreviation CAP_KILL :: nat where "CAP_KILL \<equiv> 5"
abbreviation CAP_SETGID :: nat where "CAP_SETGID \<equiv> 6"
abbreviation CAP_SETUID :: nat where "CAP_SETUID \<equiv> 7"
abbreviation CAP_SETPCAP :: nat where "CAP_SETPCAP \<equiv> 8"
abbreviation CAP_SYS_ADMIN :: nat where "CAP_SYS_ADMIN \<equiv> 21"
abbreviation CAP_LAST_CAP :: nat where "CAP_LAST_CAP \<equiv> 40"

definition SECBIT_NOROOT :: u32 where "SECBIT_NOROOT = 1"

definition cap_full_mask_local :: u64 where
  "cap_full_mask_local =
     (if CAP_LAST_CAP \<ge> 63 then NOT 0 else push_bit (CAP_LAST_CAP + 1) 1 - 1)"

definition cred_init :: cred where
  "cred_init =
     \<lparr>cr_uid = 0, cr_euid = 0, cr_suid = 0, cr_fsuid = 0,
      cr_gid = 0, cr_egid = 0, cr_sgid = 0, cr_fsgid = 0,
      cap_effective = cap_full_mask_local, cap_permitted = cap_full_mask_local,
      cap_inheritable = 0, cap_bounding = cap_full_mask_local,
      securebits = 0, cr_groups = replicate TASK_MAX_GROUPS 0, group_count = 1\<rparr>"

definition capable :: "cred \<Rightarrow> nat \<Rightarrow> bool" where
  "capable c cap = (if cap \<ge> 64 then False else cap_effective c AND push_bit cap 1 \<noteq> 0)"

section \<open>Permission helpers\<close>

definition cred_can_setuid :: "task \<Rightarrow> bool" where
  "cred_can_setuid t = capable (t_cred t) CAP_SETUID"

definition cred_can_setgid :: "task \<Rightarrow> bool" where
  "cred_can_setgid t = capable (t_cred t) CAP_SETGID"

definition can_set_uid_unpriv :: "task \<Rightarrow> u32 \<Rightarrow> bool" where
  "can_set_uid_unpriv t uid \<longleftrightarrow>
     uid = cr_uid (t_cred t) \<or> uid = cr_euid (t_cred t) \<or> uid = cr_suid (t_cred t)"

definition can_set_gid_unpriv :: "task \<Rightarrow> u32 \<Rightarrow> bool" where
  "can_set_gid_unpriv t gid \<longleftrightarrow>
     gid = cr_gid (t_cred t) \<or> gid = cr_egid (t_cred t) \<or> gid = cr_sgid (t_cred t)"

definition upd_cred :: "(cred \<Rightarrow> cred) \<Rightarrow> task \<Rightarrow> task" where
  "upd_cred f t = t\<lparr>t_cred := f (t_cred t)\<rparr>"

definition cred_fixup_caps_on_euid_change :: "u32 \<Rightarrow> u32 \<Rightarrow> task \<Rightarrow> task" where
  "cred_fixup_caps_on_euid_change old_euid new_euid t =
     (if old_euid = new_euid then t
      else if securebits (t_cred t) AND SECBIT_NOROOT \<noteq> 0 then t
      else if old_euid = 0 \<and> new_euid \<noteq> 0 then
        (if t_keep_caps t = 0
         then upd_cred (\<lambda>c. c\<lparr>cap_effective := 0, cap_permitted := 0\<rparr>) t
         else upd_cred (\<lambda>c. c\<lparr>cap_effective := cap_effective c AND cap_permitted c\<rparr>) t)
      else if old_euid \<noteq> 0 \<and> new_euid = 0 then
        (let prm = cap_full_mask_local AND cap_bounding (t_cred t)
         in upd_cred (\<lambda>c. c\<lparr>cap_permitted := prm, cap_effective := prm\<rparr>) t)
      else upd_cred (\<lambda>c. c\<lparr>cap_effective := cap_effective c AND cap_permitted c\<rparr>) t)"

section \<open>Setting user and group ids\<close>

definition no_change :: u32 where "no_change = - 1"

definition id_denied :: "u32 \<Rightarrow> u32 \<Rightarrow> u32 \<Rightarrow> u32 \<Rightarrow> bool" where
  "id_denied i r e s \<longleftrightarrow> i \<noteq> no_change \<and> i \<noteq> r \<and> i \<noteq> e \<and> i \<noteq> s"

text \<open>The assignments \<^verbatim>\<open>if (xid != no_change) t->cred.xid = xid;\<close> of the two
  functions, then the functions themselves.\<close>

definition assign_resuid :: "u32 \<Rightarrow> u32 \<Rightarrow> u32 \<Rightarrow> task \<Rightarrow> task" where
  "assign_resuid ruid euid suid t =
     (let t1 = (if ruid \<noteq> no_change then upd_cred (\<lambda>c. c\<lparr>cr_uid := ruid\<rparr>) t else t);
          t2 = (if euid \<noteq> no_change
                then upd_cred (\<lambda>c. c\<lparr>cr_euid := euid, cr_fsuid := euid\<rparr>) t1 else t1)
      in if suid \<noteq> no_change then upd_cred (\<lambda>c. c\<lparr>cr_suid := suid\<rparr>) t2 else t2)"

definition cred_setresuid :: "u32 \<Rightarrow> u32 \<Rightarrow> u32 \<Rightarrow> task \<Rightarrow> task \<times> int" where
  "cred_setresuid ruid euid suid t =
     (let old_euid = cr_euid (t_cred t);
          denied = (\<lambda>i. id_denied i (cr_uid (t_cred t)) (cr_euid (t_cred t)) (cr_suid (t_cred t)))
      in if \<not> cred_can_setuid t \<and> (denied ruid \<or> denied euid \<or> denied suid) then (t, - EPERM)
         else
           let t' = assign_resuid ruid euid suid t
           in (cred_fixup_caps_on_euid_change old_euid (cr_euid (t_cred t')) t', 0))"

definition assign_resgid :: "u32 \<Rightarrow> u32 \<Rightarrow> u32 \<Rightarrow> task \<Rightarrow> task" where
  "assign_resgid rgid egid sgid t =
     (let t1 = (if rgid \<noteq> no_change then upd_cred (\<lambda>c. c\<lparr>cr_gid := rgid\<rparr>) t else t);
          t2 = (if egid \<noteq> no_change
                then upd_cred (\<lambda>c. c\<lparr>cr_egid := egid, cr_fsgid := egid\<rparr>) t1 else t1)
      in if sgid \<noteq> no_change then upd_cred (\<lambda>c. c\<lparr>cr_sgid := sgid\<rparr>) t2 else t2)"

definition cred_setresgid :: "u32 \<Rightarrow> u32 \<Rightarrow> u32 \<Rightarrow> task \<Rightarrow> task \<times> int" where
  "cred_setresgid rgid egid sgid t =
     (let denied = (\<lambda>i. id_denied i (cr_gid (t_cred t)) (cr_egid (t_cred t)) (cr_sgid (t_cred t)))
      in if \<not> cred_can_setgid t \<and> (denied rgid \<or> denied egid \<or> denied sgid) then (t, - EPERM)
         else (assign_resgid rgid egid sgid t, 0))"

definition on_current :: "(task \<Rightarrow> task \<times> int) \<Rightarrow> kernel \<Rightarrow> kernel \<times> int" where
  "on_current f k =
     (case sched_current k of
        None \<Rightarrow> (k, - ESRCH)
      | Some p \<Rightarrow> (upd_task p (\<lambda>t. fst (f t)) k, snd (f (k_task k p))))"

definition do_setuid :: "u32 \<Rightarrow> task \<Rightarrow> task \<times> int" where
  "do_setuid uid t =
     (let old_euid = cr_euid (t_cred t) in
      if cred_can_setuid t then
        (let t = upd_cred (\<lambda>c. c\<lparr>cr_uid := uid, cr_euid := uid, cr_suid := uid, cr_fsuid := uid\<rparr>) t
         in (cred_fixup_caps_on_euid_change old_euid (cr_euid (t_cred t)) t, 0))
      else if \<not> can_set_uid_unpriv t uid then (t, - EPERM)
      else
        (let t = upd_cred (\<lambda>c. c\<lparr>cr_euid := uid, cr_fsuid := uid\<rparr>) t
         in (cred_fixup_caps_on_euid_change old_euid (cr_euid (t_cred t)) t, 0)))"

definition sc_setuid :: "u64 \<Rightarrow> kernel \<Rightarrow> kernel \<times> int" where
  "sc_setuid a = on_current (do_setuid (ucast a))"

definition do_setgid :: "u32 \<Rightarrow> task \<Rightarrow> task \<times> int" where
  "do_setgid gid t =
     (if \<not> cred_can_setgid t \<and> \<not> can_set_gid_unpriv t gid then (t, - EPERM)
      else
        let t = (if cred_can_setgid t
                 then upd_cred (\<lambda>c. c\<lparr>cr_gid := gid, cr_egid := gid, cr_sgid := gid, cr_fsgid := gid\<rparr>) t
                 else upd_cred (\<lambda>c. c\<lparr>cr_egid := gid, cr_fsgid := gid\<rparr>) t);
            t = (if group_count (t_cred t) = 0
                 then upd_cred (\<lambda>c. c\<lparr>cr_groups := (cr_groups c)[0 := gid], group_count := 1\<rparr>) t
                 else t)
        in (t, 0))"

definition sc_setgid :: "u64 \<Rightarrow> kernel \<Rightarrow> kernel \<times> int" where
  "sc_setgid a = on_current (do_setgid (ucast a))"

definition sc_setreuid :: "u64 \<Rightarrow> u64 \<Rightarrow> kernel \<Rightarrow> kernel \<times> int" where
  "sc_setreuid a b = on_current (cred_setresuid (ucast a) (ucast b) no_change)"

definition sc_setregid :: "u64 \<Rightarrow> u64 \<Rightarrow> kernel \<Rightarrow> kernel \<times> int" where
  "sc_setregid a b = on_current (cred_setresgid (ucast a) (ucast b) no_change)"

definition sc_setresuid :: "u64 \<Rightarrow> u64 \<Rightarrow> u64 \<Rightarrow> kernel \<Rightarrow> kernel \<times> int" where
  "sc_setresuid a b c = on_current (cred_setresuid (ucast a) (ucast b) (ucast c))"

definition sc_setresgid :: "u64 \<Rightarrow> u64 \<Rightarrow> u64 \<Rightarrow> kernel \<Rightarrow> kernel \<times> int" where
  "sc_setresgid a b c = on_current (cred_setresgid (ucast a) (ucast b) (ucast c))"

definition do_setfsuid :: "u32 \<Rightarrow> task \<Rightarrow> task \<times> int" where
  "do_setfsuid uid t =
     (let old = cr_fsuid (t_cred t);
          ok = (cred_can_setuid t \<or> uid = cr_uid (t_cred t) \<or> uid = cr_euid (t_cred t) \<or>
                uid = cr_suid (t_cred t) \<or> uid = cr_fsuid (t_cred t))
      in (if ok then upd_cred (\<lambda>c. c\<lparr>cr_fsuid := uid\<rparr>) t else t, uint old))"

definition do_setfsgid :: "u32 \<Rightarrow> task \<Rightarrow> task \<times> int" where
  "do_setfsgid gid t =
     (let old = cr_fsgid (t_cred t);
          ok = (cred_can_setgid t \<or> gid = cr_gid (t_cred t) \<or> gid = cr_egid (t_cred t) \<or>
                gid = cr_sgid (t_cred t) \<or> gid = cr_fsgid (t_cred t))
      in (if ok then upd_cred (\<lambda>c. c\<lparr>cr_fsgid := gid\<rparr>) t else t, uint old))"

definition sc_setfsuid :: "u64 \<Rightarrow> kernel \<Rightarrow> kernel \<times> int" where
  "sc_setfsuid a = on_current (do_setfsuid (ucast a))"

definition sc_setfsgid :: "u64 \<Rightarrow> kernel \<Rightarrow> kernel \<times> int" where
  "sc_setfsgid a = on_current (do_setfsgid (ucast a))"

section \<open>Supplementary groups\<close>

definition sc_getgroups :: "u64 \<Rightarrow> bool \<Rightarrow> kernel \<Rightarrow> int \<times> u32 list" where
  "sc_getgroups a list_nonnull k =
     (case sched_current k of
        None \<Rightarrow> (- ESRCH, [])
      | Some p \<Rightarrow>
          let c = t_cred (k_task k p); sz = c_int a; count = sint (group_count c)
          in if sz = 0 then (count, [])
             else if sz < count then (- EINVAL, [])
             else if \<not> list_nonnull then (- EFAULT, [])
             else (count, map (\<lambda>i. cr_groups c ! i) [0..<nat count]))"

definition do_setgroups :: "int \<Rightarrow> (nat \<Rightarrow> u32) option \<Rightarrow> task \<Rightarrow> task \<times> int" where
  "do_setgroups sz list t =
     (if \<not> capable (t_cred t) CAP_SETGID then (t, - EPERM)
      else if sz < 0 \<or> sz > int TASK_MAX_GROUPS then (t, - EINVAL)
      else if sz > 0 \<and> list = None then (t, - EFAULT)
      else
        let n = nat sz;
            elem = (\<lambda>i. if i < n then the list i else 0);
            t = upd_cred (\<lambda>c. c\<lparr>cr_groups := map elem [0..<TASK_MAX_GROUPS],
                               group_count := of_int sz\<rparr>) t;
            t = (if group_count (t_cred t) = 0
                 then upd_cred (\<lambda>c. c\<lparr>cr_groups := (cr_groups c)[0 := cr_gid c], group_count := 1\<rparr>) t
                 else t)
        in (t, 0))"

definition sc_setgroups :: "u64 \<Rightarrow> (nat \<Rightarrow> u32) option \<Rightarrow> kernel \<Rightarrow> kernel \<times> int" where
  "sc_setgroups a list = on_current (do_setgroups (c_int a) list)"

section \<open>Reading the ids\<close>

definition sc_getresuid :: "bool \<Rightarrow> bool \<Rightarrow> bool \<Rightarrow> kernel \<Rightarrow> int \<times> (u32 \<times> u32 \<times> u32) option" where
  "sc_getresuid r e s k =
     (case sched_current k of
        None \<Rightarrow> (- ESRCH, None)
      | Some p \<Rightarrow>
          if \<not> r \<or> \<not> e \<or> \<not> s then (- EFAULT, None)
          else let c = t_cred (k_task k p) in (0, Some (cr_uid c, cr_euid c, cr_suid c)))"

definition sc_getresgid :: "bool \<Rightarrow> bool \<Rightarrow> bool \<Rightarrow> kernel \<Rightarrow> int \<times> (u32 \<times> u32 \<times> u32) option" where
  "sc_getresgid r e s k =
     (case sched_current k of
        None \<Rightarrow> (- ESRCH, None)
      | Some p \<Rightarrow>
          if \<not> r \<or> \<not> e \<or> \<not> s then (- EFAULT, None)
          else let c = t_cred (k_task k p) in (0, Some (cr_gid c, cr_egid c, cr_sgid c)))"

section \<open>Capability sets\<close>

record cap_user_header =
  cap_version :: u32
  cap_pid :: int

record cap_user_data =
  cud_effective :: u32
  cud_permitted :: u32
  cud_inheritable :: u32

definition cap_target :: "kernel \<Rightarrow> tptr \<Rightarrow> cap_user_header \<Rightarrow> tptr option" where
  "cap_target k cur hdr =
     (if cap_pid hdr > 0 then task_lookup k (c_u32 (cap_pid hdr)) else Some cur)"

definition lo32 :: "u64 \<Rightarrow> u32" where "lo32 w = ucast (w AND 0xFFFFFFFF)"
definition hi32 :: "u64 \<Rightarrow> u32" where "hi32 w = ucast (drop_bit 32 w)"

definition join32 :: "u32 \<Rightarrow> u32 \<Rightarrow> u64" where
  "join32 hi lo = push_bit 32 (ucast hi) OR ucast lo"

definition sc_capget ::
  "cap_user_header option \<Rightarrow> bool \<Rightarrow> kernel \<Rightarrow> int \<times> (cap_user_data \<times> cap_user_data) option" where
  "sc_capget hdr data_nonnull k =
     (case hdr of None \<Rightarrow> (- EFAULT, None) | Some h \<Rightarrow>
      if \<not> data_nonnull then (- EFAULT, None) else
      case sched_current k of None \<Rightarrow> (- ESRCH, None) | Some cur \<Rightarrow>
      case cap_target k cur h of None \<Rightarrow> (- ESRCH, None) | Some target \<Rightarrow>
      let c = t_cred (k_task k target); eff = cap_effective c;
          prm = cap_permitted c; inh = cap_inheritable c
      in (0, Some (\<lparr>cud_effective = lo32 eff, cud_permitted = lo32 prm, cud_inheritable = lo32 inh\<rparr>,
                   \<lparr>cud_effective = hi32 eff, cud_permitted = hi32 prm, cud_inheritable = hi32 inh\<rparr>)))"

definition sc_capset ::
  "cap_user_header option \<Rightarrow> (cap_user_data \<times> cap_user_data) option \<Rightarrow> kernel \<Rightarrow> kernel \<times> int" where
  "sc_capset hdr data k =
     (case hdr of None \<Rightarrow> (k, - EFAULT) | Some h \<Rightarrow>
      case data of None \<Rightarrow> (k, - EFAULT) | Some (d0, d1) \<Rightarrow>
      case sched_current k of None \<Rightarrow> (k, - ESRCH) | Some cur \<Rightarrow>
      case cap_target k cur h of None \<Rightarrow> (k, - ESRCH) | Some target \<Rightarrow>
      if target \<noteq> cur \<and> \<not> capable (t_cred (k_task k cur)) CAP_SETPCAP then (k, - EPERM) else
      let new_eff = join32 (cud_effective d1) (cud_effective d0);
          new_prm = join32 (cud_permitted d1) (cud_permitted d0);
          new_inh = join32 (cud_inheritable d1) (cud_inheritable d0)
      in if new_eff AND NOT new_prm \<noteq> 0 then (k, - EPERM)
         else if new_prm AND NOT (cap_permitted (t_cred (k_task k target))) \<noteq> 0 then (k, - EPERM)
         else if new_inh AND NOT (cap_bounding (t_cred (k_task k target))) \<noteq> 0 then (k, - EPERM)
         else (upd_task target (upd_cred (\<lambda>c. c\<lparr>cap_effective := new_eff,
                 cap_permitted := new_prm, cap_inheritable := new_inh\<rparr>)) k, 0))"

section \<open>prctl and seccomp\<close>

text \<open>\<open>uname\<close> is the NUL-terminated string at the user address \<open>b\<close>, read by
  \<open>PR_SET_NAME\<close>; \<open>prctl_get_name\<close> is what \<open>PR_GET_NAME\<close> stores at \<open>b\<close>, up to the
  zero padding of the 16-byte buffer.\<close>

abbreviation SECCOMP_MODE_DISABLED :: u8 where "SECCOMP_MODE_DISABLED \<equiv> 0"
abbreviation SECCOMP_MODE_STRICT :: u8 where "SECCOMP_MODE_STRICT \<equiv> 1"
abbreviation SECCOMP_MODE_FILTER :: u8 where "SECCOMP_MODE_FILTER \<equiv> 2"

definition seccomp_set_strict :: "task \<Rightarrow> task \<times> int" where
  "seccomp_set_strict t =
     (if t_seccomp_mode t \<noteq> SECCOMP_MODE_DISABLED \<and> t_seccomp_mode t \<noteq> SECCOMP_MODE_STRICT
      then (t, - EINVAL) else (t\<lparr>t_seccomp_mode := SECCOMP_MODE_STRICT\<rparr>, 0))"

definition seccomp_set_filter :: "task \<Rightarrow> task \<times> int" where
  "seccomp_set_filter t =
     (if t_no_new_privs t = 0 \<and> \<not> capable (t_cred t) CAP_SYS_ADMIN
      then (t, - EACCES) else (t\<lparr>t_seccomp_mode := SECCOMP_MODE_FILTER\<rparr>, 0))"

definition prctl_get_name :: "task \<Rightarrow> string" where
  "prctl_get_name t = take 15 (t_name t)"

definition do_prctl :: "string \<Rightarrow> u64 \<Rightarrow> u64 \<Rightarrow> u64 \<Rightarrow> u64 \<Rightarrow> u64 \<Rightarrow> task \<Rightarrow> task \<times> int" where
  "do_prctl uname a b c d e t =
     (let opt = c_int a in
      if opt = 38 then
        (if b \<noteq> 1 \<or> c \<noteq> 0 \<or> d \<noteq> 0 \<or> e \<noteq> 0 then (t, - EINVAL)
         else (t\<lparr>t_no_new_privs := 1\<rparr>, 0))
      else if opt = 39 then (t, if t_no_new_privs t \<noteq> 0 then 1 else 0)
      else if opt = 8 then
        (if b > 1 then (t, - EINVAL) else (t\<lparr>t_keep_caps := (if b \<noteq> 0 then 1 else 0)\<rparr>, 0))
      else if opt = 7 then (t, if t_keep_caps t \<noteq> 0 then 1 else 0)
      else if opt = 15 then
        (if b = 0 then (t, - EFAULT) else (t\<lparr>t_name := take 15 uname\<rparr>, 0))
      else if opt = 16 then (if b = 0 then (t, - EFAULT) else (t, 0))
      else if opt = 22 then
        (if b = 1 then (if c \<noteq> 0 \<or> d \<noteq> 0 \<or> e \<noteq> 0 then (t, - EINVAL) else seccomp_set_strict t)
         else if b = 2 then seccomp_set_filter t
         else (t, - EINVAL))
      else if opt = 21 then (t, uint (t_seccomp_mode t))
      else (t, - EINVAL))"

definition sc_prctl :: "string \<Rightarrow> u64 \<Rightarrow> u64 \<Rightarrow> u64 \<Rightarrow> u64 \<Rightarrow> u64 \<Rightarrow> kernel \<Rightarrow> kernel \<times> int" where
  "sc_prctl uname a b c d e = on_current (do_prctl uname a b c d e)"

definition do_seccomp :: "u64 \<Rightarrow> u64 \<Rightarrow> u64 \<Rightarrow> task \<Rightarrow> task \<times> int" where
  "do_seccomp a b c t =
     (let op = (ucast a :: u32); flags = (ucast b :: u32) in
      if op = 0 then (if flags \<noteq> 0 \<or> c \<noteq> 0 then (t, - EINVAL) else seccomp_set_strict t)
      else if op = 1 then seccomp_set_filter t
      else (t, - EINVAL))"

definition sc_seccomp :: "u64 \<Rightarrow> u64 \<Rightarrow> u64 \<Rightarrow> kernel \<Rightarrow> kernel \<times> int" where
  "sc_seccomp a b c = on_current (do_seccomp a b c)"

definition seccomp_strict_allows_syscall :: "u64 \<Rightarrow> bool" where
  "seccomp_strict_allows_syscall nr \<longleftrightarrow> nr = 0 \<or> nr = 1 \<or> nr = 60 \<or> nr = 15"

section \<open>Process groups and sessions\<close>

definition sc_getpgid :: "u64 \<Rightarrow> kernel \<Rightarrow> int" where
  "sc_getpgid a k =
     (if c_int a = 0 then (case sched_current k of None \<Rightarrow> - ESRCH
                           | Some p \<Rightarrow> uint (t_pgid (k_task k p)))
      else case task_lookup k (c_u32 (c_int a)) of None \<Rightarrow> - ESRCH
           | Some p \<Rightarrow> uint (t_pgid (k_task k p)))"

definition sc_getsid :: "u64 \<Rightarrow> kernel \<Rightarrow> int" where
  "sc_getsid a k =
     (if c_int a = 0 then (case sched_current k of None \<Rightarrow> - ESRCH
                           | Some p \<Rightarrow> uint (t_sid (k_task k p)))
      else case task_lookup k (c_u32 (c_int a)) of None \<Rightarrow> - ESRCH
           | Some p \<Rightarrow> uint (t_sid (k_task k p)))"

text \<open>The checks of \<^verbatim>\<open>setpgid\<close> once its target \<open>t\<close> is found: an error, or the new
  process group.\<close>

definition setpgid_decide :: "kernel \<Rightarrow> tptr \<Rightarrow> tptr \<Rightarrow> int \<Rightarrow> int + u32" where
  "setpgid_decide k cur t pgid0 =
     (let tt = k_task k t; tc = k_task k cur;
          pgid = (if pgid0 = 0 then sint (t_pid tt) else pgid0)
      in if t \<noteq> cur \<and> t_parent tt \<noteq> Some cur then Inl (- EPERM)
         else if t_sid tt \<noteq> t_sid tc then Inl (- EPERM)
         else if t_pid tt = t_sid tt then Inl (- EPERM)
         else if pgid < 0 then Inl (- EINVAL)
         else if c_u32 pgid \<noteq> t_pid tt then
           (case task_lookup k (c_u32 pgid) of
              None \<Rightarrow> Inl (- EPERM)
            | Some g \<Rightarrow> if t_sid (k_task k g) \<noteq> t_sid tc then Inl (- EPERM)
                        else Inr (c_u32 pgid))
         else Inr (c_u32 pgid))"

definition sc_setpgid :: "u64 \<Rightarrow> u64 \<Rightarrow> kernel \<Rightarrow> kernel \<times> int" where
  "sc_setpgid a b k =
     (case sched_current k of
        None \<Rightarrow> (k, - ESRCH)
      | Some cur \<Rightarrow>
          (case (if c_int a = 0 then Some cur else task_lookup k (c_u32 (c_int a))) of
             None \<Rightarrow> (k, - ESRCH)
           | Some t \<Rightarrow>
               (case setpgid_decide k cur t (c_int b) of
                  Inl e \<Rightarrow> (k, e)
                | Inr g \<Rightarrow> (upd_task t (\<lambda>x. x\<lparr>t_pgid := g\<rparr>) k, 0))))"

definition do_setsid :: "task \<Rightarrow> task \<times> int" where
  "do_setsid t =
     (if t_pgid t = t_pid t \<and> t_sid t = t_pid t then (t, - EPERM)
      else (t\<lparr>t_sid := t_pid t, t_pgid := t_pid t\<rparr>, uint (t_pid t)))"

definition sc_setsid :: "kernel \<Rightarrow> kernel \<times> int" where
  "sc_setsid = on_current do_setsid"

section \<open>Permission to signal\<close>

definition can_signal_target :: "task option \<Rightarrow> task option \<Rightarrow> nat \<Rightarrow> bool" where
  "can_signal_target sender target sig =
     (case target of None \<Rightarrow> False | Some g \<Rightarrow>
      if t_is_kthread g then False else
      case sender of None \<Rightarrow> False | Some s \<Rightarrow>
      capable (t_cred s) CAP_KILL \<or>
      cr_euid (t_cred s) = cr_uid (t_cred g) \<or> cr_uid (t_cred s) = cr_uid (t_cred g) \<or>
      (sig = 18 \<and> t_sid s = t_sid g))"

section \<open>The credential transition of sys\_execve\<close>

definition VFS_S_ISUID :: u32 where "VFS_S_ISUID = 0x800"
definition VFS_S_ISGID :: u32 where "VFS_S_ISGID = 0x400"

definition exec_cred :: "u32 \<Rightarrow> u32 \<Rightarrow> u32 \<Rightarrow> task \<Rightarrow> task \<times> bool" where
  "exec_cred exec_mode exec_uid exec_gid t =
     (let old_euid = cr_euid (t_cred t);
          is_suid = (exec_mode AND VFS_S_ISUID \<noteq> 0);
          is_sgid = (exec_mode AND VFS_S_ISGID \<noteq> 0);
          root_ok = (securebits (t_cred t) AND SECBIT_NOROOT = 0)
      in if t_no_new_privs t \<noteq> 0 then (t, False)
         else
           let t = (if is_suid
                    then upd_cred (\<lambda>c. c\<lparr>cr_euid := exec_uid, cr_suid := exec_uid, cr_fsuid := exec_uid\<rparr>) t
                    else t);
               t = (if is_sgid
                    then upd_cred (\<lambda>c. c\<lparr>cr_egid := exec_gid, cr_sgid := exec_gid, cr_fsgid := exec_gid\<rparr>) t
                    else t);
               t = (if is_suid \<and> exec_uid = 0 \<and> root_ok
                    then upd_cred (\<lambda>c.
                           let prm = (cap_inheritable c OR cap_bounding c) AND cap_bounding c
                           in c\<lparr>cap_permitted := prm, cap_effective := prm\<rparr>) t
                    else t);
               t = (if root_ok then
                      (if old_euid = 0 \<and> cr_euid (t_cred t) \<noteq> 0
                       then upd_cred (\<lambda>c. c\<lparr>cap_effective := 0\<rparr>) t
                       else if old_euid \<noteq> 0 \<and> cr_euid (t_cred t) = 0
                       then upd_cred (\<lambda>c.
                              let prm = cap_full_mask_local AND cap_bounding c
                              in c\<lparr>cap_permitted := prm, cap_effective := prm\<rparr>) t
                       else t)
                    else t)
           in (t, is_suid \<or> is_sgid))"

end
