(* ===== verification/Cred_Machine.thy ===== *)
theory Cred_Machine
  imports Cred
begin

text \<open>
  The credential system calls as a state machine.  \<open>cred_step live\<close> is one
  step of the kernel as far as credentials are concerned: a system call of
  \<open>Cred\<close> made by the current task, the credential transition of an exec, the
  creation of a task outside the set \<open>live\<close> (fresh credentials, or a copy of
  a parent's as fork and clone make), or anything that leaves the credentials
  of every task alone (scheduling in particular).  The locale
  \<open>cred_invariant\<close> states what a per-task property must satisfy to hold along
  every run; it is interpreted for the capability invariant and for the
  confinement of an unprivileged task.
\<close>

section \<open>Steps\<close>

datatype cred_call =
    Setuid u64 | Setgid u64
  | Setreuid u64 u64 | Setregid u64 u64
  | Setresuid u64 u64 u64 | Setresgid u64 u64 u64
  | Setfsuid u64 | Setfsgid u64
  | Setgroups u64 "(nat \<Rightarrow> u32) option"
  | Capset "cap_user_header option" "(cap_user_data \<times> cap_user_data) option"
  | Prctl string u64 u64 u64 u64 u64
  | Seccomp u64 u64 u64
  | Setpgid u64 u64 | Setsid

fun cred_run :: "cred_call \<Rightarrow> kernel \<Rightarrow> kernel \<times> int" where
  "cred_run (Setuid a) = sc_setuid a"
| "cred_run (Setgid a) = sc_setgid a"
| "cred_run (Setreuid a b) = sc_setreuid a b"
| "cred_run (Setregid a b) = sc_setregid a b"
| "cred_run (Setresuid a b c) = sc_setresuid a b c"
| "cred_run (Setresgid a b c) = sc_setresgid a b c"
| "cred_run (Setfsuid a) = sc_setfsuid a"
| "cred_run (Setfsgid a) = sc_setfsgid a"
| "cred_run (Setgroups a l) = sc_setgroups a l"
| "cred_run (Capset h d) = sc_capset h d"
| "cred_run (Prctl s a b c d e) = sc_prctl s a b c d e"
| "cred_run (Seccomp a b c) = sc_seccomp a b c"
| "cred_run (Setpgid a b) = sc_setpgid a b"
| "cred_run Setsid = sc_setsid"

definition cred_view :: "task \<Rightarrow> cred \<times> u8 \<times> u8" where
  "cred_view t = (t_cred t, t_no_new_privs t, t_keep_caps t)"

inductive cred_step :: "tptr set \<Rightarrow> kernel \<Rightarrow> kernel \<Rightarrow> bool" for live :: "tptr set" where
  call: "cred_step live k (fst (cred_run c k))"
| exec: "sched_current k = Some p \<Longrightarrow>
         cred_step live k (upd_task p (\<lambda>t. fst (exec_cred m u g t)) k)"
| spawn: "q \<notin> live \<Longrightarrow> t_cred t = cred_init \<or> t_cred t = t_cred (k_task k p) \<Longrightarrow>
          cred_step live k (upd_task q (\<lambda>_. t) k)"
| other: "(\<And>p. cred_view (k_task k' p) = cred_view (k_task k p)) \<Longrightarrow> cred_step live k k'"

inductive_cases cred_stepE: "cred_step live k k'"

section \<open>Invariants of a task's credentials\<close>

locale cred_invariant =
  fixes live :: "tptr set" and P :: "tptr \<Rightarrow> task \<Rightarrow> bool"
  assumes inv_view: "cred_view t = cred_view t' \<Longrightarrow> P p t \<Longrightarrow> P p t'"
    and inv_setuid: "P p t \<Longrightarrow> P p (fst (do_setuid u t))"
    and inv_setgid: "P p t \<Longrightarrow> P p (fst (do_setgid u t))"
    and inv_setresuid: "P p t \<Longrightarrow> P p (fst (cred_setresuid r e s t))"
    and inv_setresgid: "P p t \<Longrightarrow> P p (fst (cred_setresgid r e s t))"
    and inv_setfsuid: "P p t \<Longrightarrow> P p (fst (do_setfsuid u t))"
    and inv_setfsgid: "P p t \<Longrightarrow> P p (fst (do_setfsgid u t))"
    and inv_setgroups: "P p t \<Longrightarrow> P p (fst (do_setgroups z l t))"
    and inv_prctl: "P p t \<Longrightarrow> P p (fst (do_prctl nm a b c d e' t))"
    and inv_exec: "P p t \<Longrightarrow> P p (fst (exec_cred m u g t))"
    and inv_caps: "P p t \<Longrightarrow> mask_le ne np \<Longrightarrow> mask_le np (cap_permitted (t_cred t)) \<Longrightarrow>
      mask_le ni (cap_bounding (t_cred t)) \<Longrightarrow>
      P p (upd_cred (\<lambda>c. c\<lparr>cap_effective := ne, cap_permitted := np, cap_inheritable := ni\<rparr>) t)"
    and inv_spawn: "q \<notin> live \<Longrightarrow> t_cred t = cred_init \<or> P p t' \<and> t_cred t = t_cred t' \<Longrightarrow> P q t"
begin

lemma on_current_keeps:
  assumes "\<And>p t. P p t \<Longrightarrow> P p (fst (f t))" "\<And>p. P p (k_task k p)"
  shows "P p (k_task (fst (on_current f k)) p)"
  using assms by (simp add: on_current_def upd_task_apply split: option.splits)

lemma seccomp_keeps: "P p t \<Longrightarrow> P p (fst (do_seccomp a b c t))"
  by (erule inv_view [rotated])
     (simp add: do_seccomp_def seccomp_set_strict_def seccomp_set_filter_def cred_view_def Let_def)

lemma setsid_keeps: "P p t \<Longrightarrow> P p (fst (do_setsid t))"
  by (erule inv_view [rotated]) (simp add: do_setsid_def cred_view_def)

lemma setpgid_keeps:
  assumes "\<And>p. P p (k_task k p)"
  shows "P p (k_task (fst (sc_setpgid a b k)) p)"
  by (rule inv_view [OF _ assms])
     (simp add: sc_setpgid_def cred_view_def upd_task_apply split: option.splits sum.splits)

lemma capset_keeps:
  assumes "\<And>p. P p (k_task k p)"
  shows "P p (k_task (fst (sc_capset h d k)) p)"
  using assms
  by (auto simp: sc_capset_def upd_task_apply Let_def mask_le_def
      intro!: inv_caps split: option.splits prod.splits)

lemma call_keeps:
  assumes "\<And>p. P p (k_task k p)"
  shows "P p (k_task (fst (cred_run c k)) p)"
  using assms capset_keeps setpgid_keeps
  by (cases c)
     (auto simp: sc_setuid_def sc_setgid_def sc_setreuid_def sc_setregid_def sc_setresuid_def
        sc_setresgid_def sc_setfsuid_def sc_setfsgid_def sc_setgroups_def sc_prctl_def
        sc_seccomp_def sc_setsid_def
      intro!: on_current_keeps inv_setuid inv_setgid inv_setresuid inv_setresgid inv_setfsuid
        inv_setfsgid inv_setgroups inv_prctl seccomp_keeps setsid_keeps)

lemma step_keeps:
  assumes "cred_step live k k'" "\<And>p. P p (k_task k p)"
  shows "P p (k_task k' p)"
  using assms
proof (cases rule: cred_step.cases)
  case (call c) then show ?thesis using assms(2) call_keeps by simp
next
  case (exec q m u g) then show ?thesis using assms(2) by (simp add: upd_task_apply inv_exec)
next
  case (spawn q t r)
  have "P q t" by (rule inv_spawn [OF spawn(2)]) (use spawn(3) assms(2) in blast)
  then show ?thesis using spawn(1) assms(2) by (simp add: upd_task_apply)
next
  case other then show ?thesis using assms(2) inv_view by metis
qed

lemma run_keeps:
  assumes "(cred_step live)\<^sup>*\<^sup>* k k'" "\<And>p. P p (k_task k p)"
  shows "P p (k_task k' p)"
  using assms
proof (induction arbitrary: p rule: rtranclp_induct)
  case (step k' k'') then show ?case using step_keeps by blast
qed

end

section \<open>The capability invariant\<close>

definition cred_ok :: "cred \<Rightarrow> bool" where
  "cred_ok c \<longleftrightarrow>
     mask_le (cap_effective c) (cap_permitted c) \<and> mask_le (cap_permitted c) (cap_bounding c) \<and>
     mask_le (cap_inheritable c) (cap_bounding c) \<and>
     length (cr_groups c) = TASK_MAX_GROUPS \<and> 1 \<le> group_count c \<and> group_count c \<le> 32"

lemma cred_ok_init: "cred_ok cred_init"
  by (simp add: cred_ok_def cred_init_def TASK_MAX_GROUPS_def)

lemma cred_ok_fixup:
  "cred_ok (t_cred t) \<Longrightarrow> cred_ok (t_cred (cred_fixup_caps_on_euid_change o' n t))"
  by (simp add: cred_ok_def cred_fixup_caps_on_euid_change_def upd_cred_def Let_def mask_simps)

lemma cred_ok_ids [simp]:
  "cred_ok (c\<lparr>cr_uid := u\<rparr>) = cred_ok c" "cred_ok (c\<lparr>cr_euid := u\<rparr>) = cred_ok c"
  "cred_ok (c\<lparr>cr_suid := u\<rparr>) = cred_ok c" "cred_ok (c\<lparr>cr_fsuid := u\<rparr>) = cred_ok c"
  "cred_ok (c\<lparr>cr_gid := u\<rparr>) = cred_ok c" "cred_ok (c\<lparr>cr_egid := u\<rparr>) = cred_ok c"
  "cred_ok (c\<lparr>cr_sgid := u\<rparr>) = cred_ok c" "cred_ok (c\<lparr>cr_fsgid := u\<rparr>) = cred_ok c"
  by (simp_all add: cred_ok_def)

lemma cred_ok_setgroups:
  "cred_ok (t_cred t) \<Longrightarrow> cred_ok (t_cred (fst (do_setgroups z l t)))"
proof -
  assume ok: "cred_ok (t_cred t)"
  have z: "(of_int z :: u32) \<le> 32" if "0 \<le> z" "z \<le> 32"
    using that by (simp add: word_le_def uint_word_of_int)
  have "1 \<le> (of_int z :: u32)" if "(of_int z :: u32) \<noteq> 0"
    using that by (metis linorder_not_less word_less_1)
  then show ?thesis using ok z
    by (auto simp: do_setgroups_def cred_ok_def upd_cred_def Let_def TASK_MAX_GROUPS_def)
qed

interpretation cap_inv: cred_invariant "{}" "\<lambda>p t. cred_ok (t_cred t)"
proof (unfold_locales, goal_cases)
  case 1 then show ?case by (simp add: cred_view_def)
next
  case 2 then show ?case by (simp add: do_setuid_def upd_cred_def cred_ok_fixup Let_def)
next
  case 3 then show ?case
    by (auto simp: do_setgid_def upd_cred_def Let_def) (auto simp: cred_ok_def)
next
  case 4 then show ?case
    by (simp add: cred_setresuid_def assign_resuid_def upd_cred_def cred_ok_fixup Let_def)
next
  case 5 then show ?case by (simp add: cred_setresgid_def assign_resgid_def upd_cred_def Let_def)
next
  case 6 then show ?case by (simp add: do_setfsuid_def upd_cred_def Let_def)
next
  case 7 then show ?case by (simp add: do_setfsgid_def upd_cred_def Let_def)
next
  case 8 then show ?case by (rule cred_ok_setgroups)
next
  case 9 then show ?case
    by (simp add: do_prctl_def seccomp_set_strict_def seccomp_set_filter_def Let_def)
next
  case 10 then show ?case
    by (simp add: exec_cred_def cred_ok_def upd_cred_def Let_def mask_simps)
next
  case 11 then show ?case
    by (auto simp: cred_ok_def upd_cred_def intro: mask_le_trans)
next
  case 12 then show ?case using cred_ok_init by auto
qed

section \<open>Confinement of an unprivileged task\<close>

definition uids :: "cred \<Rightarrow> u32 set" where
  "uids c = {cr_uid c, cr_euid c, cr_suid c, cr_fsuid c}"

definition gids :: "cred \<Rightarrow> u32 set" where
  "gids c = {cr_gid c, cr_egid c, cr_sgid c, cr_fsgid c}"

definition sandboxed :: "task \<Rightarrow> bool" where
  "sandboxed t \<longleftrightarrow> t_no_new_privs t \<noteq> 0 \<and> 0 \<notin> uids (t_cred t) \<and>
     mask_le (cap_effective (t_cred t)) (cap_permitted (t_cred t)) \<and>
     group_count (t_cred t) \<noteq> 0 \<and>
     \<not> bit (cap_permitted (t_cred t)) CAP_SETUID \<and> \<not> bit (cap_permitted (t_cred t)) CAP_SETGID"

definition within :: "task \<Rightarrow> task \<Rightarrow> bool" where
  "within t0 t \<longleftrightarrow> t_no_new_privs t \<noteq> 0 \<and>
     uids (t_cred t) \<subseteq> uids (t_cred t0) \<and> gids (t_cred t) \<subseteq> gids (t_cred t0) \<and>
     group_count (t_cred t) = group_count (t_cred t0) \<and> cr_groups (t_cred t) = cr_groups (t_cred t0) \<and>
     mask_le (cap_effective (t_cred t)) (cap_permitted (t_cred t0)) \<and>
     mask_le (cap_permitted (t_cred t)) (cap_permitted (t_cred t0))"

definition confined :: "tptr \<Rightarrow> task \<Rightarrow> tptr \<Rightarrow> task \<Rightarrow> bool" where
  "confined p0 t0 p t \<longleftrightarrow> p = p0 \<longrightarrow> sandboxed t0 \<longrightarrow> within t0 t"

lemma capable_bit: "capable c n \<longleftrightarrow> bit (cap_effective c) n"
proof (cases "64 \<le> n")
  case True then show ?thesis
    using bit_imp_le_length [of "cap_effective c" n] by (auto simp: capable_def)
next
  case False then show ?thesis by (simp add: capable_def bit_iff_and_push_bit_not_eq_0)
qed

lemma within_unprivileged:
  assumes "sandboxed t0" "within t0 t"
  shows "\<not> cred_can_setuid t" "\<not> cred_can_setgid t" "\<not> capable (t_cred t) CAP_SETGID"
  using assms
  by (auto simp: cred_can_setuid_def cred_can_setgid_def capable_bit within_def sandboxed_def mask_le_bit)

lemma within_ids:
  assumes "within t0 t"
  shows "cr_uid (t_cred t) \<in> uids (t_cred t0)" "cr_euid (t_cred t) \<in> uids (t_cred t0)"
    "cr_suid (t_cred t) \<in> uids (t_cred t0)" "cr_fsuid (t_cred t) \<in> uids (t_cred t0)"
    "cr_gid (t_cred t) \<in> gids (t_cred t0)" "cr_egid (t_cred t) \<in> gids (t_cred t0)"
    "cr_sgid (t_cred t) \<in> gids (t_cred t0)" "cr_fsgid (t_cred t) \<in> gids (t_cred t0)"
  using assms unfolding within_def uids_def gids_def by blast+

lemma within_nonroot:
  assumes "sandboxed t0" "within t0 t"
  shows "cr_uid (t_cred t) \<noteq> 0" "cr_euid (t_cred t) \<noteq> 0" "cr_suid (t_cred t) \<noteq> 0"
    "group_count (t_cred t) \<noteq> 0"
proof -
  have z: "0 \<notin> uids (t_cred t0)" using assms(1) by (simp add: sandboxed_def)
  show "cr_uid (t_cred t) \<noteq> 0" "cr_euid (t_cred t) \<noteq> 0" "cr_suid (t_cred t) \<noteq> 0"
    using within_ids(1-3) [OF assms(2)] z by metis+
  show "group_count (t_cred t) \<noteq> 0" using assms by (simp add: sandboxed_def within_def)
qed

lemma within_fixup:
  "within t0 t \<Longrightarrow> o' \<noteq> 0 \<Longrightarrow> n \<noteq> 0 \<Longrightarrow> within t0 (cred_fixup_caps_on_euid_change o' n t)"
  by (simp add: cred_fixup_caps_on_euid_change_def within_def upd_cred_def uids_def gids_def mask_simps)

lemma within_upd:
  assumes "within t0 t"
  shows "u \<in> uids (t_cred t0) \<Longrightarrow> within t0 (upd_cred (\<lambda>c. c\<lparr>cr_uid := u\<rparr>) t)"
    "u \<in> uids (t_cred t0) \<Longrightarrow> within t0 (upd_cred (\<lambda>c. c\<lparr>cr_suid := u\<rparr>) t)"
    "u \<in> uids (t_cred t0) \<Longrightarrow> within t0 (upd_cred (\<lambda>c. c\<lparr>cr_fsuid := u\<rparr>) t)"
    "u \<in> uids (t_cred t0) \<Longrightarrow> within t0 (upd_cred (\<lambda>c. c\<lparr>cr_euid := u, cr_fsuid := u\<rparr>) t)"
    "u \<in> gids (t_cred t0) \<Longrightarrow> within t0 (upd_cred (\<lambda>c. c\<lparr>cr_gid := u\<rparr>) t)"
    "u \<in> gids (t_cred t0) \<Longrightarrow> within t0 (upd_cred (\<lambda>c. c\<lparr>cr_sgid := u\<rparr>) t)"
    "u \<in> gids (t_cred t0) \<Longrightarrow> within t0 (upd_cred (\<lambda>c. c\<lparr>cr_fsgid := u\<rparr>) t)"
    "u \<in> gids (t_cred t0) \<Longrightarrow> within t0 (upd_cred (\<lambda>c. c\<lparr>cr_egid := u, cr_fsgid := u\<rparr>) t)"
  using assms by (simp_all add: within_def upd_cred_def uids_def gids_def)

lemma within_assign_resuid:
  assumes "within t0 t" "\<And>i. i \<in> {r, e, s} \<Longrightarrow> i \<noteq> no_change \<Longrightarrow> i \<in> uids (t_cred t0)"
  shows "within t0 (assign_resuid r e s t)"
  using assms
  by (cases "r = no_change"; cases "e = no_change"; cases "s = no_change")
     (simp_all add: assign_resuid_def within_upd)

lemma within_assign_resgid:
  assumes "within t0 t" "\<And>i. i \<in> {r, e, s} \<Longrightarrow> i \<noteq> no_change \<Longrightarrow> i \<in> gids (t_cred t0)"
  shows "within t0 (assign_resgid r e s t)"
  using assms
  by (cases "r = no_change"; cases "e = no_change"; cases "s = no_change")
     (simp_all add: assign_resgid_def within_upd)

lemma within_setresuid:
  assumes a: "sandboxed t0" "within t0 t"
  shows "within t0 (fst (cred_setresuid r e s t))"
proof -
  let ?den = "\<lambda>i. id_denied i (cr_uid (t_cred t)) (cr_euid (t_cred t)) (cr_suid (t_cred t))"
  show ?thesis
  proof (cases "?den r \<or> ?den e \<or> ?den s")
    case True then show ?thesis
      using within_unprivileged [OF a] a(2) by (simp add: cred_setresuid_def Let_def)
  next
    case False
    then have w: "within t0 (assign_resuid r e s t)"
      using a(2) within_ids [OF a(2)] by (intro within_assign_resuid) (auto simp: id_denied_def)
    show ?thesis
      using False within_fixup [OF w] within_nonroot [OF a(1) w] within_nonroot [OF a]
      by (simp add: cred_setresuid_def Let_def)
  qed
qed

lemma within_setresgid:
  assumes a: "sandboxed t0" "within t0 t"
  shows "within t0 (fst (cred_setresgid r e s t))"
proof -
  let ?den = "\<lambda>i. id_denied i (cr_gid (t_cred t)) (cr_egid (t_cred t)) (cr_sgid (t_cred t))"
  show ?thesis
  proof (cases "?den r \<or> ?den e \<or> ?den s")
    case True then show ?thesis
      using within_unprivileged [OF a] a(2) by (simp add: cred_setresgid_def Let_def)
  next
    case False
    then have "within t0 (assign_resgid r e s t)"
      using a(2) within_ids [OF a(2)] by (intro within_assign_resgid) (auto simp: id_denied_def)
    then show ?thesis using False by (simp add: cred_setresgid_def Let_def)
  qed
qed

lemma within_setuid:
  assumes a: "sandboxed t0" "within t0 t"
  shows "within t0 (fst (do_setuid u t))"
proof (cases "can_set_uid_unpriv t u")
  case True
  then have "u \<in> uids (t_cred t0)" using within_ids [OF a(2)] by (auto simp: can_set_uid_unpriv_def)
  then have w: "within t0 (upd_cred (\<lambda>c. c\<lparr>cr_euid := u, cr_fsuid := u\<rparr>) t)" by (rule within_upd [OF a(2)])
  show ?thesis
    using True within_fixup [OF w] within_nonroot [OF a(1) w] within_nonroot [OF a] within_unprivileged [OF a]
    by (simp add: do_setuid_def Let_def)
next
  case False then show ?thesis using within_unprivileged [OF a] a(2) by (simp add: do_setuid_def Let_def)
qed

lemma within_setgid:
  assumes a: "sandboxed t0" "within t0 t"
  shows "within t0 (fst (do_setgid u t))"
proof (cases "can_set_gid_unpriv t u")
  case True
  then have "u \<in> gids (t_cred t0)" using within_ids [OF a(2)] by (auto simp: can_set_gid_unpriv_def)
  then have w: "within t0 (upd_cred (\<lambda>c. c\<lparr>cr_egid := u, cr_fsgid := u\<rparr>) t)" by (rule within_upd [OF a(2)])
  show ?thesis
    using True w within_nonroot [OF a(1) w] within_unprivileged [OF a] by (simp add: do_setgid_def Let_def)
next
  case False then show ?thesis using within_unprivileged [OF a] a(2) by (simp add: do_setgid_def Let_def)
qed

lemma within_setfs:
  assumes a: "sandboxed t0" "within t0 t"
  shows "within t0 (fst (do_setfsuid u t))" "within t0 (fst (do_setfsgid u t))"
  using a(2) within_unprivileged [OF a] within_ids [OF a(2)]
  by (auto simp: do_setfsuid_def do_setfsgid_def Let_def intro!: within_upd)

lemma prctl_cred: "t_cred (fst (do_prctl nm a b c d e t)) = t_cred t"
  by (simp add: do_prctl_def seccomp_set_strict_def seccomp_set_filter_def Let_def)

lemma prctl_nnp: "t_no_new_privs t \<noteq> 0 \<Longrightarrow> t_no_new_privs (fst (do_prctl nm a b c d e t)) \<noteq> 0"
  by (simp add: do_prctl_def seccomp_set_strict_def seccomp_set_filter_def Let_def)

interpretation conf: cred_invariant "{p0}" "confined p0 t0"
proof (unfold_locales, goal_cases)
  case 1 then show ?case by (simp add: cred_view_def confined_def within_def)
next
  case 2 then show ?case by (simp add: confined_def within_setuid)
next
  case 3 then show ?case by (simp add: confined_def within_setgid)
next
  case 4 then show ?case by (simp add: confined_def within_setresuid)
next
  case 5 then show ?case by (simp add: confined_def within_setresgid)
next
  case 6 then show ?case by (simp add: confined_def within_setfs)
next
  case 7 then show ?case by (simp add: confined_def within_setfs)
next
  case (8 p t z l) then show ?case
    using within_unprivileged [of t0 t] by (auto simp: confined_def do_setgroups_def)
next
  case 9 then show ?case by (simp add: confined_def within_def prctl_cred prctl_nnp)
next
  case 10 then show ?case by (simp add: confined_def within_def exec_cred_def)
next
  case (11 p t ne np ni)
  have "within t0 (upd_cred (\<lambda>c. c\<lparr>cap_effective := ne, cap_permitted := np, cap_inheritable := ni\<rparr>) t)"
    if "within t0 t"
    using that mask_le_trans [OF 11(2), of "cap_permitted (t_cred t0)"]
      mask_le_trans [OF 11(3), of "cap_permitted (t_cred t0)"]
    by (simp add: within_def upd_cred_def uids_def gids_def)
  with 11(1) show ?case by (simp add: confined_def)
next
  case 12 then show ?case by (auto simp: confined_def)
qed

section \<open>Properties\<close>

text \<open>A kernel whose every task is \<open>t\<close>, with task 1 running on CPU 0; used to
  exhibit concrete runs.\<close>

definition kernel_running :: "task \<Rightarrow> kernel" where
  "kernel_running t =
     kernel_zero\<lparr>k_task := (\<lambda>_. t), k_self := Some 0,
                 k_sched := (\<lambda>_. cpu_sched_zero\<lparr>cs_current := Some 1\<rparr>)\<rparr>"

lemma current_running [simp]: "sched_current (kernel_running t) = Some 1"
  by (simp add: kernel_running_def sched_current_def cpu_sched_zero_def)

lemma task_running [simp]: "k_task (kernel_running t) p = t"
  by (simp add: kernel_running_def)

text \<open>C1: along every run of credential system calls, execs, task creations and
  unrelated kernel activity, the credentials of every task keep the capability
  invariant: effective within permitted, permitted and inheritable within the
  bounding set, between 1 and 32 supplementary groups in the 32-entry array.\<close>

theorem caps_bounded_run:
  assumes "(cred_step {})\<^sup>*\<^sup>* k k'" "\<forall>p. cred_ok (t_cred (k_task k p))"
  shows "cred_ok (t_cred (k_task k' p))"
  using cap_inv.run_keeps [OF assms(1)] assms(2) by blast

theorem caps_bounded_run_witness:
  "cred_ok (t_cred (k_task (fst (cred_run (Setuid 1000) (kernel_running (task_zero\<lparr>t_cred := cred_init\<rparr>)))) 1))"
  by (rule caps_bounded_run [OF r_into_rtranclp, OF cred_step.call]) (simp add: cred_ok_init)


definition sandbox_example :: task where
  "sandbox_example = task_zero\<lparr>t_no_new_privs := 1,
     t_cred := cred_init\<lparr>cr_uid := 1000, cr_euid := 1000, cr_suid := 1000, cr_fsuid := 1000,
       cap_effective := 0, cap_permitted := 32\<rparr>\<rparr>"


lemma on_current_eq:
  assumes "sched_current k = Some p" "f (k_task k p) = (t', r)"
  shows "on_current f k = (upd_task p (\<lambda>_. t') k, r)"
  using assms by (simp add: on_current_def upd_task_def)

lemma on_current_unchanged:
  assumes "sched_current k = Some p" "f (k_task k p) = (k_task k p, r)"
  shows "on_current f k = (k, r)"
  using assms by (simp add: on_current_def upd_task_def)



lemma bit_lo_mask: "bit (0xFFFFFFFF :: u64) n \<longleftrightarrow> n < 32"
proof -
  have m: "(0xFFFFFFFF :: u64) = mask 32" by (simp add: mask_eq_exp_minus_1)
  show ?thesis by (auto simp: m bit_mask_iff)
qed

lemma lo32_bit: "bit (lo32 w) n \<longleftrightarrow> n < 32 \<and> bit w n"
  by (simp only: lo32_def bit_ucast_iff bit_and_iff bit_lo_mask) auto

lemma join_halves: "join32 (hi32 w) (lo32 w) = w"
  unfolding join32_def hi32_def
  by (intro bit_word_eqI) (auto simp: bit_simps not_less lo32_bit)

text \<open>\<^verbatim>\<open>capset\<close> applied to what \<^verbatim>\<open>capget\<close> just reported for the same header leaves the
  kernel as it was: the two 32-bit halves carry the 64-bit sets without loss.\<close>

theorem capget_capset_roundtrip:
  assumes "sc_capget (Some h) True k = (0, Some d)" "\<forall>p. cred_ok (t_cred (k_task k p))"
    "cap_pid h \<le> 0"
  shows "sc_capset (Some h) (Some d) k = (k, 0)"
proof -
  obtain p where p: "sched_current k = Some p" using assms(1) by (auto simp: sc_capget_def split: option.splits)
  have "upd_task p (upd_cred (\<lambda>c. c\<lparr>cap_effective := cap_effective (t_cred (k_task k p)),
     cap_permitted := cap_permitted (t_cred (k_task k p)),
     cap_inheritable := cap_inheritable (t_cred (k_task k p))\<rparr>)) k = k"
    by (simp add: upd_task_def upd_cred_def)
  then show ?thesis using assms p
    by (auto simp: sc_capget_def sc_capset_def cap_target_def Let_def join_halves cred_ok_def mask_le_def)
qed

theorem capget_capset_roundtrip_witness:
  "\<exists>d. sc_capset (Some \<lparr>cap_version = 0, cap_pid = 0\<rparr>) (Some d)
        (kernel_running (task_zero\<lparr>t_cred := cred_init\<rparr>))
      = (kernel_running (task_zero\<lparr>t_cred := cred_init\<rparr>), 0)"
proof -
  obtain d where "sc_capget (Some \<lparr>cap_version = 0, cap_pid = 0\<rparr>) True
      (kernel_running (task_zero\<lparr>t_cred := cred_init\<rparr>)) = (0, Some d)"
    by (simp add: sc_capget_def cap_target_def Let_def)
  from capget_capset_roundtrip [OF this] have "sc_capset (Some \<lparr>cap_version = 0, cap_pid = 0\<rparr>) (Some d)
        (kernel_running (task_zero\<lparr>t_cred := cred_init\<rparr>))
      = (kernel_running (task_zero\<lparr>t_cred := cred_init\<rparr>), 0)" by (simp add: cred_ok_init)
  then show ?thesis ..
qed

end
