(* ===== verification/Pmm.thy ===== *)
theory Pmm
  imports Exo_Prelude
begin

text \<open>
  The physical page allocator of \<^verbatim>\<open>mm/pmm.c\<close>: a bitmap with one bit per page
  (1 = used), a reference count per page and the count of free pages.  Page
  numbers are natural numbers below \<^verbatim>\<open>bitmap_pages\<close>; addresses, sizes and the free
  count are 64-bit words and reference counts 32-bit words, so their
  wrap-around is the machine's.  The file-scope statics are the record \<open>pmm\<close>;
  the two metadata pointers are non-NULL once \<open>pmm_init\<close> has returned, which
  is when a \<open>pmm\<close> exists.  The locale \<open>page_bits\<close> is the interface of the bitmap the allocator
  relies on; the allocator refines a set of free pages.
\<close>

section \<open>Bitmap\<close>

type_synonym bitmap = "u8 list"

definition bitmap_set :: "nat \<Rightarrow> bitmap \<Rightarrow> bitmap" where
  "bitmap_set page bm = bm[page div 8 := bm ! (page div 8) OR push_bit (page mod 8) 1]"

definition bitmap_clear :: "nat \<Rightarrow> bitmap \<Rightarrow> bitmap" where
  "bitmap_clear page bm = bm[page div 8 := bm ! (page div 8) AND NOT (push_bit (page mod 8) 1)]"

definition bitmap_test :: "nat \<Rightarrow> bitmap \<Rightarrow> bool" where
  "bitmap_test page bm = (drop_bit (page mod 8) (bm ! (page div 8)) AND 1 \<noteq> 0)"

locale page_bits =
  fixes bset bclear :: "nat \<Rightarrow> 'b \<Rightarrow> 'b" and btest :: "nat \<Rightarrow> 'b \<Rightarrow> bool" and cap :: "'b \<Rightarrow> nat"
  assumes test_set: "p < cap b \<Longrightarrow> q < cap b \<Longrightarrow> btest q (bset p b) \<longleftrightarrow> q = p \<or> btest q b"
    and test_clear: "p < cap b \<Longrightarrow> q < cap b \<Longrightarrow> btest q (bclear p b) \<longleftrightarrow> q \<noteq> p \<and> btest q b"
    and cap_set: "cap (bset p b) = cap b"
    and cap_clear: "cap (bclear p b) = cap b"
begin

definition zeros :: "nat \<Rightarrow> 'b \<Rightarrow> nat set" where
  "zeros n b = {p. p < n \<and> \<not> btest p b}"

lemma finite_zeros: "finite (zeros n b)"
  by (simp add: zeros_def)

lemma zeros_set: "n \<le> cap b \<Longrightarrow> p < n \<Longrightarrow> zeros n (bset p b) = zeros n b - {p}"
  by (auto simp: zeros_def test_set)

lemma zeros_clear: "n \<le> cap b \<Longrightarrow> p < n \<Longrightarrow> zeros n (bclear p b) = insert p (zeros n b)"
  by (auto simp: zeros_def test_clear)

lemma card_zeros_set:
  assumes "n \<le> cap b" "p < n" "\<not> btest p b"
  shows "card (zeros n b) = Suc (card (zeros n (bset p b)))"
proof -
  have "p \<in> zeros n b" using assms by (simp add: zeros_def)
  then show ?thesis using assms zeros_set card_Suc_Diff1 [OF finite_zeros] by metis
qed

lemma card_zeros_clear:
  assumes "n \<le> cap b" "p < n" "btest p b"
  shows "card (zeros n (bclear p b)) = Suc (card (zeros n b))"
  using assms by (simp add: zeros_clear finite_zeros) (simp add: zeros_def)

end

lemma bitmap_test_bit: "bitmap_test p bm \<longleftrightarrow> bit (bm ! (p div 8)) (p mod 8)"
  by (simp add: bitmap_test_def bit_iff_odd_drop_bit and_one_eq odd_iff_mod_2_eq_one)

interpretation bm: page_bits bitmap_set bitmap_clear bitmap_test "\<lambda>bm. 8 * length bm"
proof (unfold_locales, goal_cases)
  case (1 p b q)
  then show ?case
    by (cases "p div 8 = q div 8")
       (auto simp: bitmap_test_bit bitmap_set_def nth_list_update bit_simps, (metis div_mult_mod_eq)+)
next
  case (2 p b q)
  then show ?case
    by (cases "p div 8 = q div 8")
       (auto simp: bitmap_test_bit bitmap_clear_def nth_list_update bit_simps, (metis div_mult_mod_eq)+)
next
  case 3 show ?case by (simp add: bitmap_set_def)
next
  case 4 show ?case by (simp add: bitmap_clear_def)
qed

section \<open>State and operations\<close>

abbreviation PAGE_SIZE :: nat where "PAGE_SIZE \<equiv> 4096"

record pmm_memmap_entry =
  mm_base :: u64
  mm_length :: u64
  mm_type :: u64

record pmm =
  pm_bitmap :: bitmap
  pm_refs :: "u32 list"
  pm_pages :: nat
  pm_hhdm :: u64
  pm_free :: u64
  pm_usable :: u64

definition page_in_bounds :: "nat \<Rightarrow> pmm \<Rightarrow> bool" where
  "page_in_bounds page s \<longleftrightarrow> page < pm_pages s"

text \<open>The bodies of the loops over pages: a page given to the allocator, a page
  claimed by an allocation, and a page withdrawn for metadata.\<close>

definition release_page :: "nat \<Rightarrow> pmm \<Rightarrow> pmm" where
  "release_page p s = s\<lparr>pm_bitmap := bitmap_clear p (pm_bitmap s),
     pm_refs := (pm_refs s)[p := 0], pm_free := pm_free s + 1\<rparr>"

definition claim_page :: "nat \<Rightarrow> pmm \<Rightarrow> pmm" where
  "claim_page p s = s\<lparr>pm_bitmap := bitmap_set p (pm_bitmap s), pm_refs := (pm_refs s)[p := 1]\<rparr>"

definition withdraw_page :: "nat \<Rightarrow> pmm \<Rightarrow> pmm" where
  "withdraw_page p s =
     (if bitmap_test p (pm_bitmap s) then s
      else claim_page p s\<lparr>pm_free := pm_free s - 1\<rparr>)"

subsection \<open>pmm\_init\<close>

definition highest_addr :: "pmm_memmap_entry list \<Rightarrow> u64" where
  "highest_addr es =
     foldl (\<lambda>highest e. let e_end = mm_base e + mm_length e
                        in if e_end > highest then e_end else highest) 0 es"

definition page_round_up :: "nat \<Rightarrow> nat" where
  "page_round_up n = (n + PAGE_SIZE - 1) div PAGE_SIZE * PAGE_SIZE"

text \<open>The region that receives the metadata: the first usable one long enough.\<close>

definition metadata_base :: "nat \<Rightarrow> pmm_memmap_entry list \<Rightarrow> u64 option" where
  "metadata_base meta_span es =
     (case find (\<lambda>e. mm_type e = 0 \<and> \<not> unat (mm_length e) < meta_span) es of
        None \<Rightarrow> None | Some e \<Rightarrow> Some (mm_base e))"

definition release_entry :: "pmm \<Rightarrow> pmm_memmap_entry \<Rightarrow> pmm" where
  "release_entry s e =
     (if mm_type e \<noteq> 0 then s
      else
        let start_page = unat (mm_base e) div PAGE_SIZE;
            num_pages = unat (mm_length e) div PAGE_SIZE
        in foldl (\<lambda>s p. release_page p s) (s\<lparr>pm_usable := pm_usable s + of_nat num_pages\<rparr>)
             [start_page..<start_page + num_pages])"

definition withdraw_range :: "nat \<Rightarrow> nat \<Rightarrow> pmm \<Rightarrow> pmm" where
  "withdraw_range first n s = foldl (\<lambda>s p. withdraw_page p s) s [first..<first + n]"

definition pmm_init :: "pmm_memmap_entry list \<Rightarrow> u64 \<Rightarrow> pmm option" where
  "pmm_init entries hhdm_offset =
     (let pages = unat (highest_addr entries) div PAGE_SIZE;
          bitmap_bytes = (pages + 7) div 8;
          refs_bytes = pages * 4;
          bitmap_span = page_round_up bitmap_bytes;
          refs_span = page_round_up refs_bytes;
          meta_span = bitmap_span + refs_span
      in case metadata_base meta_span entries of
           None \<Rightarrow> None
         | Some base \<Rightarrow>
             if base + hhdm_offset = 0 \<or> base + of_nat bitmap_span + hhdm_offset = 0 then None else
             let s = \<lparr>pm_bitmap = replicate bitmap_bytes 0xFF,
                      pm_refs = replicate pages 0x01010101, pm_pages = pages,
                      pm_hhdm = hhdm_offset, pm_free = 0, pm_usable = 0\<rparr>;
                 s = foldl release_entry s entries;
                 s = withdraw_range (unat base div PAGE_SIZE) (bitmap_span div PAGE_SIZE) s;
                 s = withdraw_range (unat (base + of_nat bitmap_span) div PAGE_SIZE)
                       (refs_span div PAGE_SIZE) s
             in Some (withdraw_page 0 s))"

subsection \<open>Allocation, reference counts and freeing\<close>

text \<open>The scan of \<^verbatim>\<open>pmm_alloc_pages\<close> from page \<open>p\<close> with the current run of free pages:
  the first page of the run found.\<close>

function alloc_scan :: "pmm \<Rightarrow> nat \<Rightarrow> nat \<Rightarrow> nat \<Rightarrow> nat \<Rightarrow> nat option" where
  "alloc_scan s count p run start =
     (if p \<ge> pm_pages s then None
      else if \<not> bitmap_test p (pm_bitmap s) then
        (let start = (if run = 0 then p else start); run = run + 1
         in if run = count then Some start else alloc_scan s count (p + 1) run start)
      else alloc_scan s count (p + 1) 0 start)"
  by pat_completeness auto
termination by (relation "measure (\<lambda>(s, count, p, run, start). pm_pages s - p)") auto

declare alloc_scan.simps [simp del]

definition pmm_alloc_pages :: "u64 \<Rightarrow> pmm \<Rightarrow> pmm \<times> u64" where
  "pmm_alloc_pages count s =
     (if count = 0 then (s, 0)
      else case alloc_scan s (unat count) 1 0 0 of
             None \<Rightarrow> (s, 0)
           | Some start \<Rightarrow>
               let s' = foldl (\<lambda>s i. claim_page i s) s [start..<start + unat count]
               in (s'\<lparr>pm_free := pm_free s' - count\<rparr>, of_nat (start * PAGE_SIZE)))"

definition pmm_page_ref :: "u64 \<Rightarrow> pmm \<Rightarrow> pmm \<times> u32" where
  "pmm_page_ref phys s =
     (let page = unat phys div PAGE_SIZE in
      if \<not> page_in_bounds page s then (s, 0)
      else if \<not> bitmap_test page (pm_bitmap s) then (s, 0)
      else let now = pm_refs s ! page + 1 in (s\<lparr>pm_refs := (pm_refs s)[page := now]\<rparr>, now))"

definition pmm_page_unref :: "u64 \<Rightarrow> pmm \<Rightarrow> pmm \<times> u32" where
  "pmm_page_unref phys s =
     (let page = unat phys div PAGE_SIZE in
      if \<not> page_in_bounds page s then (s, 0)
      else
        let old = pm_refs s ! page in
        if old = 0 then (s, 0)
        else
          let now = old - 1;
              s' = s\<lparr>pm_refs := (pm_refs s)[page := now]\<rparr>
          in if now = 0 \<and> bitmap_test page (pm_bitmap s')
             then (s'\<lparr>pm_bitmap := bitmap_clear page (pm_bitmap s'), pm_free := pm_free s' + 1\<rparr>, now)
             else (s', now))"

definition pmm_page_getref :: "u64 \<Rightarrow> pmm \<Rightarrow> u32" where
  "pmm_page_getref phys s =
     (let page = unat phys div PAGE_SIZE in
      if \<not> page_in_bounds page s then 0 else pm_refs s ! page)"

text \<open>The body of the loop of \<^verbatim>\<open>pmm_free_pages\<close> for one page number.\<close>

definition free_one :: "nat \<Rightarrow> pmm \<Rightarrow> pmm" where
  "free_one page s = fst (pmm_page_unref (of_nat page * 4096) s)"

definition pmm_free_pages :: "u64 \<Rightarrow> u64 \<Rightarrow> pmm \<Rightarrow> pmm" where
  "pmm_free_pages phys count s =
     (let start = unat phys div PAGE_SIZE in
      if (of_nat start + count :: u64) > of_nat (pm_pages s) then s
      else foldl (\<lambda>s i. free_one (start + i) s) s [0..<unat count])"

definition pmm_get_total_pages :: "pmm \<Rightarrow> u64" where "pmm_get_total_pages s = pm_usable s"

definition pmm_get_free_pages :: "pmm \<Rightarrow> u64" where "pmm_get_free_pages s = pm_free s"

definition pmm_phys_valid :: "u64 \<Rightarrow> u64 \<Rightarrow> pmm \<Rightarrow> bool" where
  "pmm_phys_valid phys count s =
     (if count = 0 then False
      else of_nat (unat phys div PAGE_SIZE) + count \<le> (of_nat (pm_pages s) :: u64))"

section \<open>The set of free pages\<close>

definition free_set :: "pmm \<Rightarrow> nat set" where
  "free_set s = {p. p < pm_pages s \<and> \<not> bitmap_test p (pm_bitmap s)}"

definition pmm_inv :: "pmm \<Rightarrow> bool" where
  "pmm_inv s \<longleftrightarrow>
     pm_pages s \<le> 8 * length (pm_bitmap s) \<and> length (pm_refs s) = pm_pages s \<and>
     pm_pages s \<le> 2 ^ 52 \<and> pm_free s = of_nat (card (free_set s)) \<and>
     (\<forall>p < pm_pages s. pm_refs s ! p = 0 \<longleftrightarrow> p \<in> free_set s)"

lemma free_set_zeros: "free_set s = bm.zeros (pm_pages s) (pm_bitmap s)"
  by (simp add: free_set_def bm.zeros_def)

lemma finite_free_set [simp]: "finite (free_set s)"
  by (simp add: free_set_def)

section \<open>First fit\<close>

definition fits :: "pmm \<Rightarrow> nat \<Rightarrow> nat \<Rightarrow> bool" where
  "fits s n q \<longleftrightarrow> 1 \<le> q \<and> q + n \<le> pm_pages s \<and> {q..<q + n} \<subseteq> free_set s"

definition scan_ok :: "pmm \<Rightarrow> nat \<Rightarrow> nat \<Rightarrow> nat \<Rightarrow> nat \<Rightarrow> bool" where
  "scan_ok s n p run start \<longleftrightarrow>
     run < p \<and> run < n \<and> (0 < run \<longrightarrow> start = p - run) \<and> {p - run..<p} \<subseteq> free_set s \<and>
     (run < p - 1 \<longrightarrow> p - run - 1 \<notin> free_set s) \<and> (\<forall>q. fits s n q \<longrightarrow> p < q + n)"

lemma scan_ok_free:
  assumes ok: "scan_ok s n p run start" and p: "p \<in> free_set s" and ne: "run + 1 \<noteq> n"
  shows "scan_ok s n (p + 1) (run + 1) (if run = 0 then p else start)"
proof -
  have "p + 1 < q + n" if "fits s n q" for q
  proof (rule ccontr)
    assume "\<not> p + 1 < q + n"
    moreover have "p < q + n" using ok that by (simp add: scan_ok_def)
    ultimately have q: "q + n = p + 1" by simp
    then have "p - run - 1 \<in> {q..<q + n}" "run < p - 1"
      using ok ne that by (auto simp: scan_ok_def fits_def)
    then show False using that ok by (auto simp: fits_def scan_ok_def)
  qed
  moreover have "{p + 1 - (run + 1)..<p + 1} \<subseteq> free_set s"
  proof
    fix x assume "x \<in> {p + 1 - (run + 1)..<p + 1}"
    then have "x = p \<or> x \<in> {p - run..<p}" by auto
    then show "x \<in> free_set s" using ok p by (auto simp: scan_ok_def)
  qed
  ultimately show ?thesis using ok ne by (auto simp: scan_ok_def)
qed

lemma scan_ok_used:
  assumes ok: "scan_ok s n p run start" and p: "p \<notin> free_set s"
  shows "scan_ok s n (p + 1) 0 start"
proof -
  have "p + 1 < q + n" if "fits s n q" for q
  proof (rule ccontr)
    assume "\<not> p + 1 < q + n"
    moreover have "p < q + n" "0 < n" using ok that by (auto simp: scan_ok_def)
    ultimately have "p \<in> {q..<q + n}" by auto
    then show False using that p by (auto simp: fits_def)
  qed
  then show ?thesis using ok p by (auto simp: scan_ok_def)
qed

lemma alloc_scan_spec:
  assumes "scan_ok s n p run start"
  shows "case alloc_scan s n p run start of
           None \<Rightarrow> \<forall>q. \<not> fits s n q
         | Some st \<Rightarrow> fits s n st \<and> (\<forall>q < st. \<not> fits s n q)"
  using assms
proof (induction s n p run start rule: alloc_scan.induct)
  case (1 s n p run start)
  note ok = "1.prems"
  show ?case
  proof (cases "p \<ge> pm_pages s")
    case True
    then have "\<not> fits s n q" for q using ok by (auto simp: scan_ok_def fits_def dest: spec [of _ q])
    then show ?thesis using True by (simp add: alloc_scan.simps)
  next
    case p: False
    show ?thesis
    proof (cases "bitmap_test p (pm_bitmap s)")
      case True
      then have "p \<notin> free_set s" by (simp add: free_set_def)
      from "1.IH"(2) [OF p _ scan_ok_used [OF ok this]] True p show ?thesis
        by (simp add: alloc_scan.simps [of s n p])
    next
      case False
      then have free: "p \<in> free_set s" using p by (simp add: free_set_def)
      show ?thesis
      proof (cases "run + 1 = n")
        case True
        define st where "st = (if run = 0 then p else start)"
        have st: "st + n = p + 1" using ok True by (auto simp: scan_ok_def st_def)
        have "fits s n st"
          using ok True free p st by (auto simp: fits_def scan_ok_def st_def subset_iff less_Suc_eq)
        moreover have "\<not> fits s n q" if "q < st" for q
          using ok st that by (auto simp: scan_ok_def dest: spec [of _ q])
        ultimately show ?thesis using True False p by (simp add: alloc_scan.simps [of s n p] st_def)
      next
        case ne: False
        from "1.IH"(1) [OF p _ refl refl ne scan_ok_free [OF ok free ne]] False p ne
        show ?thesis by (simp add: alloc_scan.simps [of s n p] Let_def)
      qed
    qed
  qed
qed

section \<open>Effect of the operations on the free set\<close>

definition pmm_shape :: "pmm \<Rightarrow> bool" where
  "pmm_shape s \<longleftrightarrow> pm_pages s \<le> 8 * length (pm_bitmap s) \<and> length (pm_refs s) = pm_pages s \<and> pm_pages s \<le> 2 ^ 52"

lemma pmm_inv_shape: "pmm_inv s \<Longrightarrow> pmm_shape s"
  by (simp add: pmm_inv_def pmm_shape_def)

lemma len_bitmap_ops [simp]:
  "length (bitmap_set p b) = length b" "length (bitmap_clear p b) = length b"
  by (simp_all add: bitmap_set_def bitmap_clear_def)

lemma free_set_frame [simp]:
  "free_set (s\<lparr>pm_free := x\<rparr>) = free_set s" "free_set (s\<lparr>pm_refs := y\<rparr>) = free_set s"
  "free_set (s\<lparr>pm_usable := x\<rparr>) = free_set s"
  by (simp_all add: free_set_def)

lemma claim_page_frame [simp]:
  "pm_pages (claim_page p s) = pm_pages s" "pm_free (claim_page p s) = pm_free s"
  "pm_refs (claim_page p s) = (pm_refs s)[p := 1]"
  "length (pm_bitmap (claim_page p s)) = length (pm_bitmap s)"
  "pmm_shape (claim_page p s) = pmm_shape s"
  by (simp_all add: claim_page_def pmm_shape_def)

lemma free_set_claim:
  "pmm_shape s \<Longrightarrow> p < pm_pages s \<Longrightarrow> free_set (claim_page p s) = free_set s - {p}"
  by (simp add: free_set_zeros claim_page_def pmm_shape_def bm.zeros_set)

lemma claim_range:
  assumes "pmm_shape s" "b \<le> pm_pages s"
  shows "let s' = foldl (\<lambda>s i. claim_page i s) s [a..<b] in
    pmm_shape s' \<and> pm_pages s' = pm_pages s \<and> pm_free s' = pm_free s \<and>
    free_set s' = free_set s - {a..<b} \<and>
    (\<forall>p < pm_pages s. pm_refs s' ! p = (if p \<in> {a..<b} then 1 else pm_refs s ! p))"
  using assms(2)
proof (induction b)
  case 0 then show ?case using assms(1) by simp
next
  case (Suc b)
  show ?case
  proof (cases "a \<le> b")
    case True
    with Suc show ?thesis
      by (auto simp: Let_def free_set_claim pmm_shape_def nth_list_update)
  next
    case False then show ?thesis using assms(1) by simp
  qed
qed

lemma of_nat_page_addr: "p \<le> 2 ^ 52 - 1 \<Longrightarrow> unat (of_nat (p * PAGE_SIZE) :: u64) = p * PAGE_SIZE"
  unfolding unat_of_nat by (rule mod_less) simp

lemma card_fits:
  assumes "fits s n st"
  shows "of_nat (card (free_set s - {st..<st + n})) = (of_nat (card (free_set s)) - of_nat n :: u64)"
proof -
  have "card (free_set s) = n + card (free_set s - {st..<st + n})"
    using assms card_mono [of "free_set s" "{st..<st + n}"]
    by (simp add: fits_def card_Diff_subset)
  then show ?thesis by simp
qed

lemma pmm_alloc_pages_cases:
  assumes inv: "pmm_inv s" and "count \<noteq> 0"
  shows "(pmm_alloc_pages count s = (s, 0) \<and> (\<forall>q. \<not> fits s (unat count) q)) \<or>
    (\<exists>st s'. pmm_alloc_pages count s = (s', of_nat (st * PAGE_SIZE)) \<and>
       fits s (unat count) st \<and> (\<forall>q < st. \<not> fits s (unat count) q) \<and> pmm_inv s' \<and>
       pm_pages s' = pm_pages s \<and>
       free_set s' = free_set s - {st..<st + unat count} \<and>
       (\<forall>p < pm_pages s. pm_refs s' ! p = (if p \<in> {st..<st + unat count} then 1 else pm_refs s ! p)))"
proof -
  let ?n = "unat count"
  have "0 < ?n" using \<open>count \<noteq> 0\<close> by (simp add: unat_gt_0)
  then have "scan_ok s ?n 1 0 0" by (auto simp: scan_ok_def fits_def)
  note spec = alloc_scan_spec [OF this]
  show ?thesis
  proof (cases "alloc_scan s ?n 1 0 0")
    case None then show ?thesis using spec \<open>count \<noteq> 0\<close> by (simp add: pmm_alloc_pages_def)
  next
    case (Some st)
    then have fit: "fits s ?n st" "\<forall>q < st. \<not> fits s ?n q" using spec by auto
    define s1 where "s1 = foldl (\<lambda>s i. claim_page i s) s [st..<st + ?n]"
    define s' where "s' = s1\<lparr>pm_free := pm_free s1 - count\<rparr>"
    have r: "pmm_shape s1" "pm_pages s1 = pm_pages s" "pm_free s1 = pm_free s"
      "free_set s1 = free_set s - {st..<st + ?n}"
      "\<forall>p < pm_pages s. pm_refs s1 ! p = (if p \<in> {st..<st + ?n} then 1 else pm_refs s ! p)"
      using claim_range [OF pmm_inv_shape [OF inv], of "st + ?n" st] fit(1)
      by (auto simp: fits_def s1_def Let_def)
    have eq: "pmm_alloc_pages count s = (s', of_nat (st * PAGE_SIZE))"
      using Some \<open>count \<noteq> 0\<close> by (simp add: pmm_alloc_pages_def s'_def s1_def Let_def)
    have fs: "free_set s' = free_set s - {st..<st + ?n}" using r by (simp add: s'_def free_set_def)
    have "pm_free s' = of_nat (card (free_set s'))"
      using card_fits [OF fit(1)] inv r by (simp add: fs s'_def pmm_inv_def)
    then have "pmm_inv s'"
      using inv r fs by (auto simp: pmm_inv_def s'_def pmm_shape_def)
    then show ?thesis using eq fit fs r by (intro disjI2 exI [of _ st] exI [of _ s']) (simp add: s'_def)
  qed
qed

text \<open>Dropping one reference: the page is freed exactly when the count reaches zero.\<close>

lemma pmm_page_unref_cases:
  assumes inv: "pmm_inv s" and p: "unat phys div PAGE_SIZE = p" "p < pm_pages s"
  shows "let (s', r) = pmm_page_unref phys s in
    pmm_inv s' \<and> pm_pages s' = pm_pages s \<and>
    free_set s' = (if pm_refs s ! p = 1 then insert p (free_set s) else free_set s) \<and>
    pm_refs s' = (pm_refs s)[p := (if pm_refs s ! p = 0 then 0 else pm_refs s ! p - 1)] \<and>
    r = (if pm_refs s ! p = 0 then 0 else pm_refs s ! p - 1)"
proof (cases "pm_refs s ! p = 0")
  case True
  then have "(pm_refs s)[p := 0] = pm_refs s" using list_update_id [of "pm_refs s" p] by simp
  then show ?thesis using True inv p by (simp add: pmm_page_unref_def page_in_bounds_def)
next
  case old: False
  then have used: "p \<notin> free_set s" "bitmap_test p (pm_bitmap s)"
    using inv p by (auto simp: pmm_inv_def free_set_def)
  have len: "p < length (pm_refs s)" "p < 8 * length (pm_bitmap s)" using inv p by (auto simp: pmm_inv_def)
  show ?thesis
  proof (cases "pm_refs s ! p = 1")
    case True
    define s' where "s' = s\<lparr>pm_refs := (pm_refs s)[p := 0],
       pm_bitmap := bitmap_clear p (pm_bitmap s), pm_free := pm_free s + 1\<rparr>"
    have eq: "pmm_page_unref phys s = (s', 0)"
      using True p used by (simp add: pmm_page_unref_def page_in_bounds_def s'_def Let_def)
    have fs: "free_set s' = insert p (free_set s)"
      using inv p by (simp add: s'_def free_set_zeros bm.zeros_clear pmm_inv_def)
    have "pmm_inv s'" using inv p used len fs by (auto simp: pmm_inv_def s'_def nth_list_update)
    then show ?thesis using eq fs True by (simp add: s'_def)
  next
    case False
    then have "pm_refs s ! p - 1 \<noteq> 0" by simp
    then show ?thesis using False old p used len inv
      by (auto simp: pmm_page_unref_def page_in_bounds_def Let_def pmm_inv_def nth_list_update)
  qed
qed

text \<open>Taking one more reference keeps the invariant while the 32-bit count has room.\<close>

lemma pmm_page_ref_inv:
  assumes inv: "pmm_inv s"
    and "\<forall>p < pm_pages s. pm_refs s ! p \<noteq> - 1"
  shows "pmm_inv (fst (pmm_page_ref phys s)) \<and> free_set (fst (pmm_page_ref phys s)) = free_set s"
proof -
  let ?p = "unat phys div PAGE_SIZE"
  have nz: "pm_refs s ! p + 1 \<noteq> 0" if "p < pm_pages s" for p
  proof
    assume "pm_refs s ! p + 1 = 0"
    then have "pm_refs s ! p = - 1" by (simp add: eq_neg_iff_add_eq_0)
    then show False using assms(2) that by simp
  qed
  show ?thesis
    using inv nz by (auto simp: pmm_page_ref_def page_in_bounds_def Let_def pmm_inv_def nth_list_update)
       (auto simp: free_set_def)
qed

section \<open>Freeing a range\<close>

lemma page_of_addr: "p < 2 ^ 52 \<Longrightarrow> unat (of_nat p * 4096 :: u64) div PAGE_SIZE = p"
  using of_nat_page_addr [of p] by simp

lemma free_loop:
  assumes inv: "pmm_inv s" and "st + m \<le> pm_pages s"
  shows "let s' = foldl (\<lambda>s i. free_one (st + i) s) s [0..<m] in
    pmm_inv s' \<and> pm_pages s' = pm_pages s \<and>
    free_set s' = free_set s \<union> {p \<in> {st..<st + m}. pm_refs s ! p = 1} \<and>
    (\<forall>p < pm_pages s. p \<notin> {st..<st + m} \<longrightarrow> pm_refs s' ! p = pm_refs s ! p)"
  using assms(2)
proof (induction m)
  case 0 then show ?case using inv by simp
next
  case (Suc m)
  define s1 where "s1 = foldl (\<lambda>s i. free_one (st + i) s) s [0..<m]"
  have s1: "pmm_inv s1" "pm_pages s1 = pm_pages s"
    "free_set s1 = free_set s \<union> {p \<in> {st..<st + m}. pm_refs s ! p = 1}"
    "\<forall>p < pm_pages s. p \<notin> {st..<st + m} \<longrightarrow> pm_refs s1 ! p = pm_refs s ! p"
    using Suc by (simp_all add: s1_def Let_def)
  have "pm_pages s \<le> 2 ^ 52" using inv by (simp add: pmm_inv_def)
  then have p: "unat (of_nat (st + m) * 4096 :: u64) div PAGE_SIZE = st + m" "st + m < pm_pages s1"
    using Suc.prems s1 page_of_addr [of "st + m"] by simp_all
  from pmm_page_unref_cases [OF s1(1) p]
  have s2: "pmm_inv (free_one (st + m) s1)"
    "pm_pages (free_one (st + m) s1) = pm_pages s"
    "free_set (free_one (st + m) s1) =
       (if pm_refs s ! (st + m) = 1 then insert (st + m) (free_set s1) else free_set s1)"
    "\<forall>q. q \<noteq> st + m \<longrightarrow> pm_refs (free_one (st + m) s1) ! q = pm_refs s1 ! q"
    using s1 Suc.prems by (auto simp: split_def Let_def free_one_def simp del: of_nat_add)
  have "{p \<in> {st..<st + Suc m}. pm_refs s ! p = 1} =
      (if pm_refs s ! (st + m) = 1 then insert (st + m) {p \<in> {st..<st + m}. pm_refs s ! p = 1}
       else {p \<in> {st..<st + m}. pm_refs s ! p = 1})"
    by (auto simp: less_Suc_eq)
  moreover have "\<forall>p < pm_pages s. p \<notin> {st..<st + Suc m} \<longrightarrow>
      pm_refs (free_one (st + m) s1) ! p = pm_refs s ! p"
    using s1(4) s2(4) by auto
  ultimately show ?case using s1 s2 by (simp add: s1_def [symmetric] Let_def)
qed

lemma pmm_free_pages_spec:
  assumes "pmm_inv s" "st + unat count \<le> pm_pages s" "phys = of_nat (st * PAGE_SIZE)" "count \<noteq> 0"
  shows "let s' = pmm_free_pages phys count s in
    pmm_inv s' \<and> pm_pages s' = pm_pages s \<and>
    free_set s' = free_set s \<union> {p \<in> {st..<st + unat count}. pm_refs s ! p = 1} \<and>
    (\<forall>p < pm_pages s. p \<notin> {st..<st + unat count} \<longrightarrow> pm_refs s' ! p = pm_refs s ! p)"
proof -
  have le: "pm_pages s \<le> 2 ^ 52" using assms(1) by (simp add: pmm_inv_def)
  have "0 < unat count" using assms(4) by (simp add: unat_gt_0)
  then have st: "unat phys div PAGE_SIZE = st"
    using assms(2,3) le of_nat_page_addr [of st] by simp
  have "(of_nat st + count :: u64) = of_nat (st + unat count)" by simp
  moreover have "\<not> (of_nat (st + unat count) :: u64) > of_nat (pm_pages s)"
    using assms(2) le by (simp add: word_less_nat_alt unat_of_nat del: of_nat_add)
  ultimately show ?thesis
    using free_loop [OF assms(1,2)] by (simp add: pmm_free_pages_def st)
qed

section \<open>Initialisation\<close>

lemma release_page_inv:
  assumes "pmm_inv s" "p < pm_pages s" "p \<notin> free_set s"
  shows "pmm_inv (release_page p s) \<and> free_set (release_page p s) = insert p (free_set s) \<and>
    pm_pages (release_page p s) = pm_pages s"
proof -
  have fs: "free_set (release_page p s) = insert p (free_set s)"
    using assms by (simp add: free_set_zeros release_page_def bm.zeros_clear pmm_inv_def)
  moreover have "pmm_inv (release_page p s)"
    using assms unfolding pmm_inv_def fs by (auto simp: release_page_def nth_list_update)
  ultimately show ?thesis by (simp add: release_page_def)
qed

lemma withdraw_page_inv:
  assumes "pmm_inv s" "p < pm_pages s"
  shows "pmm_inv (withdraw_page p s) \<and> free_set (withdraw_page p s) = free_set s - {p} \<and>
    pm_pages (withdraw_page p s) = pm_pages s"
proof (cases "bitmap_test p (pm_bitmap s)")
  case True
  then have "p \<notin> free_set s" by (simp add: free_set_def)
  then show ?thesis using True assms by (simp add: withdraw_page_def)
next
  case False
  then have p: "p \<in> free_set s" using assms by (simp add: free_set_def)
  have fs: "free_set (withdraw_page p s) = free_set s - {p}"
    using assms False by (simp add: withdraw_page_def free_set_claim pmm_inv_shape)
  have "card (free_set s) = Suc (card (free_set s - {p}))" using card_Suc_Diff1 [OF finite_free_set p] by simp
  then have "pmm_inv (withdraw_page p s)"
    using assms False unfolding pmm_inv_def fs by (auto simp: withdraw_page_def nth_list_update)
  then show ?thesis using fs False by (simp add: withdraw_page_def)
qed

lemma release_range:
  assumes "pmm_inv s" "b \<le> pm_pages s" "{a..<b} \<inter> free_set s = {}"
  shows "let s' = foldl (\<lambda>s p. release_page p s) s [a..<b] in
    pmm_inv s' \<and> free_set s' = free_set s \<union> {a..<b} \<and> pm_pages s' = pm_pages s"
  using assms(2,3)
proof (induction b)
  case 0 then show ?case using assms(1) by simp
next
  case (Suc b)
  show ?case
  proof (cases "a \<le> b")
    case True
    let ?s1 = "foldl (\<lambda>s p. release_page p s) s [a..<b]"
    have "{a..<b} \<inter> free_set s = {}" and b: "b \<notin> free_set s"
      using Suc.prems True by (auto simp: disjoint_iff)
    then have s1: "pmm_inv ?s1" "free_set ?s1 = free_set s \<union> {a..<b}" "pm_pages ?s1 = pm_pages s"
      using Suc by (simp_all add: Let_def)
    have "{a..<Suc b} = insert b {a..<b}" using True by auto
    then show ?thesis using release_page_inv [of ?s1 b] s1 b Suc.prems True by (simp add: Let_def)
  next
    case False then show ?thesis using assms(1) by simp
  qed
qed

lemma withdraw_range_inv:
  assumes "pmm_inv s" "a + n \<le> pm_pages s"
  shows "pmm_inv (withdraw_range a n s) \<and> free_set (withdraw_range a n s) = free_set s - {a..<a + n} \<and>
    pm_pages (withdraw_range a n s) = pm_pages s"
  using assms(2)
proof (induction n)
  case 0 then show ?case using assms(1) by (simp add: withdraw_range_def)
next
  case (Suc n)
  let ?w = "withdraw_range a n s"
  have w: "withdraw_range a (Suc n) s = withdraw_page (a + n) ?w" by (simp add: withdraw_range_def)
  have ih: "pmm_inv ?w" "free_set ?w = free_set s - {a..<a + n}" "pm_pages ?w = pm_pages s"
    using Suc by simp_all
  have "{a..<a + Suc n} = insert (a + n) {a..<a + n}" by auto
  then have "free_set s - {a..<a + n} - {a + n} = free_set s - {a..<a + Suc n}"
    by blast
  with withdraw_page_inv [OF ih(1), of "a + n"] ih Suc.prems show ?case by (simp only: w)
qed

definition pages_of :: "pmm_memmap_entry \<Rightarrow> nat set" where
  "pages_of e = (if mm_type e \<noteq> 0 then {}
     else {unat (mm_base e) div PAGE_SIZE..<unat (mm_base e) div PAGE_SIZE + unat (mm_length e) div PAGE_SIZE})"

primrec disjoint_entries :: "pmm_memmap_entry list \<Rightarrow> bool" where
  "disjoint_entries [] = True"
| "disjoint_entries (e # es) = ((\<forall>e' \<in> set es. pages_of e \<inter> pages_of e' = {}) \<and> disjoint_entries es)"

lemma pmm_inv_usable [simp]: "pmm_inv (s\<lparr>pm_usable := x\<rparr>) = pmm_inv s"
  by (simp add: pmm_inv_def)

lemma release_entry_inv:
  assumes "pmm_inv s" "pages_of e \<subseteq> {..<pm_pages s}" "pages_of e \<inter> free_set s = {}"
  shows "pmm_inv (release_entry s e) \<and> free_set (release_entry s e) = free_set s \<union> pages_of e \<and>
    pm_pages (release_entry s e) = pm_pages s"
proof (cases "mm_type e \<noteq> 0 \<or> unat (mm_length e) div PAGE_SIZE = 0")
  case True then show ?thesis using assms by (auto simp: release_entry_def pages_of_def)
next
  case False
  let ?a = "unat (mm_base e) div PAGE_SIZE" and ?n = "unat (mm_length e) div PAGE_SIZE"
  let ?s = "s\<lparr>pm_usable := pm_usable s + of_nat ?n\<rparr>"
  have pg: "pages_of e = {?a..<?a + ?n}" using False by (simp add: pages_of_def)
  have "?a + ?n - 1 \<in> pages_of e" using False unfolding pg by auto
  then have "?a + ?n \<le> pm_pages ?s" using assms(2) by force
  from release_range [OF _ this, of ?a] assms pg show ?thesis
    using False by (simp add: release_entry_def Let_def)
qed

lemma release_entries:
  assumes "pmm_inv s" "\<forall>e \<in> set es. pages_of e \<subseteq> {..<pm_pages s} \<and> pages_of e \<inter> free_set s = {}"
    "disjoint_entries es"
  shows "pmm_inv (foldl release_entry s es) \<and> pm_pages (foldl release_entry s es) = pm_pages s \<and>
    free_set (foldl release_entry s es) = free_set s \<union> \<Union> (pages_of ` set es)"
  using assms
proof (induction es arbitrary: s)
  case Nil then show ?case by simp
next
  case (Cons e es)
  have r: "pmm_inv (release_entry s e)" "free_set (release_entry s e) = free_set s \<union> pages_of e"
    "pm_pages (release_entry s e) = pm_pages s"
    using release_entry_inv [of s e] Cons.prems by auto
  have "\<forall>e' \<in> set es. pages_of e' \<subseteq> {..<pm_pages (release_entry s e)} \<and>
      pages_of e' \<inter> free_set (release_entry s e) = {}"
    using Cons.prems r by auto
  from Cons.IH [OF r(1) this] Cons.prems(3) r show ?case by auto
qed

lemma highest_addr_ge_aux:
  "h \<le> foldl (\<lambda>highest e. let e_end = mm_base e + mm_length e
                        in if e_end > highest then e_end else highest) h es \<and>
   (\<forall>e \<in> set es. mm_base e + mm_length e \<le> foldl (\<lambda>highest e. let e_end = mm_base e + mm_length e
                        in if e_end > highest then e_end else highest) h es)"
proof (induction es arbitrary: h)
  case Nil show ?case by simp
next
  case (Cons e es)
  let ?h = "let e_end = mm_base e + mm_length e in if e_end > h then e_end else h"
  have "h \<le> ?h" "mm_base e + mm_length e \<le> ?h" by (auto simp: Let_def)
  with Cons.IH [of ?h] show ?case by (auto intro: order_trans)
qed

lemma highest_addr_ge: "e \<in> set es \<Longrightarrow> mm_base e + mm_length e \<le> highest_addr es"
  using highest_addr_ge_aux unfolding highest_addr_def by blast

definition total_pages :: "pmm_memmap_entry list \<Rightarrow> nat" where
  "total_pages es = unat (highest_addr es) div PAGE_SIZE"

definition no_wrap :: "pmm_memmap_entry list \<Rightarrow> bool" where
  "no_wrap es \<longleftrightarrow> (\<forall>e \<in> set es. unat (mm_base e) + unat (mm_length e) < 2 ^ 64)"

definition meta_pages :: "nat \<Rightarrow> nat" where
  "meta_pages n = ((n + 7) div 8 + 4095) div PAGE_SIZE + (n * 4 + 4095) div PAGE_SIZE"

lemma entry_end:
  assumes "no_wrap es" "e \<in> set es"
  shows "unat (mm_base e) + unat (mm_length e) \<le> unat (highest_addr es)"
proof -
  have "unat (mm_base e + mm_length e) = unat (mm_base e) + unat (mm_length e)"
    using assms by (simp add: no_wrap_def unat_plus_simple [symmetric] unat_word_ariths)
  then show ?thesis using highest_addr_ge [OF assms(2)] by (simp add: word_le_nat_alt)
qed

lemma div_add_le: "a div c + b div c \<le> (a + b) div (c :: nat)"
  by (simp only: div_add1_eq [of a b c] le_add1)

lemma entry_pages:
  assumes "no_wrap es" "e \<in> set es"
  shows "pages_of e \<subseteq> {..<total_pages es}"
proof -
  have "unat (mm_base e) div PAGE_SIZE + unat (mm_length e) div PAGE_SIZE
      \<le> (unat (mm_base e) + unat (mm_length e)) div PAGE_SIZE"
    by (rule div_add_le)
  also have "\<dots> \<le> total_pages es"
    unfolding total_pages_def by (rule div_le_mono [OF entry_end [OF assms]])
  finally have "unat (mm_base e) div PAGE_SIZE + unat (mm_length e) div PAGE_SIZE \<le> total_pages es" .
  then show ?thesis by (auto simp: pages_of_def)
qed

lemma page_round_up_div: "page_round_up n div PAGE_SIZE = (n + 4095) div PAGE_SIZE"
  "page_round_up n mod PAGE_SIZE = 0" "page_round_up n = (n + 4095) div PAGE_SIZE * PAGE_SIZE"
  by (simp_all add: page_round_up_def)

definition pmm_blank :: "nat \<Rightarrow> u64 \<Rightarrow> pmm" where
  "pmm_blank n h = \<lparr>pm_bitmap = replicate ((n + 7) div 8) 0xFF, pm_refs = replicate n 0x01010101,
     pm_pages = n, pm_hhdm = h, pm_free = 0, pm_usable = 0\<rparr>"

lemma bit_ff: "i < 8 \<Longrightarrow> bit (255 :: int) i"
proof -
  assume "i < 8"
  moreover have "(255 :: int) = mask 8" by (simp add: mask_eq_exp_minus_1)
  ultimately show ?thesis by (simp only: bit_mask_iff) simp
qed

lemma pmm_blank_inv:
  assumes "n \<le> 2 ^ 52"
  shows "pmm_inv (pmm_blank n h)" "free_set (pmm_blank n h) = {}" "pm_pages (pmm_blank n h) = n"
proof -
  have "p div 8 < (n + 7) div 8" if "p < n" for p using that by linarith
  then show fs: "free_set (pmm_blank n h) = {}"
    by (auto simp: free_set_def pmm_blank_def bitmap_test_bit bit_ff)
  show "pmm_inv (pmm_blank n h)"
    using assms unfolding pmm_inv_def fs by (auto simp: pmm_blank_def)
  show "pm_pages (pmm_blank n h) = n" by (simp add: pmm_blank_def)
qed

lemma metadata_room:
  assumes "metadata_base m es = Some base" "no_wrap es"
  shows "unat base + m \<le> unat (highest_addr es)"
proof -
  from assms(1) obtain e where e: "e \<in> set es" "\<not> unat (mm_length e) < m" "base = mm_base e"
    by (auto simp: metadata_base_def find_Some_iff split: option.splits) (metis nth_mem)
  then show ?thesis using entry_end [OF assms(2) e(1)] by simp
qed

lemma pmm_init_steps:
  assumes "pmm_init es h = Some s" "no_wrap es"
  obtains base :: u64 where
    "unat base div PAGE_SIZE + meta_pages (total_pages es) \<le> total_pages es"
    "s = withdraw_page 0 (withdraw_range (unat base div PAGE_SIZE + ((total_pages es + 7) div 8 + 4095) div PAGE_SIZE)
           ((total_pages es * 4 + 4095) div PAGE_SIZE)
         (withdraw_range (unat base div PAGE_SIZE) (((total_pages es + 7) div 8 + 4095) div PAGE_SIZE)
           (foldl release_entry (pmm_blank (total_pages es) h) es)))"
proof -
  let ?n = "total_pages es" and ?bs = "page_round_up ((total_pages es + 7) div 8)"
  let ?rs = "page_round_up (total_pages es * 4)"
  from assms(1) obtain base where b: "metadata_base (?bs + ?rs) es = Some base"
    and s: "s = withdraw_page 0 (withdraw_range (unat (base + of_nat ?bs) div PAGE_SIZE) (?rs div PAGE_SIZE)
       (withdraw_range (unat base div PAGE_SIZE) (?bs div PAGE_SIZE) (foldl release_entry (pmm_blank ?n h) es)))"
    by (auto simp: pmm_init_def Let_def total_pages_def pmm_blank_def split: option.splits if_splits)
  have room: "unat base + (?bs + ?rs) \<le> unat (highest_addr es)" by (rule metadata_room [OF b assms(2)])
  have "unat base + ?bs < 2 ^ 64" using room unat_lt64 [of "highest_addr es"] by simp
  then have "unat (base + of_nat ?bs) = unat base + ?bs"
    by (simp add: unat_word_ariths unat_of_nat)
  then have rs: "unat (base + of_nat ?bs) div PAGE_SIZE = unat base div PAGE_SIZE + ?bs div PAGE_SIZE"
    by (simp add: page_round_up_div(3))
  have "(unat base + (?bs + ?rs)) div PAGE_SIZE = unat base div PAGE_SIZE + meta_pages ?n"
    unfolding meta_pages_def page_round_up_div(3) by simp
  then have "unat base div PAGE_SIZE + meta_pages ?n \<le> ?n"
    using div_le_mono [OF room, of PAGE_SIZE] by (simp add: total_pages_def)
  with that [of base] b s rs show thesis by (simp add: page_round_up_div(1))
qed

section \<open>Properties\<close>


definition memmap_example :: "pmm_memmap_entry list" where
  "memmap_example = [\<lparr>mm_base = 0, mm_length = 0x8000, mm_type = 0\<rparr>,
                     \<lparr>mm_base = 0x8000, mm_length = 0x2000, mm_type = 1\<rparr>]"


text \<open>C5: \<^verbatim>\<open>pmm_alloc_pages\<close> is first fit and complete: it returns the lowest run of
  \<open>count\<close> free pages above page 0, takes exactly those pages out of the free set
  with reference count 1 and leaves every other page alone, keeps the invariant,
  and returns 0, changing nothing, only when no such run exists.\<close>

theorem pmm_alloc_first_fit:
  assumes "pmm_inv s" "count \<noteq> 0"
  shows "let (s', a) = pmm_alloc_pages count s; n = unat count in
    if a = 0 then s' = s \<and> (\<forall>q. \<not> fits s n q)
    else \<exists>st. a = of_nat (st * PAGE_SIZE) \<and> fits s n st \<and> (\<forall>q < st. \<not> fits s n q) \<and>
      pmm_inv s' \<and> free_set s' = free_set s - {st..<st + n} \<and>
      (\<forall>p < pm_pages s. pm_refs s' ! p = (if p \<in> {st..<st + n} then 1 else pm_refs s ! p))"
  using pmm_alloc_pages_cases [OF assms]
proof (elim disjE exE conjE)
  assume "pmm_alloc_pages count s = (s, 0)" "\<forall>q. \<not> fits s (unat count) q"
  then show ?thesis by simp
next
  fix st s' assume a: "pmm_alloc_pages count s = (s', of_nat (st * PAGE_SIZE))" and "fits s (unat count) st"
  then have "1 \<le> st" "st \<le> 2 ^ 52 - 1"
    using assms(1) unat_gt_0 [of count] assms(2) by (auto simp: fits_def pmm_inv_def)
  then have "unat (of_nat (st * PAGE_SIZE) :: u64) \<noteq> 0" using of_nat_page_addr [of st] by simp
  then have "(of_nat (st * PAGE_SIZE) :: u64) \<noteq> 0" by (metis unat_0)
  moreover assume "\<forall>q < st. \<not> fits s (unat count) q" "pmm_inv s'"
    "free_set s' = free_set s - {st..<st + unat count}"
    "\<forall>p < pm_pages s. pm_refs s' ! p = (if p \<in> {st..<st + unat count} then 1 else pm_refs s ! p)"
  ultimately show ?thesis using a \<open>fits s (unat count) st\<close> by (auto simp: Let_def)
qed

definition pmm_example :: pmm where
  "pmm_example = foldl (\<lambda>s p. release_page p s) (pmm_blank 16 0) [4..<10]"

lemma pmm_example_facts: "pmm_inv pmm_example" "free_set pmm_example = {4..<10}" "pm_pages pmm_example = 16"
  using release_range [of "pmm_blank 16 0" 10 4] pmm_blank_inv [of 16 0]
  by (simp_all add: pmm_example_def Let_def)

theorem pmm_alloc_first_fit_witness:
  "\<exists>s'. pmm_alloc_pages 3 pmm_example = (s', 0x4000) \<and> pmm_inv s' \<and> free_set s' = {7..<10}"
proof -
  have f: "fits pmm_example 3 4" "\<And>q. q < 4 \<Longrightarrow> \<not> fits pmm_example 3 q"
    by (auto simp: fits_def pmm_example_facts)
  obtain s' a where sa: "pmm_alloc_pages 3 pmm_example = (s', a)" by fastforce
  have "({4..<10} - {4..<7} :: nat set) = {7..<10}" by auto
  moreover obtain st where "a = of_nat (st * PAGE_SIZE)" "fits pmm_example 3 st"
      "\<forall>q < st. \<not> fits pmm_example 3 q" "pmm_inv s'" "free_set s' = {4..<10} - {st..<st + 3}"
    using pmm_alloc_first_fit [of pmm_example 3] f(1) sa
    by (auto simp: pmm_example_facts Let_def split: if_splits)
  moreover from this f have "st = 4" by (metis linorder_neqE_nat)
  ultimately show ?thesis using sa by simp
qed

text \<open>C6: freeing a fresh allocation gives back the free set, the free count and the
  zero reference counts there were before, and keeps the invariant.\<close>

theorem pmm_alloc_free_roundtrip:
  assumes "pmm_inv s" "pmm_alloc_pages count s = (s', a)" "a \<noteq> 0"
  shows "let s'' = pmm_free_pages a count s' in
    pmm_inv s'' \<and> free_set s'' = free_set s \<and> pmm_get_free_pages s'' = pmm_get_free_pages s"
proof -
  have "count \<noteq> 0" using assms(2,3) by (auto simp: pmm_alloc_pages_def)
  from pmm_alloc_pages_cases [OF assms(1) this] assms(2,3)
  obtain st where st: "a = of_nat (st * PAGE_SIZE)" "fits s (unat count) st" "pmm_inv s'"
    "pm_pages s' = pm_pages s" "free_set s' = free_set s - {st..<st + unat count}"
    "\<forall>p < pm_pages s. pm_refs s' ! p = (if p \<in> {st..<st + unat count} then 1 else pm_refs s ! p)"
    by auto
  have "{p \<in> {st..<st + unat count}. pm_refs s' ! p = 1} = {st..<st + unat count}"
    using st by (auto simp: fits_def)
  moreover from st have "free_set s - {st..<st + unat count} \<union> {st..<st + unat count} = free_set s"
    by (auto simp: fits_def)
  ultimately have "pmm_inv (pmm_free_pages a count s')" "free_set (pmm_free_pages a count s') = free_set s"
    using pmm_free_pages_spec [OF st(3) _ st(1) \<open>count \<noteq> 0\<close>] st by (auto simp: fits_def Let_def)
  then show ?thesis using assms(1) by (simp add: pmm_inv_def pmm_get_free_pages_def Let_def)
qed

theorem pmm_alloc_free_roundtrip_witness:
  "\<exists>s' a. pmm_alloc_pages 2 pmm_example = (s', a) \<and> a \<noteq> 0 \<and>
     free_set (pmm_free_pages a 2 s') = {4..<10}"
proof -
  obtain s' a where sa: "pmm_alloc_pages 2 pmm_example = (s', a)" by fastforce
  have "fits pmm_example 2 4" by (auto simp: fits_def pmm_example_facts)
  then obtain st where st: "a = of_nat (st * PAGE_SIZE)" "fits pmm_example 2 st"
    using pmm_alloc_pages_cases [OF pmm_example_facts(1), of 2] sa by auto
  have "st < 16" "1 \<le> st" using st(2) by (auto simp: fits_def pmm_example_facts)
  then have "unat a \<noteq> 0" using of_nat_page_addr [of st] by (simp add: st(1))
  then have "a \<noteq> 0" by (metis unat_0)
  with pmm_alloc_free_roundtrip [OF pmm_example_facts(1) sa] sa show ?thesis
    by (auto simp: pmm_example_facts Let_def)
qed

end
