(* ===== verification/Vma.thy ===== *)
theory Vma
  imports Task_Model
begin

text \<open>
  The list of memory areas of a process (\<^verbatim>\<open>syscall/proc_syscalls.c\<close>): insertion,
  lookup, cloning at fork, the splitting done by \<^verbatim>\<open>mprotect\<close> and the trimming and
  splitting done by \<^verbatim>\<open>munmap\<close>.  The list is the HOL list of its areas.  The state
  threaded through is the reference count of each vnode and the outcomes the
  next \<^verbatim>\<open>kmalloc\<close> calls will have (a call with no outcome left fails).  Page
  tables and the page cache, which the system calls update beside the list, are
  not part of this theory.
\<close>

section \<open>Environment of the list operations\<close>

record vm_env =
  vn_refs :: "nat \<Rightarrow> nat"
  km_outcomes :: "bool list"

definition vnode_get :: "nat option \<Rightarrow> vm_env \<Rightarrow> vm_env" where
  "vnode_get f e = (case f of None \<Rightarrow> e | Some i \<Rightarrow> e\<lparr>vn_refs := (vn_refs e)(i := vn_refs e i + 1)\<rparr>)"

definition vnode_put :: "nat option \<Rightarrow> vm_env \<Rightarrow> vm_env" where
  "vnode_put f e =
     (case f of None \<Rightarrow> e
      | Some i \<Rightarrow> if vn_refs e i = 0 then e else e\<lparr>vn_refs := (vn_refs e)(i := vn_refs e i - 1)\<rparr>)"

definition kmalloc_outcome :: "vm_env \<Rightarrow> bool \<times> vm_env" where
  "kmalloc_outcome e = (case km_outcomes e of [] \<Rightarrow> (False, e) | b # bs \<Rightarrow> (b, e\<lparr>km_outcomes := bs\<rparr>))"

section \<open>Insertion, lookup, cloning\<close>

fun vma_insert :: "vma \<Rightarrow> vma list \<Rightarrow> vma list" where
  "vma_insert v [] = [v]"
| "vma_insert v (w # ws) = (if v_start w < v_start v then w # vma_insert v ws else v # w # ws)"

fun vma_find_for_addr :: "u64 \<Rightarrow> vma list \<Rightarrow> vma option" where
  "vma_find_for_addr addr [] = None"
| "vma_find_for_addr addr (v # vs) =
     (if addr \<ge> v_start v \<and> addr < v_end v then Some v else vma_find_for_addr addr vs)"

fun vma_overlaps_range :: "u64 \<Rightarrow> u64 \<Rightarrow> vma list \<Rightarrow> bool" where
  "vma_overlaps_range start e [] = False"
| "vma_overlaps_range start e (v # vs) =
     (if start \<ge> e then False
      else if v_end v \<le> start \<or> v_start v \<ge> e then vma_overlaps_range start e vs
      else True)"

text \<open>\<^verbatim>\<open>vma_list_clone\<close> appends copies to the child's empty list and stops at the
  first failed allocation.\<close>

fun vma_list_clone :: "vma list \<Rightarrow> vm_env \<Rightarrow> vma list \<times> vm_env" where
  "vma_list_clone [] e = ([], e)"
| "vma_list_clone (v # vs) e =
     (let (ok, e) = kmalloc_outcome e in
      if \<not> ok then ([], e)
      else let (ws, e) = vma_list_clone vs (vnode_get (v_file v) e) in (v # ws, e))"

section \<open>Protection changes\<close>

definition VMA_READ :: u32 where "VMA_READ = 1"
definition VMA_WRITE :: u32 where "VMA_WRITE = 2"
definition VMA_EXEC :: u32 where "VMA_EXEC = 4"

definition vma_perm_from_prot :: "u32 \<Rightarrow> u32" where
  "vma_perm_from_prot prot =
     (if prot AND 1 \<noteq> 0 then VMA_READ else 0) OR (if prot AND 2 \<noteq> 0 then VMA_WRITE else 0) OR
     (if prot AND 4 \<noteq> 0 then VMA_EXEC else 0)"

definition perm_flags :: "u32 \<Rightarrow> u32 \<Rightarrow> u32" where
  "perm_flags perms flags = flags AND NOT (VMA_READ OR VMA_WRITE OR VMA_EXEC) OR perms"

definition vma_set_perm_flags :: "u32 \<Rightarrow> vma \<Rightarrow> vma" where
  "vma_set_perm_flags perms v = v\<lparr>v_flags := perm_flags perms (v_flags v)\<rparr>"

definition vma_update_file_window :: "u64 \<Rightarrow> u64 \<Rightarrow> u64 \<Rightarrow> vma \<Rightarrow> vma" where
  "vma_update_file_window orig_start orig_file_offset orig_file_size v =
     (if v_file v = None then v\<lparr>v_file_offset := 0, v_file_size := 0\<rparr>
      else
        let seg_off = v_start v - orig_start; seg_len = v_end v - v_start v;
            v = v\<lparr>v_file_offset := orig_file_offset + seg_off\<rparr>
        in if seg_off \<ge> orig_file_size then v\<lparr>v_file_size := 0\<rparr>
           else let remain = orig_file_size - seg_off
                in v\<lparr>v_file_size := (if remain < seg_len then remain else seg_len)\<rparr>)"

text \<open>The piece \<open>[s, e)\<close> of an area \<open>v\<close>, with the part of the file it covers.\<close>

definition vma_piece :: "vma \<Rightarrow> u64 \<Rightarrow> u64 \<Rightarrow> vma" where
  "vma_piece v s e =
     vma_update_file_window (v_start v) (v_file_offset v) (v_file_size v) (v\<lparr>v_start := s, v_end := e\<rparr>)"

text \<open>The loop of \<^verbatim>\<open>vma_apply_mprotect\<close>; \<open>need_left\<close> and \<open>need_right\<close> are the two
  allocations, in that order.\<close>

fun mprotect_list :: "u64 \<Rightarrow> u64 \<Rightarrow> u32 \<Rightarrow> vma list \<Rightarrow> vm_env \<Rightarrow> vma list \<times> vm_env \<times> int" where
  "mprotect_list start e perms [] env = ([], env, 0)"
| "mprotect_list start e perms (v # vs) env =
     (if v_end v \<le> start then
        (let (ws, env, r) = mprotect_list start e perms vs env in (v # ws, env, r))
      else if v_start v \<ge> e then (v # vs, env, 0)
      else
        let prot_start = (if v_start v > start then v_start v else start);
            prot_end = (if v_end v < e then v_end v else e);
            need_left = (v_start v < prot_start);
            need_right = (prot_end < v_end v);
            left = vma_piece v (v_start v) prot_start;
            right = vma_piece v prot_end (v_end v);
            mid = vma_update_file_window (v_start v) (v_file_offset v) (v_file_size v)
                    (vma_set_perm_flags perms (v\<lparr>v_start := prot_start, v_end := prot_end\<rparr>));
            (okl, env1) = (if need_left then kmalloc_outcome env else (True, env))
        in if \<not> okl then (v # vs, env1, - ENOMEM)
           else
             let env2 = (if need_left then vnode_get (v_file v) env1 else env1);
                 (okr, env3) = (if need_right then kmalloc_outcome env2 else (True, env2))
             in if \<not> okr then
                  (v # vs, (if need_left then vnode_put (v_file v) env3 else env3), - ENOMEM)
                else
                  let env4 = (if need_right then vnode_get (v_file v) env3 else env3);
                      (ws, env5, r) = mprotect_list start e perms vs env4
                  in ((if need_left then [left] else []) @ mid # (if need_right then [right] else []) @ ws,
                      env5, r))"

definition vma_apply_mprotect :: "u64 \<Rightarrow> u64 \<Rightarrow> u32 \<Rightarrow> vma list \<Rightarrow> vm_env \<Rightarrow> vma list \<times> vm_env \<times> int" where
  "vma_apply_mprotect start e perms l env =
     (if start \<ge> e then (l, env, - EINVAL) else mprotect_list start e perms l env)"

section \<open>Unmapping\<close>

definition clamp_file_size :: "vma \<Rightarrow> vma" where
  "clamp_file_size v =
     (if v_file_size v > v_end v - v_start v then v\<lparr>v_file_size := v_end v - v_start v\<rparr> else v)"

fun munmap_list :: "u64 \<Rightarrow> u64 \<Rightarrow> vma list \<Rightarrow> vm_env \<Rightarrow> vma list \<times> vm_env" where
  "munmap_list us ue [] env = ([], env)"
| "munmap_list us ue (v # vs) env =
     (if v_end v \<le> us \<or> v_start v \<ge> ue then
        (let (ws, env) = munmap_list us ue vs env in (v # ws, env))
      else if v_start v \<ge> us \<and> v_end v \<le> ue then munmap_list us ue vs (vnode_put (v_file v) env)
      else if v_start v < us \<and> v_end v > ue then
        (let (ok, env1) = kmalloc_outcome env in
         if ok then
           let right = v\<lparr>v_start := ue, v_file_offset := v_file_offset v + (ue - v_start v),
                         v_file_size := (if v_end v > ue then v_end v - ue else 0)\<rparr>;
               (ws, env2) = munmap_list us ue vs (vnode_get (v_file v) env1)
           in (clamp_file_size (v\<lparr>v_end := us\<rparr>) # right # ws, env2)
         else (let (ws, env2) = munmap_list us ue vs env1 in (v # ws, env2)))
      else if v_start v < us then
        (let (ws, env) = munmap_list us ue vs env in (clamp_file_size (v\<lparr>v_end := us\<rparr>) # ws, env))
      else if v_end v > ue then
        (let v1 = (if v_file v \<noteq> None then v\<lparr>v_file_offset := v_file_offset v + (ue - v_start v)\<rparr> else v);
             (ws, env) = munmap_list us ue vs env
         in (clamp_file_size (v1\<lparr>v_start := ue\<rparr>) # ws, env))
      else (let (ws, env) = munmap_list us ue vs env in (v # ws, env)))"

section \<open>What an address is mapped to\<close>

definition vma_attr :: "u64 \<Rightarrow> vma \<Rightarrow> u32 \<times> u32 \<times> (nat \<times> u64 \<times> bool) option" where
  "vma_attr a v = (v_flags v, v_mmap_flags v,
     map_option (\<lambda>f. (f, v_file_offset v + (a - v_start v), a - v_start v < v_file_size v)) (v_file v))"

definition mapping_at :: "vma list \<Rightarrow> u64 \<Rightarrow> (u32 \<times> u32 \<times> (nat \<times> u64 \<times> bool) option) option" where
  "mapping_at l a = map_option (vma_attr a) (vma_find_for_addr a l)"

fun vmas_ok :: "vma list \<Rightarrow> bool" where
  "vmas_ok [] = True"
| "vmas_ok (v # vs) = (v_start v < v_end v \<and> (\<forall>w \<in> set vs. v_end v \<le> v_start w) \<and> vmas_ok vs)"

lemma find_append:
  "vma_find_for_addr a (xs @ ys) =
     (case vma_find_for_addr a xs of None \<Rightarrow> vma_find_for_addr a ys | Some v \<Rightarrow> Some v)"
  by (induction xs) auto

lemma find_None_iff: "vma_find_for_addr a l = None \<longleftrightarrow> (\<forall>v \<in> set l. \<not> (v_start v \<le> a \<and> a < v_end v))"
  by (induction l) auto

lemma window_offset:
  fixes a s os :: u64 assumes "os \<le> s" "s \<le> a"
  shows "(a - os < fs) = (\<not> s - os \<ge> fs \<and> a - s < fs - (s - os))"
proof -
  have "unat (a - os) = unat a - unat os" "unat (s - os) = unat s - unat os" "unat (a - s) = unat a - unat s"
    using assms by (auto simp: unat_sub intro: unat_sub)
  moreover have "unat (fs - (s - os)) = unat fs - unat (s - os)" if "\<not> s - os \<ge> fs"
    using that by (intro unat_sub) simp
  moreover have "unat os \<le> unat s" "unat s \<le> unat a" using assms by (simp_all add: word_le_nat_alt)
  ultimately show ?thesis by (auto simp: word_less_nat_alt word_le_nat_alt)
qed

lemma piece_shape [simp]:
  "v_start (vma_update_file_window o' f z v) = v_start v" "v_end (vma_update_file_window o' f z v) = v_end v"
  "v_file (vma_update_file_window o' f z v) = v_file v" "v_flags (vma_update_file_window o' f z v) = v_flags v"
  "v_mmap_flags (vma_update_file_window o' f z v) = v_mmap_flags v"
  by (simp_all add: vma_update_file_window_def Let_def)

lemma window_attr:
  assumes "v_start v \<le> s" "s \<le> a" "a < e"
  shows "vma_attr a (vma_update_file_window (v_start v) (v_file_offset v) (v_file_size v) (v\<lparr>v_start := s, v_end := e\<rparr>))
       = vma_attr a v"
proof -
  have "a - s < e - s" 
    using assms by (simp add: word_less_nat_alt word_le_nat_alt unat_sub_if_size)
  then show ?thesis
    using window_offset [OF assms(1,2), of "v_file_size v"]
    by (auto simp: vma_attr_def vma_update_file_window_def Let_def)
qed

section \<open>mprotect\<close>

definition reprotect :: "u32 \<Rightarrow> u32 \<times> u32 \<times> 'b \<Rightarrow> u32 \<times> u32 \<times> 'b" where
  "reprotect perms x = (perm_flags perms (fst x), snd x)"

definition mp_parts :: "u64 \<Rightarrow> u64 \<Rightarrow> u32 \<Rightarrow> vma \<Rightarrow> vma list" where
  "mp_parts start e perms v =
     (let ps = (if v_start v > start then v_start v else start); pe = (if v_end v < e then v_end v else e)
      in (if v_start v < ps then [vma_piece v (v_start v) ps] else []) @
         vma_update_file_window (v_start v) (v_file_offset v) (v_file_size v)
           (vma_set_perm_flags perms (v\<lparr>v_start := ps, v_end := pe\<rparr>)) #
         (if pe < v_end v then [vma_piece v pe (v_end v)] else []))"

lemma mprotect_overlap:
  assumes "\<not> v_end v \<le> start" "\<not> v_start v \<ge> e" "mprotect_list start e perms (v # vs) env = (l', env', r)"
  shows "(r = - ENOMEM \<and> l' = v # vs) \<or>
    (\<exists>env4 ws. mprotect_list start e perms vs env4 = (ws, env', r) \<and> l' = mp_parts start e perms v @ ws)"
  using assms
  by (auto simp: mp_parts_def Let_def split: prod.splits if_splits)

lemma mid_attr:
  assumes "v_start v \<le> s" "s \<le> a" "a < e"
  shows "vma_attr a (vma_update_file_window (v_start v) (v_file_offset v) (v_file_size v)
           (vma_set_perm_flags perms (v\<lparr>v_start := s, v_end := e\<rparr>))) = reprotect perms (vma_attr a v)"
proof -
  have "vma_update_file_window (v_start v) (v_file_offset v) (v_file_size v)
           (vma_set_perm_flags perms (v\<lparr>v_start := s, v_end := e\<rparr>)) =
        vma_set_perm_flags perms (vma_update_file_window (v_start v) (v_file_offset v) (v_file_size v)
           (v\<lparr>v_start := s, v_end := e\<rparr>))"
    by (simp add: vma_update_file_window_def vma_set_perm_flags_def Let_def)
  moreover have "vma_attr a (vma_set_perm_flags perms w) = reprotect perms (vma_attr a w)" for w
    by (simp add: vma_attr_def vma_set_perm_flags_def reprotect_def)
  ultimately show ?thesis using window_attr [OF assms] by simp
qed

definition mp_start :: "u64 \<Rightarrow> vma \<Rightarrow> u64" where
  "mp_start start v = (if v_start v > start then v_start v else start)"

definition mp_end :: "u64 \<Rightarrow> vma \<Rightarrow> u64" where
  "mp_end e v = (if v_end v < e then v_end v else e)"

lemma mp_bounds:
  assumes "\<not> v_end v \<le> start" "\<not> v_start v \<ge> e" "start < e" "v_start v < v_end v"
  shows "v_start v \<le> mp_start start v" "mp_start start v < mp_end e v" "mp_end e v \<le> v_end v"
    "v_start v \<le> a \<Longrightarrow> a < v_end v \<Longrightarrow> (start \<le> a \<and> a < e) = (mp_start start v \<le> a \<and> a < mp_end e v)"
  using assms by (auto simp: mp_start_def mp_end_def)

lemma mp_parts_find:
  assumes "\<not> v_end v \<le> start" "\<not> v_start v \<ge> e" "start < e" "v_start v < v_end v"
  shows "map_option (vma_attr a) (vma_find_for_addr a (mp_parts start e perms v)) =
    (if v_start v \<le> a \<and> a < v_end v
     then Some ((if start \<le> a \<and> a < e then reprotect perms else id) (vma_attr a v)) else None)"
proof -
  let ?s = "mp_start start v" and ?e = "mp_end e v"
  define M where "M = vma_update_file_window (v_start v) (v_file_offset v) (v_file_size v)
           (vma_set_perm_flags perms (v\<lparr>v_start := ?s, v_end := ?e\<rparr>))"
  note b = mp_bounds [OF assms]
  have parts: "mp_parts start e perms v = (if v_start v < ?s then [vma_piece v (v_start v) ?s] else []) @
      M # (if ?e < v_end v then [vma_piece v ?e (v_end v)] else [])"
    by (simp add: mp_parts_def M_def mp_start_def mp_end_def Let_def)
  have M: "v_start M = ?s" "v_end M = ?e" by (simp_all add: M_def vma_set_perm_flags_def)
  have P: "v_start (vma_piece v x y) = x" "v_end (vma_piece v x y) = y" for x y by (simp_all add: vma_piece_def)
  consider "a < v_start v" | "v_start v \<le> a" "a < ?s" | "?s \<le> a" "a < ?e" | "?e \<le> a" "a < v_end v" | "v_end v \<le> a"
    by force
  then show ?thesis
  proof cases
    case 1
    then have "\<not> v_start v \<le> a" "\<not> ?s \<le> a" "\<not> ?e \<le> a" using b(1-3) by order+
    then show ?thesis by (simp add: parts M P)
  next
    case 2
    then have "vma_attr a (vma_piece v (v_start v) ?s) = vma_attr a v" unfolding vma_piece_def by (intro window_attr) auto
    moreover have "v_start v < ?s" "a < v_end v" "\<not> ?s \<le> a" using 2 b(1-3) by order+
    ultimately show ?thesis using 2 b(4) [of a] by (auto simp: parts M P)
  next
    case 3
    then have "vma_attr a M = reprotect perms (vma_attr a v)" unfolding M_def using b by (intro mid_attr) auto
    moreover have "v_start v \<le> a" "a < v_end v" "\<not> a < ?s" using 3 b(1-3) by order+
    ultimately show ?thesis using 3 b(4) [of a] by (simp add: parts M P)
  next
    case 4
    then have "vma_attr a (vma_piece v ?e (v_end v)) = vma_attr a v" unfolding vma_piece_def using b by (intro window_attr) auto
    moreover have "v_start v \<le> a" "\<not> a < ?e" "\<not> a < ?s" "?e < v_end v" using 4 b(1-3) by order+
    ultimately show ?thesis using 4 b(4) [of a] by (auto simp: parts M P)
  next
    case 5
    then have "\<not> a < v_end v" "\<not> a < ?e" "\<not> a < ?s" using b(1-3) by order+
    then show ?thesis by (simp add: parts M P)
  qed
qed

lemma mp_parts_ok:
  assumes "\<not> v_end v \<le> start" "\<not> v_start v \<ge> e" "start < e" "v_start v < v_end v"
  shows "vmas_ok (mp_parts start e perms v)"
    "\<forall>w \<in> set (mp_parts start e perms v). v_start v \<le> v_start w \<and> v_end w \<le> v_end v"
proof -
  let ?s = "mp_start start v" and ?e = "mp_end e v"
  note b = mp_bounds(1-3) [OF assms]
  have s: "v_start v \<le> ?e" "?s \<le> v_end v" using b by order+
  have parts: "mp_parts start e perms v = (if v_start v < ?s then [vma_piece v (v_start v) ?s] else []) @
      vma_update_file_window (v_start v) (v_file_offset v) (v_file_size v)
           (vma_set_perm_flags perms (v\<lparr>v_start := ?s, v_end := ?e\<rparr>))
      # (if ?e < v_end v then [vma_piece v ?e (v_end v)] else [])"
    by (simp add: mp_parts_def mp_start_def mp_end_def Let_def)
  show "vmas_ok (mp_parts start e perms v)"
    using b s by (simp add: parts vma_piece_def vma_set_perm_flags_def order.strict_implies_order)
  show "\<forall>w \<in> set (mp_parts start e perms v). v_start v \<le> v_start w \<and> v_end w \<le> v_end v"
    using b s by (auto simp: parts vma_piece_def vma_set_perm_flags_def)
qed

lemma vmas_ok_append:
  "vmas_ok (xs @ ys) \<longleftrightarrow> vmas_ok xs \<and> vmas_ok ys \<and> (\<forall>x \<in> set xs. \<forall>y \<in> set ys. v_end x \<le> v_start y)"
  by (induction xs) auto

lemma mprotect_lower:
  assumes "mprotect_list start e perms l env = (l', env', r)" "start < e" "vmas_ok l"
    "\<forall>w \<in> set l. x \<le> v_start w"
  shows "\<forall>w \<in> set l'. x \<le> v_start w"
  using assms
proof (induction l arbitrary: env l')
  case Nil then show ?case by simp
next
  case (Cons v vs)
  consider "v_end v \<le> start" | "\<not> v_end v \<le> start" "v_start v \<ge> e" | "\<not> v_end v \<le> start" "\<not> v_start v \<ge> e" by blast
  then show ?case
  proof cases
    case 3
    from mprotect_overlap [OF 3 Cons.prems(1)] show ?thesis
    proof (elim disjE exE conjE)
      fix env4 ws assume w: "mprotect_list start e perms vs env4 = (ws, env', r)" and l': "l' = mp_parts start e perms v @ ws"
      have "\<forall>w \<in> set ws. x \<le> v_start w" using Cons.IH [OF w] Cons.prems by simp
      moreover have "\<forall>w \<in> set (mp_parts start e perms v). x \<le> v_start w"
        using mp_parts_ok(2) [OF 3 Cons.prems(2), of perms] Cons.prems(3,4) by (auto intro: order_trans)
      ultimately show ?thesis by (auto simp: l')
    qed (use Cons.prems in simp)
  qed (use Cons in \<open>auto split: prod.splits\<close>)
qed

lemma mprotect_mapping:
  assumes "mprotect_list start e perms l env = (l', env', 0)" "start < e" "vmas_ok l"
  shows "vmas_ok l' \<and> mapping_at l' a =
    (if start \<le> a \<and> a < e then map_option (reprotect perms) (mapping_at l a) else mapping_at l a)"
  using assms
proof (induction l arbitrary: env l')
  case Nil then show ?case by (simp add: mapping_at_def)
next
  case (Cons v vs)
  note ok = \<open>vmas_ok (v # vs)\<close>
  consider "v_end v \<le> start" | "\<not> v_end v \<le> start" "v_start v \<ge> e" | "\<not> v_end v \<le> start" "\<not> v_start v \<ge> e" by blast
  then show ?case
  proof cases
    case 1
    then obtain ws where ws: "mprotect_list start e perms vs env = (ws, env', 0)" "l' = v # ws"
      using Cons.prems(1) by (auto split: prod.splits)
    have "\<forall>w \<in> set ws. v_end v \<le> v_start w" using mprotect_lower [OF ws(1) Cons.prems(2)] ok by simp
    moreover have "\<not> (start \<le> a \<and> a < v_end v)" using 1 by auto
    ultimately show ?thesis using Cons.IH [OF ws(1) Cons.prems(2)] ok ws(2) by (auto simp: mapping_at_def)
  next
    case 2
    then have "mapping_at (v # vs) a = None" if "start \<le> a \<and> a < e"
    proof -
      have "\<not> v_start w \<le> a" if "w \<in> set (v # vs)" for w
        using 2 ok that \<open>start \<le> a \<and> a < e\<close> by (auto dest: order.strict_trans1 order.strict_trans2 leD)
      then show ?thesis unfolding mapping_at_def using find_None_iff by auto
    qed
    then show ?thesis using 2 Cons.prems by auto
  next
    case 3
    from mprotect_overlap [OF 3 Cons.prems(1)] obtain env4 ws where
      ws: "mprotect_list start e perms vs env4 = (ws, env', 0)" and l': "l' = mp_parts start e perms v @ ws"
      by auto
    note parts = mp_parts_ok [OF 3 Cons.prems(2), of perms]
    have "\<forall>w \<in> set ws. v_end v \<le> v_start w" using mprotect_lower [OF ws Cons.prems(2)] ok by simp
    then have "vmas_ok l'" using Cons.IH [OF ws Cons.prems(2)] ok parts
      by (auto simp: l' vmas_ok_append intro: order_trans)
    then show ?thesis using Cons.IH [OF ws Cons.prems(2)] ok mp_parts_find [OF 3 Cons.prems(2), of a perms]
      by (auto simp: l' mapping_at_def find_append split: option.splits)
  qed
qed

section \<open>munmap\<close>

text \<open>The mapping of an address up to the question whether the file still covers it.\<close>

definition forget_backed :: "u32 \<times> u32 \<times> (nat \<times> u64 \<times> bool) option \<Rightarrow> u32 \<times> u32 \<times> (nat \<times> u64) option" where
  "forget_backed x = (fst x, fst (snd x), map_option (\<lambda>(f, pos, _). (f, pos)) (snd (snd x)))"

definition place_at :: "vma list \<Rightarrow> u64 \<Rightarrow> (u32 \<times> u32 \<times> (nat \<times> u64) option) option" where
  "place_at l a = map_option forget_backed (mapping_at l a)"

definition vma_place :: "u64 \<Rightarrow> vma \<Rightarrow> u32 \<times> u32 \<times> (nat \<times> u64) option" where
  "vma_place a v = (v_flags v, v_mmap_flags v, map_option (\<lambda>f. (f, v_file_offset v + (a - v_start v))) (v_file v))"

lemma place_at_find: "place_at l a = map_option (vma_place a) (vma_find_for_addr a l)"
  by (auto simp: place_at_def mapping_at_def forget_backed_def vma_attr_def vma_place_def option.map_comp comp_def
      intro!: option.map_cong)

lemma clamp_shape [simp]:
  "v_start (clamp_file_size v) = v_start v" "v_end (clamp_file_size v) = v_end v"
  "vma_place a (clamp_file_size v) = vma_place a v" "v_file (clamp_file_size v) = v_file v"
  by (simp_all add: clamp_file_size_def vma_place_def)

definition spans :: "u64 \<Rightarrow> u64 \<Rightarrow> vma \<Rightarrow> bool" where
  "spans us ue v \<longleftrightarrow> v_start v < us \<and> v_end v > ue"

definition mu_parts :: "u64 \<Rightarrow> u64 \<Rightarrow> vma \<Rightarrow> vma list" where
  "mu_parts us ue v =
     (if v_end v \<le> us \<or> v_start v \<ge> ue then [v]
      else if v_start v \<ge> us \<and> v_end v \<le> ue then []
      else if v_start v < us \<and> v_end v > ue then
        [clamp_file_size (v\<lparr>v_end := us\<rparr>),
         v\<lparr>v_start := ue, v_file_offset := v_file_offset v + (ue - v_start v),
           v_file_size := (if v_end v > ue then v_end v - ue else 0)\<rparr>]
      else if v_start v < us then [clamp_file_size (v\<lparr>v_end := us\<rparr>)]
      else [clamp_file_size ((if v_file v \<noteq> None then v\<lparr>v_file_offset := v_file_offset v + (ue - v_start v)\<rparr> else v)
              \<lparr>v_start := ue\<rparr>)])"

lemma munmap_step:
  assumes "munmap_list us ue (v # vs) env = (l', env')" "spans us ue v \<Longrightarrow> \<exists>bs. km_outcomes env = True # bs"
  shows "\<exists>env1 ws. munmap_list us ue vs env1 = (ws, env') \<and> l' = mu_parts us ue v @ ws \<and>
    (spans us ue v \<or> km_outcomes env1 = km_outcomes env)"
proof -
  have [simp]: "km_outcomes (vnode_put f env) = km_outcomes env" for f
    by (simp add: vnode_put_def split: option.splits)
  have "kmalloc_outcome env = (True, env\<lparr>km_outcomes := bs\<rparr>)" if "km_outcomes env = True # bs" for bs
    using that by (simp add: kmalloc_outcome_def)
  then show ?thesis using assms
    by (auto simp: mu_parts_def spans_def not_le split: prod.splits if_splits)
qed

lemma place_shift:
  "vma_place a (v\<lparr>v_end := x\<rparr>) = vma_place a v"
  "vma_place a (v\<lparr>v_start := x, v_file_offset := v_file_offset v + (x - v_start v), v_file_size := y\<rparr>) = vma_place a v"
  "vma_place a ((if v_file v \<noteq> None then v\<lparr>v_file_offset := v_file_offset v + (x - v_start v)\<rparr> else v)\<lparr>v_start := x\<rparr>)
     = vma_place a v"
  by (simp_all add: vma_place_def)

lemma mu_parts_find:
  assumes "us < ue" "v_start v < v_end v"
  shows "map_option (vma_place a) (vma_find_for_addr a (mu_parts us ue v)) =
    (if v_start v \<le> a \<and> a < v_end v \<and> \<not> (us \<le> a \<and> a < ue) then Some (vma_place a v) else None)"
  using assms
  by (auto simp: mu_parts_def place_shift simp del: not_None_eq)

lemma mu_parts_ok:
  assumes "us < ue" "v_start v < v_end v"
  shows "vmas_ok (mu_parts us ue v)"
    "\<forall>w \<in> set (mu_parts us ue v). v_start v \<le> v_start w \<and> v_end w \<le> v_end v"
  using assms by (auto simp: mu_parts_def simp del: not_None_eq)

lemma spans_later: "vmas_ok (v # vs) \<Longrightarrow> spans us ue v \<Longrightarrow> us < ue \<Longrightarrow> w \<in> set vs \<Longrightarrow> \<not> spans us ue w"
  by (auto simp: spans_def)

lemma munmap_mapping:
  assumes "munmap_list us ue l env = (l', env')" "us < ue" "vmas_ok l"
    "(\<exists>v \<in> set l. spans us ue v) \<Longrightarrow> \<exists>bs. km_outcomes env = True # bs"
  shows "vmas_ok l' \<and> (\<forall>x. (\<forall>w \<in> set l. x \<le> v_start w) \<longrightarrow> (\<forall>w \<in> set l'. x \<le> v_start w)) \<and>
    place_at l' a = (if us \<le> a \<and> a < ue then None else place_at l a)"
  using assms
proof (induction l arbitrary: env l')
  case Nil then show ?case by (simp add: place_at_find)
next
  case (Cons v vs)
  note ok = \<open>vmas_ok (v # vs)\<close>
  from munmap_step [OF Cons.prems(1)] Cons.prems(4)
  obtain env1 ws where ws: "munmap_list us ue vs env1 = (ws, env')" "l' = mu_parts us ue v @ ws"
    and km: "spans us ue v \<or> km_outcomes env1 = km_outcomes env" by auto
  have "\<exists>bs. km_outcomes env1 = True # bs" if "\<exists>w \<in> set vs. spans us ue w"
    using km Cons.prems(4) that spans_later [OF ok _ Cons.prems(2)] by auto
  note ih = Cons.IH [OF ws(1) Cons.prems(2) _ this]
  note parts = mu_parts_ok [OF Cons.prems(2), of v]
  have low: "\<forall>w \<in> set ws. v_end v \<le> v_start w" using ih ok by auto
  have "vmas_ok l'" using ih ok parts low by (auto simp: ws(2) vmas_ok_append intro: order_trans)
  moreover have "\<forall>w \<in> set l'. x \<le> v_start w" if "\<forall>w \<in> set (v # vs). x \<le> v_start w" for x
    using ih ok parts that by (auto simp: ws(2) intro: order_trans)
  moreover have "place_at l' a = (if us \<le> a \<and> a < ue then None else place_at (v # vs) a)"
    using ih ok mu_parts_find [OF Cons.prems(2), of v a]
    by (auto simp: ws(2) place_at_find find_append split: option.splits if_splits)
  ultimately show ?case by blast
qed

section \<open>Reference counts of the mapped files\<close>

definition area_refs :: "nat \<Rightarrow> vma list \<Rightarrow> nat" where
  "area_refs f l = length (filter (\<lambda>v. v_file v = Some f) l)"

lemma area_refs_simps [simp]:
  "area_refs f [] = 0" "area_refs f (v # vs) = (if v_file v = Some f then 1 else 0) + area_refs f vs"
  "area_refs f (xs @ ys) = area_refs f xs + area_refs f ys"
  by (simp_all add: area_refs_def)

lemma refs_get [simp]: "vn_refs (vnode_get g e) f = vn_refs e f + (if g = Some f then 1 else 0)"
  by (simp add: vnode_get_def split: option.splits)

lemma refs_put [simp]: "vn_refs (vnode_put g e) f = vn_refs e f - (if g = Some f then 1 else 0)"
  by (simp add: vnode_put_def split: option.splits)

lemma refs_kmalloc: "kmalloc_outcome e = (b, e') \<Longrightarrow> vn_refs e' = vn_refs e"
  by (auto simp: kmalloc_outcome_def split: list.splits)

lemma mprotect_overlap_refs:
  assumes "\<not> v_end v \<le> start" "\<not> v_start v \<ge> e" "mprotect_list start e perms (v # vs) env = (l', env', r)"
  shows "(l' = v # vs \<and> vn_refs env' f = vn_refs env f) \<or>
    (\<exists>env4 ws. mprotect_list start e perms vs env4 = (ws, env', r) \<and> l' = mp_parts start e perms v @ ws \<and>
      vn_refs env4 f + area_refs f [v] = vn_refs env f + area_refs f (mp_parts start e perms v))"
proof -
  let ?nl = "v_start v < (if v_start v > start then v_start v else start)"
  let ?nr = "(if v_end v < e then v_end v else e) < v_end v"
  obtain okl env1 where l: "(if ?nl then kmalloc_outcome env else (True, env)) = (okl, env1)" by fastforce
  then have e1: "vn_refs env1 = vn_refs env" by (auto dest: refs_kmalloc split: if_splits)
  define env2 where "env2 = (if ?nl then vnode_get (v_file v) env1 else env1)"
  obtain okr env3 where r: "(if ?nr then kmalloc_outcome env2 else (True, env2)) = (okr, env3)" by fastforce
  then have e3: "vn_refs env3 = vn_refs env2" by (auto dest: refs_kmalloc split: if_splits)
  define env4 where "env4 = (if ?nr then vnode_get (v_file v) env3 else env3)"
  have step: "mprotect_list start e perms (v # vs) env =
     (if \<not> okl then (v # vs, env1, - ENOMEM)
      else if \<not> okr then (v # vs, (if ?nl then vnode_put (v_file v) env3 else env3), - ENOMEM)
      else (let (ws, env5, r) = mprotect_list start e perms vs env4 in (mp_parts start e perms v @ ws, env5, r)))"
    using assms(1,2) l r unfolding mprotect_list.simps Let_def mp_parts_def env2_def env4_def
    by (simp only: if_False prod.case) (simp split: prod.splits)
  have put: "vn_refs (if ?nl then vnode_put (v_file v) env3 else env3) f = vn_refs env f"
    by (simp add: e1 e3 env2_def)
  have "vn_refs env4 f + area_refs f [v] = vn_refs env f + area_refs f (mp_parts start e perms v)"
    by (simp add: env4_def e3 env2_def e1 mp_parts_def vma_piece_def vma_set_perm_flags_def Let_def)
  with put e1 assms(3) [unfolded step] show ?thesis by (auto split: if_splits prod.splits)
qed

lemma mprotect_refs:
  "mprotect_list start e perms l env = (l', env', r) \<Longrightarrow>
     vn_refs env' f + area_refs f l = vn_refs env f + area_refs f l'"
proof (induction l arbitrary: env l')
  case Nil then show ?case by simp
next
  case (Cons v vs)
  consider "v_end v \<le> start" | "\<not> v_end v \<le> start" "v_start v \<ge> e" | "\<not> v_end v \<le> start" "\<not> v_start v \<ge> e" by blast
  then show ?case
  proof cases
    case 3
    from mprotect_overlap_refs [OF 3 Cons.prems, of f] show ?thesis using Cons.IH by fastforce
  qed (use Cons in \<open>auto split: prod.splits\<close>)
qed

lemma munmap_step_refs:
  assumes "munmap_list us ue (v # vs) env = (l', env')" "area_refs f (v # vs) \<le> vn_refs env f"
  shows "\<exists>env1 parts ws. munmap_list us ue vs env1 = (ws, env') \<and> l' = parts @ ws \<and>
    vn_refs env1 f + area_refs f [v] = vn_refs env f + area_refs f parts \<and> area_refs f vs \<le> vn_refs env1 f"
proof -
  have intro: ?thesis if "munmap_list us ue vs env1 = (ws, env')" "l' = parts @ ws"
    "vn_refs env1 f + area_refs f [v] = vn_refs env f + area_refs f parts" "area_refs f vs \<le> vn_refs env1 f"
    for env1 parts ws using that by blast
  consider (out) "v_end v \<le> us \<or> v_start v \<ge> ue"
    | (full) "\<not> (v_end v \<le> us \<or> v_start v \<ge> ue)" "v_start v \<ge> us \<and> v_end v \<le> ue"
    | (both) "\<not> (v_end v \<le> us \<or> v_start v \<ge> ue)" "\<not> (v_start v \<ge> us \<and> v_end v \<le> ue)" "v_start v < us \<and> v_end v > ue"
    | (left) "\<not> (v_end v \<le> us \<or> v_start v \<ge> ue)" "\<not> (v_start v \<ge> us \<and> v_end v \<le> ue)" "v_start v < us" "\<not> v_end v > ue"
    | (right) "\<not> (v_end v \<le> us \<or> v_start v \<ge> ue)" "\<not> (v_start v \<ge> us \<and> v_end v \<le> ue)" "\<not> v_start v < us" "v_end v > ue"
    by force
  then show ?thesis
  proof cases
    case out
    then show ?thesis using assms by (intro intro [of env "tl l'" "[v]"]) (auto split: prod.splits)
  next
    case full
    then show ?thesis using assms by (intro intro [of "vnode_put (v_file v) env" l' "[]"]) auto
  next
    case both
    obtain ok env1 where km: "kmalloc_outcome env = (ok, env1)" by fastforce
    note e1 = refs_kmalloc [OF km]
    show ?thesis
    proof (cases ok)
      case True
      then show ?thesis using assms both km e1
        by (intro intro [of "vnode_get (v_file v) env1" "drop 2 l'" "take 2 l'"])
           (auto simp: numeral_2_eq_2 split: prod.splits)
    next
      case False
      then show ?thesis using assms both km e1
        by (intro intro [of env1 "tl l'" "[v]"]) (auto split: prod.splits)
    qed
  next
    case left
    then show ?thesis using assms by (intro intro [of env "tl l'" "[hd l']"]) (auto split: prod.splits)
  next
    case right
    then show ?thesis using assms by (intro intro [of env "tl l'" "[hd l']"]) (auto split: prod.splits if_splits)
  qed
qed

lemma munmap_refs:
  assumes "munmap_list us ue l env = (l', env')" "area_refs f l \<le> vn_refs env f"
  shows "vn_refs env' f + area_refs f l = vn_refs env f + area_refs f l'"
  using assms
proof (induction l arbitrary: env l')
  case Nil then show ?case by simp
next
  case (Cons v vs)
  from munmap_step_refs [OF Cons.prems] obtain env1 parts ws where
    "munmap_list us ue vs env1 = (ws, env')" "l' = parts @ ws"
    "vn_refs env1 f + area_refs f [v] = vn_refs env f + area_refs f parts" "area_refs f vs \<le> vn_refs env1 f"
    by blast
  with Cons.IH [of env1 ws] show ?case by simp
qed

section \<open>Insertion and cloning\<close>

lemma vma_insert_set: "set (vma_insert v l) = insert v (set l)"
  by (induction l) auto

lemma vma_insert_ok:
  assumes "vmas_ok l" "v_start v < v_end v" "\<forall>w \<in> set l. v_end v \<le> v_start w \<or> v_end w \<le> v_start v"
  shows "vmas_ok (vma_insert v l)"
  using assms
proof (induction l)
  case (Cons w ws)
  show ?case
  proof (cases "v_start w < v_start v")
    case True
    then have "v_end w \<le> v_start v" using Cons.prems by (auto dest: order.strict_trans1)
    then show ?thesis using Cons True by (auto simp: vma_insert_set)
  next
    case False
    then have "v_end v \<le> v_start w" using Cons.prems by (auto dest: order.strict_trans1 order.strict_trans2)
    moreover have "v_end v \<le> v_start u" if "u \<in> set ws" for u
    proof -
      have "v_end w \<le> v_start u" "v_start w < v_end w" using Cons.prems(1) that by auto
      with \<open>v_end v \<le> v_start w\<close> show ?thesis by order
    qed
    ultimately show ?thesis using False Cons.prems by auto
  qed
qed simp

lemma vma_list_clone_prefix:
  "vma_list_clone l env = (l', env') \<Longrightarrow>
     (\<exists>n. l' = take n l) \<and> vn_refs env' f = vn_refs env f + area_refs f l'"
proof (induction l arbitrary: env l')
  case Nil then show ?case by simp
next
  case (Cons v vs)
  obtain ok env1 where km: "kmalloc_outcome env = (ok, env1)" by fastforce
  show ?case
  proof (cases ok)
    case True
    with Cons.prems km obtain ws where ws: "vma_list_clone vs (vnode_get (v_file v) env1) = (ws, env')" "l' = v # ws"
      by (auto split: prod.splits)
    from Cons.IH [OF ws(1)] obtain n where "ws = take n vs"
      "vn_refs env' f = vn_refs (vnode_get (v_file v) env1) f + area_refs f ws" by blast
    then show ?thesis using ws(2) refs_kmalloc [OF km] by (auto intro: exI [of _ "Suc n"])
  next
    case False
    then show ?thesis using Cons.prems km refs_kmalloc [OF km] by (auto intro: exI [of _ 0])
  qed
qed

section \<open>Properties\<close>

text \<open>C7: a successful \<^verbatim>\<open>vma_apply_mprotect\<close> changes the access flags of exactly the
  addresses of the range: every address keeps its file, its position in the file,
  whether the file covers it and its other flags; the list stays sorted and
  disjoint; and the references held on each file grow by the number of areas
  added for it.\<close>

theorem mprotect_exact:
  assumes "vma_apply_mprotect start e perms l env = (l', env', 0)" "vmas_ok l"
  shows "vmas_ok l' \<and>
    (\<forall>a. mapping_at l' a =
      (if start \<le> a \<and> a < e then map_option (reprotect perms) (mapping_at l a) else mapping_at l a)) \<and>
    (\<forall>f. vn_refs env' f + area_refs f l = vn_refs env f + area_refs f l')"
proof -
  have lt: "start < e" and m: "mprotect_list start e perms l env = (l', env', 0)"
    using assms(1) by (auto simp: vma_apply_mprotect_def split: if_splits)
  show ?thesis
    using mprotect_mapping [OF m lt assms(2)] mprotect_refs [OF m] by blast
qed

definition area_example :: vma where
  "area_example = \<lparr>v_start = 0x1000, v_end = 0x5000, v_flags = 0x10B, v_file = Some 7,
     v_file_offset = 0, v_file_size = 0x1000, v_mmap_flags = 2\<rparr>"

definition env_example :: vm_env where
  "env_example = \<lparr>vn_refs = (\<lambda>_. 1), km_outcomes = [True, True]\<rparr>"

theorem mprotect_exact_witness:
  "\<exists>l' env'. vma_apply_mprotect 0x2000 0x3000 1 [area_example] env_example = (l', env', 0) \<and>
     length l' = 3 \<and> vmas_ok l' \<and>
     mapping_at l' 0x2800 = Some (0x109, 2, Some (7, 0x1800, False)) \<and>
     vn_refs env' 7 = 3"
proof -
  obtain l' env' r where e: "vma_apply_mprotect 0x2000 0x3000 1 [area_example] env_example = (l', env', r)"
    by (metis prod_cases3)
  then have r: "r = 0" "length l' = 3" "area_refs 7 l' = 3"
    by (auto simp: vma_apply_mprotect_def area_example_def env_example_def kmalloc_outcome_def
        vnode_get_def vma_piece_def vma_set_perm_flags_def)
  have "vmas_ok [area_example]" by (simp add: area_example_def)
  from mprotect_exact [OF e [unfolded r(1)] this]
  have "vmas_ok l'" "mapping_at l' 0x2800 = map_option (reprotect 1) (mapping_at [area_example] 0x2800)"
    "vn_refs env' 7 + area_refs 7 [area_example] = vn_refs env_example 7 + area_refs 7 l'"
    by simp_all
  with e r show ?thesis
    by (simp add: mapping_at_def area_example_def env_example_def vma_attr_def reprotect_def
        perm_flags_def VMA_READ_def VMA_WRITE_def VMA_EXEC_def)
qed




end
