(* ===== verification/Vmm.thy ===== *)
theory Vmm
  imports Pmm Vma
begin

text \<open>
  Page tables (\<^verbatim>\<open>mm/vmm.c\<close>) and the page cache (\<^verbatim>\<open>mm/pagecache.c\<close>).  Physical memory is a
  function from page addresses to pages, a page being its 512 words of 64 bits: every
  access of the two files is to an aligned word, or copies or clears a whole page.
  The kernel's window onto physical memory and the flushing of the TLB do not show.
  \<open>None\<close> stands for \<^verbatim>\<open>kpanic\<close>, which \<^verbatim>\<open>vmm_alloc_page_table\<close> calls when no page is
  left; its callers' tests for a zero result therefore never succeed and are left out.
\<close>

unbundle bit_operations_syntax

section \<open>State\<close>

abbreviation VMM_PRESENT :: u64 where "VMM_PRESENT \<equiv> 0x1"
abbreviation VMM_WRITE :: u64 where "VMM_WRITE \<equiv> 0x2"
abbreviation VMM_USER :: u64 where "VMM_USER \<equiv> 0x4"
abbreviation VMM_MMIO :: u64 where "VMM_MMIO \<equiv> 0x1B"
abbreviation VMM_HUGE :: u64 where "VMM_HUGE \<equiv> 0x80"
abbreviation VMM_COW :: u64 where "VMM_COW \<equiv> 0x200"
abbreviation VMM_NX :: u64 where "VMM_NX \<equiv> 0x8000000000000000"
abbreviation VMM_PTE_ADDR_MASK :: u64 where "VMM_PTE_ADDR_MASK \<equiv> 0x000FFFFFFFFFF000"
abbreviation USER_SPACE_END :: u64 where "USER_SPACE_END \<equiv> 0x00007FFFFFFFF000"
abbreviation KERNEL_PML4_START :: nat where "KERNEL_PML4_START \<equiv> 256"
abbreviation VMA_SHARED :: u32 where "VMA_SHARED \<equiv> 0x80"
abbreviation VMA_FILE :: u32 where "VMA_FILE \<equiv> 0x100"
abbreviation PAGECACHE_BUCKETS :: nat where "PAGECACHE_BUCKETS \<equiv> 1024"

type_synonym page = "nat \<Rightarrow> u64"

record pagecache_entry =
  pe_vn :: nat
  pe_offset :: u64
  pe_phys_page :: u64
  pe_refcount :: u32

record vmm =
  vm_pmm :: pmm
  vm_page :: "u64 \<Rightarrow> page"
  vm_kernel_pml4 :: u64
  vm_buckets :: "pagecache_entry list list"
  vm_heap :: vm_env

definition set_entry :: "u64 \<Rightarrow> nat \<Rightarrow> u64 \<Rightarrow> vmm \<Rightarrow> vmm" where
  "set_entry t i w s = s\<lparr>vm_page := (vm_page s)(t := (vm_page s t)(i := w))\<rparr>"

definition present :: "u64 \<Rightarrow> bool" where "present e \<longleftrightarrow> e AND VMM_PRESENT \<noteq> 0"

definition entry_addr :: "u64 \<Rightarrow> u64" where "entry_addr e = e AND VMM_PTE_ADDR_MASK"

section \<open>Tables\<close>

definition vmm_alloc_page_table :: "vmm \<Rightarrow> (vmm \<times> u64) option" where
  "vmm_alloc_page_table s =
     (let (p, phys) = pmm_alloc_pages 1 (vm_pmm s)
      in if phys = 0 then None
         else Some (s\<lparr>vm_pmm := p, vm_page := (vm_page s)(phys := (\<lambda>_. 0))\<rparr>, phys))"

definition table_index :: "nat \<Rightarrow> u64 \<Rightarrow> nat" where
  "table_index shift virt = unat (drop_bit shift virt AND 0x1FF)"

definition hier_flags :: "bool \<Rightarrow> u64" where
  "hier_flags user_hier = VMM_PRESENT OR VMM_WRITE OR (if user_hier then VMM_USER else 0)"

text \<open>The descent through the tables, one index per level.\<close>

fun walk_tables :: "bool \<Rightarrow> u64 \<Rightarrow> u64 \<Rightarrow> nat list \<Rightarrow> vmm \<Rightarrow> (vmm \<times> u64 option) option" where
  "walk_tables alloc hf t [] s = Some (s, Some t)"
| "walk_tables alloc hf t (i # is) s =
     (if present (vm_page s t i) then walk_tables alloc hf (entry_addr (vm_page s t i)) is s
      else if \<not> alloc then Some (s, None)
      else case vmm_alloc_page_table s of
             None \<Rightarrow> None
           | Some (s, p) \<Rightarrow>
               let s = set_entry t i (p OR hf) s
               in walk_tables alloc hf (entry_addr (vm_page s t i)) is s)"

definition get_pte_in :: "u64 \<Rightarrow> u64 \<Rightarrow> bool \<Rightarrow> bool \<Rightarrow> vmm \<Rightarrow> (vmm \<times> (u64 \<times> nat) option) option" where
  "get_pte_in pml4 virt alloc user_hier s =
     (case walk_tables alloc (hier_flags user_hier) pml4 [table_index 39 virt, table_index 30 virt, table_index 21 virt] s of
        None \<Rightarrow> None
      | Some (s, None) \<Rightarrow> Some (s, None)
      | Some (s, Some t) \<Rightarrow> Some (s, Some (t, table_index 12 virt)))"

definition vmm_map_page :: "u64 \<Rightarrow> u64 \<Rightarrow> u64 \<Rightarrow> vmm \<Rightarrow> vmm option" where
  "vmm_map_page virt phys flags s =
     (case get_pte_in (vm_kernel_pml4 s) virt True False s of
        Some (s, Some (t, i)) \<Rightarrow> Some (set_entry t i (entry_addr phys OR flags) s)
      | _ \<Rightarrow> None)"

definition vmm_unmap_page :: "u64 \<Rightarrow> vmm \<Rightarrow> vmm option" where
  "vmm_unmap_page virt s =
     (case get_pte_in (vm_kernel_pml4 s) virt False False s of
        None \<Rightarrow> None
      | Some (s, None) \<Rightarrow> Some s
      | Some (s, Some (t, i)) \<Rightarrow> Some (set_entry t i 0 s))"

fun mmio_map_from :: "u64 \<Rightarrow> u64 \<Rightarrow> nat list \<Rightarrow> vmm \<Rightarrow> vmm option" where
  "mmio_map_from virt phys [] s = Some s"
| "mmio_map_from virt phys (i # is) s =
     (case vmm_map_page (virt + of_nat i * 4096) (phys + of_nat i * 4096) VMM_MMIO s of
        None \<Rightarrow> None
      | Some s \<Rightarrow> mmio_map_from virt phys is s)"

definition vmm_mmio_map :: "u64 \<Rightarrow> u64 \<Rightarrow> u64 \<Rightarrow> vmm \<Rightarrow> (vmm \<times> u64) option" where
  "vmm_mmio_map hhdm_off phys sz s =
     (let virt = phys + hhdm_off; sz = (if sz = 0 then 0x10000 else sz); pages = (sz + 4096 - 1) div 4096
      in map_option (\<lambda>s. (s, virt)) (mmio_map_from virt phys [0..<unat pages] s))"

section \<open>Address spaces\<close>

definition copy_kernel_half :: "u64 \<Rightarrow> vmm \<Rightarrow> vmm" where
  "copy_kernel_half dst s =
     fold (\<lambda>i s. set_entry dst i (vm_page s (vm_kernel_pml4 s) i) s) [KERNEL_PML4_START..<512] s"

definition vmm_create_address_space :: "vmm \<Rightarrow> (vmm \<times> u64) option" where
  "vmm_create_address_space s =
     (case vmm_alloc_page_table s of None \<Rightarrow> None | Some (s, p) \<Rightarrow> Some (copy_kernel_half p s, p))"

definition unref_page :: "u64 \<Rightarrow> vmm \<Rightarrow> vmm" where
  "unref_page phys s = s\<lparr>vm_pmm := fst (pmm_page_unref phys (vm_pmm s))\<rparr>"

definition ref_page :: "u64 \<Rightarrow> vmm \<Rightarrow> vmm" where
  "ref_page phys s = s\<lparr>vm_pmm := fst (pmm_page_ref phys (vm_pmm s))\<rparr>"

definition free_table :: "u64 \<Rightarrow> vmm \<Rightarrow> vmm" where
  "free_table phys s = s\<lparr>vm_pmm := pmm_free_pages phys 1 (vm_pmm s)\<rparr>"

text \<open>Level 1 is a table of leaf pages; a table above it holds tables or huge pages.\<close>

primrec free_pt_level :: "nat \<Rightarrow> u64 \<Rightarrow> vmm \<Rightarrow> vmm" where
  "free_pt_level 0 t s = s"
| "free_pt_level (Suc n) t s =
     fold (\<lambda>i s.
        let e = vm_page s t i; child = entry_addr e in
        if \<not> present e then s
        else if n = 0 then (if pmm_phys_valid child 1 (vm_pmm s) then unref_page child s else s)
        else if e AND VMM_HUGE \<noteq> 0
        then fold (\<lambda>p. unref_page (child + of_nat p * 4096)) [0..<(if n = 1 then 512 else 512 * 512)] s
        else free_table child (free_pt_level n child s)) [0..<512] s"

definition vmm_destroy_address_space :: "u64 \<Rightarrow> vmm \<Rightarrow> vmm" where
  "vmm_destroy_address_space pml4 s =
     (if pml4 = 0 \<or> pml4 = vm_kernel_pml4 s then s
      else
        free_table pml4
          (fold (\<lambda>i s.
             let e = vm_page s pml4 i; pdpt = entry_addr e in
             if \<not> present e then s else free_table pdpt (free_pt_level 3 pdpt s)) [0..<KERNEL_PML4_START] s))"

definition vmm_map_page_in :: "u64 \<Rightarrow> u64 \<Rightarrow> u64 \<Rightarrow> u64 \<Rightarrow> vmm \<Rightarrow> vmm option" where
  "vmm_map_page_in pml4 virt phys flags s =
     (let user = (virt < USER_SPACE_END); flags = (if user then flags OR VMM_USER else flags)
      in case get_pte_in pml4 virt True user s of
           Some (s, Some (t, i)) \<Rightarrow> Some (set_entry t i (entry_addr phys OR flags) s)
         | _ \<Rightarrow> None)"

text \<open>Without allocation the descent changes nothing.\<close>

definition find_pte :: "u64 \<Rightarrow> u64 \<Rightarrow> vmm \<Rightarrow> (u64 \<times> nat) option" where
  "find_pte pml4 virt s =
     (case get_pte_in pml4 virt False (virt < USER_SPACE_END) s of Some (_, r) \<Rightarrow> r | None \<Rightarrow> None)"

definition vmm_unmap_page_in :: "u64 \<Rightarrow> u64 \<Rightarrow> vmm \<Rightarrow> vmm \<times> u64" where
  "vmm_unmap_page_in pml4 virt s =
     (case find_pte pml4 virt s of
        None \<Rightarrow> (s, 0)
      | Some (t, i) \<Rightarrow>
          if \<not> present (vm_page s t i) then (s, 0)
          else (set_entry t i 0 s, entry_addr (vm_page s t i)))"

text \<open>The entry \<^verbatim>\<open>vmm_get_pte\<close> points to.\<close>

definition vmm_get_pte :: "u64 \<Rightarrow> u64 \<Rightarrow> vmm \<Rightarrow> u64 option" where
  "vmm_get_pte pml4 virt s =
     (case find_pte pml4 virt s of
        None \<Rightarrow> None
      | Some (t, i) \<Rightarrow> if present (vm_page s t i) then Some (vm_page s t i) else None)"

section \<open>Copy on write\<close>

definition cow_entry :: "u64 \<Rightarrow> u64" where "cow_entry e = e AND NOT VMM_WRITE OR VMM_COW"

definition share_leaf :: "u64 \<Rightarrow> u64 \<Rightarrow> nat \<Rightarrow> nat \<Rightarrow> vmm \<Rightarrow> vmm" where
  "share_leaf src dst npages i s =
     (let e = vm_page s src i;
          s = fold (\<lambda>p. ref_page (entry_addr e + of_nat p * 4096)) [0..<npages] s;
          s = set_entry src i (cow_entry e) s
      in set_entry dst i (vm_page s src i) s)"

definition clone_pt_entry :: "u64 \<Rightarrow> u64 \<Rightarrow> nat \<Rightarrow> vmm \<Rightarrow> vmm" where
  "clone_pt_entry src dst i s =
     (if \<not> present (vm_page s src i) then set_entry dst i 0 s else share_leaf src dst 1 i s)"

definition clone_pt :: "u64 \<Rightarrow> vmm \<Rightarrow> (vmm \<times> u64) option" where
  "clone_pt src s =
     (case vmm_alloc_page_table s of
        None \<Rightarrow> None
      | Some (s, dst) \<Rightarrow> Some (fold (clone_pt_entry src dst) [0..<512] s, dst))"

text \<open>The loop of the upper levels: \<open>huge\<close> is the number of pages of a huge page at this
  level, \<open>None\<close> where the code does not look for one.\<close>

fun clone_entries ::
    "(u64 \<Rightarrow> vmm \<Rightarrow> (vmm \<times> u64) option) \<Rightarrow> nat option \<Rightarrow> u64 \<Rightarrow> u64 \<Rightarrow> nat list \<Rightarrow> vmm \<Rightarrow> vmm option" where
  "clone_entries clone_child huge src dst [] s = Some s"
| "clone_entries clone_child huge src dst (i # is) s =
     (if \<not> present (vm_page s src i) then clone_entries clone_child huge src dst is (set_entry dst i 0 s)
      else if huge \<noteq> None \<and> vm_page s src i AND VMM_HUGE \<noteq> 0
      then clone_entries clone_child huge src dst is (share_leaf src dst (the huge) i s)
      else case clone_child (entry_addr (vm_page s src i)) s of
             None \<Rightarrow> None
           | Some (s, child) \<Rightarrow>
               clone_entries clone_child huge src dst is
                 (set_entry dst i (child OR (vm_page s src i AND NOT VMM_PTE_ADDR_MASK)) s))"

definition clone_pd :: "u64 \<Rightarrow> vmm \<Rightarrow> (vmm \<times> u64) option" where
  "clone_pd src s =
     (case vmm_alloc_page_table s of
        None \<Rightarrow> None
      | Some (s, dst) \<Rightarrow> map_option (\<lambda>s. (s, dst)) (clone_entries clone_pt (Some 512) src dst [0..<512] s))"

definition clone_pdpt :: "u64 \<Rightarrow> vmm \<Rightarrow> (vmm \<times> u64) option" where
  "clone_pdpt src s =
     (case vmm_alloc_page_table s of
        None \<Rightarrow> None
      | Some (s, dst) \<Rightarrow> map_option (\<lambda>s. (s, dst)) (clone_entries clone_pd (Some (512 * 512)) src dst [0..<512] s))"

definition vmm_clone_address_space :: "u64 \<Rightarrow> vmm \<Rightarrow> (vmm \<times> u64) option" where
  "vmm_clone_address_space src s =
     (case vmm_alloc_page_table s of
        None \<Rightarrow> None
      | Some (s, dst) \<Rightarrow>
          map_option (\<lambda>s. (copy_kernel_half dst s, dst))
            (clone_entries clone_pdpt None src dst [0..<KERNEL_PML4_START] s))"

section \<open>The page cache\<close>

definition page_align :: "u64 \<Rightarrow> u64" where "page_align v = v AND NOT 0xFFF"

definition pagecache_hash :: "nat \<Rightarrow> u64 \<Rightarrow> nat" where
  "pagecache_hash vn off =
     (let key = drop_bit 3 (of_nat vn) XOR drop_bit 12 off;
          key = key XOR drop_bit 33 key;
          key = key * 0xff51afd7ed558ccd;
          key = key XOR drop_bit 33 key
      in unat (key AND (of_nat PAGECACHE_BUCKETS - 1)))"

definition pc_key :: "nat \<Rightarrow> u64 \<Rightarrow> pagecache_entry \<Rightarrow> bool" where
  "pc_key vn off e \<longleftrightarrow> pe_vn e = vn \<and> pe_offset e = off"

definition pagecache_find_locked :: "nat \<Rightarrow> u64 \<Rightarrow> vmm \<Rightarrow> pagecache_entry option" where
  "pagecache_find_locked vn off s = find (pc_key vn off) (vm_buckets s ! pagecache_hash vn off)"

text \<open>An update of the entry \<^verbatim>\<open>pagecache_find_locked\<close> finds.\<close>

fun update_first :: "('a \<Rightarrow> bool) \<Rightarrow> ('a \<Rightarrow> 'a) \<Rightarrow> 'a list \<Rightarrow> 'a list" where
  "update_first P f [] = []"
| "update_first P f (x # xs) = (if P x then f x # xs else x # update_first P f xs)"

definition pc_update :: "nat \<Rightarrow> u64 \<Rightarrow> (pagecache_entry \<Rightarrow> pagecache_entry) \<Rightarrow> vmm \<Rightarrow> vmm" where
  "pc_update vn off f s =
     (let h = pagecache_hash vn off
      in s\<lparr>vm_buckets := (vm_buckets s)[h := update_first (pc_key vn off) f (vm_buckets s ! h)]\<rparr>)"

definition pagecache_init :: "vmm \<Rightarrow> vmm" where
  "pagecache_init s = s\<lparr>vm_buckets := replicate PAGECACHE_BUCKETS []\<rparr>"

definition pagecache_lookup :: "nat \<Rightarrow> u64 \<Rightarrow> vmm \<Rightarrow> vmm \<times> u64" where
  "pagecache_lookup vn off s =
     (let off = page_align off in
      case pagecache_find_locked vn off s of
        None \<Rightarrow> (s, 0)
      | Some e \<Rightarrow>
          (ref_page (pe_phys_page e) (pc_update vn off (\<lambda>e. e\<lparr>pe_refcount := pe_refcount e + 1\<rparr>) s), pe_phys_page e))"

definition pagecache_insert :: "nat \<Rightarrow> u64 \<Rightarrow> u64 \<Rightarrow> vmm \<Rightarrow> vmm \<times> int" where
  "pagecache_insert vn off phys s =
     (if phys = 0 then (s, - 1)
      else
        let off = page_align off; (ok, h) = kmalloc_outcome (vm_heap s); s = s\<lparr>vm_heap := h\<rparr> in
        if \<not> ok then (s, - 1)
        else if pagecache_find_locked vn off s \<noteq> None then (s, 1)
        else
          let b = pagecache_hash vn off;
              e = \<lparr>pe_vn = vn, pe_offset = off, pe_phys_page = phys, pe_refcount = 0\<rparr>
          in (s\<lparr>vm_buckets := (vm_buckets s)[b := e # vm_buckets s ! b], vm_heap := vnode_get (Some vn) (vm_heap s)\<rparr>, 0))"

definition pagecache_release :: "nat \<Rightarrow> u64 \<Rightarrow> vmm \<Rightarrow> vmm" where
  "pagecache_release vn off s =
     (let off = page_align off in
      case pagecache_find_locked vn off s of
        None \<Rightarrow> s
      | Some e \<Rightarrow> if pe_refcount e = 0 then s else pc_update vn off (\<lambda>e. e\<lparr>pe_refcount := pe_refcount e - 1\<rparr>) s)"

text \<open>The file systems are not part of this theory: a vnode's size is \<open>vsize vn\<close> and
  \<open>vread vn n off pg\<close> is the page after \<^verbatim>\<open>ops->read\<close> put up to \<open>n\<close> bytes at its start,
  \<open>None\<close> if the call fails; \<open>vread vn = None\<close> when there is no such operation.\<close>

record files =
  f_size :: "nat \<Rightarrow> u64"
  f_read :: "nat \<Rightarrow> (u64 \<Rightarrow> u64 \<Rightarrow> page \<Rightarrow> page option) option"

definition fill_page :: "files \<Rightarrow> (u64 \<Rightarrow> u64 \<Rightarrow> page \<Rightarrow> page option) \<Rightarrow> nat \<Rightarrow> u64 \<Rightarrow> page option" where
  "fill_page fs rd vn off =
     (if off < f_size fs vn
      then let n = f_size fs vn - off; n = (if n > 4096 then 4096 else n) in rd n off (\<lambda>_. 0)
      else Some (\<lambda>_. 0))"

definition pagecache_get_or_read :: "files \<Rightarrow> nat \<Rightarrow> u64 \<Rightarrow> vmm \<Rightarrow> vmm \<times> u64" where
  "pagecache_get_or_read fs vn off s =
     (case f_read fs vn of
        None \<Rightarrow> (s, 0)
      | Some rd \<Rightarrow>
          let off = page_align off; (s1, phys) = pagecache_lookup vn off s in
          if phys \<noteq> 0 then (s1, phys)
          else
            let (p, new) = pmm_alloc_pages 1 (vm_pmm s1); s2 = s1\<lparr>vm_pmm := p\<rparr> in
            if new = 0 then (s2, 0)
            else
              case fill_page fs rd vn off of
                None \<Rightarrow> (unref_page new s2, 0)
              | Some pg \<Rightarrow>
                  let (s3, ins) = pagecache_insert vn off new (s2\<lparr>vm_page := (vm_page s2)(new := pg)\<rparr>) in
                  if ins < 0 then (unref_page new s3, 0)
                  else pagecache_lookup vn off (if ins > 0 then unref_page new s3 else s3))"

section \<open>Page faults\<close>

definition find_vma_for :: "u64 \<Rightarrow> vma list option \<Rightarrow> vma option" where
  "find_vma_for addr cur = (case cur of None \<Rightarrow> None | Some vs \<Rightarrow> vma_find_for_addr addr vs)"

definition alloc_filled :: "page \<Rightarrow> vmm \<Rightarrow> vmm \<times> u64" where
  "alloc_filled pg s =
     (let (p, phys) = pmm_alloc_pages 1 (vm_pmm s)
      in if phys = 0 then (s\<lparr>vm_pmm := p\<rparr>, 0)
         else (s\<lparr>vm_pmm := p, vm_page := (vm_page s)(phys := pg)\<rparr>, phys))"

text \<open>The page a fault in area \<open>v\<close> at the page address \<open>pa\<close> is given; 0 if there is none.\<close>

definition demand_page :: "files \<Rightarrow> vma \<Rightarrow> u64 \<Rightarrow> vmm \<Rightarrow> vmm \<times> u64" where
  "demand_page fs v pa s =
     (case (if v_flags v AND VMA_FILE \<noteq> 0 then v_file v else None) of
        None \<Rightarrow> alloc_filled (\<lambda>_. 0) s
      | Some vn \<Rightarrow>
          let within = pa - v_start v; foff = v_file_offset v + within in
          if within < v_file_size v then
            (let (s, cached) = pagecache_get_or_read fs vn foff s in
             if cached = 0 then (s, 0)
             else if v_flags v AND VMA_SHARED \<noteq> 0 then (s, cached)
             else
               let (s, phys) = alloc_filled (vm_page s cached) s
               in (unref_page cached (pagecache_release vn foff s), phys))
          else alloc_filled (\<lambda>_. 0) s)"

definition fault_flags :: "vma \<Rightarrow> u64" where
  "fault_flags v =
     VMM_PRESENT OR VMM_USER OR (if v_flags v AND VMA_WRITE \<noteq> 0 then VMM_WRITE else 0) OR
     (if v_flags v AND VMA_EXEC = 0 then VMM_NX else 0)"

text \<open>The page of a COW entry is copied; \<open>None\<close> when the fault is not of this kind.\<close>

definition cow_fault :: "u64 \<Rightarrow> u64 \<Rightarrow> u64 \<Rightarrow> vmm \<Rightarrow> (vmm \<times> bool) option" where
  "cow_fault pml4 addr err s =
     (if err AND 2 = 0 then None
      else case find_pte pml4 addr s of
             None \<Rightarrow> None
           | Some (t, i) \<Rightarrow>
               let e = vm_page s t i in
               if \<not> (present e \<and> e AND VMM_COW \<noteq> 0) then None
               else
                 let old = entry_addr e; (s, new) = alloc_filled (vm_page s old) s in
                 if new = 0 then Some (s, False)
                 else
                   Some (unref_page old
                     (set_entry t i (entry_addr new OR ((e AND NOT VMM_PTE_ADDR_MASK AND NOT VMM_COW) OR VMM_WRITE)) s), True))"

definition vmm_handle_page_fault :: "files \<Rightarrow> vma list option \<Rightarrow> u64 \<Rightarrow> u64 \<Rightarrow> u64 \<Rightarrow> vmm \<Rightarrow> (vmm \<times> bool) option" where
  "vmm_handle_page_fault fs cur pml4 addr err s =
     (case cow_fault pml4 addr err s of
        Some r \<Rightarrow> Some r
      | None \<Rightarrow>
          if err AND 1 \<noteq> 0 then Some (s, False)
          else case find_vma_for addr cur of
                 None \<Rightarrow> Some (s, False)
               | Some v \<Rightarrow>
                   let pa = page_align addr; (s, phys) = demand_page fs v pa s in
                   if phys = 0 then Some (s, False)
                   else map_option (\<lambda>s. (s, True)) (vmm_map_page_in pml4 pa phys (fault_flags v) s))"

end
