(* ===== verification/Vmm_Tables.thy ===== *)
theory Vmm_Tables
  imports Vmm "HOL-Library.Sublist"
begin

unbundle bit_operations_syntax

text \<open>
  Page tables as a forest: the tables of several address spaces, reached along paths of
  indices, are distinct pages in use.  Mapping and unmapping then act on one entry of one
  space.  Paths are restricted to the user half; the kernel half is shared between spaces.
\<close>

section \<open>Fresh pages\<close>

definition page_no :: "u64 \<Rightarrow> nat" where "page_no a = unat a div PAGE_SIZE"

definition is_free :: "vmm \<Rightarrow> u64 \<Rightarrow> bool" where "is_free s a \<longleftrightarrow> page_no a \<in> free_set (vm_pmm s)"

text \<open>What the bookkeeping of the allocator must satisfy for an allocation to be a page that was free.\<close>

definition pmm_sane :: "vmm \<Rightarrow> bool" where
  "pmm_sane s \<longleftrightarrow> pmm_shape (vm_pmm s) \<and> pm_pages (vm_pmm s) \<le> 2 ^ 40"

lemma frame_addr_masked: "st < 2 ^ 40 \<Longrightarrow> of_nat (st * PAGE_SIZE) AND VMM_PTE_ADDR_MASK = of_nat (st * PAGE_SIZE)"
proof -
  assume "st < 2 ^ 40"
  then have "take_bit 40 (of_nat st :: u64) = of_nat st"
    by (simp add: word_unat_eq_iff take_bit_eq_mod unat_mod_distrib unat_of_nat)
  then have "of_nat st AND mask 40 = (of_nat st :: u64)" by (simp add: take_bit_eq_mask)
  then have "push_bit 12 (of_nat st AND mask 40) = (push_bit 12 (of_nat st) :: u64)" by simp
  moreover have "push_bit 12 (mask 40) = VMM_PTE_ADDR_MASK" by (simp add: mask_eq_exp_minus_1)
  moreover have "(of_nat (st * PAGE_SIZE) :: u64) = push_bit 12 (of_nat st)" by (simp add: push_bit_eq_mult)
  ultimately show ?thesis by (simp only: push_bit_and)
qed

lemma alloc_one:
  assumes "pmm_shape p" "pm_pages p \<le> 2 ^ 40" "pmm_alloc_pages 1 p = (p', a)" "a \<noteq> 0"
  shows "page_no a \<in> free_set p" "free_set p' = free_set p - {page_no a}" "pmm_shape p'" "pm_pages p' = pm_pages p"
    "a AND VMM_PTE_ADDR_MASK = a"
proof -
  have "scan_ok p 1 1 0 0" by (auto simp: scan_ok_def fits_def)
  note spec = alloc_scan_spec [OF this]
  obtain st where st: "alloc_scan p 1 1 0 0 = Some st" "a = of_nat (st * PAGE_SIZE)"
    "p' = claim_page st p\<lparr>pm_free := pm_free p - 1\<rparr>"
    using assms(3,4) by (auto simp: pmm_alloc_pages_def Let_def split: option.splits)
  then have fit: "fits p 1 st" using spec by auto
  then have lt: "st < pm_pages p" "st \<in> free_set p" by (auto simp: fits_def)
  have a: "page_no a = st" unfolding st(2) page_no_def
    using lt(1) assms(2) by (subst of_nat_page_addr) auto
  show "page_no a \<in> free_set p" using a lt by simp
  show "free_set p' = free_set p - {page_no a}" using a st(3) lt assms(1) by (simp add: free_set_claim)
  show "pmm_shape p'" "pm_pages p' = pm_pages p" using st(3) assms(1) by (simp_all add: pmm_shape_def)
  show "a AND VMM_PTE_ADDR_MASK = a"
    using frame_addr_masked [of st] lt(1) assms(2) unfolding st(2) by simp
qed

section \<open>Paths\<close>

text \<open>The table reached from \<open>t\<close> by a list of indices.\<close>

fun path :: "vmm \<Rightarrow> u64 \<Rightarrow> nat list \<Rightarrow> u64 option" where
  "path s t [] = Some t"
| "path s t (i # is) = (if present (vm_page s t i) then path s (entry_addr (vm_page s t i)) is else None)"

lemma path_append: "path s t (p @ q) = (case path s t p of None \<Rightarrow> None | Some u \<Rightarrow> path s u q)"
  by (induction p arbitrary: t) auto

lemma path_snoc:
  "path s t (p @ [i]) = (case path s t p of None \<Rightarrow> None
     | Some u \<Rightarrow> if present (vm_page s u i) then Some (entry_addr (vm_page s u i)) else None)"
  by (simp add: path_append split: option.split)

text \<open>Tables that are reached from the roots \<open>R\<close> along user paths of at most \<open>n\<close> indices are distinct and in use.\<close>

definition upath :: "nat list \<Rightarrow> bool" where
  "upath p \<longleftrightarrow> set p \<subseteq> {..<512} \<and> (p \<noteq> [] \<longrightarrow> hd p < KERNEL_PML4_START)"

definition forest :: "u64 set \<Rightarrow> vmm \<Rightarrow> bool" where
  "forest R s \<longleftrightarrow>
     (\<forall>r \<in> R. \<forall>r' \<in> R. \<forall>p q t. upath p \<longrightarrow> upath q \<longrightarrow> length p \<le> 3 \<longrightarrow> length q \<le> 3 \<longrightarrow>
        path s r p = Some t \<longrightarrow> path s r' q = Some t \<longrightarrow> r = r' \<and> p = q) \<and>
     (\<forall>r \<in> R. \<forall>p t. upath p \<longrightarrow> length p \<le> 3 \<longrightarrow> path s r p = Some t \<longrightarrow> \<not> is_free s t)"

lemma upath_prefix: "upath (p @ q) \<Longrightarrow> upath p"
  by (cases p) (auto simp: upath_def)

lemma path_set_other:
  assumes f: "forest R s" and r: "r \<in> R" "r' \<in> R" and p: "upath p" "length p \<le> 3" "path s r p = Some t"
    and q: "upath q" "length q \<le> 4" and np: "\<not> (r = r' \<and> prefix (p @ [i]) q)"
  shows "path (set_entry t i w s) r' q = path s r' q"
  using q np
proof (induction q rule: rev_induct)
  case (snoc j q)
  have uq: "upath q" "length q \<le> 3" using snoc.prems upath_prefix by auto
  have ih: "path (set_entry t i w s) r' q = path s r' q"
    using snoc uq by (auto simp: prefix_snoc)
  show ?case
  proof (cases "path s r' q")
    case None then show ?thesis using ih by (simp add: path_snoc)
  next
    case (Some u)
    have "vm_page (set_entry t i w s) u j = vm_page s u j"
    proof (cases "u = t \<and> j = i")
      case True
      then have "r = r' \<and> p = q" using f r p uq Some unfolding forest_def by blast
      then show ?thesis using True snoc.prems(3) by simp
    qed (auto simp: set_entry_def)
    then show ?thesis using ih Some by (simp add: path_snoc)
  qed
qed simp

lemma path_frame:
  assumes "\<And>q' u. strict_prefix q' q \<Longrightarrow> path s r q' = Some u \<Longrightarrow> vm_page s' u = vm_page s u"
  shows "path s' r q = path s r q"
  using assms
proof (induction q rule: rev_induct)
  case (snoc j q)
  have ih: "path s' r q = path s r q"
  proof (rule snoc.IH)
    fix q' u assume "strict_prefix q' q" "path s r q' = Some u"
    then show "vm_page s' u = vm_page s u"
      using snoc.prems [of q' u] prefix_order.less_le_trans [of q' q "q @ [j]"] by simp
  qed
  show ?case
  proof (cases "path s r q")
    case (Some u)
    then have "vm_page s' u = vm_page s u" using snoc.prems [of q u] by (simp add: strict_prefix_def)
    then show ?thesis using ih Some by (simp add: path_snoc)
  qed (simp add: ih path_snoc)
qed simp

definition leaf :: "vmm \<Rightarrow> u64 \<Rightarrow> nat list \<Rightarrow> nat \<Rightarrow> u64" where
  "leaf s r q j = (case path s r q of None \<Rightarrow> 0 | Some t \<Rightarrow> vm_page s t j)"

lemma forest_inj:
  assumes "forest R s" "r \<in> R" "r' \<in> R" "path s r p = Some t" "path s r' q = Some t"
    "upath p" "upath q" "length p \<le> 3" "length q \<le> 3"
  shows "r = r' \<and> p = q"
  using assms unfolding forest_def by blast

lemma forest_used:
  assumes "forest R s" "r \<in> R" "path s r p = Some t" "upath p" "length p \<le> 3"
  shows "\<not> is_free s t"
  using assms unfolding forest_def by blast

text \<open>Taking a free page and giving it any content leaves the tables in use alone.\<close>

definition takes_page :: "vmm \<Rightarrow> u64 \<Rightarrow> page \<Rightarrow> vmm \<Rightarrow> bool" where
  "takes_page s a pg s' \<longleftrightarrow>
     is_free s a \<and> pmm_sane s' \<and> entry_addr a = a \<and> vm_page s' = (vm_page s)(a := pg) \<and>
     free_set (vm_pmm s') = free_set (vm_pmm s) - {page_no a} \<and> vm_kernel_pml4 s' = vm_kernel_pml4 s"

lemma alloc_table_takes:
  assumes "pmm_sane s" "vmm_alloc_page_table s = Some (s', a)"
  shows "takes_page s a (\<lambda>_. 0) s'"
proof -
  obtain p where p: "pmm_alloc_pages 1 (vm_pmm s) = (p, a)" "a \<noteq> 0" "s' = s\<lparr>vm_pmm := p, vm_page := (vm_page s)(a := (\<lambda>_. 0))\<rparr>"
    using assms(2) by (auto simp: vmm_alloc_page_table_def split: prod.splits if_splits)
  show ?thesis using alloc_one [OF _ _ p(1,2)] assms(1) p(3)
    by (simp add: takes_page_def pmm_sane_def is_free_def entry_addr_def)
qed

lemma takes_path:
  assumes f: "forest R s" and t: "takes_page s a pg s'" and r: "r \<in> R" and q: "upath q" "length q \<le> 4"
  shows "path s' r q = path s r q"
proof (rule path_frame)
  fix q' u assume q': "strict_prefix q' q" "path s r q' = Some u"
  have "upath q'" using q'(1) q(1) upath_prefix by (auto simp: strict_prefix_def prefix_def)
  moreover have "length q' \<le> 3" using prefix_length_less [OF q'(1)] q(2) by simp
  ultimately have "u \<noteq> a" using forest_used [OF f r q'(2)] t by (auto simp: takes_page_def)
  then show "vm_page s' u = vm_page s u" using t by (simp add: takes_page_def)
qed

lemma takes_free: "takes_page s a pg s' \<Longrightarrow> is_free s' x \<Longrightarrow> is_free s x"
  by (simp add: takes_page_def is_free_def)

lemma takes_forest: "forest R s \<Longrightarrow> takes_page s a pg s' \<Longrightarrow> forest R s'"
proof -
  assume f: "forest R s" and t: "takes_page s a pg s'"
  have eq: "path s' r p = path s r p" if "r \<in> R" "upath p" "length p \<le> 3" for r p
    using takes_path [OF f t that(1,2)] that(3) by simp
  show ?thesis unfolding forest_def
    using forest_inj [OF f] forest_used [OF f] takes_free [OF t] by (simp add: eq) blast
qed


lemma set_leaf:
  assumes f: "forest R s" and r: "r \<in> R" and p: "upath p" "length p = 3" "path s r p = Some t"
  shows "forest R (set_entry t i w s)"
    and "r' \<in> R \<Longrightarrow> upath q \<Longrightarrow> length q = 3 \<Longrightarrow>
      leaf (set_entry t i w s) r' q j = (if r' = r \<and> q = p \<and> j = i then w else leaf s r' q j)"
proof -
  have eq: "path (set_entry t i w s) r' q = path s r' q" if "r' \<in> R" "upath q" "length q \<le> 3" for r' q
    by (rule path_set_other [OF f r that(1) p(1) _ p(3) that(2)]) (use that(3) p(2) in \<open>auto dest: prefix_length_le\<close>)
  have free: "is_free (set_entry t i w s) = is_free s" by (simp add: is_free_def set_entry_def fun_eq_iff)
  show "forest R (set_entry t i w s)" unfolding forest_def free
    using forest_inj [OF f] forest_used [OF f] by (simp add: eq)
  show "leaf (set_entry t i w s) r' q j = (if r' = r \<and> q = p \<and> j = i then w else leaf s r' q j)"
    if "r' \<in> R" "upath q" "length q = 3"
  proof (cases "path s r' q")
    case None then show ?thesis using eq [of r' q] that p by (auto simp: leaf_def)
  next
    case (Some u)
    have "u = t \<longleftrightarrow> r' = r \<and> q = p" using forest_inj [OF f that(1) r Some _ that(2) p(1)] p Some that(3) by auto
    then show ?thesis using eq [of r' q] that Some by (auto simp: leaf_def set_entry_def)
  qed
qed

lemma prefix_snoc_cases: "prefix (p @ [i]) q \<Longrightarrow> q = p @ [i] \<or> (\<exists>j zs. q = p @ i # j # zs)"
proof -
  assume "prefix (p @ [i]) q"
  then obtain zs where "q = p @ i # zs" by (auto simp: prefix_def)
  then show ?thesis by (cases zs) auto
qed

lemma grow_table:
  assumes f: "forest R s" and r: "r \<in> R" and p: "upath (p @ [i])" "length p \<le> 2" "path s r p = Some t"
    and new: "\<not> present (vm_page s t i)" and al: "takes_page s a (\<lambda>_. 0) s1"
    and hf: "present hf" "entry_addr hf = 0"
  defines "s2 \<equiv> set_entry t i (a OR hf) s1"
  shows "forest R s2" "path s2 r (p @ [i]) = Some a" "entry_addr (vm_page s2 t i) = a" "pmm_sane s2"
    and "r' \<in> R \<Longrightarrow> upath q \<Longrightarrow> length q = 3 \<Longrightarrow> leaf s2 r' q j = leaf s r' q j"
proof -
  have up: "upath p" using p(1) by (rule upath_prefix)
  have f1: "forest R s1" by (rule takes_forest [OF f al])
  have p1: "path s1 r p = Some t" using takes_path [OF f al r up] p by simp
  have ta: "t \<noteq> a" using forest_used [OF f r p(3) up] p(2) al by (auto simp: takes_page_def)
  have w: "present (a OR hf)" "entry_addr (a OR hf) = a" using hf al
    by (simp_all add: present_def entry_addr_def takes_page_def bit.conj_disj_distrib2 or_eq_0_iff)
  have page: "vm_page s2 = (vm_page s)(a := (\<lambda>_. 0), t := (vm_page s t)(i := a OR hf))"
    using al ta by (auto simp: s2_def set_entry_def takes_page_def)
  show entry: "entry_addr (vm_page s2 t i) = a" by (simp add: page w)
  have other: "path s2 r' q = path s r' q" if "r' \<in> R" "upath q" "length q \<le> 3" "\<not> (r = r' \<and> prefix (p @ [i]) q)" for r' q
    using path_set_other [OF f1 r that(1) up _ p1 that(2) _ that(4), of "a OR hf"] p(2) that takes_path [OF f al that(1,2)]
    by (simp add: s2_def)
  have pp: "path s2 r p = Some t" using other [OF r up] p by (auto dest: prefix_length_le)
  then show ext: "path s2 r (p @ [i]) = Some a" by (simp add: path_snoc page w)
  have none: "path s2 r (p @ i # j # zs) = None" for j zs
    using path_append [of s2 r "p @ [i]" "j # zs"] ta by (simp add: ext page present_def)
  have old: "path s r (p @ i # zs) = None" for zs using p(3) new by (simp add: path_append)
  have cases: "path s r' q = Some u \<or> r' = r \<and> q = p @ [i] \<and> u = a"
    if "r' \<in> R" "upath q" "length q \<le> 3" "path s2 r' q = Some u" for r' q u
    using other [OF that(1-3)] prefix_snoc_cases [of p i q] none ext that(4) by (cases "r = r' \<and> prefix (p @ [i]) q") auto
  have free: "is_free s2 x \<longleftrightarrow> is_free s x \<and> page_no x \<noteq> page_no a" for x
    using al by (auto simp: is_free_def s2_def set_entry_def takes_page_def)
  have fa: "is_free s a" using al by (simp add: takes_page_def)
  show "forest R s2" unfolding forest_def
  proof (intro conjI ballI allI impI)
    fix r1 r2 q1 q2 u assume A: "r1 \<in> R" "r2 \<in> R" "upath q1" "upath q2" "length q1 \<le> 3" "length q2 \<le> 3"
      "path s2 r1 q1 = Some u" "path s2 r2 q2 = Some u"
    have "r1 = r2 \<and> q1 = q2" using cases [OF A(1,3,5,7)] cases [OF A(2,4,6,8)] forest_inj [OF f A(1,2) _ _ A(3,4,5,6)]
        forest_used [OF f A(1) _ A(3,5)] forest_used [OF f A(2) _ A(4,6)] fa by blast
    then show "r1 = r2" "q1 = q2" by auto
  next
    fix r1 q1 u assume A: "r1 \<in> R" "upath q1" "length q1 \<le> 3" "path s2 r1 q1 = Some u"
    show "\<not> is_free s2 u" using cases [OF A] forest_used [OF f A(1) _ A(2,3)] free by blast
  qed
  show "pmm_sane s2" using al by (simp add: s2_def set_entry_def takes_page_def pmm_sane_def)
  show "leaf s2 r' q j = leaf s r' q j" if A: "r' \<in> R" "upath q" "length q = 3"
  proof (cases "r = r' \<and> prefix (p @ [i]) q")
    case True
    then show ?thesis using prefix_snoc_cases [of p i q] none ext old ta by (auto simp: leaf_def page)
  next
    case False
    note eq = other [OF A(1,2) _ False]
    show ?thesis
    proof (cases "path s r' q")
      case (Some u)
      have "u \<noteq> a" using forest_used [OF f A(1) Some A(2)] A(3) fa by auto
      moreover have "u \<noteq> t" using forest_inj [OF f A(1) r Some _ A(2) up] p A(3) by auto
      ultimately show ?thesis using eq A(3) Some by (simp add: leaf_def page)
    qed (use eq A(3) in \<open>simp add: leaf_def\<close>)
  qed
qed


section \<open>Walks\<close>

lemma alloc_succeeds:
  assumes "pmm_shape p" "free_set p - {0} \<noteq> {}" "pm_pages p \<le> 2 ^ 40"
  shows "snd (pmm_alloc_pages 1 p) \<noteq> 0"
proof -
  have "scan_ok p 1 1 0 0" by (auto simp: scan_ok_def fits_def)
  note spec = alloc_scan_spec [OF this]
  obtain q where "q \<in> free_set p" "q \<noteq> 0" using assms(2) by auto
  then have "fits p 1 q" by (auto simp: fits_def free_set_def)
  then obtain st where st: "alloc_scan p 1 1 0 0 = Some st" "fits p 1 st" using spec by (auto split: option.splits)
  then have lt: "0 < st" "st < 2 ^ 40" using assms(3) by (auto simp: fits_def)
  then have "unat (of_nat (st * PAGE_SIZE) :: u64) = st * PAGE_SIZE" by (intro of_nat_page_addr) simp
  then have "(of_nat (st * PAGE_SIZE) :: u64) \<noteq> 0" using lt(1) by (metis mult_is_0 not_gr_zero unat_0 zero_neq_numeral)
  then show ?thesis using st(1) by (simp add: pmm_alloc_pages_def Let_def)
qed

definition spare :: "vmm \<Rightarrow> nat" where "spare s = card (free_set (vm_pmm s) - {0})"

lemma alloc_table_succeeds:
  assumes "pmm_sane s" "0 < spare s"
  shows "vmm_alloc_page_table s \<noteq> None"
proof -
  have "free_set (vm_pmm s) - {0} \<noteq> {}" using assms(2) by (auto simp: spare_def card_gt_0_iff)
  from alloc_succeeds [OF _ this] assms(1) show ?thesis
    by (auto simp: vmm_alloc_page_table_def pmm_sane_def split: prod.splits)
qed

lemma takes_spare: "takes_page s a pg s' \<Longrightarrow> spare s \<le> Suc (spare s')"
proof -
  assume "takes_page s a pg s'"
  then have "free_set (vm_pmm s') - {0} = (free_set (vm_pmm s) - {0}) - {page_no a}" by (auto simp: takes_page_def)
  then show ?thesis unfolding spare_def using card_Diff1_le [of "free_set (vm_pmm s) - {0}" "page_no a"]
    card_Suc_Diff1 [of "free_set (vm_pmm s) - {0}" "page_no a"] by (cases "page_no a \<in> free_set (vm_pmm s) - {0}") auto
qed

lemma walk_alloc:
  assumes "forest R s" "pmm_sane s" "r \<in> R" "path s r p = Some t" "upath (p @ is)" "length p + length is \<le> 3"
    and hf: "present hf" "entry_addr hf = 0"
  shows "case walk_tables True hf t is s of
      None \<Rightarrow> spare s < length is
    | Some (s', ot) \<Rightarrow> \<exists>t'. ot = Some t' \<and> forest R s' \<and> pmm_sane s' \<and> path s' r (p @ is) = Some t' \<and>
        (\<forall>r' \<in> R. \<forall>q j. upath q \<longrightarrow> length q = 3 \<longrightarrow> leaf s' r' q j = leaf s r' q j)"
  using assms(1-6)
proof (induction "is" arbitrary: s t p)
  case (Cons i js)
  have up: "upath (p @ [i])" using upath_prefix [of "p @ [i]" js] Cons.prems(5) by simp
  show ?case
  proof (cases "present (vm_page s t i)")
    case True
    then have "path s r (p @ [i]) = Some (entry_addr (vm_page s t i))" using Cons.prems(4) by (simp add: path_snoc)
    from Cons.IH [OF Cons.prems(1-3) this] True Cons.prems show ?thesis by (auto split: option.splits)
  next
    case False
    show ?thesis
    proof (cases "vmm_alloc_page_table s")
      case None
      then have "spare s = 0" using alloc_table_succeeds [OF Cons.prems(2)] by auto
      then show ?thesis using False None by simp
    next
      case (Some sa)
      then obtain s1 a where sa: "vmm_alloc_page_table s = Some (s1, a)" by (cases sa) auto
      define s2 where "s2 = set_entry t i (a OR hf) s1"
      note al = alloc_table_takes [OF Cons.prems(2) sa]
      have "length p \<le> 2" using Cons.prems(6) by simp
      note g = grow_table [OF Cons.prems(1,3) up this Cons.prems(4) False al hf, folded s2_def]
      have walk: "walk_tables True hf t (i # js) s = walk_tables True hf a js s2"
        using False sa g(3) by (simp add: s2_def [symmetric])
      have "spare s \<le> Suc (spare s2)" using takes_spare [OF al] by (simp add: s2_def set_entry_def spare_def)
      moreover have "case walk_tables True hf a js s2 of
          None \<Rightarrow> spare s2 < length js
        | Some (s', ot) \<Rightarrow> \<exists>t'. ot = Some t' \<and> forest R s' \<and> pmm_sane s' \<and> path s' r ((p @ [i]) @ js) = Some t' \<and>
            (\<forall>r' \<in> R. \<forall>q j. upath q \<longrightarrow> length q = 3 \<longrightarrow> leaf s' r' q j = leaf s2 r' q j)"
        by (rule Cons.IH) (use g Cons.prems in auto)
      ultimately show ?thesis unfolding walk using g(5) by (auto split: option.splits)
    qed
  qed
qed simp

lemma walk_no_alloc: "walk_tables False hf t is s = Some (s, path s t is)"
  by (induction "is" arbitrary: t) auto

section \<open>Virtual addresses\<close>

definition table_path :: "u64 \<Rightarrow> nat list" where
  "table_path v = [table_index 39 v, table_index 30 v, table_index 21 v]"

definition page_num :: "u64 \<Rightarrow> u64" where "page_num v = drop_bit 12 v"

lemma table_index_nat: "table_index n v = unat v div 2 ^ n mod 512"
proof -
  have "drop_bit n v AND 0x1FF = take_bit 9 (drop_bit n v)" using take_bit_eq_mask [of 9 "drop_bit n v"] by (simp add: mask_eq_exp_minus_1)
  moreover have "unat (drop_bit n v) = unat v div 2 ^ n" unfolding unat_drop_bit_eq by (rule drop_bit_eq_div)
  moreover have "unat (take_bit 9 w) = unat w mod 512" for w :: u64 by (simp add: take_bit_eq_mod unat_mod_distrib)
  ultimately show ?thesis unfolding table_index_def by simp
qed

lemma user_addr: "v < USER_SPACE_END \<Longrightarrow> unat v < 2 ^ 47"
  by (simp add: word_less_nat_alt)

lemma upath_user: "v < USER_SPACE_END \<Longrightarrow> upath (table_path v)"
proof -
  assume "v < USER_SPACE_END"
  then have "unat v div 2 ^ 39 < 256" using user_addr [of v] by simp
  then show ?thesis by (simp add: upath_def table_path_def table_index_nat)
qed

lemma same_page:
  assumes "v < USER_SPACE_END" "u < USER_SPACE_END"
  shows "table_path v = table_path u \<and> table_index 12 v = table_index 12 u \<longleftrightarrow> page_num v = page_num u"
proof -
  define x y where "x = unat v div 4096" and "y = unat u div 4096"
  have lt: "x < 512 * 512 * 512 * 512" "y < 512 * 512 * 512 * 512" using user_addr [OF assms(1)] user_addr [OF assms(2)] by (auto simp: x_def y_def)
  have digits: "unat w div 2 ^ 12 mod 512 = unat w div 4096 mod 512" "unat w div 2 ^ 21 mod 512 = unat w div 4096 div 512 mod 512"
    "unat w div 2 ^ 30 mod 512 = unat w div 4096 div 512 div 512 mod 512" "unat w div 2 ^ 39 mod 512 = unat w div 4096 div 512 div 512 div 512 mod 512" for w :: u64
    by (simp_all add: div_mult2_eq [symmetric])
  have "page_num v = page_num u \<longleftrightarrow> x = y"
    by (simp add: page_num_def x_def y_def word_unat_eq_iff drop_bit_eq_div unat_div_distrib)
  moreover have "x = y \<longleftrightarrow> x mod 512 = y mod 512 \<and> x div 512 mod 512 = y div 512 mod 512 \<and>
      x div 512 div 512 mod 512 = y div 512 div 512 mod 512 \<and> x div 512 div 512 div 512 mod 512 = y div 512 div 512 div 512 mod 512"
  proof -
    have split: "a = b \<longleftrightarrow> a mod 512 = b mod 512 \<and> a div 512 = b div 512" for a b :: nat by (metis div_mult_mod_eq)
    have top: "x div 512 div 512 div 512 mod 512 = x div 512 div 512 div 512" "y div 512 div 512 div 512 mod 512 = y div 512 div 512 div 512"
      using lt by (auto intro!: mod_less less_mult_imp_div_less)
    show ?thesis using split [of x y] split [of "x div 512" "y div 512"] split [of "x div 512 div 512" "y div 512 div 512"]
      unfolding top by blast
  qed
  ultimately show ?thesis unfolding table_path_def table_index_nat digits x_def [symmetric] y_def [symmetric] list.inject by blast
qed


section \<open>Mapping and unmapping\<close>

lemma get_pte_leaf:
  "vmm_get_pte r v s = (let e = leaf s r (table_path v) (table_index 12 v) in if present e then Some e else None)"
  by (simp add: vmm_get_pte_def find_pte_def get_pte_in_def walk_no_alloc table_path_def [symmetric] leaf_def present_def Let_def
      split: option.split)

lemma find_pte_path:
  "find_pte r v s = map_option (\<lambda>t. (t, table_index 12 v)) (path s r (table_path v))"
  by (simp add: find_pte_def get_pte_in_def walk_no_alloc table_path_def [symmetric] split: option.split)

lemma hier_flags_ok: "present (hier_flags u)" "entry_addr (hier_flags u) = 0"
  by (auto simp: hier_flags_def present_def entry_addr_def)

lemma present_or: "present (a OR b) \<longleftrightarrow> present a \<or> present b"
  by (simp add: present_def bit.conj_disj_distrib2 or_eq_0_iff)

lemma get_pte_update:
  assumes l: "\<And>j. leaf s' r' (table_path v) j = (if r' = r \<and> table_path v = table_path virt \<and> j = table_index 12 virt then w else leaf s r' (table_path v) j)"
    and v: "v < USER_SPACE_END" "virt < USER_SPACE_END"
  shows "vmm_get_pte r' v s' = (if r' = r \<and> page_num v = page_num virt then (if present w then Some w else None) else vmm_get_pte r' v s)"
  using same_page [OF v] by (auto simp: get_pte_leaf l Let_def)

lemma unmap_effect:
  assumes f: "forest R s" and r: "r \<in> R" and virt: "virt < USER_SPACE_END"
  shows "(\<forall>r' \<in> R. \<forall>v < USER_SPACE_END. vmm_get_pte r' v (fst (vmm_unmap_page_in r virt s)) =
          (if r' = r \<and> page_num v = page_num virt then None else vmm_get_pte r' v s)) \<and>
    snd (vmm_unmap_page_in r virt s) = (case vmm_get_pte r virt s of None \<Rightarrow> 0 | Some e \<Rightarrow> entry_addr e) \<and>
    forest R (fst (vmm_unmap_page_in r virt s))"
proof (cases "vmm_get_pte r virt s")
  case None
  then have "vmm_unmap_page_in r virt s = (s, 0)"
    by (auto simp: vmm_unmap_page_in_def vmm_get_pte_def split: option.splits if_splits)
  moreover have "vmm_get_pte r v s = None" if "v < USER_SPACE_END" "page_num v = page_num virt" for v
    using None that same_page [OF that(1) virt] by (simp add: get_pte_leaf)
  ultimately show ?thesis using None f by simp
next
  case (Some e)
  then obtain t where t: "path s r (table_path virt) = Some t" "vm_page s t (table_index 12 virt) = e" "present e"
    by (auto simp: get_pte_leaf leaf_def present_def Let_def split: option.splits if_splits)
  have u: "vmm_unmap_page_in r virt s = (set_entry t (table_index 12 virt) 0 s, entry_addr e)"
    using t by (simp add: vmm_unmap_page_in_def find_pte_path)
  have len: "length (table_path v) = 3" for v by (simp add: table_path_def)
  note sl = set_leaf [OF f r upath_user [OF virt] len t(1), where i = "table_index 12 virt" and w = 0]
  have "vmm_get_pte r' v (set_entry t (table_index 12 virt) 0 s) =
      (if r' = r \<and> page_num v = page_num virt then (if present 0 then Some 0 else None) else vmm_get_pte r' v s)"
    if A: "r' \<in> R" "v < USER_SPACE_END" for r' v
    by (rule get_pte_update [OF _ A(2) virt]) (rule sl(2) [OF A(1) upath_user [OF A(2)] len])
  then show ?thesis using sl(1) Some u by (simp add: present_def)
qed

text \<open>C29: page tables implement a map from pages to entries.  Mapping a page of one address space sets exactly that
  page of exactly that space, for the four-level walk with whatever tables it has to create, and fails only when
  fewer than three pages are free; unmapping removes exactly that page and returns the address it was mapped to.
  The tables of all address spaces stay disjoint.\<close>

theorem vmm_map_refines:
  assumes f: "forest R s" "pmm_sane s" and r: "r \<in> R" and virt: "virt < USER_SPACE_END" and flags: "present flags"
  shows "(vmm_map_page_in r virt phys flags s = None \<longrightarrow> spare s < 3) \<and>
    (\<forall>s'. vmm_map_page_in r virt phys flags s = Some s' \<longrightarrow>
       forest R s' \<and> pmm_sane s' \<and>
       (\<forall>r' \<in> R. \<forall>v < USER_SPACE_END. vmm_get_pte r' v s' =
          (if r' = r \<and> page_num v = page_num virt then Some (entry_addr phys OR (flags OR VMM_USER)) else vmm_get_pte r' v s))) \<and>
    (\<forall>r' \<in> R. \<forall>v < USER_SPACE_END. vmm_get_pte r' v (fst (vmm_unmap_page_in r virt s)) =
          (if r' = r \<and> page_num v = page_num virt then None else vmm_get_pte r' v s)) \<and>
    snd (vmm_unmap_page_in r virt s) = (case vmm_get_pte r virt s of None \<Rightarrow> 0 | Some e \<Rightarrow> entry_addr e) \<and>
    forest R (fst (vmm_unmap_page_in r virt s))"
proof -
  let ?w = "entry_addr phys OR (flags OR VMM_USER)"
  have up: "upath (table_path virt)" and len: "length (table_path v) = 3" for v
    using upath_user [OF virt] by (simp_all add: table_path_def)
  have walk: "case walk_tables True (hier_flags True) r (table_path virt) s of
      None \<Rightarrow> spare s < 3
    | Some (s', ot) \<Rightarrow> \<exists>t'. ot = Some t' \<and> forest R s' \<and> pmm_sane s' \<and> path s' r (table_path virt) = Some t' \<and>
        (\<forall>r' \<in> R. \<forall>q j. upath q \<longrightarrow> length q = 3 \<longrightarrow> leaf s' r' q j = leaf s r' q j)"
    using walk_alloc [OF f r path.simps(1) _ _ hier_flags_ok(1,2) [of True], of "table_path virt"] up len [of virt]
    by (simp split: option.splits prod.splits)
  have map_none: "vmm_map_page_in r virt phys flags s = None \<longrightarrow> spare s < 3"
    using walk virt by (auto simp: vmm_map_page_in_def get_pte_in_def table_path_def [symmetric] split: option.splits)
  have map_some: "forest R s' \<and> pmm_sane s' \<and>
       (\<forall>r' \<in> R. \<forall>v < USER_SPACE_END. vmm_get_pte r' v s' = (if r' = r \<and> page_num v = page_num virt then Some ?w else vmm_get_pte r' v s))"
    if m: "vmm_map_page_in r virt phys flags s = Some s'" for s'
  proof -
    obtain s1 t where w: "walk_tables True (hier_flags True) r (table_path virt) s = Some (s1, Some t)" "s' = set_entry t (table_index 12 virt) ?w s1"
      using m virt by (auto simp: vmm_map_page_in_def get_pte_in_def table_path_def [symmetric] split: option.splits)
    have s1: "forest R s1" "pmm_sane s1" "path s1 r (table_path virt) = Some t"
      "\<And>r' q j. r' \<in> R \<Longrightarrow> upath q \<Longrightarrow> length q = 3 \<Longrightarrow> leaf s1 r' q j = leaf s r' q j" using walk w(1) by auto
    note sl = set_leaf [OF s1(1) r up len s1(3), where i = "table_index 12 virt" and w = ?w, folded w(2)]
    have "vmm_get_pte r' v s' = (if r' = r \<and> page_num v = page_num virt then (if present ?w then Some ?w else None) else vmm_get_pte r' v s)"
      if A: "r' \<in> R" "v < USER_SPACE_END" for r' v
      by (rule get_pte_update [OF _ A(2) virt]) (use sl(2) [OF A(1) upath_user [OF A(2)] len] s1(4) [OF A(1) upath_user [OF A(2)] len] in simp)
    then show ?thesis using sl(1) s1(2) flags by (simp add: present_or w(2) pmm_sane_def set_entry_def)
  qed
  show ?thesis using map_none map_some unmap_effect [OF f(1) r virt] by blast
qed

end
