(* ===== verification/Vmm_Clone.thy ===== *)
theory Vmm_Clone
  imports Vmm_Tables
begin

unbundle bit_operations_syntax

text \<open>
  Cloning an address space (\<^verbatim>\<open>vmm_clone_address_space\<close>).  The three levels below the top
  are cloned by functions with one contract, \<open>clones n\<close>; the loop over a table lifts the
  contract from subtrees of depth \<open>n\<close> to depth \<open>n + 1\<close>.  At the end the clone has its own
  tables, and its leaves are the source's, marked copy-on-write in both.
\<close>

section \<open>Subtrees\<close>

definition idx :: "nat list \<Rightarrow> bool" where "idx p \<longleftrightarrow> set p \<subseteq> {..<512}"

definition tables :: "nat \<Rightarrow> u64 \<Rightarrow> vmm \<Rightarrow> u64 set" where
  "tables n t s = {u. \<exists>q. idx q \<and> length q \<le> n \<and> path s t q = Some u}"

definition bottom :: "nat \<Rightarrow> u64 \<Rightarrow> vmm \<Rightarrow> u64 set" where
  "bottom n t s = {u. \<exists>q. idx q \<and> length q = n \<and> path s t q = Some u}"

definition tree :: "nat \<Rightarrow> u64 \<Rightarrow> vmm \<Rightarrow> bool" where
  "tree n t s \<longleftrightarrow> (\<forall>p q u. idx p \<longrightarrow> idx q \<longrightarrow> length p \<le> n \<longrightarrow> length q \<le> n \<longrightarrow>
     path s t p = Some u \<longrightarrow> path s t q = Some u \<longrightarrow> p = q)"

definition no_huge :: "nat \<Rightarrow> u64 \<Rightarrow> vmm \<Rightarrow> bool" where
  "no_huge n t s \<longleftrightarrow> (\<forall>q u i. idx q \<longrightarrow> length q < n \<longrightarrow> path s t q = Some u \<longrightarrow> i < 512 \<longrightarrow>
     present (vm_page s u i) \<longrightarrow> vm_page s u i AND VMM_HUGE = 0)"

lemma idx_simps [simp]: "idx []" "idx (i # q) \<longleftrightarrow> i < 512 \<and> idx q" "idx (p @ q) \<longleftrightarrow> idx p \<and> idx q"
  by (auto simp: idx_def)

lemma bottom_tables: "bottom n t s \<subseteq> tables n t s" by (auto simp: bottom_def tables_def)

lemma root_tables: "t \<in> tables n t s" by (auto simp: tables_def intro!: exI [of _ "[]"])

lemma tables_path:
  assumes "\<forall>u \<in> tables n t s. vm_page s' u = vm_page s u" "idx q" "length q \<le> Suc n"
  shows "path s' t q = path s t q"
proof (rule path_frame)
  fix q' u assume q': "strict_prefix q' q" "path s t q' = Some u"
  have "idx q'" using q'(1) assms(2) by (auto simp: strict_prefix_def prefix_def)
  moreover have "length q' \<le> n" using prefix_length_less [OF q'(1)] assms(3) by simp
  ultimately show "vm_page s' u = vm_page s u" using q'(2) assms(1) by (auto simp: tables_def)
qed

lemma subtree_frame:
  assumes "\<forall>u \<in> tables n t s. vm_page s' u = vm_page s u"
  shows "tables n t s' = tables n t s" "bottom n t s' = bottom n t s" "tree n t s' = tree n t s" "no_huge n t s' = no_huge n t s"
    "idx q \<Longrightarrow> length q \<le> n \<Longrightarrow> leaf s' t q j = leaf s t q j"
proof -
  have eq: "path s' t q = path s t q" if "idx q" "length q \<le> n" for q using tables_path [OF assms] that by simp
  have pg: "vm_page s' u = vm_page s u" if "idx q" "length q \<le> n" "path s t q = Some u" for q u
    using that assms by (auto simp: tables_def)
  show "tables n t s' = tables n t s" "bottom n t s' = bottom n t s" using eq by (auto simp: tables_def bottom_def)
  show "tree n t s' = tree n t s" using eq by (auto simp: tree_def)
  show "no_huge n t s' = no_huge n t s" using eq pg unfolding no_huge_def by (metis less_imp_le_nat)
  show "leaf s' t q j = leaf s t q j" if "idx q" "length q \<le> n" using eq [OF that] pg [OF that] by (auto simp: leaf_def split: option.split)
qed

text \<open>A table and the subtrees below it.\<close>

definition child :: "vmm \<Rightarrow> u64 \<Rightarrow> nat \<Rightarrow> u64" where "child s t i = entry_addr (vm_page s t i)"

lemma tables_Suc:
  "tables (Suc n) t s = insert t (\<Union>i \<in> {i. i < 512 \<and> present (vm_page s t i)}. tables n (child s t i) s)"
proof (intro set_eqI iffI)
  fix u assume "u \<in> tables (Suc n) t s"
  then obtain q where "idx q" "length q \<le> Suc n" "path s t q = Some u" by (auto simp: tables_def)
  then show "u \<in> insert t (\<Union>i \<in> {i. i < 512 \<and> present (vm_page s t i)}. tables n (child s t i) s)"
    by (cases q) (auto simp: tables_def child_def split: if_splits)
next
  fix u assume "u \<in> insert t (\<Union>i \<in> {i. i < 512 \<and> present (vm_page s t i)}. tables n (child s t i) s)"
  then consider "u = t" | i q where "i < 512" "present (vm_page s t i)" "idx q" "length q \<le> n" "path s (child s t i) q = Some u"
    by (auto simp: tables_def)
  then show "u \<in> tables (Suc n) t s"
  proof cases
    case 1 then show ?thesis using root_tables by simp
  next
    case 2 then show ?thesis unfolding tables_def by (intro CollectI exI [of _ "i # q"]) (simp add: child_def)
  qed
qed

lemma tree_child:
  assumes "tree (Suc n) t s" "i < 512" "present (vm_page s t i)"
  shows "tree n (child s t i) s" "t \<notin> tables n (child s t i) s"
    and "j < 512 \<Longrightarrow> present (vm_page s t j) \<Longrightarrow> i \<noteq> j \<Longrightarrow> tables n (child s t i) s \<inter> tables n (child s t j) s = {}"
proof -
  have step: "path s t (i # q) = path s (child s t i) q" if "present (vm_page s t i)" for i q using that by (simp add: child_def)
  have inj: "p = q" if "idx p" "idx q" "length p \<le> Suc n" "length q \<le> Suc n" "path s t p = Some u" "path s t q = Some u" for p q u
    using assms(1) that unfolding tree_def by blast
  show "tree n (child s t i) s" unfolding tree_def
  proof (intro allI impI)
    fix p q u assume A: "idx p" "idx q" "length p \<le> n" "length q \<le> n" "path s (child s t i) p = Some u" "path s (child s t i) q = Some u"
    then have "i # p = i # q" using inj [of "i # p" "i # q" u] step [OF assms(3)] assms(2) by simp
    then show "p = q" by simp
  qed
  show "t \<notin> tables n (child s t i) s"
  proof
    assume "t \<in> tables n (child s t i) s"
    then obtain q where "idx q" "length q \<le> n" "path s (child s t i) q = Some t" by (auto simp: tables_def)
    then show False using inj [of "i # q" "[]" t] step [OF assms(3)] assms(2) by simp
  qed
  show "tables n (child s t i) s \<inter> tables n (child s t j) s = {}" if "j < 512" "present (vm_page s t j)" "i \<noteq> j"
  proof (rule ccontr)
    assume "tables n (child s t i) s \<inter> tables n (child s t j) s \<noteq> {}"
    then obtain u p q where A: "idx p" "length p \<le> n" "path s (child s t i) p = Some u" "idx q" "length q \<le> n" "path s (child s t j) q = Some u"
      by (auto simp: tables_def)
    then show False using inj [of "i # p" "j # q" u] step [OF assms(3)] step [OF that(2)] assms(2) that by simp
  qed
qed

lemma leaf_Cons: "leaf s t (i # q) j = (if present (vm_page s t i) then leaf s (child s t i) q j else 0)"
  by (simp add: leaf_def child_def)

lemma no_huge_child:
  assumes "no_huge (Suc n) t s" "i < 512" "present (vm_page s t i)"
  shows "no_huge n (child s t i) s" "vm_page s t i AND VMM_HUGE = 0"
proof -
  show "vm_page s t i AND VMM_HUGE = 0" using assms unfolding no_huge_def by (metis idx_simps(1) length_0_conv path.simps(1) zero_less_Suc)
  show "no_huge n (child s t i) s" unfolding no_huge_def
  proof (intro allI impI)
    fix q u j assume A: "idx q" "length q < n" "path s (child s t i) q = Some u" "j < 512" "present (vm_page s u j)"
    have "path s t (i # q) = Some u" using A(3) assms(3) by (simp add: child_def)
    moreover have "idx (i # q)" "length (i # q) < Suc n" using A assms(2) by simp_all
    ultimately show "vm_page s u j AND VMM_HUGE = 0" using assms(1) A(4,5) unfolding no_huge_def by blast
  qed
qed

section \<open>Cloned subtrees\<close>

definition cow :: "u64 \<Rightarrow> u64" where "cow e = (if present e then cow_entry e else e)"
definition copied :: "u64 \<Rightarrow> u64" where "copied e = (if present e then cow_entry e else 0)"

definition cloned :: "nat \<Rightarrow> vmm \<Rightarrow> u64 \<Rightarrow> vmm \<Rightarrow> u64 \<Rightarrow> bool" where
  "cloned n s src s' dst \<longleftrightarrow>
     pmm_sane s' \<and> free_set (vm_pmm s') \<subseteq> free_set (vm_pmm s) \<and> entry_addr dst = dst \<and> vm_kernel_pml4 s' = vm_kernel_pml4 s \<and>
     (\<forall>u. \<not> is_free s u \<longrightarrow> u \<notin> bottom n src s \<longrightarrow> vm_page s' u = vm_page s u) \<and>
     (\<forall>q. idx q \<longrightarrow> length q \<le> n \<longrightarrow> path s' src q = path s src q) \<and>
     (\<forall>q j. idx q \<longrightarrow> length q = n \<longrightarrow> j < 512 \<longrightarrow> leaf s' src q j = cow (leaf s src q j)) \<and>
     (\<forall>q j. idx q \<longrightarrow> length q = n \<longrightarrow> j < 512 \<longrightarrow> leaf s' dst q j = copied (leaf s src q j)) \<and>
     tree n dst s' \<and> (\<forall>u \<in> tables n dst s'. is_free s u \<and> \<not> is_free s' u)"

definition clonable :: "nat \<Rightarrow> vmm \<Rightarrow> u64 \<Rightarrow> bool" where
  "clonable n s src \<longleftrightarrow> pmm_sane s \<and> tree n src s \<and> (\<forall>u \<in> tables n src s. \<not> is_free s u) \<and> no_huge n src s"

definition clones :: "nat \<Rightarrow> (u64 \<Rightarrow> vmm \<Rightarrow> (vmm \<times> u64) option) \<Rightarrow> bool" where
  "clones n f \<longleftrightarrow> (\<forall>s src s' dst. clonable n s src \<longrightarrow> f src s = Some (s', dst) \<longrightarrow> cloned n s src s' dst)"

lemma set_entry_simps [simp]:
  "vm_pmm (set_entry t i w s) = vm_pmm s" "vm_kernel_pml4 (set_entry t i w s) = vm_kernel_pml4 s"
  "vm_page (set_entry t i w s) = (vm_page s)(t := (vm_page s t)(i := w))"
  "is_free (set_entry t i w s) = is_free s" "pmm_sane (set_entry t i w s) = pmm_sane s"
  by (simp_all add: set_entry_def is_free_def pmm_sane_def fun_eq_iff)

lemma ref_page_simps [simp]:
  "vm_page (ref_page a s) = vm_page s" "vm_kernel_pml4 (ref_page a s) = vm_kernel_pml4 s"
  "free_set (vm_pmm (ref_page a s)) = free_set (vm_pmm s)" "pmm_sane (ref_page a s) = pmm_sane s"
  by (simp_all add: ref_page_def pmm_page_ref_def pmm_sane_def pmm_shape_def Let_def free_set_def)

lemma share_leaf_one:
  "vm_page (share_leaf src dst 1 i s) =
     (let p = (vm_page s)(src := (vm_page s src)(i := cow_entry (vm_page s src i))) in p(dst := (p dst)(i := p src i)))"
  "free_set (vm_pmm (share_leaf src dst 1 i s)) = free_set (vm_pmm s)" "pmm_sane (share_leaf src dst 1 i s) = pmm_sane s"
  "vm_kernel_pml4 (share_leaf src dst 1 i s) = vm_kernel_pml4 s"
  by (simp_all add: share_leaf_def Let_def)

lemma clone_pt_loop:
  fixes s :: vmm
  assumes "src \<noteq> dst"
  defines "sk \<equiv> \<lambda>k. fold (clone_pt_entry src dst) [0..<k] s"
  shows "vm_page (sk k) = (vm_page s)(src := (\<lambda>j. if j < k then cow (vm_page s src j) else vm_page s src j),
      dst := (\<lambda>j. if j < k then copied (vm_page s src j) else vm_page s dst j)) \<and>
    free_set (vm_pmm (sk k)) = free_set (vm_pmm s) \<and> pmm_sane (sk k) = pmm_sane s \<and> vm_kernel_pml4 (sk k) = vm_kernel_pml4 s"
proof (induction k)
  case (Suc k)
  have "sk (Suc k) = clone_pt_entry src dst k (sk k)" by (simp add: sk_def)
  then show ?case using Suc assms(1)
    by (cases "present (vm_page s src k)")
      (auto simp: clone_pt_entry_def share_leaf_one [unfolded One_nat_def] Let_def cow_def copied_def fun_eq_iff less_Suc_eq)
qed (simp add: sk_def)

lemma tables_0: "tables 0 t s = {t}" "bottom 0 t s = {t}" "tree 0 t s" "leaf s t [] j = vm_page s t j"
  by (auto simp: tables_def bottom_def tree_def leaf_def intro!: exI [of _ "[]"])

lemma clones_pt: "clones 0 clone_pt"
  unfolding clones_def
proof (intro allI impI)
  fix s src s' dst assume c: "clonable 0 s src" and f: "clone_pt src s = Some (s', dst)"
  obtain s1 where s1: "vmm_alloc_page_table s = Some (s1, dst)" and s': "s' = fold (clone_pt_entry src dst) [0..<512] s1"
    using f by (auto simp: clone_pt_def split: option.splits)
  have "pmm_sane s" "\<not> is_free s src" using c by (auto simp: clonable_def tables_0)
  note al = alloc_table_takes [OF this(1) s1]
  have ne: "src \<noteq> dst" using al \<open>\<not> is_free s src\<close> by (auto simp: takes_page_def)
  have l: "vm_page s' = (vm_page s1)(src := (\<lambda>j. if j < 512 then cow (vm_page s1 src j) else vm_page s1 src j),
      dst := (\<lambda>j. if j < 512 then copied (vm_page s1 src j) else vm_page s1 dst j)) \<and>
    free_set (vm_pmm s') = free_set (vm_pmm s1) \<and> pmm_sane s' = pmm_sane s1 \<and> vm_kernel_pml4 s' = vm_kernel_pml4 s1"
    unfolding s' by (rule clone_pt_loop [OF ne])
  have page: "vm_page s' u = (if u = dst then (\<lambda>j. if j < 512 then copied (vm_page s src j) else 0)
       else if u = src then (\<lambda>j. if j < 512 then cow (vm_page s src j) else vm_page s src j) else vm_page s u)" for u
  proof -
    have p1: "vm_page s1 = (vm_page s)(dst := (\<lambda>_. 0))" using al by (simp add: takes_page_def)
    show ?thesis unfolding conjunct1 [OF l] p1 using ne by (simp cong: if_cong)
  qed
  have fs: "free_set (vm_pmm s') = free_set (vm_pmm s) - {page_no dst}" "pmm_sane s'" "entry_addr dst = dst"
    "vm_kernel_pml4 s' = vm_kernel_pml4 s" "is_free s dst" using al l by (simp_all add: takes_page_def)
  show "cloned 0 s src s' dst" unfolding cloned_def tables_0(1-3)
    using fs(2-5) ne by (auto simp: tables_0(3,4) page is_free_def fs(1))
qed

section \<open>The loop over a table\<close>

definition parent_ok :: "nat \<Rightarrow> nat \<Rightarrow> vmm \<Rightarrow> u64 \<Rightarrow> u64 \<Rightarrow> bool" where
  "parent_ok N n s src dst \<longleftrightarrow>
     pmm_sane s \<and> \<not> is_free s dst \<and> \<not> is_free s src \<and> src \<noteq> dst \<and> vm_page s dst = (\<lambda>_. 0) \<and> N \<le> 512 \<and>
     (\<forall>i < N. present (vm_page s src i) \<longrightarrow> clonable n s (child s src i) \<and>
        src \<notin> tables n (child s src i) s \<and> dst \<notin> tables n (child s src i) s \<and>
        (\<forall>j < N. present (vm_page s src j) \<longrightarrow> j \<noteq> i \<longrightarrow> tables n (child s src i) s \<inter> tables n (child s src j) s = {}))"

definition half_cloned :: "nat \<Rightarrow> vmm \<Rightarrow> u64 \<Rightarrow> u64 \<Rightarrow> nat \<Rightarrow> vmm \<Rightarrow> bool" where
  "half_cloned n s src dst k s' \<longleftrightarrow>
     pmm_sane s' \<and> free_set (vm_pmm s') \<subseteq> free_set (vm_pmm s) \<and> vm_kernel_pml4 s' = vm_kernel_pml4 s \<and>
     (\<forall>u. \<not> is_free s u \<longrightarrow> u \<noteq> dst \<longrightarrow> (\<forall>i < k. present (vm_page s src i) \<longrightarrow> u \<notin> bottom n (child s src i) s) \<longrightarrow>
        vm_page s' u = vm_page s u) \<and>
     (\<forall>i. i \<ge> k \<or> \<not> present (vm_page s src i) \<longrightarrow> vm_page s' dst i = 0) \<and>
     (\<forall>i < k. present (vm_page s src i) \<longrightarrow>
        (\<forall>q. idx q \<longrightarrow> length q \<le> n \<longrightarrow> path s' (child s src i) q = path s (child s src i) q) \<and>
        (\<forall>q j. idx q \<longrightarrow> length q = n \<longrightarrow> j < 512 \<longrightarrow> leaf s' (child s src i) q j = cow (leaf s (child s src i) q j)) \<and>
        present (vm_page s' dst i) \<and> tree n (child s' dst i) s' \<and>
        (\<forall>u \<in> tables n (child s' dst i) s'. is_free s u \<and> \<not> is_free s' u) \<and>
        (\<forall>q j. idx q \<longrightarrow> length q = n \<longrightarrow> j < 512 \<longrightarrow> leaf s' (child s' dst i) q j = copied (leaf s (child s src i) q j)) \<and>
        (\<forall>i' < i. present (vm_page s src i') \<longrightarrow> tables n (child s' dst i) s' \<inter> tables n (child s' dst i') s' = {}))"

lemma parent_okD:
  assumes "parent_ok N n s src dst" "i < N" "present (vm_page s src i)"
  shows "clonable n s (child s src i)" "src \<notin> tables n (child s src i) s" "dst \<notin> tables n (child s src i) s"
    and "j < N \<Longrightarrow> present (vm_page s src j) \<Longrightarrow> j \<noteq> i \<Longrightarrow> tables n (child s src i) s \<inter> tables n (child s src j) s = {}"
  using assms unfolding parent_ok_def by simp_all

lemma half_clonedD:
  assumes "half_cloned n s src dst k s'" "i < k" "present (vm_page s src i)"
  shows "idx q \<Longrightarrow> length q = n \<Longrightarrow> j < 512 \<Longrightarrow> leaf s' (child s src i) q j = cow (leaf s (child s src i) q j)"
    and "present (vm_page s' dst i)" "tree n (child s' dst i) s'"
    and "u \<in> tables n (child s' dst i) s' \<Longrightarrow> is_free s u \<and> \<not> is_free s' u"
    and "idx q \<Longrightarrow> length q = n \<Longrightarrow> j < 512 \<Longrightarrow> leaf s' (child s' dst i) q j = copied (leaf s (child s src i) q j)"
    and "i' < i \<Longrightarrow> present (vm_page s src i') \<Longrightarrow> tables n (child s' dst i) s' \<inter> tables n (child s' dst i') s' = {}"
    and "idx q \<Longrightarrow> length q \<le> n \<Longrightarrow> path s' (child s src i) q = path s (child s src i) q"
  using assms unfolding half_cloned_def by blast+

lemma half_cloned_frame:
  assumes "half_cloned n s src dst k s'" "\<not> is_free s u" "u \<noteq> dst"
    "\<And>i. i < k \<Longrightarrow> present (vm_page s src i) \<Longrightarrow> u \<notin> bottom n (child s src i) s"
  shows "vm_page s' u = vm_page s u"
  using assms unfolding half_cloned_def by blast

lemma half_cloned_start: "parent_ok N n s src dst \<Longrightarrow> half_cloned n s src dst 0 s"
  by (simp add: half_cloned_def parent_ok_def)

lemma is_free_mono: "free_set (vm_pmm s') \<subseteq> free_set (vm_pmm s) \<Longrightarrow> is_free s' u \<Longrightarrow> is_free s u"
  by (auto simp: is_free_def)

lemma half_cloned_absent:
  assumes h: "half_cloned n s src dst k s'" and a: "\<not> present (vm_page s src k)"
  shows "half_cloned n s src dst (Suc k) (set_entry dst k 0 s')"
proof -
  have "vm_page s' dst k = 0" using h unfolding half_cloned_def by auto
  then have "vm_page (set_entry dst k 0 s') = vm_page s'" by (simp add: fun_upd_idem)
  then have "set_entry dst k 0 s' = s'" by (simp add: set_entry_def)
  then show ?thesis using h a unfolding half_cloned_def by (simp add: less_Suc_eq)
qed

lemma half_cloned_src:
  assumes p: "parent_ok N n s src dst" and h: "half_cloned n s src dst k sk" and k: "k \<le> N"
  shows "vm_page sk src = vm_page s src"
proof (rule half_cloned_frame [OF h])
  show "src \<notin> bottom n (child s src i) s" if "i < k" "present (vm_page s src i)" for i
    using parent_okD(2) [OF p _ that(2)] that(1) k bottom_tables [of n "child s src i" s] by auto
qed (use p in \<open>auto simp: parent_ok_def\<close>)

text \<open>Entry \<open>k\<close> is cloned by a function that clones subtrees of depth \<open>n\<close>.\<close>

lemma half_cloned_child:
  assumes p: "parent_ok N n s src dst" and h: "half_cloned n s src dst k sk" and k: "k < N" and e: "present (vm_page s src k)"
  shows "clonable n sk (child s src k)" "vm_page sk src = vm_page s src"
    and "tables n (child s src k) sk = tables n (child s src k) s" "bottom n (child s src k) sk = bottom n (child s src k) s"
    and "idx q \<Longrightarrow> length q = n \<Longrightarrow> leaf sk (child s src k) q j = leaf s (child s src k) q j"
    and "idx q \<Longrightarrow> length q \<le> n \<Longrightarrow> path sk (child s src k) q = path s (child s src k) q"
proof -
  note c = parent_okD(1,3) [OF p k e]
  have disj: "tables n (child s src i) s \<inter> tables n (child s src k) s = {}" if "i < k" "present (vm_page s src i)" for i
    using parent_okD(4) [OF p k e, of i] that k by auto
  have page: "vm_page sk u = vm_page s u" if "u \<in> tables n (child s src k) s" for u
  proof -
    have "\<not> is_free s u" "u \<noteq> dst" using that c by (auto simp: clonable_def)
    moreover have "u \<notin> bottom n (child s src i) s" if "i < k" "present (vm_page s src i)" for i
      using disj [OF that] bottom_tables \<open>u \<in> _\<close> by blast
    ultimately show ?thesis by (rule half_cloned_frame [OF h])
  qed
  note f = subtree_frame [OF ballI [OF page]]
  show "tables n (child s src k) sk = tables n (child s src k) s" "bottom n (child s src k) sk = bottom n (child s src k) s" using f by auto
  show "leaf sk (child s src k) q j = leaf s (child s src k) q j" if "idx q" "length q = n" using f that by simp
  show "path sk (child s src k) q = path s (child s src k) q" if "idx q" "length q \<le> n"
    using tables_path [OF ballI [OF page] that(1)] that(2) by simp
  have "free_set (vm_pmm sk) \<subseteq> free_set (vm_pmm s)" "pmm_sane sk" using h by (auto simp: half_cloned_def)
  then show "clonable n sk (child s src k)" using c(1) f is_free_mono unfolding clonable_def by blast
  show "vm_page sk src = vm_page s src" using half_cloned_src [OF p h] k by simp
qed


lemma clonedD:
  assumes "cloned n s src s' dst"
  shows "pmm_sane s'" "free_set (vm_pmm s') \<subseteq> free_set (vm_pmm s)" "entry_addr dst = dst" "vm_kernel_pml4 s' = vm_kernel_pml4 s"
    and "\<not> is_free s u \<Longrightarrow> u \<notin> bottom n src s \<Longrightarrow> vm_page s' u = vm_page s u"
    and "idx q \<Longrightarrow> length q \<le> n \<Longrightarrow> path s' src q = path s src q"
    and "idx q \<Longrightarrow> length q = n \<Longrightarrow> j < 512 \<Longrightarrow> leaf s' src q j = cow (leaf s src q j)"
    and "idx q \<Longrightarrow> length q = n \<Longrightarrow> j < 512 \<Longrightarrow> leaf s' dst q j = copied (leaf s src q j)"
    and "tree n dst s'" "u \<in> tables n dst s' \<Longrightarrow> is_free s u \<and> \<not> is_free s' u"
  using assms unfolding cloned_def by blast+

lemma tables_cong: "(\<And>q. idx q \<Longrightarrow> length q \<le> n \<Longrightarrow> path s' t q = path s t q) \<Longrightarrow> tables n t s' = tables n t s"
  by (auto simp: tables_def)

lemma clone_entry_word:
  assumes "entry_addr c = c" "present e"
  shows "present (c OR (e AND NOT VMM_PTE_ADDR_MASK))" "entry_addr (c OR (e AND NOT VMM_PTE_ADDR_MASK)) = c"
  using assms by (simp_all add: present_def entry_addr_def bit.conj_disj_distrib2 or_eq_0_iff and.assoc)

lemma half_cloned_step_pages:
  assumes p: "parent_ok N n s src dst" and h: "half_cloned n s src dst k sk" and k: "k < N" and e: "present (vm_page s src k)"
    and c: "cloned n sk (child s src k) s1 c"
    and s2: "s2 = set_entry dst k (c OR (vm_page s1 src k AND NOT VMM_PTE_ADDR_MASK)) s1"
  shows "present (vm_page s2 dst k)" "child s2 dst k = c"
    and "i \<noteq> k \<Longrightarrow> vm_page s2 dst i = vm_page sk dst i" "i \<noteq> k \<Longrightarrow> child s2 dst i = child sk dst i"
    and "i < k \<Longrightarrow> present (vm_page s src i) \<Longrightarrow> \<forall>u \<in> tables n (child s src i) sk. vm_page s2 u = vm_page sk u"
    and "i < k \<Longrightarrow> present (vm_page s src i) \<Longrightarrow> \<forall>u \<in> tables n (child sk dst i) sk. vm_page s2 u = vm_page sk u"
    and "\<forall>u \<in> tables n c s1. vm_page s2 u = vm_page s1 u" "\<forall>u \<in> tables n (child s src k) s1. vm_page s2 u = vm_page s1 u"
    and "\<not> is_free s u \<Longrightarrow> u \<noteq> dst \<Longrightarrow> \<forall>i < Suc k. present (vm_page s src i) \<longrightarrow> u \<notin> bottom n (child s src i) s \<Longrightarrow> vm_page s2 u = vm_page s u"
proof -
  note hc = half_cloned_child [OF p h k e] and cl = clonedD [OF c]
  note pk = parent_okD [OF p k e]
  have sub: "free_set (vm_pmm sk) \<subseteq> free_set (vm_pmm s)" and kern: "vm_kernel_pml4 sk = vm_kernel_pml4 s" using h by (auto simp: half_cloned_def)
  note free_sk = is_free_mono [OF sub] and free_s1 = is_free_mono [OF cl(2)]
  have dst: "\<not> is_free s dst" "\<not> is_free s src" "src \<noteq> dst" using p by (auto simp: parent_ok_def)
  have bot: "u \<notin> bottom n (child s src k) sk" if "u \<notin> tables n (child s src k) s" for u
    using that bottom_tables [of n "child s src k" s] hc(4) by auto
  have used_k: "\<not> is_free s u" if "u \<in> tables n (child s src k) s" for u using that pk(1) by (simp add: clonable_def)
  have keep: "vm_page s2 u = vm_page sk u" if "\<not> is_free sk u" "u \<noteq> dst" "u \<notin> tables n (child s src k) s" for u
    using cl(5) [OF that(1) bot [OF that(3)]] that(2) by (simp add: s2)
  have src1: "vm_page s1 src = vm_page s src" using cl(5) [of src] bot [OF pk(2)] free_sk dst hc(2) by metis
  have dst1: "vm_page s1 dst = vm_page sk dst" using cl(5) [of dst] bot [OF pk(3)] free_sk dst by metis
  note w = clone_entry_word [OF cl(3) e]
  show child_k: "present (vm_page s2 dst k)" "child s2 dst k = c" using w src1 by (simp_all add: child_def s2)
  show child_i: "vm_page s2 dst i = vm_page sk dst i" "child s2 dst i = child sk dst i" if "i \<noteq> k" for i
    using that dst1 by (simp_all add: child_def s2)
  show old_src: "\<forall>u \<in> tables n (child s src i) sk. vm_page s2 u = vm_page sk u" if i: "i < k" "present (vm_page s src i)" for i
  proof
    fix u assume u0: "u \<in> tables n (child s src i) sk"
    have iN: "i < N" using i(1) k by simp
    have u: "u \<in> tables n (child s src i) s" using u0 tables_cong [OF half_clonedD(7) [OF h i(1,2)]] by simp
    show "vm_page s2 u = vm_page sk u"
    proof (rule keep)
      show "\<not> is_free sk u" using parent_okD(1) [OF p iN i(2)] u free_sk by (auto simp: clonable_def)
      show "u \<noteq> dst" using parent_okD(3) [OF p iN i(2)] u by auto
      show "u \<notin> tables n (child s src k) s" using pk(4) [OF iN i(2)] i(1) u by auto
    qed
  qed
  show old_dst: "\<forall>u \<in> tables n (child sk dst i) sk. vm_page s2 u = vm_page sk u" if "i < k" "present (vm_page s src i)" for i
    using half_clonedD(4) [OF h that] dst used_k by (intro ballI keep) auto
  show new: "\<forall>u \<in> tables n c s1. vm_page s2 u = vm_page s1 u"
    using cl(10) dst free_sk by (auto simp: s2)
  show k_src: "\<forall>u \<in> tables n (child s src k) s1. vm_page s2 u = vm_page s1 u"
    using tables_cong [OF cl(6)] hc(3) pk(3) by (auto simp: s2)
  show frame: "vm_page s2 u = vm_page s u" if "\<not> is_free s u" "u \<noteq> dst"
    "\<forall>i < Suc k. present (vm_page s src i) \<longrightarrow> u \<notin> bottom n (child s src i) s" for u
  proof -
    have "vm_page sk u = vm_page s u" by (rule half_cloned_frame [OF h that(1,2)]) (use that(3) in auto)
    moreover have "vm_page s1 u = vm_page sk u" using cl(5) [of u] that(1,3) free_sk e hc(4) by auto
    ultimately show ?thesis using that(2) by (simp add: s2)
  qed
qed

lemma half_cloned_step:
  assumes p: "parent_ok N n s src dst" and h: "half_cloned n s src dst k sk" and k: "k < N" and e: "present (vm_page s src k)"
    and c: "cloned n sk (child s src k) s1 c"
  shows "half_cloned n s src dst (Suc k) (set_entry dst k (c OR (vm_page s1 src k AND NOT VMM_PTE_ADDR_MASK)) s1)" (is "half_cloned _ _ _ _ _ ?s2")
proof -
  note hc = half_cloned_child [OF p h k e] and cl = clonedD [OF c]
  note pages = half_cloned_step_pages [OF p h k e c refl]
  have sub: "free_set (vm_pmm sk) \<subseteq> free_set (vm_pmm s)" and kern: "vm_kernel_pml4 sk = vm_kernel_pml4 s" using h by (auto simp: half_cloned_def)
  note free_sk = is_free_mono [OF sub] and free_s1 = is_free_mono [OF cl(2)]
  note child_k = pages(1,2) and child_i = pages(3,4) and old_src = pages(5) and k_src = pages(8) and frame = pages(9)
  note fo = subtree_frame [OF old_src] and fd = subtree_frame [OF pages(6)] and fn = subtree_frame [OF pages(7)] and fk = subtree_frame [OF k_src]
  have lt: "(leaf ?s2 (child s src i) q j = cow (leaf s (child s src i) q j)) \<and>
      leaf ?s2 (child ?s2 dst i) q j = copied (leaf s (child s src i) q j)"
    if "i < Suc k" "present (vm_page s src i)" "idx q" "length q = n" "j < 512" for i q j
  proof (cases "i = k")
    case True
    then show ?thesis using fk(5) [of q j] fn(5) [of q j] cl(7,8) [of q j] hc(5) [of q j] that child_k by simp
  next
    case False
    then have "i < k" using that(1) by simp
    then show ?thesis using fo(5) [of i q j] fd(5) [of i q j] half_clonedD(1,5) [OF h \<open>i < k\<close> that(2-5)] that child_i [OF False] by simp
  qed
  have pa: "path ?s2 (child s src i) q = path s (child s src i) q"
    if "i < Suc k" "present (vm_page s src i)" "idx q" "length q \<le> n" for i q
  proof (cases "i = k")
    case True
    then show ?thesis using hc(6) [OF that(3,4)] tables_path [OF k_src that(3)] cl(6) [OF that(3,4)] that(4) by simp
  next
    case False
    then have "i < k" using that(1) by simp
    from tables_path [OF old_src [OF this that(2)] that(3)] half_clonedD(7) [OF h this that(2-4)] that(4) show ?thesis by simp
  qed
  have tr: "present (vm_page ?s2 dst i) \<and> tree n (child ?s2 dst i) ?s2 \<and> (\<forall>u \<in> tables n (child ?s2 dst i) ?s2. is_free s u \<and> \<not> is_free ?s2 u)"
    if "i < Suc k" "present (vm_page s src i)" for i
  proof (cases "i = k")
    case True
    then show ?thesis using child_k fn(1,3) cl(9,10) free_sk by auto
  next
    case False
    then have "i < k" using that(1) by simp
    with half_clonedD(2,3,4) [OF h this that(2)] fd(1,3) [OF this that(2)] show ?thesis using child_i [OF False] free_s1 by auto
  qed
  have disj: "tables n (child ?s2 dst i) ?s2 \<inter> tables n (child ?s2 dst i') ?s2 = {}"
    if "i < Suc k" "present (vm_page s src i)" "i' < i" "present (vm_page s src i')" for i i'
  proof -
    have "i' < k" "i' \<noteq> k" using that by auto
    then have t': "tables n (child ?s2 dst i') ?s2 = tables n (child sk dst i') sk" using fd(1) [OF _ that(4)] child_i by simp
    show ?thesis
    proof (cases "i = k")
      case True
      then have "tables n (child ?s2 dst i) ?s2 = tables n c s1" using child_k fn(1) by simp
      then show ?thesis using t' cl(10) half_clonedD(4) [OF h \<open>i' < k\<close> that(4)] by auto
    next
      case False
      then have "i < k" using that(1) by simp
      then show ?thesis using t' fd(1) [OF _ that(2)] child_i(2) [OF False] half_clonedD(6) [OF h _ that(2) that(3,4)] by simp
    qed
  qed
  have sane: "pmm_sane ?s2" "free_set (vm_pmm ?s2) \<subseteq> free_set (vm_pmm s)" "vm_kernel_pml4 ?s2 = vm_kernel_pml4 s"
    using cl(1,2,4) sub kern by auto
  have zero: "vm_page ?s2 dst i = 0" if "i \<ge> Suc k \<or> \<not> present (vm_page s src i)" for i
  proof -
    have "i \<noteq> k" using that e by auto
    moreover have "vm_page sk dst i = 0" using h that unfolding half_cloned_def by auto
    ultimately show ?thesis using child_i(1) by simp
  qed
  show ?thesis unfolding half_cloned_def
  proof (intro conjI allI impI)
    show "vm_page ?s2 u = vm_page s u" if "\<not> is_free s u" "u \<noteq> dst"
      "\<forall>i < Suc k. present (vm_page s src i) \<longrightarrow> u \<notin> bottom n (child s src i) s" for u using frame [OF that] .
  qed (use sane zero lt pa tr disj in blast)+
qed

lemma clone_entries_half:
  assumes f: "clones n f" and p: "parent_ok N n s src dst"
    and huge: "huge \<noteq> None \<Longrightarrow> \<forall>i < N. present (vm_page s src i) \<longrightarrow> vm_page s src i AND VMM_HUGE = 0"
    and h: "half_cloned n s src dst k sk" and k: "k \<le> N"
    and r: "clone_entries f huge src dst [k..<N] sk = Some s'"
  shows "half_cloned n s src dst N s'"
  using k h r
proof (induction "N - k" arbitrary: k sk)
  case 0 then show ?case by simp
next
  case (Suc m)
  then have k: "k < N" by simp
  have up: "[k..<N] = k # [Suc k..<N]" using k by (simp add: upt_conv_Cons)
  show ?case
  proof (cases "present (vm_page s src k)")
    case False
    note h' = half_cloned_absent [OF Suc.prems(2) False]
    have "vm_page sk src = vm_page s src" using half_cloned_src [OF p Suc.prems(2,1)] .
    then have "clone_entries f huge src dst [Suc k..<N] (set_entry dst k 0 sk) = Some s'" using Suc.prems(3) False unfolding up by simp
    then show ?thesis using Suc.hyps(1) [OF _ _ h'] Suc.hyps(2) k by simp
  next
    case True
    note hc = half_cloned_child [OF p Suc.prems(2) k True]
    have "vm_page s src k AND VMM_HUGE = 0 \<or> huge = None" using huge True k by auto
    then obtain s1 c where c: "f (child s src k) sk = Some (s1, c)"
      and r: "clone_entries f huge src dst [Suc k..<N] (set_entry dst k (c OR (vm_page s1 src k AND NOT VMM_PTE_ADDR_MASK)) s1) = Some s'"
      using Suc.prems(3) True hc(2) unfolding up by (auto simp: child_def split: option.splits)
    have "cloned n sk (child s src k) s1 c" using f hc(1) c unfolding clones_def by blast
    from Suc.hyps(1) [OF _ _ half_cloned_step [OF p Suc.prems(2) k True this] r] Suc.hyps(2) k show ?thesis by simp
  qed
qed

section \<open>From one level to the next\<close>

lemma tree_Suc:
  assumes "\<And>i. i < 512 \<Longrightarrow> present (vm_page s t i) \<Longrightarrow> tree n (child s t i) s \<and> t \<notin> tables n (child s t i) s"
    and disj: "\<And>i j. i < j \<Longrightarrow> j < 512 \<Longrightarrow> present (vm_page s t i) \<Longrightarrow> present (vm_page s t j) \<Longrightarrow>
      tables n (child s t i) s \<inter> tables n (child s t j) s = {}"
  shows "tree (Suc n) t s"
  unfolding tree_def
proof (intro allI impI)
  fix p q u assume A: "idx p" "idx q" "length p \<le> Suc n" "length q \<le> Suc n" "path s t p = Some u" "path s t q = Some u"
  have mem: "i < 512 \<and> present (vm_page s t i) \<and> length r \<le> n \<and> idx r \<and> path s (child s t i) r = Some u \<and> u \<in> tables n (child s t i) s"
    if "path s t (i # r) = Some u" "idx (i # r)" "length (i # r) \<le> Suc n" for i r
    using that by (auto simp: child_def tables_def split: if_splits)
  have root: False if "path s t [] = Some u" "path s t (i # r) = Some u" "idx (i # r)" "length (i # r) \<le> Suc n" for i r
  proof -
    have "u = t" using that(1) by simp
    then show False using mem [OF that(2-4)] assms(1) [of i] by blast
  qed
  show "p = q"
  proof (cases p)
    case Nil
    then show ?thesis using A root by (cases q) blast+
  next
    case p: (Cons i p')
    show ?thesis
    proof (cases q)
      case Nil then show ?thesis using A p root by blast
    next
      case q: (Cons j q')
      have mp: "i < 512" "present (vm_page s t i)" "length p' \<le> n" "idx p'" "path s (child s t i) p' = Some u" "u \<in> tables n (child s t i) s"
        using mem [of i p'] A p by blast+
      have mq: "j < 512" "present (vm_page s t j)" "length q' \<le> n" "idx q'" "path s (child s t j) q' = Some u" "u \<in> tables n (child s t j) s"
        using mem [of j q'] A q by blast+
      have "i = j" using mp(1,2,6) mq(1,2,6) disj [of i j] disj [of j i] by (cases i j rule: linorder_cases) blast+
      moreover have "p' = q'" using assms(1) [OF mp(1,2)] mp(3-5) mq(3-5) calculation unfolding tree_def by blast
      ultimately show ?thesis using p q by simp
    qed
  qed
qed

lemma bottom_Suc: "bottom (Suc n) t s = (\<Union>i \<in> {i. i < 512 \<and> present (vm_page s t i)}. bottom n (child s t i) s)"
proof (intro set_eqI iffI)
  fix u assume "u \<in> bottom (Suc n) t s"
  then obtain q where "idx q" "length q = Suc n" "path s t q = Some u" by (auto simp: bottom_def)
  then show "u \<in> (\<Union>i \<in> {i. i < 512 \<and> present (vm_page s t i)}. bottom n (child s t i) s)"
    by (cases q) (auto simp: bottom_def child_def split: if_splits)
next
  fix u assume "u \<in> (\<Union>i \<in> {i. i < 512 \<and> present (vm_page s t i)}. bottom n (child s t i) s)"
  then obtain i q where "i < 512" "present (vm_page s t i)" "idx q" "length q = n" "path s (child s t i) q = Some u" by (auto simp: bottom_def)
  then show "u \<in> bottom (Suc n) t s" unfolding bottom_def by (intro CollectI exI [of _ "i # q"]) (simp add: child_def)
qed

lemma takes_clonable:
  assumes c: "clonable n s t" and al: "takes_page s a pg s1"
  shows "clonable n s1 t" "tables n t s1 = tables n t s" "bottom n t s1 = bottom n t s" "a \<notin> tables n t s"
    "idx q \<Longrightarrow> length q \<le> n \<Longrightarrow> leaf s1 t q j = leaf s t q j" "idx q \<Longrightarrow> length q \<le> n \<Longrightarrow> path s1 t q = path s t q"
proof -
  show a: "a \<notin> tables n t s" using c al by (auto simp: clonable_def takes_page_def)
  then have pg: "\<forall>u \<in> tables n t s. vm_page s1 u = vm_page s u" using al by (auto simp: takes_page_def)
  note f = subtree_frame [OF pg]
  show "clonable n s1 t" using c al f takes_free [OF al] by (auto simp: clonable_def takes_page_def)
  show "tables n t s1 = tables n t s" "bottom n t s1 = bottom n t s" using f by auto
  show "leaf s1 t q j = leaf s t q j" if "idx q" "length q \<le> n" using f that by simp
  show "path s1 t q = path s t q" if "idx q" "length q \<le> n" using tables_path [OF pg that(1)] that(2) by simp
qed

lemma clonable_child:
  assumes "clonable (Suc n) s t" "i < 512" "present (vm_page s t i)"
  shows "clonable n s (child s t i)"
  using assms tree_child(1) no_huge_child(1) unfolding clonable_def tables_Suc by auto

lemma parent_ok_table:
  assumes c: "clonable (Suc n) s src" and al: "takes_page s dst (\<lambda>_. 0) s1"
  shows "parent_ok 512 n s1 src dst" "vm_page s1 src = vm_page s src"
proof -
  have tr: "tree (Suc n) src s" and src: "\<not> is_free s src" using c root_tables by (auto simp: clonable_def)
  have ne: "src \<noteq> dst" using src al by (auto simp: takes_page_def)
  then show pg: "vm_page s1 src = vm_page s src" using al by (auto simp: takes_page_def)
  have ch: "child s1 src i = child s src i" for i by (simp add: child_def pg)
  have "pmm_sane s1" "\<not> is_free s1 dst" "\<not> is_free s1 src" "vm_page s1 dst = (\<lambda>_. 0)"
    using al src by (auto simp: takes_page_def is_free_def)
  moreover have "clonable n s1 (child s src i) \<and> src \<notin> tables n (child s src i) s1 \<and> dst \<notin> tables n (child s src i) s1"
    if "i < 512" "present (vm_page s src i)" for i
    using takes_clonable [OF clonable_child [OF c that] al] tree_child(2) [OF tr that] by simp
  moreover have "tables n (child s src i) s1 \<inter> tables n (child s src j) s1 = {}"
    if "i < 512" "j < 512" "present (vm_page s src i)" "present (vm_page s src j)" "j \<noteq> i" for i j
    using takes_clonable(2) [OF clonable_child [OF c that(1,3)] al] takes_clonable(2) [OF clonable_child [OF c that(2,4)] al]
      tree_child(3) [OF tr that(1,3,2,4)] that(5) by simp
  ultimately show "parent_ok 512 n s1 src dst" using ne unfolding parent_ok_def pg ch by simp
qed

lemma half_cloned_table:
  assumes c: "clonable (Suc n) s src" and al: "takes_page s dst (\<lambda>_. 0) s1" and h: "half_cloned n s1 src dst 512 s'"
  shows "cloned (Suc n) s src s' dst"
proof -
  note pk = parent_ok_table [OF c al]
  have pg: "vm_page s1 src = vm_page s src" by (rule pk(2))
  have pg': "vm_page s' src = vm_page s src" using half_cloned_src [OF pk(1) h] pg by simp
  have ch: "child s1 src i = child s src i" "child s' src i = child s src i" for i by (simp_all add: child_def pg pg')
  note tc = takes_clonable [OF clonable_child [OF c] al]
  have sub: "free_set (vm_pmm s') \<subseteq> free_set (vm_pmm s1)" "pmm_sane s'" "vm_kernel_pml4 s' = vm_kernel_pml4 s1" using h by (auto simp: half_cloned_def)
  have al': "free_set (vm_pmm s1) = free_set (vm_pmm s) - {page_no dst}" "entry_addr dst = dst" "is_free s dst" "vm_kernel_pml4 s1 = vm_kernel_pml4 s"
    using al by (auto simp: takes_page_def)
  note D = half_clonedD [OF h, unfolded pg ch]
  have zero: "\<not> present (vm_page s' dst i)" if "\<not> present (vm_page s src i)" for i
    using h that unfolding half_cloned_def pg by (simp add: present_def)
  have pres: "present (vm_page s' dst i) \<longleftrightarrow> present (vm_page s src i)" if "i < 512" for i using D(2) [OF that] zero by blast
  have frame: "vm_page s' u = vm_page s u" if "\<not> is_free s u" "u \<notin> bottom (Suc n) src s" for u
  proof -
    have "u \<noteq> dst" using that(1) al'(3) by auto
    moreover have "\<not> is_free s1 u" using that(1) takes_free [OF al] by auto
    moreover have "u \<notin> bottom n (child s1 src i) s1" if "i < 512" "present (vm_page s1 src i)" for i
      using that \<open>u \<notin> bottom _ _ _\<close> tc(3) [of i] unfolding bottom_Suc ch pg by auto
    ultimately have "vm_page s' u = vm_page s1 u" by (intro half_cloned_frame [OF h]) auto
    then show ?thesis using \<open>u \<noteq> dst\<close> al by (simp add: takes_page_def)
  qed
  have path: "path s' src q = path s src q" if "idx q" "length q \<le> Suc n" for q
    using that D(7) tc(6) by (cases q) (auto simp: pg' ch(2) [unfolded child_def] child_def [symmetric])
  have leaves: "leaf s' src q j = cow (leaf s src q j) \<and> leaf s' dst q j = copied (leaf s src q j)"
    if q: "idx q" "length q = Suc n" "j < 512" for q j
  proof -
    obtain i r where ir: "q = i # r" "i < 512" "idx r" "length r = n" using q by (cases q) auto
    show ?thesis
    proof (cases "present (vm_page s src i)")
      case True
      then show ?thesis using D(1,5) [OF ir(2) True ir(3,4) q(3)] tc(5) [OF ir(2) True ir(3)] ir pres by (simp add: leaf_Cons pg' ch)
    next
      case False
      then show ?thesis using ir zero by (simp add: leaf_Cons pg' cow_def copied_def present_def)
    qed
  qed
  have fresh: "is_free s u \<and> \<not> is_free s' u" if "i < 512" "present (vm_page s' dst i)" "u \<in> tables n (child s' dst i) s'" for i u
    using D(4) [OF that(1) _ that(3)] that takes_free [OF al] pres by blast
  have dst': "\<not> is_free s' dst" "\<not> is_free s1 dst" using sub(1) al'(1) by (auto simp: is_free_def)
  have "tree (Suc n) dst s'"
  proof (rule tree_Suc)
    show "tree n (child s' dst i) s' \<and> dst \<notin> tables n (child s' dst i) s'" if "i < 512" "present (vm_page s' dst i)" for i
      using D(3,4) [OF that(1)] that pres dst'(2) by blast
    show "tables n (child s' dst i) s' \<inter> tables n (child s' dst j) s' = {}"
      if "i < j" "j < 512" "present (vm_page s' dst i)" "present (vm_page s' dst j)" for i j
      using D(6) [OF that(2) _ that(1)] that pres [of i] pres [of j] by (simp add: Int_commute)
  qed
  moreover have "\<forall>u \<in> tables (Suc n) dst s'. is_free s u \<and> \<not> is_free s' u" unfolding tables_Suc using fresh al'(3) dst'(1) by blast
  ultimately show ?thesis unfolding cloned_def using sub al' frame path leaves by auto
qed

lemma clones_table:
  assumes f: "clones n f"
    and g: "\<And>src s. g src s = (case vmm_alloc_page_table s of None \<Rightarrow> None
        | Some (s, dst) \<Rightarrow> map_option (\<lambda>s. (s, dst)) (clone_entries f (Some m) src dst [0..<512] s))"
  shows "clones (Suc n) g"
  unfolding clones_def
proof (intro allI impI)
  fix s src s' dst assume c: "clonable (Suc n) s src" and r: "g src s = Some (s', dst)"
  obtain s1 where s1: "vmm_alloc_page_table s = Some (s1, dst)" "clone_entries f (Some m) src dst [0..<512] s1 = Some s'"
    using r by (auto simp: g split: option.splits)
  have al: "takes_page s dst (\<lambda>_. 0) s1" using alloc_table_takes s1(1) c by (simp add: clonable_def)
  note p = parent_ok_table [OF c al]
  have "half_cloned n s1 src dst 512 s'"
    by (rule clone_entries_half [OF f p(1) _ half_cloned_start [OF p(1)] _ s1(2)])
      (use c no_huge_child(2) p(2) in \<open>auto simp: clonable_def\<close>)
  then show "cloned (Suc n) s src s' dst" by (rule half_cloned_table [OF c al])
qed

lemma clones_pd: "clones 1 clone_pd"
  using clones_table [OF clones_pt clone_pd_def] by simp

lemma clones_pdpt: "clones 2 clone_pdpt"
  using clones_table [OF clones_pd clone_pdpt_def] by (simp add: numeral_2_eq_2)

section \<open>Cloning an address space\<close>

definition user_no_huge :: "u64 \<Rightarrow> vmm \<Rightarrow> bool" where
  "user_no_huge r s \<longleftrightarrow> (\<forall>q u j. upath q \<longrightarrow> q \<noteq> [] \<longrightarrow> length q \<le> 2 \<longrightarrow> path s r q = Some u \<longrightarrow> j < 512 \<longrightarrow>
     present (vm_page s u j) \<longrightarrow> vm_page s u j AND VMM_HUGE = 0)"

lemma upath_Cons: "upath (i # q) \<longleftrightarrow> i < 256 \<and> idx q"
  by (auto simp: upath_def idx_def)

lemma copy_kernel_loop:
  "vm_pmm (fold (\<lambda>i s. set_entry d i (vm_page s (vm_kernel_pml4 s) i) s) js s) = vm_pmm s \<and>
   (\<forall>u. u \<noteq> d \<longrightarrow> vm_page (fold (\<lambda>i s. set_entry d i (vm_page s (vm_kernel_pml4 s) i) s) js s) u = vm_page s u) \<and>
   (\<forall>i. i \<notin> set js \<longrightarrow> vm_page (fold (\<lambda>i s. set_entry d i (vm_page s (vm_kernel_pml4 s) i) s) js s) d i = vm_page s d i)"
  by (induction js arbitrary: s) auto

lemma copy_kernel:
  "vm_pmm (copy_kernel_half d s) = vm_pmm s" "u \<noteq> d \<Longrightarrow> vm_page (copy_kernel_half d s) u = vm_page s u"
  "i < 256 \<Longrightarrow> vm_page (copy_kernel_half d s) d i = vm_page s d i"
proof -
  note l = copy_kernel_loop [of d "[KERNEL_PML4_START..<512]" s, folded copy_kernel_half_def]
  show "vm_pmm (copy_kernel_half d s) = vm_pmm s" using l by blast
  show "vm_page (copy_kernel_half d s) u = vm_page s u" if "u \<noteq> d" using l that by blast
  show "vm_page (copy_kernel_half d s) d i = vm_page s d i" if "i < 256"
  proof -
    have "i \<notin> set [KERNEL_PML4_START..<512]" using that unfolding set_upt by simp
    then show ?thesis using l by blast
  qed
qed

lemma forest_child:
  assumes f: "forest R s" "pmm_sane s" and r: "r \<in> R" and nh: "user_no_huge r s" and i: "i < 256" "present (vm_page s r i)"
  shows "clonable 2 s (child s r i)" "r \<notin> tables 2 (child s r i) s"
    and "j < 256 \<Longrightarrow> present (vm_page s r j) \<Longrightarrow> j \<noteq> i \<Longrightarrow> tables 2 (child s r i) s \<inter> tables 2 (child s r j) s = {}"
proof -
  have step: "path s r (i # q) = path s (child s r i) q" if "present (vm_page s r i)" for i q using that by (simp add: child_def)
  have inj: "p = q" if "upath p" "upath q" "length p \<le> 3" "length q \<le> 3" "path s r p = Some u" "path s r q = Some u" for p q u
    using forest_inj [OF f(1) r r] that by blast
  have "tree 2 (child s r i) s" unfolding tree_def
  proof (intro allI impI)
    fix p q u assume A: "idx p" "idx q" "length p \<le> 2" "length q \<le> 2" "path s (child s r i) p = Some u" "path s (child s r i) q = Some u"
    then have "i # p = i # q" using inj [of "i # p" "i # q" u] step [OF i(2)] i(1) by (simp add: upath_Cons)
    then show "p = q" by simp
  qed
  moreover have "\<not> is_free s u" if u: "u \<in> tables 2 (child s r i) s" for u
  proof -
    obtain q where "idx q" "length q \<le> 2" "path s (child s r i) q = Some u" using u by (auto simp: tables_def)
    then show ?thesis using forest_used [OF f(1) r, of "i # q" u] step [OF i(2)] i(1) by (simp add: upath_Cons)
  qed
  moreover have "no_huge 2 (child s r i) s" unfolding no_huge_def
  proof (intro allI impI)
    fix q u j assume A: "idx q" "length q < 2" "path s (child s r i) q = Some u" "j < 512" "present (vm_page s u j)"
    have "upath (i # q)" "length (i # q) \<le> 2" "path s r (i # q) = Some u" using A i step [OF i(2)] by (simp_all add: upath_Cons)
    then show "vm_page s u j AND VMM_HUGE = 0" using nh A(4,5) unfolding user_no_huge_def by blast
  qed
  ultimately show "clonable 2 s (child s r i)" using f(2) by (simp add: clonable_def)
  show "r \<notin> tables 2 (child s r i) s"
  proof
    assume "r \<in> tables 2 (child s r i) s"
    then obtain q where "idx q" "length q \<le> 2" "path s (child s r i) q = Some r" by (auto simp: tables_def)
    moreover have "upath []" by (simp add: upath_def)
    ultimately show False using inj [of "i # q" "[]" r] step [OF i(2)] i(1) by (simp add: upath_Cons)
  qed
  show "tables 2 (child s r i) s \<inter> tables 2 (child s r j) s = {}" if "j < 256" "present (vm_page s r j)" "j \<noteq> i"
  proof (rule ccontr)
    assume "tables 2 (child s r i) s \<inter> tables 2 (child s r j) s \<noteq> {}"
    then obtain u p q where "idx p" "length p \<le> 2" "path s (child s r i) p = Some u" "idx q" "length q \<le> 2" "path s (child s r j) q = Some u"
      by (auto simp: tables_def)
    then show False using inj [of "i # p" "j # q" u] step [OF i(2)] step [OF that(2)] i(1) that by (simp add: upath_Cons)
  qed
qed

lemma parent_ok_space:
  assumes f: "forest R s" "pmm_sane s" and r: "src \<in> R" and nh: "user_no_huge src s" and al: "takes_page s dst (\<lambda>_. 0) s1"
  shows "parent_ok 256 2 s1 src dst" "vm_page s1 src = vm_page s src"
proof -
  have src: "\<not> is_free s src" using forest_used [OF f(1) r, of "[]"] by (simp add: upath_def)
  have ne: "src \<noteq> dst" using src al by (auto simp: takes_page_def)
  then show pg: "vm_page s1 src = vm_page s src" using al by (auto simp: takes_page_def)
  have ch: "child s1 src i = child s src i" for i by (simp add: child_def pg)
  note fc = forest_child [OF f r nh]
  note tc = takes_clonable [OF fc(1) al]
  have "pmm_sane s1" "\<not> is_free s1 dst" "\<not> is_free s1 src" "vm_page s1 dst = (\<lambda>_. 0)"
    using al src by (auto simp: takes_page_def is_free_def)
  then show "parent_ok 256 2 s1 src dst" using ne tc(1,2,4) fc(2,3) unfolding parent_ok_def pg ch by simp
qed


lemma clone_space_split:
  assumes f: "forest R s" "pmm_sane s" and r: "src \<in> R" and nh: "user_no_huge src s"
    and c: "vmm_clone_address_space src s = Some (s', dst)"
  obtains s1 sk where "takes_page s dst (\<lambda>_. 0) s1" "half_cloned 2 s1 src dst 256 sk" "s' = copy_kernel_half dst sk"
proof -
  obtain s1 sk where s1: "vmm_alloc_page_table s = Some (s1, dst)"
    and sk: "clone_entries clone_pdpt None src dst [0..<KERNEL_PML4_START] s1 = Some sk" and s': "s' = copy_kernel_half dst sk"
    using c by (auto simp: vmm_clone_address_space_def split: option.splits)
  note al = alloc_table_takes [OF f(2) s1]
  note p = parent_ok_space [OF f r nh al]
  have "half_cloned 2 s1 src dst 256 sk"
    by (rule clone_entries_half [OF clones_pdpt p(1) _ half_cloned_start [OF p(1)] _ sk]) auto
  then show thesis by (rule that [OF al _ s'])
qed

lemma clone_space_data:
  assumes f: "forest R s" "pmm_sane s" and r: "src \<in> R" and nh: "user_no_huge src s"
    and c: "vmm_clone_address_space src s = Some (s', dst)"
  shows "pmm_sane s'" "is_free s dst" "\<not> is_free s' dst" "free_set (vm_pmm s') \<subseteq> free_set (vm_pmm s)"
    and "\<not> is_free s u \<Longrightarrow> (\<And>q. upath q \<Longrightarrow> length q = 3 \<Longrightarrow> path s src q \<noteq> Some u) \<Longrightarrow> vm_page s' u = vm_page s u"
proof -
  obtain s1 sk where al: "takes_page s dst (\<lambda>_. 0) s1" and h: "half_cloned 2 s1 src dst 256 sk" and s': "s' = copy_kernel_half dst sk"
    by (rule clone_space_split [OF f r nh c])
  note p = parent_ok_space [OF f r nh al]
  have sub: "free_set (vm_pmm sk) \<subseteq> free_set (vm_pmm s1)" "pmm_sane sk" using h by (auto simp: half_cloned_def)
  show "pmm_sane s'" using sub(2) by (simp add: s' pmm_sane_def copy_kernel)
  show dst: "is_free s dst" using al by (simp add: takes_page_def)
  show "\<not> is_free s' dst" using sub(1) al by (auto simp: s' is_free_def copy_kernel takes_page_def)
  show "free_set (vm_pmm s') \<subseteq> free_set (vm_pmm s)" using sub(1) al by (auto simp: s' copy_kernel takes_page_def)
  have ch: "child s1 src i = child s src i" for i by (simp add: child_def p(2))
  note tc = takes_clonable [OF forest_child(1) [OF f r nh] al]
  show data: "vm_page s' u = vm_page s u" if u: "\<not> is_free s u" "\<And>q. upath q \<Longrightarrow> length q = 3 \<Longrightarrow> path s src q \<noteq> Some u" for u
  proof -
    have ne: "u \<noteq> dst" using u(1) dst by auto
    have "u \<notin> bottom 2 (child s1 src i) s1" if i: "i < 256" "present (vm_page s1 src i)" for i
    proof
      assume "u \<in> bottom 2 (child s1 src i) s1"
      then have "u \<in> bottom 2 (child s src i) s" using tc(3) [OF i(1)] i(2) by (simp add: ch p(2))
      then obtain q where "idx q" "length q = 2" "path s (child s src i) q = Some u" by (auto simp: bottom_def)
      then show False using u(2) [of "i # q"] i by (simp add: upath_Cons child_def p(2))
    qed
    moreover have "\<not> is_free s1 u" using u(1) takes_free [OF al] by auto
    ultimately have "vm_page sk u = vm_page s1 u" using ne by (intro half_cloned_frame [OF h])
    then show ?thesis using ne al by (simp add: s' copy_kernel takes_page_def)
  qed
qed

lemma clone_space_children:
  assumes f: "forest R s" "pmm_sane s" and r: "src \<in> R" and nh: "user_no_huge src s"
    and c: "vmm_clone_address_space src s = Some (s', dst)" and i: "i < 256"
  shows "present (vm_page s' dst i) \<longleftrightarrow> present (vm_page s src i)" "vm_page s' src i = vm_page s src i"
    and "present (vm_page s src i) \<Longrightarrow> tree 2 (child s' dst i) s' \<and> (\<forall>u \<in> tables 2 (child s' dst i) s'. is_free s u \<and> \<not> is_free s' u \<and> u \<noteq> dst)"
    and "present (vm_page s src i) \<Longrightarrow> i' < i \<Longrightarrow> present (vm_page s src i') \<Longrightarrow> tables 2 (child s' dst i) s' \<inter> tables 2 (child s' dst i') s' = {}"
    and "present (vm_page s src i) \<Longrightarrow> idx q \<Longrightarrow> length q = 2 \<Longrightarrow> j < 512 \<Longrightarrow>
      leaf s' (child s' dst i) q j = copied (leaf s (child s src i) q j) \<and> leaf s' (child s src i) q j = cow (leaf s (child s src i) q j)"
proof -
  obtain s1 sk where al: "takes_page s dst (\<lambda>_. 0) s1" and h: "half_cloned 2 s1 src dst 256 sk" and s': "s' = copy_kernel_half dst sk"
    by (rule clone_space_split [OF f r nh c])
  note p = parent_ok_space [OF f r nh al]
  have ch: "child s1 src i = child s src i" for i by (simp add: child_def p(2))
  have ne: "src \<noteq> dst" and dst1: "\<not> is_free s1 dst" using p(1) by (auto simp: parent_ok_def)
  note fc = forest_child [OF f r nh] and tc = takes_clonable [OF forest_child(1) [OF f r nh] al]
  note D = half_clonedD [OF h, unfolded p(2) ch]
  have cd: "vm_page s' dst i = vm_page sk dst i" "child s' dst i = child sk dst i" if "i < 256" for i
    using that by (simp_all add: s' copy_kernel child_def)
  have z: "\<not> present (vm_page sk dst i)" if "\<not> present (vm_page s src i)" for i
    using h that unfolding half_cloned_def p(2) by (simp add: present_def)
  show "present (vm_page s' dst i) \<longleftrightarrow> present (vm_page s src i)" using D(2) [OF i] z cd(1) [OF i] by auto
  show "vm_page s' src i = vm_page s src i" using half_cloned_src [OF p(1) h] p(2) ne by (simp add: s' copy_kernel)
  have fr: "\<forall>u \<in> tables 2 (child sk dst i) sk. vm_page s' u = vm_page sk u" if "i < 256" "present (vm_page s src i)" for i
    using D(4) [OF that] dst1 unfolding s' by (intro ballI copy_kernel(2)) blast
  note F = subtree_frame [OF fr]
  have free: "is_free s' = is_free sk" by (simp add: s' is_free_def copy_kernel fun_eq_iff)
  show "tree 2 (child s' dst i) s' \<and> (\<forall>u \<in> tables 2 (child s' dst i) s'. is_free s u \<and> \<not> is_free s' u \<and> u \<noteq> dst)" if e: "present (vm_page s src i)"
    using D(3,4) [OF i e] F(1,3) [OF i e] takes_free [OF al] dst1 unfolding cd(2) [OF i] free by auto
  show "tables 2 (child s' dst i) s' \<inter> tables 2 (child s' dst i') s' = {}" if "present (vm_page s src i)" "i' < i" "present (vm_page s src i')"
    using D(6) [OF i that] F(1) [OF i that(1)] F(1) [of i'] cd(2) [of i'] i that by (simp add: cd(2) [OF i])
  show "leaf s' (child s' dst i) q j = copied (leaf s (child s src i) q j) \<and> leaf s' (child s src i) q j = cow (leaf s (child s src i) q j)"
    if e: "present (vm_page s src i)" and q: "idx q" "length q = 2" "j < 512"
  proof -
    have "tables 2 (child s src i) sk = tables 2 (child s src i) s"
      using tables_cong [OF D(7) [OF i e]] tc(2) [OF i e] by simp
    then have "\<forall>u \<in> tables 2 (child s src i) sk. vm_page s' u = vm_page sk u" using tc(4) [OF i e] unfolding s' by (intro ballI copy_kernel(2)) blast
    from subtree_frame(5) [OF this q(1)] F(5) [OF i e q(1)] D(1,5) [OF i e q] tc(5) [OF i e q(1)] q(2) show ?thesis
      by (simp add: cd(2) [OF i])
  qed
qed

text \<open>The leaves of the clone and of its source.\<close>

lemma clone_space_leaves:
  assumes f: "forest R s" "pmm_sane s" and r: "src \<in> R" and nh: "user_no_huge src s"
    and c: "vmm_clone_address_space src s = Some (s', dst)" and q: "upath q" "length q = 3" "j < 512"
  shows "leaf s' dst q j = copied (leaf s src q j)" "leaf s' src q j = cow (leaf s src q j)"
proof -
  obtain i p where ip: "q = i # p" "i < 256" "idx p" "length p = 2" using q by (cases q) (auto simp: upath_Cons)
  note C = clone_space_children [OF f r nh c ip(2)]
  have ch: "child s' src i = child s src i" by (simp add: child_def C(2))
  show "leaf s' dst q j = copied (leaf s src q j)" "leaf s' src q j = cow (leaf s src q j)"
    using C(1,2,5) ip(3,4) q(3) ch by (auto simp: ip(1) leaf_Cons copied_def cow_def present_def)
qed

lemma clone_space_paths:
  assumes f: "forest R s" "pmm_sane s" and r: "src \<in> R" and nh: "user_no_huge src s"
    and c: "vmm_clone_address_space src s = Some (s', dst)" and r': "r' \<in> R" and q: "upath q" "length q \<le> 3"
  shows "path s' r' q = path s r' q"
proof (rule path_frame)
  fix q' u assume q': "strict_prefix q' q" "path s r' q' = Some u"
  have up: "upath q'" using q'(1) q(1) upath_prefix by (auto simp: strict_prefix_def prefix_def)
  have len: "length q' < 3" using prefix_length_less [OF q'(1)] q(2) by simp
  show "vm_page s' u = vm_page s u"
  proof (rule clone_space_data(5) [OF f r nh c])
    show "\<not> is_free s u" using forest_used [OF f(1) r' q'(2) up] len by simp
    show "path s src p \<noteq> Some u" if "upath p" "length p = 3" for p
      using forest_inj [OF f(1) r r' _ q'(2) that(1) up] that(2) len by auto
  qed
qed

lemma clone_space_fresh:
  assumes f: "forest R s" "pmm_sane s" and r: "src \<in> R" and nh: "user_no_huge src s"
    and c: "vmm_clone_address_space src s = Some (s', dst)" and q: "upath q" "length q \<le> 3" "path s' dst q = Some u"
  shows "is_free s u \<and> \<not> is_free s' u"
proof (cases q)
  case Nil then show ?thesis using q clone_space_data(2,3) [OF f r nh c] by simp
next
  case (Cons i p)
  then have "i < 256" "idx p" "length p \<le> 2" "present (vm_page s' dst i)" "path s' (child s' dst i) p = Some u"
    using q by (auto simp: upath_Cons child_def split: if_splits)
  then show ?thesis using clone_space_children(1,3) [OF f r nh c, of i] by (auto simp: tables_def)
qed

lemma clone_space_own:
  assumes f: "forest R s" "pmm_sane s" and r: "src \<in> R" and nh: "user_no_huge src s"
    and c: "vmm_clone_address_space src s = Some (s', dst)"
    and A: "upath p" "upath q" "length p \<le> 3" "length q \<le> 3" "path s' dst p = Some u" "path s' dst q = Some u"
  shows "p = q"
proof -
  note C = clone_space_children [OF f r nh c]
  have mem: "i < 256 \<and> present (vm_page s src i) \<and> idx p' \<and> length p' \<le> 2 \<and> path s' (child s' dst i) p' = Some u \<and>
      u \<in> tables 2 (child s' dst i) s' \<and> u \<noteq> dst"
    if "upath (i # p')" "length (i # p') \<le> 3" "path s' dst (i # p') = Some u" for i p'
  proof -
    have *: "i < 256" "idx p'" "length p' \<le> 2" "present (vm_page s' dst i)" "path s' (child s' dst i) p' = Some u"
      using that by (auto simp: upath_Cons child_def split: if_splits)
    then have "u \<in> tables 2 (child s' dst i) s'" by (auto simp: tables_def)
    then show ?thesis using * C(1,3) [OF *(1)] by blast
  qed
  have nil: "q = []" if "path s' dst [] = Some u" "upath q" "length q \<le> 3" "path s' dst q = Some u" for q
    using that mem by (cases q) (simp, fastforce simp del: path.simps(2))
  show ?thesis
  proof (cases p)
    case Nil then show ?thesis using nil A by metis
  next
    case p: (Cons i p')
    show ?thesis
    proof (cases q)
      case Nil then show ?thesis using nil A by metis
    next
      case q: (Cons j q')
      note mp = mem [of i p'] and mq = mem [of j q']
      have "i = j" using mp mq A p q C(4) [of i j] C(4) [of j i]
        by (cases i j rule: linorder_cases) blast+
      moreover have "tree 2 (child s' dst i) s'" using mp A p C(3) by blast
      ultimately show ?thesis using mp mq A p q unfolding tree_def by blast
    qed
  qed
qed

lemma clone_space_forest:
  assumes f: "forest R s" "pmm_sane s" and r: "src \<in> R" and nh: "user_no_huge src s"
    and c: "vmm_clone_address_space src s = Some (s', dst)"
  shows "forest (insert dst R) s'"
proof -
  note d = clone_space_data [OF f r nh c] and P = clone_space_paths [OF f r nh c]
    and new = clone_space_fresh [OF f r nh c] and own = clone_space_own [OF f r nh c]
  have old: "\<not> is_free s u" if "r' \<in> R" "upath q" "length q \<le> 3" "path s' r' q = Some u" for r' q u
    using P [OF that(1-3)] that forest_used [OF f(1) that(1)] by simp
  show ?thesis unfolding forest_def
  proof (intro conjI ballI allI impI)
    fix r1 r2 p q u assume A: "r1 \<in> insert dst R" "r2 \<in> insert dst R" "upath p" "upath q" "length p \<le> 3" "length q \<le> 3"
      "path s' r1 p = Some u" "path s' r2 q = Some u"
    have "r1 = r2 \<and> p = q"
    proof (cases "r1 \<in> R"; cases "r2 \<in> R")
      assume "r1 \<in> R" "r2 \<in> R"
      then show ?thesis using A P forest_inj [OF f(1) _ _ _ _ A(3-6)] by metis
    qed (use A old new own in blast)+
    then show "r1 = r2" "p = q" by auto
  next
    fix r1 p u assume A: "r1 \<in> insert dst R" "upath p" "length p \<le> 3" "path s' r1 p = Some u"
    show "\<not> is_free s' u"
    proof (cases "r1 \<in> R")
      case True then show ?thesis using old A is_free_mono [OF d(4)] by blast
    next
      case False then show ?thesis using new A by blast
    qed
  qed
qed

end
