(* ===== verification/Vmm_Fork.thy ===== *)
theory Vmm_Fork
  imports Vmm_Clone
begin

unbundle bit_operations_syntax

text \<open>
  Copy on write as processes see it: the effect of a write fault, isolation of parent and
  child after a fork, and the loss of write protection that the fault handler causes.
  A clone needs at most 67240193 pages, the number of tables of a full user half.
\<close>

section \<open>What a process sees\<close>

definition word_index :: "u64 \<Rightarrow> nat" where "word_index v = unat (v AND 0xFFF) div 8"

text \<open>The word a process reads at an address, and a write to a mapped address.\<close>

definition user_read :: "vmm \<Rightarrow> u64 \<Rightarrow> u64 \<Rightarrow> u64 option" where
  "user_read s r v = map_option (\<lambda>e. vm_page s (entry_addr e) (word_index v)) (vmm_get_pte r v s)"

definition user_write :: "u64 \<Rightarrow> u64 \<Rightarrow> u64 \<Rightarrow> vmm \<Rightarrow> vmm" where
  "user_write r v x s = (case vmm_get_pte r v s of None \<Rightarrow> s | Some e \<Rightarrow> set_entry (entry_addr e) (word_index v) x s)"

text \<open>The pages mapped by the address spaces \<open>R\<close> are in use and none of them is a table.\<close>

definition frames_ok :: "u64 set \<Rightarrow> vmm \<Rightarrow> bool" where
  "frames_ok R s \<longleftrightarrow> (\<forall>r \<in> R. \<forall>v e. v < USER_SPACE_END \<longrightarrow> vmm_get_pte r v s = Some e \<longrightarrow>
     \<not> is_free s (entry_addr e) \<and> (\<forall>r' \<in> R. \<forall>q. upath q \<longrightarrow> length q \<le> 3 \<longrightarrow> path s r' q \<noteq> Some (entry_addr e)))"

lemma cow_entry_bits:
  "entry_addr (cow_entry e) = entry_addr e" "present e \<Longrightarrow> present (cow_entry e)" "cow_entry e AND VMM_COW \<noteq> 0" "cow_entry e AND VMM_WRITE = 0"
  by (simp_all add: cow_entry_def entry_addr_def present_def bit.conj_disj_distrib2 and.assoc or_eq_0_iff)

lemma not_present_0 [simp]: "\<not> present 0"
  by (simp add: present_def)

lemma table_index_lt: "table_index n v < 512"
  by (simp add: table_index_nat)

lemma clone_get_pte:
  assumes f: "forest R s" "pmm_sane s" and r: "src \<in> R" and nh: "user_no_huge src s"
    and c: "vmm_clone_address_space src s = Some (s', dst)" and v: "v < USER_SPACE_END"
  shows "vmm_get_pte dst v s' = map_option cow_entry (vmm_get_pte src v s)" "vmm_get_pte src v s' = map_option cow_entry (vmm_get_pte src v s)"
proof -
  have "length (table_path v) = 3" by (simp add: table_path_def)
  note l = clone_space_leaves [OF f r nh c upath_user [OF v] this table_index_lt [of 12 v]]
  show "vmm_get_pte dst v s' = map_option cow_entry (vmm_get_pte src v s)" "vmm_get_pte src v s' = map_option cow_entry (vmm_get_pte src v s)"
    unfolding get_pte_leaf l using cow_entry_bits(2) by (auto simp: Let_def copied_def cow_def)
qed

lemma alloc_filled_takes:
  assumes "pmm_sane s" "alloc_filled pg s = (s', a)" "a \<noteq> 0"
  shows "takes_page s a pg s'"
proof -
  obtain p where p: "pmm_alloc_pages 1 (vm_pmm s) = (p, a)" "s' = s\<lparr>vm_pmm := p, vm_page := (vm_page s)(a := pg)\<rparr>"
    using assms(2,3) by (auto simp: alloc_filled_def split: prod.splits if_splits)
  show ?thesis using alloc_one [OF _ _ p(1) assms(3)] assms(1) p(2)
    by (simp add: takes_page_def pmm_sane_def is_free_def entry_addr_def)
qed

lemma unref_page_path: "vm_page (unref_page a s) = vm_page s" "path (unref_page a s) = path s"
proof -
  show v: "vm_page (unref_page a s) = vm_page s" by (simp add: unref_page_def)
  have "path (unref_page a s) t q = path s t q" for t q by (rule path_frame) (simp add: v)
  then show "path (unref_page a s) = path s" by (simp add: fun_eq_iff)
qed

lemma takes_leaf:
  assumes f: "forest R s" and t: "takes_page s a pg s'" and r: "r \<in> R" and q: "upath q" "length q = 3"
  shows "leaf s' r q j = leaf s r q j"
proof (cases "path s r q")
  case (Some u)
  have "u \<noteq> a" using forest_used [OF f r Some q(1)] q(2) t by (auto simp: takes_page_def)
  then show ?thesis using takes_path [OF f t r q(1)] q(2) Some t by (simp add: leaf_def takes_page_def)
qed (use takes_path [OF f t r q(1)] q(2) in \<open>simp add: leaf_def\<close>)

definition cow_resolved :: "u64 \<Rightarrow> u64 \<Rightarrow> u64" where
  "cow_resolved new e = entry_addr new OR ((e AND NOT VMM_PTE_ADDR_MASK AND NOT VMM_COW) OR VMM_WRITE)"

text \<open>A write fault on a COW page: one entry changes, to a fresh copy of the page.\<close>

lemma cow_fault_effect:
  assumes f: "forest R s" "pmm_sane s" and r: "r \<in> R" and v: "v < USER_SPACE_END"
    and e: "vmm_get_pte r v s = Some e" "e AND VMM_COW \<noteq> 0" and err: "err AND 2 \<noteq> 0"
    and h: "vmm_handle_page_fault fs cur r v err s = Some (s', True)"
  obtains new where "is_free s new" "entry_addr new = new" "vm_page s' new = vm_page s (entry_addr e)"
    "\<And>u. u \<noteq> new \<Longrightarrow> (\<And>q. upath q \<Longrightarrow> length q = 3 \<Longrightarrow> path s r q \<noteq> Some u) \<Longrightarrow> vm_page s' u = vm_page s u"
    "\<And>r' u. r' \<in> R \<Longrightarrow> u < USER_SPACE_END \<Longrightarrow>
       vmm_get_pte r' u s' = (if r' = r \<and> page_num u = page_num v then Some (cow_resolved new e) else vmm_get_pte r' u s)"
    "\<And>r' q. r' \<in> R \<Longrightarrow> upath q \<Longrightarrow> length q \<le> 3 \<Longrightarrow> path s' r' q = path s r' q"
proof -
  obtain t where t: "path s r (table_path v) = Some t" "vm_page s t (table_index 12 v) = e" "present e"
    using e(1) by (auto simp: get_pte_leaf leaf_def present_def Let_def split: option.splits if_splits)
  have len: "length (table_path u) = 3" for u by (simp add: table_path_def)
  obtain s1 new where al: "alloc_filled (vm_page s (entry_addr e)) s = (s1, new)" and new: "new \<noteq> 0"
    and s': "s' = unref_page (entry_addr e) (set_entry t (table_index 12 v) (cow_resolved new e) s1)"
    using h err t e(2) by (auto simp: vmm_handle_page_fault_def cow_fault_def find_pte_path Let_def cow_resolved_def split: prod.splits if_splits)
  note tk = alloc_filled_takes [OF f(2) al new]
  have f1: "forest R s1" by (rule takes_forest [OF f(1) tk])
  have path1: "path s1 r' q = path s r' q" if "r' \<in> R" "upath q" "length q \<le> 3" for r' q using takes_path [OF f(1) tk that(1,2)] that(3) by simp
  have t1: "path s1 r (table_path v) = Some t" using path1 [OF r upath_user [OF v]] len t(1) by simp
  have tn: "t \<noteq> new" using forest_used [OF f(1) r t(1) upath_user [OF v]] len tk by (auto simp: takes_page_def)
  note sl = set_leaf [OF f1 r upath_user [OF v] len t1, where i = "table_index 12 v" and w = "cow_resolved new e"]
  have leaf': "leaf s' r' q j = leaf (set_entry t (table_index 12 v) (cow_resolved new e) s1) r' q j" for r' q j
    unfolding leaf_def s' unref_page_path ..
  note leaf1 = takes_leaf [OF f(1) tk]
  have pr: "present (cow_resolved new e)" using t(3) by (simp add: cow_resolved_def present_def bit.conj_disj_distrib2 or_eq_0_iff and.assoc)
  show thesis
  proof (rule that [of new])
    show "is_free s new" "entry_addr new = new" using tk by (simp_all add: takes_page_def)
    show "vm_page s' new = vm_page s (entry_addr e)" using tk tn by (simp add: s' unref_page_path takes_page_def)
    show "vm_page s' u = vm_page s u" if "u \<noteq> new" "\<And>q. upath q \<Longrightarrow> length q = 3 \<Longrightarrow> path s r q \<noteq> Some u" for u
      using that t(1) upath_user [OF v] len tk by (auto simp: s' unref_page_path takes_page_def)
    show "vmm_get_pte r' u s' = (if r' = r \<and> page_num u = page_num v then Some (cow_resolved new e) else vmm_get_pte r' u s)"
      if "r' \<in> R" "u < USER_SPACE_END" for r' u
    proof -
      have "leaf s' r' (table_path u) j = (if r' = r \<and> table_path u = table_path v \<and> j = table_index 12 v then cow_resolved new e
          else leaf s r' (table_path u) j)" for j
        unfolding leaf' using sl(2) [OF that(1) upath_user [OF that(2)] len] leaf1 [OF that(1) upath_user [OF that(2)] len] by simp
      from get_pte_update [OF this that(2) v] pr show ?thesis by simp
    qed
    show "path s' r' q = path s r' q" if A: "r' \<in> R" "upath q" "length q \<le> 3" for r' q
    proof -
      have "\<not> prefix (table_path v @ [table_index 12 v]) q" using A(3) len [of v] by (auto dest: prefix_length_le)
      then show ?thesis unfolding s' unref_page_path
        using path1 [OF A] path_set_other [OF f1 r A(1) upath_user [OF v] _ t1 A(2)] A(3) len [of v] by simp
    qed
  qed
qed


text \<open>A write to a page that is not a table leaves the tables alone.\<close>

lemma write_frame:
  assumes "\<And>r q. r \<in> R \<Longrightarrow> upath q \<Longrightarrow> length q \<le> 3 \<Longrightarrow> path s r q \<noteq> Some a" and r: "r \<in> R" and v: "v < USER_SPACE_END"
  shows "vmm_get_pte r v (set_entry a i x s) = vmm_get_pte r v s"
proof -
  have len: "length (table_path v) = 3" by (simp add: table_path_def)
  have "path (set_entry a i x s) r (table_path v) = path s r (table_path v)"
  proof (rule path_frame)
    fix q u assume q: "strict_prefix q (table_path v)" "path s r q = Some u"
    have "upath q" using q(1) upath_user [OF v] upath_prefix by (auto simp: strict_prefix_def prefix_def)
    moreover have "length q \<le> 3" using prefix_length_less [OF q(1)] len by simp
    ultimately have "u \<noteq> a" using assms(1) [OF r] q(2) by auto
    then show "vm_page (set_entry a i x s) u = vm_page s u" by simp
  qed
  then have "leaf (set_entry a i x s) r (table_path v) j = leaf s r (table_path v) j" for j
    using assms(1) [OF r upath_user [OF v]] len by (auto simp: leaf_def split: option.split)
  then show ?thesis by (simp add: get_pte_leaf)
qed

lemma cow_resolved_bits:
  "entry_addr new = new \<Longrightarrow> entry_addr (cow_resolved new e) = new" "cow_resolved new e AND VMM_WRITE \<noteq> 0"
  "entry_addr new = new \<Longrightarrow> cow_resolved new e AND VMM_COW = 0"
proof -
  have m: "(x AND - 4503599627366913) AND VMM_PTE_ADDR_MASK = 0" "(x AND - 4503599627366913) AND VMM_COW = 0"
    "(x AND VMM_PTE_ADDR_MASK) AND VMM_COW = 0" for x :: u64
    by (simp_all add: and.assoc)
  show "entry_addr (cow_resolved new e) = new" if "entry_addr new = new"
    using that m(1) unfolding cow_resolved_def entry_addr_def bit.conj_disj_distrib2 by simp
  show "cow_resolved new e AND VMM_COW = 0" if "entry_addr new = new"
    using that m(2) m(3) [of new] unfolding cow_resolved_def entry_addr_def bit.conj_disj_distrib2 by simp
  show "cow_resolved new e AND VMM_WRITE \<noteq> 0"
    unfolding cow_resolved_def bit.conj_disj_distrib2 or_eq_0_iff by simp
qed

text \<open>C28: fork semantics.  After an address space is cloned, parent and child read at every address what the parent
  read before; when either of them then writes to a mapped address, the fault handler gives it a writable copy of the
  page, and the write is seen at that word by that process only.\<close>

theorem fork_isolates:
  assumes f: "forest R s" "pmm_sane s" "frames_ok R s" and p: "parent \<in> R" and nh: "user_no_huge parent s"
    and c: "vmm_clone_address_space parent s = Some (s1, kid)"
    and w: "w = parent \<or> w = kid" and v: "v < USER_SPACE_END" "vmm_get_pte parent v s \<noteq> None" and err: "err AND 2 \<noteq> 0"
    and h: "vmm_handle_page_fault fs cur w v err s1 = Some (s2, True)"
    and r: "r = parent \<or> r = kid" and u: "u < USER_SPACE_END"
  shows "user_read s1 r u = user_read s parent u \<and>
    user_read (user_write w v x s2) r u =
      (if r = w \<and> page_num u = page_num v \<and> word_index u = word_index v then Some x else user_read s parent u)"
proof -
  note d = clone_space_data [OF f(1,2) p nh c] and g = clone_get_pte [OF f(1,2) p nh c]
  have f1: "forest (insert kid R) s1" by (rule clone_space_forest [OF f(1,2) p nh c])
  have pte1: "vmm_get_pte r' a s1 = map_option cow_entry (vmm_get_pte parent a s)" if "r' = parent \<or> r' = kid" "a < USER_SPACE_END" for r' a
    using g that by auto
  have used: "\<not> is_free s (entry_addr e)" "vm_page s1 (entry_addr e) = vm_page s (entry_addr e)"
    if "vmm_get_pte parent a s = Some e" "a < USER_SPACE_END" for a e
    using f(3) p that d(5) [of "entry_addr e"] unfolding frames_ok_def by auto
  have read1: "user_read s1 r' a = user_read s parent a" if "r' = parent \<or> r' = kid" "a < USER_SPACE_END" for r' a
    using pte1 [OF that] used(2) [OF _ that(2)] by (cases "vmm_get_pte parent a s") (simp_all add: user_read_def cow_entry_bits)
  obtain e where e: "vmm_get_pte parent v s = Some e" using v(2) by auto
  have ew: "vmm_get_pte w v s1 = Some (cow_entry e)" using pte1 [OF w v(1)] e by simp
  have wR: "w \<in> insert kid R" "r \<in> insert kid R" using w r p by auto
  show ?thesis
  proof (rule cow_fault_effect [OF f1 d(1) wR(1) v(1) ew cow_entry_bits(3) err h])
    fix new assume n: "is_free s1 new" "entry_addr new = new" "vm_page s2 new = vm_page s1 (entry_addr (cow_entry e))"
      and keep: "\<And>a. a \<noteq> new \<Longrightarrow> (\<And>q. upath q \<Longrightarrow> length q = 3 \<Longrightarrow> path s1 w q \<noteq> Some a) \<Longrightarrow> vm_page s2 a = vm_page s1 a"
      and pte2: "\<And>r' a. r' \<in> insert kid R \<Longrightarrow> a < USER_SPACE_END \<Longrightarrow> vmm_get_pte r' a s2 =
         (if r' = w \<and> page_num a = page_num v then Some (cow_resolved new (cow_entry e)) else vmm_get_pte r' a s1)"
      and path2: "\<And>r' q. r' \<in> insert kid R \<Longrightarrow> upath q \<Longrightarrow> length q \<le> 3 \<Longrightarrow> path s2 r' q = path s1 r' q"
    have s3: "user_write w v x s2 = set_entry new (word_index v) x s2"
      using pte2 [OF wR(1) v(1)] cow_resolved_bits(1) [OF n(2)] by (simp add: user_write_def)
    have no_table: "path s2 r' q \<noteq> Some new" if "r' \<in> insert kid R" "upath q" "length q \<le> 3" for r' q
      using path2 [OF that] forest_used [OF f1 that(1) _ that(2,3)] n(1) by auto
    have pte3: "vmm_get_pte r u (user_write w v x s2) = vmm_get_pte r u s2" unfolding s3 by (rule write_frame [OF no_table wR(2) u])
    show ?thesis
    proof (cases "r = w \<and> page_num u = page_num v")
      case True
      then have "vmm_get_pte parent u s = Some e" using e same_page [OF u v(1)] by (simp add: get_pte_leaf)
      then have "user_read s parent u = Some (vm_page s (entry_addr e) (word_index u))" by (simp add: user_read_def)
      then show ?thesis using True read1 [OF r u] pte3 pte2 [OF wR(2) u] cow_resolved_bits(1) [OF n(2)] n(3) used(2) [OF e v(1)]
        by (simp add: user_read_def [of "set_entry new (word_index v) x s2"] s3 cow_entry_bits)
    next
      case False
      have "user_read (user_write w v x s2) r u = user_read s1 r u"
      proof (cases "vmm_get_pte parent u s")
        case None
        then show ?thesis using pte3 pte2 [OF wR(2) u] pte1 [OF r u] False by (simp add: user_read_def)
      next
        case (Some e')
        have "entry_addr e' \<noteq> new" using used(1) [OF Some u] is_free_mono [OF d(4) n(1)] by auto
        moreover have "path s1 w q \<noteq> Some (entry_addr e')" if q: "upath q" "length q = 3" for q
        proof (cases "w = kid")
          case True then show ?thesis using clone_space_fresh [OF f(1,2) p nh c q(1)] q(2) used(1) [OF Some u] by auto
        next
          case False
          then have "w = parent" using w by simp
          then show ?thesis using clone_space_paths [OF f(1,2) p nh c p q(1)] q f(3) p Some u unfolding frames_ok_def by simp
        qed
        ultimately have "vm_page s2 (entry_addr e') = vm_page s1 (entry_addr e')" by (rule keep)
        then show ?thesis using pte3 pte2 [OF wR(2) u] pte1 [OF r u] False Some \<open>entry_addr e' \<noteq> new\<close>
          by (simp add: user_read_def s3 cow_entry_bits)
      qed
      then show ?thesis using read1 [OF r u] False by auto
    qed
  qed
qed

section \<open>Clones return while memory lasts\<close>

definition returns :: "nat \<Rightarrow> (u64 \<Rightarrow> vmm \<Rightarrow> (vmm \<times> u64) option) \<Rightarrow> bool" where
  "returns b f \<longleftrightarrow> (\<forall>s src. pmm_sane s \<longrightarrow> b \<le> spare s \<longrightarrow>
     (\<exists>s' dst. f src s = Some (s', dst) \<and> pmm_sane s' \<and> spare s \<le> spare s' + b))"

lemma spare_simps [simp]: "spare (set_entry t i w s) = spare s" "spare (ref_page a s) = spare s"
  by (simp_all add: spare_def)

lemma share_leaf_keeps: "pmm_sane (share_leaf src dst m i s) = pmm_sane s \<and> spare (share_leaf src dst m i s) = spare s"
proof -
  have "pmm_sane (fold (\<lambda>p. ref_page (a + of_nat p * 4096)) ps s) = pmm_sane s \<and> spare (fold (\<lambda>p. ref_page (a + of_nat p * 4096)) ps s) = spare s" for a ps
    by (induction ps arbitrary: s) simp_all
  then show ?thesis by (simp add: share_leaf_def Let_def)
qed

lemma alloc_table_returns:
  assumes "pmm_sane s" "0 < spare s"
  obtains s' a where "vmm_alloc_page_table s = Some (s', a)" "pmm_sane s'" "spare s \<le> spare s' + 1"
  using alloc_table_succeeds [OF assms] alloc_table_takes [OF assms(1)] takes_spare
  by (metis Suc_eq_plus1 not_None_eq surj_pair takes_page_def)

lemma returns_pt: "returns 1 clone_pt"
  unfolding returns_def
proof (intro allI impI)
  fix s src assume s: "pmm_sane s" "1 \<le> spare s"
  obtain s1 a where a: "vmm_alloc_page_table s = Some (s1, a)" "pmm_sane s1" "spare s \<le> spare s1 + 1"
    using alloc_table_returns [OF s(1)] s(2) by auto
  have "pmm_sane (fold (clone_pt_entry src a) is s1) = pmm_sane s1 \<and> spare (fold (clone_pt_entry src a) is s1) = spare s1" for "is"
    by (induction "is" arbitrary: s1) (simp_all add: clone_pt_entry_def share_leaf_keeps)
  then show "\<exists>s' dst. clone_pt src s = Some (s', dst) \<and> pmm_sane s' \<and> spare s \<le> spare s' + 1"
    using a by (simp add: clone_pt_def)
qed

lemma clone_entries_returns:
  assumes f: "returns b f" and s: "pmm_sane s" "b * length is \<le> spare s"
  shows "\<exists>s'. clone_entries f huge src dst is s = Some s' \<and> pmm_sane s' \<and> spare s \<le> spare s' + b * length is"
  using s
proof (induction "is" arbitrary: s)
  case (Cons i js)
  show ?case
  proof (cases "present (vm_page s src i)")
    case False
    then show ?thesis using Cons.IH [of "set_entry dst i 0 s"] Cons.prems by auto
  next
    case p: True
    show ?thesis
    proof (cases "huge \<noteq> None \<and> vm_page s src i AND VMM_HUGE \<noteq> 0")
      case True
      then show ?thesis using p Cons.IH [of "share_leaf src dst (the huge) i s"] Cons.prems by (auto simp: share_leaf_keeps)
    next
      case False
      have "b \<le> spare s" using Cons.prems(2) by simp
      then obtain s1 c where c: "f (entry_addr (vm_page s src i)) s = Some (s1, c)" "pmm_sane s1" "spare s \<le> spare s1 + b"
        using f Cons.prems(1) unfolding returns_def by blast
      then show ?thesis using p False
          Cons.IH [of "set_entry dst i (c OR (vm_page s1 src i AND NOT VMM_PTE_ADDR_MASK)) s1"] Cons.prems by auto
    qed
  qed
qed simp

lemma returns_table:
  assumes f: "returns b f"
    and g: "\<And>src s. g src s = (case vmm_alloc_page_table s of None \<Rightarrow> None
        | Some (s, dst) \<Rightarrow> map_option (\<lambda>s. (h s dst, dst)) (clone_entries f huge src dst [0..<m] s))"
    and h: "\<And>s dst. vm_pmm (h s dst) = vm_pmm s"
  shows "returns (1 + b * m) g"
  unfolding returns_def
proof (intro allI impI)
  fix s src assume s: "pmm_sane s" "1 + b * m \<le> spare s"
  obtain s1 a where a: "vmm_alloc_page_table s = Some (s1, a)" "pmm_sane s1" "spare s \<le> spare s1 + 1"
    using alloc_table_returns [OF s(1)] s(2) by auto
  have len: "length [0..<m] = m" by simp
  obtain s2 where "clone_entries f huge src a [0..<m] s1 = Some s2" "pmm_sane s2" "spare s1 \<le> spare s2 + b * m"
    using clone_entries_returns [OF f a(2), of "[0..<m]" huge src a] s(2) a(3) unfolding len by auto
  then show "\<exists>s' dst. g src s = Some (s', dst) \<and> pmm_sane s' \<and> spare s \<le> spare s' + (1 + b * m)"
    using a h by (auto simp: g pmm_sane_def spare_def)
qed

lemma clone_returns: "returns 67240193 vmm_clone_address_space"
proof -
  have "returns (1 + 1 * 512) clone_pd"
    by (rule returns_table [OF returns_pt, where h = "\<lambda>s _. s"]) (simp_all only: clone_pd_def)
  then have "returns (1 + 513 * 512) clone_pdpt"
    by (intro returns_table [where f = clone_pd and h = "\<lambda>s _. s"]) (simp_all only: clone_pdpt_def, simp)
  then have "returns (1 + 262657 * 256) vmm_clone_address_space"
    by (intro returns_table [where f = clone_pdpt and h = "\<lambda>s dst. copy_kernel_half dst s"])
      (simp_all only: vmm_clone_address_space_def copy_kernel, simp)
  then show ?thesis by simp
qed

lemma alloc_filled_returns:
  assumes "pmm_sane s" "0 < spare s"
  shows "snd (alloc_filled pg s) \<noteq> 0"
proof -
  have "free_set (vm_pmm s) - {0} \<noteq> {}" using assms(2) by (auto simp: spare_def card_gt_0_iff)
  from alloc_succeeds [OF _ this] assms(1) show ?thesis by (auto simp: alloc_filled_def pmm_sane_def split: prod.splits)
qed

lemma cow_fault_returns:
  assumes "pmm_sane s" "0 < spare s" "vmm_get_pte r v s = Some e" "e AND VMM_COW \<noteq> 0" "err AND 2 \<noteq> 0"
  shows "\<exists>s'. vmm_handle_page_fault fs cur r v err s = Some (s', True)"
proof -
  obtain t where t: "path s r (table_path v) = Some t" "vm_page s t (table_index 12 v) = e" "present e"
    using assms(3) by (auto simp: get_pte_leaf leaf_def present_def Let_def split: option.splits if_splits)
  show ?thesis using t assms(4,5) alloc_filled_returns [OF assms(1,2), of "vm_page s (entry_addr e)"]
    by (auto simp: vmm_handle_page_fault_def cow_fault_def find_pte_path Let_def split: prod.splits)
qed

text \<open>C30: a page that is mapped read-only is refused to a writer, but after a fork the copy-on-write bit that cloning sets
  on every entry makes the fault handler give the writer a writable copy of it.\<close>

theorem fork_unprotects:
  assumes f: "forest R s" "pmm_sane s" and p: "parent \<in> R" and nh: "user_no_huge parent s"
    and v: "v < USER_SPACE_END" "vmm_get_pte parent v s = Some e" and ro: "e AND VMM_WRITE = 0" "e AND VMM_COW = 0"
    and c: "vmm_clone_address_space parent s = Some (s1, kid)" and mem: "0 < spare s1" and r: "r = parent \<or> r = kid"
  shows "vmm_handle_page_fault fs cur parent v 7 s = Some (s, False) \<and>
    (\<exists>s2 e'. vmm_handle_page_fault fs cur r v 7 s1 = Some (s2, True) \<and> vmm_get_pte r v s2 = Some e' \<and> e' AND VMM_WRITE \<noteq> 0)"
proof -
  have "vmm_handle_page_fault fs cur parent v 7 s = Some (s, False)"
    using v(2) ro by (auto simp: vmm_handle_page_fault_def cow_fault_def vmm_get_pte_def Let_def split: option.splits if_splits)
  moreover have e1: "vmm_get_pte r v s1 = Some (cow_entry e)" using clone_get_pte [OF f p nh c v(1)] v(2) r by auto
  moreover note d = clone_space_data(1) [OF f p nh c] and f1 = clone_space_forest [OF f p nh c]
  obtain s2 where s2: "vmm_handle_page_fault fs cur r v 7 s1 = Some (s2, True)"
    using cow_fault_returns [OF d mem e1 cow_entry_bits(3), of 7] by auto
  have "\<exists>e'. vmm_get_pte r v s2 = Some e' \<and> e' AND VMM_WRITE \<noteq> 0"
  proof (rule cow_fault_effect [OF f1 d _ v(1) e1 cow_entry_bits(3) _ s2])
    show "r \<in> insert kid R" using r p by auto
    fix new assume "\<And>r' u. r' \<in> insert kid R \<Longrightarrow> u < USER_SPACE_END \<Longrightarrow> vmm_get_pte r' u s2 =
       (if r' = r \<and> page_num u = page_num v then Some (cow_resolved new (cow_entry e)) else vmm_get_pte r' u s1)"
    then show ?thesis using v(1) r p cow_resolved_bits(2) by auto
  qed simp
  ultimately show ?thesis using s2 by blast
qed

section \<open>Examples\<close>

definition chunk :: nat where "chunk = 2 ^ 24"

definition pmm_large :: pmm where
  "pmm_large = \<lparr>pm_bitmap = 0x7F # replicate (chunk - 1) 0, pm_refs = replicate 7 1 @ replicate (8 * chunk - 7) 0, pm_pages = 8 * chunk,
     pm_hhdm = 0, pm_free = of_nat (8 * chunk - 7), pm_usable = of_nat (8 * chunk - 7)\<rparr>"

text \<open>One address space with a read-only page at 0 and a writable one at 4096.\<close>

definition vmm_example :: vmm where
  "vmm_example = pagecache_init \<lparr>vm_pmm = pmm_large,
     vm_page = (\<lambda>_ _. 0)(0x1000 := (\<lambda>_. 0)(0 := 0x2007), 0x2000 := (\<lambda>_. 0)(0 := 0x3007), 0x3000 := (\<lambda>_. 0)(0 := 0x4007),
       0x4000 := (\<lambda>_. 0)(0 := 0x5005, 1 := 0x6007), 0x5000 := (\<lambda>i. of_nat i)),
     vm_kernel_pml4 = 0, vm_buckets = [], vm_heap = \<lparr>vn_refs = (\<lambda>_. 1), km_outcomes = []\<rparr>\<rparr>"

lemma pagecache_init_simps [simp]: "vm_page (pagecache_init s) = vm_page s" "vm_pmm (pagecache_init s) = vm_pmm s"
  unfolding pagecache_init_def by (cases s, simp only: vmm.simps)+

lemma pmm_large_facts: "pmm_shape pmm_large" "pm_pages pmm_large \<le> 2 ^ 40" "free_set pmm_large = {7..<8 * chunk}"
proof -
  show "pmm_shape pmm_large" "pm_pages pmm_large \<le> 2 ^ 40" by (simp_all add: pmm_shape_def pmm_large_def chunk_def)
  have "bitmap_test p (pm_bitmap pmm_large) \<longleftrightarrow> p < 7" if "p < 8 * chunk" for p
  proof (cases "p < 8")
    case True
    then have "p = 0 \<or> p = 1 \<or> p = 2 \<or> p = 3 \<or> p = 4 \<or> p = 5 \<or> p = 6 \<or> p = 7" by linarith
    then show ?thesis by (auto simp: bitmap_test_bit pmm_large_def)
  next
    case False
    then have "p div 8 - 1 < chunk - 1" "0 < p div 8" using that by (auto simp: less_mult_imp_div_less)
    then show ?thesis using False by (simp add: bitmap_test_bit pmm_large_def nth_Cons')
  qed
  then show "free_set pmm_large = {7..<8 * chunk}" by (auto simp: free_set_def pmm_large_def)
qed

lemma vmm_example_sane: "pmm_sane vmm_example" "spare vmm_example = 8 * chunk - 7" "is_free vmm_example a \<longleftrightarrow> page_no a \<in> {7..<8 * chunk}"
  using pmm_large_facts by (simp_all add: pmm_sane_def spare_def is_free_def vmm_example_def)

lemma vmm_example_path:
  assumes "length q \<le> 3"
  shows "path vmm_example 0x1000 q = Some t \<longleftrightarrow>
    (q, t) \<in> {([], 0x1000), ([0], 0x2000), ([0, 0], 0x3000), ([0, 0, 0], 0x4000)}"
proof -
  have e: "vm_page vmm_example 0x1000 i = (if i = 0 then 0x2007 else 0)" "vm_page vmm_example 0x2000 i = (if i = 0 then 0x3007 else 0)"
    "vm_page vmm_example 0x3000 i = (if i = 0 then 0x4007 else 0)" for i by (simp_all add: vmm_example_def)
  have a: "present 0x2007" "present 0x3007" "present 0x4007" "entry_addr 0x2007 = 0x2000" "entry_addr 0x3007 = 0x3000" "entry_addr 0x4007 = 0x4000"
    by (simp_all add: present_def entry_addr_def)
  consider "q = []" | i where "q = [i]" | i j where "q = [i, j]" | i j k where "q = [i, j, k]"
    using assms by (cases q; cases "tl q"; cases "tl (tl q)") auto
  then show ?thesis by cases (auto simp: e a)
qed

lemma vmm_example_forest: "forest {0x1000} vmm_example"
proof -
  have nos: "page_no 0x1000 = 1" "page_no 0x2000 = 2" "page_no 0x3000 = 3" "page_no 0x4000 = 4" by (simp_all add: page_no_def)
  show ?thesis unfolding forest_def
  proof (intro conjI ballI allI impI)
    fix r r' p q t assume A: "r \<in> {0x1000}" "r' \<in> {0x1000}" "length p \<le> 3" "length q \<le> 3"
      "path vmm_example r p = Some t" "path vmm_example r' q = Some t"
    then show "r = r'" "p = q" using vmm_example_path [OF A(3), of t] vmm_example_path [OF A(4), of t] by auto
  next
    fix r p t assume A: "r \<in> {0x1000}" "length p \<le> 3" "path vmm_example r p = Some t"
    then show "\<not> is_free vmm_example t" using vmm_example_path [OF A(2), of t] by (auto simp: vmm_example_sane nos)
  qed
qed

lemma vmm_example_leaf: "length q = 3 \<Longrightarrow> leaf vmm_example 0x1000 q j = (if q = [0, 0, 0] then if j = 0 then 0x5005 else if j = 1 then 0x6007 else 0 else 0)"
proof -
  assume q: "length q = 3"
  show ?thesis
  proof (cases "q = [0, 0, 0]")
    case True
    then have "path vmm_example 0x1000 q = Some 0x4000" using vmm_example_path [of q "0x4000"] q by simp
    moreover have "vm_page vmm_example 0x4000 j = (if j = 0 then 0x5005 else if j = 1 then 0x6007 else 0)" by (simp add: vmm_example_def)
    ultimately show ?thesis using True by (simp add: leaf_def)
  next
    case False
    then have "path vmm_example 0x1000 q \<noteq> Some t" for t using vmm_example_path [of q t] q by auto
    then have "path vmm_example 0x1000 q = None" by (cases "path vmm_example 0x1000 q") auto
    then show ?thesis using False by (simp add: leaf_def)
  qed
qed

lemma vmm_example_pte:
  "vmm_get_pte 0x1000 v vmm_example = Some e \<Longrightarrow> e = 0x5005 \<or> e = 0x6007"
  "vmm_get_pte 0x1000 0 vmm_example = Some 0x5005" "vmm_get_pte 0x1000 0x1000 vmm_example = Some 0x6007"
proof -
  have "length (table_path v) = 3" for v by (simp add: table_path_def)
  note l = vmm_example_leaf [OF this]
  show "vmm_get_pte 0x1000 v vmm_example = Some e \<Longrightarrow> e = 0x5005 \<or> e = 0x6007" by (auto simp: get_pte_leaf l Let_def split: if_splits)
  have "table_path 0 = [0, 0, 0]" "table_index 12 0 = 0" "table_path 0x1000 = [0, 0, 0]" "table_index 12 0x1000 = 1"
    by (simp_all add: table_path_def table_index_nat)
  then show "vmm_get_pte 0x1000 0 vmm_example = Some 0x5005" "vmm_get_pte 0x1000 0x1000 vmm_example = Some 0x6007"
    by (simp_all add: get_pte_leaf vmm_example_leaf Let_def present_def)
qed

lemma vmm_example_frames: "frames_ok {0x1000} vmm_example"
proof -
  have "\<not> is_free vmm_example (entry_addr e) \<and> (\<forall>q. length q \<le> 3 \<longrightarrow> path vmm_example 0x1000 q \<noteq> Some (entry_addr e))" if "e = 0x5005 \<or> e = 0x6007" for e
  proof -
    have "entry_addr e = 0x5000 \<or> entry_addr e = 0x6000" using that by (auto simp: entry_addr_def)
    then show ?thesis by (auto simp: vmm_example_sane page_no_def vmm_example_path)
  qed
  then show ?thesis using vmm_example_pte(1) unfolding frames_ok_def by auto
qed

lemma vmm_example_no_huge: "user_no_huge 0x1000 vmm_example"
  unfolding user_no_huge_def
proof (intro allI impI)
  fix q u j assume A: "length q \<le> 2" "path vmm_example 0x1000 q = Some u"
  then have "u = 0x1000 \<or> u = 0x2000 \<or> u = 0x3000" using vmm_example_path [of q u] by auto
  then show "vm_page vmm_example u j AND VMM_HUGE = 0" by (auto simp: vmm_example_def)
qed

lemma vmm_example_clone: "\<exists>s1 kid. vmm_clone_address_space 0x1000 vmm_example = Some (s1, kid) \<and> 0 < spare s1"
proof -
  have lt: "67240193 < spare vmm_example" unfolding vmm_example_sane chunk_def by simp
  moreover from this obtain s1 kid where "vmm_clone_address_space 0x1000 vmm_example = Some (s1, kid)" "spare vmm_example \<le> spare s1 + 67240193"
    using clone_returns vmm_example_sane(1) less_imp_le [OF lt] unfolding returns_def by blast
  ultimately show ?thesis by (intro exI [of _ s1] exI [of _ kid]) simp
qed

theorem vmm_map_refines_witness:
  "\<exists>s'. vmm_map_page_in 0x1000 0x200000 0x7000 3 vmm_example = Some s' \<and> vmm_get_pte 0x1000 0x200000 s' = Some 0x7007 \<and>
     vmm_get_pte 0x1000 0 s' = Some 0x5005 \<and> snd (vmm_unmap_page_in 0x1000 0 vmm_example) = 0x5000"
proof -
  note m = vmm_map_refines [OF vmm_example_forest vmm_example_sane(1), of "0x1000" _ 3 "0x7000"]
  have "\<not> spare vmm_example < 3" unfolding vmm_example_sane chunk_def by simp
  then obtain s' where s': "vmm_map_page_in 0x1000 0x200000 0x7000 3 vmm_example = Some s'"
    using m [of "0x200000"] by (auto simp: present_def)
  have "snd (vmm_unmap_page_in 0x1000 0 vmm_example) = 0x5000"
    using m [of 0] vmm_example_pte(2) by (simp add: present_def entry_addr_def)
  then show ?thesis using s' m [of "0x200000"] vmm_example_pte(2) by (auto simp: present_def page_num_def entry_addr_def)
qed

theorem fork_isolates_witness:
  "\<exists>s1 kid s2. vmm_clone_address_space 0x1000 vmm_example = Some (s1, kid) \<and>
     vmm_handle_page_fault \<lparr>f_size = (\<lambda>_. 0), f_read = (\<lambda>_. None)\<rparr> None kid 8 7 s1 = Some (s2, True) \<and>
     user_read (user_write kid 8 42 s2) kid 8 = Some 42 \<and> user_read (user_write kid 8 42 s2) 0x1000 8 = Some 1"
proof -
  obtain s1 kid where c: "vmm_clone_address_space 0x1000 vmm_example = Some (s1, kid)" "0 < spare s1" using vmm_example_clone by auto
  note ex = vmm_example_forest vmm_example_sane(1)
  have v: "(8 :: u64) < USER_SPACE_END" "vmm_get_pte 0x1000 8 vmm_example = Some 0x5005"
    using vmm_example_pte(2) by (simp_all add: get_pte_leaf table_path_def table_index_nat)
  have e1: "vmm_get_pte kid 8 s1 = Some (cow_entry 0x5005)"
    using clone_get_pte(1) [OF ex _ vmm_example_no_huge c(1) v(1)] v(2) by simp
  let ?fs = "\<lparr>f_size = (\<lambda>_. 0), f_read = (\<lambda>_. None)\<rparr> :: files"
  obtain s2 where s2: "vmm_handle_page_fault ?fs None kid 8 7 s1 = Some (s2, True)"
    using cow_fault_returns [OF clone_space_data(1) [OF ex _ vmm_example_no_huge c(1)] c(2) e1 cow_entry_bits(3), of 7] by auto
  note iso = fork_isolates [OF ex vmm_example_frames _ vmm_example_no_huge c(1) _ v(1) _ _ s2, of _ 8 42]
  have "kid \<noteq> 0x1000"
    using clone_space_data(2) [OF ex _ vmm_example_no_huge c(1)] by (auto simp: vmm_example_sane page_no_def)
  moreover have "user_read vmm_example 0x1000 8 = Some 1"
    using v(2) by (simp add: user_read_def word_index_def entry_addr_def) (simp add: vmm_example_def)
  ultimately show ?thesis using c(1) s2 iso [of kid] iso [of "0x1000"] v by auto
qed

theorem fork_unprotects_witness:
  "\<exists>s1 kid s2 e'. vmm_clone_address_space 0x1000 vmm_example = Some (s1, kid) \<and>
     vmm_handle_page_fault \<lparr>f_size = (\<lambda>_. 0), f_read = (\<lambda>_. None)\<rparr> None kid 0 7 s1 = Some (s2, True) \<and>
     vmm_get_pte kid 0 s2 = Some e' \<and> e' AND VMM_WRITE \<noteq> 0"
proof -
  obtain s1 kid where c: "vmm_clone_address_space 0x1000 vmm_example = Some (s1, kid)" "0 < spare s1" using vmm_example_clone by auto
  from fork_unprotects [OF vmm_example_forest vmm_example_sane(1) _ vmm_example_no_huge _ vmm_example_pte(2) _ _ c, of kid] c(1)
  show ?thesis by auto
qed

end
