(* ===== verification/Bcache.thy ===== *)
theory Bcache
  imports Exo_Prelude
begin

unbundle bit_operations_syntax

text \<open>
  Block devices and partitions (\<^verbatim>\<open>drivers/storage/blkdev.c\<close>) and the buffer cache
  (\<^verbatim>\<open>fs/bcache.c\<close>).  The drivers' operations are the argument \<open>dv\<close>, functions on a state of
  all drives of type \<open>'d\<close>.  A partition holds the operations of its parent by value: they never change
  after registration.  The cache's intrusive lists are HOL lists of buffer numbers.
\<close>

section \<open>Devices\<close>

abbreviation BLKDEV_MAX :: nat where "BLKDEV_MAX \<equiv> 32"
abbreviation BCACHE_NUM_BUFS :: nat where "BCACHE_NUM_BUFS \<equiv> 512"
abbreviation BCACHE_HASH_BUCKETS :: nat where "BCACHE_HASH_BUCKETS \<equiv> 256"

record 'd driver =
  dv_read :: "nat \<Rightarrow> u64 \<Rightarrow> u32 \<Rightarrow> 'd \<Rightarrow> u8 list option"
  dv_write :: "nat \<Rightarrow> u64 \<Rightarrow> u32 \<Rightarrow> u8 list \<Rightarrow> 'd \<Rightarrow> 'd \<times> bool"
  dv_block_count :: "nat \<Rightarrow> u64"
  dv_block_size :: "nat \<Rightarrow> u32"
  dv_flush :: "nat \<Rightarrow> 'd \<Rightarrow> 'd \<times> bool"

datatype blk_ops = Drive nat | Partition (part_parent: blk_ops) (parent_block_size: u32) (lba_start: u64) (lba_end: u64)

record blkdev =
  bd_name :: string
  bd_dev_id :: u64
  bd_ops :: blk_ops
  bd_block_count :: u64
  bd_block_size :: u32
  bd_part_offset :: u64

record blk_registry =
  br_devs :: "blkdev list"
  br_next_id :: u64

definition part_range_ok :: "u64 \<Rightarrow> u32 \<Rightarrow> u64 \<Rightarrow> bool" where
  "part_range_ok abs_lba count e \<longleftrightarrow> \<not> abs_lba + ucast count - 1 > e"

fun blkdev_read :: "'d driver \<Rightarrow> blk_ops \<Rightarrow> u64 \<Rightarrow> u32 \<Rightarrow> 'd \<Rightarrow> u8 list option" where
  "blkdev_read dv (Drive n) lba count d = dv_read dv n lba count d"
| "blkdev_read dv (Partition parent bs s e) lba count d =
     (if part_range_ok (s + lba) count e then blkdev_read dv parent (s + lba) count d else None)"

fun blkdev_write :: "'d driver \<Rightarrow> blk_ops \<Rightarrow> u64 \<Rightarrow> u32 \<Rightarrow> u8 list \<Rightarrow> 'd \<Rightarrow> 'd \<times> bool" where
  "blkdev_write dv (Drive n) lba count buf d = dv_write dv n lba count buf d"
| "blkdev_write dv (Partition parent bs s e) lba count buf d =
     (if part_range_ok (s + lba) count e then blkdev_write dv parent (s + lba) count buf d else (d, False))"

fun blkdev_flush :: "'d driver \<Rightarrow> blk_ops \<Rightarrow> 'd \<Rightarrow> 'd \<times> bool" where
  "blkdev_flush dv (Drive n) d = dv_flush dv n d"
| "blkdev_flush dv (Partition parent bs s e) d = blkdev_flush dv parent d"

fun get_block_count :: "'d driver \<Rightarrow> blk_ops \<Rightarrow> u64" where
  "get_block_count dv (Drive n) = dv_block_count dv n"
| "get_block_count dv (Partition parent bs s e) = e - s + 1"

fun get_block_size :: "'d driver \<Rightarrow> blk_ops \<Rightarrow> u32" where
  "get_block_size dv (Drive n) = dv_block_size dv n"
| "get_block_size dv (Partition parent bs s e) = bs"

definition blkdev_register :: "'d driver \<Rightarrow> blkdev \<Rightarrow> blk_registry \<Rightarrow> blk_registry \<times> blkdev \<times> int" where
  "blkdev_register dv dev g =
     (if length (br_devs g) \<ge> BLKDEV_MAX then (g, dev, - 1)
      else
        let dev = dev\<lparr>bd_dev_id := br_next_id g, bd_block_size := get_block_size dv (bd_ops dev),
                      bd_block_count := get_block_count dv (bd_ops dev)\<rparr>
        in (g\<lparr>br_devs := br_devs g @ [dev], br_next_id := br_next_id g + 1\<rparr>, dev, 0))"

definition blkdev_get :: "u64 \<Rightarrow> blk_registry \<Rightarrow> blkdev option" where
  "blkdev_get i g = find (\<lambda>d. bd_dev_id d = i) (br_devs g)"

definition blkdev_find_by_name :: "string \<Rightarrow> blk_registry \<Rightarrow> blkdev option" where
  "blkdev_find_by_name nm g = find (\<lambda>d. bd_name d = nm) (br_devs g)"

definition blkdev_get_nth :: "int \<Rightarrow> blk_registry \<Rightarrow> blkdev option" where
  "blkdev_get_nth n g = (if n < 0 \<or> n \<ge> int (length (br_devs g)) then None else Some (br_devs g ! nat n))"

definition blkdev_partition_create ::
    "'d driver \<Rightarrow> bool \<Rightarrow> blkdev \<Rightarrow> string \<Rightarrow> u64 \<Rightarrow> u64 \<Rightarrow> blk_registry \<Rightarrow> blk_registry \<times> blkdev option" where
  "blkdev_partition_create dv mem_ok parent nm s e g =
     (if \<not> mem_ok then (g, None)
      else
        let (g, dev, r) = blkdev_register dv \<lparr>bd_name = take 31 nm, bd_dev_id = 0,
               bd_ops = Partition (bd_ops parent) (bd_block_size parent) s e,
               bd_block_count = 0, bd_block_size = 0, bd_part_offset = s\<rparr> g
        in if r < 0 then (g, None) else (g, Some dev))"

section \<open>The buffer cache\<close>

record bcache_buf =
  bb_dev_id :: u64
  bb_lba :: u64
  bb_data :: "u8 list"
  bb_dirty :: bool
  bb_valid :: bool
  bb_refcount :: u32

record 'd bcache =
  bc_pool :: "nat \<Rightarrow> bcache_buf"
  bc_hash :: "nat \<Rightarrow> nat list"
  bc_lru :: "nat list"
  bc_disk :: 'd
  bc_hits :: u64
  bc_misses :: u64
  bc_evicts :: u64
  bc_writebacks :: u64

definition upd_buf :: "nat \<Rightarrow> (bcache_buf \<Rightarrow> bcache_buf) \<Rightarrow> 'd bcache \<Rightarrow> 'd bcache" where
  "upd_buf b f s = s\<lparr>bc_pool := (bc_pool s)(b := f (bc_pool s b))\<rparr>"

definition hash_key :: "u64 \<Rightarrow> u64 \<Rightarrow> nat" where
  "hash_key dev lba = unat (ucast ((dev * 2654435761) XOR (lba * 2246822519)) AND (of_nat BCACHE_HASH_BUCKETS - 1 :: u32))"

definition lru_remove :: "nat \<Rightarrow> 'd bcache \<Rightarrow> 'd bcache" where
  "lru_remove b s = s\<lparr>bc_lru := remove1 b (bc_lru s)\<rparr>"

definition lru_push_front :: "nat \<Rightarrow> 'd bcache \<Rightarrow> 'd bcache" where
  "lru_push_front b s = s\<lparr>bc_lru := b # bc_lru s\<rparr>"

definition hash_remove :: "nat \<Rightarrow> 'd bcache \<Rightarrow> 'd bcache" where
  "hash_remove b s =
     (let x = bc_pool s b; h = hash_key (bb_dev_id x) (bb_lba x)
      in if \<not> bb_valid x then s else s\<lparr>bc_hash := (bc_hash s)(h := remove1 b (bc_hash s h))\<rparr>)"

definition hash_insert :: "nat \<Rightarrow> 'd bcache \<Rightarrow> 'd bcache" where
  "hash_insert b s =
     (let x = bc_pool s b; h = hash_key (bb_dev_id x) (bb_lba x)
      in s\<lparr>bc_hash := (bc_hash s)(h := b # bc_hash s h)\<rparr>)"

definition writeback :: "'d driver \<Rightarrow> blk_registry \<Rightarrow> nat \<Rightarrow> 'd bcache \<Rightarrow> 'd bcache" where
  "writeback dv g b s =
     (let x = bc_pool s b in
      case blkdev_get (bb_dev_id x) g of
        None \<Rightarrow> upd_buf b (\<lambda>x. x\<lparr>bb_dirty := False\<rparr>) s
      | Some dev \<Rightarrow>
          let (d, ok) = blkdev_write dv (bd_ops dev) (bb_lba x) 1 (bb_data x) (bc_disk s);
              s = s\<lparr>bc_disk := d\<rparr>;
              s = (if ok then upd_buf b (\<lambda>x. x\<lparr>bb_dirty := False\<rparr>) s else s)
          in s\<lparr>bc_writebacks := bc_writebacks s + 1\<rparr>)"

text \<open>The victim is the first unpinned buffer from the tail.\<close>

definition lru_victim :: "'d bcache \<Rightarrow> nat option" where
  "lru_victim s = find (\<lambda>b. bb_refcount (bc_pool s b) = 0) (rev (bc_lru s))"

definition evict_one :: "'d driver \<Rightarrow> blk_registry \<Rightarrow> 'd bcache \<Rightarrow> 'd bcache \<times> nat option" where
  "evict_one dv g s =
     (case lru_victim s of
        None \<Rightarrow> (s, None)
      | Some b \<Rightarrow>
          let s = (if bb_dirty (bc_pool s b) then writeback dv g b s else s);
              s = lru_remove b (hash_remove b s);
              s = s\<lparr>bc_evicts := bc_evicts s + 1\<rparr>
          in (upd_buf b (\<lambda>x. x\<lparr>bb_valid := False, bb_dirty := False, bb_dev_id := 0, bb_lba := 0\<rparr>) s, Some b))"

definition bcache_init :: "'d \<Rightarrow> 'd bcache" where
  "bcache_init d =
     (let zero = \<lparr>bb_dev_id = 0, bb_lba = 0, bb_data = replicate 512 0, bb_dirty = False, bb_valid = False, bb_refcount = 0\<rparr>
      in fold lru_push_front [0..<BCACHE_NUM_BUFS]
           \<lparr>bc_pool = (\<lambda>_. zero), bc_hash = (\<lambda>_. []), bc_lru = [], bc_disk = d,
            bc_hits = 0, bc_misses = 0, bc_evicts = 0, bc_writebacks = 0\<rparr>)"

definition buf_is :: "u64 \<Rightarrow> u64 \<Rightarrow> bcache_buf \<Rightarrow> bool" where
  "buf_is dev lba x \<longleftrightarrow> bb_dev_id x = dev \<and> bb_lba x = lba \<and> bb_valid x"

definition bcache_get :: "'d driver \<Rightarrow> blk_registry \<Rightarrow> blkdev \<Rightarrow> u64 \<Rightarrow> 'd bcache \<Rightarrow> 'd bcache \<times> nat option" where
  "bcache_get dv g dev lba s =
     (case find (\<lambda>b. buf_is (bd_dev_id dev) lba (bc_pool s b)) (bc_hash s (hash_key (bd_dev_id dev) lba)) of
        Some b \<Rightarrow>
          (let s = upd_buf b (\<lambda>x. x\<lparr>bb_refcount := bb_refcount x + 1\<rparr>) s;
               s = lru_push_front b (lru_remove b s)
           in (s\<lparr>bc_hits := bc_hits s + 1\<rparr>, Some b))
      | None \<Rightarrow>
          let (s, v) = evict_one dv g (s\<lparr>bc_misses := bc_misses s + 1\<rparr>) in
          case v of
            None \<Rightarrow> (s, None)
          | Some b \<Rightarrow>
              (case blkdev_read dv (bd_ops dev) lba 1 (bc_disk s) of
                 None \<Rightarrow> (lru_push_front b s, None)
               | Some dat \<Rightarrow>
                   let s = upd_buf b (\<lambda>x. x\<lparr>bb_data := dat, bb_dev_id := bd_dev_id dev, bb_lba := lba, bb_valid := True,
                                            bb_dirty := False, bb_refcount := 1\<rparr>) s
                   in (lru_push_front b (hash_insert b s), Some b)))"

definition bcache_mark_dirty :: "nat \<Rightarrow> 'd bcache \<Rightarrow> 'd bcache" where
  "bcache_mark_dirty b s = upd_buf b (\<lambda>x. x\<lparr>bb_dirty := True\<rparr>) s"

definition bcache_release :: "'d driver \<Rightarrow> blk_registry \<Rightarrow> nat \<Rightarrow> 'd bcache \<Rightarrow> 'd bcache" where
  "bcache_release dv g b s =
     (let s = (if bb_refcount (bc_pool s b) > 0 then upd_buf b (\<lambda>x. x\<lparr>bb_refcount := bb_refcount x - 1\<rparr>) s else s)
      in if bb_refcount (bc_pool s b) = 0 \<and> bb_dirty (bc_pool s b) then writeback dv g b s else s)"

definition flush_where :: "'d driver \<Rightarrow> blk_registry \<Rightarrow> (bcache_buf \<Rightarrow> bool) \<Rightarrow> 'd bcache \<Rightarrow> 'd bcache" where
  "flush_where dv g P s =
     fold (\<lambda>b s. let x = bc_pool s b in if bb_valid x \<and> bb_dirty x \<and> P x then writeback dv g b s else s) [0..<BCACHE_NUM_BUFS] s"

definition bcache_flush_dev :: "'d driver \<Rightarrow> blk_registry \<Rightarrow> blkdev \<Rightarrow> 'd bcache \<Rightarrow> 'd bcache" where
  "bcache_flush_dev dv g dev s =
     (let s = flush_where dv g (\<lambda>x. bb_dev_id x = bd_dev_id dev) s
      in s\<lparr>bc_disk := fst (blkdev_flush dv (bd_ops dev) (bc_disk s))\<rparr>)"

definition bcache_sync_all :: "'d driver \<Rightarrow> blk_registry \<Rightarrow> 'd bcache \<Rightarrow> 'd bcache" where
  "bcache_sync_all dv g s = flush_where dv g (\<lambda>_. True) s"

definition invalidate_buf :: "'d driver \<Rightarrow> blk_registry \<Rightarrow> u64 \<Rightarrow> nat \<Rightarrow> 'd bcache \<Rightarrow> 'd bcache" where
  "invalidate_buf dv g i b s =
     (let x = bc_pool s b in
      if bb_valid x \<and> bb_dev_id x = i then
        let s = (if bb_dirty x then writeback dv g b s else s);
            s = lru_remove b (hash_remove b s);
            s = upd_buf b (\<lambda>x. x\<lparr>bb_valid := False, bb_dirty := False, bb_refcount := 0\<rparr>) s
        in lru_push_front b s
      else s)"

definition bcache_invalidate_dev :: "'d driver \<Rightarrow> blk_registry \<Rightarrow> blkdev \<Rightarrow> 'd bcache \<Rightarrow> 'd bcache" where
  "bcache_invalidate_dev dv g dev s = fold (invalidate_buf dv g (bd_dev_id dev)) [0..<BCACHE_NUM_BUFS] s"

end
