(* ===== verification/Bcache_Refine.thy ===== *)
theory Bcache_Refine
  imports Bcache
begin

unbundle bit_operations_syntax

text \<open>
  The buffer cache refines an array of sectors: the invariant \<open>cache_ok\<close> that ties the pool, the hash chains and
  the LRU list to that array, its preservation by every operation, and the bounds of partitions.
\<close>

section \<open>Sectors\<close>

text \<open>The drive and the sector a one-sector access of a device goes to.\<close>

fun sector :: "blk_ops \<Rightarrow> u64 \<Rightarrow> (nat \<times> u64) option" where
  "sector (Drive n) lba = Some (n, lba)"
| "sector (Partition parent bs s e) lba = (if part_range_ok (s + lba) 1 e then sector parent (s + lba) else None)"

text \<open>What the drives promise, for an abstraction \<open>c\<close> of their state to sectors: reads that succeed return the
  sector, writes of a sector succeed and change that sector only, and flushing changes no sector.\<close>

definition drives_ok :: "'d driver \<Rightarrow> ('d \<Rightarrow> nat \<Rightarrow> u64 \<Rightarrow> u8 list) \<Rightarrow> bool" where
  "drives_ok dv c \<longleftrightarrow> (\<forall>n lba d. dv_read dv n lba 1 d = None \<or> dv_read dv n lba 1 d = Some (c d n lba)) \<and>
     (\<forall>n lba b d. snd (dv_write dv n lba 1 b d) \<and> c (fst (dv_write dv n lba 1 b d)) = (c d)(n := (c d n)(lba := b))) \<and>
     (\<forall>n d. c (fst (dv_flush dv n d)) = c d)"

definition dev_sector :: "('d \<Rightarrow> nat \<Rightarrow> u64 \<Rightarrow> u8 list) \<Rightarrow> 'd \<Rightarrow> blkdev \<Rightarrow> u64 \<Rightarrow> u8 list option" where
  "dev_sector c d dev lba = map_option (\<lambda>(n, a). c d n a) (sector (bd_ops dev) lba)"

lemma read_sector:
  assumes "drives_ok dv c" "blkdev_read dv ops lba 1 d = Some x"
  shows "\<exists>n a. sector ops lba = Some (n, a) \<and> x = c d n a"
  using assms(2)
proof (induction ops arbitrary: lba)
  case (Drive n) then show ?case using assms(1) unfolding drives_ok_def by (metis blkdev_read.simps(1) option.distinct(1) option.inject sector.simps(1))
next
  case (Partition parent bs s e) then show ?case by (simp split: if_splits)
qed

lemma write_sector:
  assumes "drives_ok dv c" "sector ops lba = Some (n, a)"
  shows "snd (blkdev_write dv ops lba 1 b d)" "c (fst (blkdev_write dv ops lba 1 b d)) = (c d)(n := (c d n)(a := b))"
  using assms(2)
proof (induction ops arbitrary: lba)
  case (Drive m)
  { case 1 then show ?case using assms(1) by (simp add: drives_ok_def) }
  { case 2 then show ?case using assms(1) by (auto simp: drives_ok_def fun_upd_def) }
next
  case (Partition parent bs s e)
  { case 1 then show ?case using Partition(1) by (simp split: if_splits) }
  { case 2 then show ?case using Partition(2) by (simp split: if_splits) }
qed

lemma flush_sector: "drives_ok dv c \<Longrightarrow> c (fst (blkdev_flush dv ops d)) = c d"
  by (induction ops) (simp_all add: drives_ok_def)

text \<open>The devices \<open>D\<close> whose sectors are cached are registered and do not overlap.\<close>

definition separate :: "blkdev set \<Rightarrow> blk_registry \<Rightarrow> bool" where
  "separate D g \<longleftrightarrow> (\<forall>dev \<in> D. blkdev_get (bd_dev_id dev) g = Some dev) \<and>
     (\<forall>dev \<in> D. \<forall>dev' \<in> D. \<forall>lba lba' x. sector (bd_ops dev) lba = Some x \<longrightarrow> sector (bd_ops dev') lba' = Some x \<longrightarrow> dev = dev' \<and> lba = lba')"

lemma separate_id: "separate D g \<Longrightarrow> dev \<in> D \<Longrightarrow> dev' \<in> D \<Longrightarrow> bd_dev_id dev = bd_dev_id dev' \<Longrightarrow> dev = dev'"
  unfolding separate_def by (metis option.inject)

section \<open>The cache as an array of sectors\<close>

text \<open>\<open>A\<close> is the abstract array: what a client last stored in each sector of each device.\<close>

definition cache_ok :: "blkdev set \<Rightarrow> ('d \<Rightarrow> nat \<Rightarrow> u64 \<Rightarrow> u8 list) \<Rightarrow> (blkdev \<Rightarrow> u64 \<Rightarrow> u8 list option) \<Rightarrow> 'd bcache \<Rightarrow> bool" where
  "cache_ok D c A s \<longleftrightarrow>
     distinct (bc_lru s) \<and> set (bc_lru s) = {..<BCACHE_NUM_BUFS} \<and>
     (\<forall>h. distinct (bc_hash s h) \<and> set (bc_hash s h) =
        {b. b < BCACHE_NUM_BUFS \<and> bb_valid (bc_pool s b) \<and> hash_key (bb_dev_id (bc_pool s b)) (bb_lba (bc_pool s b)) = h}) \<and>
     (\<forall>b < BCACHE_NUM_BUFS. bb_valid (bc_pool s b) \<longrightarrow>
        (\<exists>dev \<in> D. bb_dev_id (bc_pool s b) = bd_dev_id dev \<and> A dev (bb_lba (bc_pool s b)) = Some (bb_data (bc_pool s b)) \<and>
           sector (bd_ops dev) (bb_lba (bc_pool s b)) \<noteq> None \<and>
           (\<not> bb_dirty (bc_pool s b) \<longrightarrow> dev_sector c (bc_disk s) dev (bb_lba (bc_pool s b)) = Some (bb_data (bc_pool s b))))) \<and>
     (\<forall>b < BCACHE_NUM_BUFS. \<forall>b' < BCACHE_NUM_BUFS. bb_valid (bc_pool s b) \<longrightarrow> bb_valid (bc_pool s b') \<longrightarrow>
        bb_dev_id (bc_pool s b) = bb_dev_id (bc_pool s b') \<longrightarrow> bb_lba (bc_pool s b) = bb_lba (bc_pool s b') \<longrightarrow> b = b') \<and>
     (\<forall>dev \<in> D. \<forall>lba. (\<forall>b < BCACHE_NUM_BUFS. \<not> buf_is (bd_dev_id dev) lba (bc_pool s b)) \<longrightarrow> A dev lba = dev_sector c (bc_disk s) dev lba) \<and>
     (\<forall>b < BCACHE_NUM_BUFS. bb_dirty (bc_pool s b) \<longrightarrow> bb_valid (bc_pool s b))"

lemma cache_okD:
  assumes "cache_ok D c A s"
  shows "distinct (bc_lru s)" "set (bc_lru s) = {..<BCACHE_NUM_BUFS}" "distinct (bc_hash s h)"
    and "set (bc_hash s h) = {b. b < BCACHE_NUM_BUFS \<and> bb_valid (bc_pool s b) \<and> hash_key (bb_dev_id (bc_pool s b)) (bb_lba (bc_pool s b)) = h}"
    and "b < BCACHE_NUM_BUFS \<Longrightarrow> bb_valid (bc_pool s b) \<Longrightarrow>
      \<exists>dev \<in> D. bb_dev_id (bc_pool s b) = bd_dev_id dev \<and> A dev (bb_lba (bc_pool s b)) = Some (bb_data (bc_pool s b)) \<and>
           sector (bd_ops dev) (bb_lba (bc_pool s b)) \<noteq> None \<and>
           (\<not> bb_dirty (bc_pool s b) \<longrightarrow> dev_sector c (bc_disk s) dev (bb_lba (bc_pool s b)) = Some (bb_data (bc_pool s b)))"
    and "b < BCACHE_NUM_BUFS \<Longrightarrow> b' < BCACHE_NUM_BUFS \<Longrightarrow> bb_valid (bc_pool s b) \<Longrightarrow> bb_valid (bc_pool s b') \<Longrightarrow>
      bb_dev_id (bc_pool s b) = bb_dev_id (bc_pool s b') \<Longrightarrow> bb_lba (bc_pool s b) = bb_lba (bc_pool s b') \<Longrightarrow> b = b'"
    and "dev \<in> D \<Longrightarrow> (\<And>b. b < BCACHE_NUM_BUFS \<Longrightarrow> \<not> buf_is (bd_dev_id dev) lba (bc_pool s b)) \<Longrightarrow> A dev lba = dev_sector c (bc_disk s) dev lba"
    and "b < BCACHE_NUM_BUFS \<Longrightarrow> bb_dirty (bc_pool s b) \<Longrightarrow> bb_valid (bc_pool s b)"
  using assms unfolding cache_ok_def by blast+

lemma upd_buf_simps [simp]:
  "bc_pool (upd_buf b f s) = (bc_pool s)(b := f (bc_pool s b))" "bc_hash (upd_buf b f s) = bc_hash s"
  "bc_lru (upd_buf b f s) = bc_lru s" "bc_disk (upd_buf b f s) = bc_disk s"
  by (simp_all add: upd_buf_def)

text \<open>A write-back of a valid buffer cleans it and leaves the array alone.\<close>

lemma writeback_effect:
  assumes dv: "drives_ok dv c" and sep: "separate D g" and ok: "cache_ok D c A s" and b: "b < BCACHE_NUM_BUFS" "bb_valid (bc_pool s b)"
  shows "bc_pool (writeback dv g b s) = (bc_pool s)(b := (bc_pool s b)\<lparr>bb_dirty := False\<rparr>)"
    "bc_hash (writeback dv g b s) = bc_hash s" "bc_lru (writeback dv g b s) = bc_lru s" "cache_ok D c A (writeback dv g b s)"
proof -
  let ?x = "bc_pool s b" and ?s' = "writeback dv g b s"
  obtain dev where dev: "dev \<in> D" "bb_dev_id ?x = bd_dev_id dev" "A dev (bb_lba ?x) = Some (bb_data ?x)" "sector (bd_ops dev) (bb_lba ?x) \<noteq> None"
    using cache_okD(5) [OF ok b] by auto
  obtain n a where na: "sector (bd_ops dev) (bb_lba ?x) = Some (n, a)" using dev(4) by auto
  have get: "blkdev_get (bb_dev_id ?x) g = Some dev" using sep dev unfolding separate_def by metis
  note w = write_sector [OF dv na, of "bb_data ?x" "bc_disk s"]
  show pool: "bc_pool ?s' = (bc_pool s)(b := ?x\<lparr>bb_dirty := False\<rparr>)" and hash: "bc_hash ?s' = bc_hash s" and lru: "bc_lru ?s' = bc_lru s"
    using w(1) by (simp_all add: writeback_def get Let_def split_def)
  have disk: "c (bc_disk ?s') = (c (bc_disk s))(n := (c (bc_disk s) n)(a := bb_data ?x))"
    using w by (simp add: writeback_def get Let_def split_def)
  have same: "dev_sector c (bc_disk ?s') dev (bb_lba ?x) = Some (bb_data ?x)" by (simp add: dev_sector_def na disk)
  have other: "dev_sector c (bc_disk ?s') e lba = dev_sector c (bc_disk s) e lba" if "e \<in> D" "\<not> (e = dev \<and> lba = bb_lba ?x)" for e lba
  proof -
    have "sector (bd_ops e) lba \<noteq> Some (n, a)" using sep that dev(1) na unfolding separate_def by blast
    then show ?thesis by (cases "sector (bd_ops e) lba") (auto simp: dev_sector_def disk fun_upd_def split: if_splits)
  qed
  have fld: "bb_valid (bc_pool ?s' x) = bb_valid (bc_pool s x)" "bb_dev_id (bc_pool ?s' x) = bb_dev_id (bc_pool s x)"
    "bb_lba (bc_pool ?s' x) = bb_lba (bc_pool s x)" "bb_data (bc_pool ?s' x) = bb_data (bc_pool s x)"
    "bb_dirty (bc_pool ?s' x) \<longleftrightarrow> bb_dirty (bc_pool s x) \<and> x \<noteq> b" "buf_is i l (bc_pool ?s' x) = buf_is i l (bc_pool s x)" for x i l
    by (simp_all add: pool buf_is_def)
  have bufs: "\<exists>e \<in> D. bb_dev_id (bc_pool s x) = bd_dev_id e \<and> A e (bb_lba (bc_pool s x)) = Some (bb_data (bc_pool s x)) \<and>
      sector (bd_ops e) (bb_lba (bc_pool s x)) \<noteq> None \<and>
      (\<not> (bb_dirty (bc_pool s x) \<and> x \<noteq> b) \<longrightarrow> dev_sector c (bc_disk ?s') e (bb_lba (bc_pool s x)) = Some (bb_data (bc_pool s x)))"
    if x: "x < BCACHE_NUM_BUFS" "bb_valid (bc_pool s x)" for x
  proof (cases "x = b")
    case True then show ?thesis using dev same by auto
  next
    case False
    obtain e where e: "e \<in> D" "bb_dev_id (bc_pool s x) = bd_dev_id e" "A e (bb_lba (bc_pool s x)) = Some (bb_data (bc_pool s x))"
      "sector (bd_ops e) (bb_lba (bc_pool s x)) \<noteq> None"
      "\<not> bb_dirty (bc_pool s x) \<longrightarrow> dev_sector c (bc_disk s) e (bb_lba (bc_pool s x)) = Some (bb_data (bc_pool s x))"
      using cache_okD(5) [OF ok x] by auto
    have "\<not> (e = dev \<and> bb_lba (bc_pool s x) = bb_lba ?x)" using cache_okD(6) [OF ok x(1) b(1) x(2) b(2)] e(2) dev(2) False by auto
    then show ?thesis using e other [OF e(1)] False by auto
  qed
  have free: "A e lba = dev_sector c (bc_disk ?s') e lba" if "e \<in> D" "\<forall>x < BCACHE_NUM_BUFS. \<not> buf_is (bd_dev_id e) lba (bc_pool s x)" for e lba
  proof -
    have "\<not> (e = dev \<and> lba = bb_lba ?x)" using that(2) b dev(2) by (auto simp: buf_is_def)
    then show ?thesis using cache_okD(7) [OF ok that(1), of lba] that(2) other [OF that(1)] by simp
  qed
  show "cache_ok D c A ?s'" unfolding cache_ok_def fld hash lru
    using cache_okD(1,2,3,4) [OF ok] cache_okD(6,8) [OF ok] bufs free by blast
qed

lemma cache_okI:
  assumes "distinct (bc_lru s)" "set (bc_lru s) = {..<BCACHE_NUM_BUFS}" "\<And>h. distinct (bc_hash s h)"
    and "\<And>h. set (bc_hash s h) = {b. b < BCACHE_NUM_BUFS \<and> bb_valid (bc_pool s b) \<and> hash_key (bb_dev_id (bc_pool s b)) (bb_lba (bc_pool s b)) = h}"
    and "\<And>b. b < BCACHE_NUM_BUFS \<Longrightarrow> bb_valid (bc_pool s b) \<Longrightarrow>
      \<exists>dev \<in> D. bb_dev_id (bc_pool s b) = bd_dev_id dev \<and> A dev (bb_lba (bc_pool s b)) = Some (bb_data (bc_pool s b)) \<and>
           sector (bd_ops dev) (bb_lba (bc_pool s b)) \<noteq> None \<and>
           (\<not> bb_dirty (bc_pool s b) \<longrightarrow> dev_sector c (bc_disk s) dev (bb_lba (bc_pool s b)) = Some (bb_data (bc_pool s b)))"
    and "\<And>b b'. b < BCACHE_NUM_BUFS \<Longrightarrow> b' < BCACHE_NUM_BUFS \<Longrightarrow> bb_valid (bc_pool s b) \<Longrightarrow> bb_valid (bc_pool s b') \<Longrightarrow>
      bb_dev_id (bc_pool s b) = bb_dev_id (bc_pool s b') \<Longrightarrow> bb_lba (bc_pool s b) = bb_lba (bc_pool s b') \<Longrightarrow> b = b'"
    and "\<And>dev lba. dev \<in> D \<Longrightarrow> \<forall>b < BCACHE_NUM_BUFS. \<not> buf_is (bd_dev_id dev) lba (bc_pool s b) \<Longrightarrow> A dev lba = dev_sector c (bc_disk s) dev lba"
    and "\<And>b. b < BCACHE_NUM_BUFS \<Longrightarrow> bb_dirty (bc_pool s b) \<Longrightarrow> bb_valid (bc_pool s b)"
  shows "cache_ok D c A s"
  using assms unfolding cache_ok_def by blast

lemma list_ops_simps [simp]:
  "bc_pool (lru_remove b s) = bc_pool s" "bc_hash (lru_remove b s) = bc_hash s" "bc_disk (lru_remove b s) = bc_disk s"
  "bc_lru (lru_remove b s) = remove1 b (bc_lru s)"
  "bc_pool (lru_push_front b s) = bc_pool s" "bc_hash (lru_push_front b s) = bc_hash s" "bc_disk (lru_push_front b s) = bc_disk s"
  "bc_lru (lru_push_front b s) = b # bc_lru s"
  "bc_pool (hash_remove b s) = bc_pool s" "bc_lru (hash_remove b s) = bc_lru s" "bc_disk (hash_remove b s) = bc_disk s"
  "bc_pool (hash_insert b s) = bc_pool s" "bc_lru (hash_insert b s) = bc_lru s" "bc_disk (hash_insert b s) = bc_disk s"
  by (simp_all add: lru_remove_def lru_push_front_def hash_remove_def hash_insert_def Let_def)

lemma hash_remove_set:
  assumes ok: "cache_ok D c A s" and b: "b < BCACHE_NUM_BUFS"
  shows "distinct (bc_hash (hash_remove b s) h)"
    "set (bc_hash (hash_remove b s) h) = {x. x \<noteq> b \<and> x < BCACHE_NUM_BUFS \<and> bb_valid (bc_pool s x) \<and> hash_key (bb_dev_id (bc_pool s x)) (bb_lba (bc_pool s x)) = h}"
  using cache_okD(3,4) [OF ok, of h] cache_okD(3,4) [OF ok, of "hash_key (bb_dev_id (bc_pool s b)) (bb_lba (bc_pool s b))"] b
  by (auto simp: hash_remove_def Let_def)

text \<open>A clean buffer can be taken out of the cache.\<close>

lemma drop_buf:
  assumes sep: "separate D g" and ok: "cache_ok D c A s" and b: "b < BCACHE_NUM_BUFS" "\<not> (bb_valid (bc_pool s b) \<and> bb_dirty (bc_pool s b))" and f: "\<And>x. \<not> bb_valid (f x) \<and> \<not> bb_dirty (f x)"
  shows "cache_ok D c A (lru_push_front b (upd_buf b f (lru_remove b (hash_remove b s))))" (is "cache_ok _ _ _ ?s'")
proof (rule cache_okI)
  show "distinct (bc_lru ?s')" "set (bc_lru ?s') = {..<BCACHE_NUM_BUFS}" using cache_okD(1,2) [OF ok] b by auto
  show "distinct (bc_hash ?s' h)" "set (bc_hash ?s' h) = {x. x < BCACHE_NUM_BUFS \<and> bb_valid (bc_pool ?s' x) \<and> hash_key (bb_dev_id (bc_pool ?s' x)) (bb_lba (bc_pool ?s' x)) = h}" for h
    using hash_remove_set [OF ok b(1), of h] f by auto
  show "\<exists>dev \<in> D. bb_dev_id (bc_pool ?s' x) = bd_dev_id dev \<and> A dev (bb_lba (bc_pool ?s' x)) = Some (bb_data (bc_pool ?s' x)) \<and>
           sector (bd_ops dev) (bb_lba (bc_pool ?s' x)) \<noteq> None \<and>
           (\<not> bb_dirty (bc_pool ?s' x) \<longrightarrow> dev_sector c (bc_disk ?s') dev (bb_lba (bc_pool ?s' x)) = Some (bb_data (bc_pool ?s' x)))"
    if "x < BCACHE_NUM_BUFS" "bb_valid (bc_pool ?s' x)" for x
    using cache_okD(5) [OF ok that(1)] that f by (auto split: if_splits)
  show "x = x'" if "x < BCACHE_NUM_BUFS" "x' < BCACHE_NUM_BUFS" "bb_valid (bc_pool ?s' x)" "bb_valid (bc_pool ?s' x')"
      "bb_dev_id (bc_pool ?s' x) = bb_dev_id (bc_pool ?s' x')" "bb_lba (bc_pool ?s' x) = bb_lba (bc_pool ?s' x')" for x x'
    using cache_okD(6) [OF ok that(1,2)] that f by (auto split: if_splits)
  show "A dev lba = dev_sector c (bc_disk ?s') dev lba" if dl: "dev \<in> D" "\<forall>x < BCACHE_NUM_BUFS. \<not> buf_is (bd_dev_id dev) lba (bc_pool ?s' x)" for dev lba
  proof (cases "buf_is (bd_dev_id dev) lba (bc_pool s b)")
    case True
    then have v: "bb_valid (bc_pool s b)" "bb_dev_id (bc_pool s b) = bd_dev_id dev" "bb_lba (bc_pool s b) = lba" by (auto simp: buf_is_def)
    then obtain e where "e \<in> D" "bb_dev_id (bc_pool s b) = bd_dev_id e" "A e lba = Some (bb_data (bc_pool s b))"
      "dev_sector c (bc_disk s) e lba = Some (bb_data (bc_pool s b))" using cache_okD(5) [OF ok b(1) v(1)] b(2) by auto
    then show ?thesis using separate_id [OF sep dl(1), of e] v by simp
  next
    case False
    have "\<not> buf_is (bd_dev_id dev) lba (bc_pool s x)" if x: "x < BCACHE_NUM_BUFS" for x
      using False dl(2) [rule_format, OF x] by (cases "x = b") auto
    then show ?thesis using cache_okD(7) [OF ok dl(1), of lba] by simp
  qed
  show "bb_valid (bc_pool ?s' x)" if "x < BCACHE_NUM_BUFS" "bb_dirty (bc_pool ?s' x)" for x
    using cache_okD(8) [OF ok that(1)] that(2) f by (auto split: if_splits)
qed

text \<open>A buffer that is not valid can be filled with a sector that is not cached.\<close>

lemma fill_buf:
  assumes sep: "separate D g" and ok: "cache_ok D c A (lru_push_front b s)" and b: "b < BCACHE_NUM_BUFS" "\<not> bb_valid (bc_pool s b)"
    and dev: "dev \<in> D" "dev_sector c (bc_disk s) dev lba = Some dat" and new: "\<forall>x < BCACHE_NUM_BUFS. \<not> buf_is (bd_dev_id dev) lba (bc_pool s x)"
    and f: "\<And>x. f x = x\<lparr>bb_data := dat, bb_dev_id := bd_dev_id dev, bb_lba := lba, bb_valid := True, bb_dirty := False, bb_refcount := 1\<rparr>"
  shows "cache_ok D c A (lru_push_front b (hash_insert b (upd_buf b f s)))" (is "cache_ok _ _ _ ?s'")
proof (rule cache_okI)
  note D = cache_okD [OF ok, simplified]
  have fb: "bb_data (f x) = dat" "bb_dev_id (f x) = bd_dev_id dev" "bb_lba (f x) = lba" "bb_valid (f x)" "\<not> bb_dirty (f x)" for x by (simp_all add: f)
  have A: "A dev lba = Some dat" using D(7) [OF dev(1), of lba] new dev(2) by auto
  have sec: "sector (bd_ops dev) lba \<noteq> None" using dev(2) by (auto simp: dev_sector_def)
  show "distinct (bc_lru ?s')" "set (bc_lru ?s') = {..<BCACHE_NUM_BUFS}" using D(1,2) by simp_all
  show "distinct (bc_hash ?s' h)" "set (bc_hash ?s' h) = {x. x < BCACHE_NUM_BUFS \<and> bb_valid (bc_pool ?s' x) \<and> hash_key (bb_dev_id (bc_pool ?s' x)) (bb_lba (bc_pool ?s' x)) = h}" for h
    using D(3,4) [of h] b fb by (auto simp: hash_insert_def Let_def)
  show "\<exists>dev \<in> D. bb_dev_id (bc_pool ?s' x) = bd_dev_id dev \<and> A dev (bb_lba (bc_pool ?s' x)) = Some (bb_data (bc_pool ?s' x)) \<and>
           sector (bd_ops dev) (bb_lba (bc_pool ?s' x)) \<noteq> None \<and>
           (\<not> bb_dirty (bc_pool ?s' x) \<longrightarrow> dev_sector c (bc_disk ?s') dev (bb_lba (bc_pool ?s' x)) = Some (bb_data (bc_pool ?s' x)))"
    if "x < BCACHE_NUM_BUFS" "bb_valid (bc_pool ?s' x)" for x
    using that D(5) [OF that(1)] dev A sec fb by (cases "x = b") auto
  show "x = x'" if "x < BCACHE_NUM_BUFS" "x' < BCACHE_NUM_BUFS" "bb_valid (bc_pool ?s' x)" "bb_valid (bc_pool ?s' x')"
      "bb_dev_id (bc_pool ?s' x) = bb_dev_id (bc_pool ?s' x')" "bb_lba (bc_pool ?s' x) = bb_lba (bc_pool ?s' x')" for x x'
    using D(6) [OF that(1,2)] that new fb by (cases "x = b"; cases "x' = b") (auto simp: buf_is_def)
  show "A e l = dev_sector c (bc_disk ?s') e l" if dl: "e \<in> D" "\<forall>x < BCACHE_NUM_BUFS. \<not> buf_is (bd_dev_id e) l (bc_pool ?s' x)" for e l
  proof -
    have "\<not> buf_is (bd_dev_id e) l (bc_pool s x)" if x: "x < BCACHE_NUM_BUFS" for x
      using dl(2) [rule_format, OF x] b(2) by (cases "x = b") (auto simp: buf_is_def)
    then show ?thesis using D(7) [OF dl(1), of l] by simp
  qed
  show "bb_valid (bc_pool ?s' x)" if "x < BCACHE_NUM_BUFS" "bb_dirty (bc_pool ?s' x)" for x
    using D(8) [OF that(1)] that(2) fb by (auto split: if_splits)
qed

section \<open>Operations\<close>

lemma cache_ok_cong:
  assumes "bc_lru s' = bc_lru s" "bc_hash s' = bc_hash s" "bc_pool s' = bc_pool s" "c (bc_disk s') = c (bc_disk s)"
  shows "cache_ok D c A s' = cache_ok D c A s"
  unfolding cache_ok_def dev_sector_def assms ..

lemma cache_ok_pool:
  assumes ok: "cache_ok D c A s" and l: "distinct (bc_lru s')" "set (bc_lru s') = {..<BCACHE_NUM_BUFS}" "bc_hash s' = bc_hash s" "c (bc_disk s') = c (bc_disk s)"
    and p: "\<And>x. bb_valid (bc_pool s' x) = bb_valid (bc_pool s x) \<and> bb_dev_id (bc_pool s' x) = bb_dev_id (bc_pool s x) \<and>
      bb_lba (bc_pool s' x) = bb_lba (bc_pool s x) \<and> bb_data (bc_pool s' x) = bb_data (bc_pool s x) \<and> bb_dirty (bc_pool s' x) = bb_dirty (bc_pool s x)"
  shows "cache_ok D c A s'"
proof -
  have f: "bb_valid (bc_pool s' x) = bb_valid (bc_pool s x)" "bb_dev_id (bc_pool s' x) = bb_dev_id (bc_pool s x)"
      "bb_lba (bc_pool s' x) = bb_lba (bc_pool s x)" "bb_data (bc_pool s' x) = bb_data (bc_pool s x)" "bb_dirty (bc_pool s' x) = bb_dirty (bc_pool s x)" for x
    using p [of x] by auto
  show ?thesis using ok l(1,2) unfolding cache_ok_def buf_is_def dev_sector_def f l(3,4) by blast
qed

lemma clean_buf:
  assumes dv: "drives_ok dv c" and sep: "separate D g" and ok: "cache_ok D c A s" and b: "b < BCACHE_NUM_BUFS"
  defines "s1 \<equiv> (if bb_dirty (bc_pool s b) then writeback dv g b s else s)"
  shows "cache_ok D c A s1" "\<not> bb_dirty (bc_pool s1 b)" "bc_pool s1 = (bc_pool s)(b := (bc_pool s b)\<lparr>bb_dirty := False\<rparr>)"
    "bc_hash s1 = bc_hash s" "bc_lru s1 = bc_lru s"
proof -
  have v: "bb_valid (bc_pool s b)" if "bb_dirty (bc_pool s b)" using cache_okD(8) [OF ok b that] .
  have id: "x\<lparr>bb_dirty := False\<rparr> = x" if "\<not> bb_dirty x" for x :: bcache_buf using that by (cases x) simp
  show "cache_ok D c A s1" "\<not> bb_dirty (bc_pool s1 b)" "bc_hash s1 = bc_hash s" "bc_lru s1 = bc_lru s"
    using ok writeback_effect [OF dv sep ok b v] by (auto simp: s1_def)
  show "bc_pool s1 = (bc_pool s)(b := (bc_pool s b)\<lparr>bb_dirty := False\<rparr>)"
    using writeback_effect(1) [OF dv sep ok b v] id by (auto simp: s1_def fun_upd_idem)
qed

lemma evict_one_effect:
  assumes dv: "drives_ok dv c" and sep: "separate D g" and ok: "cache_ok D c A s" and e: "evict_one dv g s = (s', r)"
  shows "case r of None \<Rightarrow> s' = s \<and> (\<forall>b < BCACHE_NUM_BUFS. bb_refcount (bc_pool s b) \<noteq> 0)
    | Some b \<Rightarrow> b < BCACHE_NUM_BUFS \<and> bb_refcount (bc_pool s b) = 0 \<and> cache_ok D c A (lru_push_front b s') \<and> \<not> bb_valid (bc_pool s' b) \<and>
        (\<forall>x. x \<noteq> b \<longrightarrow> bc_pool s' x = bc_pool s x)"
proof (cases "lru_victim s")
  case None
  then have "\<forall>b < BCACHE_NUM_BUFS. bb_refcount (bc_pool s b) \<noteq> 0" using cache_okD(2) [OF ok] by (auto simp: lru_victim_def find_None_iff)
  then show ?thesis using e None by (auto simp: evict_one_def)
next
  case (Some b)
  then have b: "b < BCACHE_NUM_BUFS" "bb_refcount (bc_pool s b) = 0"
    using cache_okD(2) [OF ok] by (auto simp: lru_victim_def find_Some_iff rev_nth dest: nth_mem)
  define s1 where "s1 = (if bb_dirty (bc_pool s b) then writeback dv g b s else s)"
  note cl = clean_buf [OF dv sep ok b(1), folded s1_def]
  define f where "f = (\<lambda>x :: bcache_buf. x\<lparr>bb_valid := False, bb_dirty := False, bb_dev_id := 0, bb_lba := 0\<rparr>)"
  have "cache_ok D c A (lru_push_front b (upd_buf b f (lru_remove b (hash_remove b s1))))"
    by (rule drop_buf [OF sep cl(1) b(1)]) (use cl(2) in \<open>auto simp: f_def\<close>)
  moreover have "evict_one dv g s = (upd_buf b f ((lru_remove b (hash_remove b s1))\<lparr>bc_evicts := bc_evicts (lru_remove b (hash_remove b s1)) + 1\<rparr>), Some b)"
    using Some by (simp add: evict_one_def Let_def s1_def f_def)
  moreover have "bc_hash (t\<lparr>bc_evicts := y\<rparr>) = bc_hash t" "bc_pool (t\<lparr>bc_evicts := y\<rparr>) = bc_pool t" "bc_lru (t\<lparr>bc_evicts := y\<rparr>) = bc_lru t"
    "bc_disk (t\<lparr>bc_evicts := y\<rparr>) = bc_disk t" for t :: "'a bcache" and y by simp_all
  ultimately show ?thesis using e b cl(3) cache_ok_cong [of "lru_push_front b s'" "lru_push_front b (upd_buf b f (lru_remove b (hash_remove b s1)))" c D A]
    by (auto simp: f_def)
qed

lemma hash_find:
  assumes ok: "cache_ok D c A s"
  shows "case find (\<lambda>b. buf_is dev lba (bc_pool s b)) (bc_hash s (hash_key dev lba)) of
      None \<Rightarrow> \<forall>x < BCACHE_NUM_BUFS. \<not> buf_is dev lba (bc_pool s x)
    | Some b \<Rightarrow> b < BCACHE_NUM_BUFS \<and> buf_is dev lba (bc_pool s b)"
proof (cases "find (\<lambda>b. buf_is dev lba (bc_pool s b)) (bc_hash s (hash_key dev lba))")
  case None
  then have "\<forall>b \<in> set (bc_hash s (hash_key dev lba)). \<not> buf_is dev lba (bc_pool s b)" by (auto simp: find_None_iff)
  then have "\<forall>x < BCACHE_NUM_BUFS. \<not> buf_is dev lba (bc_pool s x)" using cache_okD(4) [OF ok, of "hash_key dev lba"] by (auto simp: buf_is_def)
  then show ?thesis using None by simp
next
  case (Some b)
  then have "b \<in> set (bc_hash s (hash_key dev lba))" "buf_is dev lba (bc_pool s b)" by (auto simp: find_Some_iff)
  then show ?thesis using Some cache_okD(4) [OF ok, of "hash_key dev lba"] by auto
qed

lemma cached_data:
  assumes sep: "separate D g" and ok: "cache_ok D c A s" and dev: "dev \<in> D" and b: "b < BCACHE_NUM_BUFS" "buf_is (bd_dev_id dev) lba (bc_pool s b)"
  shows "A dev lba = Some (bb_data (bc_pool s b))" "sector (bd_ops dev) lba \<noteq> None"
    "\<not> bb_dirty (bc_pool s b) \<Longrightarrow> dev_sector c (bc_disk s) dev lba = Some (bb_data (bc_pool s b))"
proof -
  have v: "bb_valid (bc_pool s b)" "bb_dev_id (bc_pool s b) = bd_dev_id dev" "bb_lba (bc_pool s b) = lba" using b(2) by (auto simp: buf_is_def)
  obtain e where e: "e \<in> D" "bb_dev_id (bc_pool s b) = bd_dev_id e" "A e lba = Some (bb_data (bc_pool s b))" "sector (bd_ops e) lba \<noteq> None"
    "\<not> bb_dirty (bc_pool s b) \<longrightarrow> dev_sector c (bc_disk s) e lba = Some (bb_data (bc_pool s b))"
    using cache_okD(5) [OF ok b(1) v(1)] v(3) by auto
  have "e = dev" using separate_id [OF sep e(1) dev] e(2) v(2) by simp
  then show "A dev lba = Some (bb_data (bc_pool s b))" "sector (bd_ops dev) lba \<noteq> None"
    "\<not> bb_dirty (bc_pool s b) \<Longrightarrow> dev_sector c (bc_disk s) dev lba = Some (bb_data (bc_pool s b))" using e by auto
qed

text \<open>A sector that is got holds the array's content; getting fails only on a read error or when every buffer is pinned.\<close>

lemma bcache_get_effect:
  assumes dv: "drives_ok dv c" and sep: "separate D g" and ok: "cache_ok D c A s" and dev: "dev \<in> D" and g: "bcache_get dv g dev lba s = (s', r)"
  shows "cache_ok D c A s'"
    and "r = Some b \<Longrightarrow> b < BCACHE_NUM_BUFS \<and> buf_is (bd_dev_id dev) lba (bc_pool s' b) \<and> A dev lba = Some (bb_data (bc_pool s' b))"
    and "r = None \<Longrightarrow> (\<forall>b < BCACHE_NUM_BUFS. bb_refcount (bc_pool s b) \<noteq> 0) \<or> (\<exists>d. blkdev_read dv (bd_ops dev) lba 1 d = None)"
proof -
  have "cache_ok D c A s' \<and> (\<forall>b. r = Some b \<longrightarrow> b < BCACHE_NUM_BUFS \<and> buf_is (bd_dev_id dev) lba (bc_pool s' b) \<and> A dev lba = Some (bb_data (bc_pool s' b))) \<and>
    (r = None \<longrightarrow> (\<forall>b < BCACHE_NUM_BUFS. bb_refcount (bc_pool s b) \<noteq> 0) \<or> (\<exists>d. blkdev_read dv (bd_ops dev) lba 1 d = None))"
  proof (cases "find (\<lambda>b. buf_is (bd_dev_id dev) lba (bc_pool s b)) (bc_hash s (hash_key (bd_dev_id dev) lba))")
    case (Some b)
    then have b: "b < BCACHE_NUM_BUFS" "buf_is (bd_dev_id dev) lba (bc_pool s b)" using hash_find [OF ok, of "bd_dev_id dev" lba] by auto
    define s1 where "s1 = lru_push_front b (lru_remove b (upd_buf b (\<lambda>x. x\<lparr>bb_refcount := bb_refcount x + 1\<rparr>) s))"
    have s': "s' = s1\<lparr>bc_hits := bc_hits s1 + 1\<rparr>" "r = Some b" using g Some by (simp_all add: bcache_get_def Let_def s1_def)
    have "cache_ok D c A s'" by (rule cache_ok_pool [OF ok]) (use cache_okD(1,2) [OF ok] b in \<open>auto simp: s' s1_def\<close>)
    moreover have "buf_is (bd_dev_id dev) lba (bc_pool s' b)" using b by (simp add: s' s1_def buf_is_def)
    ultimately show ?thesis using cached_data(1) [OF sep _ dev b(1)] b s'(2) by blast
  next
    case None
    then have new: "\<forall>x < BCACHE_NUM_BUFS. \<not> buf_is (bd_dev_id dev) lba (bc_pool s x)" using hash_find [OF ok, of "bd_dev_id dev" lba] by auto
    define s0 where "s0 = s\<lparr>bc_misses := bc_misses s + 1\<rparr>"
    have ok0: "cache_ok D c A s0" using ok cache_ok_cong [of s0 s c D A] by (simp add: s0_def)
    obtain s1 v where ev: "evict_one dv g s0 = (s1, v)" by (cases "evict_one dv g s0") auto
    note E = evict_one_effect [OF dv sep ok0 ev]
    show ?thesis
    proof (cases v)
      case nv: None
      then show ?thesis using g None ev E ok0 by (auto simp: bcache_get_def s0_def [symmetric]) (auto simp: s0_def)
    next
      case (Some b)
      then have b: "b < BCACHE_NUM_BUFS" "cache_ok D c A (lru_push_front b s1)" "\<not> bb_valid (bc_pool s1 b)" "\<forall>x. x \<noteq> b \<longrightarrow> bc_pool s1 x = bc_pool s x"
        using E by (auto simp: s0_def)
      have new1: "\<forall>x < BCACHE_NUM_BUFS. \<not> buf_is (bd_dev_id dev) lba (bc_pool s1 x)" using new b(3,4) by (metis buf_is_def)
      show ?thesis
      proof (cases "blkdev_read dv (bd_ops dev) lba 1 (bc_disk s1)")
        case nr: None
        then show ?thesis using g None ev Some b(2) by (auto simp: bcache_get_def s0_def [symmetric])
      next
        case rd: (Some dat)
        define f where "f = (\<lambda>x :: bcache_buf. x\<lparr>bb_data := dat, bb_dev_id := bd_dev_id dev, bb_lba := lba, bb_valid := True, bb_dirty := False, bb_refcount := 1\<rparr>)"
        have s': "s' = lru_push_front b (hash_insert b (upd_buf b f s1))" "r = Some b"
          using g None ev Some rd by (simp_all add: bcache_get_def s0_def [symmetric] f_def Let_def)
        obtain n a where "sector (bd_ops dev) lba = Some (n, a)" "dat = c (bc_disk s1) n a" using read_sector [OF dv rd] by auto
        then have "dev_sector c (bc_disk s1) dev lba = Some dat" by (simp add: dev_sector_def)
        from fill_buf [OF sep b(2,1,3) dev this new1, of f] have ok': "cache_ok D c A s'" by (simp add: s' f_def)
        moreover have "buf_is (bd_dev_id dev) lba (bc_pool s' b)" by (simp add: s' f_def buf_is_def)
        ultimately show ?thesis using cached_data(1) [OF sep ok' dev b(1)] b(1) s'(2) by auto
      qed
    qed
  qed
  then show "cache_ok D c A s'"
    and "r = Some b \<Longrightarrow> b < BCACHE_NUM_BUFS \<and> buf_is (bd_dev_id dev) lba (bc_pool s' b) \<and> A dev lba = Some (bb_data (bc_pool s' b))"
    and "r = None \<Longrightarrow> (\<forall>b < BCACHE_NUM_BUFS. bb_refcount (bc_pool s b) \<noteq> 0) \<or> (\<exists>d. blkdev_read dv (bd_ops dev) lba 1 d = None)"
    by blast+
qed

text \<open>A client stores into a buffer it holds and marks it dirty.\<close>

definition bcache_store :: "nat \<Rightarrow> u8 list \<Rightarrow> 'd bcache \<Rightarrow> 'd bcache" where
  "bcache_store b dat s = bcache_mark_dirty b (upd_buf b (\<lambda>x. x\<lparr>bb_data := dat\<rparr>) s)"

lemma bcache_store_ok:
  assumes sep: "separate D g" and ok: "cache_ok D c A s" and b: "b < BCACHE_NUM_BUFS" "buf_is (bd_dev_id dev) lba (bc_pool s b)" and dev: "dev \<in> D"
  shows "cache_ok D c (A(dev := (A dev)(lba := Some dat))) (bcache_store b dat s)" (is "cache_ok _ _ ?A ?s'")
proof (rule cache_okI)
  note D = cache_okD [OF ok]
  have v: "bb_valid (bc_pool s b)" "bb_dev_id (bc_pool s b) = bd_dev_id dev" "bb_lba (bc_pool s b) = lba" using b(2) by (auto simp: buf_is_def)
  have P: "bc_pool ?s' x = (if x = b then (bc_pool s b)\<lparr>bb_data := dat, bb_dirty := True\<rparr> else bc_pool s x)" for x by (simp add: bcache_store_def bcache_mark_dirty_def)
  have F: "bb_valid (bc_pool ?s' x) = bb_valid (bc_pool s x)" "bb_dev_id (bc_pool ?s' x) = bb_dev_id (bc_pool s x)" "bb_lba (bc_pool ?s' x) = bb_lba (bc_pool s x)"
    "buf_is i l (bc_pool ?s' x) = buf_is i l (bc_pool s x)" for x i l by (simp_all add: P buf_is_def)
  have R: "bc_lru ?s' = bc_lru s" "bc_hash ?s' = bc_hash s" "bc_disk ?s' = bc_disk s" by (simp_all add: bcache_store_def bcache_mark_dirty_def)
  show "distinct (bc_lru ?s')" "set (bc_lru ?s') = {..<BCACHE_NUM_BUFS}" "distinct (bc_hash ?s' h)" for h unfolding R using D(1-3) by blast+
  show "set (bc_hash ?s' h) = {b. b < BCACHE_NUM_BUFS \<and> bb_valid (bc_pool ?s' b) \<and> hash_key (bb_dev_id (bc_pool ?s' b)) (bb_lba (bc_pool ?s' b)) = h}" for h
    unfolding R F using D(4) by blast
  show "\<exists>e \<in> D. bb_dev_id (bc_pool ?s' x) = bd_dev_id e \<and> ?A e (bb_lba (bc_pool ?s' x)) = Some (bb_data (bc_pool ?s' x)) \<and>
           sector (bd_ops e) (bb_lba (bc_pool ?s' x)) \<noteq> None \<and>
           (\<not> bb_dirty (bc_pool ?s' x) \<longrightarrow> dev_sector c (bc_disk ?s') e (bb_lba (bc_pool ?s' x)) = Some (bb_data (bc_pool ?s' x)))"
    if x: "x < BCACHE_NUM_BUFS" "bb_valid (bc_pool ?s' x)" for x
  proof (cases "x = b")
    case True
    then show ?thesis using v dev cached_data(2) [OF sep ok dev b] by (intro bexI [of _ dev]) (auto simp: P)
  next
    case False
    then have "\<not> (bb_dev_id (bc_pool s x) = bd_dev_id dev \<and> bb_lba (bc_pool s x) = lba)" using D(6) [OF x(1) b(1)] x(2) v F(1) by auto
    then show ?thesis using D(5) [OF x(1)] x(2) False by (fastforce simp: P R)
  qed
  show "x = y" if "x < BCACHE_NUM_BUFS" "y < BCACHE_NUM_BUFS" "bb_valid (bc_pool ?s' x)" "bb_valid (bc_pool ?s' y)"
      "bb_dev_id (bc_pool ?s' x) = bb_dev_id (bc_pool ?s' y)" "bb_lba (bc_pool ?s' x) = bb_lba (bc_pool ?s' y)" for x y
    using D(6) that unfolding F by blast
  show "?A e l = dev_sector c (bc_disk ?s') e l" if e: "e \<in> D" "\<forall>x < BCACHE_NUM_BUFS. \<not> buf_is (bd_dev_id e) l (bc_pool ?s' x)" for e l
  proof -
    have "\<not> (e = dev \<and> l = lba)" using e b unfolding F by blast
    then show ?thesis using D(7) [OF e(1), of l] e(2) unfolding F R by auto
  qed
  show "bb_valid (bc_pool ?s' x)" if "x < BCACHE_NUM_BUFS" "bb_dirty (bc_pool ?s' x)" for x using D(8) that v(1) by (auto simp: P split: if_splits)
qed

lemma bcache_release_ok:
  assumes dv: "drives_ok dv c" and sep: "separate D g" and ok: "cache_ok D c A s" and b: "b < BCACHE_NUM_BUFS"
  shows "cache_ok D c A (bcache_release dv g b s)"
proof -
  define s1 where "s1 = (if bb_refcount (bc_pool s b) > 0 then upd_buf b (\<lambda>x. x\<lparr>bb_refcount := bb_refcount x - 1\<rparr>) s else s)"
  have ok1: "cache_ok D c A s1" by (rule cache_ok_pool [OF ok]) (use cache_okD(1,2) [OF ok] in \<open>auto simp: s1_def\<close>)
  show ?thesis using ok1 clean_buf(1) [OF dv sep ok1 b] by (auto simp: bcache_release_def s1_def [symmetric] Let_def)
qed

lemma flush_fold:
  assumes dv: "drives_ok dv c" and sep: "separate D g" and ok: "cache_ok D c A s" and bs: "\<forall>b \<in> set bs. b < BCACHE_NUM_BUFS"
    and F: "F = (\<lambda>b s. let x = bc_pool s b in if bb_valid x \<and> bb_dirty x \<and> P x then writeback dv g b s else s)"
    and P: "\<And>x d. P (x\<lparr>bb_dirty := d\<rparr>) = P x"
  shows "cache_ok D c A (fold F bs s) \<and> (\<forall>x. bc_pool (fold F bs s) x =
    (if x \<in> set bs \<and> bb_valid (bc_pool s x) \<and> P (bc_pool s x) then (bc_pool s x)\<lparr>bb_dirty := False\<rparr> else bc_pool s x))"
  using ok bs
proof (induction bs arbitrary: s)
  case Nil then show ?case by simp
next
  case (Cons b bs)
  have b: "b < BCACHE_NUM_BUFS" using Cons.prems by simp
  have id: "x\<lparr>bb_dirty := False\<rparr> = x" if "\<not> bb_dirty x" for x :: bcache_buf using that by (cases x) simp
  have 1: "cache_ok D c A (F b s)" and p: "bc_pool (F b s) x = (if x = b \<and> bb_valid (bc_pool s b) \<and> P (bc_pool s b) then (bc_pool s b)\<lparr>bb_dirty := False\<rparr> else bc_pool s x)" for x
    using Cons.prems(1) writeback_effect(1,4) [OF dv sep Cons.prems(1) b] id by (auto simp: F Let_def)
  show ?case using Cons.IH [OF 1] Cons.prems(2) by (auto simp: p P)
qed

lemma flush_where_ok:
  assumes "drives_ok dv c" "separate D g" "cache_ok D c A s" and P: "\<And>x d. P (x\<lparr>bb_dirty := d\<rparr>) = P x"
  shows "cache_ok D c A (flush_where dv g P s)"
    "b < BCACHE_NUM_BUFS \<Longrightarrow> bb_valid (bc_pool s b) \<Longrightarrow> P (bc_pool s b) \<Longrightarrow> bc_pool (flush_where dv g P s) b = (bc_pool s b)\<lparr>bb_dirty := False\<rparr>"
    "\<not> (bb_valid (bc_pool s b) \<and> P (bc_pool s b)) \<Longrightarrow> bc_pool (flush_where dv g P s) b = bc_pool s b"
proof -
  have bs: "\<forall>b \<in> set [0..<BCACHE_NUM_BUFS]. b < BCACHE_NUM_BUFS" unfolding set_upt Ball_def atLeastLessThan_iff by blast
  note f = flush_fold [OF assms(1-3) bs refl P, folded flush_where_def]
  have m: "b < BCACHE_NUM_BUFS \<Longrightarrow> b \<in> set [0..<BCACHE_NUM_BUFS]" unfolding set_upt atLeastLessThan_iff by blast
  show "cache_ok D c A (flush_where dv g P s)" using f by blast
  show "b < BCACHE_NUM_BUFS \<Longrightarrow> bb_valid (bc_pool s b) \<Longrightarrow> P (bc_pool s b) \<Longrightarrow> bc_pool (flush_where dv g P s) b = (bc_pool s b)\<lparr>bb_dirty := False\<rparr>"
    using f m by presburger
  show "\<not> (bb_valid (bc_pool s b) \<and> P (bc_pool s b)) \<Longrightarrow> bc_pool (flush_where dv g P s) b = bc_pool s b" using f by presburger
qed

lemma bcache_flush_dev_ok:
  assumes "drives_ok dv c" "separate D g" "cache_ok D c A s"
  shows "cache_ok D c A (bcache_flush_dev dv g dev s)"
  using flush_where_ok(1) [OF assms, of "\<lambda>x. bb_dev_id x = bd_dev_id dev"] flush_sector [OF assms(1)]
  by (simp add: bcache_flush_dev_def Let_def cache_ok_def dev_sector_def)

lemma bcache_sync_all_ok:
  assumes "drives_ok dv c" "separate D g" "cache_ok D c A s"
  shows "cache_ok D c A (bcache_sync_all dv g s)"
  using flush_where_ok(1) [OF assms, of "\<lambda>_. True"] by (simp add: bcache_sync_all_def)

text \<open>After a sync the devices hold the whole array.\<close>

lemma bcache_sync_all_clean:
  assumes dv: "drives_ok dv c" and sep: "separate D g" and ok: "cache_ok D c A s" and dev: "dev \<in> D"
  shows "dev_sector c (bc_disk (bcache_sync_all dv g s)) dev lba = A dev lba"
proof -
  let ?s = "bcache_sync_all dv g s"
  have ok': "cache_ok D c A ?s" using bcache_sync_all_ok [OF dv sep ok] .
  show ?thesis
  proof (cases "\<forall>b < BCACHE_NUM_BUFS. \<not> buf_is (bd_dev_id dev) lba (bc_pool ?s b)")
    case True
    show ?thesis by (rule cache_okD(7) [OF ok' dev, symmetric]) (use True in blast)
  next
    case False
    then obtain b where b: "b < BCACHE_NUM_BUFS" "buf_is (bd_dev_id dev) lba (bc_pool ?s b)" by blast
    note f = flush_where_ok [OF dv sep ok, of "\<lambda>_. True", folded bcache_sync_all_def]
    have v: "bb_valid (bc_pool s b)"
      by (rule ccontr) (use b(2) f(3) [of b] in \<open>auto simp: buf_is_def\<close>)
    have "\<not> bb_dirty (bc_pool ?s b)" using f(2) [OF _ b(1) v] by simp
    then show ?thesis using cached_data(1,3) [OF sep ok' dev b] by simp
  qed
qed

lemma invalidate_buf_ok:
  assumes dv: "drives_ok dv c" and sep: "separate D g" and ok: "cache_ok D c A s" and b: "b < BCACHE_NUM_BUFS"
  shows "cache_ok D c A (invalidate_buf dv g i b s)"
proof -
  define s1 where "s1 = (if bb_dirty (bc_pool s b) then writeback dv g b s else s)"
  note cl = clean_buf [OF dv sep ok b, folded s1_def]
  have "cache_ok D c A (lru_push_front b (upd_buf b (\<lambda>x. x\<lparr>bb_valid := False, bb_dirty := False, bb_refcount := 0\<rparr>) (lru_remove b (hash_remove b s1))))"
    by (rule drop_buf [OF sep cl(1) b]) (use cl(2) in auto)
  then show ?thesis using ok by (simp add: invalidate_buf_def Let_def s1_def [symmetric])
qed

lemma bcache_invalidate_dev_ok:
  assumes "drives_ok dv c" "separate D g" "cache_ok D c A s"
  shows "cache_ok D c A (bcache_invalidate_dev dv g dev s)"
proof -
  have "cache_ok D c A (fold (invalidate_buf dv g i) bs s)" if "\<forall>b \<in> set bs. b < BCACHE_NUM_BUFS" "cache_ok D c A s" for bs s i
    using that by (induction bs arbitrary: s) (simp_all add: invalidate_buf_ok [OF assms(1,2)])
  moreover have "\<forall>b \<in> set [0..<BCACHE_NUM_BUFS]. b < BCACHE_NUM_BUFS" unfolding set_upt Ball_def atLeastLessThan_iff by blast
  ultimately show ?thesis unfolding bcache_invalidate_dev_def using assms(3) by blast
qed

lemma push_all:
  "bc_pool (fold lru_push_front bs s) = bc_pool s" "bc_hash (fold lru_push_front bs s) = bc_hash s"
  "bc_disk (fold lru_push_front bs s) = bc_disk s" "bc_lru (fold lru_push_front bs s) = rev bs @ bc_lru s"
  by (induction bs arbitrary: s) auto

lemma bcache_init_pool:
  "bc_pool (bcache_init d) x = \<lparr>bb_dev_id = 0, bb_lba = 0, bb_data = replicate 512 0, bb_dirty = False, bb_valid = False, bb_refcount = 0\<rparr>"
  unfolding bcache_init_def Let_def push_all by (simp only: bcache.select_convs)

lemma bcache_init_ok: "cache_ok D c (\<lambda>dev. dev_sector c d dev) (bcache_init d)"
proof -
  have p: "\<not> bb_valid (bc_pool (bcache_init d) x)" "\<not> bb_dirty (bc_pool (bcache_init d) x)" "\<not> buf_is i l (bc_pool (bcache_init d) x)" for x i l
    by (simp_all only: bcache_init_pool bcache_buf.select_convs buf_is_def simp_thms)
  have r: "bc_hash (bcache_init d) h = []" "bc_disk (bcache_init d) = d" "bc_lru (bcache_init d) = rev [0..<BCACHE_NUM_BUFS]" for h
    unfolding bcache_init_def Let_def push_all by (simp_all only: bcache.select_convs append_Nil2)
  show ?thesis
    by (rule cache_okI) (simp_all only: p r distinct_rev set_rev distinct_upt set_upt atLeast0LessThan simp_thms list.set distinct.simps empty_def)
qed

section \<open>Runs\<close>

text \<open>
  The clients' calls, one after the other.  Beside the cache runs the array \<open>A\<close>, what was last stored in each
  sector: only a store changes it.  A client stores into a buffer that holds a sector, and releases it.
\<close>

inductive bcache_run :: "'d driver \<Rightarrow> blk_registry \<Rightarrow> blkdev set \<Rightarrow> 'd bcache \<times> (blkdev \<Rightarrow> u64 \<Rightarrow> u8 list option) \<Rightarrow>
    'd bcache \<times> (blkdev \<Rightarrow> u64 \<Rightarrow> u8 list option) \<Rightarrow> bool" for dv g D x where
  run_start: "bcache_run dv g D x x"
| run_get: "bcache_run dv g D x (s, A) \<Longrightarrow> dev \<in> D \<Longrightarrow> bcache_run dv g D x (fst (bcache_get dv g dev lba s), A)"
| run_store: "bcache_run dv g D x (s, A) \<Longrightarrow> dev \<in> D \<Longrightarrow> b < BCACHE_NUM_BUFS \<Longrightarrow> buf_is (bd_dev_id dev) lba (bc_pool s b) \<Longrightarrow>
    bcache_run dv g D x (bcache_store b dat s, A(dev := (A dev)(lba := Some dat)))"
| run_release: "bcache_run dv g D x (s, A) \<Longrightarrow> b < BCACHE_NUM_BUFS \<Longrightarrow> bcache_run dv g D x (bcache_release dv g b s, A)"
| run_flush: "bcache_run dv g D x (s, A) \<Longrightarrow> bcache_run dv g D x (bcache_flush_dev dv g dev s, A)"
| run_sync: "bcache_run dv g D x (s, A) \<Longrightarrow> bcache_run dv g D x (bcache_sync_all dv g s, A)"
| run_invalidate: "bcache_run dv g D x (s, A) \<Longrightarrow> bcache_run dv g D x (bcache_invalidate_dev dv g dev s, A)"

lemma bcache_run_ok:
  assumes "bcache_run dv g D x y" "drives_ok dv c" "separate D g" "cache_ok D c (snd x) (fst x)"
  shows "cache_ok D c (snd y) (fst y)"
  using assms
proof induction
  case (run_get s A dev lba)
  then have ok: "cache_ok D c A s" by simp
  show ?case using bcache_get_effect(1) [OF assms(2,3) ok run_get.hyps(2), of lba] by (simp add: prod_eq_iff)
qed (auto intro: bcache_store_ok bcache_release_ok bcache_flush_dev_ok bcache_sync_all_ok bcache_invalidate_dev_ok)


text \<open>A drive of plain memory, for the example run.\<close>

definition mem_driver :: "(nat \<Rightarrow> u64 \<Rightarrow> u8 list) driver" where
  "mem_driver = \<lparr>dv_read = (\<lambda>n lba count d. Some (d n lba)), dv_write = (\<lambda>n lba count b d. (d(n := (d n)(lba := b)), True)),
     dv_block_count = (\<lambda>_. 64), dv_block_size = (\<lambda>_. 512), dv_flush = (\<lambda>n d. (d, True))\<rparr>"

definition mem_dev :: blkdev where
  "mem_dev = \<lparr>bd_name = ''sda'', bd_dev_id = 3, bd_ops = Drive 0, bd_block_count = 64, bd_block_size = 512, bd_part_offset = 0\<rparr>"

definition mem_registry :: blk_registry where
  "mem_registry = \<lparr>br_devs = [mem_dev], br_next_id = 4\<rparr>"

lemma mem_ok: "drives_ok mem_driver (\<lambda>d. d)" "separate {mem_dev} mem_registry"
  by (simp_all add: drives_ok_def mem_driver_def separate_def mem_registry_def mem_dev_def blkdev_get_def)

lemma mem_run:
  "\<exists>s A. bcache_run mem_driver mem_registry {mem_dev} (bcache_init d, dev_sector (\<lambda>d. d) d) (s, A) \<and> A mem_dev 5 = Some [7]"
proof -
  let ?get = "bcache_get mem_driver mem_registry mem_dev 5 (bcache_init d)"
  have ok: "cache_ok {mem_dev} (\<lambda>d. d) (dev_sector (\<lambda>d. d) d) (bcache_init d)" by (rule bcache_init_ok)
  obtain s r where g: "?get = (s, r)" by (cases ?get) auto
  note E = bcache_get_effect [OF mem_ok ok _ g, simplified]
  have rc: "bb_refcount (bc_pool (bcache_init d) 0) = 0" unfolding bcache_init_pool by (simp only: bcache_buf.select_convs)
  have rd: "blkdev_read mem_driver (bd_ops mem_dev) 5 1 x \<noteq> None" for x by (simp add: mem_driver_def mem_dev_def)
  have pos: "(0 :: nat) < BCACHE_NUM_BUFS" by simp
  obtain b where b: "r = Some b" using E(3) rc rd pos by (cases r) blast+
  have 1: "bcache_run mem_driver mem_registry {mem_dev} (bcache_init d, dev_sector (\<lambda>d. d) d) (s, dev_sector (\<lambda>d. d) d)"
    using run_get [OF run_start, of mem_dev] by (metis fst_conv g insertI1)
  have b': "b < BCACHE_NUM_BUFS \<and> buf_is (bd_dev_id mem_dev) 5 (bc_pool s b)" using E(2) [OF b] by blast
  show ?thesis
    by (rule exI, rule exI, rule conjI, rule run_store [OF 1, of mem_dev b 5 "[7]"]) (use b' in auto)
qed


section \<open>Partitions\<close>

text \<open>C32: A partition is a window on its parent.  As long as the sector numbers do not wrap around 64 bits, a read or
  a write of \<open>count\<close> sectors that lies inside the partition is the same access of the parent, shifted by the
  partition's start and entirely between its first and its last sector; any other access is refused and
  changes nothing.
\<close>

theorem blk_partition_bounds:
  fixes lba s e :: u64 and count :: u32
  assumes nowrap: "unat s + unat lba + unat count \<le> 2 ^ 64" and count: "0 < count" and se: "s \<le> e"
  shows "if unat lba + unat count \<le> unat e - unat s + 1
     then blkdev_read dv (Partition p bs s e) lba count d = blkdev_read dv p (s + lba) count d \<and>
          blkdev_write dv (Partition p bs s e) lba count buf d = blkdev_write dv p (s + lba) count buf d \<and>
          unat s \<le> unat (s + lba) \<and> unat (s + lba) + unat count \<le> unat e + 1
     else blkdev_read dv (Partition p bs s e) lba count d = None \<and> blkdev_write dv (Partition p bs s e) lba count buf d = (d, False)"
proof -
  have c0: "0 < unat count" using count by (simp add: word_less_nat_alt)
  have l: "unat (s + lba) = unat s + unat lba" using nowrap c0 by (simp add: unat_word_ariths)
  have c32: "unat count < 2 ^ 32" using unsigned_less [of count] by simp
  have uc: "unat (ucast count :: u64) = unat count"
    using c32 by (simp add: unsigned_ucast_eq take_bit_nat_eq_self_iff)
  have c64: "unat count < 2 ^ 64" using c32 by simp
  have e1: "s + lba + ucast count - 1 = (s + lba) + (ucast count - 1)" by simp
  have m1: "unat (ucast count - 1 :: u64) = unat count - 1"
    using c0 uc by (simp add: unat_sub_if' word_le_nat_alt)
  have last: "unat (s + lba + ucast count - 1) = unat s + unat lba + unat count - 1"
    unfolding e1 using nowrap c0 l m1 by (simp add: unat_word_ariths)
  have ok: "part_range_ok (s + lba) count e \<longleftrightarrow> unat s + unat lba + unat count \<le> unat e + 1"
    using last c0 by (auto simp: part_range_ok_def word_less_nat_alt)
  have "unat s \<le> unat e" using se by (simp add: word_le_nat_alt)
  then show ?thesis using ok l by auto
qed

theorem blk_partition_bounds_witness:
  "blkdev_read mem_driver (Partition (Drive 0) 512 40 49) 9 1 (\<lambda>n lba. [ucast lba]) = Some [49] \<and>
   blkdev_read mem_driver (Partition (Drive 0) 512 40 49) 9 2 (\<lambda>n lba. [ucast lba]) = None"
  using blk_partition_bounds [of 40 9 1 49 mem_driver "Drive 0" 512 "\<lambda>n lba. [ucast lba]" "[]"]
    blk_partition_bounds [of 40 9 2 49 mem_driver "Drive 0" 512 "\<lambda>n lba. [ucast lba]" "[]"]
  by (simp add: mem_driver_def)

text \<open>Without that bound the window leaks: a sector number that wraps reaches sector 0 of the parent.\<close>

lemma partition_wrap_escapes:
  "blkdev_read dv (Partition p bs s e) (- s) 1 d = blkdev_read dv p 0 1 d"
  "blkdev_write dv (Partition p bs s e) (- s) 1 buf d = blkdev_write dv p 0 1 buf d"
  by (simp_all add: part_range_ok_def)

end
