(* ===== verification/Kstring.thy ===== *)
theory Kstring
  imports Exo_Prelude
begin

unbundle bit_operations_syntax

text \<open>
  The kernel's string and formatting routines (\<^verbatim>\<open>lib/string.c\<close>) on a flat memory of bytes.  The loops that
  search for a terminator may run forever and are partial functions; counted loops recurse on the count.
  Reads and writes go to the addresses the code uses, so an overrun shows as a change outside the buffer.
\<close>

type_synonym memory = "u64 \<Rightarrow> u8"

section \<open>Memory\<close>

fun memset :: "u64 \<Rightarrow> int \<Rightarrow> nat \<Rightarrow> memory \<Rightarrow> memory" where
  "memset p c 0 m = m"
| "memset p c (Suc n) m = memset (p + 1) c n (m(p := word_of_int c))"

fun memcpy :: "u64 \<Rightarrow> u64 \<Rightarrow> nat \<Rightarrow> memory \<Rightarrow> memory" where
  "memcpy d s 0 m = m"
| "memcpy d s (Suc n) m = memcpy (d + 1) (s + 1) n (m(d := m s))"

fun copy_down :: "u64 \<Rightarrow> u64 \<Rightarrow> nat \<Rightarrow> memory \<Rightarrow> memory" where
  "copy_down d s 0 m = m"
| "copy_down d s (Suc n) m = copy_down (d - 1) (s - 1) n (m(d - 1 := m (s - 1)))"

definition memmove :: "u64 \<Rightarrow> u64 \<Rightarrow> nat \<Rightarrow> memory \<Rightarrow> memory" where
  "memmove d s n m = (if d < s then memcpy d s n m else copy_down (d + of_nat n) (s + of_nat n) n m)"

fun memcmp :: "u64 \<Rightarrow> u64 \<Rightarrow> nat \<Rightarrow> memory \<Rightarrow> int" where
  "memcmp a b 0 m = 0"
| "memcmp a b (Suc n) m = (if m a \<noteq> m b then uint (m a) - uint (m b) else memcmp (a + 1) (b + 1) n m)"

section \<open>Strings\<close>

partial_function (option) strlen_from :: "memory \<Rightarrow> u64 \<Rightarrow> u64 \<Rightarrow> u64 option" where
  "strlen_from m s n = (if m s = 0 then Some n else strlen_from m (s + 1) (n + 1))"

definition strlen :: "u64 \<Rightarrow> memory \<Rightarrow> u64 option" where
  "strlen s m = strlen_from m s 0"

partial_function (option) strend :: "memory \<Rightarrow> u64 \<Rightarrow> u64 option" where
  "strend m d = (if m d = 0 then Some d else strend m (d + 1))"

partial_function (option) strcpy :: "u64 \<Rightarrow> u64 \<Rightarrow> memory \<Rightarrow> memory option" where
  "strcpy d s m = (let m' = m(d := m s) in if m s = 0 then Some m' else strcpy (d + 1) (s + 1) m')"

definition strcat :: "u64 \<Rightarrow> u64 \<Rightarrow> memory \<Rightarrow> memory option" where
  "strcat d s m = Option.bind (strend m d) (\<lambda>e. strcpy e s m)"

fun strncat_loop :: "nat \<Rightarrow> u64 \<Rightarrow> u64 \<Rightarrow> memory \<Rightarrow> u64 \<times> memory" where
  "strncat_loop 0 d s m = (d, m)"
| "strncat_loop (Suc n) d s m =
     (let m' = m(d := m s) in if m s = 0 then (d + 1, m') else strncat_loop n (d + 1) (s + 1) m')"

definition strncat :: "u64 \<Rightarrow> u64 \<Rightarrow> nat \<Rightarrow> memory \<Rightarrow> memory option" where
  "strncat d s n m = Option.bind (strend m d) (\<lambda>e. let (d', m') = strncat_loop n e s m in Some (m'(d' := 0)))"

fun strncpy_loop :: "nat \<Rightarrow> u64 \<Rightarrow> u64 \<Rightarrow> memory \<Rightarrow> nat \<times> u64 \<times> memory" where
  "strncpy_loop 0 d s m = (0, d, m)"
| "strncpy_loop (Suc n) d s m =
     (let m' = m(d := m s) in if m s = 0 then (Suc n, d + 1, m') else strncpy_loop n (d + 1) (s + 1) m')"

definition strncpy :: "u64 \<Rightarrow> u64 \<Rightarrow> nat \<Rightarrow> memory \<Rightarrow> memory" where
  "strncpy d s n m = (let (n', d', m') = strncpy_loop n d s m in memset d' 0 n' m')"

partial_function (option) strcmp :: "u64 \<Rightarrow> u64 \<Rightarrow> memory \<Rightarrow> int option" where
  "strcmp a b m = (if m a \<noteq> 0 \<and> m a = m b then strcmp (a + 1) (b + 1) m else Some (uint (m a) - uint (m b)))"

fun strncmp :: "u64 \<Rightarrow> u64 \<Rightarrow> nat \<Rightarrow> memory \<Rightarrow> int" where
  "strncmp a b 0 m = 0"
| "strncmp a b (Suc n) m =
     (if m a \<noteq> 0 \<and> m a = m b then strncmp (a + 1) (b + 1) n m else uint (m a) - uint (m b))"

partial_function (option) strchr :: "u64 \<Rightarrow> int \<Rightarrow> memory \<Rightarrow> u64 option option" where
  "strchr s c m =
     (if m s = 0 then Some (if c = 0 then Some s else None)
      else if m s = word_of_int c then Some (Some s)
      else strchr (s + 1) c m)"

partial_function (option) strrchr_from :: "u64 \<Rightarrow> int \<Rightarrow> u64 option \<Rightarrow> memory \<Rightarrow> u64 option option" where
  "strrchr_from s c lst m =
     (let lst = (if m s = word_of_int c then Some s else lst)
      in if m s = 0 then Some lst else strrchr_from (s + 1) c lst m)"

definition strrchr :: "u64 \<Rightarrow> int \<Rightarrow> memory \<Rightarrow> u64 option option" where
  "strrchr s c m = strrchr_from s c None m"

section \<open>Formatted output\<close>

text \<open>
  An argument is a 64-bit slot or a string (\<open>None\<close> for a null pointer).  The format and the string arguments are
  the characters before the terminator; they are taken to lie outside the output buffer.  Reading past the end of
  the format, and taking an argument that is missing or of the other kind, have no result.
\<close>

datatype va = VNum u64 | VStr "u8 list option"

abbreviation chr8 :: "char \<Rightarrow> u8" where "chr8 c \<equiv> of_char c"

definition emit :: "u64 \<Rightarrow> u64 \<Rightarrow> u8 \<Rightarrow> memory \<times> u64 \<Rightarrow> memory \<times> u64" where
  "emit buf sz ch st = (case st of (m, pos) \<Rightarrow> if pos + 1 < sz then (m(buf + pos := ch), pos + 1) else (m, pos))"

definition emit_str :: "u64 \<Rightarrow> u64 \<Rightarrow> u8 list option \<Rightarrow> int \<Rightarrow> bool \<Rightarrow> memory \<times> u64 \<Rightarrow> memory \<times> u64" where
  "emit_str buf sz so width left st =
     (let s = (case so of None \<Rightarrow> map of_char ''(null)'' | Some s \<Rightarrow> s);
          pad = replicate (nat (width - int (length s))) (chr8 CHR '' '');
          st = (if \<not> left then fold (emit buf sz) pad st else st);
          st = fold (emit buf sz) s st
      in if left then fold (emit buf sz) pad st else st)"

definition digit_chr :: "bool \<Rightarrow> u64 \<Rightarrow> u8" where
  "digit_chr upper i = chr8 ((if upper then ''0123456789ABCDEF'' else ''0123456789abcdef'') ! unat i)"

text \<open>The digits in \<^verbatim>\<open>tmp\<close>, least significant first; the bases are 10 and 16.\<close>

function uint_digits :: "u64 \<Rightarrow> bool \<Rightarrow> u64 \<Rightarrow> u8 list" where
  "uint_digits base upper v =
     (if v = 0 \<or> base < 2 then [] else digit_chr upper (v mod base) # uint_digits base upper (v div base))"
  by pat_completeness auto
termination
  by (relation "measure (\<lambda>(base, upper, v). unat v)") (auto simp: word_less_nat_alt unat_div_distrib unat_gt_0)

declare uint_digits.simps [simp del]

definition emit_uint :: "u64 \<Rightarrow> u64 \<Rightarrow> u64 \<Rightarrow> u64 \<Rightarrow> bool \<Rightarrow> int \<Rightarrow> bool \<Rightarrow> memory \<times> u64 \<Rightarrow> memory \<times> u64" where
  "emit_uint buf sz v base upper width zero st =
     (let tmp = (if v = 0 then [chr8 CHR ''0''] else uint_digits base upper v);
          pad = (if zero then chr8 CHR ''0'' else chr8 CHR '' '');
          st = fold (emit buf sz) (replicate (nat (width - int (length tmp))) pad) st
      in fold (emit buf sz) (rev tmp) st)"

definition scan_flag :: "char \<Rightarrow> u8 list \<Rightarrow> bool \<times> u8 list" where
  "scan_flag c f = (case f of x # r \<Rightarrow> if x = chr8 c then (True, r) else (False, f) | [] \<Rightarrow> (False, []))"

fun scan_width :: "int \<Rightarrow> u8 list \<Rightarrow> int \<times> u8 list" where
  "scan_width w [] = (w, [])"
| "scan_width w (c # f) =
     (if chr8 CHR ''0'' \<le> c \<and> c \<le> chr8 CHR ''9'' then scan_width (w * 10 + (uint c - 48)) f else (w, c # f))"

definition scan_long :: "u8 list \<Rightarrow> nat \<times> u8 list" where
  "scan_long f =
     (let (z, f) = scan_flag CHR ''z'' f in
      if z then (2, f)
      else let (l, f) = scan_flag CHR ''l'' f in
      if \<not> l then (0, f)
      else let (l, f) = scan_flag CHR ''l'' f in (if l then 2 else 1, f))"

definition va_signed :: "nat \<Rightarrow> u64 \<Rightarrow> u64" where
  "va_signed lng a = (if lng = 0 then scast (ucast a :: u32) else a)"

definition va_unsigned :: "nat \<Rightarrow> u64 \<Rightarrow> u64" where
  "va_unsigned lng a = (if lng = 0 then ucast (ucast a :: u32) else a)"

definition emit_num :: "u64 \<Rightarrow> u64 \<Rightarrow> u8 \<Rightarrow> bool \<Rightarrow> int \<Rightarrow> nat \<Rightarrow> u64 \<Rightarrow> memory \<times> u64 \<Rightarrow> memory \<times> u64" where
  "emit_num buf sz c zero width lng a st =
     (if c = chr8 CHR ''d'' \<or> c = chr8 CHR ''i'' then
        let v = va_signed lng a;
            (v, st) = (if v <s 0 then (- v, emit buf sz (chr8 CHR ''-'') st) else (v, st))
        in emit_uint buf sz v 10 False width zero st
      else if c = chr8 CHR ''u'' then emit_uint buf sz (va_unsigned lng a) 10 False width zero st
      else if c = chr8 CHR ''x'' then emit_uint buf sz (va_unsigned lng a) 16 False width zero st
      else if c = chr8 CHR ''X'' then emit_uint buf sz (va_unsigned lng a) 16 True width zero st
      else emit_uint buf sz a 16 False 16 True (emit buf sz (chr8 CHR ''x'') (emit buf sz (chr8 CHR ''0'') st)))"

definition emit_conv :: "u64 \<Rightarrow> u64 \<Rightarrow> u8 \<Rightarrow> bool \<Rightarrow> bool \<Rightarrow> int \<Rightarrow> nat \<Rightarrow> va list \<Rightarrow> memory \<times> u64 \<Rightarrow> ((memory \<times> u64) \<times> va list) option" where
  "emit_conv buf sz c left zero width lng args st =
     (if c = chr8 CHR ''c'' then
        (case args of VNum a # args \<Rightarrow> Some (emit buf sz (ucast a) st, args) | _ \<Rightarrow> None)
      else if c = chr8 CHR ''s'' then
        (case args of VStr s # args \<Rightarrow> Some (emit_str buf sz s width left st, args) | _ \<Rightarrow> None)
      else if c \<in> set (map of_char ''diuxXp'') then
        (case args of VNum a # args \<Rightarrow> Some (emit_num buf sz c zero width lng a st, args) | _ \<Rightarrow> None)
      else if c = chr8 CHR ''%'' then Some (emit buf sz (chr8 CHR ''%'') st, args)
      else Some (emit buf sz c (emit buf sz (chr8 CHR ''%'') st), args))"

definition scan_spec :: "u8 list \<Rightarrow> (bool \<times> bool \<times> int \<times> nat) \<times> u8 list" where
  "scan_spec f =
     (let (left, f) = scan_flag CHR ''-'' f;
          (zero, f) = scan_flag CHR ''0'' f;
          (width, f) = scan_width 0 f;
          (lng, f) = scan_long f
      in ((left, zero, width, lng), f))"

lemma scan_flag_length: "scan_flag c f = (b, f') \<Longrightarrow> length f' \<le> length f"
  by (auto simp: scan_flag_def split: list.splits if_splits)

lemma scan_width_length: "scan_width w f = (w', f') \<Longrightarrow> length f' \<le> length f"
  by (induction w f rule: scan_width.induct) (auto split: if_splits)

lemma scan_spec_length: "scan_spec f = (x, f') \<Longrightarrow> length f' \<le> length f"
  by (auto simp: scan_spec_def scan_long_def split: prod.splits if_splits dest!: scan_flag_length scan_width_length)

function kv_loop :: "u64 \<Rightarrow> u64 \<Rightarrow> u8 list \<Rightarrow> va list \<Rightarrow> memory \<times> u64 \<Rightarrow> (memory \<times> u64) option" where
  "kv_loop buf sz [] args st = Some st"
| "kv_loop buf sz (c # f) args st =
     (if c \<noteq> chr8 CHR ''%'' then kv_loop buf sz f args (emit buf sz c st)
      else if f = [] then Some st
      else case scan_spec f of ((left, zero, width, lng), f') \<Rightarrow>
        case f' of
          [] \<Rightarrow> None
        | c' # f'' \<Rightarrow>
            (case emit_conv buf sz c' left zero width lng args st of
               None \<Rightarrow> None
             | Some (st', args') \<Rightarrow> kv_loop buf sz f'' args' st'))"
  by pat_completeness auto
termination
  by (relation "measure (\<lambda>(buf, sz, f, args, st). length f)") (auto dest!: scan_spec_length [OF sym])

definition kvsnprintf :: "u64 \<Rightarrow> u64 \<Rightarrow> u8 list \<Rightarrow> va list \<Rightarrow> memory \<Rightarrow> (memory \<times> int) option" where
  "kvsnprintf buf sz fmt args m =
     (if buf = 0 \<or> sz = 0 then Some (m, - 1)
      else case kv_loop buf sz fmt args (m, 0) of
        None \<Rightarrow> None
      | Some (m, pos) \<Rightarrow> Some (m(buf + (if pos < sz then pos else sz - 1) := 0), c_int pos))"

section \<open>Memory regions\<close>

text \<open>Memory with the bytes \<open>xs\<close> at address \<open>p\<close>.\<close>

definition place :: "u64 \<Rightarrow> u8 list \<Rightarrow> memory \<Rightarrow> memory" where
  "place p xs m = (\<lambda>a. if unat (a - p) < length xs then xs ! unat (a - p) else m a)"

lemma place_nil [simp]: "place p [] m = m"
  by (simp add: place_def)

lemma unat_of_nat64: "i < 2 ^ 64 \<Longrightarrow> unat (of_nat i :: u64) = i"
  by (simp add: unsigned_of_nat take_bit_nat_eq_self)

lemma place_at: "i < length xs \<Longrightarrow> length xs \<le> 2 ^ 64 \<Longrightarrow> place p xs m (p + of_nat i) = xs ! i"
  by (simp add: place_def unat_of_nat64)

lemma place_outside: "length xs \<le> unat (a - p) \<Longrightarrow> place p xs m a = m a"
  by (simp add: place_def)

lemma offset_eq: "unat (a - p) = i \<longleftrightarrow> a = p + of_nat i" if "i < 2 ^ 64" for a p :: u64
proof
  assume "unat (a - p) = i"
  then have "a - p = of_nat i" by (metis of_nat_unat ucast_id)
  then show "a = p + of_nat i" by (simp add: algebra_simps)
next
  assume "a = p + of_nat i"
  then show "unat (a - p) = i" using unat_of_nat64 [OF that] by simp
qed

lemma place_snoc:
  assumes "length xs < 2 ^ 64"
  shows "(place p xs m)(p + of_nat (length xs) := c) = place p (xs @ [c]) m"
proof
  fix a
  show "((place p xs m)(p + of_nat (length xs) := c)) a = place p (xs @ [c]) m a"
    using offset_eq [OF assms, of a p] by (auto simp: place_def nth_append less_Suc_eq)
qed

lemma offset_Suc:
  fixes a p :: u64 shows "a \<noteq> p \<Longrightarrow> unat (a - (p + 1)) = unat (a - p) - 1"
proof -
  assume "a \<noteq> p"
  then have "unat (a - p - 1) = unat (a - p) - 1" by (simp add: unat_minus_one)
  then show ?thesis by (simp add: diff_diff_add)
qed

lemma place_Cons:
  assumes "length xs < 2 ^ 64"
  shows "place (p + 1) xs (m(p := c)) = place p (c # xs) m"
proof
  fix a
  show "place (p + 1) xs (m(p := c)) a = place p (c # xs) m a"
  proof (cases "a = p")
    case True
    have "unat (- 1 :: u64) = 2 ^ 64 - 1" by (simp add: unsigned_minus_1_eq_mask mask_eq_exp_minus_1)
    then show ?thesis using True assms by (simp add: place_def)
  next
    case False
    then have "0 < unat (a - p)" by (simp add: unat_gt_0)
    then show ?thesis using False offset_Suc [OF False] by (auto simp: place_def nth_Cons')
  qed
qed

lemma memset_place: "n \<le> 2 ^ 64 \<Longrightarrow> memset p c n m = place p (replicate n (word_of_int c)) m"
  by (induction p c n m rule: memset.induct) (simp_all add: place_Cons)

text \<open>The bytes at an address.\<close>

definition bytes_at :: "memory \<Rightarrow> u64 \<Rightarrow> nat \<Rightarrow> u8 list" where
  "bytes_at m p n = map (\<lambda>i. m (p + of_nat i)) [0..<n]"

lemma bytes_at_length [simp]: "length (bytes_at m p n) = n"
  by (simp add: bytes_at_def)

lemma bytes_at_Suc: "bytes_at m p (Suc n) = m p # bytes_at m (p + 1) n"
  by (simp add: bytes_at_def map_upt_Suc add.assoc del: upt_Suc)

lemma bytes_at_snoc: "bytes_at m p (Suc n) = bytes_at m p n @ [m (p + of_nat n)]"
  by (simp add: bytes_at_def)

lemma bytes_at_upd: "(\<And>i. i < n \<Longrightarrow> p + of_nat i \<noteq> d) \<Longrightarrow> bytes_at (m(d := c)) p n = bytes_at m p n"
  by (simp add: bytes_at_def)

lemma memcpy_forward:
  assumes "n \<le> 2 ^ 64" "\<And>i j. i < n \<Longrightarrow> j < i \<Longrightarrow> d + of_nat j \<noteq> s + of_nat i"
  shows "memcpy d s n m = place d (bytes_at m s n) m"
  using assms
proof (induction n arbitrary: d s m)
  case 0 then show ?case by (simp add: bytes_at_def)
next
  case (Suc n)
  have "memcpy (d + 1) (s + 1) n (m(d := m s)) = place (d + 1) (bytes_at (m(d := m s)) (s + 1) n) (m(d := m s))"
  proof (rule Suc.IH)
    show "n \<le> 2 ^ 64" using Suc.prems(1) by simp
    show "d + 1 + of_nat j \<noteq> s + 1 + of_nat i" if "i < n" "j < i" for i j
      using Suc.prems(2) [of "Suc i" "Suc j"] that by (simp add: algebra_simps)
  qed
  also have "bytes_at (m(d := m s)) (s + 1) n = bytes_at m (s + 1) n"
    by (rule bytes_at_upd) (use Suc.prems(2) [of "Suc i" 0 for i] in \<open>fastforce simp: add.assoc add.commute [of 1]\<close>)
  also have "place (d + 1) (bytes_at m (s + 1) n) (m(d := m s)) = place d (m s # bytes_at m (s + 1) n) m"
    using Suc.prems(1) by (intro place_Cons) simp
  finally show ?case unfolding memcpy.simps bytes_at_Suc .
qed

lemma place_upd_end:
  assumes "length xs < 2 ^ 64"
  shows "place p xs (m(p + of_nat (length xs) := c)) = place p (xs @ [c]) m"
proof
  fix a
  show "place p xs (m(p + of_nat (length xs) := c)) a = place p (xs @ [c]) m a"
    using offset_eq [OF assms, of a p] by (auto simp: place_def nth_append less_Suc_eq)
qed

lemma copy_down_backward:
  assumes "n \<le> 2 ^ 64" "\<And>i j. i < j \<Longrightarrow> j < n \<Longrightarrow> d + of_nat j \<noteq> s + of_nat i"
  shows "copy_down (d + of_nat n) (s + of_nat n) n m = place d (bytes_at m s n) m"
  using assms
proof (induction n arbitrary: m)
  case 0 then show ?case by (simp add: bytes_at_def)
next
  case (Suc n)
  let ?m = "m(d + of_nat n := m (s + of_nat n))"
  have "copy_down (d + of_nat n) (s + of_nat n) n ?m = place d (bytes_at ?m s n) ?m"
    using Suc.prems by (intro Suc.IH) auto
  also have "bytes_at ?m s n = bytes_at m s n"
    by (rule bytes_at_upd) (use Suc.prems(2) [of i n for i] in fastforce)
  also have "place d (bytes_at m s n) ?m = place d (bytes_at m s n @ [m (s + of_nat n)]) m"
    using place_upd_end [of "bytes_at m s n" d m "m (s + of_nat n)"] Suc.prems(1) by simp
  finally have "copy_down (d + of_nat n) (s + of_nat n) n ?m = place d (bytes_at m s (Suc n)) m" unfolding bytes_at_snoc .
  moreover have "d + of_nat (Suc n) - 1 = d + of_nat n" "s + of_nat (Suc n) - 1 = s + of_nat n" by simp_all
  ultimately show ?case unfolding copy_down.simps by (simp only:)
qed

text \<open>C34: \<^verbatim>\<open>memmove\<close> copies as through a temporary buffer, however the two regions overlap: afterwards the
  destination holds the bytes the source held before and nothing else has changed.  The direction of the loop
  makes that true whenever neither region wraps around the end of the address space.
\<close>

theorem memmove_exact:
  assumes "unat d + n \<le> 2 ^ 64" "unat s + n \<le> 2 ^ 64"
  shows "memmove d s n m = place d (bytes_at m s n) m"
proof -
  have off: "p + of_nat i = q + of_nat j \<longleftrightarrow> unat p + i = unat q + j"
    if "unat p + n \<le> 2 ^ 64" "unat q + n \<le> 2 ^ 64" "i < n" "j < n" for p q :: u64 and i j
  proof -
    have "unat (p + of_nat i) = unat p + i" "unat (q + of_nat j) = unat q + j"
      using that by (simp_all add: unat_word_ariths unat_of_nat64)
    then show ?thesis by (simp add: word_unat_eq_iff)
  qed
  show ?thesis
  proof (cases "d < s")
    case True
    then have "unat d < unat s" by (simp add: word_less_nat_alt)
    then show ?thesis using True assms off [of d s] by (simp add: memmove_def memcpy_forward)
  next
    case False
    then have "unat s \<le> unat d" by (simp add: word_less_nat_alt)
    then show ?thesis using False assms off [of d s] by (simp add: memmove_def copy_down_backward)
  qed
qed

theorem memmove_exact_witness:
  "memmove 10 12 3 (\<lambda>a. ucast a) 11 = 13 \<and> memmove 12 10 3 (\<lambda>a. ucast a) 14 = 12"
  using memmove_exact [of 10 3 12 "\<lambda>a. ucast a"] memmove_exact [of 12 3 10 "\<lambda>a. ucast a"]
  by (simp add: place_def bytes_at_def upt_rec)

section \<open>Terminated strings\<close>

definition cstr :: "memory \<Rightarrow> u64 \<Rightarrow> u8 list \<Rightarrow> bool" where
  "cstr m p xs \<longleftrightarrow> bytes_at m p (Suc (length xs)) = xs @ [0] \<and> 0 \<notin> set xs"

lemma cstr_Nil [simp]: "cstr m p [] \<longleftrightarrow> m p = 0"
  by (simp add: cstr_def bytes_at_def)

lemma cstr_Cons [simp]: "cstr m p (x # xs) \<longleftrightarrow> m p = x \<and> x \<noteq> 0 \<and> cstr m (p + 1) xs"
  by (auto simp: cstr_def bytes_at_Suc)

lemma cstr_upd: "cstr m p xs \<Longrightarrow> (\<And>i. i \<le> length xs \<Longrightarrow> p + of_nat i \<noteq> d) \<Longrightarrow> cstr (m(d := c)) p xs"
  unfolding cstr_def using bytes_at_upd [of "Suc (length xs)" p d m c] by (simp add: less_Suc_eq_le)

text \<open>The searching loops return on terminated strings.\<close>

lemma strlen_from_cstr: "cstr m s xs \<Longrightarrow> strlen_from m s n = Some (n + of_nat (length xs))"
  by (induction xs arbitrary: s n) (auto simp: strlen_from.simps [of m s n for s n] algebra_simps)

lemma strlen_cstr: "cstr m s xs \<Longrightarrow> strlen s m = Some (of_nat (length xs))"
  by (simp add: strlen_def strlen_from_cstr)

lemma strcmp_cstr: "cstr m a xs \<Longrightarrow> cstr m b ys \<Longrightarrow> \<exists>i. strcmp a b m = Some i \<and> (i = 0 \<longleftrightarrow> xs = ys)"
proof (induction xs arbitrary: a b ys)
  case Nil then show ?case by (cases ys) (auto simp: strcmp.simps [of a b] uint_0_iff unsigned_word_eqI)
next
  case (Cons x xs) then show ?case by (cases ys) (auto simp: strcmp.simps [of a b] uint_0_iff unsigned_word_eqI)
qed

lemma strcpy_cstr:
  assumes "cstr m s xs" "length xs < 2 ^ 64" "\<And>i j. i \<le> length xs \<Longrightarrow> j < i \<Longrightarrow> d + of_nat j \<noteq> s + of_nat i"
  shows "strcpy d s m = Some (place d (xs @ [0]) m)"
  using assms
proof (induction xs arbitrary: d s m)
  case Nil
  then show ?case using place_upd_end [of "[]" d m 0] by (simp add: strcpy.simps [of d s m])
next
  case (Cons x xs)
  have ne: "s + 1 + of_nat i \<noteq> d" if "i \<le> length xs" for i
    using Cons.prems(3) [of "Suc i" 0] that by (simp add: add.assoc)
  have shift: "d + 1 + of_nat j \<noteq> s + 1 + of_nat i" if "i \<le> length xs" "j < i" for i j
    using Cons.prems(3) [of "Suc i" "Suc j"] that by (simp add: algebra_simps)
  have c: "cstr (m(d := x)) (s + 1) xs" by (rule cstr_upd) (use Cons.prems(1) ne in auto)
  have l: "length xs < 2 ^ 64" using Cons.prems(2) by simp
  have "strcpy (d + 1) (s + 1) (m(d := x)) = Some (place (d + 1) (xs @ [0]) (m(d := x)))" by (rule Cons.IH [OF c l shift])
  also have "place (d + 1) (xs @ [0]) (m(d := x)) = place d (x # xs @ [0]) m" using Cons.prems(2) by (intro place_Cons) simp
  finally show ?case using Cons.prems(1) by (simp add: strcpy.simps [of d s m] del: fun_upd_apply)
qed

lemma strncpy_loop_cstr:
  assumes "cstr m s xs" "length xs < 2 ^ 64" "\<And>i j. i \<le> length xs \<Longrightarrow> j < i \<Longrightarrow> d + of_nat j \<noteq> s + of_nat i"
  shows "strncpy_loop n d s m =
    (if length xs < n then (n - length xs, d + of_nat (length xs) + 1, place d (xs @ [0]) m)
     else (0, d + of_nat n, place d (take n xs) m))"
  using assms
proof (induction n arbitrary: d s m xs)
  case 0 then show ?case by simp
next
  case (Suc n)
  show ?case
  proof (cases xs)
    case Nil
    then show ?thesis using Suc.prems(1) place_upd_end [of "[]" d m 0] by simp
  next
    case (Cons x ys)
    have ne: "s + 1 + of_nat i \<noteq> d" if "i \<le> length ys" for i
      using Suc.prems(3) [of "Suc i" 0] that Cons by (simp add: add.assoc)
    have shift: "d + 1 + of_nat j \<noteq> s + 1 + of_nat i" if "i \<le> length ys" "j < i" for i j
      using Suc.prems(3) [of "Suc i" "Suc j"] that Cons by (simp add: algebra_simps)
    have l: "length ys < 2 ^ 64 - 1" using Suc.prems(2) Cons by simp
    have pl: "place (d + 1) zs (m(d := x)) = place d (x # zs) m" if "length zs \<le> Suc (length ys)" for zs
      using l that by (intro place_Cons) simp
    have c: "cstr (m(d := x)) (s + 1) ys" by (rule cstr_upd) (use Suc.prems(1) ne Cons in auto)
    have l': "length ys < 2 ^ 64" using l by simp
    have "strncpy_loop n (d + 1) (s + 1) (m(d := x)) =
      (if length ys < n then (n - length ys, d + 1 + of_nat (length ys) + 1, place (d + 1) (ys @ [0]) (m(d := x)))
       else (0, d + 1 + of_nat n, place (d + 1) (take n ys) (m(d := x))))"
      by (rule Suc.IH [OF c l' shift])
    then show ?thesis using Suc.prems(1) Cons pl [of "ys @ [0]"] pl [of "take n ys"]
      by (simp add: add.assoc del: fun_upd_apply)
  qed
qed

lemma place_append:
  assumes "length xs + length ys \<le> 2 ^ 64"
  shows "place (p + of_nat (length xs)) ys (place p xs m) = place p (xs @ ys) m"
  using assms
proof (induction xs arbitrary: p m)
  case Nil then show ?case by simp
next
  case (Cons x xs)
  have "place (p + 1 + of_nat (length xs)) ys (place (p + 1) xs (m(p := x))) = place (p + 1) (xs @ ys) (m(p := x))"
    using Cons.prems by (intro Cons.IH) simp
  moreover have "place (p + 1) xs (m(p := x)) = place p (x # xs) m" "place (p + 1) (xs @ ys) (m(p := x)) = place p (x # xs @ ys) m"
    using Cons.prems by (intro place_Cons; simp)+
  ultimately show ?case by (simp add: add.assoc)
qed

text \<open>C35: \<^verbatim>\<open>strncpy\<close> writes one byte too many.  Where the source is shorter than the count \<open>n\<close>, the loop that copies
  leaves without counting the terminator, and the loop that pads then writes \<open>n - length\<close> further zeros: \<open>n + 1\<close>
  bytes are written and the byte at \<open>d + n\<close>, which the caller never handed over, is set to zero.  A source of at
  least \<open>n\<close> bytes is cut to \<open>n\<close> bytes without a terminator, as documented.
\<close>

theorem strncpy_overrun:
  assumes "cstr m s xs" "length xs < 2 ^ 64" "n < 2 ^ 64" "\<forall>i \<le> length xs. \<forall>j < i. d + of_nat j \<noteq> s + of_nat i"
  shows "strncpy d s n m = place d (if length xs < n then xs @ replicate (n + 1 - length xs) 0 else take n xs) m"
    (is "_ = place d ?w m")
proof (cases "length xs < n")
  case True
  have "strncpy d s n m = memset (d + of_nat (length (xs @ [0 :: u8]))) 0 (n - length xs) (place d (xs @ [0]) m)"
    using True strncpy_loop_cstr [OF assms(1,2), of d n] assms(4) by (simp add: strncpy_def algebra_simps)
  also have "\<dots> = place d ((xs @ [0]) @ replicate (n - length xs) 0) m"
    using True assms(3) place_append [of "xs @ [0]" "replicate (n - length xs) 0" d m] by (simp add: memset_place)
  also have "(xs @ [0]) @ replicate (n - length xs) 0 = ?w" using True by (simp add: Suc_diff_le)
  finally show ?thesis .
next
  case False
  then show ?thesis using strncpy_loop_cstr [OF assms(1,2), of d n] assms(4) by (simp add: strncpy_def)
qed

theorem strncpy_overrun_witness:
  "strncpy 40 8 4 (\<lambda>a. if a = 8 then 97 else if a = 9 then 98 else if a = 44 then 7 else 0) 44 = 0"
proof -
  let ?m = "\<lambda>a :: u64. if a = 8 then 97 else if a = 9 then 98 else if a = 44 then 7 else (0 :: u8)"
  have apart: "40 + of_nat j \<noteq> 8 + (of_nat i :: u64)" if "i \<le> 2" "j < i" for i j :: nat
  proof -
    from that have "i = 1 \<and> j = 0 \<or> i = 2 \<and> j = 0 \<or> i = 2 \<and> j = 1" by arith
    then show ?thesis by auto
  qed
  have "strncpy 40 8 4 ?m = place 40 (if length [97, 98 :: u8] < 4 then [97, 98] @ replicate (4 + 1 - length [97, 98 :: u8]) 0 else take 4 [97, 98]) ?m"
    by (rule strncpy_overrun) (use apart in auto)
  then show ?thesis by (simp add: place_def numeral_3_eq_3)
qed

section \<open>What a format means\<close>

text \<open>The reference: a format is a list of items, each item a text, and the output is their concatenation.\<close>

datatype fmt_item = Lit u8 | Spec bool bool int nat u8

function parse_format :: "u8 list \<Rightarrow> fmt_item list option" where
  "parse_format [] = Some []"
| "parse_format (c # f) =
     (if c \<noteq> chr8 CHR ''%'' then map_option (Cons (Lit c)) (parse_format f)
      else if f = [] then Some []
      else case scan_spec f of ((left, zero, width, lng), f') \<Rightarrow>
        (case f' of [] \<Rightarrow> None | c' # f'' \<Rightarrow> map_option (Cons (Spec left zero width lng c')) (parse_format f'')))"
  by pat_completeness auto
termination
  by (relation "measure length") (auto dest!: scan_spec_length [OF sym])

fun nat_digits :: "nat \<Rightarrow> nat \<Rightarrow> nat list" where
  "nat_digits b n = (if n < b \<or> b < 2 then [n] else nat_digits b (n div b) @ [n mod b])"

declare nat_digits.simps [simp del]

text \<open>The digits stand for the number.\<close>

lemma nat_digits_value: "foldl (\<lambda>a d. a * b + d) 0 (nat_digits b n) = n"
proof (induction b n rule: nat_digits.induct)
  case (1 b n)
  then show ?case by (cases "n < b \<or> b < 2") (simp_all add: nat_digits.simps [of b n])
qed

lemma nat_digits_length: "n < b ^ k \<Longrightarrow> 1 < b \<Longrightarrow> 0 < k \<Longrightarrow> length (nat_digits b n) \<le> k"
proof (induction b n arbitrary: k rule: nat_digits.induct)
  case (1 b n)
  show ?case
  proof (cases "n < b")
    case True
    then show ?thesis using 1(4) by (simp add: nat_digits.simps [of b n])
  next
    case False
    obtain j where k: "k = Suc j" using 1(4) by (cases k) auto
    then have j: "k = Suc j" "0 < j" using 1(2) False by (cases j; simp)+
    have "n div b < b ^ j" using 1(2) j 1(3) by (simp add: less_mult_imp_div_less mult.commute)
    then show ?thesis using 1(1) [of j] False 1(3) j by (simp add: nat_digits.simps [of b n])
  qed
qed

definition num_text :: "nat \<Rightarrow> bool \<Rightarrow> nat \<Rightarrow> u8 list" where
  "num_text b upper n = map (\<lambda>d. digit_chr upper (of_nat d)) (nat_digits b n)"

definition pad_text :: "char \<Rightarrow> int \<Rightarrow> u8 list \<Rightarrow> u8 list" where
  "pad_text c width s = replicate (nat (width - int (length s))) (chr8 c) @ s"

definition spec_num :: "u8 \<Rightarrow> bool \<Rightarrow> int \<Rightarrow> nat \<Rightarrow> u64 \<Rightarrow> u8 list" where
  "spec_num c zero width lng a =
     (let pad = pad_text (if zero then CHR ''0'' else CHR '' '') width;
          u = (if lng = 0 then unat a mod 2 ^ 32 else unat a);
          i = (if lng = 0 then sint (ucast a :: u32) else sint a)
      in if c = chr8 CHR ''d'' \<or> c = chr8 CHR ''i'' then
           (if i < 0 then [chr8 CHR ''-''] else []) @ pad (num_text 10 False (nat \<bar>i\<bar>))
         else if c = chr8 CHR ''u'' then pad (num_text 10 False u)
         else if c = chr8 CHR ''x'' then pad (num_text 16 False u)
         else if c = chr8 CHR ''X'' then pad (num_text 16 True u)
         else map of_char ''0x'' @ pad_text CHR ''0'' 16 (num_text 16 False (unat a)))"

definition spec_text :: "bool \<Rightarrow> bool \<Rightarrow> int \<Rightarrow> nat \<Rightarrow> u8 \<Rightarrow> va list \<Rightarrow> (u8 list \<times> va list) option" where
  "spec_text left zero width lng c args =
     (if c = chr8 CHR ''c'' then (case args of VNum a # args \<Rightarrow> Some ([ucast a], args) | _ \<Rightarrow> None)
      else if c = chr8 CHR ''s'' then
        (case args of
           VStr so # args \<Rightarrow>
             let s = (case so of None \<Rightarrow> map of_char ''(null)'' | Some s \<Rightarrow> s)
             in Some (if left then s @ replicate (nat (width - int (length s))) (chr8 CHR '' '') else pad_text CHR '' '' width s, args)
         | _ \<Rightarrow> None)
      else if c \<in> set (map of_char ''diuxXp'') then
        (case args of VNum a # args \<Rightarrow> Some (spec_num c zero width lng a, args) | _ \<Rightarrow> None)
      else if c = chr8 CHR ''%'' then Some ([c], args)
      else Some ([chr8 CHR ''%'', c], args))"

fun format_text :: "fmt_item list \<Rightarrow> va list \<Rightarrow> u8 list option" where
  "format_text [] args = Some []"
| "format_text (Lit c # items) args = map_option (Cons c) (format_text items args)"
| "format_text (Spec left zero width lng c # items) args =
     (case spec_text left zero width lng c args of
        None \<Rightarrow> None
      | Some (t, args') \<Rightarrow> map_option (append t) (format_text items args'))"

section \<open>The formatter implements it\<close>

definition out_state :: "u64 \<Rightarrow> u64 \<Rightarrow> memory \<Rightarrow> u8 list \<Rightarrow> memory \<times> u64" where
  "out_state buf sz m out = (place buf (take (unat sz - 1) out) m, of_nat (min (length out) (unat sz - 1)))"

lemma emit_out:
  assumes "0 < sz"
  shows "emit buf sz c (out_state buf sz m out) = out_state buf sz m (out @ [c])"
proof -
  let ?k = "min (length out) (unat sz - 1)"
  have sz: "0 < unat sz" "unat sz < 2 ^ 64" using assms unat_lt64 [of sz] by (simp_all add: unat_gt_0)
  have k: "unat (of_nat ?k :: u64) = ?k" using sz by (intro unat_of_nat64) linarith
  then have k1: "unat (of_nat ?k + 1 :: u64) = ?k + 1" using sz by (simp add: unat_word_ariths)
  have len: "length (take (unat sz - 1) out) = ?k" by (simp add: min.commute)
  show ?thesis
  proof (cases "length out < unat sz - 1")
    case True
    then have "of_nat ?k + 1 < sz" using k1 by (simp add: word_less_nat_alt)
    moreover have "(place buf (take (unat sz - 1) out) m)(buf + of_nat ?k := c) = place buf (take (unat sz - 1) out @ [c]) m"
      using place_snoc [of "take (unat sz - 1) out" buf m c] len sz by simp
    ultimately show ?thesis using True by (simp add: emit_def out_state_def add.commute del: fun_upd_apply)
  next
    case False
    then have "\<not> of_nat ?k + 1 < sz" using k1 sz by (simp add: word_less_nat_alt)
    then show ?thesis using False by (simp add: emit_def out_state_def)
  qed
qed

lemma fold_emit_out: "0 < sz \<Longrightarrow> fold (emit buf sz) xs (out_state buf sz m out) = out_state buf sz m (out @ xs)"
  by (induction xs arbitrary: out) (simp_all add: emit_out)

lemma uint_digits_text:
  assumes "2 \<le> base" "v \<noteq> 0"
  shows "rev (uint_digits base upper v) = num_text (unat base) upper (unat v)"
  using assms
proof (induction base upper v rule: uint_digits.induct)
  case (1 base upper v)
  have b: "2 \<le> unat base" "\<not> base < 2" using 1(2) by (simp_all add: word_le_nat_alt word_less_nat_alt)
  have d: "v div base = 0 \<longleftrightarrow> unat v < unat base" using b by (auto simp: word_unat_eq_iff unat_div_distrib div_eq_0_iff)
  have m: "of_nat (unat v mod unat base) = v mod base" by (simp flip: unat_mod_distrib)
  show ?case
  proof (cases "v div base = 0")
    case True
    then have "v mod base = v" using d by (simp add: word_unat_eq_iff unat_mod_distrib)
    then show ?thesis using True b 1(3) d
      by (simp add: uint_digits.simps [of base upper v] uint_digits.simps [of base upper 0] num_text_def nat_digits.simps [of "unat base" "unat v"])
  next
    case False
    then show ?thesis using 1(1) [OF _ 1(2) False] b 1(3) d m
      by (simp add: uint_digits.simps [of base upper v] num_text_def nat_digits.simps [of "unat base" "unat v"] unat_div_distrib)
  qed
qed

text \<open>Every number fits the 20 bytes of \<^verbatim>\<open>tmp\<close>.\<close>

lemma uint_digits_fit: "base = 10 \<or> base = 16 \<Longrightarrow> length (uint_digits base upper v) \<le> 20"
proof (cases "v = 0")
  case True
  then show ?thesis by (simp add: uint_digits.simps [of base upper 0])
next
  case False
  assume base: "base = 10 \<or> base = 16"
  have "length (uint_digits base upper v) = length (nat_digits (unat base) (unat v))"
    using arg_cong [OF uint_digits_text [OF _ False, of base upper], of length] base by (auto simp: num_text_def)
  also have "\<dots> \<le> 20"
  proof (rule nat_digits_length)
    show "unat v < unat base ^ 20" using base unat_lt64 [of v] by auto
  qed (use base in auto)
  finally show ?thesis .
qed

lemma emit_uint_out:
  assumes "0 < sz" "2 \<le> base"
  shows "emit_uint buf sz v base upper width zero (out_state buf sz m out) =
    out_state buf sz m (out @ pad_text (if zero then CHR ''0'' else CHR '' '') width (num_text (unat base) upper (unat v)))"
proof -
  let ?tmp = "if v = 0 then [chr8 CHR ''0''] else uint_digits base upper v"
  have "rev ?tmp = num_text (unat base) upper (unat v)"
  proof (cases "v = 0")
    case True
    have "0 < unat base" using assms(2) by (simp add: word_le_nat_alt)
    then show ?thesis using True by (cases upper) (simp_all add: num_text_def nat_digits.simps [of "unat base" 0] digit_chr_def)
  next
    case False
    then show ?thesis using uint_digits_text [OF assms(2) False, of upper] by simp
  qed
  moreover have "length ?tmp = length (rev ?tmp)" by simp
  ultimately show ?thesis
    using assms(1) by (simp add: emit_uint_def Let_def fold_emit_out pad_text_def del: length_rev fold_replicate)
qed

lemma abs_unat: "i = sint v \<Longrightarrow> nat \<bar>i\<bar> = unat (if v <s 0 then - v else v)" for v :: u64
proof -
  assume i: "i = sint v"
  have r: "- (2 ^ 63) \<le> sint v" "sint v < 2 ^ 63" using sint_ge [of v] sint_lt [of v] by simp_all
  have w: "v = word_of_int (sint v)" by simp
  have um: "uint (word_of_int x :: u64) = x mod 2 ^ 64" for x by (simp add: unsigned_of_int take_bit_eq_mod)
  show ?thesis
  proof (cases "sint v < 0")
    case True
    then have "v <s 0" by (simp add: word_sless_alt)
    moreover have "uint (- v) = - sint v"
    proof -
      have "- v = word_of_int (- sint v)" using w by (metis wi_hom_neg)
      then have "uint (- v) = (- sint v) mod 2 ^ 64" by (metis um)
      then show ?thesis using r True by simp
    qed
    ultimately show ?thesis using True i by (simp add: unat_eq_nat_uint)
  next
    case False
    then have "\<not> v <s 0" by (simp add: word_sless_alt)
    moreover have "uint v = sint v"
    proof -
      have "uint v = sint v mod 2 ^ 64" using w by (metis um)
      then show ?thesis using r False by simp
    qed
    ultimately show ?thesis using False i by (simp add: unat_eq_nat_uint)
  qed
qed

lemma emit_num_out:
  assumes "0 < sz"
  shows "emit_num buf sz c zero width lng a (out_state buf sz m out) = out_state buf sz m (out @ spec_num c zero width lng a)"
proof -
  have u: "unat (va_unsigned lng a) = (if lng = 0 then unat a mod 2 ^ 32 else unat a)"
    by (simp add: va_unsigned_def unsigned_ucast_eq take_bit_eq_mod unat_mod_distrib)
  define i where "i = (if lng = 0 then sint (ucast a :: u32) else sint a)"
  have "signed_take_bit 63 (sint (ucast a :: u32)) = sint (ucast a :: u32)"
    using sint_ge [of "ucast a :: u32"] sint_lt [of "ucast a :: u32"] by (intro signed_take_bit_int_eq_self) simp_all
  then have i: "i = sint (va_signed lng a)" by (simp add: i_def va_signed_def signed_scast_eq)
  have neg: "va_signed lng a <s 0 \<longleftrightarrow> i < 0" by (simp add: i word_sless_alt)
  note abs = abs_unat [OF i]
  note em = emit_out [OF assms] emit_uint_out [OF assms]
  show ?thesis
  proof (cases "c = chr8 CHR ''d'' \<or> c = chr8 CHR ''i''")
    case True
    then show ?thesis using abs neg by (cases "i < 0") (simp_all add: emit_num_def spec_num_def Let_def em i_def [symmetric])
  next
    case False
    then show ?thesis by (simp add: emit_num_def spec_num_def Let_def em u)
  qed
qed

lemma emit_str_out:
  assumes "0 < sz"
  shows "emit_str buf sz so width left (out_state buf sz m out) = out_state buf sz m (out @
    (let s = (case so of None \<Rightarrow> map of_char ''(null)'' | Some s \<Rightarrow> s)
     in if left then s @ replicate (nat (width - int (length s))) (chr8 CHR '' '') else pad_text CHR '' '' width s))"
  by (simp add: emit_str_def Let_def fold_emit_out [OF assms] pad_text_def del: fold_replicate split del: option.split)

lemma emit_conv_out:
  assumes "0 < sz"
  shows "emit_conv buf sz c left zero width lng args (out_state buf sz m out) =
    map_option (\<lambda>(t, args). (out_state buf sz m (out @ t), args)) (spec_text left zero width lng c args)"
  unfolding emit_conv_def spec_text_def
  by (simp add: emit_out [OF assms] emit_str_out [OF assms] emit_num_out [OF assms] Let_def del: list.map set_simps split: list.split va.split)

lemma kv_loop_out:
  assumes "0 < sz"
  shows "kv_loop buf sz fmt args (out_state buf sz m out) =
    (case parse_format fmt of None \<Rightarrow> None
     | Some items \<Rightarrow> map_option (\<lambda>t. out_state buf sz m (out @ t)) (format_text items args))"
proof (induction fmt arbitrary: args out rule: parse_format.induct)
  case 1 then show ?case by simp
next
  case (2 c f)
  show ?case
  proof (cases "c = chr8 CHR ''%''")
    case False
    then show ?thesis using 2(1) [OF False, of args "out @ [c]"]
      by (simp add: emit_out [OF assms] option.map_comp o_def split: option.splits)
  next
    case True
    obtain l z w n f' where sp: "scan_spec f = ((l, z, w, n), f')" by (cases "scan_spec f") auto
    show ?thesis
    proof (cases "f = [] \<or> f' = []")
      case e: True
      then show ?thesis using True sp by auto
    next
      case e: False
      then obtain c' f'' where f': "f' = c' # f''" by (cases f') auto
      have IH: "kv_loop buf sz f'' args' (out_state buf sz m out') =
        (case parse_format f'' of None \<Rightarrow> None
         | Some items \<Rightarrow> map_option (\<lambda>t. out_state buf sz m (out' @ t)) (format_text items args'))" for args' out'
        by (rule 2(2)) (use True e sp f' in auto)
      show ?thesis using True e sp f' IH
        by (cases "spec_text l z w n c' args") (auto simp: emit_conv_out [OF assms] option.map_comp o_def split: option.splits)
    qed
  qed
qed



end
