(* ===== verification/Path.thy ===== *)
theory Path
  imports Exo_Prelude
begin

text \<open>
  Path manipulation (\<^verbatim>\<open>rust/src/path.rs\<close>).  A C string is the list of its bytes before the terminator, an output
  buffer the list of its bytes.  An access outside a slice panics in Rust; the operations return \<open>None\<close> there.
\<close>

abbreviation VFS_MOUNT_PATH_MAX :: nat where "VFS_MOUNT_PATH_MAX \<equiv> 512"
abbreviation VFS_NAME_MAX :: nat where "VFS_NAME_MAX \<equiv> 255"
abbreviation SLASH :: u8 where "SLASH \<equiv> 47"
abbreviation DOT :: u8 where "DOT \<equiv> 46"

definition copy_slice :: "u8 list \<Rightarrow> nat \<Rightarrow> u8 list \<Rightarrow> u8 list option" where
  "copy_slice out i xs = (if i + length xs \<le> length out then Some (take i out @ xs @ drop (i + length xs) out) else None)"

definition buf_append :: "u8 list \<Rightarrow> nat \<Rightarrow> u8 list \<Rightarrow> (u8 list \<times> nat) option option" where
  "buf_append dst offset src =
     (if offset + length src \<ge> length dst then Some None
      else map_option (\<lambda>d. Some (d, offset + length src)) (copy_slice dst offset (src @ [0])))"

fun pop_back :: "u8 list \<Rightarrow> nat \<Rightarrow> nat" where
  "pop_back out n = (if n > 1 \<and> out ! (n - 1) \<noteq> SLASH then pop_back out (n - 1) else n)"

declare pop_back.simps [simp del]

definition strip_last :: "u8 list \<Rightarrow> nat \<Rightarrow> (u8 list \<times> nat) option" where
  "strip_last out out_len =
     (if out_len > 1 then
        let n = pop_back out out_len; n = (if n > 1 then n - 1 else n)
        in map_option (\<lambda>d. (d, n)) (copy_slice out n [0])
      else Some (out, out_len))"

text \<open>\<open>Inl\<close> is the return of \<^verbatim>\<open>-EINVAL\<close>, with the buffer as it then is.\<close>

definition append_comp :: "u8 list \<Rightarrow> u8 list \<Rightarrow> nat \<Rightarrow> (u8 list + u8 list \<times> nat) option" where
  "append_comp cmp out out_len =
     (if out_len > 1 \<and> out_len + 1 \<ge> VFS_MOUNT_PATH_MAX then Some (Inl out)
      else case (if out_len > 1 then map_option (\<lambda>d. (d, out_len + 1)) (copy_slice out out_len [SLASH]) else Some (out, out_len)) of
        None \<Rightarrow> None
      | Some (out, out_len) \<Rightarrow>
          if out_len + length cmp \<ge> VFS_MOUNT_PATH_MAX then Some (Inl out)
          else map_option (\<lambda>d. Inr (d, out_len + length cmp)) (copy_slice out out_len (cmp @ [0])))"

function norm_loop :: "u8 list \<Rightarrow> u8 list \<Rightarrow> nat \<Rightarrow> (int \<times> u8 list) option" where
  "norm_loop inp out out_len =
     (let inp = dropWhile (\<lambda>c. c = SLASH) inp in
      if inp = [] then Some (0, out)
      else
        let cmp = takeWhile (\<lambda>c. c \<noteq> SLASH) inp; rest = dropWhile (\<lambda>c. c \<noteq> SLASH) inp in
        if length cmp > VFS_NAME_MAX then Some (- EINVAL, out)
        else if cmp = [DOT] then norm_loop rest out out_len
        else if cmp = [DOT, DOT] then
          (case strip_last out out_len of None \<Rightarrow> None | Some (out, out_len) \<Rightarrow> norm_loop rest out out_len)
        else
          (case append_comp cmp out out_len of
             None \<Rightarrow> None
           | Some (Inl out) \<Rightarrow> Some (- EINVAL, out)
           | Some (Inr (out, out_len)) \<Rightarrow> norm_loop rest out out_len))"
  by pat_completeness auto

lemma comp_shorter:
  assumes "dropWhile (\<lambda>c. c = SLASH) inp \<noteq> []"
  shows "length (dropWhile (\<lambda>c. c \<noteq> SLASH) (dropWhile (\<lambda>c. c = SLASH) inp)) < length inp"
proof -
  obtain c r where r: "dropWhile (\<lambda>c. c = SLASH) inp = c # r" using assms by (cases "dropWhile (\<lambda>c. c = SLASH) inp") auto
  then have "c \<noteq> SLASH" using hd_dropWhile [OF assms] by simp
  then have "length (dropWhile (\<lambda>c. c \<noteq> SLASH) (c # r)) \<le> length r" by (simp add: length_dropWhile_le)
  moreover have "length (c # r) \<le> length inp" using length_dropWhile_le [of "\<lambda>c. c = SLASH" inp] r by simp
  ultimately show ?thesis using r by simp
qed

termination norm_loop
  by (relation "measure (\<lambda>(inp, out, out_len). length inp)") (auto intro: comp_shorter)

declare norm_loop.simps [simp del]

definition path_normalize :: "u8 list \<Rightarrow> u8 list \<Rightarrow> (int \<times> u8 list) option" where
  "path_normalize inp out =
     (case inp of
        c # _ \<Rightarrow>
          if c \<noteq> SLASH then Some (- EINVAL, out)
          else (case copy_slice out 0 [SLASH, 0] of None \<Rightarrow> None | Some out \<Rightarrow> norm_loop inp out 1)
      | [] \<Rightarrow> Some (- EINVAL, out))"

text \<open>The string in a buffer.\<close>

definition buf_str :: "u8 list \<Rightarrow> u8 list" where
  "buf_str buf = takeWhile (\<lambda>c. c \<noteq> 0) buf"

definition path_join :: "u8 list \<Rightarrow> u8 list \<Rightarrow> u8 list \<Rightarrow> (int \<times> u8 list) option" where
  "path_join base rel out =
     (if (case rel of c # _ \<Rightarrow> c = SLASH | [] \<Rightarrow> False) then path_normalize rel out
      else
        let tmp = replicate (VFS_MOUNT_PATH_MAX * 2) 0 in
        case buf_append tmp 0 base of
          None \<Rightarrow> None | Some None \<Rightarrow> Some (- EINVAL, out)
        | Some (Some (tmp, pos)) \<Rightarrow>
        (case buf_append tmp pos [SLASH] of
          None \<Rightarrow> None | Some None \<Rightarrow> Some (- EINVAL, out)
        | Some (Some (tmp, pos)) \<Rightarrow>
        (case buf_append tmp pos rel of
          None \<Rightarrow> None | Some None \<Rightarrow> Some (- EINVAL, out)
        | Some (Some (tmp, pos)) \<Rightarrow> path_normalize (buf_str tmp) out)))"

fun trim_slashes :: "u8 list \<Rightarrow> nat \<Rightarrow> nat" where
  "trim_slashes bytes n = (if n > 1 \<and> bytes ! (n - 1) = SLASH then trim_slashes bytes (n - 1) else n)"

fun last_slash :: "u8 list \<Rightarrow> nat \<Rightarrow> nat" where
  "last_slash bytes n = (if n > 0 \<and> bytes ! (n - 1) \<noteq> SLASH then last_slash bytes (n - 1) else n)"

declare trim_slashes.simps [simp del] last_slash.simps [simp del]

definition path_dirname :: "u8 list \<Rightarrow> u8 list \<Rightarrow> u8 list option" where
  "path_dirname bytes out =
     (let out_sz = length out in
      if out_sz = 0 then Some out
      else
        let len = trim_slashes bytes (length bytes); lst = last_slash bytes len in
        if lst = 0 \<or> lst = 1 then copy_slice out 0 (if 1 < out_sz then [SLASH, 0] else [SLASH])
        else let copy = min (lst - 1) (out_sz - 1) in copy_slice out 0 (take copy bytes @ [0]))"

definition path_basename :: "u8 list \<Rightarrow> u8 list \<Rightarrow> u8 list option" where
  "path_basename bytes out =
     (let out_sz = length out in
      if out_sz = 0 then Some out
      else
        let len = trim_slashes bytes (length bytes); lst = last_slash bytes len; blen = len - lst in
        if blen = 0 then copy_slice out 0 (if 1 < out_sz then [SLASH, 0] else [SLASH])
        else let copy = min blen (out_sz - 1) in copy_slice out 0 (take copy (drop lst bytes) @ [0]))"

section \<open>What normalisation means\<close>

text \<open>The components of a path, and the stack of components a path denotes.\<close>

fun split_slash :: "u8 list \<Rightarrow> u8 list list" where
  "split_slash [] = [[]]"
| "split_slash (c # cs) =
     (if c = SLASH then [] # split_slash cs else (c # hd (split_slash cs)) # tl (split_slash cs))"

definition components :: "u8 list \<Rightarrow> u8 list list" where
  "components p = filter (\<lambda>c. c \<noteq> []) (split_slash p)"

definition path_text :: "u8 list list \<Rightarrow> u8 list" where
  "path_text st = (if st = [] then [SLASH] else concat (map (Cons SLASH) st))"

fun resolve :: "u8 list list \<Rightarrow> u8 list list \<Rightarrow> u8 list list option" where
  "resolve st [] = Some st"
| "resolve st (c # cs) =
     (if length c > VFS_NAME_MAX then None
      else if c = [DOT] then resolve st cs
      else if c = [DOT, DOT] then resolve (butlast st) cs
      else if length (path_text (st @ [c])) \<ge> VFS_MOUNT_PATH_MAX then None
      else resolve (st @ [c]) cs)"

definition good_comp :: "u8 list \<Rightarrow> bool" where
  "good_comp c \<longleftrightarrow> c \<noteq> [] \<and> SLASH \<notin> set c \<and> 0 \<notin> set c \<and> c \<noteq> [DOT] \<and> c \<noteq> [DOT, DOT] \<and> length c \<le> VFS_NAME_MAX"

lemma split_slash_nonempty [simp]: "split_slash p \<noteq> []"
  by (cases p) auto

lemma split_slash_word: "SLASH \<notin> set w \<Longrightarrow> split_slash (w @ r) = (w @ hd (split_slash r)) # tl (split_slash r)"
  by (induction w) auto

lemma components_slash [simp]: "components (SLASH # p) = components p"
  by (simp add: components_def)

lemma components_skip: "components p = components (dropWhile (\<lambda>c. c = SLASH) p)"
  by (induction p) auto

lemma components_word:
  assumes "w \<noteq> []" "SLASH \<notin> set w" "r = [] \<or> hd r = SLASH"
  shows "components (w @ r) = w # components r"
  using assms split_slash_word [of w r] by (cases r) (auto simp: components_def)

lemma components_step:
  assumes "dropWhile (\<lambda>c. c = SLASH) p \<noteq> []"
  defines "w \<equiv> takeWhile (\<lambda>c. c \<noteq> SLASH) (dropWhile (\<lambda>c. c = SLASH) p)"
    and "r \<equiv> dropWhile (\<lambda>c. c \<noteq> SLASH) (dropWhile (\<lambda>c. c = SLASH) p)"
  shows "components p = w # components r" "w \<noteq> []" "SLASH \<notin> set w" "set w \<subseteq> set p" "set r \<subseteq> set p"
proof -
  have "hd (dropWhile (\<lambda>c. c = SLASH) p) \<noteq> SLASH" using hd_dropWhile [OF assms(1)] by simp
  then show w: "w \<noteq> []" using assms(1) by (cases "dropWhile (\<lambda>c. c = SLASH) p") (auto simp: w_def)
  show s: "SLASH \<notin> set w" by (auto simp: w_def dest: set_takeWhileD)
  have "r = [] \<or> hd r = SLASH" using hd_dropWhile [of "\<lambda>c. c \<noteq> SLASH" "dropWhile (\<lambda>c. c = SLASH) p"] by (auto simp: r_def)
  then have "components (w @ r) = w # components r" using components_word w s by blast
  then show "components p = w # components r" using components_skip [of p] by (simp add: w_def r_def)
  show "set w \<subseteq> set p" "set r \<subseteq> set p" by (auto simp: w_def r_def dest!: set_takeWhileD set_dropWhileD)
qed

lemma path_text_snoc: "path_text (st @ [c]) = (if st = [] then [] else path_text st) @ SLASH # c"
  by (simp add: path_text_def)

lemma path_text_pos: "0 < length (path_text st)"
  by (cases st) (auto simp: path_text_def)

lemma path_text_root: "length (path_text st) > 1 \<longleftrightarrow> st \<noteq> []" if "\<forall>c \<in> set st. c \<noteq> []" for st
  using that by (cases st) (auto simp: path_text_def)

section \<open>The buffer holds the stack\<close>

definition holds :: "u8 list \<Rightarrow> nat \<Rightarrow> u8 list list \<Rightarrow> bool" where
  "holds out n st \<longleftrightarrow> length out = VFS_MOUNT_PATH_MAX \<and> n = length (path_text st) \<and> n < VFS_MOUNT_PATH_MAX \<and>
     take (Suc n) out = path_text st @ [0] \<and> (\<forall>c \<in> set st. good_comp c)"

lemma holds_take: "holds out n st \<Longrightarrow> take n out = path_text st"
proof -
  assume h: "holds out n st"
  have "take n out = take n (take (Suc n) out)" by simp
  also have "take (Suc n) out = path_text st @ [0]" using h unfolding holds_def by blast
  also have "take n (path_text st @ [0]) = path_text st" using h by (simp add: holds_def)
  finally show ?thesis .
qed

lemma pop_back_eq:
  assumes "1 \<le> k" "k \<le> n" "\<And>i. k \<le> i \<Longrightarrow> i < n \<Longrightarrow> out ! i \<noteq> SLASH" "k = 1 \<or> out ! (k - 1) = SLASH"
  shows "pop_back out n = k"
  using assms(2,3)
proof (induction n)
  case 0 then show ?case using assms(1) by simp
next
  case (Suc n)
  show ?case
  proof (cases "k = Suc n")
    case True
    then show ?thesis using assms(4) by (auto simp: pop_back.simps [of out "Suc n"])
  next
    case False
    then have "pop_back out n = k" using Suc by auto
    then show ?thesis using Suc.prems(2) [of n] Suc.prems(1) False assms(1) by (simp add: pop_back.simps [of out "Suc n"])
  qed
qed

lemma copy_slice_some: "i + length xs \<le> length out \<Longrightarrow> copy_slice out i xs = Some (take i out @ xs @ drop (i + length xs) out)"
  by (simp add: copy_slice_def)

lemma strip_last_holds:
  assumes h: "holds out n st"
  shows "\<exists>out' n'. strip_last out n = Some (out', n') \<and> holds out' n' (butlast st)"
proof (cases st rule: rev_cases)
  case Nil
  then show ?thesis using h by (auto simp: strip_last_def holds_def path_text_def)
next
  case (snoc st' c)
  note H = h [unfolded holds_def]
  have c: "c \<noteq> []" "SLASH \<notin> set c" and st': "\<forall>c \<in> set st'. c \<noteq> []" using H snoc by (auto simp: good_comp_def)
  define k where "k = (if st' = [] then 0 else length (path_text st'))"
  have n: "n = k + 1 + length c" using H snoc by (simp add: path_text_snoc k_def)
  have tk: "take n out = path_text st" using holds_take [OF h] .
  then have nth: "out ! i = path_text st ! i" if "i < n" for i using that by (metis nth_take)
  have tx: "path_text st = (if st' = [] then [] else path_text st') @ SLASH # c" using snoc by (simp add: path_text_snoc)
  have pb: "pop_back out n = k + 1"
  proof (rule pop_back_eq)
    show "out ! i \<noteq> SLASH" if i: "k + 1 \<le> i" "i < n" for i
    proof -
      have "out ! i = c ! (i - (k + 1))" using nth [OF i(2)] i by (simp add: tx nth_append k_def split: if_splits)
      then show ?thesis using c(2) i n by (auto simp: in_set_conv_nth)
    qed
    show "k + 1 = 1 \<or> out ! (k + 1 - 1) = SLASH" using nth [of k] n by (simp add: tx nth_append k_def)
  qed (use n in simp_all)
  have pos: "k > 0 \<longleftrightarrow> st' \<noteq> []" using path_text_pos by (simp add: k_def)
  let ?m = "length (path_text st')"
  have m: "(if k + 1 > 1 then k + 1 - 1 else k + 1) = ?m" using pos by (auto simp: k_def path_text_def)
  have le: "?m < n" "?m < VFS_MOUNT_PATH_MAX" using n H c pos by (cases st', auto simp: k_def path_text_def split: if_splits)+
  have pre: "take ?m out = path_text st'"
  proof -
    have "take ?m out = take ?m (path_text st)" using tk le(1) by (metis min.absorb1 less_imp_le take_take)
    then show ?thesis by (simp add: tx) (simp add: path_text_def)
  qed
  have "strip_last out n = Some (take ?m out @ [0] @ drop (?m + 1) out, ?m)"
    unfolding strip_last_def Let_def pb m using n c le(2) H by (simp add: copy_slice_def)
  moreover have "holds (take ?m out @ [0] @ drop (?m + 1) out) ?m (butlast st)"
    using H le pre snoc by (auto simp: holds_def)
  ultimately show ?thesis by blast
qed

lemma append_comp_holds:
  assumes h: "holds out n st" and c: "good_comp c"
  shows "if length (path_text (st @ [c])) \<ge> VFS_MOUNT_PATH_MAX then \<exists>out'. append_comp c out n = Some (Inl out')
    else \<exists>out' n'. append_comp c out n = Some (Inr (out', n')) \<and> holds out' n' (st @ [c])"
proof -
  note H = h [unfolded holds_def]
  have root: "n > 1 \<longleftrightarrow> st \<noteq> []" using H path_text_root [of st] by (auto simp: good_comp_def)
  have tk: "take n out = path_text st" using holds_take [OF h] .
  have len: "length (path_text (st @ [c])) = (if st = [] then 0 else n) + 1 + length c" using H by (simp add: path_text_snoc)
  show ?thesis
  proof (cases "st = []")
    case True
    then have n: "n = 1" using H by (simp add: path_text_def)
    then show ?thesis using H root True c tk len
      by (auto simp: append_comp_def copy_slice_def holds_def path_text_def)
  next
    case False
    then have "n > 1" using root by simp
    then show ?thesis using H False c tk len
      by (auto simp: append_comp_def copy_slice_def holds_def path_text_snoc)
  qed
qed

lemma norm_loop_resolves:
  assumes "holds out n st" "0 \<notin> set inp"
  shows "\<exists>out'. norm_loop inp out n = Some (case resolve st (components inp) of None \<Rightarrow> - EINVAL | Some _ \<Rightarrow> 0, out') \<and>
    (\<forall>st'. resolve st (components inp) = Some st' \<longrightarrow> holds out' (length (path_text st')) st')"
  using assms
proof (induction inp arbitrary: out n st rule: length_induct)
  case (1 inp)
  note h = \<open>holds out n st\<close> and nz = \<open>0 \<notin> set inp\<close>
  let ?i = "dropWhile (\<lambda>c. c = SLASH) inp"
  show ?case
  proof (cases "?i = []")
    case True
    then have "components inp = []" using components_skip [of inp] unfolding True by (simp add: components_def)
    then show ?thesis using True h by (auto simp: norm_loop.simps [of inp] holds_def)
  next
    case False
    define w r where "w = takeWhile (\<lambda>c. c \<noteq> SLASH) ?i" and "r = dropWhile (\<lambda>c. c \<noteq> SLASH) ?i"
    note cs = components_step [OF False, folded w_def r_def]
    have nzr: "0 \<notin> set r" and nzw: "0 \<notin> set w" using nz cs(4,5) by auto
    have sh: "length r < length inp" using comp_shorter [OF False] by (simp add: r_def)
    note IH = 1(1) [rule_format, OF sh _ nzr]
    note eq = norm_loop.simps [of inp out n, unfolded Let_def, folded w_def r_def, unfolded if_not_P [OF False]]
    consider "length w > VFS_NAME_MAX" | "w = [DOT]" | "w = [DOT, DOT]" | "good_comp w"
      using cs(2,3) nzw unfolding good_comp_def by linarith
    then show ?thesis
    proof cases
      case 1 then show ?thesis using cs(1) by (simp add: eq)
    next
      case 2 then show ?thesis using cs(1) IH [OF h] by (simp add: eq)
    next
      case 3
      obtain out' n' where "strip_last out n = Some (out', n')" "holds out' n' (butlast st)" using strip_last_holds [OF h] by blast
      then show ?thesis using cs(1) IH [of out' n' "butlast st"] 3 by (simp add: eq)
    next
      case g: 4
      then have nd: "\<not> length w > VFS_NAME_MAX" "w \<noteq> [DOT]" "w \<noteq> [DOT, DOT]" by (auto simp: good_comp_def)
      show ?thesis
      proof (cases "length (path_text (st @ [w])) \<ge> VFS_MOUNT_PATH_MAX")
        case True
        then obtain out' where "append_comp w out n = Some (Inl out')" using append_comp_holds [OF h g] by auto
        then show ?thesis using cs(1) nd True by (simp add: eq)
      next
        case fits: False
        then obtain out' n' where "append_comp w out n = Some (Inr (out', n'))" "holds out' n' (st @ [w])"
          using append_comp_holds [OF h g] by auto
        then show ?thesis using cs(1) nd fits IH [of out' n' "st @ [w]"] by (simp add: eq)
      qed
    qed
  qed
qed

lemma path_text_bytes: "\<forall>c \<in> set st. good_comp c \<Longrightarrow> 0 \<notin> set (path_text st)"
  by (auto simp: path_text_def good_comp_def)

lemma buf_str_prefix:
  assumes "take (Suc (length s)) d = s @ [0]" "0 \<notin> set s"
  shows "buf_str d = s"
proof -
  have "buf_str (take (Suc (length s)) d @ drop (Suc (length s)) d) = s"
    unfolding assms(1) buf_str_def append.assoc using assms(2) by (subst takeWhile_append2) auto
  then show ?thesis unfolding append_take_drop_id .
qed

lemma holds_str: "holds out n st \<Longrightarrow> buf_str out = path_text st"
  by (rule buf_str_prefix) (auto simp: holds_def dest: path_text_bytes)

lemma path_normalize_resolves:
  assumes "length out = VFS_MOUNT_PATH_MAX" "0 \<notin> set inp"
  defines "res \<equiv> if inp \<noteq> [] \<and> hd inp = SLASH then resolve [] (components inp) else None"
  shows "\<exists>out'. path_normalize inp out = Some (case res of None \<Rightarrow> - EINVAL | Some _ \<Rightarrow> 0, out') \<and>
    (\<forall>st. res = Some st \<longrightarrow> holds out' (length (path_text st)) st)"
proof (cases "inp \<noteq> [] \<and> hd inp = SLASH")
  case False
  then show ?thesis by (cases inp) (auto simp: path_normalize_def res_def)
next
  case True
  let ?o = "[SLASH, 0] @ drop 2 out"
  have h: "holds ?o 1 []" using assms(1) by (simp add: holds_def path_text_def)
  have e: "path_normalize inp out = norm_loop inp ?o 1"
    using True assms(1) by (cases inp) (auto simp: path_normalize_def copy_slice_def numeral_2_eq_2)
  show ?thesis unfolding e res_def using norm_loop_resolves [OF h assms(2)] True by simp
qed

lemma resolve_good: "\<forall>c \<in> set cs. good_comp c \<Longrightarrow> length (path_text (st @ cs)) < VFS_MOUNT_PATH_MAX \<Longrightarrow> resolve st cs = Some (st @ cs)"
proof (induction cs arbitrary: st)
  case Nil then show ?case by simp
next
  case (Cons c cs)
  have "length (path_text (st @ [c])) \<le> length (path_text ((st @ [c]) @ cs))" by (simp add: path_text_def)
  then show ?case using Cons.IH [of "st @ [c]"] Cons.prems by (auto simp: good_comp_def)
qed

lemma components_text: "\<forall>c \<in> set st. good_comp c \<Longrightarrow> components (path_text st) = st"
proof -
  have "components (concat (map (Cons SLASH) st)) = st" if "\<forall>c \<in> set st. good_comp c" for st
    using that
  proof (induction st)
    case Nil then show ?case by (simp add: components_def)
  next
    case (Cons c st)
    have "concat (map (Cons SLASH) st) = [] \<or> hd (concat (map (Cons SLASH) st)) = SLASH" by (cases st) auto
    then show ?case using Cons components_word [of c "concat (map (Cons SLASH) st)"] by (auto simp: good_comp_def)
  qed
  then show "\<forall>c \<in> set st. good_comp c \<Longrightarrow> components (path_text st) = st" by (cases "st = []") (auto simp: path_text_def components_def)
qed

text \<open>C36: \<^verbatim>\<open>path_normalize\<close> computes the path its input denotes.  For every input string and every 512-byte buffer it
  returns without panicking; the value is \<^verbatim>\<open>-EINVAL\<close> exactly when the path is relative, has a component longer than
  255 bytes or at some component outgrows the buffer, and otherwise the buffer holds, terminated, the slash-separated
  stack of components that remains when single dots are skipped and double dots remove the component before them.
  Normalising the result again changes nothing.
\<close>

theorem path_normalize_denotes:
  assumes "length out = VFS_MOUNT_PATH_MAX" "0 \<notin> set inp"
  shows "case (if inp \<noteq> [] \<and> hd inp = SLASH then resolve [] (components inp) else None) of
      None \<Rightarrow> \<exists>out'. path_normalize inp out = Some (- EINVAL, out')
    | Some st \<Rightarrow> \<exists>out'. path_normalize inp out = Some (0, out') \<and> buf_str out' = path_text st \<and> (\<forall>c \<in> set st. good_comp c) \<and>
        (\<exists>out''. path_normalize (buf_str out') out' = Some (0, out'') \<and> buf_str out'' = buf_str out')"
    (is "case ?res of None \<Rightarrow> _ | Some st \<Rightarrow> _ st")
proof -
  obtain out' where o: "path_normalize inp out = Some (case ?res of None \<Rightarrow> - EINVAL | Some _ \<Rightarrow> 0, out')"
    "\<forall>st. ?res = Some st \<longrightarrow> holds out' (length (path_text st)) st"
    using path_normalize_resolves [OF assms] by blast
  show ?thesis
  proof (cases ?res)
    case None
    then show ?thesis using o(1) unfolding None option.case by blast
  next
    case (Some st)
    have h: "holds out' (length (path_text st)) st" using o(2) Some by blast
    note H = h [unfolded holds_def]
    have good: "\<forall>c \<in> set st. good_comp c" using H by blast
    have tx: "path_text st \<noteq> []" "hd (path_text st) = SLASH" by (cases st; simp add: path_text_def)+
    have "resolve [] (components (path_text st)) = Some st" using components_text [OF good] resolve_good [OF good, of "[]"] H by simp
    then obtain out'' where "path_normalize (path_text st) out' = Some (0, out'')" "holds out'' (length (path_text st)) st"
      using path_normalize_resolves [of out' "path_text st"] H path_text_bytes [OF good] tx by auto
    moreover have "path_normalize inp out = Some (0, out')" using o(1) unfolding Some option.case .
    ultimately show ?thesis using holds_str [OF h] holds_str good unfolding Some option.case by auto
  qed
qed

theorem path_normalize_denotes_witness:
  "\<exists>out'. path_normalize [47, 97, 47, 46, 46, 47, 47, 98, 47, 46] (replicate 512 1) = Some (0, out') \<and> buf_str out' = [47, 98]"
proof -
  let ?p = "[47, 97, 47, 46, 46, 47, 47, 98, 47, 46] :: u8 list"
  have r: "(if ?p \<noteq> [] \<and> hd ?p = SLASH then resolve [] (components ?p) else None) = Some [[98]]" by (simp add: components_def path_text_def)
  have p: "path_text [[98]] = [47, 98]" by (simp add: path_text_def)
  have "length (replicate 512 (1 :: u8)) = VFS_MOUNT_PATH_MAX" by (rule length_replicate)
  moreover have "0 \<notin> set ?p" by simp
  ultimately show ?thesis using path_normalize_denotes [of "replicate 512 1" ?p] unfolding r option.case p by blast
qed

section \<open>Taking a path apart and joining it\<close>

lemma last_slash_eq:
  assumes "k \<le> n" "\<And>i. k \<le> i \<Longrightarrow> i < n \<Longrightarrow> p ! i \<noteq> SLASH" "k = 0 \<or> p ! (k - 1) = SLASH"
  shows "last_slash p n = k"
  using assms(1,2)
proof (induction n)
  case 0 then show ?case by (simp add: last_slash.simps [of p 0])
next
  case (Suc n)
  show ?case
  proof (cases "k = Suc n")
    case True
    then show ?thesis using assms(3) by (auto simp: last_slash.simps [of p "Suc n"])
  next
    case False
    then have "last_slash p n = k" using Suc by auto
    then show ?thesis using Suc.prems(2) [of n] Suc.prems(1) False by (simp add: last_slash.simps [of p "Suc n"])
  qed
qed

lemma split_text:
  assumes "\<forall>x \<in> set st. good_comp x" "good_comp c"
  defines "p \<equiv> path_text (st @ [c])" and "k \<equiv> (if st = [] then 0 else length (path_text st))"
  shows "trim_slashes p (length p) = length p" "last_slash p (length p) = k + 1" "length p = k + 1 + length c"
    "take k p = (if st = [] then [] else path_text st)" "drop (k + 1) p = c"
proof -
  have c: "c \<noteq> []" "SLASH \<notin> set c" using assms(2) by (auto simp: good_comp_def)
  have p: "p = (if st = [] then [] else path_text st) @ SLASH # c" by (simp add: p_def path_text_snoc)
  show len: "length p = k + 1 + length c" "take k p = (if st = [] then [] else path_text st)" "drop (k + 1) p = c" by (simp_all add: p k_def)
  have nth: "p ! i = c ! (i - (k + 1))" if "k + 1 \<le> i" for i using that by (simp add: p nth_append k_def split: if_splits)
  have "p ! (length p - 1) \<noteq> SLASH" using nth [of "length p - 1"] len c by (auto simp: in_set_conv_nth Suc_le_eq)
  then show "trim_slashes p (length p) = length p" by (simp add: trim_slashes.simps [of p "length p"])
  show "last_slash p (length p) = k + 1"
  proof (rule last_slash_eq)
    show "p ! i \<noteq> SLASH" if "k + 1 \<le> i" "i < length p" for i using nth [OF that(1)] that len c(2) by (auto simp: in_set_conv_nth)
    show "k + 1 = 0 \<or> p ! (k + 1 - 1) = SLASH" by (simp add: p nth_append k_def)
  qed (use len in simp)
qed

lemma str_copy: "0 \<notin> set s \<Longrightarrow> length s < length out \<Longrightarrow> \<exists>out'. copy_slice out 0 (s @ [0]) = Some out' \<and> buf_str out' = s"
  by (auto simp: copy_slice_def buf_str_def takeWhile_append takeWhile_eq_all_conv)

lemma path_dirname_text:
  assumes "\<forall>x \<in> set st. good_comp x" "good_comp c" "length (path_text st) < length out"
  shows "\<exists>d. path_dirname (path_text (st @ [c])) out = Some d \<and> buf_str d = path_text st"
proof -
  note S = split_text [OF assms(1,2)]
  have nz: "0 \<notin> set (path_text st)" by (rule path_text_bytes [OF assms(1)])
  show ?thesis
  proof (cases "st = []")
    case True
    then have "path_dirname (path_text (st @ [c])) out = copy_slice out 0 (path_text st @ [0])"
      using S(1,2) assms(3) by (auto simp: path_dirname_def Let_def path_text_def)
    then show ?thesis using str_copy [OF nz assms(3)] by simp
  next
    case False
    then have "length (path_text st) > 0" using path_text_pos by simp
    then have "path_dirname (path_text (st @ [c])) out = copy_slice out 0 (path_text st @ [0])"
      using S(1,2,4) assms(3) False by (auto simp: path_dirname_def Let_def min_def)
    then show ?thesis using str_copy [OF nz assms(3)] by simp
  qed
qed

lemma path_basename_text:
  assumes "\<forall>x \<in> set st. good_comp x" "good_comp c" "length c < length out"
  shows "\<exists>b. path_basename (path_text (st @ [c])) out = Some b \<and> buf_str b = c"
proof -
  note S = split_text [OF assms(1,2)]
  have c: "0 \<notin> set c" "c \<noteq> []" using assms(2) by (auto simp: good_comp_def)
  have "path_basename (path_text (st @ [c])) out = copy_slice out 0 (c @ [0])"
    unfolding path_basename_def Let_def S(1,2) S(5) using S(3) assms(3) c(2) by (auto simp: min_def)
  then show ?thesis using str_copy [OF c(1) assms(3)] by simp
qed

lemma split_slash_append: "split_slash (p @ SLASH # q) = split_slash p @ split_slash q"
  by (induction p) auto

lemma components_append: "components (p @ SLASH # q) = components p @ components q"
  by (simp add: components_def split_slash_append)

lemma buf_append_at:
  assumes "take (length s) dst = s" "length s + length src < length dst"
  shows "\<exists>dst'. buf_append dst (length s) src = Some (Some (dst', length (s @ src))) \<and> length dst' = length dst \<and>
    take (Suc (length (s @ src))) dst' = s @ src @ [0]"
  using assms by (auto simp: buf_append_def copy_slice_def)

lemma take_prefix:
  assumes "take (Suc (length s)) d = s @ [0]"
  shows "take (length s) d = s"
proof -
  have "take (length s) d = take (length s) (take (Suc (length s)) d)" by simp
  also have "\<dots> = s" unfolding assms by simp
  finally show ?thesis .
qed

lemma path_join_text:
  assumes "base \<noteq> []" "0 \<notin> set base" "0 \<notin> set rel" "SLASH \<notin> set rel" "length base + length rel + 1 < VFS_MOUNT_PATH_MAX * 2"
  shows "path_join base rel out = path_normalize (base @ SLASH # rel) out"
proof -
  have app: "\<exists>t. buf_append tmp 0 base = Some (Some (t, length base)) \<and> length t = length tmp \<and> take (length base) t = base"
    if "length tmp = VFS_MOUNT_PATH_MAX * 2" for tmp
    using buf_append_at [of "[]" tmp base] assms(5) that by (auto dest: take_prefix)
  obtain t1 where t1: "buf_append (replicate (VFS_MOUNT_PATH_MAX * 2) 0) 0 base = Some (Some (t1, length base))"
    "length t1 = VFS_MOUNT_PATH_MAX * 2" "take (length base) t1 = base"
    using app [OF length_replicate] unfolding length_replicate by blast
  obtain t2 where t2: "buf_append t1 (length base) [SLASH] = Some (Some (t2, length (base @ [SLASH])))"
    "length t2 = VFS_MOUNT_PATH_MAX * 2" "take (length (base @ [SLASH])) t2 = base @ [SLASH]"
    using buf_append_at [of base t1 "[SLASH]"] t1 assms(5) take_prefix [of "base @ [SLASH]"] by auto
  obtain t3 where t3: "buf_append t2 (length (base @ [SLASH])) rel = Some (Some (t3, length ((base @ [SLASH]) @ rel)))"
    "take (Suc (length ((base @ [SLASH]) @ rel))) t3 = (base @ [SLASH]) @ rel @ [0]"
    using buf_append_at [of "base @ [SLASH]" t2 rel] t2 assms(5) by auto
  have str: "buf_str t3 = base @ SLASH # rel" by (rule buf_str_prefix) (use t3(2) assms(2,3) in auto)
  have nabs: "\<not> (case rel of c # _ \<Rightarrow> c = SLASH | [] \<Rightarrow> False)" using assms(4) by (cases rel) auto
  show ?thesis unfolding path_join_def Let_def if_not_P [OF nabs] t1(1) option.case prod.case t2(1) t3(1) str ..
qed

text \<open>C37: taking a path apart and joining the parts gives the path back.  For every normalised path other than the root,
  \<^verbatim>\<open>path_dirname\<close> yields the normalised path of its parent and \<^verbatim>\<open>path_basename\<close> its last component, whenever
  the buffers have room, and \<^verbatim>\<open>path_join\<close> of the two is the path again.
\<close>

theorem path_split_join:
  assumes "\<forall>x \<in> set (st @ [c]). good_comp x" "length (path_text (st @ [c])) < VFS_MOUNT_PATH_MAX"
    and "length (path_text st) < length o1" "length c < length o2" "length o3 = VFS_MOUNT_PATH_MAX"
  shows "\<exists>d b j. path_dirname (path_text (st @ [c])) o1 = Some d \<and> path_basename (path_text (st @ [c])) o2 = Some b \<and>
    buf_str d = path_text st \<and> buf_str b = c \<and>
    path_join (buf_str d) (buf_str b) o3 = Some (0, j) \<and> buf_str j = path_text (st @ [c])"
proof -
  have g: "\<forall>x \<in> set st. good_comp x" "good_comp c" using assms(1) by auto
  obtain d where d: "path_dirname (path_text (st @ [c])) o1 = Some d" "buf_str d = path_text st"
    using path_dirname_text [OF g assms(3)] by blast
  obtain b where b: "path_basename (path_text (st @ [c])) o2 = Some b" "buf_str b = c"
    using path_basename_text [OF g assms(4)] by blast
  let ?p = "path_text st @ SLASH # c"
  have nz: "0 \<notin> set (path_text st)" "0 \<notin> set c" "SLASH \<notin> set c" "length c \<le> VFS_NAME_MAX" "c \<noteq> []"
    using path_text_bytes [OF g(1)] g(2) by (auto simp: good_comp_def)
  have tx: "path_text st \<noteq> []" "hd (path_text st) = SLASH" by (cases st; simp add: path_text_def)+
  have "length (path_text st) < VFS_MOUNT_PATH_MAX" using assms(2) by (cases "st = []") (auto simp: path_text_snoc path_text_def)
  then have j: "path_join (path_text st) c o3 = path_normalize ?p o3" using tx nz by (intro path_join_text) auto
  have "components ?p = st @ [c]"
    using components_text [OF g(1)] components_word [of c "[]"] nz by (simp add: components_append components_def [of "[]"])
  then have "resolve [] (components ?p) = Some (st @ [c])" using resolve_good [of "st @ [c]" "[]"] assms(1,2) by simp
  then obtain o' where "path_normalize ?p o3 = Some (0, o')" "holds o' (length (path_text (st @ [c]))) (st @ [c])"
    using path_normalize_resolves [OF assms(5), of ?p] nz tx by auto
  then show ?thesis using d b j holds_str by auto
qed

theorem path_split_join_witness:
  "\<exists>d b j. path_dirname [47, 97, 47, 98] [1, 1, 1, 1] = Some d \<and> path_basename [47, 97, 47, 98] [1, 1] = Some b \<and>
    buf_str d = [47, 97] \<and> buf_str b = [98] \<and> path_join (buf_str d) (buf_str b) (replicate 512 1) = Some (0, j) \<and> buf_str j = [47, 97, 47, 98]"
proof -
  have p: "path_text ([[97]] @ [[98]]) = [47, 97, 47, 98]" "path_text [[97]] = [47, 97]" by (simp_all add: path_text_def)
  have "length (replicate 512 (1 :: u8)) = VFS_MOUNT_PATH_MAX" by (rule length_replicate)
  from path_split_join [of "[[97]]" "[98]" "[1, 1, 1, 1]" "[1, 1]", OF _ _ _ _ this, unfolded p] show ?thesis
    by this (simp_all add: good_comp_def)
qed

end
