(* ===== verification/Queues.thy ===== *)
theory Queues
  imports Exo_Prelude
begin

text \<open>
  Two interfaces the components share.  \<open>bounded_fifo\<close> is the contract of a queue
  that accepts an element only while there is room and gives elements back in
  order; its client lemma says that over any sequence of operations what comes
  out, followed by what is still inside, is what was inside followed by what was
  accepted.  The second part is the intrusive singly linked list with head and
  tail pointers that several C structures use: the \<^verbatim>\<open>next\<close> fields are a store from
  pointers to optional pointers, and a walk from the head recovers the list.
\<close>

section \<open>Bounded queues\<close>

datatype 'a qop = Enq 'a | Deq

locale bounded_fifo =
  fixes invar :: "'s \<Rightarrow> bool" and contents :: "'s \<Rightarrow> 'a list" and capacity :: "'s \<Rightarrow> nat"
    and push :: "'a \<Rightarrow> 's \<Rightarrow> 's \<times> bool" and pop :: "'s \<Rightarrow> 's \<times> 'a option"
  assumes push_room: "invar s \<Longrightarrow> length (contents s) < capacity s \<Longrightarrow>
      snd (push x s) \<and> invar (fst (push x s)) \<and> contents (fst (push x s)) = contents s @ [x] \<and>
      capacity (fst (push x s)) = capacity s"
    and push_full: "invar s \<Longrightarrow> \<not> length (contents s) < capacity s \<Longrightarrow> push x s = (s, False)"
    and pop_empty: "invar s \<Longrightarrow> contents s = [] \<Longrightarrow> pop s = (s, None)"
    and pop_some: "invar s \<Longrightarrow> contents s = x # xs \<Longrightarrow>
      snd (pop s) = Some x \<and> invar (fst (pop s)) \<and> contents (fst (pop s)) = xs \<and>
      capacity (fst (pop s)) = capacity s"
    and within_capacity: "invar s \<Longrightarrow> length (contents s) \<le> capacity s"
begin

fun run :: "'a qop list \<Rightarrow> 's \<Rightarrow> 's \<times> 'a list \<times> 'a list" where
  "run [] s = (s, [], [])"
| "run (Enq x # ops) s =
     (let (s1, ok) = push x s; (s2, outs, acc) = run ops s1
      in (s2, outs, if ok then x # acc else acc))"
| "run (Deq # ops) s =
     (let (s1, r) = pop s; (s2, outs, acc) = run ops s1
      in (s2, case r of None \<Rightarrow> outs | Some x \<Rightarrow> x # outs, acc))"

lemma push_cases:
  assumes "invar s"
  obtains (room) s1 where "push x s = (s1, True)" "invar s1" "contents s1 = contents s @ [x]" "capacity s1 = capacity s"
    | (full) "push x s = (s, False)" "length (contents s) = capacity s"
proof (cases "length (contents s) < capacity s")
  case True then show ?thesis using push_room [OF assms True] room [of "fst (push x s)"]
    by (metis (full_types) prod.collapse)
next
  case False then show ?thesis using push_full [OF assms False] within_capacity [OF assms] full by force
qed

lemma pop_cases:
  assumes "invar s"
  obtains (none) "pop s = (s, None)" "contents s = []"
    | (some) x s1 where "pop s = (s1, Some x)" "invar s1" "contents s = x # contents s1" "capacity s1 = capacity s"
proof (cases "contents s")
  case Nil then show ?thesis using pop_empty [OF assms] none by blast
next
  case (Cons x xs) then show ?thesis using pop_some [OF assms Cons] some [of "fst (pop s)" x] by (metis prod.collapse)
qed

lemma run_order:
  assumes "invar s" "run ops s = (s', outs, acc)"
  shows "invar s' \<and> outs @ contents s' = contents s @ acc \<and> length (contents s') \<le> capacity s"
  using assms
proof (induction ops arbitrary: s outs acc)
  case Nil then show ?case using within_capacity by auto
next
  case (Cons op ops)
  show ?case
  proof (cases op)
    case (Enq x)
    from Cons.prems(1) show ?thesis
    proof (cases rule: push_cases [where x = x])
      case (room s1)
      with Cons.prems(2) Enq obtain acc1 where "run ops s1 = (s', outs, acc1)" "acc = x # acc1"
        by (auto split: prod.splits)
      with Cons.IH [OF room(2)] room show ?thesis by fastforce
    next
      case full
      with Cons.prems(2) Enq have "run ops s = (s', outs, acc)" by (auto split: prod.splits)
      with Cons.IH [OF Cons.prems(1)] show ?thesis by blast
    qed
  next
    case Deq
    from Cons.prems(1) show ?thesis
    proof (cases rule: pop_cases)
      case none
      with Cons.prems(2) Deq have "run ops s = (s', outs, acc)" by (auto split: prod.splits)
      with Cons.IH [OF Cons.prems(1)] show ?thesis by blast
    next
      case (some x s1)
      with Cons.prems(2) Deq obtain outs1 where "run ops s1 = (s', outs1, acc)" "outs = x # outs1"
        by (auto split: prod.splits)
      with Cons.IH [OF some(2)] some show ?thesis by fastforce
    qed
  qed
qed

end

section \<open>Intrusive linked queues\<close>

record 'p lqueue =
  lq_head :: "'p option"
  lq_tail :: "'p option"

text \<open>The nodes met in \<open>n\<close> steps from \<open>h\<close>.\<close>

fun walk :: "('p \<Rightarrow> 'p option) \<Rightarrow> nat \<Rightarrow> 'p option \<Rightarrow> 'p list" where
  "walk nxt 0 h = []"
| "walk nxt (Suc n) None = []"
| "walk nxt (Suc n) (Some p) = p # walk nxt n (nxt p)"

text \<open>\<open>chain nxt h xs\<close>: following \<open>nxt\<close> from \<open>h\<close> visits exactly \<open>xs\<close> and ends in NULL.\<close>

fun chain :: "('p \<Rightarrow> 'p option) \<Rightarrow> 'p option \<Rightarrow> 'p list \<Rightarrow> bool" where
  "chain nxt h [] = (h = None)"
| "chain nxt h (x # xs) = (h = Some x \<and> chain nxt (nxt x) xs)"

definition lqueue_ok :: "('p \<Rightarrow> 'p option) \<Rightarrow> 'p lqueue \<Rightarrow> 'p list \<Rightarrow> bool" where
  "lqueue_ok nxt q xs \<longleftrightarrow> chain nxt (lq_head q) xs \<and> distinct xs \<and>
     lq_tail q = (if xs = [] then None else Some (last xs))"

lemma chain_walk: "chain nxt h xs \<Longrightarrow> walk nxt (length xs) h = xs"
  by (induction xs arbitrary: h) auto

lemma chain_cong: "(\<And>x. x \<in> set xs \<Longrightarrow> nxt x = nxt' x) \<Longrightarrow> chain nxt h xs = chain nxt' h xs"
  by (induction xs arbitrary: h) auto

lemma chain_upd_other: "p \<notin> set xs \<Longrightarrow> chain (nxt(p := v)) h xs = chain nxt h xs"
  by (rule chain_cong) auto

lemma chain_snoc:
  "chain nxt h xs \<Longrightarrow> xs \<noteq> [] \<Longrightarrow> distinct (xs @ [p]) \<Longrightarrow> nxt p = None \<Longrightarrow>
     chain (nxt(last xs := Some p)) h (xs @ [p])"
proof (induction xs arbitrary: h)
  case (Cons x xs)
  show ?case
  proof (cases "xs = []")
    case True then show ?thesis using Cons.prems by auto
  next
    case False
    then have "x \<noteq> last xs" using Cons.prems(3) by auto
    then show ?thesis using Cons False by auto
  qed
qed simp

subsection \<open>Enqueue at the tail, dequeue at the head\<close>

definition lq_append :: "'p \<Rightarrow> ('p \<Rightarrow> 'p option) \<times> 'p lqueue \<Rightarrow> ('p \<Rightarrow> 'p option) \<times> 'p lqueue" where
  "lq_append p st =
     (let (nxt, q) = st; nxt = nxt(p := None) in
      case lq_tail q of
        Some t \<Rightarrow> (nxt(t := Some p), q\<lparr>lq_tail := Some p\<rparr>)
      | None \<Rightarrow> (nxt, \<lparr>lq_head = Some p, lq_tail = Some p\<rparr>))"

definition lq_take :: "('p \<Rightarrow> 'p option) \<times> 'p lqueue \<Rightarrow> (('p \<Rightarrow> 'p option) \<times> 'p lqueue) \<times> 'p option" where
  "lq_take st =
     (let (nxt, q) = st in
      case lq_head q of
        None \<Rightarrow> (st, None)
      | Some p \<Rightarrow>
          let q = q\<lparr>lq_head := nxt p\<rparr>;
              q = (if lq_head q = None then q\<lparr>lq_tail := None\<rparr> else q)
          in ((nxt(p := None), q), Some p))"

lemma lq_append_ok:
  assumes "lqueue_ok nxt q xs" "p \<notin> set xs"
  shows "case lq_append p (nxt, q) of (nxt', q') \<Rightarrow> lqueue_ok nxt' q' (xs @ [p])"
proof (cases "xs = []")
  case True then show ?thesis using assms by (simp add: lq_append_def lqueue_ok_def)
next
  case False
  then have "chain ((nxt(p := None))(last xs := Some p)) (lq_head q) (xs @ [p])"
    using assms by (intro chain_snoc) (auto simp: lqueue_ok_def chain_upd_other)
  then show ?thesis using False assms by (simp add: lq_append_def lqueue_ok_def)
qed

lemma lq_take_empty: "lqueue_ok nxt q [] \<Longrightarrow> lq_take (nxt, q) = ((nxt, q), None)"
  by (simp add: lq_take_def lqueue_ok_def)

lemma lq_take_ok:
  assumes "lqueue_ok nxt q (x # xs)"
  shows "case lq_take (nxt, q) of ((nxt', q'), r) \<Rightarrow> lqueue_ok nxt' q' xs \<and> r = Some x"
proof -
  have c: "lq_head q = Some x" "chain nxt (nxt x) xs" "x \<notin> set xs" "distinct xs"
    "lq_tail q = Some (last (x # xs))" using assms by (auto simp: lqueue_ok_def)
  have "chain (nxt(x := None)) (nxt x) xs" using c by (simp add: chain_upd_other)
  moreover have "nxt x = None \<longleftrightarrow> xs = []" using c(2) by (cases xs) auto
  ultimately show ?thesis using c by (auto simp: lq_take_def lqueue_ok_def)
qed

section \<open>Rings\<close>

text \<open>The \<open>n\<close> elements of a ring that start at index \<open>tail\<close>.\<close>

definition ring_list :: "'a list \<Rightarrow> nat \<Rightarrow> nat \<Rightarrow> 'a list" where
  "ring_list buf tail n = map (\<lambda>i. buf ! ((tail + i) mod length buf)) [0..<n]"

lemma length_ring_list [simp]: "length (ring_list buf tail n) = n"
  by (simp add: ring_list_def)

lemma ring_list_0 [simp]: "ring_list buf tail 0 = []"
  by (simp add: ring_list_def)

lemma ring_push:
  assumes "n < length buf"
  shows "ring_list (buf[(tail + n) mod length buf := x]) tail (Suc n) = ring_list buf tail n @ [x]"
proof -
  have l: "0 < length buf" using assms by linarith
  have "(tail + i) mod length buf \<noteq> (tail + n) mod length buf" if "i < n" for i
  proof
    assume e: "(tail + i) mod length buf = (tail + n) mod length buf"
    then have "length buf dvd (tail + n) - (tail + i)" using that by (subst mod_eq_dvd_iff_nat [symmetric]) simp_all
    then have "length buf dvd n - i" by simp
    then have "length buf \<le> n - i" using that by (intro dvd_imp_le) simp_all
    then show False using assms by simp
  qed
  then show ?thesis using l by (fastforce simp: ring_list_def nth_list_update)
qed

lemma ring_pop:
  assumes "tail < length buf"
  shows "ring_list buf tail (Suc n) = buf ! tail # ring_list buf ((tail + 1) mod length buf) n"
proof -
  have "[0..<Suc n] = 0 # map Suc [0..<n]" by (simp only: upt_conv_Cons map_Suc_upt)
  then show ?thesis using assms by (simp add: ring_list_def mod_add_left_eq comp_def)
qed

lemma ring_drop:
  assumes "k \<le> n"
  shows "ring_list buf ((tail + k) mod length buf) (n - k) = drop k (ring_list buf tail n)"
proof (rule nth_equalityI)
  show "length (ring_list buf ((tail + k) mod length buf) (n - k)) = length (drop k (ring_list buf tail n))" by simp
  fix i assume "i < length (ring_list buf ((tail + k) mod length buf) (n - k))"
  then have "i < n - k" "k + i < n" by simp_all
  then show "ring_list buf ((tail + k) mod length buf) (n - k) ! i = drop k (ring_list buf tail n) ! i"
    using assms by (simp add: ring_list_def mod_add_left_eq add.assoc)
qed

lemma ring_take: "k \<le> n \<Longrightarrow> ring_list buf tail k = take k (ring_list buf tail n)"
  by (simp add: ring_list_def take_map)

end
