(* ===== verification/Fd.thy ===== *)
theory Fd
  imports Queues "HOL-Library.Monad_Syntax"
begin

unbundle bit_operations_syntax

text \<open>
  Open files, descriptor tables and pipes (\<^verbatim>\<open>fs/fd.c\<close>, \<^verbatim>\<open>ipc/pipe.c\<close>, and the descriptor calls of
  \<^verbatim>\<open>syscall/syscall.c\<close> and \<^verbatim>\<open>syscall/proc_syscalls.c\<close>).  Files and pipes are heap objects at addresses; a step
  that touches a freed one has no result.  An address that the kernel allocator hands out, or its failure, is an
  argument.  Calls that leave the component (file systems, drivers, wake-ups, signals) are recorded in order.
\<close>

section \<open>State\<close>

definition FD_TABLE_SIZE :: nat where "FD_TABLE_SIZE = 256"
definition TASK_TABLE_SIZE :: nat where "TASK_TABLE_SIZE = 1024"
definition PIPE_BUF_SIZE :: nat where "PIPE_BUF_SIZE = 4096"

abbreviation FD_CLOEXEC :: u8 where "FD_CLOEXEC \<equiv> 1"
abbreviation O_WRONLY :: u32 where "O_WRONLY \<equiv> 1"
abbreviation O_ACCMODE :: u32 where "O_ACCMODE \<equiv> 3"
abbreviation O_APPEND :: u32 where "O_APPEND \<equiv> 0x400"
abbreviation O_NONBLOCK :: u32 where "O_NONBLOCK \<equiv> 0x800"
abbreviation O_CLOEXEC :: u32 where "O_CLOEXEC \<equiv> 0x80000"

datatype fops = PipeR nat | PipeW nat | Driver nat

record file_t =
  fl_vnode :: "nat option"
  fl_ops :: "fops option"
  fl_offset :: u64
  fl_flags :: u32
  fl_refcount :: u32

record pipe =
  pp_buf :: "u8 list"
  pp_read_pos :: u32
  pp_write_pos :: u32
  pp_count :: u32
  pp_readers :: u32
  pp_writers :: u32

datatype outcall = VnodeGet nat | VnodeClose nat | VnodePut nat | DriverClose nat
  | WakeReader nat | WakeWriter nat | WakeReaders nat | WakeWriters nat | SigPipe nat

record fdst =
  fs_files :: "nat \<Rightarrow> file_t option"
  fs_pipes :: "nat \<Rightarrow> pipe option"
  fs_table :: "nat \<Rightarrow> nat \<Rightarrow> nat option"
  fs_flags :: "nat \<Rightarrow> nat \<Rightarrow> u8"
  fs_calls :: "outcall list"

definition outcall :: "outcall \<Rightarrow> fdst \<Rightarrow> fdst" where
  "outcall c s = s\<lparr>fs_calls := fs_calls s @ [c]\<rparr>"

definition set_file :: "nat \<Rightarrow> file_t option \<Rightarrow> fdst \<Rightarrow> fdst" where
  "set_file f x s = s\<lparr>fs_files := (fs_files s)(f := x)\<rparr>"

definition set_pipe :: "nat \<Rightarrow> pipe option \<Rightarrow> fdst \<Rightarrow> fdst" where
  "set_pipe p x s = s\<lparr>fs_pipes := (fs_pipes s)(p := x)\<rparr>"

definition set_slot :: "nat \<Rightarrow> nat \<Rightarrow> nat option \<Rightarrow> u8 \<Rightarrow> fdst \<Rightarrow> fdst" where
  "set_slot t i f fl s =
     s\<lparr>fs_table := (fs_table s)(t := (fs_table s t)(i := f)), fs_flags := (fs_flags s)(t := (fs_flags s t)(i := fl))\<rparr>"

section \<open>Pipes\<close>

definition pipe_put :: "u8 \<Rightarrow> pipe \<Rightarrow> pipe \<times> bool" where
  "pipe_put x p =
     (if pp_count p < of_nat PIPE_BUF_SIZE then
        (p\<lparr>pp_buf := (pp_buf p)[unat (pp_write_pos p) := x],
           pp_write_pos := (pp_write_pos p + 1) mod of_nat PIPE_BUF_SIZE, pp_count := pp_count p + 1\<rparr>, True)
      else (p, False))"

definition pipe_get :: "pipe \<Rightarrow> pipe \<times> u8 option" where
  "pipe_get p =
     (if pp_count p > 0 then
        (p\<lparr>pp_read_pos := (pp_read_pos p + 1) mod of_nat PIPE_BUF_SIZE, pp_count := pp_count p - 1\<rparr>,
         Some (pp_buf p ! unat (pp_read_pos p)))
      else (p, None))"

fun pipe_fill :: "u8 list \<Rightarrow> pipe \<Rightarrow> pipe \<times> nat" where
  "pipe_fill [] p = (p, 0)"
| "pipe_fill (x # xs) p =
     (let (p', ok) = pipe_put x p in if ok then let (p'', n) = pipe_fill xs p' in (p'', Suc n) else (p', 0))"

fun pipe_drain :: "nat \<Rightarrow> pipe \<Rightarrow> pipe \<times> u8 list" where
  "pipe_drain 0 p = (p, [])"
| "pipe_drain (Suc n) p =
     (let (p', r) = pipe_get p in case r of None \<Rightarrow> (p', []) | Some x \<Rightarrow> let (p'', xs) = pipe_drain n p' in (p'', x # xs))"

text \<open>A read or a round of a write returns a value, with the bytes for the reader, or blocks.  A blocked writer
  has written part of its bytes and resumes with the rest.\<close>

datatype io = Ret int "u8 list" | Block nat

definition pipe_read_op :: "u32 \<Rightarrow> nat \<Rightarrow> nat \<Rightarrow> fdst \<Rightarrow> (fdst \<times> io) option" where
  "pipe_read_op flags p count s =
     do {
       P \<leftarrow> fs_pipes s p;
       if pp_count P > 0 then
         let (P', xs) = pipe_drain (min (unat (pp_count P)) count) P
         in Some (outcall (WakeWriter p) (set_pipe p (Some P') s), Ret (int (length xs)) xs)
       else if pp_writers P = 0 then Some (s, Ret 0 [])
       else if flags AND O_NONBLOCK \<noteq> 0 then Some (s, Ret (- EAGAIN) [])
       else Some (s, Block 0)
     }"

definition pipe_write_round :: "u32 \<Rightarrow> nat \<Rightarrow> u8 list \<Rightarrow> nat \<Rightarrow> fdst \<Rightarrow> (fdst \<times> io) option" where
  "pipe_write_round flags p src done_n s =
     (if done_n \<ge> length src then Some (s, Ret (int done_n) [])
      else do {
        P \<leftarrow> fs_pipes s p;
        if pp_readers P = 0 then Some (s, Ret (if done_n > 0 then int done_n else - EPIPE) [])
        else
          let (P', n) = pipe_fill (drop done_n src) P; done_n = done_n + n;
              s = outcall (WakeReader p) (set_pipe p (Some P') s)
          in if done_n < length src then
               if flags AND O_NONBLOCK \<noteq> 0 then Some (s, Ret (if done_n > 0 then int done_n else - EAGAIN) [])
               else Some (s, Block done_n)
             else Some (s, Ret (int done_n) [])
      })"

definition pipe_write_op :: "nat \<Rightarrow> u32 \<Rightarrow> nat \<Rightarrow> u8 list \<Rightarrow> fdst \<Rightarrow> (fdst \<times> io) option" where
  "pipe_write_op cur flags p src s =
     do {
       P \<leftarrow> fs_pipes s p;
       if pp_readers P = 0 then Some (outcall (SigPipe cur) s, Ret (- EPIPE) [])
       else pipe_write_round flags p src 0 s
     }"

definition pipe_close_read :: "nat \<Rightarrow> fdst \<Rightarrow> fdst option" where
  "pipe_close_read p s =
     do {
       P \<leftarrow> fs_pipes s p;
       let P' = P\<lparr>pp_readers := pp_readers P - 1\<rparr>;
       let s = outcall (WakeWriters p) (set_pipe p (Some P') s);
       Some (if pp_readers P' = 0 \<and> pp_writers P' = 0 then set_pipe p None s else s)
     }"

definition pipe_close_write :: "nat \<Rightarrow> fdst \<Rightarrow> fdst option" where
  "pipe_close_write p s =
     do {
       P \<leftarrow> fs_pipes s p;
       let P' = P\<lparr>pp_writers := pp_writers P - 1\<rparr>;
       let s = outcall (WakeReaders p) (set_pipe p (Some P') s);
       Some (if pp_readers P' = 0 \<and> pp_writers P' = 0 then set_pipe p None s else s)
     }"

abbreviation POLLIN :: u32 where "POLLIN \<equiv> 1"
abbreviation POLLOUT :: u32 where "POLLOUT \<equiv> 4"
abbreviation POLLERR :: u32 where "POLLERR \<equiv> 8"
abbreviation POLLHUP :: u32 where "POLLHUP \<equiv> 0x10"
abbreviation POLLRDNORM :: u32 where "POLLRDNORM \<equiv> 0x40"

definition pipe_poll_read :: "u32 \<Rightarrow> pipe \<Rightarrow> u32" where
  "pipe_poll_read events P =
     (if events AND (POLLIN OR POLLRDNORM) \<noteq> 0 \<and> pp_count P > 0 then POLLIN OR POLLRDNORM else 0) OR
     (if pp_writers P = 0 then POLLHUP else 0)"

definition pipe_poll_write :: "u32 \<Rightarrow> pipe \<Rightarrow> u32" where
  "pipe_poll_write events P =
     (if pp_readers P = 0 then POLLERR
      else if events AND POLLOUT \<noteq> 0 \<and> pp_count P < of_nat PIPE_BUF_SIZE then POLLOUT else 0)"

section \<open>Open files\<close>

definition file_alloc :: "nat option \<Rightarrow> nat \<Rightarrow> u64 \<Rightarrow> u32 \<Rightarrow> fdst \<Rightarrow> fdst \<times> nat option" where
  "file_alloc mem v sz flags s =
     (case mem of
        None \<Rightarrow> (s, None)
      | Some f \<Rightarrow>
          (outcall (VnodeGet v) (set_file f (Some \<lparr>fl_vnode = Some v, fl_ops = None,
             fl_offset = (if flags AND O_APPEND \<noteq> 0 then sz else 0), fl_flags = flags, fl_refcount = 1\<rparr>) s), Some f))"

definition file_alloc_generic :: "nat option \<Rightarrow> fops \<Rightarrow> u32 \<Rightarrow> fdst \<Rightarrow> fdst \<times> nat option" where
  "file_alloc_generic mem ops flags s =
     (case mem of
        None \<Rightarrow> (s, None)
      | Some f \<Rightarrow> (set_file f (Some \<lparr>fl_vnode = None, fl_ops = Some ops, fl_offset = 0, fl_flags = flags, fl_refcount = 1\<rparr>) s, Some f))"

definition file_get :: "nat \<Rightarrow> fdst \<Rightarrow> fdst option" where
  "file_get f s = do { x \<leftarrow> fs_files s f; Some (set_file f (Some (x\<lparr>fl_refcount := fl_refcount x + 1\<rparr>)) s) }"

definition file_close :: "file_t \<Rightarrow> fdst \<Rightarrow> fdst option" where
  "file_close x s =
     (case fl_ops x of
        Some (PipeR p) \<Rightarrow> pipe_close_read p s
      | Some (PipeW p) \<Rightarrow> pipe_close_write p s
      | Some (Driver d) \<Rightarrow> Some (outcall (DriverClose d) s)
      | None \<Rightarrow> Some (case fl_vnode x of Some v \<Rightarrow> outcall (VnodePut v) (outcall (VnodeClose v) s) | None \<Rightarrow> s))"

definition file_put :: "nat \<Rightarrow> fdst \<Rightarrow> fdst option" where
  "file_put f s =
     do {
       x \<leftarrow> fs_files s f;
       if fl_refcount x = 0 then Some s
       else
         let x' = x\<lparr>fl_refcount := fl_refcount x - 1\<rparr>; s = set_file f (Some x') s
         in if fl_refcount x' = 0 then map_option (set_file f None) (file_close x' s) else Some s
     }"

section \<open>Descriptor tables\<close>

definition fd_alloc :: "nat \<Rightarrow> nat \<Rightarrow> fdst \<Rightarrow> (fdst \<times> int) option" where
  "fd_alloc t f s =
     (case find (\<lambda>i. fs_table s t i = None) [0..<FD_TABLE_SIZE] of
        Some i \<Rightarrow> map_option (\<lambda>s. (s, int i)) (file_get f (set_slot t i (Some f) 0 s))
      | None \<Rightarrow> Some (s, - 1))"

definition fd_install :: "nat \<Rightarrow> int \<Rightarrow> nat \<Rightarrow> fdst \<Rightarrow> (fdst \<times> int) option" where
  "fd_install t fd f s =
     (if fd < 0 \<or> fd \<ge> int FD_TABLE_SIZE then Some (s, - 1)
      else do {
        s \<leftarrow> (case fs_table s t (nat fd) of Some g \<Rightarrow> file_put g s | None \<Rightarrow> Some s);
        s \<leftarrow> file_get f (set_slot t (nat fd) (Some f) 0 s);
        Some (s, fd)
      })"

definition fd_get :: "nat \<Rightarrow> int \<Rightarrow> fdst \<Rightarrow> nat option" where
  "fd_get t fd s = (if fd < 0 \<or> fd \<ge> int FD_TABLE_SIZE then None else fs_table s t (nat fd))"

definition fd_close :: "nat \<Rightarrow> int \<Rightarrow> fdst \<Rightarrow> (fdst \<times> int) option" where
  "fd_close t fd s =
     (case fd_get t fd s of
        None \<Rightarrow> Some (s, - 1)
      | Some f \<Rightarrow> map_option (\<lambda>s. (set_slot t (nat fd) None 0 s, 0)) (file_put f s))"

definition fd_dup :: "nat \<Rightarrow> int \<Rightarrow> fdst \<Rightarrow> (fdst \<times> int) option" where
  "fd_dup t old s = (case fd_get t old s of None \<Rightarrow> Some (s, - 1) | Some f \<Rightarrow> fd_alloc t f s)"

definition fd_dup2 :: "nat \<Rightarrow> int \<Rightarrow> int \<Rightarrow> fdst \<Rightarrow> (fdst \<times> int) option" where
  "fd_dup2 t old new s =
     (if new < 0 \<or> new \<ge> int FD_TABLE_SIZE then Some (s, - 1)
      else if old = new then Some (s, if fd_get t old s \<noteq> None then new else - 1)
      else (case fd_get t old s of None \<Rightarrow> Some (s, - 1) | Some f \<Rightarrow> fd_install t new f s))"

fun close_slots :: "(nat \<Rightarrow> fdst \<Rightarrow> bool) \<Rightarrow> nat \<Rightarrow> nat list \<Rightarrow> fdst \<Rightarrow> fdst option" where
  "close_slots P t [] s = Some s"
| "close_slots P t (i # is) s =
     (if fs_table s t i \<noteq> None \<and> P i s then do { (s, r) \<leftarrow> fd_close t (int i) s; close_slots P t is s } else close_slots P t is s)"

definition fd_close_cloexec :: "nat \<Rightarrow> fdst \<Rightarrow> fdst option" where
  "fd_close_cloexec t s = close_slots (\<lambda>i s. fs_flags s t i AND FD_CLOEXEC \<noteq> 0) t [0..<FD_TABLE_SIZE] s"

definition fd_close_all :: "nat \<Rightarrow> fdst \<Rightarrow> fdst option" where
  "fd_close_all t s = close_slots (\<lambda>i s. True) t [0..<FD_TABLE_SIZE] s"

fun clone_slots :: "nat \<Rightarrow> nat \<Rightarrow> nat list \<Rightarrow> fdst \<Rightarrow> fdst option" where
  "clone_slots child parent [] s = Some s"
| "clone_slots child parent (i # is) s =
     (case fs_table s parent i of
        Some f \<Rightarrow> do { s \<leftarrow> file_get f s; clone_slots child parent is (set_slot child i (Some f) (fs_flags s parent i) s) }
      | None \<Rightarrow> clone_slots child parent is (set_slot child i (fs_table s child i) (fs_flags s parent i) s))"

definition fd_table_clone :: "nat \<Rightarrow> nat \<Rightarrow> fdst \<Rightarrow> fdst option" where
  "fd_table_clone child parent s = clone_slots child parent [0..<FD_TABLE_SIZE] s"

section \<open>System calls\<close>

definition or_flag :: "nat \<Rightarrow> nat \<Rightarrow> u8 \<Rightarrow> fdst \<Rightarrow> fdst" where
  "or_flag t i fl s = s\<lparr>fs_flags := (fs_flags s)(t := (fs_flags s t)(i := fs_flags s t i OR fl))\<rparr>"

definition sys_close :: "nat \<Rightarrow> int \<Rightarrow> fdst \<Rightarrow> (fdst \<times> int) option" where
  "sys_close t fd s = map_option (\<lambda>(s, r). (s, if r = 0 then 0 else - EBADF)) (fd_close t fd s)"

definition sys_dup :: "nat \<Rightarrow> int \<Rightarrow> fdst \<Rightarrow> (fdst \<times> int) option" where
  "sys_dup t old s = map_option (\<lambda>(s, r). (s, if r < 0 then - EBADF else r)) (fd_dup t old s)"

definition sys_dup2 :: "nat \<Rightarrow> int \<Rightarrow> int \<Rightarrow> fdst \<Rightarrow> (fdst \<times> int) option" where
  "sys_dup2 t old new s = map_option (\<lambda>(s, r). (s, if r < 0 then - EBADF else r)) (fd_dup2 t old new s)"

definition sc_dup3 :: "nat \<Rightarrow> u64 \<Rightarrow> u64 \<Rightarrow> u64 \<Rightarrow> fdst \<Rightarrow> (fdst \<times> int) option" where
  "sc_dup3 t a b c s =
     (if c AND NOT (ucast O_CLOEXEC) \<noteq> 0 then Some (s, - EINVAL)
      else if c_int a = c_int b then Some (s, - EINVAL)
      else do {
        (s, r) \<leftarrow> fd_dup2 t (c_int a) (c_int b) s;
        Some (if r \<ge> 0 \<and> c AND ucast O_CLOEXEC \<noteq> 0 then or_flag t (nat r) FD_CLOEXEC s else s, r)
      })"

definition fcntl_dupfd :: "bool \<Rightarrow> nat \<Rightarrow> int \<Rightarrow> nat \<Rightarrow> fdst \<Rightarrow> (fdst \<times> int) option" where
  "fcntl_dupfd cloexec t min_fd fp s =
     (if min_fd < 0 then Some (s, - EINVAL)
      else case find (\<lambda>i. fs_table s t i = None) [nat min_fd..<FD_TABLE_SIZE] of
        None \<Rightarrow> Some (s, - EMFILE)
      | Some i \<Rightarrow> do {
          (s, r) \<leftarrow> fd_install t (int i) fp s;
          Some (if r < 0 then (s, - EMFILE) else (if cloexec then or_flag t i FD_CLOEXEC s else s, r))
        })"

definition sc_fcntl :: "nat \<Rightarrow> u64 \<Rightarrow> u64 \<Rightarrow> u64 \<Rightarrow> fdst \<Rightarrow> (fdst \<times> int) option" where
  "sc_fcntl t a b c s =
     (case fd_get t (c_int a) s of
        None \<Rightarrow> Some (s, - EBADF)
      | Some fp \<Rightarrow>
          if c_int b = 0 then fcntl_dupfd False t (c_int c) fp s
          else if c_int b = 1 then Some (s, uint (fs_flags s t (nat (c_int a))))
          else if c_int b = 2 then
            Some (s\<lparr>fs_flags := (fs_flags s)(t := (fs_flags s t)(nat (c_int a) := ucast c AND FD_CLOEXEC))\<rparr>, 0)
          else if c_int b = 3 then do { x \<leftarrow> fs_files s fp; Some (s, sint (fl_flags x)) }
          else if c_int b = 4 then
            do { x \<leftarrow> fs_files s fp;
                 Some (set_file fp (Some (x\<lparr>fl_flags := (fl_flags x AND O_ACCMODE) OR (ucast c AND NOT O_ACCMODE)\<rparr>)) s, 0) }
          else if c_int b = 1030 then fcntl_dupfd True t (c_int c) fp s
          else Some (s, - EINVAL))"

definition pipe_init :: pipe where
  "pipe_init = \<lparr>pp_buf = replicate PIPE_BUF_SIZE 0, pp_read_pos = 0, pp_write_pos = 0, pp_count = 0, pp_readers = 1, pp_writers = 1\<rparr>"

definition or_file_flags :: "nat \<Rightarrow> u32 \<Rightarrow> fdst \<Rightarrow> fdst option" where
  "or_file_flags f fl s = do { x \<leftarrow> fs_files s f; Some (set_file f (Some (x\<lparr>fl_flags := fl_flags x OR fl\<rparr>)) s) }"

definition pipe2_finish :: "nat \<Rightarrow> u32 \<Rightarrow> nat \<Rightarrow> nat \<Rightarrow> int \<Rightarrow> int \<Rightarrow> fdst \<Rightarrow> (fdst \<times> int \<times> (int \<times> int) option) option" where
  "pipe2_finish t flags rd wr rfd wfd s =
     do {
       s \<leftarrow> (if flags AND O_NONBLOCK \<noteq> 0 then do { s \<leftarrow> or_file_flags rd O_NONBLOCK s; or_file_flags wr O_NONBLOCK s } else Some s);
       let s = (if flags AND O_CLOEXEC \<noteq> 0 then or_flag t (nat wfd) FD_CLOEXEC (or_flag t (nat rfd) FD_CLOEXEC s) else s);
       s \<leftarrow> file_put rd s;
       s \<leftarrow> file_put wr s;
       Some (s, 0, Some (rfd, wfd))
     }"

definition pipe2_fds :: "nat \<Rightarrow> u32 \<Rightarrow> nat \<Rightarrow> nat \<Rightarrow> fdst \<Rightarrow> (fdst \<times> int \<times> (int \<times> int) option) option" where
  "pipe2_fds t flags rd wr s =
     do {
       (s, rfd) \<leftarrow> fd_alloc t rd s;
       if rfd < 0 then do { s \<leftarrow> file_put rd s; s \<leftarrow> file_put wr s; Some (s, - EMFILE, None) }
       else do {
         (s, wfd) \<leftarrow> fd_alloc t wr s;
         if wfd < 0 then do { (s, r) \<leftarrow> fd_close t rfd s; s \<leftarrow> file_put rd s; s \<leftarrow> file_put wr s; Some (s, - EMFILE, None) }
         else pipe2_finish t flags rd wr rfd wfd s
       }
     }"

definition sys_pipe2 :: "nat \<Rightarrow> u32 \<Rightarrow> nat option \<Rightarrow> nat option \<Rightarrow> nat option \<Rightarrow> fdst \<Rightarrow> (fdst \<times> int \<times> (int \<times> int) option) option" where
  "sys_pipe2 t flags pmem rmem wmem s =
     (case pmem of
        None \<Rightarrow> Some (s, - ENOMEM, None)
      | Some p \<Rightarrow>
          (case file_alloc_generic rmem (PipeR p) 0 (set_pipe p (Some pipe_init) s) of
             (s, None) \<Rightarrow> Some (set_pipe p None s, - ENOMEM, None)
           | (s, Some rd) \<Rightarrow>
               (case file_alloc_generic wmem (PipeW p) O_WRONLY s of
                  (s, None) \<Rightarrow> map_option (\<lambda>s. (set_pipe p None s, - ENOMEM, None)) (file_put rd s)
                | (s, Some wr) \<Rightarrow> pipe2_fds t flags rd wr s)))"

text \<open>The end of \<^verbatim>\<open>sys_openat\<close>, and of the creation of a socket, which keeps the creator's reference.\<close>

definition open_install :: "nat \<Rightarrow> nat \<Rightarrow> u64 \<Rightarrow> u32 \<Rightarrow> nat option \<Rightarrow> fdst \<Rightarrow> (fdst \<times> int) option" where
  "open_install t v sz flags mem s =
     (case file_alloc mem v sz (flags AND NOT O_CLOEXEC) s of
        (s, None) \<Rightarrow> Some (outcall (VnodePut v) s, - ENOMEM)
      | (s, Some f) \<Rightarrow> do {
          (s, fd) \<leftarrow> fd_alloc t f (outcall (VnodePut v) s);
          s \<leftarrow> file_put f s;
          Some (if fd < 0 then (s, - EMFILE)
                else (if flags AND O_CLOEXEC \<noteq> 0 then or_flag t (nat fd) FD_CLOEXEC s else s, fd))
        })"

definition socket_install :: "nat \<Rightarrow> nat \<Rightarrow> bool \<Rightarrow> nat option \<Rightarrow> fdst \<Rightarrow> (fdst \<times> int) option" where
  "socket_install t sk cloexec mem s =
     (case file_alloc_generic mem (Driver sk) 0 s of
        (s, None) \<Rightarrow> Some (s, - 1)
      | (s, Some f) \<Rightarrow> do {
          (s, fd) \<leftarrow> fd_alloc t f s;
          if fd < 0 then do { s \<leftarrow> file_put f s; Some (s, - 1) }
          else Some (if cloexec then or_flag t (nat fd) FD_CLOEXEC s else s, fd)
        })"

section \<open>Reading and writing through a descriptor\<close>

text \<open>What the file system and the drivers answer to this call.\<close>

record io_env =
  env_isdir :: bool
  env_access :: int
  env_size :: u64
  env_ret :: int
  env_data :: "u8 list"

definition set_offset :: "nat \<Rightarrow> file_t \<Rightarrow> u64 \<Rightarrow> fdst \<Rightarrow> fdst" where
  "set_offset f x off s = set_file f (Some (x\<lparr>fl_offset := off\<rparr>)) s"

definition sys_read :: "nat \<Rightarrow> int \<Rightarrow> nat \<Rightarrow> io_env \<Rightarrow> fdst \<Rightarrow> (fdst \<times> io) option" where
  "sys_read t fd count env s =
     (if count = 0 then Some (s, Ret 0 [])
      else case fd_get t fd s of
        None \<Rightarrow> Some (s, Ret (- EBADF) [])
      | Some f \<Rightarrow> do {
          x \<leftarrow> fs_files s f;
          if fl_flags x AND O_ACCMODE = O_WRONLY then Some (s, Ret (- EACCES) [])
          else case fl_ops x of
            Some (PipeR p) \<Rightarrow> pipe_read_op (fl_flags x) p count s
          | Some (PipeW p) \<Rightarrow> Some (s, Ret (- EINVAL) [])
          | Some (Driver d) \<Rightarrow> Some (s, Ret (env_ret env) (env_data env))
          | None \<Rightarrow>
              if fl_vnode x = None then Some (s, Ret (- EINVAL) [])
              else if env_isdir env then Some (s, Ret (- EISDIR) [])
              else if env_access env < 0 then Some (s, Ret (env_access env) [])
              else if env_ret env < 0 then Some (s, Ret (env_ret env) [])
              else Some (set_offset f x (fl_offset x + word_of_int (env_ret env)) s, Ret (env_ret env) (env_data env))
        })"

definition sys_write :: "nat \<Rightarrow> int \<Rightarrow> u8 list \<Rightarrow> io_env \<Rightarrow> fdst \<Rightarrow> (fdst \<times> io) option" where
  "sys_write t fd buf env s =
     (if buf = [] then Some (s, Ret 0 [])
      else case fd_get t fd s of
        None \<Rightarrow> Some (s, Ret (- EBADF) [])
      | Some f \<Rightarrow> do {
          x \<leftarrow> fs_files s f;
          if fl_flags x AND O_ACCMODE = 0 then Some (s, Ret (- EACCES) [])
          else case fl_ops x of
            Some (PipeW p) \<Rightarrow> pipe_write_op t (fl_flags x) p buf s
          | Some (PipeR p) \<Rightarrow> Some (s, Ret (- EINVAL) [])
          | Some (Driver d) \<Rightarrow> Some (s, Ret (env_ret env) [])
          | None \<Rightarrow>
              if fl_vnode x = None then Some (s, Ret (- EINVAL) [])
              else if env_isdir env then Some (s, Ret (- EISDIR) [])
              else if env_access env < 0 then Some (s, Ret (env_access env) [])
              else if env_ret env < 0 then Some (s, Ret (env_ret env) [])
              else
                let off = (if fl_flags x AND O_APPEND \<noteq> 0 then env_size env else fl_offset x)
                in Some (set_offset f x (off + word_of_int (env_ret env)) s, Ret (env_ret env) [])
        })"

definition sys_lseek :: "nat \<Rightarrow> int \<Rightarrow> int \<Rightarrow> int \<Rightarrow> io_env \<Rightarrow> fdst \<Rightarrow> (fdst \<times> int) option" where
  "sys_lseek t fd off whence env s =
     (case fd_get t fd s of
        None \<Rightarrow> Some (s, - EBADF)
      | Some f \<Rightarrow> do {
          x \<leftarrow> fs_files s f;
          if fl_vnode x = None then Some (s, - ESPIPE)
          else if env_isdir env then Some (s, - EISDIR)
          else if whence \<noteq> 0 \<and> whence \<noteq> 1 \<and> whence \<noteq> 2 then Some (s, - EINVAL)
          else
            let base = (if whence = 0 then 0 else if whence = 1 then fl_offset x else env_size env);
                pos = sint (base + word_of_int off)
            in if pos < 0 then Some (s, - EINVAL) else Some (set_offset f x (word_of_int pos) s, pos)
        })"

section \<open>A pipe is a queue\<close>

definition pipe_ok :: "pipe \<Rightarrow> bool" where
  "pipe_ok P \<longleftrightarrow> length (pp_buf P) = PIPE_BUF_SIZE \<and> unat (pp_read_pos P) < PIPE_BUF_SIZE \<and> unat (pp_count P) \<le> PIPE_BUF_SIZE \<and>
     unat (pp_write_pos P) = (unat (pp_read_pos P) + unat (pp_count P)) mod PIPE_BUF_SIZE"

definition pipe_contents :: "pipe \<Rightarrow> u8 list" where
  "pipe_contents P = ring_list (pp_buf P) (unat (pp_read_pos P)) (unat (pp_count P))"

lemma pipe_next: "unat (h :: u32) < PIPE_BUF_SIZE \<Longrightarrow> unat ((h + 1) mod of_nat PIPE_BUF_SIZE) = (unat h + 1) mod PIPE_BUF_SIZE"
  by (simp add: PIPE_BUF_SIZE_def unat_mod_distrib unat_word_ariths)

lemma pipe_count_room: "pp_count P < of_nat PIPE_BUF_SIZE \<longleftrightarrow> unat (pp_count P) < PIPE_BUF_SIZE"
  by (simp add: PIPE_BUF_SIZE_def word_less_nat_alt)

lemma pipe_put_room:
  assumes ok: "pipe_ok P" and room: "unat (pp_count P) < PIPE_BUF_SIZE"
  shows "snd (pipe_put x P)" "pipe_ok (fst (pipe_put x P))" "pipe_contents (fst (pipe_put x P)) = pipe_contents P @ [x]"
    "pp_readers (fst (pipe_put x P)) = pp_readers P" "pp_writers (fst (pipe_put x P)) = pp_writers P"
proof -
  note O = ok [unfolded pipe_ok_def]
  have c: "unat (pp_count P + 1) = unat (pp_count P) + 1" using room by (simp add: PIPE_BUF_SIZE_def unat_word_ariths)
  have w: "unat (pp_write_pos P) < PIPE_BUF_SIZE" using O by (simp add: PIPE_BUF_SIZE_def)
  have p: "pipe_put x P = (P\<lparr>pp_buf := (pp_buf P)[unat (pp_write_pos P) := x],
           pp_write_pos := (pp_write_pos P + 1) mod of_nat PIPE_BUF_SIZE, pp_count := pp_count P + 1\<rparr>, True)"
    using room by (simp add: pipe_put_def pipe_count_room)
  show "snd (pipe_put x P)" "pp_readers (fst (pipe_put x P)) = pp_readers P" "pp_writers (fst (pipe_put x P)) = pp_writers P" by (simp_all add: p)
  show "pipe_ok (fst (pipe_put x P))" using O room c pipe_next [OF w] by (simp add: p pipe_ok_def mod_Suc_eq)
  show "pipe_contents (fst (pipe_put x P)) = pipe_contents P @ [x]"
    using ring_push [of "unat (pp_count P)" "pp_buf P" "unat (pp_read_pos P)" x] O room c by (simp add: p pipe_contents_def)
qed

lemma pipe_get_some:
  assumes ok: "pipe_ok P" and c: "pipe_contents P = x # xs"
  shows "snd (pipe_get P) = Some x" "pipe_ok (fst (pipe_get P))" "pipe_contents (fst (pipe_get P)) = xs"
    "pp_readers (fst (pipe_get P)) = pp_readers P" "pp_writers (fst (pipe_get P)) = pp_writers P"
proof -
  note O = ok [unfolded pipe_ok_def]
  obtain k where k: "unat (pp_count P) = Suc k" using c by (cases "unat (pp_count P)") (auto simp: pipe_contents_def)
  have pos: "pp_count P > 0" using k by (simp add: word_less_nat_alt)
  have m: "unat (pp_count P - 1) = k" using k pos by (simp add: unat_minus_one)
  have p: "pipe_get P = (P\<lparr>pp_read_pos := (pp_read_pos P + 1) mod of_nat PIPE_BUF_SIZE, pp_count := pp_count P - 1\<rparr>, Some (pp_buf P ! unat (pp_read_pos P)))"
    using pos by (simp add: pipe_get_def)
  have "pp_buf P ! unat (pp_read_pos P) # ring_list (pp_buf P) ((unat (pp_read_pos P) + 1) mod PIPE_BUF_SIZE) k = x # xs"
    using c ring_pop [of "unat (pp_read_pos P)" "pp_buf P" k] O k by (simp add: pipe_contents_def)
  then show "snd (pipe_get P) = Some x" "pipe_contents (fst (pipe_get P)) = xs"
    using pipe_next [of "pp_read_pos P"] O m by (simp_all add: p pipe_contents_def)
  show "pp_readers (fst (pipe_get P)) = pp_readers P" "pp_writers (fst (pipe_get P)) = pp_writers P" by (simp_all add: p)
  have "((unat (pp_read_pos P) + 1) mod PIPE_BUF_SIZE + k) mod PIPE_BUF_SIZE = (unat (pp_read_pos P) + Suc k) mod PIPE_BUF_SIZE"
    by (simp add: mod_add_left_eq)
  then show "pipe_ok (fst (pipe_get P))"
    using pipe_next [of "pp_read_pos P"] O m k by (simp add: p pipe_ok_def PIPE_BUF_SIZE_def)
qed

interpretation pq: bounded_fifo pipe_ok pipe_contents "\<lambda>P. PIPE_BUF_SIZE" pipe_put pipe_get
proof unfold_locales
  fix P :: pipe and x :: u8 and xs :: "u8 list"
  assume ok: "pipe_ok P"
  have l: "length (pipe_contents P) = unat (pp_count P)" by (simp add: pipe_contents_def)
  show "snd (pipe_put x P) \<and> pipe_ok (fst (pipe_put x P)) \<and> pipe_contents (fst (pipe_put x P)) = pipe_contents P @ [x] \<and> PIPE_BUF_SIZE = PIPE_BUF_SIZE"
    if "length (pipe_contents P) < PIPE_BUF_SIZE" using pipe_put_room [OF ok] that l by simp
  show "pipe_put x P = (P, False)" if "\<not> length (pipe_contents P) < PIPE_BUF_SIZE" using that l by (simp add: pipe_put_def pipe_count_room)
  show "pipe_get P = (P, None)" if "pipe_contents P = []" using that l by (simp add: pipe_get_def unat_eq_0)
  show "snd (pipe_get P) = Some x \<and> pipe_ok (fst (pipe_get P)) \<and> pipe_contents (fst (pipe_get P)) = xs \<and> PIPE_BUF_SIZE = PIPE_BUF_SIZE"
    if "pipe_contents P = x # xs" using pipe_get_some [OF ok that] by simp
  show "length (pipe_contents P) \<le> PIPE_BUF_SIZE" using ok l by (simp add: pipe_ok_def)
qed

lemma pipe_fill_effect:
  "pipe_ok P \<Longrightarrow> pipe_fill xs P = (P', n) \<Longrightarrow> pipe_ok P' \<and> pipe_contents P' = pipe_contents P @ take n xs \<and>
     n = min (length xs) (PIPE_BUF_SIZE - length (pipe_contents P)) \<and> pp_readers P' = pp_readers P \<and> pp_writers P' = pp_writers P"
proof (induction xs arbitrary: P P' n)
  case Nil then show ?case by simp
next
  case (Cons x xs)
  from Cons.prems(1) show ?case
  proof (cases rule: pq.push_cases [where x = x])
    case (room P1)
    obtain P2 m where f: "pipe_fill xs P1 = (P2, m)" by (cases "pipe_fill xs P1")
    have len: "length (pipe_contents P) < PIPE_BUF_SIZE" using pq.within_capacity [OF room(2)] room(3) by simp
    have "pp_readers P1 = pp_readers P" "pp_writers P1 = pp_writers P"
      using pipe_put_room(4,5) [OF Cons.prems(1), of x] len room(1) by (simp_all add: pipe_contents_def)
    then show ?thesis using Cons.IH [OF room(2) f] Cons.prems(2) room f len by auto
  next
    case full
    then show ?thesis using Cons.prems by auto
  qed
qed

lemma pipe_drain_effect:
  "pipe_ok P \<Longrightarrow> pipe_drain n P = (P', xs) \<Longrightarrow> pipe_ok P' \<and> xs = take n (pipe_contents P) \<and> pipe_contents P' = drop n (pipe_contents P) \<and>
     pp_readers P' = pp_readers P \<and> pp_writers P' = pp_writers P"
proof (induction n arbitrary: P P' xs)
  case 0 then show ?case by simp
next
  case (Suc n)
  from Suc.prems(1) show ?case
  proof (cases rule: pq.pop_cases)
    case none
    then show ?thesis using Suc.prems by auto
  next
    case (some x P1)
    obtain P2 ys where f: "pipe_drain n P1 = (P2, ys)" by (cases "pipe_drain n P1")
    have "pp_readers P1 = pp_readers P" "pp_writers P1 = pp_writers P"
      using pipe_get_some(4,5) [OF Suc.prems(1) some(3)] some(1) by simp_all
    then show ?thesis using Suc.IH [OF some(2) f] Suc.prems(2) some f by auto
  qed
qed

section \<open>Sessions\<close>

text \<open>Calls on the two ends, in any order.  A writer that was blocked resumes with the bytes that are left.\<close>

datatype pipe_event = Wr u32 "u8 list" | Rd u32 nat

definition accepted :: "u8 list \<Rightarrow> io \<Rightarrow> u8 list" where
  "accepted src r = (case r of Ret i _ \<Rightarrow> take (nat i) src | Block n \<Rightarrow> take n src)"

definition delivered :: "io \<Rightarrow> u8 list" where
  "delivered r = (case r of Ret _ xs \<Rightarrow> xs | Block _ \<Rightarrow> [])"

fun pipe_session :: "nat \<Rightarrow> pipe_event list \<Rightarrow> fdst \<Rightarrow> (fdst \<times> u8 list \<times> u8 list) option" where
  "pipe_session p [] s = Some (s, [], [])"
| "pipe_session p (Wr flags src # evs) s =
     do { (s, r) \<leftarrow> pipe_write_round flags p src 0 s; (s, outs, acc) \<leftarrow> pipe_session p evs s; Some (s, outs, accepted src r @ acc) }"
| "pipe_session p (Rd flags n # evs) s =
     do { (s, r) \<leftarrow> pipe_read_op flags p n s; (s, outs, acc) \<leftarrow> pipe_session p evs s; Some (s, delivered r @ outs, acc) }"

lemma set_pipe_simps [simp]:
  "fs_pipes (set_pipe p x s) = (fs_pipes s)(p := x)" "fs_files (set_pipe p x s) = fs_files s" "fs_table (set_pipe p x s) = fs_table s"
  "fs_pipes (outcall c s) = fs_pipes s" "fs_files (outcall c s) = fs_files s" "fs_table (outcall c s) = fs_table s"
  by (simp_all add: set_pipe_def outcall_def)

lemma write_round_effect:
  assumes P: "fs_pipes s p = Some P" "pipe_ok P" "pp_readers P \<noteq> 0"
  shows "\<exists>s' r P'. pipe_write_round flags p src 0 s = Some (s', r) \<and> fs_pipes s' p = Some P' \<and> pipe_ok P' \<and> pp_readers P' = pp_readers P \<and>
    pipe_contents P' = pipe_contents P @ accepted src r \<and> accepted src r = take (PIPE_BUF_SIZE - length (pipe_contents P)) src"
proof (cases "src = []")
  case True
  then show ?thesis using P by (simp add: pipe_write_round_def accepted_def)
next
  case False
  obtain P' n where f: "pipe_fill src P = (P', n)" by (cases "pipe_fill src P")
  note e = pipe_fill_effect [OF P(2) f]
  have "take n src = take (PIPE_BUF_SIZE - length (pipe_contents P)) src" using e by (simp add: min_def)
  moreover have "\<exists>s' r. pipe_write_round flags p src 0 s = Some (s', r) \<and> fs_pipes s' p = Some P' \<and> accepted src r = take n src"
    using P False f by (auto simp: pipe_write_round_def accepted_def Let_def)
  ultimately show ?thesis using e by metis
qed

lemma read_op_effect:
  assumes P: "fs_pipes s p = Some P" "pipe_ok P"
  shows "\<exists>s' r P'. pipe_read_op flags p n s = Some (s', r) \<and> fs_pipes s' p = Some P' \<and> pipe_ok P' \<and> pp_readers P' = pp_readers P \<and>
    pipe_contents P = delivered r @ pipe_contents P' \<and> delivered r = take n (pipe_contents P)"
proof -
  have l: "length (pipe_contents P) = unat (pp_count P)" by (simp add: pipe_contents_def)
  show ?thesis
  proof (cases "pp_count P > 0")
    case True
    obtain P' xs where f: "pipe_drain (min (unat (pp_count P)) n) P = (P', xs)" by (cases "pipe_drain (min (unat (pp_count P)) n) P")
    have "take (min (unat (pp_count P)) n) (pipe_contents P) = take n (pipe_contents P)" using l by (simp add: min_def)
    moreover have "drop (min (unat (pp_count P)) n) (pipe_contents P) = drop n (pipe_contents P)" using l by (simp add: min_def)
    ultimately show ?thesis using P True f pipe_drain_effect [OF P(2) f] by (auto simp: pipe_read_op_def delivered_def)
  next
    case False
    then have "pipe_contents P = []" using l by (simp add: word_less_nat_alt)
    then show ?thesis using P False by (auto simp: pipe_read_op_def delivered_def)
  qed
qed

text \<open>C39: A pipe is a byte stream.  Over every sequence of reads and writes on its two ends, blocking or not, of any
  sizes, what readers received followed by what the pipe still holds is what it held followed by what writers
  were told is written: nothing is lost, duplicated or reordered, and the ring never holds more than 4096 bytes.
  No call is left without a result.
\<close>

theorem pipe_stream:
  assumes "fs_pipes s p = Some P" "pipe_ok P" "pp_readers P \<noteq> 0"
  shows "\<exists>s' outs acc P'. pipe_session p evs s = Some (s', outs, acc) \<and> fs_pipes s' p = Some P' \<and> pipe_ok P' \<and>
    outs @ pipe_contents P' = pipe_contents P @ acc \<and> length (pipe_contents P') \<le> PIPE_BUF_SIZE"
  using assms
proof (induction evs arbitrary: s P)
  case Nil
  then show ?case using pq.within_capacity by auto
next
  case (Cons e evs)
  show ?case
  proof (cases e)
    case (Wr flags src)
    obtain s1 r P1 where w: "pipe_write_round flags p src 0 s = Some (s1, r)" "fs_pipes s1 p = Some P1" "pipe_ok P1" "pp_readers P1 = pp_readers P"
      "pipe_contents P1 = pipe_contents P @ accepted src r" using write_round_effect [OF Cons.prems] by metis
    then show ?thesis using Cons.IH [OF w(2,3)] Cons.prems(3) Wr by (fastforce simp: bind_eq_Some_conv)
  next
    case (Rd flags n)
    obtain s1 r P1 where w: "pipe_read_op flags p n s = Some (s1, r)" "fs_pipes s1 p = Some P1" "pipe_ok P1" "pp_readers P1 = pp_readers P"
      "pipe_contents P = delivered r @ pipe_contents P1" using read_op_effect [OF Cons.prems(1,2)] by metis
    then show ?thesis using Cons.IH [OF w(2,3)] Cons.prems(3) Rd by (fastforce simp: bind_eq_Some_conv)
  qed
qed

definition fd_empty :: fdst where
  "fd_empty = \<lparr>fs_files = (\<lambda>_. None), fs_pipes = (\<lambda>_. None), fs_table = (\<lambda>_ _. None), fs_flags = (\<lambda>_ _. 0), fs_calls = []\<rparr>"

lemma pipe_init_ok: "pipe_ok pipe_init" "pipe_contents pipe_init = []" "pp_readers pipe_init = 1" "pp_writers pipe_init = 1"
  by (simp_all add: pipe_ok_def pipe_contents_def pipe_init_def) (simp_all add: PIPE_BUF_SIZE_def)

theorem pipe_stream_witness:
  "\<exists>s' outs acc P'. pipe_session 5 [Wr 0 [1, 2, 3], Rd 0 2, Wr 0 [4], Rd 0 9] (set_pipe 5 (Some pipe_init) fd_empty) = Some (s', outs, acc) \<and>
     fs_pipes s' 5 = Some P' \<and> outs @ pipe_contents P' = [] @ acc"
  using pipe_stream [of "set_pipe 5 (Some pipe_init) fd_empty" 5 pipe_init "[Wr 0 [1, 2, 3], Rd 0 2, Wr 0 [4], Rd 0 9]"] pipe_init_ok
  by fastforce

end
