(* ===== verification/Fd_Refs.thy ===== *)
theory Fd_Refs
  imports Fd
begin

unbundle bit_operations_syntax

text \<open>
  Reference counts of open files and of the ends of pipes: the invariant that ties them to the descriptor tables of
  all tasks, that every descriptor call keeps it, and what follows for runs of such calls.  The last section shows
  what goes wrong for the descriptors that \<^verbatim>\<open>net/socket.c\<close> makes.
\<close>

section \<open>Reference counts\<close>

text \<open>The descriptors that refer to a file, in all tables, and the files that are the ends of a pipe.\<close>

definition slots :: "nat \<Rightarrow> fdst \<Rightarrow> (nat \<times> nat) set" where
  "slots f s = {(t, i). t < TASK_TABLE_SIZE \<and> i < FD_TABLE_SIZE \<and> fs_table s t i = Some f}"

definition ends :: "fops \<Rightarrow> fdst \<Rightarrow> nat set" where
  "ends op s = {f. \<exists>x. fs_files s f = Some x \<and> fl_ops x = Some op}"

definition end_count :: "nat set \<Rightarrow> u32 \<Rightarrow> bool" where
  "end_count fs n \<longleftrightarrow> fs = {} \<and> n = 0 \<or> (\<exists>f. fs = {f}) \<and> n = 1"

text \<open>\<open>held f\<close> counts the references that a call in progress holds besides the tables.\<close>

definition fd_inv :: "(nat \<Rightarrow> nat) \<Rightarrow> fdst \<Rightarrow> bool" where
  "fd_inv held s \<longleftrightarrow>
     (\<forall>t i. fs_table s t i \<noteq> None \<longrightarrow> t < TASK_TABLE_SIZE \<and> i < FD_TABLE_SIZE) \<and>
     (\<forall>f. case fs_files s f of
        None \<Rightarrow> slots f s = {} \<and> held f = 0
      | Some x \<Rightarrow> unat (fl_refcount x) = card (slots f s) + held f \<and> fl_refcount x \<noteq> 0) \<and>
     (\<forall>p. case fs_pipes s p of
        None \<Rightarrow> ends (PipeR p) s = {} \<and> ends (PipeW p) s = {}
      | Some P \<Rightarrow> end_count (ends (PipeR p) s) (pp_readers P) \<and> end_count (ends (PipeW p) s) (pp_writers P) \<and>
          (pp_readers P \<noteq> 0 \<or> pp_writers P \<noteq> 0) \<and> pipe_ok P)"

lemma fd_invI:
  assumes "\<And>t i. fs_table s t i \<noteq> None \<Longrightarrow> t < TASK_TABLE_SIZE \<and> i < FD_TABLE_SIZE"
    and "\<And>f. fs_files s f = None \<Longrightarrow> slots f s = {} \<and> held f = 0"
    and "\<And>f x. fs_files s f = Some x \<Longrightarrow> unat (fl_refcount x) = card (slots f s) + held f \<and> fl_refcount x \<noteq> 0"
    and "\<And>p. fs_pipes s p = None \<Longrightarrow> ends (PipeR p) s = {} \<and> ends (PipeW p) s = {}"
    and "\<And>p P. fs_pipes s p = Some P \<Longrightarrow> end_count (ends (PipeR p) s) (pp_readers P) \<and> end_count (ends (PipeW p) s) (pp_writers P) \<and>
          (pp_readers P \<noteq> 0 \<or> pp_writers P \<noteq> 0) \<and> pipe_ok P"
  shows "fd_inv held s"
  using assms unfolding fd_inv_def by (auto split: option.split)

lemma fd_invD:
  assumes "fd_inv held s"
  shows "fs_table s t i \<noteq> None \<Longrightarrow> t < TASK_TABLE_SIZE \<and> i < FD_TABLE_SIZE"
    and "fs_files s f = None \<Longrightarrow> slots f s = {} \<and> held f = 0"
    and "fs_files s f = Some x \<Longrightarrow> unat (fl_refcount x) = card (slots f s) + held f \<and> fl_refcount x \<noteq> 0"
    and "fs_pipes s p = None \<Longrightarrow> ends (PipeR p) s = {} \<and> ends (PipeW p) s = {}"
    and "fs_pipes s p = Some P \<Longrightarrow> end_count (ends (PipeR p) s) (pp_readers P) \<and> end_count (ends (PipeW p) s) (pp_writers P) \<and>
          (pp_readers P \<noteq> 0 \<or> pp_writers P \<noteq> 0) \<and> pipe_ok P"
proof -
  note A = assms [unfolded fd_inv_def]
  show "fs_table s t i \<noteq> None \<Longrightarrow> t < TASK_TABLE_SIZE \<and> i < FD_TABLE_SIZE" using A by blast
  show "fs_files s f = None \<Longrightarrow> slots f s = {} \<and> held f = 0"
    and "fs_files s f = Some x \<Longrightarrow> unat (fl_refcount x) = card (slots f s) + held f \<and> fl_refcount x \<noteq> 0"
    using A [THEN conjunct2, THEN conjunct1, rule_format, of f] by simp_all
  show "fs_pipes s p = None \<Longrightarrow> ends (PipeR p) s = {} \<and> ends (PipeW p) s = {}"
    and "fs_pipes s p = Some P \<Longrightarrow> end_count (ends (PipeR p) s) (pp_readers P) \<and> end_count (ends (PipeW p) s) (pp_writers P) \<and>
          (pp_readers P \<noteq> 0 \<or> pp_writers P \<noteq> 0) \<and> pipe_ok P"
    using A [THEN conjunct2, THEN conjunct2, rule_format, of p] by simp_all
qed

lemma live: "fd_inv held s \<Longrightarrow> fs_table s t i = Some f \<or> held f > 0 \<Longrightarrow> fs_files s f \<noteq> None"
proof
  assume i: "fd_inv held s" and h: "fs_table s t i = Some f \<or> held f > 0" and n: "fs_files s f = None"
  have "slots f s = {}" "held f = 0" using fd_invD(2) [OF i n] by auto
  moreover have "(t, i) \<in> slots f s" if "fs_table s t i = Some f" using fd_invD(1) [OF i, of t i] that by (simp add: slots_def)
  ultimately show False using h by auto
qed

lemma slots_finite: "finite (slots f s)" and slots_bound: "card (slots f s) \<le> 262144"
proof -
  have sub: "slots f s \<subseteq> {..<TASK_TABLE_SIZE} \<times> {..<FD_TABLE_SIZE}" by (auto simp: slots_def)
  show "finite (slots f s)" by (rule finite_subset [OF sub]) simp
  have "card (slots f s) \<le> card ({..<TASK_TABLE_SIZE} \<times> {..<FD_TABLE_SIZE})" by (rule card_mono [OF _ sub]) simp
  then show "card (slots f s) \<le> 262144" by (simp add: TASK_TABLE_SIZE_def FD_TABLE_SIZE_def)
qed

lemma set_simps [simp]:
  "fs_files (set_file f x s) = (fs_files s)(f := x)" "fs_pipes (set_file f x s) = fs_pipes s" "fs_table (set_file f x s) = fs_table s"
  "fs_files (set_slot t i y fl s) = fs_files s" "fs_pipes (set_slot t i y fl s) = fs_pipes s"
  "fs_table (set_slot t i y fl s) = (fs_table s)(t := (fs_table s t)(i := y))"
  "fs_files (or_flag t i fl s) = fs_files s" "fs_pipes (or_flag t i fl s) = fs_pipes s" "fs_table (or_flag t i fl s) = fs_table s"
  by (simp_all add: set_file_def set_slot_def or_flag_def)

lemma slots_cong: "fs_table s' = fs_table s \<Longrightarrow> slots f s' = slots f s"
  by (simp add: slots_def)

lemma fd_inv_cong:
  assumes "fd_inv held s" "fs_files s' = fs_files s" "fs_pipes s' = fs_pipes s" "fs_table s' = fs_table s"
  shows "fd_inv held s'"
  using assms(1) unfolding fd_inv_def slots_def ends_def assms(2-4) .

text \<open>Changing a file without changing what it is.\<close>

lemma ends_set_same: "fs_files s f = Some x \<Longrightarrow> fl_ops y = fl_ops x \<Longrightarrow> ends op (set_file f (Some y) s) = ends op s"
  by (auto simp: ends_def)

lemma fd_inv_file:
  assumes i: "fd_inv held s" and x: "fs_files s f = Some x" "fl_ops y = fl_ops x"
    and r: "unat (fl_refcount y) = card (slots f s) + h" "fl_refcount y \<noteq> 0"
  shows "fd_inv (held(f := h)) (set_file f (Some y) s)"
proof (rule fd_invI)
  note D = fd_invD [OF i]
  have sl: "slots g (set_file f (Some y) s) = slots g s" for g by (rule slots_cong) simp
  show "t < TASK_TABLE_SIZE \<and> j < FD_TABLE_SIZE" if "fs_table (set_file f (Some y) s) t j \<noteq> None" for t j using D(1) that by simp
  show "slots g (set_file f (Some y) s) = {} \<and> (held(f := h)) g = 0" if "fs_files (set_file f (Some y) s) g = None" for g
    using D(2) [of g] that sl by (auto split: if_splits)
  show "unat (fl_refcount z) = card (slots g (set_file f (Some y) s)) + (held(f := h)) g \<and> fl_refcount z \<noteq> 0"
    if "fs_files (set_file f (Some y) s) g = Some z" for g z using D(3) [of g z] that sl r by (auto split: if_splits)
  show "ends (PipeR p) (set_file f (Some y) s) = {} \<and> ends (PipeW p) (set_file f (Some y) s) = {}"
    if "fs_pipes (set_file f (Some y) s) p = None" for p using D(4) [of p] that ends_set_same [OF x] by simp
  show "end_count (ends (PipeR p) (set_file f (Some y) s)) (pp_readers P) \<and> end_count (ends (PipeW p) (set_file f (Some y) s)) (pp_writers P) \<and>
          (pp_readers P \<noteq> 0 \<or> pp_writers P \<noteq> 0) \<and> pipe_ok P"
    if "fs_pipes (set_file f (Some y) s) p = Some P" for p P using D(5) [of p P] that ends_set_same [OF x] by simp
qed

lemma file_get_inv:
  assumes i: "fd_inv held s" and l: "fs_files s f \<noteq> None" and h: "held f \<le> 9"
  shows "\<exists>s'. file_get f s = Some s' \<and> fd_inv (held(f := held f + 1)) s' \<and> fs_table s' = fs_table s \<and> fs_pipes s' = fs_pipes s \<and>
    dom (fs_files s') = dom (fs_files s)"
proof -
  obtain x where x: "fs_files s f = Some x" using l by blast
  let ?y = "x\<lparr>fl_refcount := fl_refcount x + 1\<rparr>"
  have r: "unat (fl_refcount x) = card (slots f s) + held f" using fd_invD(3) [OF i x] by simp
  have "unat (fl_refcount x + 1) = unat (fl_refcount x) + 1" using r slots_bound [of f s] h by (simp add: unat_word_ariths)
  then have r': "unat (fl_refcount ?y) = card (slots f s) + (held f + 1)" using r by simp
  then have "fl_refcount ?y \<noteq> 0" by (metis add_is_0 nat.distinct(1) unat_0 Suc_eq_plus1)
  then have "fd_inv (held(f := held f + 1)) (set_file f (Some ?y) s)" using r' by (intro fd_inv_file [OF i x]) simp_all
  moreover have "dom (fs_files (set_file f (Some ?y) s)) = dom (fs_files s)" using x by auto
  ultimately show ?thesis using x by (auto simp: file_get_def)
qed

lemma drop_file:
  assumes i: "fd_inv held s" and e: "slots f s = {}" "held f \<le> 1"
    and s': "fs_files s' = (fs_files s)(f := None)" "fs_table s' = fs_table s"
    and none: "\<And>p. fs_pipes s' p = None \<Longrightarrow> ends (PipeR p) s - {f} = {} \<and> ends (PipeW p) s - {f} = {}"
    and some: "\<And>p P. fs_pipes s' p = Some P \<Longrightarrow> end_count (ends (PipeR p) s - {f}) (pp_readers P) \<and>
      end_count (ends (PipeW p) s - {f}) (pp_writers P) \<and> (pp_readers P \<noteq> 0 \<or> pp_writers P \<noteq> 0) \<and> pipe_ok P"
  shows "fd_inv (held(f := 0)) s'"
proof (rule fd_invI)
  note D = fd_invD [OF i]
  have sl: "slots g s' = slots g s" for g using s'(2) by (rule slots_cong)
  have en: "ends op s' = ends op s - {f}" for op by (auto simp: ends_def s')
  show "t < TASK_TABLE_SIZE \<and> j < FD_TABLE_SIZE" if "fs_table s' t j \<noteq> None" for t j using D(1) that s' by simp
  show "slots g s' = {} \<and> (held(f := 0)) g = 0" if "fs_files s' g = None" for g using D(2) [of g] that sl e s' by (auto split: if_splits)
  show "unat (fl_refcount z) = card (slots g s') + (held(f := 0)) g \<and> fl_refcount z \<noteq> 0" if "fs_files s' g = Some z" for g z
    using D(3) [of g z] that sl s' by (auto split: if_splits)
  show "ends (PipeR p) s' = {} \<and> ends (PipeW p) s' = {}" if "fs_pipes s' p = None" for p using none [OF that] en by simp
  show "end_count (ends (PipeR p) s') (pp_readers P) \<and> end_count (ends (PipeW p) s') (pp_writers P) \<and>
          (pp_readers P \<noteq> 0 \<or> pp_writers P \<noteq> 0) \<and> pipe_ok P" if "fs_pipes s' p = Some P" for p P using some [OF that] en by simp
qed

lemma end_count_mem: "end_count fs n \<Longrightarrow> f \<in> fs \<Longrightarrow> fs = {f} \<and> n = 1"
  by (auto simp: end_count_def)

lemma not_end: "fs_files s f = Some x \<Longrightarrow> fl_ops x \<noteq> Some op \<Longrightarrow> ends op s - {f} = ends op s"
  by (auto simp: ends_def)

lemma pipe_ok_ends [simp]: "pipe_ok (P\<lparr>pp_readers := r\<rparr>) = pipe_ok P" "pipe_ok (P\<lparr>pp_writers := w\<rparr>) = pipe_ok P"
  by (simp_all add: pipe_ok_def)

lemma pipe_end:
  assumes i: "fd_inv held s" and x: "fs_files s f = Some x" "fl_ops x = Some op" and op: "op = PipeR p \<or> op = PipeW p"
  obtains P where "fs_pipes s p = Some P" "ends op s = {f}" "(if op = PipeR p then pp_readers P else pp_writers P) = 1"
proof -
  have f: "f \<in> ends op s" using x by (auto simp: ends_def)
  then obtain P where P: "fs_pipes s p = Some P" using fd_invD(4) [OF i, of p] op by (cases "fs_pipes s p") auto
  then show ?thesis using fd_invD(5) [OF i P] end_count_mem [OF _ f] op that by auto
qed

lemma close_end:
  assumes i: "fd_inv held s" and e: "slots f s = {}" "held f \<le> 1" and x: "fs_files s f = Some x" "fl_ops x = Some op"
    and op: "op = PipeR p \<or> op = PipeW p" and P: "fs_pipes s p = Some P" "ends op s = {f}"
    and s': "fs_files s' = (fs_files s)(f := None)" "fs_table s' = fs_table s"
      "fs_pipes s' = (fs_pipes s)(p := if op = PipeR p then if pp_writers P = 0 then None else Some (P\<lparr>pp_readers := 0\<rparr>)
         else if pp_readers P = 0 then None else Some (P\<lparr>pp_writers := 0\<rparr>))"
  shows "fd_inv (held(f := 0)) s'"
proof (rule drop_file [OF i e s'(1,2)])
  note D = fd_invD(4,5) [OF i]
  have ne: "ends op' s - {f} = ends op' s" if "op' \<noteq> op" for op' using not_end [OF x(1)] x(2) that by auto
  have far: "fs_pipes s' q = fs_pipes s q" "ends (PipeR q) s - {f} = ends (PipeR q) s" "ends (PipeW q) s - {f} = ends (PipeW q) s" if "q \<noteq> p" for q
    using that op ne [of "PipeR q"] ne [of "PipeW q"] s'(3) by auto
  have z: "end_count {} 0" "end_count fs 0 \<Longrightarrow> fs = {}" for fs by (auto simp: end_count_def)
  have near: "ends (PipeR p) s - {f} = (if op = PipeR p then {} else ends (PipeR p) s)"
    "ends (PipeW p) s - {f} = (if op = PipeR p then ends (PipeW p) s else {})" using op P(2) ne by auto
  note Dp = D(2) [OF P(1)]
  show "ends (PipeR q) s - {f} = {} \<and> ends (PipeW q) s - {f} = {}" if n: "fs_pipes s' q = None" for q
  proof (cases "q = p")
    case True
    then have "if op = PipeR p then pp_writers P = 0 else pp_readers P = 0" using n s'(3) by (simp split: if_splits)
    then show ?thesis unfolding True near using Dp z(2) by (simp split: if_splits)
  next
    case False
    then show ?thesis using D(1) [of q] far [OF False] n by simp
  qed
  show "end_count (ends (PipeR q) s - {f}) (pp_readers Q) \<and> end_count (ends (PipeW q) s - {f}) (pp_writers Q) \<and>
      (pp_readers Q \<noteq> 0 \<or> pp_writers Q \<noteq> 0) \<and> pipe_ok Q" if n: "fs_pipes s' q = Some Q" for q Q
  proof (cases "q = p")
    case True
    then have "if op = PipeR p then pp_writers P \<noteq> 0 \<and> Q = P\<lparr>pp_readers := 0\<rparr> else pp_readers P \<noteq> 0 \<and> Q = P\<lparr>pp_writers := 0\<rparr>"
      using n s'(3) by (simp split: if_splits)
    then show ?thesis unfolding True near using Dp z(1) by (simp split: if_splits)
  next
    case False
    then show ?thesis using D(2) [of q Q] far [OF False] n by simp
  qed
qed

lemma close_last:
  assumes i: "fd_inv held s" and x: "fs_files s f = Some x" and e: "slots f s = {}" "held f \<le> 1"
  shows "\<exists>s'. file_close (x\<lparr>fl_refcount := c\<rparr>) (set_file f (Some y) s) = Some s' \<and> fd_inv (held(f := 0)) (set_file f None s') \<and>
    fs_table s' = fs_table s \<and> (\<forall>g. g \<noteq> f \<longrightarrow> fs_files s' g = fs_files s g)"
proof -
  have other: "fd_inv (held(f := 0)) (set_file f None s')"
    if op: "\<And>p. fl_ops x \<noteq> Some (PipeR p) \<and> fl_ops x \<noteq> Some (PipeW p)"
      and s': "fs_files s' = (fs_files s)(f := Some y)" "fs_table s' = fs_table s" "fs_pipes s' = fs_pipes s" for s'
    by (rule drop_file [OF i e]) (use s' fd_invD(4,5) [OF i] not_end [OF x] op in auto)
  show ?thesis
  proof (cases "fl_ops x")
    case None
    then show ?thesis using other by (cases "fl_vnode x") (auto simp: file_close_def)
  next
    case (Some op)
    note ce = close_end [OF i e x Some]
    show ?thesis
    proof (cases op)
      case (Driver d)
      then show ?thesis using other Some by (auto simp: file_close_def)
    next
      case (PipeR p)
      obtain P where P: "fs_pipes s p = Some P" "ends op s = {f}" "pp_readers P = 1" using pipe_end [OF i x Some, of p] PipeR by auto
      define s' where "s' = (if pp_writers P = 0 then set_pipe p None else id)
        (outcall (WakeWriters p) (set_pipe p (Some (P\<lparr>pp_readers := 0\<rparr>)) (set_file f (Some y) s)))"
      have "file_close (x\<lparr>fl_refcount := c\<rparr>) (set_file f (Some y) s) = Some s'"
        using Some PipeR P by (simp add: file_close_def pipe_close_read_def s'_def)
      moreover have "fd_inv (held(f := 0)) (set_file f None s')"
        by (rule ce [OF _ P(1,2)]) (auto simp: PipeR s'_def)
      ultimately show ?thesis by (auto simp: s'_def)
    next
      case (PipeW p)
      obtain P where P: "fs_pipes s p = Some P" "ends op s = {f}" "pp_writers P = 1" using pipe_end [OF i x Some, of p] PipeW by auto
      define s' where "s' = (if pp_readers P = 0 then set_pipe p None else id)
        (outcall (WakeReaders p) (set_pipe p (Some (P\<lparr>pp_writers := 0\<rparr>)) (set_file f (Some y) s)))"
      have "file_close (x\<lparr>fl_refcount := c\<rparr>) (set_file f (Some y) s) = Some s'"
        using Some PipeW P by (simp add: file_close_def pipe_close_write_def s'_def)
      moreover have "fd_inv (held(f := 0)) (set_file f None s')"
        by (rule ce [OF _ P(1,2)]) (auto simp: PipeW s'_def)
      ultimately show ?thesis by (auto simp: s'_def)
    qed
  qed
qed

lemma file_put_inv:
  assumes i: "fd_inv held s" and h: "0 < held f"
  shows "\<exists>s'. file_put f s = Some s' \<and> fd_inv (held(f := held f - 1)) s' \<and> fs_table s' = fs_table s \<and> (\<forall>g. g \<noteq> f \<longrightarrow> fs_files s' g = fs_files s g)"
proof -
  obtain x where x: "fs_files s f = Some x" using live [OF i, of _ _ f] h by blast
  have r: "unat (fl_refcount x) = card (slots f s) + held f" "fl_refcount x \<noteq> 0" using fd_invD(3) [OF i x] by auto
  let ?x = "x\<lparr>fl_refcount := fl_refcount x - 1\<rparr>"
  have r': "unat (fl_refcount ?x) = card (slots f s) + (held f - 1)" using r h by (simp add: unat_minus_one)
  show ?thesis
  proof (cases "fl_refcount ?x = 0")
    case False
    then have "fd_inv (held(f := held f - 1)) (set_file f (Some ?x) s)" using r' by (intro fd_inv_file [OF i x]) simp_all
    then show ?thesis using x r(2) False by (auto simp: file_put_def Let_def)
  next
    case True
    then have "unat (fl_refcount ?x) = 0" by simp
    then have "card (slots f s) + (held f - 1) = 0" using r' by linarith
    then have "card (slots f s) = 0" "held f = 1" using h by auto
    then have e: "slots f s = {}" "held f = 1" using slots_finite [of f s] by auto
    obtain s' where "file_close ?x (set_file f (Some ?x) s) = Some s'" "fd_inv (held(f := 0)) (set_file f None s')"
      "fs_table s' = fs_table s" "\<forall>g. g \<noteq> f \<longrightarrow> fs_files s' g = fs_files s g"
      using close_last [OF i x e(1), of "fl_refcount x - 1" ?x] e(2) by auto
    then show ?thesis using x r(2) True e(2) by (auto simp: file_put_def Let_def)
  qed
qed

text \<open>A reference moves between a call in progress and a free slot of a table.\<close>

lemma slots_set:
  assumes "t < TASK_TABLE_SIZE" "i < FD_TABLE_SIZE" "fs_table s t i = None"
  shows "slots f (set_slot t i (Some f) fl s) = insert (t, i) (slots f s)" "(t, i) \<notin> slots f s"
    "g \<noteq> f \<Longrightarrow> slots g (set_slot t i (Some f) fl s) = slots g s"
  using assms by (auto simp: slots_def split: if_splits)

lemma ends_slot [simp]: "ends op (set_slot t i y fl s) = ends op s"
  by (simp add: ends_def)

lemma slot_fill:
  assumes i: "fd_inv held s" and h: "0 < held f" and b: "t < TASK_TABLE_SIZE" "j < FD_TABLE_SIZE" "fs_table s t j = None"
  shows "fd_inv (held(f := held f - 1)) (set_slot t j (Some f) fl s)" (is "fd_inv _ ?s")
proof (rule fd_invI)
  note D = fd_invD [OF i] and S = slots_set [OF b]
  show "t' < TASK_TABLE_SIZE \<and> j' < FD_TABLE_SIZE" if "fs_table ?s t' j' \<noteq> None" for t' j' using D(1) [of t' j'] that b by (auto split: if_splits)
  show "slots g ?s = {} \<and> (held(f := held f - 1)) g = 0" if "fs_files ?s g = None" for g
    using D(2) [of g] that S(3) [of g] h by (cases "g = f") auto
  show "unat (fl_refcount z) = card (slots g ?s) + (held(f := held f - 1)) g \<and> fl_refcount z \<noteq> 0" if "fs_files ?s g = Some z" for g z
    using D(3) [of g z] that S(1) [of f] S(2) [of f] S(3) [of g] h slots_finite [of f s] by (cases "g = f") auto
qed (use fd_invD(4,5) [OF i] in auto)

lemma slot_clear:
  assumes i: "fd_inv held s" and f: "fs_table s t j = Some f"
  shows "fd_inv (held(f := held f + 1)) (set_slot t j None fl s)" (is "fd_inv _ ?s")
proof (rule fd_invI)
  note D = fd_invD [OF i]
  have b: "t < TASK_TABLE_SIZE" "j < FD_TABLE_SIZE" using D(1) [of t j] f by auto
  have S: "slots f ?s = slots f s - {(t, j)}" "(t, j) \<in> slots f s" "g \<noteq> f \<Longrightarrow> slots g ?s = slots g s" for g
    using f b by (auto simp: slots_def split: if_splits)
  show "t' < TASK_TABLE_SIZE \<and> j' < FD_TABLE_SIZE" if "fs_table ?s t' j' \<noteq> None" for t' j' using D(1) [of t' j'] that b by (auto split: if_splits)
  show "slots g ?s = {} \<and> (held(f := held f + 1)) g = 0" if "fs_files ?s g = None" for g
    using D(2) [of g] that S(2) S(3) [of g] by (cases "g = f") auto
  show "unat (fl_refcount z) = card (slots g ?s) + (held(f := held f + 1)) g \<and> fl_refcount z \<noteq> 0" if "fs_files ?s g = Some z" for g z
  proof (cases "g = f")
    case True
    have "card (slots f s) = Suc (card (slots f s - {(t, j)}))" by (rule card.remove [OF slots_finite S(2)])
    then show ?thesis using True D(3) [of g z] that S(1) by simp
  next
    case False
    then show ?thesis using D(3) [of g z] that S(3) [of g] by simp
  qed
qed (use fd_invD(4,5) [OF i] in auto)

lemma get_slot: "file_get f (set_slot t i y fl s) = map_option (set_slot t i y fl) (file_get f s)"
  by (cases "fs_files s f") (simp_all add: file_get_def set_file_def set_slot_def)

lemma slot_commute:
  "set_file f x (set_slot t i y fl s) = set_slot t i y fl (set_file f x s)"
  "set_pipe p P (set_slot t i y fl s) = set_slot t i y fl (set_pipe p P s)"
  "outcall c (set_slot t i y fl s) = set_slot t i y fl (outcall c s)"
  by (simp_all add: set_file_def set_pipe_def outcall_def set_slot_def)

lemma close_slot: "file_close x (set_slot t i y fl s) = map_option (set_slot t i y fl) (file_close x s)"
  by (auto simp: file_close_def pipe_close_read_def pipe_close_write_def Let_def slot_commute bind_eq_None_conv
      split: option.split fops.split Option.bind_splits)

lemma put_slot: "file_put f (set_slot t i y fl s) = map_option (set_slot t i y fl) (file_put f s)"
  by (cases "fs_files s f") (auto simp: file_put_def Let_def slot_commute close_slot option.map_comp comp_def)

lemma slot_twice: "set_slot t i y fl (set_slot t i z fl' s) = set_slot t i y fl s"
  by (simp add: set_slot_def)

lemma get_fill:
  assumes i: "fd_inv held s" and l: "fs_files s f \<noteq> None" and h: "held f \<le> 9" and b: "t < TASK_TABLE_SIZE" "j < FD_TABLE_SIZE" "fs_table s t j = None"
  shows "\<exists>s'. file_get f (set_slot t j (Some f) fl s) = Some s' \<and> fd_inv held s' \<and> fs_table s' = (fs_table s)(t := (fs_table s t)(j := Some f)) \<and>
    fs_pipes s' = fs_pipes s \<and> dom (fs_files s') = dom (fs_files s)"
proof -
  obtain s1 where s1: "file_get f s = Some s1" "fd_inv (held(f := held f + 1)) s1" "fs_table s1 = fs_table s" "fs_pipes s1 = fs_pipes s"
    "dom (fs_files s1) = dom (fs_files s)" using file_get_inv [OF i l h] by blast
  have "fd_inv ((held(f := held f + 1))(f := (held(f := held f + 1)) f - 1)) (set_slot t j (Some f) fl s1)"
    by (rule slot_fill [OF s1(2)]) (use b s1(3) in auto)
  then show ?thesis using s1 by (simp add: get_slot)
qed

lemma find_free: "find (\<lambda>i. fs_table s t i = None) [a..<FD_TABLE_SIZE] = Some j \<Longrightarrow> fs_table s t j = None \<and> a \<le> j \<and> j < FD_TABLE_SIZE"
  by (auto simp: find_Some_iff nth_append)

lemma fd_alloc_inv:
  assumes "fd_inv held s" "fs_files s f \<noteq> None" "held f \<le> 9" "t < TASK_TABLE_SIZE"
  shows "\<exists>s' r. fd_alloc t f s = Some (s', r) \<and> fd_inv held s' \<and> fs_pipes s' = fs_pipes s \<and> dom (fs_files s') = dom (fs_files s) \<and>
    (r = - 1 \<and> fs_table s' = fs_table s \<or> 0 \<le> r \<and> fs_table s' = (fs_table s)(t := (fs_table s t)(nat r := Some f)))"
proof (cases "find (\<lambda>i. fs_table s t i = None) [0..<FD_TABLE_SIZE]")
  case None
  then show ?thesis using assms(1) by (simp add: fd_alloc_def)
next
  case (Some j)
  obtain s' where "file_get f (set_slot t j (Some f) 0 s) = Some s'" "fd_inv held s'" "fs_table s' = (fs_table s)(t := (fs_table s t)(j := Some f))"
    "fs_pipes s' = fs_pipes s" "dom (fs_files s') = dom (fs_files s)"
    using get_fill [OF assms] find_free [OF Some] by blast
  then show ?thesis using Some by (auto simp: fd_alloc_def)
qed

lemma put_clear:
  assumes i: "fd_inv held s" and f: "fs_table s t j = Some f"
  shows "\<exists>s'. file_put f s = Some s' \<and> fd_inv held (set_slot t j None fl s') \<and> fs_table s' = fs_table s"
proof -
  let ?s = "set_slot t j None fl s"
  have "fd_inv (held(f := held f + 1)) ?s" by (rule slot_clear [OF i f])
  then obtain s1 where s1: "file_put f ?s = Some s1" "fd_inv ((held(f := held f + 1))(f := (held(f := held f + 1)) f - 1)) s1"
    "fs_table s1 = fs_table ?s" using file_put_inv [of "held(f := held f + 1)" ?s f] by auto
  then obtain s' where s': "file_put f s = Some s'" "s1 = set_slot t j None fl s'" by (auto simp: put_slot)
  have "fs_table s' = fs_table s"
    using s'(1) by (auto simp: file_put_def file_close_def pipe_close_read_def pipe_close_write_def Let_def bind_eq_Some_conv
        split: if_splits option.splits fops.splits)
  then show ?thesis using s1(2) s' by auto
qed

lemma fd_close_inv:
  assumes "fd_inv held s"
  shows "\<exists>s' r. fd_close t fd s = Some (s', r) \<and> fd_inv held s' \<and> (\<forall>t' j. fs_table s' t' j = fs_table s t' j \<or> fs_table s' t' j = None)"
proof (cases "fd_get t fd s")
  case None
  then show ?thesis using assms by (simp add: fd_close_def)
next
  case (Some f)
  then have "fs_table s t (nat fd) = Some f" by (simp add: fd_get_def split: if_splits)
  then obtain s' where "file_put f s = Some s'" "fd_inv held (set_slot t (nat fd) None 0 s')" "fs_table s' = fs_table s"
    using put_clear [OF assms] by blast
  then show ?thesis using Some by (auto simp: fd_close_def)
qed

lemma fd_install_inv:
  assumes i: "fd_inv held s" and t: "t < TASK_TABLE_SIZE" and h: "held f \<le> 9"
    and f: "fs_table s t' j' = Some f" "(t', j') \<noteq> (t, nat fd)"
  shows "\<exists>s' r. fd_install t fd f s = Some (s', r) \<and> fd_inv held s'"
proof (cases "fd < 0 \<or> fd \<ge> int FD_TABLE_SIZE")
  case True
  then show ?thesis using i by (simp add: fd_install_def)
next
  case False
  have j: "nat fd < FD_TABLE_SIZE" using False by linarith
  obtain s1 where s1: "(case fs_table s t (nat fd) of Some g \<Rightarrow> file_put g s | None \<Rightarrow> Some s) = Some s1"
    "fd_inv held (set_slot t (nat fd) None 0 s1)" "fs_table s1 = fs_table s"
  proof (cases "fs_table s t (nat fd)")
    case None
    have "fd_inv held (set_slot t (nat fd) None 0 s)"
      using i None by (intro fd_inv_cong [OF i]) (auto simp: fun_upd_idem)
    then show ?thesis using that None by simp
  next
    case (Some g)
    obtain s' where "file_put g s = Some s'" "fd_inv held (set_slot t (nat fd) None 0 s')" "fs_table s' = fs_table s"
      using put_clear [OF i Some] by blast
    then show ?thesis using that Some by simp
  qed
  let ?s = "set_slot t (nat fd) None 0 s1"
  have "fs_table ?s t' j' = Some f" using f s1(3) by auto
  then have l: "fs_files ?s f \<noteq> None" using live [OF s1(2)] by blast
  have e: "fs_table ?s t (nat fd) = None" by simp
  obtain s2 where "file_get f (set_slot t (nat fd) (Some f) 0 ?s) = Some s2" "fd_inv held s2"
    using get_fill [OF s1(2) l h t j e] by blast
  then show ?thesis using False s1(1) by (simp add: fd_install_def slot_twice)
qed

lemma close_slots_inv:
  "fd_inv held s \<Longrightarrow> \<exists>s'. close_slots P t js s = Some s' \<and> fd_inv held s' \<and> (\<forall>t' j. fs_table s' t' j = fs_table s t' j \<or> fs_table s' t' j = None)"
proof (induction js arbitrary: s)
  case Nil then show ?case by simp
next
  case (Cons j js)
  obtain s1 r where s1: "fd_close t (int j) s = Some (s1, r)" "fd_inv held s1" "\<forall>t' j. fs_table s1 t' j = fs_table s t' j \<or> fs_table s1 t' j = None"
    using fd_close_inv [OF Cons.prems, of t "int j"] by blast
  show ?case
  proof (cases "fs_table s t j \<noteq> None \<and> P j s")
    case True
    obtain s2 where s2: "close_slots P t js s1 = Some s2" "fd_inv held s2" "\<forall>t' j. fs_table s2 t' j = fs_table s1 t' j \<or> fs_table s2 t' j = None"
      using Cons.IH [OF s1(2)] by blast
    have "close_slots P t (j # js) s = Some s2" using True s1(1) s2(1) by simp
    moreover have "\<forall>t' j. fs_table s2 t' j = fs_table s t' j \<or> fs_table s2 t' j = None" using s1(3) s2(3) by metis
    ultimately show ?thesis using s2(2) by blast
  next
    case False
    have "close_slots P t (j # js) s = close_slots P t js s" by (simp only: close_slots.simps if_not_P [OF False])
    then show ?thesis using Cons.IH [OF Cons.prems] by simp
  qed
qed

lemma clone_slots_inv:
  assumes "fd_inv held s" "child < TASK_TABLE_SIZE" "child \<noteq> parent" "\<forall>f. held f \<le> 9"
    and "\<forall>j \<in> set js. j < FD_TABLE_SIZE \<and> fs_table s child j = None" "distinct js"
  shows "\<exists>s'. clone_slots child parent js s = Some s' \<and> fd_inv held s'"
  using assms(1,5,6)
proof (induction js arbitrary: s)
  case Nil then show ?case by simp
next
  case (Cons j js)
  have j: "j < FD_TABLE_SIZE" "fs_table s child j = None" using Cons.prems by auto
  show ?case
  proof (cases "fs_table s parent j")
    case None
    have "fd_inv held (set_slot child j (fs_table s child j) (fs_flags s parent j) s)"
      by (rule fd_inv_cong [OF Cons.prems(1)]) auto
    then show ?thesis using None Cons.IH Cons.prems by simp
  next
    case (Some f)
    have l: "fs_files s f \<noteq> None" using live [OF Cons.prems(1)] Some by blast
    obtain s1 where s1: "file_get f s = Some s1" using l by (auto simp: file_get_def)
    have fl: "fs_flags s1 = fs_flags s" using s1 by (auto simp: file_get_def set_file_def bind_eq_Some_conv)
    obtain s2 where "file_get f (set_slot child j (Some f) (fs_flags s1 parent j) s) = Some s2" "fd_inv held s2"
      "fs_table s2 = (fs_table s)(child := (fs_table s child)(j := Some f))"
      using get_fill [OF Cons.prems(1) l _ assms(2) j] assms(4) by blast
    then have s2: "s2 = set_slot child j (Some f) (fs_flags s1 parent j) s1" "fd_inv held s2"
      "fs_table s2 = (fs_table s)(child := (fs_table s child)(j := Some f))" using s1 by (auto simp: get_slot)
    have "\<exists>s'. clone_slots child parent js s2 = Some s' \<and> fd_inv held s'"
      using Cons.prems s2(3) by (intro Cons.IH [OF s2(2)]) auto
    then show ?thesis using Some s1 s2(1) by simp
  qed
qed

lemma new_file:
  assumes i: "fd_inv held s" and f: "fs_files s f = None" and y: "fl_refcount y = 1" "\<And>p. fl_ops y \<noteq> Some (PipeR p) \<and> fl_ops y \<noteq> Some (PipeW p)"
  shows "fd_inv (held(f := 1)) (set_file f (Some y) s)" (is "fd_inv _ ?s")
proof (rule fd_invI)
  note D = fd_invD [OF i]
  have sl: "slots g ?s = slots g s" for g by (rule slots_cong) simp
  have e: "slots f s = {}" using D(2) [OF f] by simp
  have en: "ends (PipeR p) ?s = ends (PipeR p) s" "ends (PipeW p) ?s = ends (PipeW p) s" for p using f y(2) by (auto simp: ends_def)
  show "t < TASK_TABLE_SIZE \<and> j < FD_TABLE_SIZE" if "fs_table ?s t j \<noteq> None" for t j using D(1) that by simp
  show "slots g ?s = {} \<and> (held(f := 1)) g = 0" if "fs_files ?s g = None" for g using D(2) [of g] that sl by (auto split: if_splits)
  show "unat (fl_refcount z) = card (slots g ?s) + (held(f := 1)) g \<and> fl_refcount z \<noteq> 0" if "fs_files ?s g = Some z" for g z
    using D(3) [of g z] that sl e y(1) by (auto split: if_splits)
  show "ends (PipeR p) ?s = {} \<and> ends (PipeW p) ?s = {}" if "fs_pipes ?s p = None" for p using D(4) [of p] that en by simp
  show "end_count (ends (PipeR p) ?s) (pp_readers P) \<and> end_count (ends (PipeW p) ?s) (pp_writers P) \<and>
          (pp_readers P \<noteq> 0 \<or> pp_writers P \<noteq> 0) \<and> pipe_ok P" if "fs_pipes ?s p = Some P" for p P using D(5) [of p P] that en by simp
qed

lemma new_pipe:
  assumes i: "fd_inv held s" and f: "fs_files s rd = None" "fs_files s wr = None" "rd \<noteq> wr" "fs_pipes s p = None"
    and x: "fl_refcount x = 1" "fl_ops x = Some (PipeR p)" and y: "fl_refcount y = 1" "fl_ops y = Some (PipeW p)"
  shows "fd_inv (held(rd := 1, wr := 1)) (set_file wr (Some y) (set_file rd (Some x) (set_pipe p (Some pipe_init) s)))" (is "fd_inv ?h ?s")
proof (rule fd_invI)
  note D = fd_invD [OF i]
  have sl: "slots g ?s = slots g s" for g by (rule slots_cong) simp
  have e: "slots rd s = {}" "slots wr s = {}" using D(2) f by auto
  have en: "ends (PipeR p) ?s = {rd}" "ends (PipeW p) ?s = {wr}" using f x y D(4) [OF f(4)] by (auto simp: ends_def split: if_splits)
  have en': "ends (PipeR q) ?s = ends (PipeR q) s" "ends (PipeW q) ?s = ends (PipeW q) s" if "q \<noteq> p" for q
    using f x y that by (auto simp: ends_def split: if_splits)
  show "t < TASK_TABLE_SIZE \<and> j < FD_TABLE_SIZE" if "fs_table ?s t j \<noteq> None" for t j using D(1) that by simp
  show "slots g ?s = {} \<and> ?h g = 0" if "fs_files ?s g = None" for g using D(2) [of g] that sl by (auto split: if_splits)
  show "unat (fl_refcount z) = card (slots g ?s) + ?h g \<and> fl_refcount z \<noteq> 0" if "fs_files ?s g = Some z" for g z
    using D(3) [of g z] that sl e x y f(3) by (auto split: if_splits)
  show "ends (PipeR q) ?s = {} \<and> ends (PipeW q) ?s = {}" if "fs_pipes ?s q = None" for q
    using D(4) [of q] that en' [of q] by (auto split: if_splits)
  show "end_count (ends (PipeR q) ?s) (pp_readers P) \<and> end_count (ends (PipeW q) ?s) (pp_writers P) \<and>
          (pp_readers P \<noteq> 0 \<or> pp_writers P \<noteq> 0) \<and> pipe_ok P" if "fs_pipes ?s q = Some P" for q P
  proof (cases "q = p")
    case True
    then show ?thesis using that en pipe_init_ok by (auto simp: end_count_def)
  next
    case False
    then show ?thesis using D(5) [of q P] that en' [OF False] by simp
  qed
qed

lemma pipe_upd:
  assumes i: "fd_inv held s" and P: "fs_pipes s p = Some P" "pp_readers P' = pp_readers P" "pp_writers P' = pp_writers P" "pipe_ok P'"
  shows "fd_inv held (set_pipe p (Some P') s)"
proof (rule fd_invI)
  note D = fd_invD [OF i]
  have e: "slots f (set_pipe p (Some P') s) = slots f s" "ends op (set_pipe p (Some P') s) = ends op s" for f op by (simp_all add: slots_def ends_def)
  show "t < TASK_TABLE_SIZE \<and> j < FD_TABLE_SIZE" if "fs_table (set_pipe p (Some P') s) t j \<noteq> None" for t j using D(1) that by simp
  show "slots f (set_pipe p (Some P') s) = {} \<and> held f = 0" if "fs_files (set_pipe p (Some P') s) f = None" for f using D(2) [of f] that e by simp
  show "unat (fl_refcount x) = card (slots f (set_pipe p (Some P') s)) + held f \<and> fl_refcount x \<noteq> 0"
    if "fs_files (set_pipe p (Some P') s) f = Some x" for f x using D(3) [of f x] that e by simp
  show "ends (PipeR q) (set_pipe p (Some P') s) = {} \<and> ends (PipeW q) (set_pipe p (Some P') s) = {}"
    if "fs_pipes (set_pipe p (Some P') s) q = None" for q using D(4) [of q] that e by (simp split: if_splits)
  show "end_count (ends (PipeR q) (set_pipe p (Some P') s)) (pp_readers Q) \<and> end_count (ends (PipeW q) (set_pipe p (Some P') s)) (pp_writers Q) \<and>
      (pp_readers Q \<noteq> 0 \<or> pp_writers Q \<noteq> 0) \<and> pipe_ok Q" if "fs_pipes (set_pipe p (Some P') s) q = Some Q" for q Q
  proof (cases "q = p")
    case True
    then have "Q = P'" using that by simp
    then show ?thesis unfolding e True using D(5) [OF P(1)] P(2-4) by simp
  next
    case False
    then show ?thesis unfolding e using D(5) [of q Q] that by simp
  qed
qed

lemma file_upd:
  assumes i: "fd_inv held s" and x: "fs_files s f = Some x" "fl_ops y = fl_ops x" "fl_refcount y = fl_refcount x"
  shows "fd_inv held (set_file f (Some y) s)"
proof -
  have "fd_inv (held(f := held f)) (set_file f (Some y) s)" using fd_invD(3) [OF i x(1)] x(3) by (intro fd_inv_file [OF i x(1,2)]) simp_all
  then show ?thesis by simp
qed

lemma put_inv: "fd_inv held s \<Longrightarrow> 0 < held f \<Longrightarrow> \<exists>s'. file_put f s = Some s' \<and> fd_inv (held(f := held f - 1)) s'"
  using file_put_inv by blast

lemma alloc_inv:
  assumes "fd_inv held s" "0 < held f" "held f \<le> 9" "t < TASK_TABLE_SIZE"
  shows "\<exists>s' r. fd_alloc t f s = Some (s', r) \<and> fd_inv held s'"
  using fd_alloc_inv [OF assms(1) _ assms(3,4)] live [OF assms(1), of _ _ f] assms(2) by blast

lemma open_install_inv:
  assumes i: "fd_inv (\<lambda>_. 0) s" and t: "t < TASK_TABLE_SIZE" and m: "\<forall>f. mem = Some f \<longrightarrow> fs_files s f = None"
  shows "\<exists>s' r. open_install t v sz flags mem s = Some (s', r) \<and> fd_inv (\<lambda>_. 0) s'"
proof (cases mem)
  case None
  have "fd_inv (\<lambda>_. 0) (outcall (VnodePut v) s)" by (rule fd_inv_cong [OF i]) simp_all
  then show ?thesis using None by (simp add: open_install_def file_alloc_def)
next
  case (Some f)
  define s1 where "s1 = fst (file_alloc mem v sz (flags AND NOT O_CLOEXEC) s)"
  have a: "file_alloc mem v sz (flags AND NOT O_CLOEXEC) s = (s1, Some f)" by (simp add: s1_def file_alloc_def Some)
  have fr: "fs_files s f = None" using m Some by blast
  have i1: "fd_inv ((\<lambda>_. 0)(f := 1)) (outcall (VnodePut v) s1)"
    by (rule fd_inv_cong [OF new_file [OF i fr]]) (auto simp: s1_def file_alloc_def Some)
  obtain s2 r where s2: "fd_alloc t f (outcall (VnodePut v) s1) = Some (s2, r)" "fd_inv ((\<lambda>_. 0)(f := 1)) s2" using alloc_inv [OF i1, of f t] t by auto
  obtain s3 where s3: "file_put f s2 = Some s3" "fd_inv (((\<lambda>_. 0)(f := 1))(f := 0)) s3" using put_inv [OF s2(2), of f] by auto
  have "fd_inv (\<lambda>_. 0) s3" using s3(2) by (simp add: fun_upd_idem)
  moreover have "fd_inv (\<lambda>_. 0) (or_flag t (nat r) FD_CLOEXEC s3)" by (rule fd_inv_cong [OF \<open>fd_inv (\<lambda>_. 0) s3\<close>]) simp_all
  ultimately show ?thesis using a s2(1) s3(1) by (auto simp: open_install_def)
qed

lemma put_both:
  assumes "fd_inv ((\<lambda>_. 0)(rd := 1, wr := 1)) s" "rd \<noteq> wr"
  shows "\<exists>s1 s2. file_put rd s = Some s1 \<and> file_put wr s1 = Some s2 \<and> fd_inv (\<lambda>_. 0) s2"
proof -
  obtain s1 where s1: "file_put rd s = Some s1" "fd_inv (((\<lambda>_. 0)(rd := 1, wr := 1))(rd := 0)) s1" using put_inv [OF assms(1), of rd] assms(2) by auto
  obtain s2 where s2: "file_put wr s1 = Some s2" "fd_inv ((((\<lambda>_. 0)(rd := 1, wr := 1))(rd := 0))(wr := 0)) s2"
    using put_inv [OF s1(2), of wr] assms(2) by auto
  have "(((\<lambda>_. 0 :: nat)(rd := 1, wr := 1))(rd := 0))(wr := 0) = (\<lambda>_. 0)" by auto
  then show ?thesis using s1 s2 by metis
qed

lemma or_file_flags_inv:
  assumes "fd_inv held s" "0 < held f"
  shows "\<exists>s'. or_file_flags f fl s = Some s' \<and> fd_inv held s'"
proof -
  obtain x where x: "fs_files s f = Some x" using live [OF assms(1), of _ _ f] assms(2) by blast
  then show ?thesis using file_upd [OF assms(1) x, of "x\<lparr>fl_flags := fl_flags x OR fl\<rparr>"] by (simp add: or_file_flags_def)
qed

lemma pipe2_finish_inv:
  assumes i: "fd_inv ((\<lambda>_. 0)(rd := 1, wr := 1)) s" and ne: "rd \<noteq> wr"
  shows "\<exists>s' r. pipe2_finish t flags rd wr rfd wfd s = Some (s', r) \<and> fd_inv (\<lambda>_. 0) s'"
proof -
  let ?h = "(\<lambda>_. 0 :: nat)(rd := 1, wr := 1)"
  obtain s1 where s1: "(if flags AND O_NONBLOCK \<noteq> 0 then do { s \<leftarrow> or_file_flags rd O_NONBLOCK s; or_file_flags wr O_NONBLOCK s } else Some s) = Some s1" "fd_inv ?h s1"
    using i or_file_flags_inv [OF i, of rd O_NONBLOCK] or_file_flags_inv [of ?h _ wr O_NONBLOCK] ne by (cases "flags AND O_NONBLOCK \<noteq> 0") fastforce+
  define s2 where "s2 = (if flags AND O_CLOEXEC \<noteq> 0 then or_flag t (nat wfd) FD_CLOEXEC (or_flag t (nat rfd) FD_CLOEXEC s1) else s1)"
  have "fd_inv ?h s2" by (rule fd_inv_cong [OF s1(2)]) (simp_all add: s2_def)
  then obtain s3 s4 where "file_put rd s2 = Some s3" "file_put wr s3 = Some s4" "fd_inv (\<lambda>_. 0) s4" using put_both ne by blast
  then show ?thesis unfolding pipe2_finish_def s1(1) s2_def by simp
qed

lemma pipe2_fds_inv:
  assumes i: "fd_inv ((\<lambda>_. 0)(rd := 1, wr := 1)) s" and ne: "rd \<noteq> wr" and t: "t < TASK_TABLE_SIZE"
  shows "\<exists>s' r. pipe2_fds t flags rd wr s = Some (s', r) \<and> fd_inv (\<lambda>_. 0) s'"
proof -
  let ?h = "(\<lambda>_. 0 :: nat)(rd := 1, wr := 1)"
  obtain s1 rfd where s1: "fd_alloc t rd s = Some (s1, rfd)" "fd_inv ?h s1" using alloc_inv [OF i, of rd t] ne t by auto
  obtain s2 wfd where s2: "fd_alloc t wr s1 = Some (s2, wfd)" "fd_inv ?h s2" using alloc_inv [OF s1(2), of wr t] t by auto
  obtain s3 r where s3: "fd_close t rfd s2 = Some (s3, r)" "fd_inv ?h s3" using fd_close_inv [OF s2(2)] by blast
  obtain a1 a2 where a: "file_put rd s1 = Some a1" "file_put wr a1 = Some a2" "fd_inv (\<lambda>_. 0) a2" using put_both [OF s1(2) ne] by blast
  obtain b1 b2 where b: "file_put rd s3 = Some b1" "file_put wr b1 = Some b2" "fd_inv (\<lambda>_. 0) b2" using put_both [OF s3(2) ne] by blast
  show ?thesis
    using s1(1) s2(1) s3(1) a b pipe2_finish_inv [OF s2(2) ne] by (cases "rfd < 0"; cases "wfd < 0") (simp_all add: pipe2_fds_def)
qed

lemma sys_pipe2_inv:
  assumes i: "fd_inv (\<lambda>_. 0) s" and t: "t < TASK_TABLE_SIZE"
    and m: "\<forall>p. pm = Some p \<longrightarrow> fs_pipes s p = None" "\<forall>f. rm = Some f \<or> wm = Some f \<longrightarrow> fs_files s f = None" "rm \<noteq> wm \<or> rm = None"
  shows "\<exists>s' r. sys_pipe2 t flags pm rm wm s = Some (s', r) \<and> fd_inv (\<lambda>_. 0) s'"
proof -
  have same: "fd_inv (\<lambda>_. 0) s'" if "fs_files s' = fs_files s" "fs_pipes s' = fs_pipes s" "fs_table s' = fs_table s" for s' by (rule fd_inv_cong [OF i that])
  consider (none) "pm = None" | (rd) p where "pm = Some p" "rm = None" | (wr) p rd where "pm = Some p" "rm = Some rd" "wm = None"
    | (all) p rd wr where "pm = Some p" "rm = Some rd" "wm = Some wr" by (cases pm; cases rm; cases wm) auto
  then show ?thesis
  proof cases
    case none then show ?thesis using i by (simp add: sys_pipe2_def)
  next
    case rd
    then show ?thesis using m(1) by (auto simp: sys_pipe2_def file_alloc_generic_def intro!: same)
  next
    case wr
    then show ?thesis using m by (auto simp: sys_pipe2_def file_alloc_generic_def file_put_def file_close_def pipe_close_read_def pipe_init_ok intro!: same)
  next
    case all
    have "fd_inv ((\<lambda>_. 0)(rd := 1, wr := 1)) (set_file wr (Some \<lparr>fl_vnode = None, fl_ops = Some (PipeW p), fl_offset = 0, fl_flags = O_WRONLY, fl_refcount = 1\<rparr>)
      (set_file rd (Some \<lparr>fl_vnode = None, fl_ops = Some (PipeR p), fl_offset = 0, fl_flags = 0, fl_refcount = 1\<rparr>) (set_pipe p (Some pipe_init) s)))"
      by (rule new_pipe [OF i]) (use m all in auto)
    then show ?thesis using pipe2_fds_inv [OF _ _ t] m(3) all by (auto simp: sys_pipe2_def file_alloc_generic_def)
  qed
qed

section \<open>Every call keeps the counts\<close>

lemma dup2_inv:
  assumes i: "fd_inv (\<lambda>_. 0) s" and t: "t < TASK_TABLE_SIZE"
  shows "\<exists>s' r. fd_dup2 t a b s = Some (s', r) \<and> fd_inv (\<lambda>_. 0) s'"
proof (cases "b < 0 \<or> b \<ge> int FD_TABLE_SIZE \<or> a = b \<or> fd_get t a s = None")
  case True
  then show ?thesis using i by (auto simp: fd_dup2_def)
next
  case False
  then obtain f where f: "fd_get t a s = Some f" by auto
  then have a: "fs_table s t (nat a) = Some f" "0 \<le> a" by (auto simp: fd_get_def split: if_splits)
  then have "(t, nat a) \<noteq> (t, nat b)" using False by auto
  then show ?thesis using fd_install_inv [OF i t _ a(1)] False f by (simp add: fd_dup2_def)
qed

lemma fcntl_dupfd_inv:
  assumes i: "fd_inv (\<lambda>_. 0) s" and t: "t < TASK_TABLE_SIZE" and f: "fs_table s t j = Some f"
  shows "\<exists>s' r. fcntl_dupfd c t m f s = Some (s', r) \<and> fd_inv (\<lambda>_. 0) s'"
proof (cases "m < 0 \<or> find (\<lambda>i. fs_table s t i = None) [nat m..<FD_TABLE_SIZE] = None")
  case True
  then show ?thesis using i by (auto simp: fcntl_dupfd_def)
next
  case False
  then obtain k where k: "find (\<lambda>i. fs_table s t i = None) [nat m..<FD_TABLE_SIZE] = Some k" by auto
  then have "(t, j) \<noteq> (t, nat (int k))" using find_free [OF k] f by auto
  then obtain s' r where s': "fd_install t (int k) f s = Some (s', r)" "fd_inv (\<lambda>_. 0) s'" using fd_install_inv [OF i t _ f] by fastforce
  have "fd_inv (\<lambda>_. 0) (or_flag t k FD_CLOEXEC s')" by (rule fd_inv_cong [OF s'(2)]) simp_all
  then show ?thesis using False k s' by (auto simp: fcntl_dupfd_def)
qed

lemma fcntl_inv:
  assumes i: "fd_inv (\<lambda>_. 0) s" and t: "t < TASK_TABLE_SIZE"
  shows "\<exists>s' r. sc_fcntl t a b c s = Some (s', r) \<and> fd_inv (\<lambda>_. 0) s'"
proof (cases "fd_get t (c_int a) s")
  case None
  then show ?thesis using i by (simp add: sc_fcntl_def)
next
  case (Some f)
  then have f: "fs_table s t (nat (c_int a)) = Some f" by (simp add: fd_get_def split: if_splits)
  then obtain x where x: "fs_files s f = Some x" using live [OF i] by blast
  note d = fcntl_dupfd_inv [OF i t f]
  have setfd: "fd_inv (\<lambda>_. 0) (s\<lparr>fs_flags := fl\<rparr>)" for fl by (rule fd_inv_cong [OF i]) simp_all
  have setfl: "fd_inv (\<lambda>_. 0) (set_file f (Some (x\<lparr>fl_flags := fl\<rparr>)) s)" for fl by (rule file_upd [OF i x]) simp_all
  consider "c_int b = 0" | "c_int b = 1" | "c_int b = 2" | "c_int b = 3" | "c_int b = 4" | "c_int b = 1030"
    | "c_int b \<notin> {0, 1, 2, 3, 4, 1030}" by blast
  then show ?thesis using i Some x d setfd setfl by cases (simp_all add: sc_fcntl_def)
qed

lemma read_inv:
  assumes i: "fd_inv (\<lambda>_. 0) s"
  shows "\<exists>s' r. sys_read t fd n env s = Some (s', r) \<and> fd_inv (\<lambda>_. 0) s'"
proof (cases "n = 0 \<or> fd_get t fd s = None")
  case True
  then show ?thesis using i by (auto simp: sys_read_def)
next
  case False
  then obtain f where f: "fd_get t fd s = Some f" by auto
  then obtain x where x: "fs_files s f = Some x" using live [OF i, of t "nat fd" f] by (auto simp: fd_get_def split: if_splits)
  have off: "fd_inv (\<lambda>_. 0) (set_offset f x k s)" for k unfolding set_offset_def by (rule file_upd [OF i x]) simp_all
  show ?thesis
  proof (cases "\<exists>p. fl_ops x = Some (PipeR p)")
    case True
    then obtain p where p: "fl_ops x = Some (PipeR p)" by blast
    obtain P where P: "fs_pipes s p = Some P" using pipe_end [OF i x p, of p] by auto
    then have ok: "pipe_ok P" using fd_invD(5) [OF i] by blast
    obtain P' xs where d: "pipe_drain (min (unat (pp_count P)) n) P = (P', xs)" by (cases "pipe_drain (min (unat (pp_count P)) n) P")
    have "fd_inv (\<lambda>_. 0) (set_pipe p (Some P') s)" using pipe_upd [OF i P] pipe_drain_effect [OF ok d] by blast
    then have "fd_inv (\<lambda>_. 0) (outcall (WakeWriter p) (set_pipe p (Some P') s))" by (rule fd_inv_cong) simp_all
    then show ?thesis using False f x p P i d by (auto simp: sys_read_def pipe_read_op_def)
  next
    case np: False
    then show ?thesis using False f x i off by (cases "fl_ops x") (auto simp: sys_read_def split: fops.splits)
  qed
qed

lemma write_round_inv:
  assumes i: "fd_inv (\<lambda>_. 0) s" and P: "fs_pipes s p = Some P"
  shows "\<exists>s' r. pipe_write_round flags p src k s = Some (s', r) \<and> fd_inv (\<lambda>_. 0) s'"
proof -
  have ok: "pipe_ok P" using fd_invD(5) [OF i P] by blast
  obtain P' n where d: "pipe_fill (drop k src) P = (P', n)" by (cases "pipe_fill (drop k src) P")
  have "fd_inv (\<lambda>_. 0) (set_pipe p (Some P') s)" using pipe_upd [OF i P] pipe_fill_effect [OF ok d] by blast
  then have "fd_inv (\<lambda>_. 0) (outcall (WakeReader p) (set_pipe p (Some P') s))" by (rule fd_inv_cong) simp_all
  then show ?thesis using P i d by (auto simp: pipe_write_round_def Let_def)
qed

lemma write_inv:
  assumes i: "fd_inv (\<lambda>_. 0) s"
  shows "\<exists>s' r. sys_write t fd buf env s = Some (s', r) \<and> fd_inv (\<lambda>_. 0) s'"
proof (cases "buf = [] \<or> fd_get t fd s = None")
  case True
  then show ?thesis using i by (auto simp: sys_write_def)
next
  case False
  then obtain f where f: "fd_get t fd s = Some f" by auto
  then obtain x where x: "fs_files s f = Some x" using live [OF i, of t "nat fd" f] by (auto simp: fd_get_def split: if_splits)
  have off: "fd_inv (\<lambda>_. 0) (set_offset f x k s)" for k unfolding set_offset_def by (rule file_upd [OF i x]) simp_all
  show ?thesis
  proof (cases "\<exists>p. fl_ops x = Some (PipeW p)")
    case True
    then obtain p where p: "fl_ops x = Some (PipeW p)" by blast
    obtain P where P: "fs_pipes s p = Some P" using pipe_end [OF i x p, of p] by auto
    have sig: "fd_inv (\<lambda>_. 0) (outcall (SigPipe t) s)" by (rule fd_inv_cong [OF i]) simp_all
    have "\<exists>s' r. pipe_write_op t (fl_flags x) p buf s = Some (s', r) \<and> fd_inv (\<lambda>_. 0) s'"
      using P sig write_round_inv [OF i P, of "fl_flags x" buf 0] by (cases "pp_readers P = 0") (simp_all add: pipe_write_op_def)
    then show ?thesis using False f x p i by (auto simp: sys_write_def)
  next
    case np: False
    then show ?thesis using False f x i off by (cases "fl_ops x") (auto simp: sys_write_def Let_def split: fops.splits)
  qed
qed

lemma lseek_inv:
  assumes i: "fd_inv (\<lambda>_. 0) s"
  shows "\<exists>s' r. sys_lseek t fd off whence env s = Some (s', r) \<and> fd_inv (\<lambda>_. 0) s'"
proof (cases "fd_get t fd s")
  case None
  then show ?thesis using i by (simp add: sys_lseek_def)
next
  case (Some f)
  then obtain x where x: "fs_files s f = Some x" using live [OF i, of t "nat fd" f] by (auto simp: fd_get_def split: if_splits)
  have off: "fd_inv (\<lambda>_. 0) (set_offset f x k s)" for k unfolding set_offset_def by (rule file_upd [OF i x]) simp_all
  then show ?thesis using i Some x by (simp add: sys_lseek_def Let_def)
qed

section \<open>Runs\<close>

datatype fd_op = Open nat nat u64 u32 "nat option" | Pipe2 nat u32 "nat option" "nat option" "nat option"
  | Close nat int | Dup nat int | Dup2 nat int int | Dup3 nat u64 u64 u64 | Fcntl nat u64 u64 u64
  | Seek nat int int int io_env | CloseExec nat | ExitTask nat | Fork nat nat | Read nat int nat io_env | Write nat int "u8 list" io_env

fun fd_do :: "fd_op \<Rightarrow> fdst \<Rightarrow> fdst option" where
  "fd_do (Open t v sz flags mem) s = map_option fst (open_install t v sz flags mem s)"
| "fd_do (Pipe2 t flags pm rm wm) s = map_option fst (sys_pipe2 t flags pm rm wm s)"
| "fd_do (Close t fd) s = map_option fst (sys_close t fd s)"
| "fd_do (Dup t fd) s = map_option fst (sys_dup t fd s)"
| "fd_do (Dup2 t a b) s = map_option fst (sys_dup2 t a b s)"
| "fd_do (Dup3 t a b c) s = map_option fst (sc_dup3 t a b c s)"
| "fd_do (Fcntl t a b c) s = map_option fst (sc_fcntl t a b c s)"
| "fd_do (CloseExec t) s = fd_close_cloexec t s"
| "fd_do (ExitTask t) s = fd_close_all t s"
| "fd_do (Fork child parent) s = fd_table_clone child parent s"
| "fd_do (Read t fd n env) s = map_option fst (sys_read t fd n env s)"
| "fd_do (Seek t fd off whence env) s = map_option fst (sys_lseek t fd off whence env s)"
| "fd_do (Write t fd buf env) s = map_option fst (sys_write t fd buf env s)"

text \<open>The allocator hands out free memory, and a new task starts with an empty table.\<close>

fun fd_allowed :: "fd_op \<Rightarrow> fdst \<Rightarrow> bool" where
  "fd_allowed (Open t v sz flags mem) s = (t < TASK_TABLE_SIZE \<and> (case mem of None \<Rightarrow> True | Some f \<Rightarrow> fs_files s f = None))"
| "fd_allowed (Pipe2 t flags pm rm wm) s =
     (t < TASK_TABLE_SIZE \<and> (case pm of None \<Rightarrow> True | Some p \<Rightarrow> fs_pipes s p = None) \<and> (case rm of None \<Rightarrow> True | Some f \<Rightarrow> fs_files s f = None) \<and>
      (case wm of None \<Rightarrow> True | Some f \<Rightarrow> fs_files s f = None) \<and> (rm \<noteq> wm \<or> rm = None))"
| "fd_allowed (Fork child parent) s = (child < TASK_TABLE_SIZE \<and> child \<noteq> parent \<and> (\<forall>i. fs_table s child i = None))"
| "fd_allowed (Dup t fd) s = (t < TASK_TABLE_SIZE)"
| "fd_allowed (Dup2 t a b) s = (t < TASK_TABLE_SIZE)"
| "fd_allowed (Dup3 t a b c) s = (t < TASK_TABLE_SIZE)"
| "fd_allowed (Fcntl t a b c) s = (t < TASK_TABLE_SIZE)"
| "fd_allowed op s = True"

inductive fd_reach :: "fdst \<Rightarrow> bool" where
  fd_start: "fd_reach fd_empty"
| fd_call: "fd_reach s \<Longrightarrow> fd_allowed op s \<Longrightarrow> fd_do op s = Some s' \<Longrightarrow> fd_reach s'"

lemma fd_do_inv:
  assumes i: "fd_inv (\<lambda>_. 0) s" and a: "fd_allowed op s"
  shows "\<exists>s'. fd_do op s = Some s' \<and> fd_inv (\<lambda>_. 0) s'"
proof (cases op)
  case (Open t v sz flags mem)
  then show ?thesis using open_install_inv [OF i, of t mem v sz flags] a by (fastforce split: option.splits)
next
  case (Pipe2 t flags pm rm wm)
  then show ?thesis using sys_pipe2_inv [OF i, of t pm rm wm flags] a by (fastforce split: option.splits)
next
  case (Close t fd)
  then show ?thesis using fd_close_inv [OF i, of t fd] by (auto simp: sys_close_def)
next
  case (Dup t fd)
  have "\<exists>s' r. fd_dup t fd s = Some (s', r) \<and> fd_inv (\<lambda>_. 0) s'"
  proof (cases "fd_get t fd s")
    case None then show ?thesis using i by (simp add: fd_dup_def)
  next
    case (Some f)
    then have "fs_files s f \<noteq> None" using live [OF i, of t "nat fd" f] by (auto simp: fd_get_def split: if_splits)
    then show ?thesis using fd_alloc_inv [OF i, of f t] a Dup Some by (auto simp: fd_dup_def)
  qed
  then show ?thesis using Dup by (auto simp: sys_dup_def)
next
  case (Dup2 t x y)
  then show ?thesis using dup2_inv [OF i, of t x y] a by (auto simp: sys_dup2_def)
next
  case (Dup3 t x y c)
  obtain s' r where s': "fd_dup2 t (c_int x) (c_int y) s = Some (s', r)" "fd_inv (\<lambda>_. 0) s'" using dup2_inv [OF i] a Dup3 by fastforce
  have "fd_inv (\<lambda>_. 0) (or_flag t k FD_CLOEXEC s')" for k by (rule fd_inv_cong [OF s'(2)]) simp_all
  then show ?thesis using Dup3 s' i by (auto simp: sc_dup3_def)
next
  case (Fcntl t x y c)
  then show ?thesis using fcntl_inv [OF i, of t x y c] a by auto
next
  case (CloseExec t)
  then show ?thesis using close_slots_inv [OF i] by (fastforce simp: fd_close_cloexec_def)
next
  case (ExitTask t)
  then show ?thesis using close_slots_inv [OF i] by (fastforce simp: fd_close_all_def)
next
  case (Fork child parent)
  then show ?thesis using clone_slots_inv [OF i, of child parent "[0..<FD_TABLE_SIZE]"] a by (auto simp: fd_table_clone_def)
next
  case (Read t fd n env)
  then show ?thesis using read_inv [OF i, of t fd n env] by auto
next
  case (Seek t fd off whence env)
  then show ?thesis using lseek_inv [OF i, of t fd off whence env] by auto
next
  case (Write t fd buf env)
  then show ?thesis using write_inv [OF i, of t fd buf env] by auto
qed

lemma fd_reach_inv: "fd_reach s \<Longrightarrow> fd_inv (\<lambda>_. 0) s"
proof (induction rule: fd_reach.induct)
  case fd_start
  show ?case by (simp add: fd_inv_def fd_empty_def slots_def ends_def)
next
  case (fd_call s op s')
  then show ?case using fd_do_inv [of s op] by auto
qed

definition holds :: "fops \<Rightarrow> fdst \<Rightarrow> bool" where
  "holds op s \<longleftrightarrow> (\<exists>t i f x. fs_table s t i = Some f \<and> fs_files s f = Some x \<and> fl_ops x = Some op)"

lemma holds_ends:
  assumes i: "fd_inv (\<lambda>_. 0) s"
  shows "holds op s \<longleftrightarrow> ends op s \<noteq> {}"
proof
  assume "ends op s \<noteq> {}"
  then obtain f x where x: "fs_files s f = Some x" "fl_ops x = Some op" by (auto simp: ends_def)
  then have "card (slots f s) \<noteq> 0" using fd_invD(3) [OF i x(1)] by (metis add.right_neutral unsigned_eq_0_iff)
  then obtain t j where "fs_table s t j = Some f" by (force simp: slots_def card_eq_0_iff)
  then show "holds op s" using x by (auto simp: holds_def)
qed (auto simp: holds_def ends_def)

lemma end_count_zero: "end_count fs n \<Longrightarrow> n = 0 \<longleftrightarrow> fs = {}"
  by (auto simp: end_count_def)

text \<open>C38: After any sequence of open, pipe2, close, dup, dup2, dup3, fcntl, read, write, lseek, exec, fork and exit by any
  tasks, the reference count of every open file is the number of descriptors that name it, in all tables
  together, and is not zero; no descriptor names a freed file; a pipe counts its readers (writers) as zero
  exactly when no descriptor of any task is open on its read (write) end, which is when a write raises EPIPE and
  a read returns end of file; a pipe is freed exactly when neither end is open; and no operation touches a freed
  file or pipe, since every operation the scheduler and the allocator allow has a result.
\<close>

theorem fd_refs_exact:
  assumes "fd_reach s"
  shows "(\<forall>f x. fs_files s f = Some x \<longrightarrow> unat (fl_refcount x) = card (slots f s) \<and> slots f s \<noteq> {}) \<and>
    (\<forall>t i f. fs_table s t i = Some f \<longrightarrow> fs_files s f \<noteq> None) \<and>
    (\<forall>p P. fs_pipes s p = Some P \<longrightarrow> (pp_writers P = 0 \<longleftrightarrow> \<not> holds (PipeW p) s) \<and> (pp_readers P = 0 \<longleftrightarrow> \<not> holds (PipeR p) s)) \<and>
    (\<forall>p. fs_pipes s p = None \<longleftrightarrow> \<not> holds (PipeW p) s \<and> \<not> holds (PipeR p) s) \<and>
    (\<forall>op. fd_allowed op s \<longrightarrow> fd_do op s \<noteq> None)"
proof -
  have i: "fd_inv (\<lambda>_. 0) s" by (rule fd_reach_inv [OF assms])
  have ref: "unat (fl_refcount x) = card (slots f s) \<and> slots f s \<noteq> {}" if "fs_files s f = Some x" for f x
    using fd_invD(3) [OF i that] by (auto simp: unsigned_eq_0_iff)
  have pipes: "(pp_writers P = 0 \<longleftrightarrow> \<not> holds (PipeW p) s) \<and> (pp_readers P = 0 \<longleftrightarrow> \<not> holds (PipeR p) s) \<and> (holds (PipeW p) s \<or> holds (PipeR p) s)"
    if "fs_pipes s p = Some P" for p P
    using fd_invD(5) [OF i that] holds_ends [OF i] end_count_zero by metis
  have gone: "fs_pipes s p = None \<longleftrightarrow> \<not> holds (PipeW p) s \<and> \<not> holds (PipeR p) s" for p
    using fd_invD(4) [OF i] holds_ends [OF i] pipes by (cases "fs_pipes s p") blast+
  have named: "fs_files s f \<noteq> None" if "fs_table s t j = Some f" for t j f using live [OF i] that by blast
  have total_ops: "fd_do op s \<noteq> None" if "fd_allowed op s" for op using fd_do_inv [OF i that] by auto
  show ?thesis using ref pipes gone total_ops named by simp
qed

definition fd_probe :: "fdst \<Rightarrow> (nat option \<times> nat option) \<times> (u32 \<times> u32) option" where
  "fd_probe s = ((fs_table s 1 0, fs_table s 1 1), map_option (\<lambda>P. (pp_readers P, pp_writers P)) (fs_pipes s 5))"

theorem fd_refs_exact_witness:
  "\<exists>s1 s. fd_do (Pipe2 1 0 (Some 5) (Some 7) (Some 8)) fd_empty = Some s1 \<and> fd_do (Close 1 0) s1 = Some s \<and>
     fd_probe s = ((None, Some 8), Some (0, 1)) \<and> \<not> holds (PipeR 5) s \<and> holds (PipeW 5) s"
proof -
  have run: "map_option fd_probe (Option.bind (fd_do (Pipe2 1 0 (Some 5) (Some 7) (Some 8)) fd_empty) (fd_do (Close 1 0))) = Some ((None, Some 8), Some (0, 1))"
    by code_simp
  then obtain s1 s where s: "fd_do (Pipe2 1 0 (Some 5) (Some 7) (Some 8)) fd_empty = Some s1" "fd_do (Close 1 0) s1 = Some s" "fd_probe s = ((None, Some 8), Some (0, 1))"
    by (auto simp: bind_eq_Some_conv simp del: fd_do.simps)
  have "fd_allowed (Pipe2 1 0 (Some 5) (Some 7) (Some 8)) fd_empty" by (simp add: fd_empty_def TASK_TABLE_SIZE_def)
  then have "fd_reach s" using fd_call [OF fd_call [OF fd_start _ s(1)] _ s(2)] by simp
  moreover obtain P where P: "fs_pipes s 5 = Some P" "pp_readers P = 0" "pp_writers P = 1" using s(3) by (auto simp: fd_probe_def)
  ultimately have "(pp_writers P = 0 \<longleftrightarrow> \<not> holds (PipeW 5) s) \<and> (pp_readers P = 0 \<longleftrightarrow> \<not> holds (PipeR 5) s)" using fd_refs_exact [of s] by blast
  then have "\<not> holds (PipeR 5) s \<and> holds (PipeW 5) s" using P by simp
  then show ?thesis using s by blast
qed

text \<open>C40: A descriptor made by \<open>socket\<close> or \<open>accept\<close> never gives its file back: the creator's reference is not
  dropped after \<open>fd_alloc\<close> has taken the table's, so \<open>close\<close> empties the slot but leaves the file allocated with
  one reference and the driver's close is not called. While it is open, \<open>write\<close> on it is refused with EACCES
  before the driver sees it, since its flags are zero, which is O_RDONLY.
\<close>

theorem socket_fd_leaks:
  assumes free: "fs_files s f = None" and ok: "socket_install t sk cloexec (Some f) s = Some (s1, fd)" and fd: "fd \<ge> 0"
  shows "(buf \<noteq> [] \<longrightarrow> sys_write t fd buf env s1 = Some (s1, Ret (- EACCES) [])) \<and>
    (\<exists>s2 x. sys_close t fd s1 = Some (s2, 0) \<and> fs_table s2 t (nat fd) = None \<and>
       fs_files s2 f = Some x \<and> fl_refcount x = 1 \<and> fs_calls s2 = fs_calls s)"
proof -
  let ?x = "\<lparr>fl_vnode = None, fl_ops = Some (Driver sk), fl_offset = 0, fl_flags = 0, fl_refcount = 1\<rparr>"
  obtain i where i: "find (\<lambda>i. fs_table s t i = None) [0..<FD_TABLE_SIZE] = Some i"
    using ok fd free by (cases "find (\<lambda>i. fs_table s t i = None) [0..<FD_TABLE_SIZE]")
      (auto simp: socket_install_def file_alloc_generic_def fd_alloc_def set_file_def file_put_def Let_def file_close_def)
  then have small: "i < FD_TABLE_SIZE" using find_free by blast
  have s1: "s1 = (let s' = set_file f (Some (?x\<lparr>fl_refcount := 2\<rparr>)) (set_slot t i (Some f) 0 s) in if cloexec then or_flag t i FD_CLOEXEC s' else s')"
    and fdi: "fd = int i"
    using ok i by (auto simp: socket_install_def file_alloc_generic_def fd_alloc_def set_file_def file_get_def set_slot_def or_flag_def)
  have get: "fd_get t fd s1 = Some f" "fs_files s1 f = Some (?x\<lparr>fl_refcount := 2\<rparr>)" "fs_calls s1 = fs_calls s"
    using small by (simp_all add: s1 fdi fd_get_def Let_def set_file_def set_slot_def or_flag_def)
  then have "sys_write t fd buf env s1 = Some (s1, Ret (- EACCES) [])" if "buf \<noteq> []" using that by (simp add: sys_write_def)
  moreover have "\<exists>s2 x. sys_close t fd s1 = Some (s2, 0) \<and> fs_table s2 t (nat fd) = None \<and> fs_files s2 f = Some x \<and> fl_refcount x = 1 \<and> fs_calls s2 = fs_calls s"
    using get by (simp add: sys_close_def fd_close_def file_put_def set_file_def set_slot_def)
  ultimately show ?thesis by blast
qed

definition socket_probe :: "(fdst \<times> int) option" where
  "socket_probe = socket_install 1 9 False (Some 7) fd_empty"

theorem socket_fd_leaks_witness:
  "\<exists>s1 s2 x. socket_probe = Some (s1, 0) \<and> sys_close 1 0 s1 = Some (s2, 0) \<and> fs_files s2 7 = Some x \<and> fl_refcount x = 1 \<and> fs_calls s2 = []"
proof -
  have "map_option snd socket_probe = Some 0" by code_simp
  then obtain s1 where s1: "socket_probe = Some (s1, 0)" by (cases socket_probe) auto
  then have "\<exists>s2 x. sys_close 1 0 s1 = Some (s2, 0) \<and> fs_table s2 1 (nat 0) = None \<and> fs_files s2 7 = Some x \<and> fl_refcount x = 1 \<and> fs_calls s2 = fs_calls fd_empty"
    using socket_fd_leaks [of fd_empty 7 1 9 False s1 0] unfolding socket_probe_def by (simp add: fd_empty_def)
  then show ?thesis using s1 by (auto simp: fd_empty_def)
qed

end
