(* ===== verification/Netutil.thy ===== *)
theory Netutil
  imports Exo_Prelude
begin

text \<open>
  Byte order and the Internet checksum (\<^verbatim>\<open>net/netutil.h\<close>).  A buffer is a list of
  bytes; multi-byte header fields are read and written in the memory order of
  the little-endian machine, and \<open>htons\<close> and \<open>htonl\<close> swap bytes as the compiler
  built-ins do.
\<close>

section \<open>Byte order\<close>

definition bswap16 :: "u16 \<Rightarrow> u16" where
  "bswap16 w = push_bit 8 w OR drop_bit 8 w"

definition bswap32 :: "u32 \<Rightarrow> u32" where
  "bswap32 w = push_bit 24 w OR (push_bit 8 w AND 0xFF0000) OR (drop_bit 8 w AND 0xFF00) OR drop_bit 24 w"

definition htons :: "u16 \<Rightarrow> u16" where "htons h = bswap16 h"
definition ntohs :: "u16 \<Rightarrow> u16" where "ntohs n = bswap16 n"
definition htonl :: "u32 \<Rightarrow> u32" where "htonl h = bswap32 h"
definition ntohl :: "u32 \<Rightarrow> u32" where "ntohl n = bswap32 n"

text \<open>Memory representation of 16- and 32-bit fields.\<close>

definition u16_bytes :: "u16 \<Rightarrow> u8 list" where
  "u16_bytes w = [ucast w, ucast (drop_bit 8 w)]"

definition u32_bytes :: "u32 \<Rightarrow> u8 list" where
  "u32_bytes w = [ucast w, ucast (drop_bit 8 w), ucast (drop_bit 16 w), ucast (drop_bit 24 w)]"

definition get16 :: "u8 list \<Rightarrow> nat \<Rightarrow> u16" where
  "get16 b i = ucast (b ! i) OR push_bit 8 (ucast (b ! (i + 1)))"

definition get32 :: "u8 list \<Rightarrow> nat \<Rightarrow> u32" where
  "get32 b i = ucast (b ! i) OR push_bit 8 (ucast (b ! (i + 1))) OR
     push_bit 16 (ucast (b ! (i + 2))) OR push_bit 24 (ucast (b ! (i + 3)))"

section \<open>Internet checksum\<close>

fun csum_loop :: "u8 list \<Rightarrow> u32 \<Rightarrow> u32" where
  "csum_loop (p0 # p1 # p) acc =
     csum_loop p (acc + ucast (ucast p0 OR push_bit 8 (ucast p1) :: u16))"
| "csum_loop [p0] acc = acc + ucast (ucast p0 :: u16)"
| "csum_loop [] acc = acc"

function csum_reduce :: "u32 \<Rightarrow> u32" where
  "csum_reduce acc =
     (if drop_bit 16 acc \<noteq> 0 then csum_reduce ((acc AND 0xFFFF) + drop_bit 16 acc) else acc)"
  by pat_completeness auto

text \<open>One round of the fold as natural-number arithmetic.\<close>

lemma csum_round:
  fixes s :: u32
  shows "unat ((s AND 0xFFFF) + drop_bit 16 s) = unat s mod 65536 + unat s div 65536"
proof -
  have a: "unat (s AND 0xFFFF) = unat s mod 65536"
  proof -
    have "(0xFFFF :: u32) = mask 16" by (simp add: mask_eq_exp_minus_1)
    then have "s AND 0xFFFF = take_bit 16 s" by (simp only: take_bit_eq_mask)
    then show ?thesis by (simp add: unsigned_take_bit_eq take_bit_eq_mod unat_mod_distrib)
  qed
  have b: "unat (drop_bit 16 s) = unat s div 65536"
    by (simp add: unsigned_drop_bit_eq drop_bit_eq_div unat_div_distrib)
  have "unat s div 65536 < 65536" using unat_lt32 [of s] by simp
  then show ?thesis using a b by (simp add: unat_word_ariths)
qed

lemma drop16_nonzero: "drop_bit 16 s \<noteq> 0 \<longleftrightarrow> 65536 \<le> unat (s :: u32)"
proof -
  have "drop_bit 16 s = 0 \<longleftrightarrow> unat (drop_bit 16 s) = 0" by (simp add: unat_eq_0)
  also have "\<dots> \<longleftrightarrow> unat s div 65536 = 0" by (simp add: unsigned_drop_bit_eq drop_bit_eq_div unat_div_distrib)
  finally show ?thesis by (auto simp: div_eq_0_iff)
qed

termination csum_reduce
proof (relation "measure unat", simp, goal_cases)
  case (1 s)
  then have "65536 \<le> unat s" by (simp add: drop16_nonzero)
  moreover have "unat s = unat s div 65536 * 65536 + unat s mod 65536" by simp
  ultimately have "unat s mod 65536 + unat s div 65536 < unat s" by linarith
  then show ?case by (simp add: csum_round)
qed

declare csum_reduce.simps [simp del]

definition inet_checksum_partial :: "u8 list \<Rightarrow> u32" where
  "inet_checksum_partial data = csum_loop data 0"

definition inet_checksum_fold :: "u32 \<Rightarrow> u16" where
  "inet_checksum_fold acc = ucast (NOT (csum_reduce acc))"

definition inet_checksum :: "u8 list \<Rightarrow> u16" where
  "inet_checksum data = ucast (NOT (csum_reduce (csum_loop data 0)))"

section \<open>Byte order lemmas\<close>

lemma bswap16_inv [simp]: "bswap16 (bswap16 w) = w"
  by (rule bit_word_eqI) (auto simp: bswap16_def bit_simps)

lemma ntohs_htons [simp]: "ntohs (htons w) = w" "htons (ntohs w) = w"
  by (simp_all add: ntohs_def htons_def)

lemma bit_bswap32:
  "bit (bswap32 w) n \<longleftrightarrow> (if n < 8 then bit w (n + 24) else if n < 16 then bit w (n + 8)
     else if n < 24 then bit w (n - 8) else n < 32 \<and> bit w (n - 24))"
proof -
  have m: "(0xFF0000 :: u32) = push_bit 16 (mask 8)" "(0xFF00 :: u32) = push_bit 8 (mask 8)"
    by (simp_all add: mask_eq_exp_minus_1)
  show ?thesis unfolding bswap32_def m
    by (auto simp: bit_simps add.commute dest: bit_imp_le_length)
qed

lemma bswap32_inv [simp]: "bswap32 (bswap32 w) = w"
  by (rule bit_word_eqI) (auto simp: bit_bswap32)

lemma ntohl_htonl [simp]: "ntohl (htonl w) = w" "htonl (ntohl w) = w"
  by (simp_all add: ntohl_def htonl_def)

lemma get16_bytes: "get16 (u16_bytes w @ r) 0 = w"
  by (rule bit_word_eqI) (auto simp: get16_def u16_bytes_def bit_simps)

lemma get32_bytes: "get32 (u32_bytes w @ r) 0 = w"
proof (rule bit_word_eqI)
  fix n assume "n < LENGTH(32)"
  then consider "n < 8" | "8 \<le> n" "n < 16" | "16 \<le> n" "n < 24" | "24 \<le> n" "n < 32" by fastforce
  then show "bit (get32 (u32_bytes w @ r) 0) n = bit w n"
    by cases (auto simp: get32_def u32_bytes_def bit_simps)
qed

lemma get16_append: "length a = n \<Longrightarrow> get16 (a @ b) (n + i) = get16 b i"
  by (auto simp: get16_def nth_append)

lemma get32_append: "length a = n \<Longrightarrow> get32 (a @ b) (n + i) = get32 b i"
  by (auto simp: get32_def nth_append)

lemma length_field_bytes [simp]: "length (u16_bytes w) = 2" "length (u32_bytes w') = 4"
  by (simp_all add: u16_bytes_def u32_bytes_def)

section \<open>The checksum as one's-complement arithmetic\<close>

fun words_sum :: "u8 list \<Rightarrow> nat" where
  "words_sum (p0 # p1 # p) = unat p0 + 256 * unat p1 + words_sum p"
| "words_sum [p0] = unat p0"
| "words_sum [] = 0"

lemma unat_word16: "unat (ucast p0 OR push_bit 8 (ucast p1) :: u16) = unat (p0 :: u8) + 256 * unat (p1 :: u8)"
proof -
  have "(ucast p0 OR push_bit 8 (ucast p1) :: u16) = ucast p0 + push_bit 8 (ucast p1)"
    by (rule disjunctive_add_eq_or [symmetric]) (auto simp: bit_eq_iff bit_simps dest: bit_imp_le_length)
  moreover have "unat (push_bit 8 (ucast p1) :: u16) = 256 * unat p1"
    using unat_lt8 [of p1] by (simp add: push_bit_eq_mult unat_word_ariths unsigned_ucast_eq take_bit_eq_mod)
  moreover have "unat (ucast p0 :: u16) = unat p0"
    using unat_lt8 [of p0] by (simp add: unsigned_ucast_eq take_bit_eq_mod)
  ultimately show ?thesis using unat_lt8 [of p0] unat_lt8 [of p1] by (simp add: unat_word_ariths)
qed

lemma words_sum_bound: "words_sum d \<le> 65535 * ((length d + 1) div 2)"
proof (induction d rule: words_sum.induct)
  case (1 p0 p1 p)
  then show ?case using unat_lt8 [of p0] unat_lt8 [of p1] by simp
next
  case (2 p0) then show ?case using unat_lt8 [of p0] by simp
qed simp

lemma csum_loop_nat:
  "unat acc + words_sum d < 2 ^ 32 \<Longrightarrow> unat (csum_loop d acc) = unat acc + words_sum d"
proof (induction d acc rule: csum_loop.induct)
  case (1 p0 p1 p acc)
  let ?w = "ucast p0 OR push_bit 8 (ucast p1) :: u16"
  have "unat (acc + ucast ?w) = unat acc + unat ?w"
    using 1(2) unat_word16 [of p0 p1] by (simp add: unat_word_ariths unsigned_ucast_eq take_bit_eq_mod)
  with 1 show ?case by (simp add: unat_word16 add.assoc)
next
  case (2 p0 acc)
  then show ?case using unat_lt8 [of p0] by (simp add: unat_word_ariths unsigned_ucast_eq take_bit_eq_mod)
qed simp

lemma words_sum_append: "even (length a) \<Longrightarrow> words_sum (a @ b) = words_sum a + words_sum b"
  by (induction a rule: words_sum.induct) auto

lemma csum_reduce_spec:
  "unat (csum_reduce s) \<le> 65535 \<and> unat (csum_reduce s) mod 65535 = unat s mod 65535 \<and>
   (unat (csum_reduce s) = 0 \<longleftrightarrow> unat s = 0)"
proof (induction s rule: csum_reduce.induct)
  case (1 s)
  show ?case
  proof (cases "drop_bit 16 s \<noteq> 0")
    case True
    then have ge: "65536 \<le> unat s" by (simp add: drop16_nonzero)
    let ?s = "(s AND 0xFFFF) + drop_bit 16 s"
    have n: "unat ?s = unat s mod 65536 + unat s div 65536" by (rule csum_round)
    have "unat s = unat s div 65536 * 65536 + unat s mod 65536" by simp
    then have "unat s = unat ?s + 65535 * (unat s div 65536)" unfolding n by linarith
    then have "unat ?s mod 65535 = unat s mod 65535" by (metis mod_mult_self2)
    moreover have "unat ?s \<noteq> 0" unfolding n using div_le_mono [OF ge, of 65536] by simp
    moreover have "csum_reduce s = csum_reduce ?s" using True by (simp add: csum_reduce.simps [of s])
    ultimately show ?thesis using 1 True ge by simp
  next
    case False
    then have "unat s < 65536" by (simp add: drop16_nonzero not_le [symmetric])
    then show ?thesis using False by (simp add: csum_reduce.simps [of s])
  qed
qed

lemma unat_fold: "unat (inet_checksum_fold s) = 65535 - unat (csum_reduce s)"
proof -
  let ?r = "csum_reduce s"
  have le: "unat ?r \<le> 65535" using csum_reduce_spec [of s] by simp
  have "NOT ?r = - 1 - ?r" by (simp add: not_eq_complement)
  moreover have "unat (- 1 - ?r) = unat (- 1 :: u32) - unat ?r" by (rule unat_sub) simp
  ultimately have "unat (NOT ?r) = 4294967295 - unat ?r" by (simp add: unsigned_minus_1_eq_mask mask_eq_exp_minus_1)
  moreover have "4294967295 - unat ?r = (65535 - unat ?r) + 65536 * 65535" using le by simp
  then have "(4294967295 - unat ?r) mod 65536 = 65535 - unat ?r" by (simp only: mod_mult_self2) simp
  ultimately show ?thesis
    unfolding inet_checksum_fold_def by (simp add: unsigned_ucast_eq take_bit_eq_mod)
qed

lemma checksum_is_fold: "inet_checksum d = inet_checksum_fold (inet_checksum_partial d)"
  by (simp add: inet_checksum_def inet_checksum_fold_def inet_checksum_partial_def)

text \<open>A sum whose folded value cancels the stored complement.\<close>

lemma fold_cancel:
  assumes "unat s = n" "unat s' = n + unat (inet_checksum_fold s)"
  shows "inet_checksum_fold s' = 0"
proof -
  note r = csum_reduce_spec [of s] and r' = csum_reduce_spec [of s']
  have c: "unat s' = n + (65535 - unat (csum_reduce s))" using assms by (simp add: unat_fold)
  have "(n + (65535 - unat (csum_reduce s))) mod 65535 =
      (n mod 65535 + (65535 - unat (csum_reduce s))) mod 65535" by presburger
  also have "\<dots> = (unat (csum_reduce s) mod 65535 + (65535 - unat (csum_reduce s))) mod 65535"
    using r assms by simp
  also have "\<dots> = (unat (csum_reduce s) + (65535 - unat (csum_reduce s))) mod 65535" by presburger
  also have "\<dots> = 0" using r by simp
  finally have "unat (csum_reduce s') mod 65535 = 0" using r' c by simp
  moreover have "unat s' \<noteq> 0" using c r assms by auto
  ultimately have "65535 dvd unat (csum_reduce s')" "0 < unat (csum_reduce s')"
    using r' by (simp_all add: dvd_eq_mod_eq_0)
  then have "unat (csum_reduce s') = 65535" using dvd_imp_le r' by (metis le_antisym)
  then have "unat (inet_checksum_fold s') = 0" by (simp add: unat_fold)
  then show ?thesis by (simp add: unat_eq_0)
qed

lemma words_sum_field: "words_sum (u16_bytes w @ b) = unat w + words_sum b"
proof -
  have "(ucast (ucast w :: u8) OR push_bit 8 (ucast (ucast (drop_bit 8 w) :: u8)) :: u16) = w"
    using get16_bytes [of w "[]"] by (simp add: get16_def u16_bytes_def)
  then show ?thesis using unat_word16 [of "ucast w" "ucast (drop_bit 8 w)"] by (simp add: u16_bytes_def)
qed

lemma inet_checksum_verifies:
  assumes "even (length a)" "length a + length b \<le> 100000"
  shows "inet_checksum (a @ u16_bytes (inet_checksum (a @ [0, 0] @ b)) @ b) = 0"
proof -
  have even0: "words_sum (a @ [0, 0] @ b) = words_sum a + words_sum b"
    using assms(1) by (simp add: words_sum_append)
  let ?c = "inet_checksum (a @ [0, 0] @ b)"
  have sum: "words_sum (a @ u16_bytes ?c @ b) = words_sum a + words_sum b + unat ?c"
    using assms(1) by (simp add: words_sum_append words_sum_field)
  have "words_sum a + words_sum b \<le> 65535 * 50002"
    using words_sum_bound [of a] words_sum_bound [of b] assms(2) by linarith
  moreover have "unat ?c \<le> 65535" using unat_lt16 [of ?c] by simp
  ultimately have "unat (inet_checksum_partial (a @ [0, 0] @ b)) = words_sum a + words_sum b"
    "unat (inet_checksum_partial (a @ u16_bytes ?c @ b)) = words_sum a + words_sum b + unat ?c"
    unfolding inet_checksum_partial_def
    using csum_loop_nat [of 0 "a @ [0, 0] @ b"] csum_loop_nat [of 0 "a @ u16_bytes ?c @ b"] even0 sum
    by simp_all
  then show ?thesis unfolding checksum_is_fold by (intro fold_cancel [of _ "words_sum a + words_sum b"]) auto
qed

lemma partial_words: "words_sum d < 2 ^ 32 \<Longrightarrow> unat (inet_checksum_partial d) = words_sum d"
  using csum_loop_nat [of 0 d] by (simp add: inet_checksum_partial_def)

lemma fold_ffff:
  assumes "inet_checksum_fold s = 0" "unat s' = unat s + 65535"
  shows "inet_checksum_fold s' = 0"
proof -
  note r = csum_reduce_spec [of s] and r' = csum_reduce_spec [of s']
  have "unat (inet_checksum_fold s) = 0" by (simp add: assms)
  then have "unat (csum_reduce s) = 65535" using r unat_fold [of s] by simp
  then have "unat s mod 65535 = 0" using r by simp
  then have "unat (csum_reduce s') mod 65535 = 0" using r' assms(2) by simp
  moreover have "unat (csum_reduce s') \<noteq> 0" using r' assms(2) by simp
  ultimately have "unat (csum_reduce s') = 65535" using r' by (metis le_neq_implies_less mod_less)
  then have "unat (inet_checksum_fold s') = 0" by (simp add: unat_fold)
  then show ?thesis by (simp add: unat_eq_0)
qed

end
