(* ===== verification/Ext2.thy ===== *)
theory Ext2
  imports Netutil Bcache "HOL-Library.State_Monad"
begin

unbundle bit_operations_syntax

text \<open>
  The ext2 file system driver (\<^verbatim>\<open>fs/ext2/ext2.c\<close>) on top of the buffer cache.  Every function is a program of the
  state monad over the cache, the outcomes of the coming allocations and a flag \<open>ex_fault\<close>, which is raised where
  the code divides by zero or reaches outside a buffer; what such a read finds, and what an uninitialised stack
  variable holds, is the field \<open>es_junk\<close> of the mounted instance.  The instance also carries the drivers and the
  device registry its calls go to.
\<close>

section \<open>State\<close>

record 'd ext2 =
  ex_cache :: "'d bcache"
  ex_mem :: "bool list"
  ex_fault :: bool

record 'd ext2_sb =
  es_drv :: "'d driver"
  es_reg :: blk_registry
  es_dev :: blkdev
  es_block_size :: u32
  es_sectors_per_block :: u32
  es_blocks_per_group :: u32
  es_inodes_per_group :: u32
  es_inode_size :: u32
  es_first_data_block :: u32
  es_num_groups :: u32
  es_total_inodes :: u32
  es_total_blocks :: u32
  es_bgd_block :: u32
  es_junk :: "nat \<Rightarrow> u8"

type_synonym ('d, 'a) fsm = "('d ext2, 'a) state"

abbreviation ret :: "'a \<Rightarrow> ('d, 'a) fsm" where "ret \<equiv> State_Monad.return"

definition on_cache :: "('d bcache \<Rightarrow> 'd bcache \<times> 'a) \<Rightarrow> ('d, 'a) fsm" where
  "on_cache f = State (\<lambda>s. let (c, r) = f (ex_cache s) in (r, s\<lparr>ex_cache := c\<rparr>))"

text \<open>An allocation takes its outcome from the list; when the list is used up it succeeds.\<close>

definition kmalloc_ok :: "('d, bool) fsm" where
  "kmalloc_ok = State (\<lambda>s. case ex_mem s of [] \<Rightarrow> (True, s) | b # bs \<Rightarrow> (b, s\<lparr>ex_mem := bs\<rparr>))"

definition fault_if :: "bool \<Rightarrow> ('d, unit) fsm" where
  "fault_if b = State (\<lambda>s. ((), if b then s\<lparr>ex_fault := True\<rparr> else s))"

fun for_each :: "('a \<Rightarrow> ('d, unit) fsm) \<Rightarrow> 'a list \<Rightarrow> ('d, unit) fsm" where
  "for_each f [] = ret ()"
| "for_each f (x # xs) = do { _ \<leftarrow> f x; for_each f xs }"

section \<open>On-disk structures\<close>

record ext2_bgd =
  bg_block_bitmap :: u32
  bg_inode_bitmap :: u32
  bg_inode_table :: u32
  bg_free_blocks_count :: u16
  bg_free_inodes_count :: u16
  bg_used_dirs_count :: u16
  bg_pad :: u16
  bg_reserved :: "u8 list"

definition bgd_of :: "u8 list \<Rightarrow> ext2_bgd" where
  "bgd_of b = \<lparr>bg_block_bitmap = get32 b 0, bg_inode_bitmap = get32 b 4, bg_inode_table = get32 b 8,
     bg_free_blocks_count = get16 b 12, bg_free_inodes_count = get16 b 14, bg_used_dirs_count = get16 b 16,
     bg_pad = get16 b 18, bg_reserved = take 12 (drop 20 b)\<rparr>"

definition bgd_bytes :: "ext2_bgd \<Rightarrow> u8 list" where
  "bgd_bytes d = u32_bytes (bg_block_bitmap d) @ u32_bytes (bg_inode_bitmap d) @ u32_bytes (bg_inode_table d) @
     u16_bytes (bg_free_blocks_count d) @ u16_bytes (bg_free_inodes_count d) @ u16_bytes (bg_used_dirs_count d) @
     u16_bytes (bg_pad d) @ bg_reserved d"

record ext2_inode =
  i_mode :: u16
  i_uid :: u16
  i_size :: u32
  i_atime :: u32
  i_ctime :: u32
  i_mtime :: u32
  i_dtime :: u32
  i_gid :: u16
  i_links_count :: u16
  i_blocks :: u32
  i_flags :: u32
  i_osd1 :: u32
  i_block :: "u32 list"
  i_generation :: u32
  i_file_acl :: u32
  i_dir_acl :: u32
  i_faddr :: u32
  i_osd2 :: "u8 list"

definition words_at :: "u8 list \<Rightarrow> nat \<Rightarrow> nat \<Rightarrow> u32 list" where
  "words_at b off n = map (\<lambda>i. get32 b (off + 4 * i)) [0..<n]"

definition inode_of :: "u8 list \<Rightarrow> ext2_inode" where
  "inode_of b = \<lparr>i_mode = get16 b 0, i_uid = get16 b 2, i_size = get32 b 4, i_atime = get32 b 8, i_ctime = get32 b 12,
     i_mtime = get32 b 16, i_dtime = get32 b 20, i_gid = get16 b 24, i_links_count = get16 b 26, i_blocks = get32 b 28,
     i_flags = get32 b 32, i_osd1 = get32 b 36, i_block = words_at b 40 15, i_generation = get32 b 100,
     i_file_acl = get32 b 104, i_dir_acl = get32 b 108, i_faddr = get32 b 112, i_osd2 = take 12 (drop 116 b)\<rparr>"

definition inode_bytes :: "ext2_inode \<Rightarrow> u8 list" where
  "inode_bytes i = u16_bytes (i_mode i) @ u16_bytes (i_uid i) @ u32_bytes (i_size i) @ u32_bytes (i_atime i) @
     u32_bytes (i_ctime i) @ u32_bytes (i_mtime i) @ u32_bytes (i_dtime i) @ u16_bytes (i_gid i) @
     u16_bytes (i_links_count i) @ u32_bytes (i_blocks i) @ u32_bytes (i_flags i) @ u32_bytes (i_osd1 i) @
     concat (map u32_bytes (i_block i)) @ u32_bytes (i_generation i) @ u32_bytes (i_file_acl i) @
     u32_bytes (i_dir_acl i) @ u32_bytes (i_faddr i) @ i_osd2 i"

definition zero_inode :: ext2_inode where
  "zero_inode = inode_of (replicate 128 0)"

section \<open>Blocks\<close>

definition blk_to_lba :: "'d ext2_sb \<Rightarrow> u32 \<Rightarrow> u64" where
  "blk_to_lba sb block = ucast block * ucast (es_sectors_per_block sb)"

abbreviation bsize :: "'d ext2_sb \<Rightarrow> nat" where "bsize sb \<equiv> unat (es_block_size sb)"

definition patch :: "nat \<Rightarrow> 'a list \<Rightarrow> 'a list \<Rightarrow> 'a list" where
  "patch off xs b = take off b @ xs @ drop (off + length xs) b"

function read_sectors :: "'d ext2_sb \<Rightarrow> u32 \<Rightarrow> nat \<Rightarrow> nat \<Rightarrow> ('d, u8 list option) fsm" where
  "read_sectors sb block offset len =
     (if len = 0 then ret (Some [])
      else
        let byte_off = offset mod 512; copy = min (512 - byte_off) len in do {
          b \<leftarrow> on_cache (bcache_get (es_drv sb) (es_reg sb) (es_dev sb) (blk_to_lba sb block + of_nat (offset div 512)));
          case b of
            None \<Rightarrow> ret None
          | Some b \<Rightarrow> do {
              xs \<leftarrow> on_cache (\<lambda>c. (c, take copy (drop byte_off (bb_data (bc_pool c b)))));
              _ \<leftarrow> on_cache (\<lambda>c. (bcache_release (es_drv sb) (es_reg sb) b c, ()));
              r \<leftarrow> read_sectors sb block (offset + copy) (len - copy);
              ret (map_option ((@) xs) r)
            }
        })"
  by pat_completeness auto
termination by (relation "measure (\<lambda>(sb, block, offset, len). len)") auto

declare read_sectors.simps [simp del]

definition ext2_read_block_partial :: "'d ext2_sb \<Rightarrow> u32 \<Rightarrow> nat \<Rightarrow> nat \<Rightarrow> ('d, u8 list option) fsm" where
  "ext2_read_block_partial sb block offset len =
     (if block = 0 then ret (Some (replicate len 0)) else read_sectors sb block offset len)"

function ext2_write_block_partial :: "'d ext2_sb \<Rightarrow> u32 \<Rightarrow> nat \<Rightarrow> u8 list \<Rightarrow> ('d, int) fsm" where
  "ext2_write_block_partial sb block offset src =
     (if src = [] then ret 0
      else
        let byte_off = offset mod 512; copy = min (512 - byte_off) (length src) in do {
          b \<leftarrow> on_cache (bcache_get (es_drv sb) (es_reg sb) (es_dev sb) (blk_to_lba sb block + of_nat (offset div 512)));
          case b of
            None \<Rightarrow> ret (- EIO)
          | Some b \<Rightarrow> do {
              _ \<leftarrow> on_cache (\<lambda>c. (upd_buf b (\<lambda>x. x\<lparr>bb_data := patch byte_off (take copy src) (bb_data x)\<rparr>) c, ()));
              _ \<leftarrow> on_cache (\<lambda>c. (bcache_mark_dirty b c, ()));
              _ \<leftarrow> on_cache (\<lambda>c. (bcache_release (es_drv sb) (es_reg sb) b c, ()));
              ext2_write_block_partial sb block (offset + copy) (drop copy src)
            }
        })"
  by pat_completeness auto
termination by (relation "measure (\<lambda>(sb, block, offset, src). length src)") auto

declare ext2_write_block_partial.simps [simp del]

definition ext2_alloc_block_tmp :: "'d ext2_sb \<Rightarrow> ('d, bool) fsm" where
  "ext2_alloc_block_tmp sb = (if es_block_size sb = 0 \<or> es_block_size sb > 4096 then ret False else kmalloc_ok)"

definition ext2_zero_block :: "'d ext2_sb \<Rightarrow> u32 \<Rightarrow> ('d, int) fsm" where
  "ext2_zero_block sb block = do {
     z \<leftarrow> ext2_alloc_block_tmp sb;
     if \<not> z then ret (- ENOMEM) else ext2_write_block_partial sb block 0 (replicate (bsize sb) 0)
   }"

section \<open>Group descriptors and inodes\<close>

definition ext2_read_bgd :: "'d ext2_sb \<Rightarrow> u32 \<Rightarrow> ('d, ext2_bgd option) fsm" where
  "ext2_read_bgd sb grp = do {
     let offset = grp * 32;
     _ \<leftarrow> fault_if (es_block_size sb = 0);
     r \<leftarrow> ext2_read_block_partial sb (es_bgd_block sb + offset div es_block_size sb) (unat (offset mod es_block_size sb)) 32;
     ret (map_option bgd_of r)
   }"

definition ext2_write_bgd :: "'d ext2_sb \<Rightarrow> u32 \<Rightarrow> ext2_bgd \<Rightarrow> ('d, int) fsm" where
  "ext2_write_bgd sb grp bgd = do {
     let offset = grp * 32;
     _ \<leftarrow> fault_if (es_block_size sb = 0);
     ext2_write_block_partial sb (es_bgd_block sb + offset div es_block_size sb) (unat (offset mod es_block_size sb)) (bgd_bytes bgd)
   }"

definition ext2_read_inode :: "'d ext2_sb \<Rightarrow> u32 \<Rightarrow> ('d, ext2_inode option) fsm" where
  "ext2_read_inode sb ino = do {
     _ \<leftarrow> fault_if (es_inodes_per_group sb = 0);
     let grp = (ino - 1) div es_inodes_per_group sb;
     let idx = (ino - 1) mod es_inodes_per_group sb;
     d \<leftarrow> ext2_read_bgd sb grp;
     case d of
       None \<Rightarrow> ret None
     | Some bgd \<Rightarrow> do {
         let off = idx * es_inode_size sb;
         r \<leftarrow> ext2_read_block_partial sb (bg_inode_table bgd + off div es_block_size sb) (unat (off mod es_block_size sb))
                (min (unat (es_inode_size sb)) 128);
         ret (map_option (\<lambda>xs. inode_of (xs @ map (es_junk sb) [length xs..<128])) r)
       }
   }"

definition ext2_write_inode :: "'d ext2_sb \<Rightarrow> u32 \<Rightarrow> ext2_inode \<Rightarrow> ('d, int) fsm" where
  "ext2_write_inode sb ino inode = do {
     _ \<leftarrow> fault_if (es_inodes_per_group sb = 0);
     let grp = (ino - 1) div es_inodes_per_group sb;
     let idx = (ino - 1) mod es_inodes_per_group sb;
     d \<leftarrow> ext2_read_bgd sb grp;
     case d of
       None \<Rightarrow> ret (- EIO)
     | Some bgd \<Rightarrow> do {
         let off = idx * es_inode_size sb;
         ext2_write_block_partial sb (bg_inode_table bgd + off div es_block_size sb) (unat (off mod es_block_size sb))
           (take (unat (es_inode_size sb)) (inode_bytes inode))
       }
   }"

section \<open>Bitmaps\<close>

definition first_zero_bit :: "u8 list \<Rightarrow> nat option" where
  "first_zero_bit bm = find (\<lambda>i. \<not> bit (bm ! (i div 8)) (i mod 8)) [0..<8 * length bm]"

definition ext2_alloc_block_in_group :: "'d ext2_sb \<Rightarrow> u32 \<Rightarrow> ('d, u32) fsm" where
  "ext2_alloc_block_in_group sb grp = do {
     d \<leftarrow> ext2_read_bgd sb grp;
     case d of
       None \<Rightarrow> ret 0
     | Some bgd \<Rightarrow>
         if bg_free_blocks_count bgd = 0 then ret 0
         else do {
           ok \<leftarrow> ext2_alloc_block_tmp sb;
           if \<not> ok then ret 0
           else do {
             r \<leftarrow> ext2_read_block_partial sb (bg_block_bitmap bgd) 0 (min (unat (es_blocks_per_group sb div 8)) (bsize sb));
             case Option.bind r (\<lambda>bm. map_option (Pair bm) (first_zero_bit bm)) of
               None \<Rightarrow> ret 0
             | Some (bm, i) \<Rightarrow> do {
                 _ \<leftarrow> ext2_write_block_partial sb (bg_block_bitmap bgd) (i div 8) [bm ! (i div 8) OR push_bit (i mod 8) 1];
                 _ \<leftarrow> ext2_write_bgd sb grp (bgd\<lparr>bg_free_blocks_count := bg_free_blocks_count bgd - 1\<rparr>);
                 ret (grp * es_blocks_per_group sb + of_nat i + es_first_data_block sb)
               }
           }
         }
   }"

fun alloc_groups :: "'d ext2_sb \<Rightarrow> nat list \<Rightarrow> ('d, u32) fsm" where
  "alloc_groups sb [] = ret 0"
| "alloc_groups sb (g # gs) = do {
     blk \<leftarrow> ext2_alloc_block_in_group sb (of_nat g);
     if blk \<noteq> 0 then ret blk else alloc_groups sb gs
   }"

definition ext2_alloc_block :: "'d ext2_sb \<Rightarrow> ('d, u32) fsm" where
  "ext2_alloc_block sb = alloc_groups sb [0..<unat (es_num_groups sb)]"

definition ext2_free_block :: "'d ext2_sb \<Rightarrow> u32 \<Rightarrow> ('d, unit) fsm" where
  "ext2_free_block sb blk =
     (if blk < es_first_data_block sb then ret ()
      else do {
        _ \<leftarrow> fault_if (es_blocks_per_group sb = 0);
        let grp = (blk - es_first_data_block sb) div es_blocks_per_group sb;
        let idx = unat ((blk - es_first_data_block sb) mod es_blocks_per_group sb);
        d \<leftarrow> ext2_read_bgd sb grp;
        case d of
          None \<Rightarrow> ret ()
        | Some bgd \<Rightarrow> do {
            r \<leftarrow> ext2_read_block_partial sb (bg_block_bitmap bgd) (idx div 8) 1;
            let byte = (case r of Some xs \<Rightarrow> hd xs | None \<Rightarrow> es_junk sb 0);
            _ \<leftarrow> ext2_write_block_partial sb (bg_block_bitmap bgd) (idx div 8) [byte AND NOT (push_bit (idx mod 8) 1)];
            _ \<leftarrow> ext2_write_bgd sb grp (bgd\<lparr>bg_free_blocks_count := bg_free_blocks_count bgd + 1\<rparr>);
            ret ()
          }
      })"

definition alloc_inode_in_group :: "'d ext2_sb \<Rightarrow> u32 \<Rightarrow> ('d, u32 option) fsm" where
  "alloc_inode_in_group sb g = do {
     d \<leftarrow> ext2_read_bgd sb g;
     case d of
       None \<Rightarrow> ret None
     | Some bgd \<Rightarrow>
         if bg_free_inodes_count bgd = 0 then ret None
         else do {
           ok \<leftarrow> ext2_alloc_block_tmp sb;
           if \<not> ok then ret None
           else do {
             r \<leftarrow> ext2_read_block_partial sb (bg_inode_bitmap bgd) 0 (min (unat (es_inodes_per_group sb div 8)) (bsize sb));
             case Option.bind r (\<lambda>bm. map_option (Pair bm) (first_zero_bit bm)) of
               None \<Rightarrow> ret None
             | Some (bm, i) \<Rightarrow> do {
                 _ \<leftarrow> ext2_write_block_partial sb (bg_inode_bitmap bgd) (i div 8) [bm ! (i div 8) OR push_bit (i mod 8) 1];
                 _ \<leftarrow> ext2_write_bgd sb g (bgd\<lparr>bg_free_inodes_count := bg_free_inodes_count bgd - 1\<rparr>);
                 ret (Some (g * es_inodes_per_group sb + of_nat i + 1))
               }
           }
         }
   }"

fun alloc_inodes :: "'d ext2_sb \<Rightarrow> nat list \<Rightarrow> ('d, u32) fsm" where
  "alloc_inodes sb [] = ret 0"
| "alloc_inodes sb (g # gs) = do {
     r \<leftarrow> alloc_inode_in_group sb (of_nat g);
     case r of Some ino \<Rightarrow> ret ino | None \<Rightarrow> alloc_inodes sb gs
   }"

definition ext2_alloc_inode :: "'d ext2_sb \<Rightarrow> ('d, u32) fsm" where
  "ext2_alloc_inode sb = alloc_inodes sb [0..<unat (es_num_groups sb)]"

definition ext2_free_inode :: "'d ext2_sb \<Rightarrow> u32 \<Rightarrow> ('d, unit) fsm" where
  "ext2_free_inode sb ino = do {
     _ \<leftarrow> fault_if (es_inodes_per_group sb = 0);
     let grp = (ino - 1) div es_inodes_per_group sb;
     let idx = unat ((ino - 1) mod es_inodes_per_group sb);
     d \<leftarrow> ext2_read_bgd sb grp;
     case d of
       None \<Rightarrow> ret ()
     | Some bgd \<Rightarrow> do {
         r \<leftarrow> ext2_read_block_partial sb (bg_inode_bitmap bgd) (idx div 8) 1;
         let byte = (case r of Some xs \<Rightarrow> hd xs | None \<Rightarrow> es_junk sb 0);
         _ \<leftarrow> ext2_write_block_partial sb (bg_inode_bitmap bgd) (idx div 8) [byte AND NOT (push_bit (idx mod 8) 1)];
         _ \<leftarrow> ext2_write_bgd sb grp (bgd\<lparr>bg_free_inodes_count := bg_free_inodes_count bgd + 1\<rparr>);
         ret ()
       }
   }"

section \<open>Block mapping\<close>

definition ext2_indirect_block_empty :: "'d ext2_sb \<Rightarrow> u32 \<Rightarrow> ('d, bool) fsm" where
  "ext2_indirect_block_empty sb blk =
     (if blk = 0 then ret True
      else do {
        ok \<leftarrow> ext2_alloc_block_tmp sb;
        if \<not> ok then ret False
        else do {
          r \<leftarrow> ext2_read_block_partial sb blk 0 (bsize sb);
          ret (case r of None \<Rightarrow> False | Some xs \<Rightarrow> \<forall>e \<in> set (words_at xs 0 (bsize sb div 4)). e = 0)
        }
      })"

fun ext2_free_indirect_tree :: "'d ext2_sb \<Rightarrow> nat \<Rightarrow> u32 \<Rightarrow> ('d, unit) fsm" where
  "ext2_free_indirect_tree sb 0 blk = ret ()"
| "ext2_free_indirect_tree sb (Suc level) blk =
     (if blk = 0 then ret ()
      else do {
        ok \<leftarrow> ext2_alloc_block_tmp sb;
        if \<not> ok then ret ()
        else do {
          r \<leftarrow> ext2_read_block_partial sb blk 0 (bsize sb);
          case r of
            None \<Rightarrow> ret ()
          | Some xs \<Rightarrow> do {
              _ \<leftarrow> for_each (\<lambda>e. if e = 0 then ret () else if level = 0 then ext2_free_block sb e else ext2_free_indirect_tree sb level e)
                    (words_at xs 0 (bsize sb div 4));
              ext2_free_block sb blk
            }
        }
      })"

definition ext2_inode_free_all_blocks :: "'d ext2_sb \<Rightarrow> ext2_inode \<Rightarrow> ('d, ext2_inode) fsm" where
  "ext2_inode_free_all_blocks sb inode = do {
     _ \<leftarrow> for_each (\<lambda>b. if b = 0 then ret () else ext2_free_block sb b) (take 12 (i_block inode));
     _ \<leftarrow> ext2_free_indirect_tree sb 1 (i_block inode ! 12);
     _ \<leftarrow> ext2_free_indirect_tree sb 2 (i_block inode ! 13);
     _ \<leftarrow> ext2_free_indirect_tree sb 3 (i_block inode ! 14);
     ret (inode\<lparr>i_block := replicate 15 0, i_blocks := 0\<rparr>)
   }"

text \<open>One entry of a block of pointers.\<close>

definition read_ptr :: "'d ext2_sb \<Rightarrow> u32 \<Rightarrow> u32 \<Rightarrow> ('d, u32 option) fsm" where
  "read_ptr sb blk idx = do { r \<leftarrow> ext2_read_block_partial sb blk (unat (idx * 4)) 4; ret (map_option (\<lambda>xs. get32 xs 0) r) }"

definition write_ptr :: "'d ext2_sb \<Rightarrow> u32 \<Rightarrow> u32 \<Rightarrow> u32 \<Rightarrow> ('d, int) fsm" where
  "write_ptr sb blk idx v = ext2_write_block_partial sb blk (unat (idx * 4)) (u32_bytes v)"

definition ptr_per_blk :: "'d ext2_sb \<Rightarrow> u32" where
  "ptr_per_blk sb = es_block_size sb div 4"

text \<open>Follow pointers: a zero pointer ends the descent with 0.\<close>

fun follow :: "'d ext2_sb \<Rightarrow> u32 \<Rightarrow> u32 list \<Rightarrow> ('d, int) fsm" where
  "follow sb blk [] = ret (sint blk)"
| "follow sb blk (i # is) =
     (if blk = 0 then ret 0
      else do {
        r \<leftarrow> read_ptr sb blk i;
        case r of None \<Rightarrow> ret (- EIO) | Some b \<Rightarrow> follow sb b is
      })"

definition ext2_inode_get_block :: "'d ext2_sb \<Rightarrow> ext2_inode \<Rightarrow> u32 \<Rightarrow> ('d, int) fsm" where
  "ext2_inode_get_block sb inode log_blk =
     (let ppb = ptr_per_blk sb in
      if log_blk < 12 then ret (sint (i_block inode ! unat log_blk))
      else
        let l1 = log_blk - 12 in
        if l1 < ppb then follow sb (i_block inode ! 12) [l1]
        else
          let l2 = l1 - ppb in
          if l2 < ppb * ppb then follow sb (i_block inode ! 13) [l2 div ppb, l2 mod ppb]
          else
            let l3 = l2 - ppb * ppb
            in follow sb (i_block inode ! 14) [l3 div (ppb * ppb), (l3 div ppb) mod ppb, l3 mod ppb])"

text \<open>The indirect block at a position of \<open>i_block\<close>, allocated and cleared when there is none.\<close>

definition ensure_indirect :: "'d ext2_sb \<Rightarrow> ext2_inode \<Rightarrow> nat \<Rightarrow> ('d, ext2_inode \<times> int) fsm" where
  "ensure_indirect sb inode k =
     (if i_block inode ! k \<noteq> 0 then ret (inode, 0)
      else do {
        b \<leftarrow> ext2_alloc_block sb;
        let inode = inode\<lparr>i_block := (i_block inode)[k := b]\<rparr>;
        if b = 0 then ret (inode, - ENOSPC)
        else do {
          r \<leftarrow> ext2_zero_block sb b;
          ret (inode, if r < 0 then - EIO else 0)
        }
      })"

definition ensure_child :: "'d ext2_sb \<Rightarrow> u32 \<Rightarrow> u32 \<Rightarrow> ('d, u32 \<times> int) fsm" where
  "ensure_child sb blk idx = do {
     r \<leftarrow> read_ptr sb blk idx;
     let b1 = (case r of Some b \<Rightarrow> b | None \<Rightarrow> get32 (map (es_junk sb) [0..<4]) 0);
     if b1 \<noteq> 0 then ret (b1, 0)
     else do {
       b1 \<leftarrow> ext2_alloc_block sb;
       if b1 = 0 then ret (b1, - ENOSPC)
       else do {
         z \<leftarrow> ext2_zero_block sb b1;
         if z < 0 then ret (b1, - EIO)
         else do { _ \<leftarrow> write_ptr sb blk idx b1; ret (b1, 0) }
       }
     }
   }"

definition ext2_inode_set_block :: "'d ext2_sb \<Rightarrow> ext2_inode \<Rightarrow> u32 \<Rightarrow> u32 \<Rightarrow> ('d, ext2_inode \<times> int) fsm" where
  "ext2_inode_set_block sb inode log_blk phys_blk =
     (let ppb = ptr_per_blk sb in
      if log_blk < 12 then ret (inode\<lparr>i_block := (i_block inode)[unat log_blk := phys_blk]\<rparr>, 0)
      else
        let l1 = log_blk - 12 in
        if l1 < ppb then do {
          (inode, r) \<leftarrow> ensure_indirect sb inode 12;
          if r < 0 then ret (inode, r)
          else do { w \<leftarrow> write_ptr sb (i_block inode ! 12) l1 phys_blk; ret (inode, w) }
        }
        else
          let l2 = l1 - ppb in
          if l2 < ppb * ppb then do {
            (inode, r) \<leftarrow> ensure_indirect sb inode 13;
            if r < 0 then ret (inode, r)
            else do {
              (b1, r) \<leftarrow> ensure_child sb (i_block inode ! 13) (l2 div ppb);
              if r < 0 then ret (inode, r)
              else do { w \<leftarrow> write_ptr sb b1 (l2 mod ppb) phys_blk; ret (inode, w) }
            }
          }
          else ret (inode, - ENOSPC))"

text \<open>Free a block of pointers that has become empty and clear the pointer to it.\<close>

definition prune_child :: "'d ext2_sb \<Rightarrow> u32 \<Rightarrow> u32 \<Rightarrow> u32 \<Rightarrow> ('d, unit) fsm" where
  "prune_child sb blk idx b = do {
     e \<leftarrow> ext2_indirect_block_empty sb b;
     if e then do { _ \<leftarrow> ext2_free_block sb b; _ \<leftarrow> write_ptr sb blk idx 0; ret () } else ret ()
   }"

definition prune_root :: "'d ext2_sb \<Rightarrow> ext2_inode \<Rightarrow> nat \<Rightarrow> ('d, ext2_inode) fsm" where
  "prune_root sb inode k = do {
     e \<leftarrow> ext2_indirect_block_empty sb (i_block inode ! k);
     if e then do { _ \<leftarrow> ext2_free_block sb (i_block inode ! k); ret (inode\<lparr>i_block := (i_block inode)[k := 0]\<rparr>) }
     else ret inode
   }"

definition clear_single :: "'d ext2_sb \<Rightarrow> ext2_inode \<Rightarrow> u32 \<Rightarrow> ('d, ext2_inode \<times> u32) fsm" where
  "clear_single sb inode l =
     (if i_block inode ! 12 = 0 then ret (inode, 0)
      else do {
        r \<leftarrow> read_ptr sb (i_block inode ! 12) l;
        case r of
          None \<Rightarrow> ret (inode, 0)
        | Some old \<Rightarrow>
            if old = 0 then ret (inode, 0)
            else do {
              _ \<leftarrow> write_ptr sb (i_block inode ! 12) l 0;
              inode \<leftarrow> prune_root sb inode 12;
              ret (inode, old)
            }
      })"

definition clear_double :: "'d ext2_sb \<Rightarrow> ext2_inode \<Rightarrow> u32 \<Rightarrow> u32 \<Rightarrow> ('d, ext2_inode \<times> u32) fsm" where
  "clear_double sb inode idx1 idx2 =
     (if i_block inode ! 13 = 0 then ret (inode, 0)
      else do {
        r1 \<leftarrow> read_ptr sb (i_block inode ! 13) idx1;
        case r1 of
          None \<Rightarrow> ret (inode, 0)
        | Some b1 \<Rightarrow>
            if b1 = 0 then ret (inode, 0)
            else do {
              r2 \<leftarrow> read_ptr sb b1 idx2;
              case r2 of
                None \<Rightarrow> ret (inode, 0)
              | Some old \<Rightarrow>
                  if old = 0 then ret (inode, 0)
                  else do {
                    _ \<leftarrow> write_ptr sb b1 idx2 0;
                    _ \<leftarrow> prune_child sb (i_block inode ! 13) idx1 b1;
                    inode \<leftarrow> prune_root sb inode 13;
                    ret (inode, old)
                  }
            }
      })"

definition clear_triple :: "'d ext2_sb \<Rightarrow> ext2_inode \<Rightarrow> u32 \<Rightarrow> u32 \<Rightarrow> u32 \<Rightarrow> ('d, ext2_inode \<times> u32) fsm" where
  "clear_triple sb inode idx1 idx2 idx3 =
     (if i_block inode ! 14 = 0 then ret (inode, 0)
      else do {
        r1 \<leftarrow> read_ptr sb (i_block inode ! 14) idx1;
        case r1 of
          None \<Rightarrow> ret (inode, 0)
        | Some b1 \<Rightarrow>
            if b1 = 0 then ret (inode, 0)
            else do {
              r2 \<leftarrow> read_ptr sb b1 idx2;
              case r2 of
                None \<Rightarrow> ret (inode, 0)
              | Some b2 \<Rightarrow>
                  if b2 = 0 then ret (inode, 0)
                  else do {
                    r3 \<leftarrow> read_ptr sb b2 idx3;
                    case r3 of
                      None \<Rightarrow> ret (inode, 0)
                    | Some old \<Rightarrow>
                        if old = 0 then ret (inode, 0)
                        else do {
                          _ \<leftarrow> write_ptr sb b2 idx3 0;
                          _ \<leftarrow> prune_child sb b1 idx2 b2;
                          _ \<leftarrow> prune_child sb (i_block inode ! 14) idx1 b1;
                          inode \<leftarrow> prune_root sb inode 14;
                          ret (inode, old)
                        }
                  }
            }
      })"

definition ext2_inode_clear_block :: "'d ext2_sb \<Rightarrow> ext2_inode \<Rightarrow> u32 \<Rightarrow> ('d, ext2_inode \<times> u32) fsm" where
  "ext2_inode_clear_block sb inode log_blk =
     (let ppb = ptr_per_blk sb in
      if log_blk < 12 then ret (inode\<lparr>i_block := (i_block inode)[unat log_blk := 0]\<rparr>, i_block inode ! unat log_blk)
      else
        let l1 = log_blk - 12 in
        if l1 < ppb then clear_single sb inode l1
        else
          let l2 = l1 - ppb in
          if l2 < ppb * ppb then clear_double sb inode (l2 div ppb) (l2 mod ppb)
          else
            let l3 = l2 - ppb * ppb
            in clear_triple sb inode (l3 div (ppb * ppb)) ((l3 div ppb) mod ppb) (l3 mod ppb))"

section \<open>Vnodes\<close>

text \<open>\<open>nd_ino\<close> is the private data of the file system; the reference count and the mount belong to the VFS.\<close>

record vnode =
  v_ino :: u64
  v_mode :: u32
  v_size :: u64
  v_uid :: u32
  v_gid :: u32
  v_atime :: u64
  v_mtime :: u64
  v_ctime :: u64
  v_nlink :: u32
  nd_ino :: u32

definition vnode_mode :: "u16 \<Rightarrow> u32" where
  "vnode_mode m =
     (let ifmt = ucast m AND (0xF000 :: u32); mode_bits = ucast m AND (0xFFF :: u32) in
      if ifmt = 0x8000 then 0x8000 OR mode_bits else if ifmt = 0x4000 then 0x4000 OR mode_bits
      else if ifmt = 0xA000 then 0xA000 OR mode_bits else mode_bits)"

definition make_vnode :: "u32 \<Rightarrow> ext2_inode \<Rightarrow> ('d, vnode option) fsm" where
  "make_vnode ino inode = do {
     v \<leftarrow> kmalloc_ok;
     nd \<leftarrow> kmalloc_ok;
     ret (if \<not> v \<or> \<not> nd then None
          else Some \<lparr>v_ino = ucast ino, v_mode = vnode_mode (i_mode inode), v_size = ucast (i_size inode),
                    v_uid = ucast (i_uid inode), v_gid = ucast (i_gid inode), v_atime = ucast (i_atime inode),
                    v_mtime = ucast (i_mtime inode), v_ctime = ucast (i_ctime inode), v_nlink = ucast (i_links_count inode), nd_ino = ino\<rparr>)
   }"

definition ext2_chmod :: "'d ext2_sb \<Rightarrow> vnode \<Rightarrow> u32 \<Rightarrow> ('d, vnode \<times> int) fsm" where
  "ext2_chmod sb v mode = do {
     r \<leftarrow> ext2_read_inode sb (nd_ino v);
     case r of
       None \<Rightarrow> ret (v, - EIO)
     | Some inode \<Rightarrow> do {
         w \<leftarrow> ext2_write_inode sb (nd_ino v) (inode\<lparr>i_mode := ucast ((ucast (i_mode inode) AND 0xF000) OR (mode AND 0x0FFF))\<rparr>);
         ret (if w < 0 then (v, - EIO) else (v\<lparr>v_mode := (v_mode v AND 0xF000) OR (mode AND 0x0FFF)\<rparr>, 0))
       }
   }"

definition ext2_chown :: "'d ext2_sb \<Rightarrow> vnode \<Rightarrow> int \<Rightarrow> int \<Rightarrow> ('d, vnode \<times> int) fsm" where
  "ext2_chown sb v owner gid = do {
     r \<leftarrow> ext2_read_inode sb (nd_ino v);
     case r of
       None \<Rightarrow> ret (v, - EIO)
     | Some inode \<Rightarrow> do {
         let inode = (if owner \<ge> 0 then inode\<lparr>i_uid := word_of_int owner\<rparr> else inode);
         let inode = (if gid \<ge> 0 then inode\<lparr>i_gid := word_of_int gid\<rparr> else inode);
         w \<leftarrow> ext2_write_inode sb (nd_ino v) inode;
         if w < 0 then ret (v, - EIO)
         else do {
           let v = (if owner \<ge> 0 then v\<lparr>v_uid := word_of_int owner\<rparr> else v);
           ret (if gid \<ge> 0 then v\<lparr>v_gid := word_of_int gid\<rparr> else v, 0)
         }
       }
   }"

record vfs_stat =
  st_ino :: u64
  st_mode :: u32
  st_size :: u64
  st_nlink :: u32
  st_uid :: u32
  st_gid :: u32
  st_times :: "u64 \<times> u64 \<times> u64"

definition ext2_stat :: "vnode \<Rightarrow> vfs_stat" where
  "ext2_stat v = \<lparr>st_ino = v_ino v, st_mode = v_mode v, st_size = v_size v, st_nlink = v_nlink v, st_uid = v_uid v,
     st_gid = v_gid v, st_times = (v_atime v, v_mtime v, v_ctime v)\<rparr>"

section \<open>File contents\<close>

lemma chunk_decreases:
  fixes n len b p :: nat
  shows "n < len \<Longrightarrow> 0 < b \<Longrightarrow> len - (n + min (b - p mod b) (len - n)) < len - n"
proof -
  assume "n < len" "0 < b"
  then have "0 < min (b - p mod b) (len - n)" using mod_less_divisor [of b p] by auto
  then show ?thesis using \<open>n < len\<close> by linarith
qed

function read_loop :: "'d ext2_sb \<Rightarrow> ext2_inode \<Rightarrow> u64 \<Rightarrow> nat \<Rightarrow> nat \<Rightarrow> ('d, int \<times> u8 list) fsm" where
  "read_loop sb inode off len n =
     (if n < len \<and> 0 < bsize sb then
        let pos = unat (off + of_nat n); copy = min (bsize sb - pos mod bsize sb) (len - n) in do {
          phys \<leftarrow> ext2_inode_get_block sb inode (of_nat (pos div bsize sb));
          if phys < 0 then ret (if n = 0 then - EIO else int n, [])
          else do {
            r \<leftarrow> (if phys = 0 then ret (Some (replicate copy 0)) else ext2_read_block_partial sb (word_of_int phys) (pos mod bsize sb) copy);
            case r of
              None \<Rightarrow> ret (if n = 0 then - EIO else int n, [])
            | Some xs \<Rightarrow> do { (k, ys) \<leftarrow> read_loop sb inode off len (n + copy); ret (k, xs @ ys) }
          }
        }
      else ret (int n, []))"
  by pat_completeness auto
termination by (relation "measure (\<lambda>(sb, inode, off, len, n). len - n)") (auto intro: chunk_decreases)

declare read_loop.simps [simp del]

definition ext2_read :: "'d ext2_sb \<Rightarrow> vnode \<Rightarrow> u64 \<Rightarrow> u64 \<Rightarrow> ('d, int \<times> u8 list) fsm" where
  "ext2_read sb v len off = do {
     r \<leftarrow> ext2_read_inode sb (nd_ino v);
     case r of
       None \<Rightarrow> ret (- EIO, [])
     | Some inode \<Rightarrow>
         if off \<ge> ucast (i_size inode) then ret (0, [])
         else read_loop sb inode off (unat (if off + len > ucast (i_size inode) then ucast (i_size inode) - off else len)) 0
   }"

text \<open>Each early return of the code gives up the inode it has changed: only its result is passed on.\<close>

function write_loop :: "'d ext2_sb \<Rightarrow> ext2_inode \<Rightarrow> u64 \<Rightarrow> u8 list \<Rightarrow> nat \<Rightarrow> ('d, int + ext2_inode) fsm" where
  "write_loop sb inode off src n =
     (if n < length src \<and> 0 < bsize sb then
        let pos = unat (off + of_nat n); copy = min (bsize sb - pos mod bsize sb) (length src - n);
            log_blk = of_nat (pos div bsize sb); stop = (\<lambda>e. if n = 0 then e else int n) in do {
          phys \<leftarrow> ext2_inode_get_block sb inode log_blk;
          if phys < 0 then ret (Inl (stop phys))
          else do {
            (inode, phys, e) \<leftarrow>
              (if phys \<noteq> 0 then ret (inode, word_of_int phys, 0)
               else do {
                 nb \<leftarrow> ext2_alloc_block sb;
                 if nb = 0 then ret (inode, 0, - ENOSPC)
                 else do {
                   (inode, w) \<leftarrow> ext2_inode_set_block sb inode log_blk nb;
                   ret (inode\<lparr>i_blocks := i_blocks inode + es_sectors_per_block sb\<rparr>, nb, if w < 0 then - ENOSPC else 0)
                 }
               });
            if e < 0 then ret (Inl (stop e))
            else do {
              w \<leftarrow> ext2_write_block_partial sb phys (pos mod bsize sb) (take copy (drop n src));
              if w < 0 then ret (Inl (stop (- EIO))) else write_loop sb inode off src (n + copy)
            }
          }
        }
      else ret (Inr inode))"
  by pat_completeness auto
termination by (relation "measure (\<lambda>(sb, inode, off, src, n). length src - n)") (auto intro: chunk_decreases)

declare write_loop.simps [simp del]

definition ext2_write :: "'d ext2_sb \<Rightarrow> vnode \<Rightarrow> u8 list \<Rightarrow> u64 \<Rightarrow> ('d, vnode \<times> int) fsm" where
  "ext2_write sb v src off =
     (if src = [] then ret (v, 0)
      else do {
        r \<leftarrow> ext2_read_inode sb (nd_ino v);
        case r of
          None \<Rightarrow> ret (v, - EIO)
        | Some inode \<Rightarrow> do {
            w \<leftarrow> write_loop sb inode off src 0;
            case w of
              Inl e \<Rightarrow> ret (v, e)
            | Inr inode \<Rightarrow> do {
                let inode = (if off + of_nat (length src) > ucast (i_size inode)
                             then inode\<lparr>i_size := ucast (off + of_nat (length src))\<rparr> else inode);
                _ \<leftarrow> ext2_write_inode sb (nd_ino v) inode;
                ret (v\<lparr>v_size := ucast (i_size inode)\<rparr>, int (length src))
              }
          }
      })"

definition round_up_blocks :: "'d ext2_sb \<Rightarrow> u32 \<Rightarrow> u32" where
  "round_up_blocks sb sz = (sz + es_block_size sb - 1) div es_block_size sb"

fun truncate_blocks :: "'d ext2_sb \<Rightarrow> ext2_inode \<Rightarrow> nat list \<Rightarrow> ('d, ext2_inode) fsm" where
  "truncate_blocks sb inode [] = ret inode"
| "truncate_blocks sb inode (lb # lbs) = do {
     (inode, old) \<leftarrow> ext2_inode_clear_block sb inode (of_nat lb);
     if old = 0 then truncate_blocks sb inode lbs
     else do {
       _ \<leftarrow> ext2_free_block sb old;
       truncate_blocks sb (inode\<lparr>i_blocks := if i_blocks inode \<ge> es_sectors_per_block sb
                                           then i_blocks inode - es_sectors_per_block sb else 0\<rparr>) lbs
     }
   }"

definition ext2_truncate :: "'d ext2_sb \<Rightarrow> vnode \<Rightarrow> u64 \<Rightarrow> ('d, vnode \<times> int) fsm" where
  "ext2_truncate sb v sz = do {
     r \<leftarrow> ext2_read_inode sb (nd_ino v);
     case r of
       None \<Rightarrow> ret (v, - EIO)
     | Some inode \<Rightarrow> do {
         inode \<leftarrow> (if \<not> sz < ucast (i_size inode) then ret inode
                  else if sz = 0 then ext2_inode_free_all_blocks sb inode
                  else truncate_blocks sb inode [unat (round_up_blocks sb (ucast sz))..<unat (round_up_blocks sb (i_size inode))]);
         let inode = inode\<lparr>i_size := ucast sz\<rparr>;
         w \<leftarrow> ext2_write_inode sb (nd_ino v) inode;
         ret (v\<lparr>v_size := ucast (i_size inode)\<rparr>, w)
       }
   }"

section \<open>Directories\<close>

record ext2_dir_entry =
  de_inode :: u32
  de_rec_len :: u16
  de_name_len :: u8
  de_file_type :: u8
  de_name :: "u8 list"

definition peek :: "'d ext2_sb \<Rightarrow> u8 list \<Rightarrow> nat \<Rightarrow> nat \<Rightarrow> u8 list" where
  "peek sb buf off n = map (\<lambda>i. if i < length buf then buf ! i else es_junk sb i) [off..<off + n]"

definition dir_entry :: "'d ext2_sb \<Rightarrow> u8 list \<Rightarrow> nat \<Rightarrow> ext2_dir_entry" where
  "dir_entry sb buf off =
     (let h = peek sb buf off 8 in
      \<lparr>de_inode = get32 h 0, de_rec_len = get16 h 4, de_name_len = h ! 6, de_file_type = h ! 7,
       de_name = peek sb buf (off + 8) (unat (h ! 6))\<rparr>)"

text \<open>The name of an entry as the C string that is compared.\<close>

definition entry_name :: "ext2_dir_entry \<Rightarrow> u8 list" where
  "entry_name de = takeWhile (\<lambda>c. c \<noteq> 0) (de_name de)"

text \<open>Copying the name reads past the end of the block when the entry reaches past it.\<close>

definition name_outside :: "ext2_dir_entry \<Rightarrow> u8 list \<Rightarrow> nat \<Rightarrow> bool" where
  "name_outside de buf off \<longleftrightarrow> off + 8 + unat (de_name_len de) > length buf"

lemma rec_len_advances:
  "off + 8 \<le> n \<Longrightarrow> \<not> r < (8 :: u16) \<Longrightarrow> n - (off + unat r) < n - off"
  by (simp add: word_less_nat_alt)

function lookup_scan :: "'d ext2_sb \<Rightarrow> u8 list \<Rightarrow> u8 list \<Rightarrow> nat \<Rightarrow> ('d, u32 option) fsm" where
  "lookup_scan sb name buf boff =
     (if boff + 8 \<le> length buf then
        let de = dir_entry sb buf boff in
        if de_rec_len de < 8 then ret None
        else do {
          _ \<leftarrow> fault_if (de_inode de \<noteq> 0 \<and> name_outside de buf boff);
          if de_inode de \<noteq> 0 \<and> entry_name de = name then ret (Some (de_inode de))
          else lookup_scan sb name buf (boff + unat (de_rec_len de))
        }
      else ret None)"
  by pat_completeness auto
termination by (relation "measure (\<lambda>(sb, name, buf, boff). length buf - boff)") (auto intro: rec_len_advances)

declare lookup_scan.simps [simp del]

lemma block_advances: "0 < b \<Longrightarrow> off < off + b - off mod (b :: nat)"
  using mod_less_divisor [of b off] by linarith

function lookup_loop :: "'d ext2_sb \<Rightarrow> ext2_inode \<Rightarrow> u8 list \<Rightarrow> nat \<Rightarrow> ('d, u32 option) fsm" where
  "lookup_loop sb inode name off =
     (if off < unat (i_size inode) \<and> 0 < bsize sb then
        let rd = bsize sb - off mod bsize sb in do {
          phys \<leftarrow> ext2_inode_get_block sb inode (of_nat (off div bsize sb));
          if phys \<le> 0 then lookup_loop sb inode name (off + rd)
          else do {
            r \<leftarrow> ext2_read_block_partial sb (word_of_int phys) (off mod bsize sb) rd;
            case r of
              None \<Rightarrow> ret None
            | Some buf \<Rightarrow> do {
                found \<leftarrow> lookup_scan sb name buf 0;
                if found \<noteq> None then ret found else lookup_loop sb inode name (off + rd)
              }
          }
        }
      else ret None)"
  by pat_completeness auto
termination by (relation "measure (\<lambda>(sb, inode, name, off). unat (i_size inode) - off)")
   (auto intro!: diff_less_mono2 block_advances)

declare lookup_loop.simps [simp del]

definition ext2_lookup :: "'d ext2_sb \<Rightarrow> vnode \<Rightarrow> u8 list \<Rightarrow> ('d, vnode option) fsm" where
  "ext2_lookup sb dir name = do {
     r \<leftarrow> ext2_read_inode sb (nd_ino dir);
     case r of
       None \<Rightarrow> ret None
     | Some inode \<Rightarrow> do {
         ok \<leftarrow> ext2_alloc_block_tmp sb;
         if \<not> ok then ret None
         else do {
           found \<leftarrow> lookup_loop sb inode name 0;
           case found of
             None \<Rightarrow> ret None
           | Some ino \<Rightarrow> do {
               c \<leftarrow> ext2_read_inode sb ino;
               case c of None \<Rightarrow> ret None | Some child \<Rightarrow> make_vnode ino child
             }
         }
       }
   }"

text \<open>A step of listing stops at the first used entry, with the offset behind it.\<close>

function readdir_scan :: "'d ext2_sb \<Rightarrow> u8 list \<Rightarrow> nat \<Rightarrow> ('d, (nat \<times> ext2_dir_entry) option) fsm" where
  "readdir_scan sb buf boff =
     (if boff + 8 \<le> length buf then
        let de = dir_entry sb buf boff in
        if de_rec_len de < 8 then ret None
        else if de_inode de \<noteq> 0 then do {
          _ \<leftarrow> fault_if (name_outside de buf boff);
          ret (Some (boff + unat (de_rec_len de), de))
        }
        else readdir_scan sb buf (boff + unat (de_rec_len de))
      else ret None)"
  by pat_completeness auto
termination by (relation "measure (\<lambda>(sb, buf, boff). length buf - boff)") (auto intro: rec_len_advances)

declare readdir_scan.simps [simp del]

record vfs_dirent =
  d_ino :: u64
  d_name :: "u8 list"
  d_type :: u32

definition dirent_of :: "ext2_dir_entry \<Rightarrow> vfs_dirent" where
  "dirent_of de = \<lparr>d_ino = ucast (de_inode de), d_name = entry_name de,
     d_type = (if de_file_type de = 2 then 4 else if de_file_type de = 7 then 10 else 8)\<rparr>"

function readdir_loop :: "'d ext2_sb \<Rightarrow> ext2_inode \<Rightarrow> u64 \<Rightarrow> nat \<Rightarrow> ('d, int \<times> u64 \<times> vfs_dirent option) fsm" where
  "readdir_loop sb inode cookie off =
     (if off < unat (i_size inode) \<and> 0 < bsize sb then
        let log_blk = off div bsize sb; nxt = (log_blk + 1) * bsize sb in do {
          phys \<leftarrow> ext2_inode_get_block sb inode (of_nat log_blk);
          if phys \<le> 0 then readdir_loop sb inode (of_nat nxt) nxt
          else do {
            r \<leftarrow> ext2_read_block_partial sb (word_of_int phys) 0 (bsize sb);
            case r of
              None \<Rightarrow> ret (- EIO, cookie, None)
            | Some buf \<Rightarrow> do {
                e \<leftarrow> readdir_scan sb buf (off mod bsize sb);
                case e of
                  Some (boff, de) \<Rightarrow> ret (1, ucast (of_nat (log_blk * bsize sb + boff) :: u32), Some (dirent_of de))
                | None \<Rightarrow> readdir_loop sb inode cookie nxt
              }
          }
        }
      else ret (0, cookie, None))"
  by pat_completeness auto
termination by (relation "measure (\<lambda>(sb, inode, cookie, off). unat (i_size inode) - off)")
   (auto intro!: diff_less_mono2 simp: dividend_less_div_times add.commute)

declare readdir_loop.simps [simp del]

definition ext2_readdir :: "'d ext2_sb \<Rightarrow> vnode \<Rightarrow> u64 \<Rightarrow> ('d, int \<times> u64 \<times> vfs_dirent option) fsm" where
  "ext2_readdir sb dir cookie = do {
     r \<leftarrow> ext2_read_inode sb (nd_ino dir);
     case r of
       None \<Rightarrow> ret (- EIO, cookie, None)
     | Some inode \<Rightarrow> do {
         ok \<leftarrow> ext2_alloc_block_tmp sb;
         if \<not> ok then ret (- ENOMEM, cookie, None) else readdir_loop sb inode cookie (unat cookie)
       }
   }"

text \<open>Bytes written past the end of a buffer are lost to the buffer.\<close>

definition poke :: "nat \<Rightarrow> u8 list \<Rightarrow> u8 list \<Rightarrow> u8 list" where
  "poke off xs buf = take (length buf) (patch off xs buf)"

definition entry_bytes :: "u32 \<Rightarrow> u16 \<Rightarrow> u8 \<Rightarrow> u8 list \<Rightarrow> u8 list" where
  "entry_bytes ino rec_len ftype name = u32_bytes ino @ u16_bytes rec_len @ [of_nat (length name), ftype] @ name"

definition entry_space :: "u8 \<Rightarrow> u16" where
  "entry_space name_len = ucast ((ucast name_len + 11) AND NOT (3 :: u32))"

text \<open>The first entry whose slack is large enough, with its own size and the slack.\<close>

function find_slack :: "'d ext2_sb \<Rightarrow> u8 list \<Rightarrow> u16 \<Rightarrow> nat \<Rightarrow> (nat \<times> u16 \<times> u16) option" where
  "find_slack sb buf needed off =
     (if off + 8 \<le> length buf then
        let de = dir_entry sb buf off; actual = entry_space (de_name_len de); slack = de_rec_len de - actual in
        if de_rec_len de < 8 then None
        else if slack \<ge> needed then Some (off, actual, slack)
        else find_slack sb buf needed (off + unat (de_rec_len de))
      else None)"
  by pat_completeness auto
termination by (relation "measure (\<lambda>(sb, buf, needed, off). length buf - off)") (auto intro: rec_len_advances)

declare find_slack.simps [simp del]

text \<open>The C code keeps the low eight bits of the length of the name and copies that many bytes.\<close>

definition stored_name :: "u8 list \<Rightarrow> u8 list" where
  "stored_name name = take (length name mod 256) name"

fun add_in_blocks :: "'d ext2_sb \<Rightarrow> ext2_inode \<Rightarrow> u32 \<Rightarrow> u8 list \<Rightarrow> u8 \<Rightarrow> nat list \<Rightarrow> ('d, bool) fsm" where
  "add_in_blocks sb inode child name ftype [] = ret False"
| "add_in_blocks sb inode child name ftype (lb # lbs) = do {
     phys \<leftarrow> ext2_inode_get_block sb inode (of_nat lb);
     if phys \<le> 0 then add_in_blocks sb inode child name ftype lbs
     else do {
       r \<leftarrow> ext2_read_block_partial sb (word_of_int phys) 0 (bsize sb);
       case Option.bind r (\<lambda>blk. map_option (Pair blk) (find_slack sb blk (entry_space (of_nat (length name))) 0)) of
         None \<Rightarrow> add_in_blocks sb inode child name ftype lbs
       | Some (blk, off, actual, slack) \<Rightarrow> do {
           let ne = entry_bytes child slack ftype name;
           _ \<leftarrow> fault_if (off + unat actual + length ne > length blk);
           _ \<leftarrow> ext2_write_block_partial sb (word_of_int phys) 0 (poke (off + unat actual) ne (poke (off + 4) (u16_bytes actual) blk));
           ret True
         }
     }
   }"

definition ext2_dir_add_entry :: "'d ext2_sb \<Rightarrow> u32 \<Rightarrow> u32 \<Rightarrow> u8 list \<Rightarrow> u8 \<Rightarrow> ('d, int) fsm" where
  "ext2_dir_add_entry sb dir_ino child_ino name file_type = do {
     r \<leftarrow> ext2_read_inode sb dir_ino;
     case r of
       None \<Rightarrow> ret (- EIO)
     | Some inode \<Rightarrow> do {
         ok \<leftarrow> ext2_alloc_block_tmp sb;
         if \<not> ok then ret (- ENOMEM)
         else do {
           let new_lb = round_up_blocks sb (i_size inode);
           added \<leftarrow> add_in_blocks sb inode child_ino (stored_name name) file_type [0..<unat new_lb];
           if added then ret 0
           else do {
             nb \<leftarrow> ext2_alloc_block sb;
             if nb = 0 then ret (- ENOSPC)
             else do {
               (inode, w) \<leftarrow> ext2_inode_set_block sb inode new_lb nb;
               if w < 0 then ret (- ENOSPC)
               else do {
                 let inode = inode\<lparr>i_size := i_size inode + es_block_size sb, i_blocks := i_blocks inode + es_sectors_per_block sb\<rparr>;
                 _ \<leftarrow> ext2_write_block_partial sb nb 0
                       (poke 0 (entry_bytes child_ino (ucast (es_block_size sb)) file_type (stored_name name)) (replicate (bsize sb) 0));
                 ext2_write_inode sb dir_ino inode
               }
             }
           }
         }
       }
   }"

definition ext2_create :: "'d ext2_sb \<Rightarrow> vnode \<Rightarrow> u8 list \<Rightarrow> u32 \<Rightarrow> ('d, vnode option) fsm" where
  "ext2_create sb parent name mode = do {
     ino \<leftarrow> ext2_alloc_inode sb;
     if ino = 0 then ret None
     else do {
       let inode = zero_inode\<lparr>i_mode := ucast (0x8000 OR (mode AND 0xFFF)), i_links_count := 1\<rparr>;
       w \<leftarrow> ext2_write_inode sb ino inode;
       if w < 0 then do { _ \<leftarrow> ext2_free_inode sb ino; ret None }
       else do {
         a \<leftarrow> ext2_dir_add_entry sb (nd_ino parent) ino name 1;
         if a < 0 then do { _ \<leftarrow> ext2_free_inode sb ino; ret None } else make_vnode ino inode
       }
     }
   }"

definition dot_block :: "'d ext2_sb \<Rightarrow> u32 \<Rightarrow> u32 \<Rightarrow> u8 list" where
  "dot_block sb ino parent =
     poke 12 (entry_bytes parent (ucast (es_block_size sb - 12)) 2 [46, 46])
       (poke 0 (entry_bytes ino 12 2 [46]) (replicate (bsize sb) 0))"

definition mkdir_finish :: "'d ext2_sb \<Rightarrow> vnode \<Rightarrow> u8 list \<Rightarrow> u32 \<Rightarrow> ext2_inode \<Rightarrow> ('d, vnode option) fsm" where
  "mkdir_finish sb parent name ino inode = do {
     w \<leftarrow> ext2_write_inode sb ino inode;
     if w < 0 then do { _ \<leftarrow> ext2_free_inode sb ino; ret None }
     else do {
       p \<leftarrow> ext2_read_inode sb (nd_ino parent);
       _ \<leftarrow> (case p of None \<Rightarrow> ret 0 | Some pi \<Rightarrow> ext2_write_inode sb (nd_ino parent) (pi\<lparr>i_links_count := i_links_count pi + 1\<rparr>));
       _ \<leftarrow> ext2_dir_add_entry sb (nd_ino parent) ino name 2;
       make_vnode ino inode
     }
   }"

definition ext2_mkdir_op :: "'d ext2_sb \<Rightarrow> vnode \<Rightarrow> u8 list \<Rightarrow> u32 \<Rightarrow> ('d, vnode option) fsm" where
  "ext2_mkdir_op sb parent name mode = do {
     ino \<leftarrow> ext2_alloc_inode sb;
     if ino = 0 then ret None
     else do {
       nb \<leftarrow> ext2_alloc_block sb;
       if nb = 0 then do { _ \<leftarrow> ext2_free_inode sb ino; ret None }
       else do {
         ok \<leftarrow> ext2_alloc_block_tmp sb;
         if \<not> ok then do { _ \<leftarrow> ext2_free_inode sb ino; ret None }
         else do {
           _ \<leftarrow> ext2_write_block_partial sb nb 0 (dot_block sb ino (nd_ino parent));
           mkdir_finish sb parent name ino
             (zero_inode\<lparr>i_mode := ucast (0x4000 OR (mode AND 0xFFF)), i_links_count := 2, i_size := es_block_size sb,
                i_blocks := es_sectors_per_block sb, i_block := (replicate 15 0)[0 := nb]\<rparr>)
         }
       }
     }
   }"

text \<open>Removing an entry joins it to the one before it in the block, or clears its inode number when it is the first.\<close>

function unlink_scan :: "'d ext2_sb \<Rightarrow> u8 list \<Rightarrow> u8 list \<Rightarrow> nat option \<Rightarrow> nat \<Rightarrow> ('d, (u32 \<times> u8 list) option) fsm" where
  "unlink_scan sb name buf prev off =
     (if off + 8 \<le> length buf then
        let de = dir_entry sb buf off in
        if de_rec_len de < 8 then ret None
        else do {
          _ \<leftarrow> fault_if (de_inode de \<noteq> 0 \<and> name_outside de buf off);
          if de_inode de \<noteq> 0 \<and> entry_name de = name
          then ret (Some (de_inode de,
                 case prev of Some p \<Rightarrow> poke (p + 4) (u16_bytes (de_rec_len (dir_entry sb buf p) + de_rec_len de)) buf
                            | None \<Rightarrow> poke off (u32_bytes 0) buf))
          else unlink_scan sb name buf (Some off) (off + unat (de_rec_len de))
        }
      else ret None)"
  by pat_completeness auto
termination by (relation "measure (\<lambda>(sb, name, buf, prev, off). length buf - off)") (auto intro: rec_len_advances)

declare unlink_scan.simps [simp del]

definition drop_link :: "'d ext2_sb \<Rightarrow> u32 \<Rightarrow> ('d, unit) fsm" where
  "drop_link sb ino = do {
     r \<leftarrow> ext2_read_inode sb ino;
     case r of
       None \<Rightarrow> ret ()
     | Some vi \<Rightarrow> do {
         let vi = (if i_links_count vi > 0 then vi\<lparr>i_links_count := i_links_count vi - 1\<rparr> else vi);
         if i_links_count vi = 0
         then do { _ \<leftarrow> ext2_inode_free_all_blocks sb vi; ext2_free_inode sb ino }
         else do { _ \<leftarrow> ext2_write_inode sb ino vi; ret () }
       }
   }"

fun unlink_blocks :: "'d ext2_sb \<Rightarrow> ext2_inode \<Rightarrow> u8 list \<Rightarrow> nat list \<Rightarrow> ('d, int) fsm" where
  "unlink_blocks sb inode name [] = ret (- ENOENT)"
| "unlink_blocks sb inode name (lb # lbs) = do {
     phys \<leftarrow> ext2_inode_get_block sb inode (of_nat lb);
     if phys \<le> 0 then unlink_blocks sb inode name lbs
     else do {
       r \<leftarrow> ext2_read_block_partial sb (word_of_int phys) 0 (bsize sb);
       case r of
         None \<Rightarrow> unlink_blocks sb inode name lbs
       | Some blk \<Rightarrow> do {
           f \<leftarrow> unlink_scan sb name blk None 0;
           case f of
             None \<Rightarrow> unlink_blocks sb inode name lbs
           | Some (ino, blk) \<Rightarrow> do {
               _ \<leftarrow> ext2_write_block_partial sb (word_of_int phys) 0 blk;
               _ \<leftarrow> drop_link sb ino;
               ret 0
             }
         }
     }
   }"

definition ext2_unlink :: "'d ext2_sb \<Rightarrow> vnode \<Rightarrow> u8 list \<Rightarrow> ('d, int) fsm" where
  "ext2_unlink sb parent name = do {
     r \<leftarrow> ext2_read_inode sb (nd_ino parent);
     case r of
       None \<Rightarrow> ret (- EIO)
     | Some inode \<Rightarrow> do {
         ok \<leftarrow> ext2_alloc_block_tmp sb;
         if \<not> ok then ret (- ENOMEM) else unlink_blocks sb inode name [0..<unat (round_up_blocks sb (i_size inode))]
       }
   }"

definition ext2_rmdir :: "'d ext2_sb \<Rightarrow> vnode \<Rightarrow> u8 list \<Rightarrow> ('d, int) fsm" where
  "ext2_rmdir sb parent name = ext2_unlink sb parent name"

text \<open>Undo the extra link that \<open>ext2_rename\<close> takes on the inode it moves.\<close>

definition rename_unlink_extra :: "'d ext2_sb \<Rightarrow> u32 \<Rightarrow> ('d, unit) fsm" where
  "rename_unlink_extra sb ino = do {
     r \<leftarrow> ext2_read_inode sb ino;
     case r of
       None \<Rightarrow> ret ()
     | Some inode \<Rightarrow>
         if i_links_count inode > 0
         then do { _ \<leftarrow> ext2_write_inode sb ino (inode\<lparr>i_links_count := i_links_count inode - 1\<rparr>); ret () }
         else ret ()
   }"

definition rename_move :: "'d ext2_sb \<Rightarrow> vnode \<Rightarrow> u8 list \<Rightarrow> vnode \<Rightarrow> u8 list \<Rightarrow> u32 \<Rightarrow> ext2_inode \<Rightarrow> ('d, int) fsm" where
  "rename_move sb old_parent old_name new_parent new_name ino inode = do {
     w \<leftarrow> ext2_write_inode sb ino (inode\<lparr>i_links_count := i_links_count inode + 1\<rparr>);
     if w < 0 then ret (- EIO)
     else do {
       rc \<leftarrow> ext2_dir_add_entry sb (nd_ino new_parent) ino new_name (if i_mode inode AND 0xF000 = 0x4000 then 2 else 1);
       if rc < 0 then do { _ \<leftarrow> rename_unlink_extra sb ino; ret rc }
       else do {
         rc \<leftarrow> ext2_unlink sb old_parent old_name;
         if rc < 0 then do {
           rollback \<leftarrow> ext2_unlink sb new_parent new_name;
           _ \<leftarrow> (if rollback < 0 then rename_unlink_extra sb ino else ret ());
           ret rc
         }
         else ret 0
       }
     }
   }"

definition ext2_rename :: "'d ext2_sb \<Rightarrow> vnode \<Rightarrow> u8 list \<Rightarrow> vnode \<Rightarrow> u8 list \<Rightarrow> ('d, int) fsm" where
  "ext2_rename sb old_parent old_name new_parent new_name = do {
     target \<leftarrow> ext2_lookup sb old_parent old_name;
     case target of
       None \<Rightarrow> ret (- ENOENT)
     | Some tv \<Rightarrow> do {
         r \<leftarrow> ext2_read_inode sb (nd_ino tv);
         case r of
           None \<Rightarrow> ret (- EIO)
         | Some inode \<Rightarrow> do {
             existing \<leftarrow> ext2_lookup sb new_parent new_name;
             case existing of
               None \<Rightarrow> rename_move sb old_parent old_name new_parent new_name (nd_ino tv) inode
             | Some ev \<Rightarrow>
                 if nd_ino ev = nd_ino tv then ret 0
                 else do {
                   rc \<leftarrow> ext2_unlink sb new_parent new_name;
                   if rc < 0 then ret rc else rename_move sb old_parent old_name new_parent new_name (nd_ino tv) inode
                 }
           }
       }
   }"

text \<open>A short target is stored in the bytes of the block pointers.\<close>

definition ext2_symlink :: "'d ext2_sb \<Rightarrow> vnode \<Rightarrow> u8 list \<Rightarrow> u8 list \<Rightarrow> ('d, vnode option) fsm" where
  "ext2_symlink sb parent name target =
     (if name = [] \<or> length target \<ge> 60 then ret None
      else do {
        existing \<leftarrow> ext2_lookup sb parent name;
        if existing \<noteq> None then ret None
        else do {
          ino \<leftarrow> ext2_alloc_inode sb;
          if ino = 0 then ret None
          else do {
            let inode = zero_inode\<lparr>i_mode := 0xA000 OR 0x1FF, i_links_count := 1, i_size := of_nat (length target),
                          i_block := words_at (patch 0 target (replicate 60 0)) 0 15\<rparr>;
            w \<leftarrow> ext2_write_inode sb ino inode;
            if w < 0 then do { _ \<leftarrow> ext2_free_inode sb ino; ret None }
            else do {
              a \<leftarrow> ext2_dir_add_entry sb (nd_ino parent) ino name 7;
              if a < 0 then do { _ \<leftarrow> ext2_free_inode sb ino; ret None } else make_vnode ino inode
            }
          }
        }
      })"

definition ext2_readlink :: "'d ext2_sb \<Rightarrow> vnode \<Rightarrow> u64 \<Rightarrow> ('d, int \<times> u8 list) fsm" where
  "ext2_readlink sb v sz = do {
     r \<leftarrow> ext2_read_inode sb (nd_ino v);
     case r of
       None \<Rightarrow> ret (- EIO, [])
     | Some inode \<Rightarrow>
         if i_size inode < 60 then do {
           let len = min (unat (i_size inode)) (unat (sz - 1));
           ret (int len, take len (concat (map u32_bytes (i_block inode))))
         }
         else ext2_read sb v (sz - 1) 0
   }"

section \<open>Mounting\<close>

record ext2_superblock =
  s_inodes_count :: u32
  s_blocks_count :: u32
  s_first_data_block :: u32
  s_log_block_size :: u32
  s_blocks_per_group :: u32
  s_inodes_per_group :: u32
  s_magic :: u16
  s_rev_level :: u32
  s_inode_size :: u16

definition superblock_of :: "u8 list \<Rightarrow> ext2_superblock" where
  "superblock_of b = \<lparr>s_inodes_count = get32 b 0, s_blocks_count = get32 b 4, s_first_data_block = get32 b 20,
     s_log_block_size = get32 b 24, s_blocks_per_group = get32 b 32, s_inodes_per_group = get32 b 40, s_magic = get16 b 56,
     s_rev_level = get32 b 76, s_inode_size = get16 b 88\<rparr>"

definition mounted_sb :: "'d driver \<Rightarrow> blk_registry \<Rightarrow> blkdev \<Rightarrow> (nat \<Rightarrow> u8) \<Rightarrow> ext2_superblock \<Rightarrow> 'd ext2_sb" where
  "mounted_sb dv g dev junk raw =
     (let bs = push_bit (unat (s_log_block_size raw)) 1024 in
      \<lparr>es_drv = dv, es_reg = g, es_dev = dev, es_block_size = bs, es_sectors_per_block = bs div 512,
       es_blocks_per_group = s_blocks_per_group raw, es_inodes_per_group = s_inodes_per_group raw,
       es_inode_size = (if s_rev_level raw \<ge> 1 then ucast (s_inode_size raw) else 128), es_first_data_block = s_first_data_block raw,
       es_num_groups = (s_blocks_count raw + s_blocks_per_group raw - 1) div s_blocks_per_group raw,
       es_total_inodes = s_inodes_count raw, es_total_blocks = s_blocks_count raw, es_bgd_block = s_first_data_block raw + 1, es_junk = junk\<rparr>)"

definition release_opt :: "'d driver \<Rightarrow> blk_registry \<Rightarrow> nat option \<Rightarrow> ('d, unit) fsm" where
  "release_opt dv g b = on_cache (\<lambda>c. (case b of None \<Rightarrow> c | Some b \<Rightarrow> bcache_release dv g b c, ()))"

definition ext2_mount :: "'d driver \<Rightarrow> blk_registry \<Rightarrow> blkdev \<Rightarrow> (nat \<Rightarrow> u8) \<Rightarrow> ('d, ('d ext2_sb \<times> vnode) option) fsm" where
  "ext2_mount dv g dev junk = do {
     b0 \<leftarrow> on_cache (bcache_get dv g dev 2);
     b1 \<leftarrow> on_cache (bcache_get dv g dev 3);
     sb_buf \<leftarrow> on_cache (\<lambda>c. (c, case (b0, b1) of (Some x, Some y) \<Rightarrow> Some (bb_data (bc_pool c x) @ bb_data (bc_pool c y)) | _ \<Rightarrow> None));
     _ \<leftarrow> release_opt dv g b0;
     _ \<leftarrow> release_opt dv g b1;
     case sb_buf of
       None \<Rightarrow> ret None
     | Some buf \<Rightarrow> do {
         let raw = superblock_of buf;
         if s_magic raw \<noteq> 0xEF53 then ret None
         else do {
           ok \<leftarrow> kmalloc_ok;
           if \<not> ok then ret None
           else do {
             _ \<leftarrow> fault_if (s_log_block_size raw \<ge> 32 \<or> s_blocks_per_group raw = 0);
             let sb = mounted_sb dv g dev junk raw;
             r \<leftarrow> ext2_read_inode sb 2;
             case r of
               None \<Rightarrow> ret None
             | Some inode \<Rightarrow> do { v \<leftarrow> make_vnode 2 inode; ret (map_option (Pair sb) v) }
           }
         }
       }
   }"

definition ext2_unmount :: "'d ext2_sb \<Rightarrow> ('d, unit) fsm" where
  "ext2_unmount sb = on_cache (\<lambda>c. (bcache_flush_dev (es_drv sb) (es_reg sb) (es_dev sb) c, ()))"

end
