(* ===== verification/Ext2_Disk.thy ===== *)
theory Ext2_Disk
  imports Ext2 Bcache_Refine
begin

unbundle bit_operations_syntax

text \<open>
  What the ext2 driver sees of the device through the buffer cache: the blocks of the file system as lists of bytes,
  read and patched by the two access functions of the driver.
\<close>

section \<open>Sectors through the cache\<close>

text \<open>No buffer is held, or one is held once.\<close>

definition idle :: "'d bcache \<Rightarrow> bool" where
  "idle c \<longleftrightarrow> (\<forall>b < BCACHE_NUM_BUFS. bb_refcount (bc_pool c b) = 0)"

definition held :: "nat \<Rightarrow> 'd bcache \<Rightarrow> bool" where
  "held b c \<longleftrightarrow> b < BCACHE_NUM_BUFS \<and> bb_refcount (bc_pool c b) = 1 \<and> (\<forall>x < BCACHE_NUM_BUFS. x \<noteq> b \<longrightarrow> bb_refcount (bc_pool c x) = 0)"

lemma writeback_refs: "bb_refcount (bc_pool (writeback dv g b s) x) = bb_refcount (bc_pool s x)"
  by (auto simp: writeback_def Let_def split: option.split prod.split)

lemma evict_refs: "evict_one dv g s = (s', r) \<Longrightarrow> bb_refcount (bc_pool s' x) = bb_refcount (bc_pool s x)"
  by (auto simp: evict_one_def Let_def writeback_refs hash_remove_def lru_remove_def upd_buf_def split: option.splits if_splits)

lemma get_held:
  assumes dv: "drives_ok dv c" and sep: "separate D g" and ok: "cache_ok D c A s" and dev: "dev \<in> D" and i: "idle s"
    and g: "bcache_get dv g dev lba s = (s', Some b)"
  shows "held b s'"
proof (cases "find (\<lambda>b. buf_is (bd_dev_id dev) lba (bc_pool s b)) (bc_hash s (hash_key (bd_dev_id dev) lba))")
  case (Some b')
  then have "b' < BCACHE_NUM_BUFS" using hash_find [OF ok, of "bd_dev_id dev" lba] by auto
  then show ?thesis using g Some i by (auto simp: bcache_get_def held_def idle_def Let_def)
next
  case None
  obtain s1 v where ev: "evict_one dv g (s\<lparr>bc_misses := bc_misses s + 1\<rparr>) = (s1, v)" by (cases "evict_one dv g (s\<lparr>bc_misses := bc_misses s + 1\<rparr>)") auto
  have "b < BCACHE_NUM_BUFS" using bcache_get_effect(2) [OF dv sep ok dev g] by blast
  moreover have "bb_refcount (bc_pool s1 x) = 0" if "x < BCACHE_NUM_BUFS" for x using evict_refs [OF ev, of x] i that by (simp add: idle_def)
  ultimately show ?thesis using g None ev by (auto simp: bcache_get_def held_def Let_def hash_insert_def split: option.splits)
qed

lemma release_idle:
  assumes dv: "drives_ok dv c" and sep: "separate D g" and ok: "cache_ok D c A s" and h: "held b s"
  shows "cache_ok D c A (bcache_release dv g b s) \<and> idle (bcache_release dv g b s)"
  using bcache_release_ok [OF dv sep ok, of b] h
  by (auto simp: held_def idle_def bcache_release_def Let_def writeback_refs)

definition readable :: "'d driver \<Rightarrow> blkdev \<Rightarrow> bool" where
  "readable dv dev \<longleftrightarrow> (\<forall>lba d. sector (bd_ops dev) lba \<noteq> None \<longrightarrow> blkdev_read dv (bd_ops dev) lba 1 d \<noteq> None)"

lemma array_sector: "cache_ok D c A s \<Longrightarrow> separate D g \<Longrightarrow> dev \<in> D \<Longrightarrow> A dev lba = Some x \<Longrightarrow> sector (bd_ops dev) lba \<noteq> None"
  using cache_okD(7) [of D c A s dev lba] cached_data(2) [of D g c A s dev _ lba] by (fastforce simp: dev_sector_def)

lemma get_sector:
  assumes dv: "drives_ok dv c" and sep: "separate D g" and dev: "dev \<in> D" and rd: "readable dv dev"
    and ok: "cache_ok D c A s" and i: "idle s" and x: "A dev lba = Some x"
  shows "\<exists>s' b. bcache_get dv g dev lba s = (s', Some b) \<and> cache_ok D c A s' \<and> held b s' \<and>
    buf_is (bd_dev_id dev) lba (bc_pool s' b) \<and> bb_data (bc_pool s' b) = x"
proof -
  obtain s' r where g: "bcache_get dv g dev lba s = (s', r)" by fastforce
  note E = bcache_get_effect [OF dv sep ok dev g]
  have "sector (bd_ops dev) lba \<noteq> None" by (rule array_sector [OF ok sep dev x])
  moreover have "\<not> (\<forall>b < BCACHE_NUM_BUFS. bb_refcount (bc_pool s b) \<noteq> 0)" using i by (auto simp: idle_def intro: exI [of _ 0])
  ultimately obtain b where b: "r = Some b" using E(3) rd unfolding readable_def by blast
  then show ?thesis using E(1) E(2) [OF b] get_held [OF dv sep ok dev i] g x by fastforce
qed

lemma read_sector_run:
  assumes "drives_ok (es_drv sb) c" "separate D (es_reg sb)" "es_dev sb \<in> D" "readable (es_drv sb) (es_dev sb)"
    and "cache_ok D c A (ex_cache s)" "idle (ex_cache s)" "A (es_dev sb) lba = Some x"
  shows "\<exists>c1 b c2. bcache_get (es_drv sb) (es_reg sb) (es_dev sb) lba (ex_cache s) = (c1, Some b) \<and> bb_data (bc_pool c1 b) = x \<and>
    c2 = bcache_release (es_drv sb) (es_reg sb) b c1 \<and> cache_ok D c A c2 \<and> idle c2"
  using get_sector [OF assms] release_idle [OF assms(1,2)] by blast

lemma write_sector_run:
  assumes "drives_ok (es_drv sb) c" "separate D (es_reg sb)" "es_dev sb \<in> D" "readable (es_drv sb) (es_dev sb)"
    and "cache_ok D c A (ex_cache s)" "idle (ex_cache s)" "A (es_dev sb) lba = Some x"
  shows "\<exists>c1 b c2. bcache_get (es_drv sb) (es_reg sb) (es_dev sb) lba (ex_cache s) = (c1, Some b) \<and> bb_data (bc_pool c1 b) = x \<and>
    c2 = bcache_release (es_drv sb) (es_reg sb) b (bcache_mark_dirty b (upd_buf b (\<lambda>z. z\<lparr>bb_data := y\<rparr>) c1)) \<and>
    cache_ok D c (A(es_dev sb := (A (es_dev sb))(lba := Some y))) c2 \<and> idle c2"
proof -
  obtain c1 b where g: "bcache_get (es_drv sb) (es_reg sb) (es_dev sb) lba (ex_cache s) = (c1, Some b)" "cache_ok D c A c1" "held b c1"
    "buf_is (bd_dev_id (es_dev sb)) lba (bc_pool c1 b)" "bb_data (bc_pool c1 b) = x" using get_sector [OF assms] by blast
  then have "cache_ok D c (A(es_dev sb := (A (es_dev sb))(lba := Some y))) (bcache_store b y c1)"
    using bcache_store_ok [OF assms(2) g(2) _ g(4) assms(3)] by (simp add: held_def)
  moreover have "held b (bcache_store b y c1)" using g(3) by (auto simp: held_def bcache_store_def bcache_mark_dirty_def)
  ultimately show ?thesis using g release_idle [OF assms(1,2)] by (fastforce simp: bcache_store_def)
qed

section \<open>Blocks\<close>

lemma length_patch [simp]: "off + length xs \<le> length b \<Longrightarrow> length (patch off xs b) = length b"
  by (simp add: patch_def)

lemma nth_patch: "off + length xs \<le> length b \<Longrightarrow> i < length b \<Longrightarrow>
    patch off xs b ! i = (if off \<le> i \<and> i < off + length xs then xs ! (i - off) else b ! i)"
  by (auto simp: patch_def nth_append min_def)

lemma patch_patch:
  assumes "off + length src \<le> length b" "k \<le> length src"
  shows "patch (off + k) (drop k src) (patch off (take k src) b) = patch off src b"
  using assms by (intro nth_equalityI) (auto simp: nth_patch)

lemma patch_nil [simp]: "patch off [] b = b"
  by (simp add: patch_def)

text \<open>The sector of a block that a patch inside one sector changes.\<close>

lemma patch_chunk:
  fixes q r i m :: nat
  assumes r: "r < m" "r + length xs \<le> m" and l: "m * q + r + length xs \<le> length b"
  shows "take m (drop (m * i) (patch (m * q + r) xs b)) =
    (if i = q then patch r xs (take m (drop (m * i) b)) else take m (drop (m * i) b))"
proof (cases "i = q")
  case True
  then show ?thesis using assms by (intro nth_equalityI) (auto simp: nth_patch)
next
  case False
  have out: "\<not> (m * q + r \<le> m * i + j \<and> m * i + j < m * q + r + length xs)" if "j < m" for j
  proof (cases "i < q")
    case True
    then have "m * i + m \<le> m * q" using mult_le_mono2 [of "Suc i" q m] by simp
    then show ?thesis using that by linarith
  next
    case nl: False
    then have "m * q + m \<le> m * i" using mult_le_mono2 [of "Suc q" i m] False by simp
    then show ?thesis using r by linarith
  qed
  show ?thesis using False assms out by (intro nth_equalityI) (auto simp: nth_patch)
qed

lemmas patch_sector = patch_chunk [where m = 512 and q = "off div 512" and r = "off mod 512" for off, simplified]

definition sane :: "'d ext2_sb \<Rightarrow> bool" where
  "sane sb \<longleftrightarrow> bsize sb \<in> {1024, 2048, 4096} \<and> unat (es_sectors_per_block sb) = bsize sb div 512"

definition backed :: "('d \<Rightarrow> nat \<Rightarrow> u64 \<Rightarrow> u8 list) \<Rightarrow> blkdev set \<Rightarrow> 'd ext2_sb \<Rightarrow> bool" where
  "backed c D sb \<longleftrightarrow> drives_ok (es_drv sb) c \<and> separate D (es_reg sb) \<and> es_dev sb \<in> D \<and> readable (es_drv sb) (es_dev sb) \<and> sane sb"

text \<open>The device holds the blocks \<open>B\<close>, through the cache; no buffer is in use, memory is available and nothing went wrong.\<close>

definition disk :: "('d \<Rightarrow> nat \<Rightarrow> u64 \<Rightarrow> u8 list) \<Rightarrow> blkdev set \<Rightarrow> 'd ext2_sb \<Rightarrow> (u32 \<Rightarrow> u8 list) \<Rightarrow> 'd ext2 \<Rightarrow> bool" where
  "disk c D sb B s \<longleftrightarrow>
     (\<exists>A. cache_ok D c A (ex_cache s) \<and>
        (\<forall>b < es_total_blocks sb. length (B b) = bsize sb \<and>
           (\<forall>i < bsize sb div 512. A (es_dev sb) (blk_to_lba sb b + of_nat i) = Some (take 512 (drop (512 * i) (B b)))))) \<and>
     idle (ex_cache s) \<and> ex_mem s = [] \<and> \<not> ex_fault s"

lemma lba_inj:
  assumes "sane sb" "i < bsize sb div 512" "j < bsize sb div 512" "blk_to_lba sb b + of_nat i = blk_to_lba sb d + of_nat j"
  shows "b = d \<and> i = j"
proof -
  let ?p = "bsize sb div 512"
  have p: "?p \<le> 8" "unat (es_sectors_per_block sb) = ?p" using assms(1) by (auto simp: sane_def)
  have lba: "unat (blk_to_lba sb x + of_nat k) = unat x * ?p + k" if "k < ?p" for x k
  proof -
    have "unat x * ?p \<le> 4294967295 * 8" using mult_le_mono [of "unat x" 4294967295 ?p 8] unat_lt32 [of x] p(1) by simp
    moreover have "unat x mod 18446744073709551616 = unat x" using unat_lt32 [of x] by simp
    ultimately show ?thesis using that p by (simp add: blk_to_lba_def unat_word_ariths unat_of_nat unsigned_ucast_eq take_bit_eq_mod)
  qed
  have e: "unat b * ?p + i = unat d * ?p + j" using lba [OF assms(2)] lba [OF assms(3)] assms(4) by metis
  have q: "0 < ?p" using assms(2) by simp
  have "unat b = unat d" using arg_cong [OF e, of "\<lambda>n. n div ?p"] assms(2,3) q by (simp add: div_mult_self3)
  then show ?thesis using e by (simp add: word_unat_eq_iff)
qed

lemma sector_index: "sane sb \<Longrightarrow> off < bsize sb \<Longrightarrow> off div 512 < bsize sb div 512"
  by (auto simp: sane_def)

lemma disk_len: "disk c D sb B s \<Longrightarrow> b < es_total_blocks sb \<Longrightarrow> length (B b) = bsize sb"
  by (auto simp: disk_def)

lemma disk_agree: "disk c D sb B s \<Longrightarrow> (\<And>b. b < es_total_blocks sb \<Longrightarrow> B' b = B b) \<Longrightarrow> disk c D sb B' s"
  by (fastforce simp: disk_def)

lemma diskI:
  assumes "cache_ok D c A c2"
    and "\<And>b. b < es_total_blocks sb \<Longrightarrow> length (B b) = bsize sb \<and>
       (\<forall>i < bsize sb div 512. A (es_dev sb) (blk_to_lba sb b + of_nat i) = Some (take 512 (drop (512 * i) (B b))))"
    and "idle c2" "ex_mem s = []" "\<not> ex_fault s"
  shows "disk c D sb B (s\<lparr>ex_cache := c2\<rparr>)"
  using assms unfolding disk_def by auto

lemma disk_array:
  assumes "disk c D sb B s"
  shows "\<exists>A. cache_ok D c A (ex_cache s) \<and> idle (ex_cache s) \<and> ex_mem s = [] \<and> \<not> ex_fault s \<and>
    (\<forall>b < es_total_blocks sb. length (B b) = bsize sb \<and>
       (\<forall>i < bsize sb div 512. A (es_dev sb) (blk_to_lba sb b + of_nat i) = Some (take 512 (drop (512 * i) (B b)))))"
  using assms unfolding disk_def by blast

lemma sector_chunk:
  assumes "k \<le> 512 - off mod 512"
  shows "take k (drop (off mod 512) (take 512 (drop (512 * (off div 512)) b))) = take k (drop off b)"
proof -
  have "drop (off mod 512) (drop (512 * (off div 512)) b) = drop off b" by simp
  moreover have "min k (512 - off mod 512) = k" using assms by simp
  ultimately show ?thesis by (simp add: drop_take del: drop_drop)
qed

lemma read_sectors_run:
  assumes k: "backed c D sb" and b: "b < es_total_blocks sb"
  shows "disk c D sb B s \<Longrightarrow> off + len \<le> bsize sb \<Longrightarrow>
    \<exists>s'. run_state (read_sectors sb b off len) s = (Some (take len (drop off (B b))), s') \<and> disk c D sb B s'"
proof (induction len arbitrary: off s rule: less_induct)
  case (less len)
  show ?case
  proof (cases "len = 0")
    case True
    then show ?thesis using less.prems by (simp add: read_sectors.simps)
  next
    case False
    let ?i = "off div 512" and ?k = "min (512 - off mod 512) len"
    obtain A where A: "cache_ok D c A (ex_cache s)" "idle (ex_cache s)" "ex_mem s = []" "\<not> ex_fault s"
      "\<forall>b < es_total_blocks sb. length (B b) = bsize sb \<and> (\<forall>i < bsize sb div 512. A (es_dev sb) (blk_to_lba sb b + of_nat i) = Some (take 512 (drop (512 * i) (B b))))"
      using disk_array [OF less.prems(1)] by blast
    have i: "?i < bsize sb div 512" using less.prems(2) False k by (auto simp: backed_def intro!: sector_index)
    have x: "A (es_dev sb) (blk_to_lba sb b + of_nat ?i) = Some (take 512 (drop (512 * ?i) (B b)))" using A(5) b i by blast
    obtain c1 bf c2 where r: "bcache_get (es_drv sb) (es_reg sb) (es_dev sb) (blk_to_lba sb b + of_nat ?i) (ex_cache s) = (c1, Some bf)"
      "bb_data (bc_pool c1 bf) = take 512 (drop (512 * ?i) (B b))" "c2 = bcache_release (es_drv sb) (es_reg sb) bf c1" "cache_ok D c A c2" "idle c2"
      using read_sector_run [OF _ _ _ _ A(1,2) x] k unfolding backed_def by blast
    have d: "disk c D sb B (s\<lparr>ex_cache := c2\<rparr>)" using r(4,5) A(3-5) unfolding disk_def by auto
    have "len - ?k < len" using False by simp
    then obtain s' where s': "run_state (read_sectors sb b (off + ?k) (len - ?k)) (s\<lparr>ex_cache := c2\<rparr>) = (Some (take (len - ?k) (drop (off + ?k) (B b))), s')"
      "disk c D sb B s'" using less.IH [OF _ d, of "len - ?k" "off + ?k"] less.prems(2) by auto
    have "take ?k (drop off (B b)) @ take (len - ?k) (drop (off + ?k) (B b)) = take len (drop off (B b))"
      using take_add [of ?k "len - ?k" "drop off (B b)"] by (simp add: add.commute)
    then show ?thesis
      using s' r(1,2) r(3) [symmetric] False sector_chunk [of ?k off "B b"]
      by (subst read_sectors.simps) (simp add: on_cache_def Let_def)
  qed
qed

lemma write_block_run:
  assumes k: "backed c D sb" and b: "b < es_total_blocks sb"
  shows "disk c D sb B s \<Longrightarrow> off + length src \<le> bsize sb \<Longrightarrow>
    \<exists>s'. run_state (ext2_write_block_partial sb b off src) s = (0, s') \<and> disk c D sb (B(b := patch off src (B b))) s'"
proof (induction "length src" arbitrary: off src B s rule: less_induct)
  case less
  show ?case
  proof (cases "src = []")
    case True
    then show ?thesis using less.prems by (simp add: ext2_write_block_partial.simps)
  next
    case False
    let ?i = "off div 512" and ?o = "off mod 512" and ?k = "min (512 - off mod 512) (length src)"
    let ?x = "take 512 (drop (512 * ?i) (B b))" and ?B = "B(b := patch off (take ?k src) (B b))"
    let ?y = "patch ?o (take ?k src) ?x"
    obtain A where A: "cache_ok D c A (ex_cache s)" "idle (ex_cache s)" "ex_mem s = []" "\<not> ex_fault s"
      "\<forall>b < es_total_blocks sb. length (B b) = bsize sb \<and> (\<forall>i < bsize sb div 512. A (es_dev sb) (blk_to_lba sb b + of_nat i) = Some (take 512 (drop (512 * i) (B b))))"
      using disk_array [OF less.prems(1)] by blast
    have i: "?i < bsize sb div 512" using less.prems(2) False k by (cases src) (auto simp: backed_def intro!: sector_index)
    have x: "A (es_dev sb) (blk_to_lba sb b + of_nat ?i) = Some ?x" using A(5) b i by blast
    let ?A = "A(es_dev sb := (A (es_dev sb))(blk_to_lba sb b + of_nat ?i := Some ?y))"
    obtain c1 bf c2 where r: "bcache_get (es_drv sb) (es_reg sb) (es_dev sb) (blk_to_lba sb b + of_nat ?i) (ex_cache s) = (c1, Some bf)"
      "bb_data (bc_pool c1 bf) = ?x"
      "c2 = bcache_release (es_drv sb) (es_reg sb) bf (bcache_mark_dirty bf (upd_buf bf (\<lambda>z. z\<lparr>bb_data := ?y\<rparr>) c1))" "cache_ok D c ?A c2" "idle c2"
      using write_sector_run [OF _ _ _ _ A(1,2) x, of ?y] k unfolding backed_def by blast
    have same: "upd_buf bf (\<lambda>z. z\<lparr>bb_data := patch ?o (take ?k src) (bb_data z)\<rparr>) c1 = upd_buf bf (\<lambda>z. z\<lparr>bb_data := ?y\<rparr>) c1"
      by (simp add: upd_buf_def r(2))
    have "length (?B e) = bsize sb \<and> (\<forall>j < bsize sb div 512. ?A (es_dev sb) (blk_to_lba sb e + of_nat j) = Some (take 512 (drop (512 * j) (?B e))))"
      if e: "e < es_total_blocks sb" for e
    proof (cases "e = b")
      case True
      have fit: "off mod 512 + length (take ?k src) \<le> 512" "off + length (take ?k src) \<le> length (B b)"
        using less.prems(2) A(5) b by (auto simp: min_def)
      have "?A (es_dev sb) (blk_to_lba sb b + of_nat j) = Some (take 512 (drop (512 * j) (patch off (take ?k src) (B b))))" if j: "j < bsize sb div 512" for j
      proof (cases "j = ?i")
        case True
        then show ?thesis using patch_sector [OF fit, of j] by simp
      next
        case False
        then have "blk_to_lba sb b + of_nat j \<noteq> blk_to_lba sb b + of_nat ?i" using lba_inj [of sb j ?i b b] k i j by (auto simp: backed_def)
        then show ?thesis using patch_sector [OF fit, of j] False A(5) b j by simp
      qed
      then show ?thesis using True fit A(5) b by simp
    next
      case False
      have "blk_to_lba sb e + of_nat j \<noteq> blk_to_lba sb b + of_nat ?i" if "j < bsize sb div 512" for j
        using lba_inj [of sb j ?i e b] k i that False by (auto simp: backed_def)
      then show ?thesis using e A(5) False by simp
    qed
    then have d: "disk c D sb ?B (s\<lparr>ex_cache := c2\<rparr>)" by (rule diskI [OF r(4) _ r(5) A(3,4)])
    have "length (drop ?k src) < length src" using False by simp
    then obtain s' where s': "run_state (ext2_write_block_partial sb b (off + ?k) (drop ?k src)) (s\<lparr>ex_cache := c2\<rparr>) = (0, s')"
      "disk c D sb (?B(b := patch (off + ?k) (drop ?k src) (?B b))) s'" using less.hyps [OF _ d, of "drop ?k src" "off + ?k"] less.prems(2) by auto
    have "?B(b := patch (off + ?k) (drop ?k src) (?B b)) = B(b := patch off src (B b))"
      using patch_patch [of off src "B b" ?k] less.prems(2) disk_len [OF less.prems(1) b] by simp
    then show ?thesis
      using s' r(1) r(3) [symmetric] same False
      by (subst ext2_write_block_partial.simps) (simp add: on_cache_def Let_def)
  qed
qed

end
