(* ===== verification/Ext2_Alloc.thy ===== *)
theory Ext2_Alloc
  imports Ext2_Disk
begin

unbundle bit_operations_syntax

text \<open>
  Metadata of the ext2 file system: encodings, the layout of groups, when descriptors and bitmaps are consistent, and
  what the allocation of a block, reading an inode and writing an inode do on a consistent file system.
\<close>

section \<open>Encodings\<close>

lemma unat_of_nat32: "i < 2 ^ 32 \<Longrightarrow> unat (of_nat i :: u32) = i"
  by (simp add: unat_of_nat)

lemma get32_window: "i + 4 \<le> length b \<Longrightarrow> length b \<noteq> 4 \<Longrightarrow> get32 b i = get32 (take 4 (drop i b)) 0"
  by (simp add: get32_def)

lemma get16_window: "i + 2 \<le> length b \<Longrightarrow> length b \<noteq> 2 \<Longrightarrow> get16 b i = get16 (take 2 (drop i b)) 0"
  by (simp add: get16_def)

lemma get_bytes [simp]: "get32 (u32_bytes w) 0 = w" "get16 (u16_bytes v) 0 = v"
  using get32_bytes [of w "[]"] get16_bytes [of v "[]"] by simp_all

lemma length_bgd_bytes: "length (bgd_bytes d) = 20 + length (bg_reserved d)"
  by (simp add: bgd_bytes_def)

lemma bgd_roundtrip: "length (bg_reserved d) = 12 \<Longrightarrow> bgd_of (bgd_bytes d) = d"
  by (cases d) (simp add: bgd_of_def get32_window get16_window length_bgd_bytes, simp add: bgd_bytes_def)

lemma words_window: "off + 4 * n \<le> length b \<Longrightarrow> length b \<noteq> 4 * n \<Longrightarrow> words_at b off n = words_at (take (4 * n) (drop off b)) 0 n"
  by (auto simp: words_at_def get32_def add.assoc)

lemma words_concat: "words_at (concat (map u32_bytes ws)) 0 (length ws) = ws"
proof (induction ws)
  case Nil
  show ?case by (simp add: words_at_def)
next
  case (Cons w ws)
  have "words_at (u32_bytes w @ r) 0 (Suc n) = w # words_at r 0 n" for r n
    using get32_append [of "u32_bytes w" 4 r] get32_bytes [of w r]
    by (simp add: words_at_def upt_conv_Cons del: upt_Suc) (simp add: map_Suc_upt [symmetric] del: upt_Suc)
  then show ?case using Cons by simp
qed

lemma length_words_bytes: "length (concat (map u32_bytes ws)) = 4 * length ws"
  by (induction ws) simp_all

definition inode_wf :: "ext2_inode \<Rightarrow> bool" where
  "inode_wf i \<longleftrightarrow> length (i_block i) = 15 \<and> length (i_osd2 i) = 12"

lemma length_inode_bytes: "inode_wf i \<Longrightarrow> length (inode_bytes i) = 128"
  by (simp add: inode_bytes_def inode_wf_def length_words_bytes)

lemma inode_roundtrip: "inode_wf i \<Longrightarrow> inode_of (inode_bytes i) = i"
  using words_concat [of "i_block i"]
  by (cases i) (simp add: inode_of_def get32_window get16_window words_window length_inode_bytes,
      simp add: inode_bytes_def inode_wf_def length_words_bytes)

lemma inode_of_wf: "length b = 128 \<Longrightarrow> inode_wf (inode_of b)"
  by (simp add: inode_of_def inode_wf_def words_at_def)

section \<open>Layout\<close>

text \<open>Where the bitmaps and the inode tables of the groups are.\<close>

record layout =
  ly_bitmap :: "nat \<Rightarrow> u32"
  ly_table :: "nat \<Rightarrow> u32"

abbreviation groups :: "'d ext2_sb \<Rightarrow> nat" where "groups sb \<equiv> unat (es_num_groups sb)"
abbreviation bpg :: "'d ext2_sb \<Rightarrow> nat" where "bpg sb \<equiv> unat (es_blocks_per_group sb)"
abbreviation fdb :: "'d ext2_sb \<Rightarrow> nat" where "fdb sb \<equiv> unat (es_first_data_block sb)"

definition gdt :: "'d ext2_sb \<Rightarrow> nat \<Rightarrow> u32" where
  "gdt sb g = es_bgd_block sb + of_nat (32 * g div bsize sb)"

definition table_len :: "'d ext2_sb \<Rightarrow> nat" where
  "table_len sb = (unat (es_inodes_per_group sb) * unat (es_inode_size sb) + bsize sb - 1) div bsize sb"

definition table :: "layout \<Rightarrow> nat \<Rightarrow> nat \<Rightarrow> u32" where
  "table L g j = ly_table L g + of_nat j"

definition meta :: "'d ext2_sb \<Rightarrow> layout \<Rightarrow> u32 set" where
  "meta sb L = gdt sb ` {..<groups sb} \<union> ly_bitmap L ` {..<groups sb} \<union> {table L g j | g j. g < groups sb \<and> j < table_len sb}"

definition layout_ok :: "'d ext2_sb \<Rightarrow> layout \<Rightarrow> bool" where
  "layout_ok sb L \<longleftrightarrow>
     (\<forall>b \<in> meta sb L. b \<noteq> 0 \<and> b < es_total_blocks sb) \<and>
     gdt sb ` {..<groups sb} \<inter> ly_bitmap L ` {..<groups sb} = {} \<and>
     (\<forall>g < groups sb. \<forall>j < table_len sb. table L g j \<notin> gdt sb ` {..<groups sb} \<and> table L g j \<notin> ly_bitmap L ` {..<groups sb}) \<and>
     inj_on (ly_bitmap L) {..<groups sb} \<and> inj_on (\<lambda>(g, j). table L g j) ({..<groups sb} \<times> {..<table_len sb}) \<and>
     32 * groups sb < 2 ^ 32 \<and> 0 < bpg sb \<and> 8 dvd bpg sb \<and> bpg sb \<le> 8 * bsize sb \<and>
     fdb sb + groups sb * bpg sb < 2 ^ 32 \<and> unat (es_total_blocks sb) \<le> fdb sb + groups sb * bpg sb \<and>
     unat (es_total_blocks sb) \<le> 2 ^ 31 \<and>
     0 < es_inodes_per_group sb \<and> 128 \<le> unat (es_inode_size sb) \<and> unat (es_inode_size sb) dvd bsize sb \<and>
     unat (es_inodes_per_group sb) * unat (es_inode_size sb) < 2 ^ 32 \<and> 0 < es_total_blocks sb"

definition bgd_at :: "'d ext2_sb \<Rightarrow> (u32 \<Rightarrow> u8 list) \<Rightarrow> nat \<Rightarrow> ext2_bgd" where
  "bgd_at sb B g = bgd_of (take 32 (drop (32 * g mod bsize sb) (B (gdt sb g))))"

definition bitmap_bit :: "layout \<Rightarrow> (u32 \<Rightarrow> u8 list) \<Rightarrow> nat \<Rightarrow> nat \<Rightarrow> bool" where
  "bitmap_bit L B g i = bit (B (ly_bitmap L g) ! (i div 8)) (i mod 8)"

text \<open>A block is in use when its bit is set; blocks before the first data block have none.\<close>

definition used :: "'d ext2_sb \<Rightarrow> layout \<Rightarrow> (u32 \<Rightarrow> u8 list) \<Rightarrow> u32 \<Rightarrow> bool" where
  "used sb L B b \<longleftrightarrow> b < es_first_data_block sb \<or> bitmap_bit L B ((unat b - fdb sb) div bpg sb) ((unat b - fdb sb) mod bpg sb)"

definition free_bits :: "'d ext2_sb \<Rightarrow> layout \<Rightarrow> (u32 \<Rightarrow> u8 list) \<Rightarrow> nat \<Rightarrow> nat set" where
  "free_bits sb L B g = {i. i < bpg sb \<and> \<not> bitmap_bit L B g i}"

text \<open>The descriptors point to the layout and count the free blocks, every free bit stands for a block of the device,
  and the metadata is in use.\<close>

definition meta_ok :: "'d ext2_sb \<Rightarrow> layout \<Rightarrow> (u32 \<Rightarrow> u8 list) \<Rightarrow> bool" where
  "meta_ok sb L B \<longleftrightarrow> layout_ok sb L \<and>
     (\<forall>g < groups sb. bg_block_bitmap (bgd_at sb B g) = ly_bitmap L g \<and> bg_inode_table (bgd_at sb B g) = ly_table L g \<and>
        unat (bg_free_blocks_count (bgd_at sb B g)) = card (free_bits sb L B g) \<and>
        (\<forall>i \<in> free_bits sb L B g. fdb sb + g * bpg sb + i < unat (es_total_blocks sb))) \<and>
     (\<forall>b \<in> meta sb L. used sb L B b) \<and> used sb L B 0"

lemma layout_okD:
  assumes "layout_ok sb L"
  shows "b \<in> meta sb L \<Longrightarrow> b \<noteq> 0 \<and> b < es_total_blocks sb"
    and "g < groups sb \<Longrightarrow> h < groups sb \<Longrightarrow> gdt sb g \<noteq> ly_bitmap L h"
    and "g < groups sb \<Longrightarrow> j < table_len sb \<Longrightarrow> h < groups sb \<Longrightarrow> table L g j \<noteq> gdt sb h \<and> table L g j \<noteq> ly_bitmap L h"
    and "g < groups sb \<Longrightarrow> h < groups sb \<Longrightarrow> ly_bitmap L g = ly_bitmap L h \<Longrightarrow> g = h"
    and "32 * groups sb < 2 ^ 32" "0 < bpg sb" "8 dvd bpg sb" "bpg sb \<le> 8 * bsize sb" "fdb sb + groups sb * bpg sb < 2 ^ 32"
    and "unat (es_total_blocks sb) \<le> fdb sb + groups sb * bpg sb" "unat (es_total_blocks sb) \<le> 2 ^ 31"
    and "0 < es_inodes_per_group sb" "128 \<le> unat (es_inode_size sb)" "unat (es_inode_size sb) dvd bsize sb"
    and "unat (es_inodes_per_group sb) * unat (es_inode_size sb) < 2 ^ 32" "0 < es_total_blocks sb"
  using assms unfolding layout_ok_def inj_on_def by blast+

lemma table_inj:
  assumes "layout_ok sb L" "g < groups sb" "j < table_len sb" "h < groups sb" "k < table_len sb" "table L g j = table L h k"
  shows "g = h \<and> j = k"
proof -
  have "inj_on (\<lambda>(g, j). table L g j) ({..<groups sb} \<times> {..<table_len sb})" using assms(1) unfolding layout_ok_def by blast
  then have "(g, j) = (h, k)" by (rule inj_onD) (use assms in auto)
  then show ?thesis by simp
qed

lemma meta_members:
  "g < groups sb \<Longrightarrow> gdt sb g \<in> meta sb L" "g < groups sb \<Longrightarrow> ly_bitmap L g \<in> meta sb L"
  "g < groups sb \<Longrightarrow> j < table_len sb \<Longrightarrow> table L g j \<in> meta sb L"
  by (auto simp: meta_def)

lemma meta_okD:
  assumes "meta_ok sb L B"
  shows "layout_ok sb L" "g < groups sb \<Longrightarrow> bg_block_bitmap (bgd_at sb B g) = ly_bitmap L g"
    "g < groups sb \<Longrightarrow> bg_inode_table (bgd_at sb B g) = ly_table L g"
    "g < groups sb \<Longrightarrow> unat (bg_free_blocks_count (bgd_at sb B g)) = card (free_bits sb L B g)"
    "g < groups sb \<Longrightarrow> i \<in> free_bits sb L B g \<Longrightarrow> fdb sb + g * bpg sb + i < unat (es_total_blocks sb)"
    "b \<in> meta sb L \<Longrightarrow> used sb L B b" "used sb L B 0"
  using assms unfolding meta_ok_def by blast+

section \<open>Group descriptors\<close>

lemma sane_nat: "sane sb \<Longrightarrow> 0 < bsize sb \<and> es_block_size sb \<noteq> 0 \<and> \<not> es_block_size sb > 4096 \<and> 32 dvd bsize sb \<and> 8 dvd bsize sb \<and> 4 dvd bsize sb"
  by (auto simp: sane_def word_less_nat_alt)

lemma bgd_slot:
  assumes "sane sb" "layout_ok sb L" "g < groups sb"
  shows "es_bgd_block sb + (of_nat g * 32) div es_block_size sb = gdt sb g" "unat ((of_nat g * 32 :: u32) mod es_block_size sb) = 32 * g mod bsize sb"
    "32 * g mod bsize sb + 32 \<le> bsize sb"
proof -
  have n: "unat (of_nat g * 32 :: u32) = 32 * g" using layout_okD(5) [OF assms(2)] assms(3) by (simp add: unat_word_ariths unat_of_nat)
  show "unat ((of_nat g * 32 :: u32) mod es_block_size sb) = 32 * g mod bsize sb" using n by (simp add: unat_mod_distrib)
  have "of_nat (unat ((of_nat g * 32) div es_block_size sb)) = (of_nat g * 32) div es_block_size sb" by simp
  then have "(of_nat g * 32) div es_block_size sb = of_nat (32 * g div bsize sb)" by (simp add: unat_div_distrib n)
  then show "es_bgd_block sb + (of_nat g * 32) div es_block_size sb = gdt sb g" by (simp add: gdt_def)
  obtain k where k: "bsize sb = 32 * k" using sane_nat [OF assms(1)] by (meson dvdE)
  then have "0 < k" using sane_nat [OF assms(1)] by (cases k) simp_all
  then have "g mod k + 1 \<le> k" by (simp add: Suc_le_eq)
  then have "32 * (g mod k) + 32 \<le> 32 * k" by linarith
  moreover have "32 * g mod bsize sb = 32 * (g mod k)" unfolding k by (rule mult_mod_right [symmetric])
  ultimately show "32 * g mod bsize sb + 32 \<le> bsize sb" using k by simp
qed

lemma fault_if_run [simp]: "run_state (fault_if b) s = ((), if b then s\<lparr>ex_fault := True\<rparr> else s)"
  by (simp add: fault_if_def)

lemma read_block_run:
  assumes "backed c D sb" "b \<noteq> 0" "b < es_total_blocks sb" "disk c D sb B s" "off + len \<le> bsize sb"
  shows "\<exists>s'. run_state (ext2_read_block_partial sb b off len) s = (Some (take len (drop off (B b))), s') \<and> disk c D sb B s'"
  using read_sectors_run [OF assms(1,3,4,5)] assms(2) by (simp add: ext2_read_block_partial_def)

lemma read_bgd_run:
  assumes k: "backed c D sb" and l: "layout_ok sb L" and d: "disk c D sb B s" and g: "g < groups sb"
  shows "\<exists>s'. run_state (ext2_read_bgd sb (of_nat g)) s = (Some (bgd_at sb B g), s') \<and> disk c D sb B s'"
proof -
  have sn: "sane sb" using k by (simp add: backed_def)
  note P = bgd_slot [OF sn l g]
  have b: "gdt sb g \<noteq> 0" "gdt sb g < es_total_blocks sb" using layout_okD(1) [OF l meta_members(1) [OF g]] by auto
  from read_block_run [OF k b d P(3)] show ?thesis using sane_nat [OF sn] by (auto simp: ext2_read_bgd_def P bgd_at_def)
qed

lemma write_bgd_run:
  assumes k: "backed c D sb" and l: "layout_ok sb L" and d: "disk c D sb B s" and g: "g < groups sb" and e: "length (bg_reserved e) = 12"
  shows "\<exists>s'. run_state (ext2_write_bgd sb (of_nat g) e) s = (0, s') \<and>
    disk c D sb (B(gdt sb g := patch (32 * g mod bsize sb) (bgd_bytes e) (B (gdt sb g)))) s'"
proof -
  have sn: "sane sb" using k by (simp add: backed_def)
  note P = bgd_slot [OF sn l g]
  have b: "gdt sb g < es_total_blocks sb" using layout_okD(1) [OF l meta_members(1) [OF g]] by auto
  have "32 * g mod bsize sb + length (bgd_bytes e) \<le> bsize sb" using P(3) e by (simp add: length_bgd_bytes)
  from write_block_run [OF k b d this] show ?thesis using sane_nat [OF sn] by (simp add: ext2_write_bgd_def P)
qed

lemma bgd_reserved_len: "disk c D sb B s \<Longrightarrow> sane sb \<Longrightarrow> layout_ok sb L \<Longrightarrow> g < groups sb \<Longrightarrow> length (bg_reserved (bgd_at sb B g)) = 12"
  using bgd_slot(3) [of sb L g] disk_len [of c D sb B s "gdt sb g"] layout_okD(1) [of sb L, OF _ meta_members(1) [of g]]
  by (simp add: bgd_at_def bgd_of_def)

text \<open>Writing the descriptor of one group changes that descriptor only.\<close>

lemma bgd_at_write:
  assumes sn: "sane sb" and l: "layout_ok sb L" and len: "length (B (gdt sb g)) = bsize sb" and g: "g < groups sb" "h < groups sb" and e: "length (bg_reserved e) = 12"
  shows "bgd_at sb (B(gdt sb g := patch (32 * g mod bsize sb) (bgd_bytes e) (B (gdt sb g)))) h = (if h = g then e else bgd_at sb B h)"
proof -
  obtain k where k: "bsize sb = 32 * k" using sane_nat [OF sn] by (meson dvdE)
  then have k0: "0 < k" using sane_nat [OF sn] by (cases k) simp_all
  have m: "32 * x mod bsize sb = 32 * (x mod k)" "32 * x div bsize sb = x div k" for x unfolding k by (rule mult_mod_right [symmetric], simp)
  have be: "length (bgd_bytes e) = 32" using e by (simp add: length_bgd_bytes)
  show ?thesis
  proof (cases "gdt sb h = gdt sb g")
    case True
    have lt: "x div k < 2 ^ 32" if "x < groups sb" for x using layout_okD(5) [OF l] that div_le_dividend [of x k] by linarith
    have "(of_nat (h div k) :: u32) = of_nat (g div k)" using True by (simp add: gdt_def m)
    then have "h div k = g div k" using lt [OF g(1)] lt [OF g(2)] by (metis unat_of_nat32)
    then have "h mod k = g mod k \<longleftrightarrow> h = g" by (metis div_mult_mod_eq)
    moreover have "32 * (g mod k) + 0 + length (bgd_bytes e) \<le> length (B (gdt sb g))" using bgd_slot(3) [OF sn l g(1)] be len m by simp
    ultimately show ?thesis using True patch_chunk [of 0 32 "bgd_bytes e" "g mod k" "B (gdt sb g)" "h mod k"] be e
      by (simp add: bgd_at_def m bgd_roundtrip patch_def)
  next
    case False
    then show ?thesis by (auto simp: bgd_at_def)
  qed
qed

section \<open>Allocating a block\<close>

definition maps :: "'d ext2_sb \<Rightarrow> layout \<Rightarrow> u32 set" where
  "maps sb L = gdt sb ` {..<groups sb} \<union> ly_bitmap L ` {..<groups sb}"

text \<open>\<open>b\<close> was free and is in use now; nothing but bitmaps and descriptors has changed.\<close>

definition taken :: "'d ext2_sb \<Rightarrow> layout \<Rightarrow> (u32 \<Rightarrow> u8 list) \<Rightarrow> u32 \<Rightarrow> (u32 \<Rightarrow> u8 list) \<Rightarrow> bool" where
  "taken sb L B b B' \<longleftrightarrow> b \<noteq> 0 \<and> b < es_total_blocks sb \<and> \<not> used sb L B b \<and> meta_ok sb L B' \<and>
     (\<forall>x < es_total_blocks sb. used sb L B' x \<longleftrightarrow> used sb L B x \<or> x = b) \<and> (\<forall>x. x \<notin> maps sb L \<longrightarrow> B' x = B x)"

lemma bitmap_len:
  assumes "layout_ok sb L" "sane sb"
  shows "min (unat (es_blocks_per_group sb div 8)) (bsize sb) = bpg sb div 8" "8 * (bpg sb div 8) = bpg sb" "bpg sb div 8 \<le> bsize sb"
    "i < bpg sb \<Longrightarrow> i div 8 < bpg sb div 8"
proof -
  show "8 * (bpg sb div 8) = bpg sb" using layout_okD(7) [OF assms(1)] by simp
  then show "bpg sb div 8 \<le> bsize sb" using layout_okD(8) [OF assms(1)] by linarith
  then show "min (unat (es_blocks_per_group sb div 8)) (bsize sb) = bpg sb div 8" by (simp add: unat_div_distrib)
  show "i < bpg sb \<Longrightarrow> i div 8 < bpg sb div 8" using \<open>8 * (bpg sb div 8) = bpg sb\<close> by linarith
qed

lemma first_zero_bit_None: "first_zero_bit bm = None \<Longrightarrow> i < 8 * length bm \<Longrightarrow> bit (bm ! (i div 8)) (i mod 8)"
  by (auto simp: first_zero_bit_def find_None_iff)

lemma first_zero_bit_Some: "first_zero_bit bm = Some i \<Longrightarrow> i < 8 * length bm \<and> \<not> bit (bm ! (i div 8)) (i mod 8)"
  by (auto simp: first_zero_bit_def find_Some_iff)

lemma first_zero_free:
  assumes "layout_ok sb L" "sane sb" "length (B (ly_bitmap L g)) = bsize sb"
  shows "case first_zero_bit (take (bpg sb div 8) (B (ly_bitmap L g))) of None \<Rightarrow> free_bits sb L B g = {} | Some i \<Rightarrow> i \<in> free_bits sb L B g"
proof -
  note N = bitmap_len [OF assms(1,2)]
  have len: "length (take (bpg sb div 8) (B (ly_bitmap L g))) = bpg sb div 8" using N(3) assms(3) by simp
  show ?thesis
  proof (cases "first_zero_bit (take (bpg sb div 8) (B (ly_bitmap L g)))")
    case None
    then show ?thesis using first_zero_bit_None [OF None] len N by (auto simp: free_bits_def bitmap_bit_def)
  next
    case (Some i)
    then show ?thesis using first_zero_bit_Some [OF Some] len N by (auto simp: free_bits_def bitmap_bit_def)
  qed
qed

lemma set_bit_byte: "n < 8 \<Longrightarrow> bit ((x :: u8) OR 2 ^ k) n \<longleftrightarrow> bit x n \<or> n = k"
  by (auto simp: bit_simps)

text \<open>Setting a bit of a bitmap.\<close>

lemma bitmap_set:
  assumes l: "layout_ok sb L" and sn: "sane sb" and g: "g < groups sb" "h < groups sb" and i: "i < bpg sb" "j < bpg sb"
    and len: "length (B (ly_bitmap L g)) = bsize sb"
    and B': "\<And>x. x \<notin> gdt sb ` {..<groups sb} \<Longrightarrow>
      B' x = (B(ly_bitmap L g := patch (i div 8) [B (ly_bitmap L g) ! (i div 8) OR push_bit (i mod 8) 1] (B (ly_bitmap L g)))) x"
  shows "bitmap_bit L B' h j \<longleftrightarrow> bitmap_bit L B h j \<or> h = g \<and> j = i"
proof -
  have n: "ly_bitmap L x \<notin> gdt sb ` {..<groups sb}" if "x < groups sb" for x using layout_okD(2) [OF l] that by fastforce
  have ij: "i div 8 < bsize sb" "j div 8 < bsize sb" using bitmap_len(3,4) [OF l sn] i by (meson order_less_le_trans)+
  have eq: "j div 8 = i div 8 \<Longrightarrow> j mod 8 = i mod 8 \<longleftrightarrow> j = i" by (metis div_mult_mod_eq)
  show ?thesis
  proof (cases "h = g")
    case True
    then show ?thesis using B' [OF n [OF g(2)]] ij len eq by (auto simp: bitmap_bit_def nth_patch set_bit_byte le_less_Suc_eq)
  next
    case False
    then have "ly_bitmap L h \<noteq> ly_bitmap L g" using layout_okD(4) [OF l g(2,1)] by blast
    then show ?thesis using B' [OF n [OF g(2)]] False by (simp add: bitmap_bit_def)
  qed
qed

lemma group_of:
  assumes l: "layout_ok sb L" and b: "b < es_total_blocks sb" "\<not> b < es_first_data_block sb"
  shows "(unat b - fdb sb) div bpg sb < groups sb" "(unat b - fdb sb) mod bpg sb < bpg sb"
proof -
  have "unat b - fdb sb < groups sb * bpg sb" using layout_okD(10) [OF l] b by (simp add: word_less_nat_alt)
  then show "(unat b - fdb sb) div bpg sb < groups sb" by (simp add: less_mult_imp_div_less)
  show "(unat b - fdb sb) mod bpg sb < bpg sb" using layout_okD(6) [OF l] by simp
qed

lemma block_number:
  assumes m: "meta_ok sb L B" and g: "g < groups sb" and i: "i \<in> free_bits sb L B g"
  defines "b \<equiv> of_nat g * es_blocks_per_group sb + of_nat i + es_first_data_block sb"
  shows "unat b = fdb sb + g * bpg sb + i" "b < es_total_blocks sb" "\<not> b < es_first_data_block sb"
    "(unat b - fdb sb) div bpg sb = g" "(unat b - fdb sb) mod bpg sb = i"
proof -
  note l = meta_okD(1) [OF m]
  have i': "i < bpg sb" using i by (simp add: free_bits_def)
  have lt: "fdb sb + g * bpg sb + i < unat (es_total_blocks sb)" by (rule meta_okD(5) [OF m g i])
  then have t: "fdb sb + g * bpg sb + i < 2 ^ 32" using unat_lt32 [of "es_total_blocks sb"] by simp
  show u: "unat b = fdb sb + g * bpg sb + i"
  proof -
    have "b = of_nat (fdb sb + g * bpg sb + i)" by (simp add: b_def)
    then show ?thesis using unat_of_nat32 [OF t] by simp
  qed
  show "b < es_total_blocks sb" "\<not> b < es_first_data_block sb" using u lt by (simp_all add: word_less_nat_alt)
  show "(unat b - fdb sb) div bpg sb = g" "(unat b - fdb sb) mod bpg sb = i" using i' by (simp_all add: u)
qed

lemma taken_bit:
  assumes k: "backed c D sb" and m: "meta_ok sb L B" and d: "disk c D sb B s" and g: "g < groups sb" and i: "i \<in> free_bits sb L B g"
  defines "e \<equiv> (bgd_at sb B g)\<lparr>bg_free_blocks_count := bg_free_blocks_count (bgd_at sb B g) - 1\<rparr>"
    and "B1 \<equiv> B(ly_bitmap L g := patch (i div 8) [B (ly_bitmap L g) ! (i div 8) OR push_bit (i mod 8) 1] (B (ly_bitmap L g)))"
  shows "taken sb L B (of_nat g * es_blocks_per_group sb + of_nat i + es_first_data_block sb)
    (B1(gdt sb g := patch (32 * g mod bsize sb) (bgd_bytes e) (B1 (gdt sb g))))" (is "taken sb L B ?b ?B")
proof -
  note l = meta_okD(1) [OF m] and N = block_number [OF m g i]
  have sn: "sane sb" using k by (simp add: backed_def)
  have i': "i < bpg sb" "\<not> bitmap_bit L B g i" using i by (auto simp: free_bits_def)
  have lens: "length (B (ly_bitmap L g)) = bsize sb" "length (B (gdt sb g)) = bsize sb"
    using disk_len [OF d] layout_okD(1) [OF l] meta_members [OF g] by auto
  have e: "length (bg_reserved e) = 12" using bgd_reserved_len [OF d sn l g] by (simp add: e_def)
  have ne: "gdt sb g \<noteq> ly_bitmap L g" by (rule layout_okD(2) [OF l g g])
  have bits: "bitmap_bit L ?B h j \<longleftrightarrow> bitmap_bit L B h j \<or> h = g \<and> j = i" if "h < groups sb" "j < bpg sb" for h j
    by (rule bitmap_set [where B = B, OF l sn g that(1) i'(1) that(2) lens(1)]) (use g in \<open>auto simp: B1_def\<close>)
  have free: "free_bits sb L ?B h = (if h = g then free_bits sb L B g - {i} else free_bits sb L B h)" if "h < groups sb" for h
    using bits [OF that] by (auto simp: free_bits_def)
  have bgd: "bgd_at sb ?B h = (if h = g then e else bgd_at sb B h)" if "h < groups sb" for h
  proof -
    have "bgd_at sb B1 h = bgd_at sb B h" using layout_okD(2) [OF l that g] by (simp add: bgd_at_def B1_def)
    then show ?thesis using bgd_at_write [OF sn l _ g that e, of B1] lens ne by (simp add: B1_def)
  qed
  have uses: "used sb L ?B x \<longleftrightarrow> used sb L B x \<or> x = ?b" if "x < es_total_blocks sb" for x
  proof (cases "x < es_first_data_block sb")
    case True
    then show ?thesis using N(3) by (auto simp: used_def)
  next
    case False
    have "x = ?b \<longleftrightarrow> (unat x - fdb sb) div bpg sb = g \<and> (unat x - fdb sb) mod bpg sb = i"
    proof
      assume a: "(unat x - fdb sb) div bpg sb = g \<and> (unat x - fdb sb) mod bpg sb = i"
      have "unat x - fdb sb = g * bpg sb + i" using div_mult_mod_eq [of "unat x - fdb sb" "bpg sb"] a by simp
      then have "unat x = unat ?b" using False N(1) by (simp add: word_less_nat_alt)
      then show "x = ?b" by (rule word_unat_eq_iff [THEN iffD2])
    qed (use N(4,5) in auto)
    then show ?thesis using bits group_of [OF l that False] False by (simp add: used_def)
  qed
  have b0: "?b \<noteq> 0" using meta_okD(7) [OF m] i'(2) N by (auto simp: used_def)
  have free_one: "unat (bg_free_blocks_count e) = card (free_bits sb L B g - {i})"
  proof -
    have "finite (free_bits sb L B g)" by (auto simp: free_bits_def)
    then have "card (free_bits sb L B g - {i}) = unat (bg_free_blocks_count (bgd_at sb B g)) - 1" "0 < unat (bg_free_blocks_count (bgd_at sb B g))"
      using i meta_okD(4) [OF m g] by (auto simp: card_gt_0_iff)
    then show ?thesis by (simp add: e_def unat_minus_one unat_gt_0)
  qed
  have "meta_ok sb L ?B" unfolding meta_ok_def
  proof (intro conjI allI impI ballI)
    fix h assume h: "h < groups sb"
    note M = meta_okD [OF m]
    show "bg_block_bitmap (bgd_at sb ?B h) = ly_bitmap L h" "bg_inode_table (bgd_at sb ?B h) = ly_table L h"
      using bgd [OF h] M(2,3) [OF h] M(2,3) [OF g] by (auto simp: e_def)
    show "unat (bg_free_blocks_count (bgd_at sb ?B h)) = card (free_bits sb L ?B h)" using bgd [OF h] free [OF h] free_one M(4) [OF h] by simp
    show "fdb sb + h * bpg sb + j < unat (es_total_blocks sb)" if "j \<in> free_bits sb L ?B h" for j
      using M(5) [OF h, of j] that free [OF h] by (auto split: if_splits)
  next
    show "used sb L ?B x" if "x \<in> meta sb L" for x using uses meta_okD(6) [OF m that] layout_okD(1) [OF l that] by blast
    show "used sb L ?B 0" using uses [OF order_le_less_trans [OF word_zero_le N(2)]] meta_okD(7) [OF m] by blast
  qed (rule l)
  moreover have "?B x = B x" if "x \<notin> maps sb L" for x using that g by (auto simp: maps_def B1_def)
  moreover have "\<not> used sb L B ?b" using N i'(2) by (simp add: used_def)
  ultimately show ?thesis using b0 N(2) uses unfolding taken_def by blast
qed

lemma tmp_run [simp]: "disk c D sb B s \<Longrightarrow> sane sb \<Longrightarrow> run_state (ext2_alloc_block_tmp sb) s = (True, s)"
  using sane_nat [of sb] by (simp add: ext2_alloc_block_tmp_def kmalloc_ok_def disk_def)

lemma group_alloc_run:
  assumes k: "backed c D sb" and m: "meta_ok sb L B" and d: "disk c D sb B s" and g: "g < groups sb"
  shows "\<exists>b B' s'. run_state (ext2_alloc_block_in_group sb (of_nat g)) s = (b, s') \<and> disk c D sb B' s' \<and>
    (b = 0 \<and> B' = B \<and> free_bits sb L B g = {} \<or> taken sb L B b B')"
proof -
  note l = meta_okD(1) [OF m]
  have sn: "sane sb" using k by (simp add: backed_def)
  note N = bitmap_len [OF l sn]
  have bm: "ly_bitmap L g \<noteq> 0" "ly_bitmap L g < es_total_blocks sb" using layout_okD(1) [OF l meta_members(2) [OF g]] by auto
  note len = disk_len [OF d bm(2)]
  obtain s1 where s1: "run_state (ext2_read_bgd sb (of_nat g)) s = (Some (bgd_at sb B g), s1)" "disk c D sb B s1" using read_bgd_run [OF k l d g] by blast
  have bmg: "bg_block_bitmap (bgd_at sb B g) = ly_bitmap L g" by (rule meta_okD(2) [OF m g])
  show ?thesis
  proof (cases "bg_free_blocks_count (bgd_at sb B g) = 0")
    case True
    then have "free_bits sb L B g = {}" using meta_okD(4) [OF m g] by (simp add: free_bits_def)
    then show ?thesis using True s1 by (simp add: ext2_alloc_block_in_group_def) blast
  next
    case False
    let ?bm = "take (bpg sb div 8) (B (ly_bitmap L g))"
    obtain s2 where s2: "run_state (ext2_read_block_partial sb (ly_bitmap L g) 0 (bpg sb div 8)) s1 = (Some ?bm, s2)" "disk c D sb B s2"
      using read_block_run [OF k bm s1(2), of 0 "bpg sb div 8"] N(3) by auto
    have fz: "case first_zero_bit ?bm of None \<Rightarrow> free_bits sb L B g = {} | Some i \<Rightarrow> i \<in> free_bits sb L B g" by (rule first_zero_free [where B = B, OF l sn len])
    show ?thesis
    proof (cases "first_zero_bit ?bm")
      case None
      then show ?thesis using False s1 s2 fz N(1) sn by (simp add: ext2_alloc_block_in_group_def bmg) blast
    next
      case (Some i)
      then have i: "i \<in> free_bits sb L B g" using fz by simp
      let ?y = "[B (ly_bitmap L g) ! (i div 8) OR push_bit (i mod 8) 1]" and ?e = "(bgd_at sb B g)\<lparr>bg_free_blocks_count := bg_free_blocks_count (bgd_at sb B g) - 1\<rparr>"
      have i8: "i div 8 < bpg sb div 8" using N(4) i by (simp add: free_bits_def)
      then have nth: "?bm ! (i div 8) = B (ly_bitmap L g) ! (i div 8)" by simp
      obtain s3 where s3: "run_state (ext2_write_block_partial sb (ly_bitmap L g) (i div 8) ?y) s2 = (0, s3)"
        "disk c D sb (B(ly_bitmap L g := patch (i div 8) ?y (B (ly_bitmap L g)))) s3"
        using write_block_run [OF k bm(2) s2(2), of "i div 8" ?y] i8 N(3) by auto
      have er: "length (bg_reserved ?e) = 12" using bgd_reserved_len [OF d sn l g] by simp
      obtain s4 where s4: "run_state (ext2_write_bgd sb (of_nat g) ?e) s3 = (0, s4)"
        "disk c D sb ((B(ly_bitmap L g := patch (i div 8) ?y (B (ly_bitmap L g))))
           (gdt sb g := patch (32 * g mod bsize sb) (bgd_bytes ?e) ((B(ly_bitmap L g := patch (i div 8) ?y (B (ly_bitmap L g)))) (gdt sb g)))) s4"
        using write_bgd_run [OF k l s3(2) g er] by blast
      have "run_state (ext2_alloc_block_in_group sb (of_nat g)) s = (of_nat g * es_blocks_per_group sb + of_nat i + es_first_data_block sb, s4)"
        using False s1 s2 s3(1) s4(1) N(1) sn Some nth by (simp add: ext2_alloc_block_in_group_def bmg)
      then show ?thesis using s4(2) taken_bit [OF k m d g i] by blast
    qed
  qed
qed

lemma alloc_groups_run:
  assumes k: "backed c D sb" and m: "meta_ok sb L B"
  shows "disk c D sb B s \<Longrightarrow> set gs \<subseteq> {..<groups sb} \<Longrightarrow> \<exists>b B' s'. run_state (alloc_groups sb gs) s = (b, s') \<and> disk c D sb B' s' \<and>
    (b = 0 \<and> B' = B \<and> (\<forall>g \<in> set gs. free_bits sb L B g = {}) \<or> taken sb L B b B')"
proof (induction gs arbitrary: s)
  case Nil
  then show ?case by auto
next
  case (Cons g gs)
  then obtain b B' s1 where s1: "run_state (ext2_alloc_block_in_group sb (of_nat g)) s = (b, s1)" "disk c D sb B' s1"
    "b = 0 \<and> B' = B \<and> free_bits sb L B g = {} \<or> taken sb L B b B'" using group_alloc_run [OF k m Cons.prems(1), of g] by auto
  show ?case
  proof (cases "b = 0")
    case True
    then have "B' = B" "free_bits sb L B g = {}" using s1(3) by (auto simp: taken_def)
    then show ?thesis using Cons.IH [of s1] Cons.prems(2) s1 True by auto
  next
    case False
    then show ?thesis using s1 by auto
  qed
qed

text \<open>An allocation fails only when every block is in use.\<close>

lemma alloc_block_run:
  assumes k: "backed c D sb" and m: "meta_ok sb L B" and d: "disk c D sb B s"
  shows "\<exists>b B' s'. run_state (ext2_alloc_block sb) s = (b, s') \<and> disk c D sb B' s' \<and>
    (b = 0 \<and> B' = B \<and> (\<forall>x < es_total_blocks sb. used sb L B x) \<or> taken sb L B b B')"
proof -
  have "used sb L B x" if "\<forall>g \<in> set [0..<groups sb]. free_bits sb L B g = {}" "x < es_total_blocks sb" for x
  proof (cases "x < es_first_data_block sb")
    case False
    note G = group_of [OF meta_okD(1) [OF m] that(2) False]
    then have "(unat x - fdb sb) mod bpg sb \<notin> free_bits sb L B ((unat x - fdb sb) div bpg sb)" using that(1) by simp
    then show ?thesis using G by (simp add: used_def free_bits_def)
  qed (simp add: used_def)
  then show ?thesis using alloc_groups_run [OF k m d, of "[0..<groups sb]"] unfolding ext2_alloc_block_def by fastforce
qed

lemma zero_block_run:
  assumes k: "backed c D sb" and b: "b < es_total_blocks sb" and d: "disk c D sb B s"
  shows "\<exists>s'. run_state (ext2_zero_block sb b) s = (0, s') \<and> disk c D sb (B(b := replicate (bsize sb) 0)) s'"
proof -
  have "patch 0 (replicate (bsize sb) 0) (B b) = replicate (bsize sb) 0" using disk_len [OF d b] by (simp add: patch_def)
  then show ?thesis using write_block_run [OF k b d, of 0 "replicate (bsize sb) 0"] d k by (simp add: ext2_zero_block_def backed_def)
qed

section \<open>Inodes\<close>

lemma used_cong:
  assumes l: "layout_ok sb L" and s: "\<And>y. y \<in> maps sb L \<Longrightarrow> B' y = B y" and x: "x < es_total_blocks sb"
  shows "used sb L B' x \<longleftrightarrow> used sb L B x"
proof (cases "x < es_first_data_block sb")
  case False
  then have "ly_bitmap L ((unat x - fdb sb) div bpg sb) \<in> maps sb L" using group_of(1) [OF l x False] by (simp add: maps_def)
  then show ?thesis using s by (simp add: used_def bitmap_bit_def)
qed (simp add: used_def)

lemma meta_ok_cong:
  assumes m: "meta_ok sb L B" and s: "\<And>y. y \<in> maps sb L \<Longrightarrow> B' y = B y"
  shows "meta_ok sb L B'"
proof -
  note l = meta_okD(1) [OF m]
  have bgd: "bgd_at sb B' g = bgd_at sb B g" and bits: "free_bits sb L B' g = free_bits sb L B g" if "g < groups sb" for g
    using that s by (simp_all add: bgd_at_def free_bits_def bitmap_bit_def maps_def)
  note same = used_cong [where B' = B' and B = B, OF l s]
  have u: "used sb L B' b" if "b \<in> meta sb L" for b
    using same layout_okD(1) [OF l that] meta_okD(6) [OF m that] by blast
  have "used sb L B' 0" using same [OF _ layout_okD(16) [OF l]] meta_okD(7) [OF m] by blast
  then show ?thesis using m u unfolding meta_ok_def by (auto simp: bgd bits)
qed

definition ino_ok :: "'d ext2_sb \<Rightarrow> u32 \<Rightarrow> bool" where
  "ino_ok sb ino \<longleftrightarrow> ino \<noteq> 0 \<and> (unat ino - 1) div unat (es_inodes_per_group sb) < groups sb"

definition ino_group :: "'d ext2_sb \<Rightarrow> u32 \<Rightarrow> nat" where
  "ino_group sb ino = (unat ino - 1) div unat (es_inodes_per_group sb)"

definition ino_off :: "'d ext2_sb \<Rightarrow> u32 \<Rightarrow> nat" where
  "ino_off sb ino = (unat ino - 1) mod unat (es_inodes_per_group sb) * unat (es_inode_size sb)"

definition ino_block :: "'d ext2_sb \<Rightarrow> layout \<Rightarrow> u32 \<Rightarrow> u32" where
  "ino_block sb L ino = table L (ino_group sb ino) (ino_off sb ino div bsize sb)"

definition inode_at :: "'d ext2_sb \<Rightarrow> layout \<Rightarrow> (u32 \<Rightarrow> u8 list) \<Rightarrow> u32 \<Rightarrow> ext2_inode" where
  "inode_at sb L B ino = inode_of (take 128 (drop (ino_off sb ino mod bsize sb) (B (ino_block sb L ino))))"

lemma ino_slot:
  assumes sn: "sane sb" and l: "layout_ok sb L" and i: "ino_ok sb ino"
  shows "(ino - 1) div es_inodes_per_group sb = of_nat (ino_group sb ino)" "ino_group sb ino < groups sb"
    "unat ((ino - 1) mod es_inodes_per_group sb * es_inode_size sb) = ino_off sb ino"
    "ino_off sb ino div bsize sb < table_len sb" "ino_off sb ino mod bsize sb + unat (es_inode_size sb) \<le> bsize sb"
proof -
  let ?p = "unat (es_inodes_per_group sb)" and ?z = "unat (es_inode_size sb)"
  have n: "unat (ino - 1) = unat ino - 1" using i by (simp add: ino_ok_def unat_minus_one)
  have "of_nat (unat ((ino - 1) div es_inodes_per_group sb)) = (ino - 1) div es_inodes_per_group sb" by simp
  then show "(ino - 1) div es_inodes_per_group sb = of_nat (ino_group sb ino)" by (simp add: ino_group_def unat_div_distrib n)
  show "ino_group sb ino < groups sb" using i by (simp add: ino_ok_def ino_group_def)
  have p0: "0 < ?p" using layout_okD(12) [OF l] by (simp add: word_less_nat_alt)
  have lt: "ino_off sb ino < ?p * ?z" using p0 layout_okD(13) [OF l] by (simp add: ino_off_def)
  have m: "unat ((ino - 1) mod es_inodes_per_group sb) * ?z = ino_off sb ino" by (simp add: ino_off_def unat_mod_distrib n)
  then have "unat ((ino - 1) mod es_inodes_per_group sb) * ?z < 2 ^ LENGTH(32)" using lt layout_okD(15) [OF l] by simp
  then show "unat ((ino - 1) mod es_inodes_per_group sb * es_inode_size sb) = ino_off sb ino" using m by (simp only: unat_mult_lem [THEN iffD1])
  have b0: "0 < bsize sb" using sane_nat [OF sn] by blast
  have "ino_off sb ino div bsize sb \<le> (?p * ?z - 1) div bsize sb" using lt by (intro div_le_mono) simp
  moreover have "table_len sb = (?p * ?z - 1) div bsize sb + 1"
  proof -
    have "?p * ?z + bsize sb - 1 = (?p * ?z - 1) + bsize sb" using lt by linarith
    then show ?thesis using b0 by (simp add: table_len_def div_add_self2)
  qed
  ultimately show "ino_off sb ino div bsize sb < table_len sb" by linarith
  obtain k where k: "bsize sb = ?z * k" using layout_okD(14) [OF l] by (auto elim: dvdE)
  have "0 < k" using b0 unfolding k by (cases k) simp_all
  have "ino_off sb ino mod bsize sb = ?z * ((unat ino - 1) mod ?p mod k)" unfolding k ino_off_def by (metis mult.commute mult_mod_right)
  moreover have "(unat ino - 1) mod ?p mod k + 1 \<le> k" using \<open>0 < k\<close> by (simp add: Suc_le_eq)
  then have "?z * ((unat ino - 1) mod ?p mod k + 1) \<le> ?z * k" by (rule mult_le_mono2)
  ultimately show "ino_off sb ino mod bsize sb + ?z \<le> bsize sb" unfolding k by simp
qed

lemma ino_address:
  assumes sn: "sane sb" and m: "meta_ok sb L B" and i: "ino_ok sb ino"
  shows "bg_inode_table (bgd_at sb B (ino_group sb ino)) + ((ino - 1) mod es_inodes_per_group sb * es_inode_size sb) div es_block_size sb = ino_block sb L ino"
    "unat (((ino - 1) mod es_inodes_per_group sb * es_inode_size sb) mod es_block_size sb) = ino_off sb ino mod bsize sb" "es_inodes_per_group sb \<noteq> 0"
proof -
  note P = ino_slot [OF sn meta_okD(1) [OF m] i]
  let ?o = "(ino - 1) mod es_inodes_per_group sb * es_inode_size sb"
  have "of_nat (unat (?o div es_block_size sb)) = ?o div es_block_size sb" by simp
  then show "bg_inode_table (bgd_at sb B (ino_group sb ino)) + ?o div es_block_size sb = ino_block sb L ino"
    using meta_okD(3) [OF m P(2)] by (simp add: ino_block_def table_def unat_div_distrib P(3))
  show "unat (?o mod es_block_size sb) = ino_off sb ino mod bsize sb" by (simp add: unat_mod_distrib P(3))
  show "es_inodes_per_group sb \<noteq> 0" using layout_okD(12) [OF meta_okD(1) [OF m]] by auto
qed

lemma read_inode_run:
  assumes k: "backed c D sb" and m: "meta_ok sb L B" and d: "disk c D sb B s" and i: "ino_ok sb ino"
  shows "\<exists>s'. run_state (ext2_read_inode sb ino) s = (Some (inode_at sb L B ino), s') \<and> disk c D sb B s'"
proof -
  note l = meta_okD(1) [OF m]
  have sn: "sane sb" using k by (simp add: backed_def)
  note P = ino_slot [OF sn l i] and Q = ino_address [OF sn m i]
  have b: "ino_block sb L ino \<noteq> 0" "ino_block sb L ino < es_total_blocks sb"
    using layout_okD(1) [OF l meta_members(3) [OF P(2,4)]] by (auto simp: ino_block_def)
  obtain s1 where s1: "run_state (ext2_read_bgd sb (of_nat (ino_group sb ino))) s = (Some (bgd_at sb B (ino_group sb ino)), s1)" "disk c D sb B s1"
    using read_bgd_run [OF k l d P(2)] by blast
  have sz: "min (unat (es_inode_size sb)) 128 = 128" using layout_okD(13) [OF l] by simp
  have fit: "ino_off sb ino mod bsize sb + 128 \<le> bsize sb" using P(5) layout_okD(13) [OF l] by linarith
  then have len: "length (take 128 (drop (ino_off sb ino mod bsize sb) (B (ino_block sb L ino)))) = 128" using disk_len [OF d b(2)] by simp
  obtain s2 where "run_state (ext2_read_block_partial sb (ino_block sb L ino) (ino_off sb ino mod bsize sb) 128) s1 =
      (Some (take 128 (drop (ino_off sb ino mod bsize sb) (B (ino_block sb L ino)))), s2)" "disk c D sb B s2"
    using read_block_run [OF k b s1(2) fit] by blast
  then show ?thesis using s1 len by (simp add: ext2_read_inode_def Let_def Q P(1) sz inode_at_def del: length_take)
qed

lemma write_inode_run:
  assumes k: "backed c D sb" and m: "meta_ok sb L B" and d: "disk c D sb B s" and i: "ino_ok sb ino" and w: "inode_wf x"
  shows "\<exists>s'. run_state (ext2_write_inode sb ino x) s = (0, s') \<and>
    disk c D sb (B(ino_block sb L ino := patch (ino_off sb ino mod bsize sb) (inode_bytes x) (B (ino_block sb L ino)))) s'"
proof -
  note l = meta_okD(1) [OF m]
  have sn: "sane sb" using k by (simp add: backed_def)
  note P = ino_slot [OF sn l i] and Q = ino_address [OF sn m i]
  have b: "ino_block sb L ino < es_total_blocks sb" using layout_okD(1) [OF l meta_members(3) [OF P(2,4)]] by (auto simp: ino_block_def)
  obtain s1 where s1: "run_state (ext2_read_bgd sb (of_nat (ino_group sb ino))) s = (Some (bgd_at sb B (ino_group sb ino)), s1)" "disk c D sb B s1"
    using read_bgd_run [OF k l d P(2)] by blast
  have bytes: "take (unat (es_inode_size sb)) (inode_bytes x) = inode_bytes x" using layout_okD(13) [OF l] length_inode_bytes [OF w] by simp
  have "ino_off sb ino mod bsize sb + length (inode_bytes x) \<le> bsize sb" using P(5) layout_okD(13) [OF l] length_inode_bytes [OF w] by linarith
  from write_block_run [OF k b s1(2) this] show ?thesis using s1 by (auto simp: ext2_write_inode_def Let_def Q P(1) bytes)
qed

lemma inode_at_write:
  assumes sn: "sane sb" and l: "layout_ok sb L" and len: "length (B (ino_block sb L ino)) = bsize sb" and i: "ino_ok sb ino" "ino_ok sb jno" and w: "inode_wf x"
  shows "inode_at sb L (B(ino_block sb L ino := patch (ino_off sb ino mod bsize sb) (inode_bytes x) (B (ino_block sb L ino)))) jno =
    (if jno = ino then x else inode_at sb L B jno)"
proof (cases "ino_block sb L jno = ino_block sb L ino")
  case False
  then show ?thesis by (auto simp: inode_at_def)
next
  case True
  let ?p = "unat (es_inodes_per_group sb)" and ?z = "unat (es_inode_size sb)" and ?x = "\<lambda>n. (unat n - 1) mod unat (es_inodes_per_group sb)"
  note P = ino_slot [OF sn l i(1)] and Q = ino_slot [OF sn l i(2)]
  have gj: "ino_group sb jno = ino_group sb ino" "ino_off sb jno div bsize sb = ino_off sb ino div bsize sb"
    using table_inj [OF l Q(2,4) P(2,4)] True by (auto simp: ino_block_def)
  obtain k where k: "bsize sb = ?z * k" using layout_okD(14) [OF l] by (meson dvdE)
  have z: "128 \<le> ?z" by (rule layout_okD(13) [OF l])
  have md: "ino_off sb n mod bsize sb = ?z * (?x n mod k)" "ino_off sb n div bsize sb = ?x n div k" for n
    unfolding k ino_off_def using z by (metis mult.commute mult_mod_right, simp add: mult.commute [of _ ?z])
  have same: "?x jno mod k = ?x ino mod k \<longleftrightarrow> jno = ino"
  proof
    assume e: "?x jno mod k = ?x ino mod k"
    then have "?x jno = ?x ino" using gj(2) md(2) by (metis div_mult_mod_eq)
    then have "unat jno - 1 = unat ino - 1" using gj(1) by (metis ino_group_def div_mult_mod_eq)
    moreover have "0 < unat jno" "0 < unat ino" using i by (auto simp: ino_ok_def unat_gt_0)
    ultimately have "unat jno = unat ino" by linarith
    then show "jno = ino" by (rule word_unat_eq_iff [THEN iffD2])
  qed simp
  have lb: "length (inode_bytes x) = 128" by (rule length_inode_bytes [OF w])
  have fit: "?z * (?x ino mod k) + 0 + length (inode_bytes x) \<le> length (B (ino_block sb L ino))" using P(5) md z lb len by simp
  let ?b = "B (ino_block sb L ino)" and ?q = "?z * (?x jno mod k)"
  have win: "take 128 xs = take 128 (take ?z xs)" for xs :: "u8 list" using z by (simp add: min_def)
  have new: "take ?z (drop ?q (patch (?z * (?x ino mod k)) (inode_bytes x) ?b)) = (if jno = ino then patch 0 (inode_bytes x) (take ?z (drop ?q ?b)) else take ?z (drop ?q ?b))"
    using patch_chunk [of 0 ?z "inode_bytes x" "?x ino mod k" ?b "?x jno mod k", OF _ _ fit] same z lb by simp
  show ?thesis
  proof (cases "jno = ino")
    case True
    note n = new [unfolded if_P [OF True]]
    have "take 128 (drop ?q (patch (?z * (?x ino mod k)) (inode_bytes x) ?b)) = inode_bytes x"
      by (subst win, subst n, simp add: patch_def lb)
    then show ?thesis using True inode_roundtrip [OF w] by (simp add: inode_at_def md)
  next
    case False
    note n = new [unfolded if_not_P [OF False]]
    have "take 128 (drop ?q (patch (?z * (?x ino mod k)) (inode_bytes x) ?b)) = take 128 (drop ?q ?b)"
      by (subst (1 2) win, subst n, rule refl)
    then show ?thesis using False True by (simp add: inode_at_def md)
  qed
qed

end
