(* ===== verification/Skbuff.thy ===== *)
theory Skbuff
  imports Queues Netutil
begin

text \<open>
  Packet buffers (\<^verbatim>\<open>net/skbuff.c\<close>).  The buffer is a list of bytes and the pointers
  \<^verbatim>\<open>data\<close> and \<^verbatim>\<open>tail\<close> are offsets from \<^verbatim>\<open>head\<close>, integers because \<^verbatim>\<open>skb_push\<close> does not check
  that it stays inside the buffer; \<^verbatim>\<open>end\<close> is the length of the list.  The bytes a
  fresh allocation happens to contain are a parameter.  Queues of buffers are
  intrusive linked lists over the \<^verbatim>\<open>next\<close> store of \<open>Queues\<close>.
\<close>

section \<open>Buffers\<close>

record skbuff =
  sk_buf :: "u8 list"
  sk_data :: int
  sk_tail :: int
  sk_len :: int
  sk_protocol :: u16
  sk_mac_hdr :: int
  sk_network_hdr :: int
  sk_transport_hdr :: int
  sk_src_ip :: u32
  sk_dst_ip :: u32
  sk_src_port :: u16
  sk_dst_port :: u16

abbreviation SKB_HEADROOM :: nat where "SKB_HEADROOM \<equiv> 14 + 60 + 60"

definition skb_alloc :: "(nat \<Rightarrow> u8) \<Rightarrow> nat \<Rightarrow> skbuff" where
  "skb_alloc garbage sz =
     (let total = SKB_HEADROOM + sz in
      \<lparr>sk_buf = map garbage [0..<total], sk_data = int SKB_HEADROOM, sk_tail = int SKB_HEADROOM,
       sk_len = 0, sk_protocol = 0, sk_mac_hdr = 0, sk_network_hdr = 0, sk_transport_hdr = 0,
       sk_src_ip = 0, sk_dst_ip = 0, sk_src_port = 0, sk_dst_port = 0\<rparr>)"

definition skb_push :: "nat \<Rightarrow> skbuff \<Rightarrow> skbuff" where
  "skb_push n s = s\<lparr>sk_data := sk_data s - int n, sk_len := sk_len s + int n\<rparr>"

definition skb_pull :: "nat \<Rightarrow> skbuff \<Rightarrow> skbuff" where
  "skb_pull n s =
     (let n = (if int n > sk_len s then sk_len s else int n)
      in s\<lparr>sk_data := sk_data s + n, sk_len := sk_len s - n\<rparr>)"

definition skb_put :: "nat \<Rightarrow> skbuff \<Rightarrow> skbuff \<times> int" where
  "skb_put n s = (s\<lparr>sk_tail := sk_tail s + int n, sk_len := sk_len s + int n\<rparr>, sk_tail s)"

definition skb_reserve :: "nat \<Rightarrow> skbuff \<Rightarrow> skbuff" where
  "skb_reserve n s = s\<lparr>sk_data := sk_data s + int n, sk_tail := sk_tail s + int n\<rparr>"

text \<open>\<^verbatim>\<open>memcpy\<close> of \<open>d\<close> to offset \<open>at\<close>; outside the buffer nothing is written.\<close>

definition put_bytes :: "nat \<Rightarrow> 'a list \<Rightarrow> 'a list \<Rightarrow> 'a list" where
  "put_bytes at d b = take at b @ d @ drop (at + length d) b"

definition skb_write :: "int \<Rightarrow> u8 list \<Rightarrow> skbuff \<Rightarrow> skbuff" where
  "skb_write at d s =
     (if 0 \<le> at \<and> nat at + length d \<le> length (sk_buf s)
      then s\<lparr>sk_buf := put_bytes (nat at) d (sk_buf s)\<rparr> else s)"

section \<open>Queues of buffers\<close>

record skb_queue =
  skq_list :: "nat lqueue"
  skq_count :: int

type_synonym skb_next = "nat \<Rightarrow> nat option"

definition skb_queue_init :: "skb_queue" where
  "skb_queue_init = \<lparr>skq_list = \<lparr>lq_head = None, lq_tail = None\<rparr>, skq_count = 0\<rparr>"

definition skb_queue_push :: "nat \<Rightarrow> skb_next \<times> skb_queue \<Rightarrow> skb_next \<times> skb_queue" where
  "skb_queue_push skb st =
     (let (nxt, q) = st; (nxt, l) = lq_append skb (nxt, skq_list q)
      in (nxt, q\<lparr>skq_list := l, skq_count := skq_count q + 1\<rparr>))"

definition skb_queue_pop :: "skb_next \<times> skb_queue \<Rightarrow> (skb_next \<times> skb_queue) \<times> nat option" where
  "skb_queue_pop st =
     (let (nxt, q) = st; ((nxt, l), r) = lq_take (nxt, skq_list q)
      in case r of
           None \<Rightarrow> (st, None)
         | Some skb \<Rightarrow> ((nxt, q\<lparr>skq_list := l, skq_count := skq_count q - 1\<rparr>), Some skb))"

definition skb_queue_empty :: "skb_queue \<Rightarrow> bool" where
  "skb_queue_empty q \<longleftrightarrow> lq_head (skq_list q) = None"

text \<open>\<^verbatim>\<open>skb_queue_purge\<close>: the buffers freed, in order; \<open>None\<close> if the loop never ends.\<close>

partial_function (option) skb_queue_purge ::
  "skb_next \<times> skb_queue \<Rightarrow> ((skb_next \<times> skb_queue) \<times> nat list) option" where
  "skb_queue_purge st =
     (case skb_queue_pop st of
        (st', None) \<Rightarrow> Some (st', [])
      | (st', Some skb) \<Rightarrow>
          Option.bind (skb_queue_purge st') (\<lambda>(st'', freed). Some (st'', skb # freed)))"

section \<open>Buffer lemmas\<close>

definition skb_ok :: "skbuff \<Rightarrow> bool" where
  "skb_ok s \<longleftrightarrow> 0 \<le> sk_data s \<and> sk_data s \<le> sk_tail s \<and> sk_tail s \<le> int (length (sk_buf s)) \<and>
     sk_len s = sk_tail s - sk_data s"

definition skb_bytes :: "skbuff \<Rightarrow> u8 list" where
  "skb_bytes s = take (nat (sk_len s)) (drop (nat (sk_data s)) (sk_buf s))"

lemma length_put_bytes [simp]: "at + length d \<le> length b \<Longrightarrow> length (put_bytes at d b) = length b"
  by (simp add: put_bytes_def)

lemma skb_alloc_ok: "skb_ok (skb_alloc g n)" "skb_bytes (skb_alloc g n) = []"
  by (simp_all add: skb_ok_def skb_bytes_def skb_alloc_def Let_def)

lemma skb_bytes_length: "skb_ok s \<Longrightarrow> length (skb_bytes s) = nat (sk_len s)"
  by (auto simp: skb_ok_def skb_bytes_def)

lemma skb_reserve_ok:
  "skb_ok s \<Longrightarrow> sk_tail s + int n \<le> int (length (sk_buf s)) \<Longrightarrow> skb_ok (skb_reserve n s)"
  by (simp add: skb_ok_def skb_reserve_def)

lemma skb_reserve_bytes: "sk_len s = 0 \<Longrightarrow> skb_bytes (skb_reserve n s) = []"
  by (simp add: skb_bytes_def skb_reserve_def)

lemma skb_prepend:
  assumes "skb_ok s" "int (length h) \<le> sk_data s"
  shows "skb_ok (skb_write (sk_data s - int (length h)) h (skb_push (length h) s))"
    "skb_bytes (skb_write (sk_data s - int (length h)) h (skb_push (length h) s)) = h @ skb_bytes s"
    "sk_data (skb_write (sk_data s - int (length h)) h (skb_push (length h) s)) = sk_data s - int (length h)"
proof -
  define d where "d = nat (sk_data s) - length h"
  have d: "nat (sk_data s - int (length h)) = d" "d + length h = nat (sk_data s)"
    using assms by (auto simp: d_def)
  have fit: "d + length h \<le> length (sk_buf s)" using assms d by (auto simp: skb_ok_def)
  show "skb_ok (skb_write (sk_data s - int (length h)) h (skb_push (length h) s))"
    using assms fit d by (simp add: skb_write_def skb_push_def skb_ok_def)
  show "sk_data (skb_write (sk_data s - int (length h)) h (skb_push (length h) s)) = sk_data s - int (length h)"
    by (simp add: skb_write_def skb_push_def)
  have len: "nat (sk_len s + int (length h)) = length h + nat (sk_len s)"
    using assms by (auto simp: skb_ok_def)
  have "drop d (put_bytes d h (sk_buf s)) = h @ drop (nat (sk_data s)) (sk_buf s)"
    using fit d by (simp add: put_bytes_def)
  then show "skb_bytes (skb_write (sk_data s - int (length h)) h (skb_push (length h) s)) = h @ skb_bytes s"
    using assms fit d len by (simp add: skb_bytes_def skb_write_def skb_push_def)
qed

lemma skb_append:
  assumes "skb_ok s" "sk_tail s + int (length d) \<le> int (length (sk_buf s))"
  shows "skb_ok (skb_write (sk_tail s) d (fst (skb_put (length d) s)))"
    "skb_bytes (skb_write (sk_tail s) d (fst (skb_put (length d) s))) = skb_bytes s @ d"
proof -
  have a: "nat (sk_tail s) = nat (sk_data s) + nat (sk_len s)" "nat (sk_tail s) + length d \<le> length (sk_buf s)"
    using assms by (auto simp: skb_ok_def)
  show "skb_ok (skb_write (sk_tail s) d (fst (skb_put (length d) s)))"
    using assms a by (simp add: skb_write_def skb_put_def skb_ok_def)
  have "nat (sk_len s + int (length d)) = nat (sk_len s) + length d" using assms by (auto simp: skb_ok_def)
  moreover have "drop (nat (sk_data s)) (put_bytes (nat (sk_tail s)) d (sk_buf s))
      = skb_bytes s @ d @ drop (nat (sk_tail s) + length d) (sk_buf s)"
    using a by (simp add: put_bytes_def skb_bytes_def drop_take)
  moreover have "skb_bytes (skb_write (sk_tail s) d (fst (skb_put (length d) s))) =
      take (nat (sk_len s + int (length d))) (drop (nat (sk_data s)) (put_bytes (nat (sk_tail s)) d (sk_buf s)))"
    using assms a(2) by (simp add: skb_bytes_def skb_write_def skb_put_def skb_ok_def)
  ultimately show "skb_bytes (skb_write (sk_tail s) d (fst (skb_put (length d) s))) = skb_bytes s @ d"
    using skb_bytes_length [OF assms(1)] by simp
qed

lemma skb_pull_ok:
  assumes "skb_ok s" "n \<le> length (skb_bytes s)"
  shows "skb_ok (skb_pull n s)" "skb_bytes (skb_pull n s) = drop n (skb_bytes s)"
proof -
  have n: "int n \<le> sk_len s" using assms skb_bytes_length [OF assms(1)] by (auto simp: skb_ok_def)
  then show "skb_ok (skb_pull n s)" using assms(1) by (auto simp: skb_ok_def skb_pull_def Let_def)
  have "nat (sk_len s - int n) = nat (sk_len s) - n" "nat (sk_data s + int n) = n + nat (sk_data s)"
    using assms(1) n by (auto simp: skb_ok_def)
  then show "skb_bytes (skb_pull n s) = drop n (skb_bytes s)"
    using n by (simp add: skb_bytes_def skb_pull_def Let_def drop_take)
qed

lemma skb_room:
  fixes g :: "nat \<Rightarrow> u8" and sz r :: nat
  defines "p \<equiv> skb_put sz (skb_reserve r (skb_alloc g (sz + r)))"
  shows "skb_ok (fst p)" "length (skb_bytes (fst p)) = sz" "sk_data (fst p) = 134 + int r" "snd p = 134 + int r"
  by (simp_all add: p_def skb_put_def skb_reserve_def skb_alloc_def Let_def skb_ok_def skb_bytes_def)

lemma drop_put_bytes: "n + i \<le> length b \<Longrightarrow> drop n (put_bytes (n + i) d b) = put_bytes i d (drop n b)"
  by (simp add: put_bytes_def drop_take add.commute add.left_commute)

lemma take_put_bytes:
  assumes "i + length d \<le> l" "l \<le> length b"
  shows "take l (put_bytes i d b) = put_bytes i d (take l b)"
proof -
  have "min l i = i" "min i l = i" "min (length b) i = i" "length d \<le> l - i" using assms by auto
  then have "take l (take i b @ d @ drop (i + length d) b) = take i b @ d @ take (l - (i + length d)) (drop (i + length d) b)"
    by (simp add: take_take)
  moreover have "take (l - (i + length d)) (drop (i + length d) b) = drop (i + length d) (take l b)"
    by (simp add: drop_take)
  moreover have "take i (take l b) = take i b" using assms by (simp add: min_def)
  ultimately show ?thesis by (simp add: put_bytes_def)
qed

lemma skb_write_within:
  assumes "skb_ok s" "at = sk_data s + int i" "i + length d \<le> length (skb_bytes s)"
  shows "skb_ok (skb_write at d s)" "skb_bytes (skb_write at d s) = put_bytes i d (skb_bytes s)"
    "sk_data (skb_write at d s) = sk_data s"
    "sk_src_ip (skb_write at d s) = sk_src_ip s" "sk_dst_ip (skb_write at d s) = sk_dst_ip s"
proof -
  let ?n = "nat (sk_data s)" and ?l = "nat (sk_len s)"
  have l: "length (skb_bytes s) = ?l" by (rule skb_bytes_length [OF assms(1)])
  have at: "0 \<le> at" "nat at = ?n + i" "?n + i + length d \<le> length (sk_buf s)" "?n + ?l \<le> length (sk_buf s)"
    using assms l by (auto simp: skb_ok_def)
  then have w: "skb_write at d s = s\<lparr>sk_buf := put_bytes (?n + i) d (sk_buf s)\<rparr>" by (simp add: skb_write_def)
  show "skb_ok (skb_write at d s)" using assms(1) at by (simp add: w skb_ok_def)
  show "sk_data (skb_write at d s) = sk_data s" "sk_src_ip (skb_write at d s) = sk_src_ip s"
    "sk_dst_ip (skb_write at d s) = sk_dst_ip s" by (simp_all add: w)
  have "take ?l (drop ?n (put_bytes (?n + i) d (sk_buf s))) = put_bytes i d (take ?l (drop ?n (sk_buf s)))"
    using at assms(3) l take_put_bytes [of i d ?l "drop ?n (sk_buf s)"] by (simp add: drop_put_bytes)
  then show "skb_bytes (skb_write at d s) = put_bytes i d (skb_bytes s)" by (simp add: w skb_bytes_def)
qed

lemma put_bytes_all: "length d = length b \<Longrightarrow> put_bytes 0 d b = d"
  by (simp add: put_bytes_def)

lemma skb_compose:
  fixes g :: "nat \<Rightarrow> u8" and r len :: nat and h d :: "u8 list"
  defines "p \<equiv> skb_put (8 + len) (skb_reserve r (skb_alloc g (8 + len + r)))"
  defines "s \<equiv> skb_write (snd p) h (fst p)"
  defines "t \<equiv> (if len > 0 then skb_write (snd p + 8) d s else s)"
  assumes "length h = 8" "length d = len"
  shows "skb_ok t" "skb_bytes t = h @ d" "sk_data t = 134 + int r"
proof -
  note p = skb_room [of "8 + len" r g, folded p_def]
  have h: "0 + length h \<le> length (skb_bytes (fst p))" "snd p = sk_data (fst p) + int 0" using p assms by simp_all
  note s = skb_write_within [OF p(1) h(2,1), folded s_def]
  have sb: "skb_bytes s = h @ drop 8 (skb_bytes (fst p))" "length (skb_bytes s) = 8 + len" using s p assms by (simp_all add: put_bytes_def)
  have at: "snd p + 8 = sk_data s + int 8" "8 + length d \<le> length (skb_bytes s)" using s p assms sb by simp_all
  note w = skb_write_within [OF s(1) at]
  have "put_bytes 8 d (skb_bytes s) = h @ d" using sb assms by (simp add: put_bytes_def)
  then show "skb_ok t" "sk_data t = 134 + int r" "skb_bytes t = h @ d"
    using s p w sb assms by (auto simp: t_def)
qed

section \<open>The queue as a list\<close>

definition skb_queue_ok :: "skb_next \<times> skb_queue \<Rightarrow> nat list \<Rightarrow> bool" where
  "skb_queue_ok st xs \<longleftrightarrow> lqueue_ok (fst st) (skq_list (snd st)) xs \<and> skq_count (snd st) = int (length xs)"

lemma skb_queue_init_ok: "skb_queue_ok (nxt, skb_queue_init) []"
  by (simp add: skb_queue_ok_def skb_queue_init_def lqueue_ok_def)

lemma skb_queue_push_ok:
  "skb_queue_ok st xs \<Longrightarrow> p \<notin> set xs \<Longrightarrow> skb_queue_ok (skb_queue_push p st) (xs @ [p])"
  using lq_append_ok [of "fst st" "skq_list (snd st)" xs p]
  by (auto simp: skb_queue_ok_def skb_queue_push_def split: prod.splits)

lemma skb_queue_pop_empty: "skb_queue_ok st [] \<Longrightarrow> skb_queue_pop st = (st, None)"
  using lq_take_empty [of "fst st" "skq_list (snd st)"]
  by (auto simp: skb_queue_ok_def skb_queue_pop_def split: prod.splits)

lemma skb_queue_pop_ok:
  assumes "skb_queue_ok st (x # xs)"
  shows "\<exists>st'. skb_queue_pop st = (st', Some x) \<and> skb_queue_ok st' xs"
  using assms lq_take_ok [of "fst st" "skq_list (snd st)" x xs]
  by (auto simp: skb_queue_ok_def skb_queue_pop_def split: prod.splits)

lemma skb_queue_purge_ok:
  "skb_queue_ok st xs \<Longrightarrow> \<exists>st'. skb_queue_purge st = Some (st', xs) \<and> skb_queue_ok st' []"
proof (induction xs arbitrary: st)
  case Nil then show ?case using skb_queue_pop_empty [OF Nil] by (subst skb_queue_purge.simps) simp
next
  case (Cons x xs)
  from skb_queue_pop_ok [OF Cons.prems] obtain st1 where
    st1: "skb_queue_pop st = (st1, Some x)" "skb_queue_ok st1 xs" by blast
  from Cons.IH [OF st1(2)] st1(1) show ?case by (subst skb_queue_purge.simps) auto
qed

section \<open>Properties\<close>

text \<open>The queue of packet buffers is first-in first-out and purging it terminates:
  after pushing buffers not yet queued, \<^verbatim>\<open>skb_queue_purge\<close> returns, has freed exactly
  the queued buffers once each in arrival order, and leaves the queue empty with
  count 0.\<close>

theorem skb_queue_fifo:
  assumes "skb_queue_ok st xs" "distinct (xs @ ps)"
  shows "\<exists>st'. skb_queue_purge (foldl (\<lambda>s p. skb_queue_push p s) st ps) = Some (st', xs @ ps) \<and>
    skb_queue_empty (snd st') \<and> skq_count (snd st') = 0"
proof -
  have "skb_queue_ok (foldl (\<lambda>s p. skb_queue_push p s) st ps) (xs @ ps)"
    using assms
  proof (induction ps arbitrary: st xs)
    case (Cons p ps)
    from Cons.IH [OF skb_queue_push_ok [OF Cons.prems(1), of p]] Cons.prems(2) show ?case by simp
  qed simp
  from skb_queue_purge_ok [OF this] show ?thesis
    by (auto simp: skb_queue_ok_def lqueue_ok_def skb_queue_empty_def)
qed

theorem skb_queue_fifo_witness:
  "\<exists>st'. skb_queue_purge (foldl (\<lambda>s p. skb_queue_push p s) (\<lambda>_. None, skb_queue_init) [3, 1, 2])
     = Some (st', [3, 1, 2]) \<and> skb_queue_empty (snd st')"
  using skb_queue_fifo [OF skb_queue_init_ok, of "[3, 1, 2]" "\<lambda>_. None"] by auto

end
