(* ===== verification/Net_Link.thy ===== *)
theory Net_Link
  imports Skbuff
begin

text \<open>
  The link layer: the device descriptor of \<^verbatim>\<open>drivers/net/netdev.h\<close>, Ethernet framing
  (\<^verbatim>\<open>net/ethernet.c\<close>) and the ARP cache and protocol (\<^verbatim>\<open>net/arp.c\<close>).  The driver's
  \<^verbatim>\<open>send_packet\<close> is a field of the device, as in the code's operation table: a
  function from the frame to the driver's return value.  The network state
  records the clock, the ARP cache, the statics of the upper layers, the frames
  handed to drivers and the outcomes of the next \<^verbatim>\<open>kmalloc\<close> calls.
\<close>

section \<open>Devices and network state\<close>

type_synonym mac = "u8 list"

record netdev =
  nd_id :: u32
  nd_send :: "(u8 list \<Rightarrow> int) option"
  nd_mac :: mac
  nd_ip :: u32
  nd_netmask :: u32
  nd_gateway :: u32

record arp_entry =
  ae_ip :: u32
  ae_mac :: mac
  ae_timestamp :: u64
  ae_valid :: bool

record udp_bind =
  ub_port :: u16
  ub_addr :: u32
  ub_callback :: "nat option"
  ub_ctx :: nat
  ub_active :: bool

record ping_state =
  pg_target_ip :: u32
  pg_id :: u16
  pg_last_seq :: u16
  pg_reply_received :: bool

record net =
  n_ticks :: u64
  n_arp :: "arp_entry list"
  n_ip_id :: u16
  n_sent :: "(u32 \<times> u8 list) list"
  n_km :: "bool list"
  n_udp :: "udp_bind list"
  n_eph :: u16
  n_ping :: ping_state
  n_raw :: "skbuff list option list"

definition net_kmalloc :: "net \<Rightarrow> bool \<times> net" where
  "net_kmalloc n = (case n_km n of [] \<Rightarrow> (False, n) | b # bs \<Rightarrow> (b, n\<lparr>n_km := bs\<rparr>))"

text \<open>\<^verbatim>\<open>skb_alloc\<close> makes two allocations; with either failing it returns NULL.\<close>

definition net_skb_alloc :: "(nat \<Rightarrow> u8) \<Rightarrow> nat \<Rightarrow> net \<Rightarrow> skbuff option \<times> net" where
  "net_skb_alloc garbage sz n =
     (let (ok1, n) = net_kmalloc n in
      if \<not> ok1 then (None, n)
      else let (ok2, n) = net_kmalloc n in
           if \<not> ok2 then (None, n) else (Some (skb_alloc garbage sz), n))"

definition netdev_transmit :: "netdev \<Rightarrow> u8 list \<Rightarrow> net \<Rightarrow> net \<times> int" where
  "netdev_transmit dev frame n =
     (case nd_send dev of
        None \<Rightarrow> (n, - 1)
      | Some send \<Rightarrow> (n\<lparr>n_sent := n_sent n @ [(nd_id dev, frame)]\<rparr>, send frame))"

text \<open>What \<^verbatim>\<open>netdev_rx_dispatch\<close> does with a received frame: nothing, hand the buffer to
  the registered callback, or queue it and wake the readers.\<close>

datatype rx_outcome = RxIgnored | RxCallback skbuff | RxQueued skbuff

definition netdev_rx_dispatch :: "(nat \<Rightarrow> u8) \<Rightarrow> bool \<Rightarrow> u8 list \<Rightarrow> net \<Rightarrow> net \<times> rx_outcome" where
  "netdev_rx_dispatch garbage has_callback frame n =
     (if frame = [] then (n, RxIgnored)
      else case net_skb_alloc garbage (length frame) n of
             (None, n) \<Rightarrow> (n, RxIgnored)
           | (Some skb, n) \<Rightarrow>
               let (skb, at) = skb_put (length frame) skb;
                   skb = skb_write at frame skb;
                   skb = skb\<lparr>sk_mac_hdr := sk_data skb\<rparr>
               in (n, if has_callback then RxCallback skb else RxQueued skb))"

section \<open>Ethernet\<close>

abbreviation ETH_HLEN :: nat where "ETH_HLEN \<equiv> 14"
abbreviation ETH_P_IP :: u16 where "ETH_P_IP \<equiv> 0x0800"
abbreviation ETH_P_ARP :: u16 where "ETH_P_ARP \<equiv> 0x0806"
abbreviation IP4_BROADCAST :: u32 where "IP4_BROADCAST \<equiv> 0xFFFFFFFF"

definition ETH_BROADCAST :: mac where "ETH_BROADCAST = replicate 6 0xFF"

definition eth_header :: "mac \<Rightarrow> mac \<Rightarrow> u16 \<Rightarrow> u8 list" where
  "eth_header dst src ethertype = dst @ src @ u16_bytes (htons ethertype)"

definition eth_tx :: "netdev \<Rightarrow> skbuff \<Rightarrow> mac \<Rightarrow> u16 \<Rightarrow> net \<Rightarrow> net \<times> int" where
  "eth_tx dev skb dst_mac ethertype n =
     (let skb = skb_push ETH_HLEN skb;
          skb = skb_write (sk_data skb) (eth_header dst_mac (nd_mac dev) ethertype) skb
      in netdev_transmit dev (skb_bytes skb) n)"

datatype eth_dispatch = EthDrop | EthToIp skbuff | EthToArp skbuff

definition eth_rx :: "skbuff \<Rightarrow> eth_dispatch" where
  "eth_rx skb =
     (if sk_len skb < int ETH_HLEN then EthDrop
      else
        let ethertype = ntohs (get16 (skb_bytes skb) 12);
            skb = skb\<lparr>sk_mac_hdr := sk_data skb\<rparr>;
            skb = skb_pull ETH_HLEN skb;
            skb = skb\<lparr>sk_protocol := ethertype\<rparr>
        in if ethertype = ETH_P_IP then EthToIp skb
           else if ethertype = ETH_P_ARP then EthToArp skb
           else EthDrop)"

section \<open>ARP cache\<close>

abbreviation ARP_CACHE_SIZE :: nat where "ARP_CACHE_SIZE \<equiv> 64"
abbreviation ARP_CACHE_TTL_MS :: u64 where "ARP_CACHE_TTL_MS \<equiv> 300000"

definition arp_init :: "net \<Rightarrow> net" where
  "arp_init n = n\<lparr>n_arp := replicate ARP_CACHE_SIZE
     \<lparr>ae_ip = 0, ae_mac = replicate 6 0, ae_timestamp = 0, ae_valid = False\<rparr>\<rparr>"

text \<open>The scan of \<^verbatim>\<open>cache_lookup\<close> from index \<open>i\<close>: the entry found, with the cache in
  which a stale entry has been invalidated.\<close>

fun cache_lookup :: "u32 \<Rightarrow> u64 \<Rightarrow> arp_entry list \<Rightarrow> arp_entry list \<times> arp_entry option" where
  "cache_lookup ip now [] = ([], None)"
| "cache_lookup ip now (e # es) =
     (if ae_valid e \<and> ae_ip e = ip then
        (if now - ae_timestamp e > ARP_CACHE_TTL_MS then (e\<lparr>ae_valid := False\<rparr> # es, None)
         else (e # es, Some e))
      else let (es, r) = cache_lookup ip now es in (e # es, r))"

fun arp_find_ip :: "u32 \<Rightarrow> arp_entry list \<Rightarrow> nat option" where
  "arp_find_ip ip [] = None"
| "arp_find_ip ip (e # es) = (if ae_ip e = ip then Some 0 else map_option Suc (arp_find_ip ip es))"

text \<open>Empty or oldest entry: \<open>i\<close> is the loop index over the rest of the cache.\<close>

fun arp_victim :: "arp_entry list \<Rightarrow> nat \<Rightarrow> nat \<Rightarrow> u64 \<Rightarrow> nat" where
  "arp_victim [] i best oldest = best"
| "arp_victim (e # es) i best oldest =
     (if \<not> ae_valid e then i
      else if ae_timestamp e < oldest then arp_victim es (i + 1) i (ae_timestamp e)
      else arp_victim es (i + 1) best oldest)"

definition cache_update :: "u32 \<Rightarrow> mac \<Rightarrow> u64 \<Rightarrow> arp_entry list \<Rightarrow> arp_entry list" where
  "cache_update ip m now es =
     (case arp_find_ip ip es of
        Some i \<Rightarrow> es[i := (es ! i)\<lparr>ae_mac := m, ae_timestamp := now, ae_valid := True\<rparr>]
      | None \<Rightarrow>
          es[arp_victim es 0 0 (- 1) :=
               \<lparr>ae_ip = ip, ae_mac = m, ae_timestamp = now, ae_valid = True\<rparr>])"

section \<open>ARP protocol\<close>

definition arp_header :: "u16 \<Rightarrow> mac \<Rightarrow> u32 \<Rightarrow> mac \<Rightarrow> u32 \<Rightarrow> u8 list" where
  "arp_header opcode sender_mac sender_ip target_mac target_ip =
     u16_bytes (htons 1) @ u16_bytes (htons ETH_P_IP) @ [6, 4] @ u16_bytes (htons opcode) @
     sender_mac @ u32_bytes sender_ip @ target_mac @ u32_bytes target_ip"

definition arp_send :: "(nat \<Rightarrow> u8) \<Rightarrow> netdev \<Rightarrow> u16 \<Rightarrow> mac \<Rightarrow> u32 \<Rightarrow> net \<Rightarrow> net \<times> int" where
  "arp_send garbage dev opcode target_mac target_ip n =
     (case net_skb_alloc garbage 28 n of
        (None, n) \<Rightarrow> (n, - 1)
      | (Some skb, n) \<Rightarrow>
          let (skb, at) = skb_put 28 skb;
              skb = skb_write at (arp_header opcode (nd_mac dev) (nd_ip dev) target_mac target_ip) skb;
              dst_mac = (if opcode = 2 then target_mac else ETH_BROADCAST)
          in eth_tx dev skb dst_mac ETH_P_ARP n)"

definition arp_rx :: "(nat \<Rightarrow> u8) \<Rightarrow> netdev \<Rightarrow> skbuff \<Rightarrow> net \<Rightarrow> net" where
  "arp_rx garbage dev skb n =
     (if sk_len skb < 28 then n
      else
        let b = skb_bytes skb in
        if ntohs (get16 b 0) \<noteq> 1 \<or> ntohs (get16 b 2) \<noteq> ETH_P_IP then n
        else
          let sender_mac = take 6 (drop 8 b); sender_ip = get32 b 14; target_ip = get32 b 24;
              n = n\<lparr>n_arp := cache_update sender_ip sender_mac (n_ticks n) (n_arp n)\<rparr>;
              opcode = ntohs (get16 b 6)
          in if opcode = 1 \<and> target_ip = nd_ip dev
             then fst (arp_send garbage dev 2 sender_mac sender_ip n) else n)"

definition arp_resolve :: "(nat \<Rightarrow> u8) \<Rightarrow> netdev \<Rightarrow> u32 \<Rightarrow> net \<Rightarrow> net \<times> mac option" where
  "arp_resolve garbage dev ip n =
     (if ip = IP4_BROADCAST \<or> ip = 0 then (n, Some ETH_BROADCAST)
      else
        let (es, r) = cache_lookup ip (n_ticks n) (n_arp n); n = n\<lparr>n_arp := es\<rparr>
        in case r of
             Some e \<Rightarrow> (n, Some (ae_mac e))
           | None \<Rightarrow> (fst (arp_send garbage dev 1 (replicate 6 0) ip n), None))"

definition arp_gratuitous :: "(nat \<Rightarrow> u8) \<Rightarrow> netdev \<Rightarrow> net \<Rightarrow> net" where
  "arp_gratuitous garbage dev n =
     (if nd_ip dev = 0 then n else fst (arp_send garbage dev 1 (replicate 6 0) (nd_ip dev) n))"

definition arp_add_entry :: "u32 \<Rightarrow> mac \<Rightarrow> net \<Rightarrow> net" where
  "arp_add_entry ip m n = n\<lparr>n_arp := cache_update ip m (n_ticks n) (n_arp n)\<rparr>"

definition arp_get_table :: "nat \<Rightarrow> net \<Rightarrow> arp_entry list" where
  "arp_get_table mx n = take mx (filter ae_valid (n_arp n))"

section \<open>Cache lemmas\<close>

lemma arp_find_Some: "arp_find_ip ip es = Some i \<Longrightarrow> i < length es \<and> ae_ip (es ! i) = ip \<and> (\<forall>j < i. ae_ip (es ! j) \<noteq> ip)"
  by (induction es arbitrary: i) (auto split: if_splits simp: nth_Cons split: nat.splits)

lemma arp_find_None: "arp_find_ip ip es = None \<Longrightarrow> e \<in> set es \<Longrightarrow> ae_ip e \<noteq> ip"
  by (induction es) (auto split: if_splits)

lemma arp_victim_bound: "best < i + length es \<Longrightarrow> arp_victim es i best oldest < i + length es"
proof (induction es arbitrary: i best oldest)
  case (Cons e es)
  then show ?case using Cons.IH [of i "i + 1"] Cons.IH [of best "i + 1"] by auto
qed simp

lemma cache_lookup_at:
  assumes "i < length es" "ae_valid (es ! i)" "ae_ip (es ! i) = ip" "\<forall>j < i. ae_ip (es ! j) \<noteq> ip"
    "\<not> now - ae_timestamp (es ! i) > ARP_CACHE_TTL_MS"
  shows "cache_lookup ip now es = (es, Some (es ! i))"
  using assms
proof (induction es arbitrary: i)
  case (Cons e es)
  show ?case
  proof (cases i)
    case 0 then show ?thesis using Cons.prems by auto
  next
    case (Suc j)
    have "ae_ip e \<noteq> ip" using Cons.prems(4) Suc by force
    moreover have "\<forall>k < j. ae_ip (es ! k) \<noteq> ip" using Cons.prems(4) Suc by force
    ultimately show ?thesis using Cons.IH [of j] Cons.prems Suc by auto
  qed
qed simp

lemma update_then_lookup:
  assumes "es \<noteq> []" "\<not> now' - now > ARP_CACHE_TTL_MS"
  shows "\<exists>e. cache_lookup ip now' (cache_update ip m now es) = (cache_update ip m now es, Some e) \<and> ae_mac e = m"
proof (cases "arp_find_ip ip es")
  case (Some i)
  note f = arp_find_Some [OF Some]
  have "cache_lookup ip now' (cache_update ip m now es) =
      (cache_update ip m now es, Some (cache_update ip m now es ! i))"
    using f assms by (intro cache_lookup_at) (auto simp: cache_update_def Some)
  then show ?thesis using f by (simp add: cache_update_def Some)
next
  case None
  let ?v = "arp_victim es 0 0 (- 1)"
  have v: "?v < length es" using arp_victim_bound [of 0 0 es "- 1"] assms(1) by simp
  have "\<forall>j < ?v. ae_ip (es ! j) \<noteq> ip" using arp_find_None [OF None] v by (metis nth_mem order.strict_trans)
  then have "cache_lookup ip now' (cache_update ip m now es) =
      (cache_update ip m now es, Some (cache_update ip m now es ! ?v))"
    using v assms by (intro cache_lookup_at) (auto simp: cache_update_def None)
  then show ?thesis using v by (simp add: cache_update_def None)
qed

text \<open>The victim is an invalid entry if there is one, and otherwise an oldest one.\<close>

lemma arp_victim_spec:
  assumes "\<And>j. j < length es \<Longrightarrow> ae_valid (es ! j)"
  shows "(arp_victim es i best oldest = best \<and> (\<forall>j < length es. oldest \<le> ae_timestamp (es ! j))) \<or>
    (\<exists>j < length es. arp_victim es i best oldest = i + j \<and> ae_timestamp (es ! j) < oldest \<and>
       (\<forall>k < length es. ae_timestamp (es ! j) \<le> ae_timestamp (es ! k)))"
  using assms
proof (induction es arbitrary: i best oldest)
  case (Cons e es)
  have v: "ae_valid e" "\<And>j. j < length es \<Longrightarrow> ae_valid (es ! j)" using Cons.prems by force+
  show ?case
  proof (cases "ae_timestamp e < oldest")
    case True
    from Cons.IH [OF v(2), of "i + 1" i "ae_timestamp e"] True v(1) show ?thesis
      by (auto simp: All_less_Suc2 Ex_less_Suc2 intro: order.strict_trans order.strict_implies_order)
  next
    case False
    from Cons.IH [OF v(2), of "i + 1" best oldest] False v(1) show ?thesis
      by (auto simp: All_less_Suc2 Ex_less_Suc2 not_less intro: order_trans order.strict_implies_order)
  qed
qed simp

lemma arp_victim_invalid:
  "\<exists>j < length es. \<not> ae_valid (es ! j) \<Longrightarrow>
     \<exists>j < length es. arp_victim es i best oldest = i + j \<and> \<not> ae_valid (es ! j)"
proof (induction es arbitrary: i best oldest)
  case (Cons e es)
  show ?case
  proof (cases "ae_valid e")
    case False then show ?thesis by (auto simp: Ex_less_Suc2)
  next
    case True
    then have "\<exists>j < length es. \<not> ae_valid (es ! j)" using Cons.prems by (auto simp: Ex_less_Suc2)
    then show ?thesis
      using Cons.IH [of "Suc i" i "ae_timestamp e"] Cons.IH [of "Suc i" best oldest] True by (auto simp: Ex_less_Suc2)
  qed
qed simp

section \<open>Frames on the wire\<close>

lemma length_eth_header: "length d = 6 \<Longrightarrow> length m = 6 \<Longrightarrow> length (eth_header d m t) = 14"
  by (simp add: eth_header_def)

lemma length_arp_header: "length d = 6 \<Longrightarrow> length m = 6 \<Longrightarrow> length (arp_header op d sip m tip) = 28"
  by (simp add: arp_header_def)

lemma eth_tx_frame:
  assumes "skb_ok skb" "14 \<le> sk_data skb" "length d = 6" "length (nd_mac dev) = 6" "nd_send dev = Some send"
  shows "eth_tx dev skb d t n =
    (n\<lparr>n_sent := n_sent n @ [(nd_id dev, eth_header d (nd_mac dev) t @ skb_bytes skb)]\<rparr>,
     send (eth_header d (nd_mac dev) t @ skb_bytes skb))"
proof -
  let ?h = "eth_header d (nd_mac dev) t"
  have l: "length ?h = 14" using assms by (simp add: length_eth_header)
  have "skb_bytes (skb_write (sk_data skb - int (length ?h)) ?h (skb_push (length ?h) skb)) = ?h @ skb_bytes skb"
    using assms l by (intro skb_prepend(2)) simp_all
  moreover have "sk_data (skb_push 14 skb) = sk_data skb - 14" by (simp add: skb_push_def)
  ultimately show ?thesis using assms(5) l by (simp add: eth_tx_def netdev_transmit_def Let_def)
qed

lemma net_skb_alloc_ok: "n_km n = True # True # km \<Longrightarrow> net_skb_alloc g sz n = (Some (skb_alloc g sz), n\<lparr>n_km := km\<rparr>)"
  by (simp add: net_skb_alloc_def net_kmalloc_def Let_def)

lemma skb_fill:
  fixes g assumes "length d = sz"
  defines "s \<equiv> skb_write 134 d (fst (skb_put sz (skb_alloc g sz)))"
  shows "skb_ok s" "skb_bytes s = d" "sk_data s = 134"
proof -
  let ?a = "skb_alloc g sz"
  have t: "sk_tail ?a = 134" "length (sk_buf ?a) = 134 + sz" by (simp_all add: skb_alloc_def Let_def)
  then show "skb_ok s" "skb_bytes s = d"
    using skb_append [OF skb_alloc_ok(1), of g sz d] assms(1) skb_alloc_ok(2) [of g sz] by (simp_all add: s_def)
  show "sk_data s = 134" by (simp add: s_def skb_write_def skb_put_def skb_alloc_def Let_def)
qed

lemma skb_put_tail: "skb_put sz (skb_alloc g n) = (fst (skb_put sz (skb_alloc g n)), 134)"
  by (simp add: skb_put_def skb_alloc_def Let_def)

lemma arp_send_frame:
  assumes "n_km n = True # True # km" "length tm = 6" "length (nd_mac dev) = 6" "nd_send dev = Some send"
  shows "fst (arp_send g dev op tm tip n) =
    n\<lparr>n_km := km, n_sent := n_sent n @ [(nd_id dev,
        eth_header (if op = 2 then tm else ETH_BROADCAST) (nd_mac dev) ETH_P_ARP @
        arp_header op (nd_mac dev) (nd_ip dev) tm tip)]\<rparr>"
proof -
  let ?p = "arp_header op (nd_mac dev) (nd_ip dev) tm tip"
  have l: "length ?p = 28" using assms by (simp add: length_arp_header)
  define P where "P = fst (skb_put 28 (skb_alloc g 28))"
  have put: "skb_put 28 (skb_alloc g 28) = (P, 134)" unfolding P_def by (rule skb_put_tail)
  note f = skb_fill [OF l, of g, folded P_def]
  have "length ETH_BROADCAST = 6" by (simp add: ETH_BROADCAST_def)
  then have "eth_tx dev (skb_write 134 ?p P)
      (if op = 2 then tm else ETH_BROADCAST) ETH_P_ARP (n\<lparr>n_km := km\<rparr>) =
    (n\<lparr>n_km := km, n_sent := n_sent n @ [(nd_id dev,
        eth_header (if op = 2 then tm else ETH_BROADCAST) (nd_mac dev) ETH_P_ARP @ ?p)]\<rparr>,
     send (eth_header (if op = 2 then tm else ETH_BROADCAST) (nd_mac dev) ETH_P_ARP @ ?p))"
    using eth_tx_frame [OF f(1) _ _ assms(3,4), of "if op = 2 then tm else ETH_BROADCAST" ETH_P_ARP "n\<lparr>n_km := km\<rparr>"] f assms
    by simp
  then show ?thesis
    by (simp only: arp_send_def net_skb_alloc_ok [OF assms(1)] Let_def prod.case option.case
        put fst_conv)
qed

definition link_input :: "(nat \<Rightarrow> u8) \<Rightarrow> netdev \<Rightarrow> u8 list \<Rightarrow> net \<Rightarrow> net" where
  "link_input g dev frame n =
     (case netdev_rx_dispatch g True frame n of
        (n, RxCallback skb) \<Rightarrow>
          (case eth_rx skb of EthToArp skb \<Rightarrow> arp_rx g dev skb n | _ \<Rightarrow> n)
      | (n, _) \<Rightarrow> n)"

lemma eth_rx_dispatch:
  assumes "skb_ok s" "skb_bytes s = eth_header d m t @ p" "length d = 6" "length m = 6"
  shows "\<exists>s'. skb_ok s' \<and> skb_bytes s' = p \<and>
    eth_rx s = (if t = ETH_P_IP then EthToIp s' else if t = ETH_P_ARP then EthToArp s' else EthDrop)"
proof -
  have l: "length (eth_header d m t) = 14" using assms by (simp add: length_eth_header)
  have len: "sk_len s = int (14 + length p)"
    using skb_bytes_length [OF assms(1)] assms(1,2) l by (auto simp: skb_ok_def)
  have "get16 (skb_bytes s) 12 = htons t"
    using get16_append [of "d @ m" 12 "u16_bytes (htons t) @ p" 0] get16_bytes [of "htons t" p] assms
    by (simp add: eth_header_def)
  moreover define s1 where "s1 = skb_pull 14 (s\<lparr>sk_mac_hdr := sk_data s\<rparr>)"
  have ok: "skb_ok (s\<lparr>sk_mac_hdr := x\<rparr>)" "skb_bytes (s\<lparr>sk_mac_hdr := x\<rparr>) = skb_bytes s" for x
    using assms(1) by (simp_all add: skb_ok_def skb_bytes_def)
  have s1: "skb_ok s1" "skb_bytes s1 = p"
    using skb_pull_ok [OF ok(1), of 14] assms(2) l by (simp_all add: s1_def ok)
  moreover have "skb_ok (s1\<lparr>sk_protocol := x\<rparr>)" "skb_bytes (s1\<lparr>sk_protocol := x\<rparr>) = skb_bytes s1" for x
    using s1(1) by (simp_all add: skb_ok_def skb_bytes_def)
  ultimately show ?thesis using len
    by (intro exI [of _ "s1\<lparr>sk_protocol := t\<rparr>"]) (simp add: eth_rx_def Let_def s1_def)
qed

lemma arp_fields:
  fixes op :: u16 and sip tip :: u32 and sm tm :: mac
  assumes "length sm = 6" "length tm = 6"
  defines "b \<equiv> arp_header op sm sip tm tip"
  shows "get16 b 0 = htons 1" "get16 b 2 = htons ETH_P_IP" "get16 b 6 = htons op"
    "take 6 (drop 8 b) = sm" "get32 b 14 = sip" "get32 b 24 = tip"
proof -
  let ?p2 = "u16_bytes (htons 1)" and ?p4 = "u16_bytes (htons 1) @ u16_bytes (htons ETH_P_IP)"
  let ?p6 = "?p4 @ [6, 4]"
  let ?p8 = "?p6 @ u16_bytes (htons op)"
  let ?p14 = "?p8 @ sm"
  let ?p24 = "?p14 @ u32_bytes sip @ tm"
  show "get16 b 0 = htons 1" unfolding b_def arp_header_def by (rule get16_bytes)
  show "get16 b 2 = htons ETH_P_IP"
    using get16_append [of ?p2 2 "u16_bytes (htons ETH_P_IP) @ [6, 4] @ u16_bytes (htons op) @ sm @ u32_bytes sip @ tm @ u32_bytes tip" 0]
    by (simp add: b_def arp_header_def get16_bytes)
  show "get16 b 6 = htons op"
    using get16_append [of ?p6 6 "u16_bytes (htons op) @ sm @ u32_bytes sip @ tm @ u32_bytes tip" 0]
    by (simp add: b_def arp_header_def get16_bytes)
  show "take 6 (drop 8 b) = sm"
    using assms by (simp add: b_def arp_header_def u16_bytes_def)
  show "get32 b 14 = sip"
    using get32_append [of ?p14 14 "u32_bytes sip @ tm @ u32_bytes tip" 0] assms
    by (simp add: b_def arp_header_def get32_bytes)
  show "get32 b 24 = tip"
    using get32_append [of ?p24 24 "u32_bytes tip @ []" 0] assms get32_bytes [of tip "[]"]
    by (simp add: b_def arp_header_def)
qed

lemma arp_rx_packet:
  assumes "skb_ok s" "skb_bytes s = arp_header op sm sip tm tip" "length sm = 6" "length tm = 6"
  shows "arp_rx g dev s n =
    (let n1 = n\<lparr>n_arp := cache_update sip sm (n_ticks n) (n_arp n)\<rparr>
     in if op = 1 \<and> tip = nd_ip dev then fst (arp_send g dev 2 sm sip n1) else n1)"
proof -
  have "sk_len s = 28"
    using skb_bytes_length [OF assms(1)] assms by (auto simp: skb_ok_def length_arp_header)
  then show ?thesis using assms by (simp add: arp_rx_def arp_fields Let_def)
qed

lemma link_input_arp:
  assumes "n_km n = True # True # km" "length d = 6" "length m = 6" "length sm = 6" "length tm = 6"
  shows "link_input g dev (eth_header d m ETH_P_ARP @ arp_header op sm sip tm tip) n =
    (let n1 = n\<lparr>n_km := km, n_arp := cache_update sip sm (n_ticks n) (n_arp n)\<rparr>
     in if op = 1 \<and> tip = nd_ip dev then fst (arp_send g dev 2 sm sip n1) else n1)"
proof -
  let ?f = "eth_header d m ETH_P_ARP @ arp_header op sm sip tm tip"
  define P where "P = fst (skb_put (length ?f) (skb_alloc g (length ?f)))"
  have put: "skb_put (length ?f) (skb_alloc g (length ?f)) = (P, 134)" unfolding P_def by (rule skb_put_tail)
  note f = skb_fill [OF refl, of ?f g, folded P_def]
  define s where "s = (skb_write 134 ?f P)\<lparr>sk_mac_hdr := 134\<rparr>"
  have s: "skb_ok s" "skb_bytes s = ?f" using f by (simp_all add: s_def skb_ok_def skb_bytes_def)
  have "?f \<noteq> []" using assms by (auto simp: eth_header_def u16_bytes_def)
  then have disp: "netdev_rx_dispatch g True ?f n = (n\<lparr>n_km := km\<rparr>, RxCallback s)"
    by (simp only: netdev_rx_dispatch_def net_skb_alloc_ok [OF assms(1)] put prod.case option.case Let_def if_True if_False f(3) s_def)
  from eth_rx_dispatch [OF s assms(2,3)] obtain s' where
    s': "skb_ok s'" "skb_bytes s' = arp_header op sm sip tm tip" "eth_rx s = EthToArp s'" by auto
  show ?thesis
    unfolding link_input_def disp using s'(3) arp_rx_packet [OF s'(1,2) assms(4,5), of g dev "n\<lparr>n_km := km\<rparr>"]
    by (simp add: Let_def)
qed

lemma cache_lookup_length: "length (fst (cache_lookup ip now es)) = length es"
  by (induction es) (auto split: prod.splits)

section \<open>Properties\<close>

text \<open>The ARP cache returns what was last stored for an address for as long as the
  entry is fresh, and storing evicts no valid entry while an invalid one exists,
  and otherwise only an entry no other is older than.\<close>

theorem arp_cache_store:
  assumes "es \<noteq> []" "\<not> now' - now > ARP_CACHE_TTL_MS"
  shows "(\<exists>e. snd (cache_lookup ip now' (cache_update ip m now es)) = Some e \<and> ae_mac e = m) \<and>
    (\<forall>j < length es. ae_valid (es ! j) \<and> ae_ip (es ! j) \<noteq> ip \<and> cache_update ip m now es ! j \<noteq> es ! j \<longrightarrow>
       (\<forall>k < length es. ae_valid (es ! k) \<and> ae_timestamp (es ! j) \<le> ae_timestamp (es ! k)))"
proof (intro conjI allI impI)
  show "\<exists>e. snd (cache_lookup ip now' (cache_update ip m now es)) = Some e \<and> ae_mac e = m"
    using update_then_lookup [OF assms, of ip m] by auto
next
  let ?v = "arp_victim es 0 0 (- 1)"
  fix j k assume j: "j < length es"
    "ae_valid (es ! j) \<and> ae_ip (es ! j) \<noteq> ip \<and> cache_update ip m now es ! j \<noteq> es ! j" and k: "k < length es"
  have none: "arp_find_ip ip es = None"
  proof (rule ccontr)
    assume "arp_find_ip ip es \<noteq> None"
    then obtain i where i: "arp_find_ip ip es = Some i" by blast
    then show False using j arp_find_Some [OF i] by (cases "i = j") (auto simp: cache_update_def)
  qed
  then have v: "?v = j" using j by (cases "?v = j") (auto simp: cache_update_def)
  have all: "ae_valid (es ! i)" if "i < length es" for i
    using arp_victim_invalid [of es 0 0 "- 1"] that v j by auto
  show "ae_valid (es ! k)" using all k by simp
  from arp_victim_spec [OF all, of 0 0 "- 1"] v j k
  show "ae_timestamp (es ! j) \<le> ae_timestamp (es ! k)"
    by (auto intro: order_trans [OF word_order.extremum])
qed

definition arp_full_example :: "arp_entry list" where
  "arp_full_example = [\<lparr>ae_ip = 1, ae_mac = replicate 6 1, ae_timestamp = 50, ae_valid = True\<rparr>,
                       \<lparr>ae_ip = 2, ae_mac = replicate 6 2, ae_timestamp = 40, ae_valid = True\<rparr>]"

theorem arp_cache_store_witness:
  "\<exists>e. snd (cache_lookup 9 100 (cache_update 9 (replicate 6 9) 60 arp_full_example)) = Some e \<and>
     ae_mac e = replicate 6 9"
  using arp_cache_store [of arp_full_example 100 60 9 "replicate 6 9"]
  by (simp add: arp_full_example_def)

text \<open>C12: one ARP exchange resolves a neighbour.  When host A resolves an address it
  has no entry for, the frame it sends makes the host B that owns the address
  answer, and B's answer makes A's next attempt return B's hardware address.\<close>

theorem arp_exchange_resolves:
  assumes "nd_ip devB = ip" "ip \<noteq> 0" "ip \<noteq> IP4_BROADCAST"
    "snd (cache_lookup ip (n_ticks nA) (n_arp nA)) = None" "n_arp nA \<noteq> []"
    "length (nd_mac devA) = 6" "length (nd_mac devB) = 6" "nd_send devA = Some sA" "nd_send devB = Some sB"
    "n_km nA = True # True # True # True # kA" "n_km nB = True # True # True # True # kB"
  shows "let (nA1, r1) = arp_resolve gA devA ip nA;
             nB1 = link_input gB devB (snd (last (n_sent nA1))) nB;
             nA2 = link_input gA devA (snd (last (n_sent nB1))) nA1
         in r1 = None \<and> snd (arp_resolve gA devA ip nA2) = Some (nd_mac devB)"
proof -
  obtain es where es: "cache_lookup ip (n_ticks nA) (n_arp nA) = (es, None)"
    using assms(4) by (metis prod.collapse)
  have "length es = length (n_arp nA)"
    using cache_lookup_length [of ip "n_ticks nA" "n_arp nA"] es by simp
  then have ne: "es \<noteq> []" using assms(5) by auto
  let ?req = "eth_header ETH_BROADCAST (nd_mac devA) ETH_P_ARP @ arp_header 1 (nd_mac devA) (nd_ip devA) (replicate 6 0) ip"
  let ?rep = "eth_header (nd_mac devA) (nd_mac devB) ETH_P_ARP @ arp_header 2 (nd_mac devB) ip (nd_mac devA) (nd_ip devA)"
  have bc: "length ETH_BROADCAST = 6" by (simp add: ETH_BROADCAST_def)
  define nA1 where "nA1 = nA\<lparr>n_arp := es, n_km := True # True # kA, n_sent := n_sent nA @ [(nd_id devA, ?req)]\<rparr>"
  have r1: "arp_resolve gA devA ip nA = (nA1, None)"
    using arp_send_frame [of "nA\<lparr>n_arp := es\<rparr>" "True # True # kA" "replicate 6 0" devA sA gA 1 ip] assms es
    by (simp add: arp_resolve_def nA1_def)
  have rep: "snd (last (n_sent (link_input gB devB ?req nB))) = ?rep"
    using link_input_arp [OF assms(11) bc assms(6) assms(6), of "replicate 6 0" gB devB 1 "nd_ip devA" ip]
      arp_send_frame [of "nB\<lparr>n_km := True # True # kB, n_arp := cache_update (nd_ip devA) (nd_mac devA) (n_ticks nB) (n_arp nB)\<rparr>"
        kB "nd_mac devA" devB sB gB 2 "nd_ip devA"] assms
    by (simp add: Let_def)
  have "link_input gA devA ?rep nA1 =
      nA1\<lparr>n_km := kA, n_arp := cache_update ip (nd_mac devB) (n_ticks nA1) (n_arp nA1)\<rparr>"
    using link_input_arp [of nA1 kA "nd_mac devA" "nd_mac devB" "nd_mac devB" "nd_mac devA" gA devA 2 ip "nd_ip devA"] assms
    by (simp add: nA1_def Let_def)
  moreover obtain e where "cache_lookup ip (n_ticks nA) (cache_update ip (nd_mac devB) (n_ticks nA) es) =
      (cache_update ip (nd_mac devB) (n_ticks nA) es, Some e)" "ae_mac e = nd_mac devB"
    using update_then_lookup [OF ne, of "n_ticks nA" "n_ticks nA" ip "nd_mac devB"] by auto
  ultimately have "snd (arp_resolve gA devA ip (link_input gA devA ?rep nA1)) = Some (nd_mac devB)"
    using assms(2,3) by (simp add: arp_resolve_def nA1_def)
  moreover have "snd (last (n_sent nA1)) = ?req" by (simp add: nA1_def)
  ultimately show ?thesis by (simp add: r1 rep)
qed

definition net_example :: "bool list \<Rightarrow> net" where
  "net_example km = arp_init \<lparr>n_ticks = 1000, n_arp = [], n_ip_id = 1, n_sent = [], n_km = km, n_udp = [], n_eph = 49152,
     n_ping = \<lparr>pg_target_ip = 0, pg_id = 0, pg_last_seq = 0, pg_reply_received = False\<rparr>, n_raw = []\<rparr>"

definition dev_example :: "u32 \<Rightarrow> u8 \<Rightarrow> netdev" where
  "dev_example ip b = \<lparr>nd_id = 1, nd_send = Some (\<lambda>_. 0), nd_mac = [2, 0, 0, 0, 0, b], nd_ip = ip,
     nd_netmask = 0x00FFFFFF, nd_gateway = 0x0100000A\<rparr>"

lemma cache_lookup_invalid: "\<forall>e \<in> set es. \<not> ae_valid e \<Longrightarrow> cache_lookup ip now es = (es, None)"
  by (induction es) auto

theorem arp_exchange_resolves_witness:
  "let devA = dev_example 0x0F02000A 7; devB = dev_example 0x0202000A 8;
       (nA1, r1) = arp_resolve (\<lambda>_. 0) devA 0x0202000A (net_example [True, True, True, True]);
       nB1 = link_input (\<lambda>_. 0) devB (snd (last (n_sent nA1))) (net_example [True, True, True, True]);
       nA2 = link_input (\<lambda>_. 0) devA (snd (last (n_sent nB1))) nA1
   in r1 = None \<and> snd (arp_resolve (\<lambda>_. 0) devA 0x0202000A nA2) = Some [2, 0, 0, 0, 0, 8]"
  using arp_exchange_resolves [where devB = "dev_example 0x0202000A 8" and ip = "0x0202000A"
      and nA = "net_example [True, True, True, True]" and devA = "dev_example 0x0F02000A 7" and sA = "\<lambda>_. 0"
      and sB = "\<lambda>_. 0" and kA = "[]" and nB = "net_example [True, True, True, True]" and kB = "[]"
      and gA = "\<lambda>_. 0" and gB = "\<lambda>_. 0"]
  by (simp add: dev_example_def net_example_def arp_init_def cache_lookup_invalid Let_def)

end
