(* ===== verification/Ip4.thy ===== *)
theory Ip4
  imports Net_Link
begin

text \<open>
  The network layer: routing, reception and transmission of IPv4 packets
  (\<^verbatim>\<open>net/ipv4.c\<close>).  Reception returns where the packet goes instead of calling the
  transport layer; transmission threads the network state, and what happens
  while it sleeps between two ARP attempts is the argument \<open>env\<close>.
\<close>

section \<open>Routing\<close>

fun route_onlink :: "u32 \<Rightarrow> netdev list \<Rightarrow> netdev option" where
  "route_onlink dst [] = None"
| "route_onlink dst (dev # devs) =
     (if nd_ip dev = 0 then route_onlink dst devs
      else if dst AND nd_netmask dev = nd_ip dev AND nd_netmask dev then Some dev
      else route_onlink dst devs)"

fun route_gateway :: "netdev list \<Rightarrow> netdev option" where
  "route_gateway [] = None"
| "route_gateway (dev # devs) = (if nd_gateway dev = 0 then route_gateway devs else Some dev)"

definition ip_route :: "u32 \<Rightarrow> netdev list \<Rightarrow> (netdev \<times> u32) option" where
  "ip_route dst_ip devs =
     (case route_onlink dst_ip devs of
        Some dev \<Rightarrow> Some (dev, dst_ip)
      | None \<Rightarrow> (case route_gateway devs of
                   Some dev \<Rightarrow> Some (dev, nd_gateway dev)
                 | None \<Rightarrow> None))"

section \<open>Headers\<close>

text \<open>The twenty header bytes; \<open>csum\<close> is the checksum field as stored.\<close>

definition ip_header :: "u16 \<Rightarrow> u16 \<Rightarrow> u8 \<Rightarrow> u16 \<Rightarrow> u32 \<Rightarrow> u32 \<Rightarrow> u8 list" where
  "ip_header total_len ident protocol csum src dst =
     [0x45, 0] @ u16_bytes (htons total_len) @ u16_bytes (htons ident) @ u16_bytes (htons 0x4000) @
     [64, protocol] @ u16_bytes csum @ u32_bytes src @ u32_bytes dst"

definition ip_build :: "u16 \<Rightarrow> u16 \<Rightarrow> u8 \<Rightarrow> u32 \<Rightarrow> u32 \<Rightarrow> u8 list" where
  "ip_build total_len ident protocol src dst =
     ip_header total_len ident protocol (inet_checksum (ip_header total_len ident protocol 0 src dst)) src dst"

section \<open>Reception\<close>

datatype ip_dispatch = IpDrop | ToIcmp skbuff | ToUdp skbuff | ToTcp skbuff

definition ip_accepts :: "netdev \<Rightarrow> u32 \<Rightarrow> bool" where
  "ip_accepts dev dst \<longleftrightarrow>
     \<not> (dst \<noteq> nd_ip dev \<and> dst \<noteq> IP4_BROADCAST \<and> dst \<noteq> 0 \<and>
        dst AND nd_netmask dev \<noteq> IP4_BROADCAST AND nd_netmask dev)"

definition ip_rx :: "netdev \<Rightarrow> skbuff \<Rightarrow> ip_dispatch" where
  "ip_rx dev skb =
     (if sk_len skb < 20 then IpDrop
      else
        let b = skb_bytes skb; ihl_ver = b ! 0; version = drop_bit 4 ihl_ver AND 0x0F;
            hdr_len = unat (ihl_ver AND 0x0F) * 4
        in if version \<noteq> 4 then IpDrop
           else if hdr_len < 20 \<or> int hdr_len > sk_len skb then IpDrop
           else if inet_checksum (put_bytes 10 [0, 0] (take hdr_len b)) \<noteq> get16 b 10 then IpDrop
           else if \<not> ip_accepts dev (get32 b 16) then IpDrop
           else
             let ip_total = unat (ntohs (get16 b 2)) in
             if ip_total < hdr_len \<or> int ip_total > sk_len skb then IpDrop
             else
               let skb = (if sk_len skb > int ip_total
                          then skb\<lparr>sk_len := int ip_total, sk_tail := sk_data skb + int ip_total\<rparr> else skb);
                   skb = skb\<lparr>sk_src_ip := get32 b 12, sk_dst_ip := get32 b 16, sk_network_hdr := sk_data skb\<rparr>;
                   skb = skb_pull hdr_len skb;
                   skb = skb\<lparr>sk_transport_hdr := sk_data skb\<rparr>;
                   protocol = b ! 9
               in if protocol = 1 then ToIcmp skb
                  else if protocol = 17 then ToUdp skb
                  else if protocol = 6 then ToTcp skb
                  else IpDrop)"

section \<open>Transmission\<close>

definition next_hop :: "netdev \<Rightarrow> u32 \<Rightarrow> u32" where
  "next_hop dev dst_ip =
     (if dst_ip AND nd_netmask dev = nd_ip dev AND nd_netmask dev then dst_ip else nd_gateway dev)"

definition is_broadcast :: "netdev \<Rightarrow> u32 \<Rightarrow> bool" where
  "is_broadcast dev dst_ip \<longleftrightarrow>
     dst_ip = IP4_BROADCAST \<or> dst_ip = (nd_ip dev AND nd_netmask dev) OR NOT (nd_netmask dev)"

text \<open>\<^verbatim>\<open>while (arp_resolve(...) < 0 && --tries > 0) sched_sleep(50);\<close>\<close>

fun arp_retry :: "(nat \<Rightarrow> net \<Rightarrow> net) \<Rightarrow> (nat \<Rightarrow> u8) \<Rightarrow> netdev \<Rightarrow> u32 \<Rightarrow> nat \<Rightarrow> net \<Rightarrow> net \<times> mac option" where
  "arp_retry env g dev hop 0 n = (n, None)"
| "arp_retry env g dev hop (Suc tries) n =
     (case arp_resolve g dev hop n of
        (n, Some m) \<Rightarrow> (n, Some m)
      | (n, None) \<Rightarrow> if tries > 0 then arp_retry env g dev hop tries (env tries n) else (n, None))"

definition ip_tx :: "(nat \<Rightarrow> net \<Rightarrow> net) \<Rightarrow> (nat \<Rightarrow> u8) \<Rightarrow> netdev \<Rightarrow> skbuff \<Rightarrow> u32 \<Rightarrow> u32 \<Rightarrow> u8 \<Rightarrow> net \<Rightarrow> net \<times> int" where
  "ip_tx env g dev skb src_ip dst_ip protocol n =
     (let skb = skb_push 20 skb;
          skb = skb_write (sk_data skb)
                  (ip_build (word_of_int (sk_len skb)) (n_ip_id n) protocol src_ip dst_ip) skb;
          n = n\<lparr>n_ip_id := n_ip_id n + 1\<rparr>
      in if is_broadcast dev dst_ip then eth_tx dev skb ETH_BROADCAST ETH_P_IP n
         else case arp_retry env g dev (next_hop dev dst_ip) 3 n of
                (n, None) \<Rightarrow> (n, - 1)
              | (n, Some m) \<Rightarrow> eth_tx dev skb m ETH_P_IP n)"

section \<open>Header lemmas\<close>

lemma length_ip_header [simp]: "length (ip_header tot ident p c s d) = 20"
  by (simp add: ip_header_def)

lemma length_ip_build [simp]: "length (ip_build tot ident p s d) = 20"
  by (simp add: ip_build_def)

lemma ip_header_fields:
  fixes tot ident c :: u16 and p :: u8 and s d :: u32
  defines "h \<equiv> ip_header tot ident p c s d"
  shows "(h @ r) ! 0 = 0x45" "(h @ r) ! 9 = p" "get16 (h @ r) 2 = htons tot" "get16 (h @ r) 10 = c"
    "get32 (h @ r) 12 = s" "get32 (h @ r) 16 = d"
proof -
  let ?a = "u16_bytes (htons tot)" and ?b = "u16_bytes (htons ident)" and ?c = "u16_bytes (htons 0x4000)"
  have h: "h @ r = [0x45, 0] @ ?a @ ?b @ ?c @ [64, p] @ u16_bytes c @ u32_bytes s @ u32_bytes d @ r"
    by (simp add: h_def ip_header_def)
  show "(h @ r) ! 0 = 0x45" "(h @ r) ! 9 = p" unfolding h by (simp_all add: u16_bytes_def)
  show "get16 (h @ r) 2 = htons tot"
    unfolding h using get16_append [of "[0x45, 0]" 2 _ 0] by (simp add: get16_bytes)
  show "get16 (h @ r) 10 = c"
    unfolding h using get16_append [of "[0x45, 0] @ ?a @ ?b @ ?c @ [64, p]" 10 _ 0] by (simp add: get16_bytes)
  show "get32 (h @ r) 12 = s"
    unfolding h using get32_append [of "[0x45, 0] @ ?a @ ?b @ ?c @ [64, p] @ u16_bytes c" 12 _ 0]
    by (simp add: get32_bytes)
  show "get32 (h @ r) 16 = d"
    unfolding h using get32_append [of "[0x45, 0] @ ?a @ ?b @ ?c @ [64, p] @ u16_bytes c @ u32_bytes s" 16 _ 0]
    by (simp add: get32_bytes)
qed

lemma ip_header_zero_csum:
  "put_bytes 10 [0, 0] (ip_header tot ident p c s d) = ip_header tot ident p 0 s d"
  by (simp add: put_bytes_def ip_header_def u16_bytes_def)

definition ip_deliver :: "u8 \<Rightarrow> skbuff \<Rightarrow> ip_dispatch" where
  "ip_deliver p skb = (if p = 1 then ToIcmp skb else if p = 17 then ToUdp skb else if p = 6 then ToTcp skb else IpDrop)"

definition ip_checks :: "netdev \<Rightarrow> skbuff \<Rightarrow> nat \<Rightarrow> nat \<Rightarrow> bool" where
  "ip_checks dev skb hl tot \<longleftrightarrow> 20 \<le> sk_len skb \<and> drop_bit 4 (skb_bytes skb ! 0) AND 0x0F = 4 \<and>
     20 \<le> hl \<and> hl \<le> tot \<and> int tot \<le> sk_len skb \<and> ip_accepts dev (get32 (skb_bytes skb) 16) \<and>
     inet_checksum (put_bytes 10 [0, 0] (take hl (skb_bytes skb))) = get16 (skb_bytes skb) 10"

lemma ip_rx_guards:
  assumes "ip_rx dev skb \<noteq> IpDrop"
  shows "ip_checks dev skb (unat (skb_bytes skb ! 0 AND 0x0F) * 4) (unat (ntohs (get16 (skb_bytes skb) 2)))"
proof (rule ccontr)
  assume "\<not> ?thesis"
  then have "ip_rx dev skb = IpDrop" unfolding ip_checks_def ip_rx_def Let_def de_Morgan_conj
    by (elim disjE) simp_all
  with assms show False by simp
qed

definition ip_strip :: "skbuff \<Rightarrow> nat \<Rightarrow> nat \<Rightarrow> skbuff" where
  "ip_strip skb hl tot =
     (let b = skb_bytes skb;
          skb = (if sk_len skb > int tot
                 then skb\<lparr>sk_len := int tot, sk_tail := sk_data skb + int tot\<rparr> else skb);
          skb = skb_pull hl (skb\<lparr>sk_src_ip := get32 b 12, sk_dst_ip := get32 b 16, sk_network_hdr := sk_data skb\<rparr>)
      in skb\<lparr>sk_transport_hdr := sk_data skb\<rparr>)"

lemma ip_rx_accepted:
  fixes skb :: skbuff
  defines "hl \<equiv> unat (skb_bytes skb ! 0 AND 0x0F) * 4" and "tot \<equiv> unat (ntohs (get16 (skb_bytes skb) 2))"
  assumes "ip_checks dev skb hl tot"
  shows "ip_rx dev skb = ip_deliver (skb_bytes skb ! 9) (ip_strip skb hl tot)"
proof -
  have "\<not> sk_len skb < 20" "\<not> int hl > sk_len skb" using assms(3) by (auto simp: ip_checks_def)
  with assms(3) show ?thesis
    unfolding ip_checks_def ip_rx_def Let_def ip_strip_def ip_deliver_def hl_def [symmetric] tot_def [symmetric]
    by (elim conjE) (simp add: not_less)
qed

lemma ip_strip_ok:
  assumes "skb_ok skb" "hl \<le> tot" "int tot \<le> sk_len skb"
  defines "s' \<equiv> ip_strip skb hl tot" and "b \<equiv> skb_bytes skb"
  shows "skb_ok s'" "skb_bytes s' = drop hl (take tot b)" "sk_src_ip s' = get32 b 12" "sk_dst_ip s' = get32 b 16"
proof -
  have len: "sk_len skb = int (length b)"
    using skb_bytes_length [OF assms(1)] assms(1) by (auto simp: b_def skb_ok_def)
  define s1 where "s1 = (if sk_len skb > int tot
    then skb\<lparr>sk_len := int tot, sk_tail := sk_data skb + int tot\<rparr> else skb)"
  define s2 where "s2 = s1\<lparr>sk_src_ip := get32 b 12, sk_dst_ip := get32 b 16, sk_network_hdr := sk_data s1\<rparr>"
  define s3 where "s3 = skb_pull hl s2"
  have s': "s' = s3\<lparr>sk_transport_hdr := sk_data s3\<rparr>"
    by (simp only: s'_def ip_strip_def Let_def s3_def s2_def s1_def b_def)
  have "skb_bytes s1 = take tot b" if "sk_len skb > int tot"
    using that by (simp add: s1_def skb_bytes_def b_def)
  moreover have "skb_bytes s1 = take tot b" if "\<not> sk_len skb > int tot"
    using that assms(3) len by (simp add: s1_def b_def [symmetric])
  ultimately have s1: "skb_ok s1" "skb_bytes s1 = take tot b"
    using assms(1,3) by (auto simp: s1_def skb_ok_def)
  have s2: "skb_ok s2" "skb_bytes s2 = take tot b" "sk_src_ip s2 = get32 b 12" "sk_dst_ip s2 = get32 b 16"
    using s1 by (simp_all add: s2_def skb_ok_def skb_bytes_def)
  have "hl \<le> length (skb_bytes s2)" using assms(2,3) len by (simp add: s2)
  note pull = skb_pull_ok [OF s2(1) this, folded s3_def]
  show "skb_ok s'" "skb_bytes s' = drop hl (take tot b)" "sk_src_ip s' = get32 b 12" "sk_dst_ip s' = get32 b 16"
    using pull s2 by (simp_all add: s' s3_def skb_pull_def Let_def skb_ok_def skb_bytes_def)
qed

lemma ip_rx_accept:
  assumes "skb_ok skb" "skb_bytes skb = ip_build tot ident p s d @ payload @ pad"
    "unat tot = 20 + length payload" "ip_accepts dev d"
  shows "\<exists>s'. skb_ok s' \<and> skb_bytes s' = payload \<and> sk_src_ip s' = s \<and> sk_dst_ip s' = d \<and>
    ip_rx dev skb = ip_deliver p s'"
proof -
  let ?c = "inet_checksum (ip_header tot ident p 0 s d)"
  let ?b = "skb_bytes skb"
  have b: "?b = ip_header tot ident p ?c s d @ payload @ pad" using assms(2) by (simp add: ip_build_def)
  note f = ip_header_fields [of tot ident p ?c s d "payload @ pad", folded b]
  have len: "sk_len skb = int (20 + length payload + length pad)"
    using skb_bytes_length [OF assms(1)] assms(1) b by (auto simp: skb_ok_def)
  have csum: "inet_checksum (put_bytes 10 [0, 0] (take 20 ?b)) = ?c" by (simp add: b ip_header_zero_csum)
  have c: "ip_checks dev skb 20 (unat tot)"
    using len assms(3,4) csum by (simp add: ip_checks_def f)
  then have "ip_rx dev skb = ip_deliver p (ip_strip skb 20 (unat tot))"
    using ip_rx_accepted [of dev skb] by (simp add: f)
  moreover have "drop 20 (take (unat tot) ?b) = payload" using assms(3) by (simp add: b)
  ultimately show ?thesis
    using ip_strip_ok [OF assms(1), of 20 "unat tot"] c f by (auto simp: ip_checks_def)
qed

definition ip_input :: "(nat \<Rightarrow> u8) \<Rightarrow> netdev \<Rightarrow> u8 list \<Rightarrow> net \<Rightarrow> net \<times> ip_dispatch" where
  "ip_input g dev frame n =
     (case netdev_rx_dispatch g True frame n of
        (n, RxCallback skb) \<Rightarrow> (n, case eth_rx skb of EthToIp skb \<Rightarrow> ip_rx dev skb | _ \<Rightarrow> IpDrop)
      | (n, _) \<Rightarrow> (n, IpDrop))"

lemma ip_input_packet:
  assumes "n_km n = True # True # km" "length d = 6" "length m = 6" "ip_accepts dev dip"
    "unat tot = 20 + length payload"
  shows "\<exists>s'. skb_ok s' \<and> skb_bytes s' = payload \<and> sk_src_ip s' = sip \<and> sk_dst_ip s' = dip \<and>
    ip_input g dev (eth_header d m ETH_P_IP @ ip_build tot ident p sip dip @ payload @ pad) n =
      (n\<lparr>n_km := km\<rparr>, ip_deliver p s')"
proof -
  let ?f = "eth_header d m ETH_P_IP @ ip_build tot ident p sip dip @ payload @ pad"
  define P where "P = fst (skb_put (length ?f) (skb_alloc g (length ?f)))"
  have put: "skb_put (length ?f) (skb_alloc g (length ?f)) = (P, 134)" unfolding P_def by (rule skb_put_tail)
  note f = skb_fill [OF refl, of ?f g, folded P_def]
  define s where "s = (skb_write 134 ?f P)\<lparr>sk_mac_hdr := 134\<rparr>"
  have s: "skb_ok s" "skb_bytes s = ?f" using f by (simp_all add: s_def skb_ok_def skb_bytes_def)
  have "?f \<noteq> []" using assms by (auto simp: eth_header_def u16_bytes_def)
  then have disp: "netdev_rx_dispatch g True ?f n = (n\<lparr>n_km := km\<rparr>, RxCallback s)"
    by (simp only: netdev_rx_dispatch_def net_skb_alloc_ok [OF assms(1)] put prod.case option.case Let_def if_True if_False f(3) s_def)
  from eth_rx_dispatch [OF s assms(2,3)] obtain s' where
    s': "skb_ok s'" "skb_bytes s' = ip_build tot ident p sip dip @ payload @ pad" "eth_rx s = EthToIp s'" by auto
  from ip_rx_accept [OF s'(1,2) assms(5,4)] s'(3) show ?thesis
    unfolding ip_input_def disp by simp
qed

definition ip_resolved :: "(nat \<Rightarrow> net \<Rightarrow> net) \<Rightarrow> (nat \<Rightarrow> u8) \<Rightarrow> netdev \<Rightarrow> u32 \<Rightarrow> net \<Rightarrow> net \<times> mac option" where
  "ip_resolved env g dev dst n =
     (if is_broadcast dev dst then (n, Some ETH_BROADCAST) else arp_retry env g dev (next_hop dev dst) 3 n)"

lemma ip_tx_frame:
  fixes sip :: u32 and p :: u8
  assumes "skb_ok skb" "34 \<le> sk_data skb" "length (nd_mac dev) = 6" "nd_send dev = Some send"
    "ip_resolved env g dev dip (n\<lparr>n_ip_id := n_ip_id n + 1\<rparr>) = (n1, Some m)" "length m = 6"
  defines "pkt \<equiv> ip_build (word_of_nat (length (skb_bytes skb) + 20)) (n_ip_id n) p sip dip @ skb_bytes skb"
  shows "ip_tx env g dev skb sip dip p n =
    (n1\<lparr>n_sent := n_sent n1 @ [(nd_id dev, eth_header m (nd_mac dev) ETH_P_IP @ pkt)]\<rparr>,
     send (eth_header m (nd_mac dev) ETH_P_IP @ pkt))"
proof -
  define s1 where "s1 = skb_push 20 skb"
  have len: "sk_len s1 = int (length (skb_bytes skb) + 20)" and dat: "sk_data s1 = sk_data skb - 20"
    using skb_bytes_length [OF assms(1)] assms(1) by (auto simp: s1_def skb_push_def skb_ok_def)
  define h where "h = ip_build (word_of_int (sk_len s1)) (n_ip_id n) p sip dip"
  have h: "length h = 20" "h @ skb_bytes skb = pkt" by (simp_all add: h_def pkt_def len)
  define s2 where "s2 = skb_write (sk_data s1) h s1"
  have "int (length h) \<le> sk_data skb" using h assms(2) by simp
  note pp = skb_prepend [OF assms(1) this]
  have s2: "skb_ok s2" "skb_bytes s2 = pkt" "14 \<le> sk_data s2"
    using pp assms(2) by (simp_all add: h s2_def dat s1_def [symmetric])
  have eth: "eth_tx dev s2 m ETH_P_IP n1 =
    (n1\<lparr>n_sent := n_sent n1 @ [(nd_id dev, eth_header m (nd_mac dev) ETH_P_IP @ pkt)]\<rparr>,
     send (eth_header m (nd_mac dev) ETH_P_IP @ pkt))"
    using eth_tx_frame [OF s2(1,3) assms(6,3,4)] by (simp add: s2)
  show ?thesis
  proof (cases "is_broadcast dev dip")
    case True
    then have "n1 = n\<lparr>n_ip_id := n_ip_id n + 1\<rparr>" "m = ETH_BROADCAST" using assms(5) by (simp_all add: ip_resolved_def)
    then show ?thesis using eth True unfolding ip_tx_def Let_def s1_def [symmetric] h_def [symmetric] s2_def [symmetric]
      by simp
  next
    case False
    then show ?thesis using eth assms(5) unfolding ip_tx_def Let_def s1_def [symmetric] h_def [symmetric] s2_def [symmetric]
      by (simp add: ip_resolved_def)
  qed
qed

text \<open>The host's cache holds the hardware address \<open>m\<close> of the next hop to \<open>dip\<close>.\<close>

definition arp_known :: "netdev \<Rightarrow> u32 \<Rightarrow> mac \<Rightarrow> net \<Rightarrow> bool" where
  "arp_known dev dip m n \<longleftrightarrow> \<not> is_broadcast dev dip \<and> next_hop dev dip \<noteq> 0 \<and> next_hop dev dip \<noteq> IP4_BROADCAST \<and>
     (\<exists>e. cache_lookup (next_hop dev dip) (n_ticks n) (n_arp n) = (n_arp n, Some e) \<and> ae_mac e = m)"

lemma arp_known_resolves:
  assumes "arp_known dev dip m n" "n_arp n' = n_arp n" "n_ticks n' = n_ticks n"
  shows "ip_resolved env g dev dip n' = (n', Some m)"
proof -
  have "n'\<lparr>n_arp := n_arp n\<rparr> = n'" using assms(2) by (metis net.surjective net.update_convs(2))
  then show ?thesis using assms
    by (auto simp: arp_known_def ip_resolved_def arp_resolve_def numeral_3_eq_3)
qed

lemma ip_tx_known:
  assumes "skb_ok skb" "34 \<le> sk_data skb" "length (nd_mac dev) = 6" "nd_send dev = Some send"
    "arp_known dev dip m n0" "length m = 6" "n_arp n = n_arp n0" "n_ticks n = n_ticks n0"
  shows "fst (ip_tx env g dev skb sip dip p n) = n\<lparr>n_ip_id := n_ip_id n + 1, n_sent := n_sent n @
    [(nd_id dev, eth_header m (nd_mac dev) ETH_P_IP @
       ip_build (word_of_nat (length (skb_bytes skb) + 20)) (n_ip_id n) p sip dip @ skb_bytes skb)]\<rparr>"
proof -
  have "ip_resolved env g dev dip (n\<lparr>n_ip_id := n_ip_id n + 1\<rparr>) = (n\<lparr>n_ip_id := n_ip_id n + 1\<rparr>, Some m)"
    by (rule arp_known_resolves [OF assms(5)]) (use assms in simp_all)
  from ip_tx_frame [OF assms(1-4) this assms(6)] show ?thesis by simp
qed

text \<open>C10: a packet handed to \<^verbatim>\<open>ip_tx\<close> with room for its headers, and whose next hop
  resolves, comes out of the receiver's stack unchanged: the frame the sender
  transmits, with any padding a link adds, passes the receiver's Ethernet and IPv4
  checks (checksum, version, lengths) and reaches the protocol's handler with exactly
  the payload that was sent and with the sender's source and destination addresses.\<close>

theorem ip_tx_rx_roundtrip:
  assumes "skb_ok skb" "34 \<le> sk_data skb" "length (skb_bytes skb) \<le> 65515"
    "length (nd_mac devA) = 6" "nd_send devA = Some send"
    "ip_resolved env gA devA dip (nA\<lparr>n_ip_id := n_ip_id nA + 1\<rparr>) = (n1, Some m)" "length m = 6"
    "ip_accepts devB dip" "n_km nB = True # True # km"
  shows "\<exists>s'. skb_ok s' \<and> skb_bytes s' = skb_bytes skb \<and> sk_src_ip s' = sip \<and> sk_dst_ip s' = dip \<and>
    ip_input gB devB (snd (last (n_sent (fst (ip_tx env gA devA skb sip dip p nA)))) @ pad) nB =
      (nB\<lparr>n_km := km\<rparr>, ip_deliver p s')"
proof -
  have "unat (word_of_nat (length (skb_bytes skb) + 20) :: u16) = 20 + length (skb_bytes skb)"
    using assms(3) by (simp only: unat_of_nat) (simp add: take_bit_eq_mod)
  from ip_input_packet [OF assms(9,7,4,8) this, where sip = sip and p = p and ident = "n_ip_id nA" and g = gB and pad = pad]
  show ?thesis by (simp add: ip_tx_frame [OF assms(1,2,4,5,6,7)])
qed

definition skb_example :: "u8 list \<Rightarrow> skbuff" where
  "skb_example d = skb_write 134 d (fst (skb_put (length d) (skb_alloc (\<lambda>_. 0) (length d))))"

lemmas skb_example_facts = skb_fill [OF refl, of _ "\<lambda>_. 0", folded skb_example_def]

definition net_known_example :: net where
  "net_known_example = (net_example [])\<lparr>n_arp :=
     [\<lparr>ae_ip = 0x0202000A, ae_mac = [2, 0, 0, 0, 0, 8], ae_timestamp = 900, ae_valid = True\<rparr>]\<rparr>"

theorem ip_tx_rx_roundtrip_witness:
  "\<exists>s'. skb_ok s' \<and> skb_bytes s' = [1, 2, 3] \<and> sk_src_ip s' = 0x0F02000A \<and> sk_dst_ip s' = 0x0202000A \<and>
     ip_input (\<lambda>_. 0) (dev_example 0x0202000A 8)
       (snd (last (n_sent (fst (ip_tx (\<lambda>_ n. n) (\<lambda>_. 0) (dev_example 0x0F02000A 7) (skb_example [1, 2, 3])
          0x0F02000A 0x0202000A 17 net_known_example)))) @ [0, 0, 0, 0]) (net_example [True, True]) =
     (net_example [], ip_deliver 17 s')"
proof -
  let ?n = "net_known_example\<lparr>n_ip_id := n_ip_id net_known_example + 1\<rparr>"
  have r: "ip_resolved (\<lambda>_ n. n) (\<lambda>_. 0) (dev_example 0x0F02000A 7) 0x0202000A ?n = (?n, Some [2, 0, 0, 0, 0, 8])"
    by (simp add: ip_resolved_def is_broadcast_def next_hop_def dev_example_def net_known_example_def net_example_def
        arp_init_def arp_resolve_def numeral_3_eq_3)
  have a: "ip_accepts (dev_example 0x0202000A 8) 0x0202000A" by (simp add: ip_accepts_def dev_example_def)
  have "(net_example [True, True])\<lparr>n_km := []\<rparr> = net_example []" "n_km (net_example [True, True]) = True # True # []"
    by (simp_all add: net_example_def arp_init_def)
  then show ?thesis
    using ip_tx_rx_roundtrip [OF skb_example_facts(1) _ _ _ _ r _ a, of "[1, 2, 3]" "\<lambda>_. 0" "net_example [True, True]" "[]"
        "0x0F02000A" "\<lambda>_. 0" 17 "[0, 0, 0, 0]"] skb_example_facts [of "[1, 2, 3]"]
    by (simp add: dev_example_def)
qed

text \<open>C11: reception is safe on arbitrary input.  If \<^verbatim>\<open>ip_rx\<close> passes a packet on, its
  header length and total length lie within the received bytes, its checksum is
  right and it is addressed to this host; and what the protocol's handler sees is
  exactly the declared payload, never padding and never bytes outside the buffer.\<close>

theorem ip_rx_sound:
  fixes skb :: skbuff
  defines "b \<equiv> skb_bytes skb"
  defines "hl \<equiv> unat (b ! 0 AND 0x0F) * 4" and "tot \<equiv> unat (ntohs (get16 b 2))"
  assumes "skb_ok skb" "ip_rx dev skb \<noteq> IpDrop"
  shows "20 \<le> hl \<and> hl \<le> tot \<and> tot \<le> length b \<and> ip_accepts dev (get32 b 16) \<and>
    inet_checksum (put_bytes 10 [0, 0] (take hl b)) = get16 b 10 \<and>
    (\<exists>s'. ip_rx dev skb = ip_deliver (b ! 9) s' \<and> skb_ok s' \<and> skb_bytes s' = drop hl (take tot b) \<and>
       sk_src_ip s' = get32 b 12 \<and> sk_dst_ip s' = get32 b 16)"
proof -
  have len: "sk_len skb = int (length b)"
    using skb_bytes_length [OF assms(4)] assms(4) by (auto simp: b_def skb_ok_def)
  note g = ip_rx_guards [OF assms(5), folded b_def, folded hl_def tot_def]
  then have "hl \<le> tot" "int tot \<le> sk_len skb" by (simp_all add: ip_checks_def)
  with g ip_strip_ok [OF assms(4) this] ip_rx_accepted [of dev skb, folded b_def, folded hl_def tot_def] show ?thesis
    unfolding ip_checks_def b_def [symmetric] len by auto
qed

lemma ip_rx_example:
  "ip_rx (dev_example 0x0202000A 8) (skb_example (ip_build 23 1 17 0x0F02000A 0x0202000A @ [1, 2, 3] @ [0, 0])) \<noteq> IpDrop"
  using ip_rx_accept [OF skb_example_facts(1,2), where tot = 23 and ident = 1 and p = 17 and s = "0x0F02000A" and d = "0x0202000A"
      and payload = "[1, 2, 3]" and pad = "[0, 0]" and dev = "dev_example 0x0202000A 8"]
  by (auto simp: ip_accepts_def dev_example_def ip_deliver_def)

theorem ip_rx_sound_witness:
  "let skb = skb_example (ip_build 23 1 17 0x0F02000A 0x0202000A @ [1, 2, 3] @ [0, 0]); b = skb_bytes skb;
       hl = unat (b ! 0 AND 0x0F) * 4; tot = unat (ntohs (get16 b 2))
   in 20 \<le> hl \<and> hl \<le> tot \<and> tot \<le> length b \<and>
      (\<exists>s'. ip_rx (dev_example 0x0202000A 8) skb = ip_deliver (b ! 9) s' \<and> skb_bytes s' = drop hl (take tot b))"
  unfolding Let_def using ip_rx_sound [OF skb_example_facts(1) ip_rx_example] by blast

text \<open>a packet for the subnet's directed broadcast address is dropped on reception,
  although transmission treats that same address as a broadcast: the test in
  \<^verbatim>\<open>ip_rx\<close> compares the network part of the destination with all ones, so it can
  only succeed where the network part itself is all ones.\<close>

theorem ip_rx_drops_directed_broadcast:
  assumes "dip = (nd_ip dev AND nd_netmask dev) OR NOT (nd_netmask dev)"
    "nd_ip dev AND nd_netmask dev \<noteq> nd_netmask dev" "dip \<noteq> nd_ip dev" "dip \<noteq> 0"
    "get32 (skb_bytes skb) 16 = dip"
  shows "is_broadcast dev dip \<and> ip_rx dev skb = IpDrop"
proof -
  have ff: "IP4_BROADCAST = - 1" by simp
  have m: "IP4_BROADCAST AND w = w" for w :: u32 unfolding ff by simp
  have "dip AND nd_netmask dev = nd_ip dev AND nd_netmask dev"
    unfolding assms(1) by (rule bit_word_eqI) (auto simp: bit_simps)
  then have "dip AND nd_netmask dev \<noteq> nd_netmask dev" using assms(2) by simp
  moreover from this have "dip \<noteq> IP4_BROADCAST" using m by metis
  ultimately have "\<not> ip_accepts dev dip" using assms(3,4) m by (simp add: ip_accepts_def)
  then have "ip_rx dev skb = IpDrop" using assms(5) by (simp add: ip_rx_def Let_def)
  then show ?thesis using assms(1) by (simp add: is_broadcast_def)
qed

theorem ip_rx_drops_directed_broadcast_witness:
  "is_broadcast (dev_example 0x0202000A 8) 0xFF02000A \<and>
   ip_rx (dev_example 0x0202000A 8) (skb_example (ip_build 20 1 17 0x0F02000A 0xFF02000A)) = IpDrop"
proof (rule ip_rx_drops_directed_broadcast)
  show "get32 (skb_bytes (skb_example (ip_build 20 1 17 0x0F02000A 0xFF02000A))) 16 = 0xFF02000A"
    using ip_header_fields(6) [of 20 1 17 _ "0x0F02000A" "0xFF02000A" "[]"]
    by (simp add: skb_example_facts ip_build_def)
qed (simp_all add: dev_example_def)

end
