(* ===== verification/Udp.thy ===== *)
theory Udp
  imports Ip4
begin

text \<open>
  UDP (\<^verbatim>\<open>net/udp.c\<close>): the table of bound ports, ephemeral ports, reception and
  transmission.  Reception returns the call it makes of the bound callback.
\<close>

abbreviation UDP_MAX_BINDS :: nat where "UDP_MAX_BINDS \<equiv> 64"
abbreviation IPPROTO_UDP :: u8 where "IPPROTO_UDP \<equiv> 17"

section \<open>Bound ports\<close>

definition udp_bind_zero :: udp_bind where
  "udp_bind_zero = \<lparr>ub_port = 0, ub_addr = 0, ub_callback = None, ub_ctx = 0, ub_active = False\<rparr>"

definition udp_init :: "net \<Rightarrow> net" where
  "udp_init n = n\<lparr>n_udp := replicate UDP_MAX_BINDS udp_bind_zero\<rparr>"

definition port_bound :: "u16 \<Rightarrow> udp_bind list \<Rightarrow> bool" where
  "port_bound port bs \<longleftrightarrow> list_ex (\<lambda>b. ub_active b \<and> ub_port b = port) bs"

fun bind_slot :: "udp_bind \<Rightarrow> udp_bind list \<Rightarrow> udp_bind list option" where
  "bind_slot e [] = None"
| "bind_slot e (b # bs) = (if \<not> ub_active b then Some (e # bs) else map_option ((#) b) (bind_slot e bs))"

definition udp_bind_port :: "u16 \<Rightarrow> u32 \<Rightarrow> nat option \<Rightarrow> nat \<Rightarrow> net \<Rightarrow> net \<times> int" where
  "udp_bind_port port addr cb ctx n =
     (if port_bound port (n_udp n) then (n, - 1)
      else case bind_slot \<lparr>ub_port = port, ub_addr = addr, ub_callback = cb, ub_ctx = ctx, ub_active = True\<rparr> (n_udp n) of
             Some bs \<Rightarrow> (n\<lparr>n_udp := bs\<rparr>, 0)
           | None \<Rightarrow> (n, - 1))"

fun unbind_slot :: "u16 \<Rightarrow> udp_bind list \<Rightarrow> udp_bind list" where
  "unbind_slot port [] = []"
| "unbind_slot port (b # bs) =
     (if ub_active b \<and> ub_port b = port then b\<lparr>ub_active := False\<rparr> # bs else b # unbind_slot port bs)"

definition udp_unbind_port :: "u16 \<Rightarrow> net \<Rightarrow> net" where
  "udp_unbind_port port n = n\<lparr>n_udp := unbind_slot port (n_udp n)\<rparr>"

text \<open>The counter is sixteen bits wide, so that the wrap test of the source never fires.\<close>

definition eph_next :: "u16 \<Rightarrow> u16" where
  "eph_next p = (let p = p + 1 in if p > 65535 then 49152 else p)"

lemma eph_next_wraps: "eph_next p = p + 1"
proof -
  have "\<not> (65535 :: u16) < q" for q using unat_lt16 [of q] by (simp add: word_less_nat_alt)
  then show ?thesis by (simp add: eph_next_def Let_def)
qed

function eph_scan :: "(u16 \<Rightarrow> bool) \<Rightarrow> u16 \<Rightarrow> u16 \<Rightarrow> u16 \<times> u16" where
  "eph_scan used start nxt =
     (let port = nxt; nxt = eph_next nxt
      in if \<not> used port then (nxt, port)
         else if nxt = start then (nxt, 0)
         else eph_scan used start nxt)"
  by pat_completeness auto

termination eph_scan
proof (relation "measure (\<lambda>(used, start, nxt). unat (start - nxt - 1))", simp, goal_cases)
  case (1 used start nxt port nxt')
  then have "nxt + 1 \<noteq> start" by (simp add: eph_next_wraps)
  then have "start - nxt - 1 \<noteq> 0" by (metis diff_eq_eq add.commute add.left_neutral)
  then have "unat (start - nxt - 1) \<noteq> 0" by (simp add: unat_eq_0)
  moreover have "unat (start - nxt - 1 - 1) = unat (start - nxt - 1) - 1"
    by (rule unat_minus_one) fact
  moreover have "start - (nxt + 1) - 1 = start - nxt - 1 - 1" by simp
  ultimately show ?case using 1 by (simp only: eph_next_wraps in_measure split_conv)
qed

declare eph_scan.simps [simp del]

definition udp_alloc_ephemeral :: "net \<Rightarrow> net \<times> u16" where
  "udp_alloc_ephemeral n = (let (nxt, port) = eph_scan (\<lambda>p. port_bound p (n_udp n)) (n_eph n) (n_eph n) in (n\<lparr>n_eph := nxt\<rparr>, port))"

section \<open>Datagrams\<close>

definition udp_header :: "u16 \<Rightarrow> u16 \<Rightarrow> u16 \<Rightarrow> u16 \<Rightarrow> u8 list" where
  "udp_header src_port dst_port len csum =
     u16_bytes (htons src_port) @ u16_bytes (htons dst_port) @ u16_bytes (htons len) @ u16_bytes csum"

definition pseudo_header :: "u32 \<Rightarrow> u32 \<Rightarrow> u8 \<Rightarrow> u16 \<Rightarrow> u8 list" where
  "pseudo_header src dst protocol len = u32_bytes src @ u32_bytes dst @ [0, protocol] @ u16_bytes (htons len)"

definition udp_checksum :: "u32 \<Rightarrow> u32 \<Rightarrow> u8 list \<Rightarrow> u16" where
  "udp_checksum src_ip dst_ip seg =
     inet_checksum_fold (inet_checksum_partial (pseudo_header src_ip dst_ip IPPROTO_UDP (of_nat (length seg))) +
       inet_checksum_partial seg)"

text \<open>What \<^verbatim>\<open>udp_rx\<close> does with a packet: free it, or call the callback of a binding.\<close>

record udp_call =
  uc_cb :: nat
  uc_ctx :: nat
  uc_src_ip :: u32
  uc_src_port :: u16
  uc_dst_ip :: u32
  uc_dst_port :: u16
  uc_payload :: "u8 list"

datatype udp_outcome = UdpFreed | UdpCallback udp_call

definition udp_match :: "u32 \<Rightarrow> u16 \<Rightarrow> udp_bind \<Rightarrow> bool" where
  "udp_match dst_ip dst_port b \<longleftrightarrow>
     ub_active b \<and> ub_port b = dst_port \<and> \<not> (ub_addr b \<noteq> 0 \<and> ub_addr b \<noteq> dst_ip)"

definition udp_rx :: "skbuff \<Rightarrow> net \<Rightarrow> udp_outcome" where
  "udp_rx skb n =
     (if sk_len skb < 8 then UdpFreed
      else
        let b = skb_bytes skb; src_port = ntohs (get16 b 0); dst_port = ntohs (get16 b 2);
            udp_len = unat (ntohs (get16 b 4))
        in if udp_len < 8 \<or> int udp_len > sk_len skb then UdpFreed
           else if get16 b 6 \<noteq> 0 \<and> udp_checksum (sk_src_ip skb) (sk_dst_ip skb) (take udp_len b) \<noteq> 0 then UdpFreed
           else case List.find (udp_match (sk_dst_ip skb) dst_port) (n_udp n) of
                  None \<Rightarrow> UdpFreed
                | Some e \<Rightarrow>
                    (case ub_callback e of
                       None \<Rightarrow> UdpFreed
                     | Some cb \<Rightarrow> UdpCallback \<lparr>uc_cb = cb, uc_ctx = ub_ctx e, uc_src_ip = sk_src_ip skb,
                         uc_src_port = src_port, uc_dst_ip = sk_dst_ip skb, uc_dst_port = dst_port,
                         uc_payload = drop 8 (take udp_len b)\<rparr>))"

definition udp_tx :: "(nat \<Rightarrow> net \<Rightarrow> net) \<Rightarrow> (nat \<Rightarrow> u8) \<Rightarrow> netdev \<Rightarrow> u32 \<Rightarrow> u16 \<Rightarrow> u16 \<Rightarrow> u8 list option \<Rightarrow>
    nat \<Rightarrow> net \<Rightarrow> net \<times> int" where
  "udp_tx env g dev dst_ip src_port dst_port data len n =
     (let udp_total = 8 + len in
      if udp_total > 65535 then (n, - 1)
      else case net_skb_alloc g (udp_total + 128) n of
             (None, n) \<Rightarrow> (n, - 1)
           | (Some skb, n) \<Rightarrow>
               let skb = skb_reserve 128 skb;
                   (skb, buf) = skb_put udp_total skb;
                   skb = skb_write buf (udp_header src_port dst_port (of_nat udp_total) 0) skb;
                   skb = (case data of
                            Some d \<Rightarrow> if len > 0 then skb_write (buf + 8) (take len d) skb else skb
                          | None \<Rightarrow> skb);
                   src_ip = nd_ip dev;
                   csum = udp_checksum src_ip dst_ip (skb_bytes skb);
                   csum = (if csum = 0 then 0xFFFF else csum);
                   skb = skb_write (buf + 6) (u16_bytes csum) skb;
                   skb = skb\<lparr>sk_protocol := ucast IPPROTO_UDP\<rparr>
               in ip_tx env g dev skb src_ip dst_ip IPPROTO_UDP n)"

section \<open>The table of bound ports\<close>

definition binds_ok :: "udp_bind list \<Rightarrow> bool" where
  "binds_ok bs \<longleftrightarrow> distinct (map ub_port (filter ub_active bs))"

lemma port_bound_iff: "port_bound p bs \<longleftrightarrow> p \<in> ub_port ` set (filter ub_active bs)"
  by (auto simp: port_bound_def list_ex_iff)

lemma bind_slot_Some:
  assumes "bind_slot e bs = Some bs'" "ub_active e"
  shows "\<exists>xs b ys. bs = xs @ b # ys \<and> \<not> ub_active b \<and> bs' = xs @ e # ys \<and> (\<forall>x \<in> set xs. ub_active x)"
  using assms
proof (induction bs arbitrary: bs')
  case (Cons b bs)
  show ?case
  proof (cases "ub_active b")
    case False
    then have "bs' = e # bs" using Cons.prems by simp
    then show ?thesis using False by (intro exI [of _ "[]"]) auto
  next
    case True
    then obtain cs where "bind_slot e bs = Some cs" "bs' = b # cs" using Cons.prems by auto
    with Cons.IH [OF this(1) Cons.prems(2)] True obtain xs c ys where
      "bs = xs @ c # ys" "\<not> ub_active c" "cs = xs @ e # ys" "\<forall>x \<in> set xs. ub_active x" by auto
    with True \<open>bs' = b # cs\<close> show ?thesis by (intro exI [of _ "b # xs"] exI [of _ c] exI [of _ ys]) simp
  qed
qed simp

lemma bind_slot_None: "bind_slot e bs = None \<longleftrightarrow> (\<forall>b \<in> set bs. ub_active b)"
  by (induction bs) auto

lemma unbind_slot_active:
  "set (filter ub_active (unbind_slot p bs)) \<subseteq> set (filter ub_active bs)"
  by (induction bs) auto

lemma unbind_slot_ok:
  "binds_ok bs \<Longrightarrow> binds_ok (unbind_slot p bs) \<and> \<not> port_bound p (unbind_slot p bs)"
proof (induction bs)
  case (Cons b bs)
  then have ok: "binds_ok bs" by (auto simp: binds_ok_def split: if_splits)
  show ?case
  proof (cases "ub_active b \<and> ub_port b = p")
    case True
    then have "p \<notin> ub_port ` set (filter ub_active bs)" using Cons.prems by (simp add: binds_ok_def)
    then show ?thesis using True ok by (simp add: binds_ok_def port_bound_iff)
  next
    case False
    have "b' \<in> set (filter ub_active bs)" if "b' \<in> set (filter ub_active (unbind_slot p bs))" for b'
      using that unbind_slot_active [of p bs] by blast
    then have "ub_port b \<notin> ub_port ` set (filter ub_active (unbind_slot p bs))" if "ub_active b"
      using Cons.prems that by (fastforce simp: binds_ok_def)
    then show ?thesis using False Cons.IH [OF ok] by (auto simp: binds_ok_def port_bound_iff)
  qed
qed (simp add: binds_ok_def port_bound_iff)

lemma find_bound:
  "binds_ok bs \<Longrightarrow> e \<in> set bs \<Longrightarrow> udp_match ip p e \<Longrightarrow> List.find (udp_match ip p) bs = Some e"
proof (induction bs)
  case (Cons b bs)
  show ?case
  proof (cases "udp_match ip p b")
    case True
    then have "ub_active b" "ub_port b = p" "ub_active e" "ub_port e = p" using Cons.prems(3) by (simp_all add: udp_match_def)
    moreover from this have "p \<notin> ub_port ` set (filter ub_active bs)" using Cons.prems(1) by (simp add: binds_ok_def)
    ultimately have "e \<notin> set bs" using imageI [of e "set (filter ub_active bs)" ub_port] by auto
    then have "b = e" using Cons.prems(2) by simp
    then show ?thesis using True by simp
  next
    case False
    then have "e \<in> set bs" using Cons.prems by auto
    moreover have "binds_ok bs" using Cons.prems(1) by (auto simp: binds_ok_def split: if_splits)
    ultimately show ?thesis using Cons.IH Cons.prems(3) False by simp
  qed
qed simp

lemma find_unbound: "\<not> port_bound p bs \<Longrightarrow> List.find (udp_match ip p) bs = None"
  by (auto simp: find_None_iff port_bound_iff udp_match_def)

section \<open>Ephemeral ports\<close>

lemma eph_scan_result:
  "eph_scan used start nxt = (x, p) \<Longrightarrow> \<not> used p \<or>
     (\<forall>k \<le> unat (start - nxt - 1). used (nxt + of_nat k))"
proof (induction used start nxt rule: eph_scan.induct)
  case (1 used start nxt)
  consider "\<not> used nxt" | "used nxt" "nxt + 1 = start" | "used nxt" "nxt + 1 \<noteq> start" by blast
  then show ?case
  proof cases
    case 1 with "1.prems" show ?thesis by (simp add: eph_scan.simps [of used start nxt] Let_def)
  next
    case 2
    then have "start - nxt - 1 = 0" by auto
    then show ?thesis using 2(1) by simp
  next
    case 3
    then have "eph_scan used start (nxt + 1) = (x, p)"
      using "1.prems" by (simp add: eph_scan.simps [of used start nxt] Let_def eph_next_wraps)
    with "1.IH" [OF refl refl] 3 consider "\<not> used p" |
      "\<forall>k \<le> unat (start - (nxt + 1) - 1). used (nxt + 1 + of_nat k)"
      by (auto simp: eph_next_wraps)
    then show ?thesis
    proof cases
      case 2
      have ne: "start - nxt - 1 \<noteq> 0" using 3(2) by (metis diff_eq_eq add.commute add.left_neutral)
      have "start - (nxt + 1) - 1 = start - nxt - 1 - 1" by simp
      then have u: "unat (start - (nxt + 1) - 1) = unat (start - nxt - 1) - 1"
        using unat_minus_one [OF ne] by metis
      have "used (nxt + of_nat k)" if "k \<le> unat (start - nxt - 1)" for k
      proof (cases k)
        case (Suc j)
        then have "j \<le> unat (start - (nxt + 1) - 1)" using that unfolding u by simp
        then show ?thesis using 2 Suc by (simp add: add.assoc)
      qed (simp add: 3)
      then show ?thesis by blast
    qed simp
  qed
qed

lemma eph_scan_fresh:
  assumes "card {p. used p} < 65536" "eph_scan used start start = (x, p)"
  shows "\<not> used p"
proof (rule ccontr)
  assume "\<not> ?thesis"
  then have all: "\<forall>k \<le> unat (start - start - 1). used (start + of_nat k)" using eph_scan_result [OF assms(2)] by simp
  have "unat (start - start - 1) = 65535" by (simp add: unsigned_minus_1_eq_mask mask_eq_exp_minus_1)
  moreover have "start + of_nat (unat (q - start)) = q" for q by simp
  moreover have "unat (q - start) \<le> 65535" for q using unat_lt16 [of "q - start"] by simp
  ultimately have "used q" for q using all by (metis (no_types))
  then have "{p. used p} = (UNIV :: u16 set)" by auto
  then show False using assms(1) by (simp add: card_word)
qed

lemma ports_fewer: "length bs < 65536 \<Longrightarrow> card {p. port_bound p bs} < 65536"
proof -
  assume "length bs < 65536"
  have "{p. port_bound p bs} = ub_port ` set (filter ub_active bs)" by (auto simp: port_bound_iff)
  then have "card {p. port_bound p bs} \<le> card (set (filter ub_active bs))" by (simp only: card_image_le [OF finite_set])
  also have "\<dots> \<le> length (filter ub_active bs)" by (rule card_length)
  also have "\<dots> \<le> length bs" by simp
  finally show ?thesis using \<open>length bs < 65536\<close> by simp
qed

lemma length_udp_header [simp]: "length (udp_header sp dp l c) = 8"
  by (simp add: udp_header_def)

lemma udp_header_csum: "put_bytes 6 (u16_bytes c) (udp_header sp dp l 0 @ d) = udp_header sp dp l c @ d"
  by (simp add: udp_header_def put_bytes_def u16_bytes_def)

lemma udp_header_fields:
  fixes sp dp l c :: u16
  defines "h \<equiv> udp_header sp dp l c"
  shows "get16 (h @ r) 0 = htons sp" "get16 (h @ r) 2 = htons dp" "get16 (h @ r) 4 = htons l" "get16 (h @ r) 6 = c"
proof -
  let ?a = "u16_bytes (htons sp)" and ?b = "u16_bytes (htons dp)" and ?c = "u16_bytes (htons l)"
  have h: "h @ r = ?a @ ?b @ ?c @ u16_bytes c @ r" by (simp add: h_def udp_header_def)
  show "get16 (h @ r) 0 = htons sp" unfolding h by (rule get16_bytes)
  show "get16 (h @ r) 2 = htons dp" unfolding h using get16_append [of ?a 2 _ 0] by (simp add: get16_bytes)
  show "get16 (h @ r) 4 = htons l" unfolding h using get16_append [of "?a @ ?b" 4 _ 0] by (simp add: get16_bytes)
  show "get16 (h @ r) 6 = c" unfolding h using get16_append [of "?a @ ?b @ ?c" 6 _ 0] by (simp add: get16_bytes)
qed

lemma udp_words:
  "words_sum (udp_header sp dp l c @ d) = words_sum (udp_header sp dp l 0 @ d) + unat c"
  by (simp add: udp_header_def words_sum_append words_sum_field)

lemma length_pseudo [simp]: "length (pseudo_header s d p l) = 12"
  by (simp add: pseudo_header_def)

lemma pseudo_sum:
  assumes "length seg \<le> 65535"
  shows "unat (inet_checksum_partial (pseudo_header s d p l) + inet_checksum_partial seg) =
    words_sum (pseudo_header s d p l) + words_sum seg"
proof -
  have a: "words_sum (pseudo_header s d p l) \<le> 65535 * 6" using words_sum_bound [of "pseudo_header s d p l"] by simp
  have "(length seg + 1) div 2 \<le> 32768" using assms by simp
  then have b: "words_sum seg \<le> 65535 * 32768"
    using words_sum_bound [of seg] by (meson le_trans mult_le_mono2)
  show ?thesis using a b by (simp add: unat_word_ariths partial_words)
qed

text \<open>The checksum \<^verbatim>\<open>udp_tx\<close> stores, and that reception accepts it.\<close>

definition udp_stored_csum :: "u32 \<Rightarrow> u32 \<Rightarrow> u8 list \<Rightarrow> u16" where
  "udp_stored_csum s d seg = (let c = udp_checksum s d seg in if c = 0 then 0xFFFF else c)"

lemma udp_checksum_verifies:
  assumes "length data + 8 \<le> 65535"
  shows "udp_checksum s d (udp_header sp dp l (udp_stored_csum s d (udp_header sp dp l 0 @ data)) @ data) = 0"
proof -
  let ?seg = "\<lambda>c. udp_header sp dp l c @ data"
  let ?ph = "pseudo_header s d IPPROTO_UDP (of_nat (8 + length data))"
  let ?sum = "\<lambda>c. inet_checksum_partial ?ph + inet_checksum_partial (?seg c)"
  have ck: "udp_checksum s d (?seg c) = inet_checksum_fold (?sum c)" for c by (simp add: udp_checksum_def)
  have sum: "unat (?sum c) = unat (?sum 0) + unat c" for c
    using pseudo_sum [of "?seg c" s d IPPROTO_UDP "of_nat (8 + length data)"]
      pseudo_sum [of "?seg 0" s d IPPROTO_UDP "of_nat (8 + length data)"] assms udp_words [of sp dp l c data] by simp
  show ?thesis
  proof (cases "udp_checksum s d (?seg 0) = 0")
    case True
    then have "inet_checksum_fold (?sum 0) = 0" unfolding ck .
    then have "inet_checksum_fold (?sum 0xFFFF) = 0" by (rule fold_ffff) (use sum [of "0xFFFF"] in simp)
    then show ?thesis using True by (simp add: udp_stored_csum_def ck)
  next
    case False
    have "inet_checksum_fold (?sum (inet_checksum_fold (?sum 0))) = 0" by (rule fold_cancel [OF refl sum])
    then show ?thesis using False by (simp add: udp_stored_csum_def ck Let_def)
  qed
qed

lemma udp_tx_datagram:
  fixes g :: "nat \<Rightarrow> u8" and sp dp :: u16 and d :: "u8 list"
  assumes "n_km n = True # True # km" "length d + 8 \<le> 65535"
  defines "seg \<equiv> udp_header sp dp (of_nat (8 + length d)) 0 @ d"
  shows "\<exists>skb. skb_ok skb \<and> sk_data skb = 262 \<and>
    skb_bytes skb = udp_header sp dp (of_nat (8 + length d)) (udp_stored_csum (nd_ip dev) dip seg) @ d \<and>
    udp_tx env g dev dip sp dp (Some d) (length d) n = ip_tx env g dev skb (nd_ip dev) dip IPPROTO_UDP (n\<lparr>n_km := km\<rparr>)"
proof -
  let ?len = "length d" and ?h = "udp_header sp dp (of_nat (8 + length d)) 0"
  define P where "P = fst (skb_put (8 + ?len) (skb_reserve 128 (skb_alloc g (8 + ?len + 128))))"
  have put: "skb_put (8 + ?len) (skb_reserve 128 (skb_alloc g (8 + ?len + 128))) = (P, 262)"
    by (simp add: P_def skb_put_def skb_reserve_def skb_alloc_def Let_def)
  have h8: "length ?h = 8" by simp
  define t where "t = (if ?len > 0 then skb_write (262 + 8) d (skb_write 262 ?h P) else skb_write 262 ?h P)"
  note c = skb_compose [OF h8 refl, where r = 128 and g = g and d = d, unfolded put fst_conv snd_conv, folded t_def]
  have t: "skb_ok t" "skb_bytes t = seg" "sk_data t = 262" using c by (simp_all add: seg_def)
  let ?c = "udp_stored_csum (nd_ip dev) dip seg"
  have at: "268 = sk_data t + int 6" "6 + length (u16_bytes ?c) \<le> length (skb_bytes t)" using t by (simp_all add: seg_def)
  note w = skb_write_within [OF t(1) at]
  define u where "u = (skb_write 268 (u16_bytes ?c) t)\<lparr>sk_protocol := ucast IPPROTO_UDP\<rparr>"
  have u: "skb_ok u" "sk_data u = 262" "skb_bytes u = udp_header sp dp (of_nat (8 + length d)) ?c @ d"
    using w t by (simp_all add: u_def skb_ok_def skb_bytes_def seg_def udp_header_csum)
  have guard: "(8 + length d > 65535) = False" and plus6: "(262 :: int) + 6 = 268" using assms(2) by simp_all
  have "udp_tx env g dev dip sp dp (Some d) ?len n = ip_tx env g dev u (nd_ip dev) dip IPPROTO_UDP (n\<lparr>n_km := km\<rparr>)"
    using guard by (simp only: udp_tx_def net_skb_alloc_ok [OF assms(1)] Let_def if_False prod.case option.case put
      take_all [OF order_refl] t_def [symmetric] t(2) u_def udp_stored_csum_def plus6)
  with u show ?thesis by blast
qed

lemma udp_rx_datagram:
  assumes "skb_ok skb" "skb_bytes skb = udp_header sp dp l c @ d" "unat l = 8 + length d" "sk_src_ip skb = s" "sk_dst_ip skb = dip"
    "c = udp_stored_csum s dip (udp_header sp dp l 0 @ d)"
    "binds_ok (n_udp n)" "e \<in> set (n_udp n)" "udp_match dip dp e" "ub_callback e = Some cb"
  shows "udp_rx skb n = UdpCallback \<lparr>uc_cb = cb, uc_ctx = ub_ctx e, uc_src_ip = s, uc_src_port = sp,
    uc_dst_ip = dip, uc_dst_port = dp, uc_payload = d\<rparr>"
proof -
  have len: "sk_len skb = int (8 + length d)"
    using skb_bytes_length [OF assms(1)] assms(1,2) by (auto simp: skb_ok_def)
  have "udp_checksum s dip (udp_header sp dp l c @ d) = 0"
    unfolding assms(6) by (rule udp_checksum_verifies) (use assms(3) unat_lt16 [of l] in simp)
  moreover have "uint l = int (8 + length d)" by (simp only: assms(3) [symmetric]) simp
  ultimately show ?thesis
    using len assms(2-5,10) find_bound [OF assms(7-9)] by (simp add: udp_rx_def udp_header_fields Let_def)
qed

definition udp_input :: "(nat \<Rightarrow> u8) \<Rightarrow> netdev \<Rightarrow> u8 list \<Rightarrow> net \<Rightarrow> udp_outcome" where
  "udp_input g dev frame n = (case ip_input g dev frame n of (n, ToUdp skb) \<Rightarrow> udp_rx skb n | _ \<Rightarrow> UdpFreed)"

text \<open>C15: a datagram sent to a bound port arrives.  When \<^verbatim>\<open>udp_tx\<close> finds memory and its next hop
  resolves, the frame it transmits, with any link padding, makes the receiver call
  the callback bound to the port with exactly the data sent and with the sender's
  address and port; in particular the checksum that is stored (all ones standing for
  a computed zero) is the one that reception accepts.\<close>

theorem udp_delivery:
  assumes "n_km nA = True # True # kA" "length d + 28 \<le> 65535" "length (nd_mac devA) = 6" "nd_send devA = Some send"
    "ip_resolved env gA devA dip (nA\<lparr>n_km := kA, n_ip_id := n_ip_id nA + 1\<rparr>) = (n1, Some m)" "length m = 6"
    "n_km nB = True # True # kB" "ip_accepts devB dip"
    "binds_ok (n_udp nB)" "e \<in> set (n_udp nB)" "udp_match dip dp e" "ub_callback e = Some cb"
  shows "udp_input gB devB (snd (last (n_sent (fst (udp_tx env gA devA dip sp dp (Some d) (length d) nA)))) @ pad) nB =
    UdpCallback \<lparr>uc_cb = cb, uc_ctx = ub_ctx e, uc_src_ip = nd_ip devA, uc_src_port = sp,
      uc_dst_ip = dip, uc_dst_port = dp, uc_payload = d\<rparr>"
proof -
  let ?l = "of_nat (8 + length d) :: u16"
  let ?c = "udp_stored_csum (nd_ip devA) dip (udp_header sp dp ?l 0 @ d)"
  have le: "length d + 8 \<le> 65535" using assms(2) by simp
  obtain skb where skb: "skb_ok skb" "sk_data skb = 262" "skb_bytes skb = udp_header sp dp ?l ?c @ d"
    "udp_tx env gA devA dip sp dp (Some d) (length d) nA = ip_tx env gA devA skb (nd_ip devA) dip IPPROTO_UDP (nA\<lparr>n_km := kA\<rparr>)"
    using udp_tx_datagram [OF assms(1) le, of sp dp devA dip env gA] by blast
  have room: "34 \<le> sk_data skb" "length (skb_bytes skb) \<le> 65515" using skb assms(2) by simp_all
  have r: "ip_resolved env gA devA dip (nA\<lparr>n_km := kA, n_ip_id := n_ip_id (nA\<lparr>n_km := kA\<rparr>) + 1\<rparr>) = (n1, Some m)"
    using assms(5) by simp
  have ul: "unat ?l = 8 + length d" using le by (simp only: unat_of_nat) (simp add: take_bit_eq_mod)
  have "\<exists>s'. skb_ok s' \<and> skb_bytes s' = skb_bytes skb \<and> sk_src_ip s' = nd_ip devA \<and> sk_dst_ip s' = dip \<and>
    ip_input gB devB (eth_header m (nd_mac devA) ETH_P_IP @ ip_build (of_nat (length (skb_bytes skb) + 20)) (n_ip_id nA)
      IPPROTO_UDP (nd_ip devA) dip @ skb_bytes skb @ pad) nB = (nB\<lparr>n_km := kB\<rparr>, ip_deliver IPPROTO_UDP s')"
    by (rule ip_input_packet [OF assms(7,6,3,8)]) (use room in \<open>simp only: unat_of_nat, simp add: take_bit_eq_mod\<close>)
  then obtain s' where s': "skb_ok s'" "skb_bytes s' = udp_header sp dp ?l ?c @ d" "sk_src_ip s' = nd_ip devA" "sk_dst_ip s' = dip"
    "ip_input gB devB (eth_header m (nd_mac devA) ETH_P_IP @ ip_build (of_nat (length (skb_bytes skb) + 20)) (n_ip_id nA)
      IPPROTO_UDP (nd_ip devA) dip @ skb_bytes skb @ pad) nB = (nB\<lparr>n_km := kB\<rparr>, ToUdp s')"
    unfolding skb(3) ip_deliver_def by auto
  have "snd (last (n_sent (fst (udp_tx env gA devA dip sp dp (Some d) (length d) nA)))) =
    eth_header m (nd_mac devA) ETH_P_IP @ ip_build (of_nat (length (skb_bytes skb) + 20)) (n_ip_id nA)
      IPPROTO_UDP (nd_ip devA) dip @ skb_bytes skb"
    unfolding skb(4) using ip_tx_frame [OF skb(1) room(1) assms(3,4) r assms(6), of "nd_ip devA" IPPROTO_UDP] by simp
  then show ?thesis
    unfolding udp_input_def using s' udp_rx_datagram [OF s'(1,2) ul s'(3,4) refl, of "nB\<lparr>n_km := kB\<rparr>" e cb] assms(9-12) by simp
qed

definition udp_example :: net where
  "udp_example = (net_example [True, True])\<lparr>n_udp :=
     [\<lparr>ub_port = 53, ub_addr = 0, ub_callback = Some 7, ub_ctx = 9, ub_active = True\<rparr>, udp_bind_zero]\<rparr>"

theorem udp_delivery_witness:
  "udp_input (\<lambda>_. 0) (dev_example 0x0202000A 8)
     (snd (last (n_sent (fst (udp_tx (\<lambda>_ n. n) (\<lambda>_. 0) (dev_example 0x0F02000A 7) 0x0202000A 50000 53 (Some [1, 2, 3]) 3
        (net_known_example\<lparr>n_km := [True, True]\<rparr>))))) @ [0, 0]) udp_example =
   UdpCallback \<lparr>uc_cb = 7, uc_ctx = 9, uc_src_ip = 0x0F02000A, uc_src_port = 50000, uc_dst_ip = 0x0202000A,
     uc_dst_port = 53, uc_payload = [1, 2, 3]\<rparr>"
proof -
  let ?n = "net_known_example\<lparr>n_km := [True, True]\<rparr>"
  let ?n' = "?n\<lparr>n_km := [], n_ip_id := n_ip_id ?n + 1\<rparr>"
  let ?e = "\<lparr>ub_port = 53, ub_addr = 0, ub_callback = Some 7, ub_ctx = 9, ub_active = True\<rparr>"
  have r: "ip_resolved (\<lambda>_ n. n) (\<lambda>_. 0) (dev_example 0x0F02000A 7) 0x0202000A ?n' = (?n', Some [2, 0, 0, 0, 0, 8])"
    by (simp add: ip_resolved_def is_broadcast_def next_hop_def dev_example_def net_known_example_def net_example_def
        arp_init_def arp_resolve_def numeral_3_eq_3)
  have a: "ip_accepts (dev_example 0x0202000A 8) 0x0202000A" by (simp add: ip_accepts_def dev_example_def)
  have km: "n_km ?n = True # True # []" "n_km udp_example = True # True # []"
    by (simp_all add: udp_example_def net_example_def arp_init_def)
  have e: "binds_ok (n_udp udp_example)" "?e \<in> set (n_udp udp_example)" "udp_match 0x0202000A 53 ?e"
    by (simp_all add: udp_example_def binds_ok_def udp_bind_zero_def udp_match_def)
  show ?thesis
    using udp_delivery [OF km(1) _ _ _ r _ km(2) a e, of "[1, 2, 3]" "\<lambda>_. 0" 7 "\<lambda>_. 0" 50000 "[0, 0]"]
    by (simp add: dev_example_def numeral_3_eq_3)
qed

lemma find_skip: "\<not> P e \<Longrightarrow> \<not> P b \<Longrightarrow> List.find P (xs @ e # ys) = List.find P (xs @ b # ys)"
  by (induction xs) auto

text \<open>the table of bound ports keeps at most one active binding per port.  Binding
  fails exactly when the port is taken or no slot is free; after a successful bind
  the datagrams for the port go to the new callback, after an unbind to none, and the
  lookups of every other port are as before.\<close>

theorem udp_bind_contract:
  assumes "binds_ok (n_udp n)"
  shows "let (n1, r) = udp_bind_port port addr cb ctx n; n2 = udp_unbind_port port n
    in binds_ok (n_udp n1) \<and> binds_ok (n_udp n2) \<and>
       (r = 0 \<longleftrightarrow> \<not> port_bound port (n_udp n) \<and> (\<exists>b \<in> set (n_udp n). \<not> ub_active b)) \<and>
       (r \<noteq> 0 \<longrightarrow> n1 = n) \<and>
       (r = 0 \<and> (addr = 0 \<or> addr = ip) \<longrightarrow>
          map_option ub_callback (List.find (udp_match ip port) (n_udp n1)) = Some cb) \<and>
       List.find (udp_match ip port) (n_udp n2) = None \<and>
       (\<forall>q. q \<noteq> port \<longrightarrow> List.find (udp_match ip q) (n_udp n1) = List.find (udp_match ip q) (n_udp n) \<and>
                       List.find (udp_match ip q) (n_udp n2) = List.find (udp_match ip q) (n_udp n))"
proof -
  let ?e = "\<lparr>ub_port = port, ub_addr = addr, ub_callback = cb, ub_ctx = ctx, ub_active = True\<rparr>"
  have un: "binds_ok (unbind_slot port (n_udp n))" "List.find (udp_match ip port) (unbind_slot port (n_udp n)) = None"
    using unbind_slot_ok [OF assms, of port] find_unbound [of port "unbind_slot port (n_udp n)" ip] by simp_all
  have other: "List.find (udp_match ip q) (unbind_slot port bs) = List.find (udp_match ip q) bs" if "q \<noteq> port" for q bs
    using that by (induction bs) (auto simp: udp_match_def)
  consider "port_bound port (n_udp n)" | "\<not> port_bound port (n_udp n)" "bind_slot ?e (n_udp n) = None"
    | bs where "\<not> port_bound port (n_udp n)" "bind_slot ?e (n_udp n) = Some bs" by auto
  then show ?thesis
  proof cases
    case 2
    then have "\<forall>b \<in> set (n_udp n). ub_active b" by (simp only: bind_slot_None)
    then show ?thesis using 2 assms un other by (simp add: udp_bind_port_def udp_unbind_port_def)
  next
    case 3
    then obtain xs b ys where d: "n_udp n = xs @ b # ys" "\<not> ub_active b" "bs = xs @ ?e # ys" "\<forall>x \<in> set xs. ub_active x"
      using bind_slot_Some [OF 3(2)] by auto
    have ok: "binds_ok bs" using assms 3(1) d by (auto simp: binds_ok_def port_bound_iff)
    have "List.find (udp_match ip q) bs = List.find (udp_match ip q) (n_udp n)" if "q \<noteq> port" for q
      unfolding d(1,3) by (rule find_skip) (use that d(2) in \<open>simp_all add: udp_match_def\<close>)
    moreover have "List.find (udp_match ip port) bs = Some ?e" if "addr = 0 \<or> addr = ip"
      by (rule find_bound [OF ok]) (use that d in \<open>auto simp: udp_match_def\<close>)
    ultimately show ?thesis using 3 d un ok other by (simp add: udp_bind_port_def udp_unbind_port_def)
  qed (use assms un other in \<open>simp add: udp_bind_port_def udp_unbind_port_def\<close>)
qed

theorem udp_bind_contract_witness:
  "let (n1, r) = udp_bind_port 80 0 (Some 4) 0 udp_example in
     r = 0 \<and> binds_ok (n_udp n1) \<and> map_option ub_callback (List.find (udp_match 5 80) (n_udp n1)) = Some (Some 4) \<and>
     List.find (udp_match 5 53) (n_udp n1) = List.find (udp_match 5 53) (n_udp udp_example)"
proof -
  have ok: "binds_ok (n_udp udp_example)" by (simp add: udp_example_def binds_ok_def udp_bind_zero_def)
  have "\<not> port_bound 80 (n_udp udp_example) \<and> (\<exists>b \<in> set (n_udp udp_example). \<not> ub_active b)"
    by (simp add: udp_example_def udp_bind_zero_def port_bound_def)
  with udp_bind_contract [OF ok, of 80 0 "Some 4" 0 5] show ?thesis by (simp add: case_prod_beta Let_def)
qed

text \<open>An ephemeral port is fresh.  The search of \<^verbatim>\<open>udp_alloc_ephemeral\<close> always ends,
  and with fewer bindings than ports the port it returns is bound by nobody, so that
  binding it at once succeeds whenever a slot of the table is free.\<close>

theorem udp_ephemeral_fresh:
  assumes "length (n_udp n) < 65536"
  shows "let (n', port) = udp_alloc_ephemeral n
    in n_udp n' = n_udp n \<and> \<not> port_bound port (n_udp n) \<and>
       (snd (udp_bind_port port addr cb ctx n') = 0 \<longleftrightarrow> (\<exists>b \<in> set (n_udp n). \<not> ub_active b))"
proof -
  obtain x p where s: "eph_scan (\<lambda>p. port_bound p (n_udp n)) (n_eph n) (n_eph n) = (x, p)" by fastforce
  note f = eph_scan_fresh [OF ports_fewer [OF assms] s]
  let ?e = "\<lparr>ub_port = p, ub_addr = addr, ub_callback = cb, ub_ctx = ctx, ub_active = True\<rparr>"
  have "(\<exists>b \<in> set (n_udp n). \<not> ub_active b) \<longleftrightarrow> bind_slot ?e (n_udp n) \<noteq> None" by (auto simp only: bind_slot_None)
  then show ?thesis using f s
    by (simp add: udp_alloc_ephemeral_def udp_bind_port_def split: option.split)
qed

theorem udp_ephemeral_fresh_witness:
  "let (n', port) = udp_alloc_ephemeral udp_example in \<not> port_bound port (n_udp udp_example) \<and>
     snd (udp_bind_port port 0 None 0 n') = 0"
proof -
  have "length (n_udp udp_example) < 65536" "\<exists>b \<in> set (n_udp udp_example). \<not> ub_active b"
    by (simp_all add: udp_example_def udp_bind_zero_def)
  with udp_ephemeral_fresh [of udp_example 0 None 0] show ?thesis by (simp add: case_prod_beta Let_def)
qed

text \<open>C16: the ephemeral range is left.  The counter is a sixteen-bit integer, so the test
  that should bring it back to 49152 never succeeds: after port 65535 the allocator
  hands out port 0, the value that stands for failure, and then the ports from 1 up.\<close>

theorem udp_ephemeral_leaves_range:
  assumes "n_eph n = 65535" "\<forall>p \<in> {65535, 0, 1}. \<not> port_bound p (n_udp n)"
  shows "let (n1, p1) = udp_alloc_ephemeral n; (n2, p2) = udp_alloc_ephemeral n1; (n3, p3) = udp_alloc_ephemeral n2
    in p1 = 65535 \<and> p2 = 0 \<and> p3 = 1"
proof -
  have s: "eph_scan used p p = (p + 1, p)" if "\<not> used p" for used p
    using that by (simp add: eph_scan.simps [of used p p] eph_next_wraps)
  have w: "(65536 :: u16) = 0" by simp
  show ?thesis using assms s [of "\<lambda>p. port_bound p (n_udp n)" 65535] s [of "\<lambda>p. port_bound p (n_udp n)" 0] s [of "\<lambda>p. port_bound p (n_udp n)" 1] w
    by (simp add: udp_alloc_ephemeral_def)
qed

theorem udp_ephemeral_leaves_range_witness:
  "snd (udp_alloc_ephemeral (fst (udp_alloc_ephemeral (udp_example\<lparr>n_eph := 65535\<rparr>)))) = 0"
  using udp_ephemeral_leaves_range [of "udp_example\<lparr>n_eph := 65535\<rparr>"]
  by (simp add: case_prod_beta Let_def udp_example_def udp_bind_zero_def port_bound_def)

end
