(* ===== verification/Icmp.thy ===== *)
theory Icmp
  imports Ip4
begin

text \<open>
  ICMP echo (\<^verbatim>\<open>net/icmp.c\<close>), with the copies \<^verbatim>\<open>socket_deliver_icmp_rx\<close> of
  \<^verbatim>\<open>net/socket.c\<close> gives to the raw sockets.  A raw socket is the content of its
  receive queue; waking its reader is left to the scheduler's model.
\<close>

abbreviation IPPROTO_ICMP :: u8 where "IPPROTO_ICMP \<equiv> 1"
abbreviation ICMP_ECHO_REPLY :: u8 where "ICMP_ECHO_REPLY \<equiv> 0"
abbreviation ICMP_ECHO_REQUEST :: u8 where "ICMP_ECHO_REQUEST \<equiv> 8"

definition icmp_init :: "net \<Rightarrow> net" where
  "icmp_init n = n\<lparr>n_ping := \<lparr>pg_target_ip = 0, pg_id = 0, pg_last_seq = 0, pg_reply_received = False\<rparr>\<rparr>"

definition icmp_checksum :: "u8 list \<Rightarrow> u16" where "icmp_checksum data = inet_checksum data"

text \<open>The header with \<open>csum\<close> as stored.\<close>

definition icmp_header :: "u8 \<Rightarrow> u8 \<Rightarrow> u16 \<Rightarrow> u16 \<Rightarrow> u16 \<Rightarrow> u8 list" where
  "icmp_header ty code csum ident sq =
     [ty, code] @ u16_bytes csum @ u16_bytes (htons ident) @ u16_bytes (htons sq)"

fun raw_deliver :: "(nat \<Rightarrow> u8) \<Rightarrow> skbuff \<Rightarrow> skbuff list option list \<Rightarrow> net \<Rightarrow> net \<times> skbuff list option list" where
  "raw_deliver g skb [] n = (n, [])"
| "raw_deliver g skb (None # sks) n = (let (n, sks) = raw_deliver g skb sks n in (n, None # sks))"
| "raw_deliver g skb (Some q # sks) n =
     (case net_skb_alloc g (nat (sk_len skb) + 64) n of
        (None, n) \<Rightarrow> let (n, sks) = raw_deliver g skb sks n in (n, Some q # sks)
      | (Some copy, n) \<Rightarrow>
          let (copy, at) = skb_put (nat (sk_len skb)) (skb_reserve 64 copy);
              copy = skb_write at (skb_bytes skb) copy;
              copy = copy\<lparr>sk_src_ip := sk_src_ip skb, sk_dst_ip := sk_dst_ip skb, sk_protocol := ucast IPPROTO_ICMP\<rparr>;
              (n, sks) = raw_deliver g skb sks n
          in (n, Some (q @ [copy]) # sks))"

definition socket_deliver_icmp_rx :: "(nat \<Rightarrow> u8) \<Rightarrow> skbuff \<Rightarrow> net \<Rightarrow> net" where
  "socket_deliver_icmp_rx g skb n =
     (if sk_len skb = 0 then n
      else let (n, sks) = raw_deliver g skb (n_raw n) n in n\<lparr>n_raw := sks\<rparr>)"

text \<open>The answer to an echo request: the request's bytes with a new type, code and checksum.\<close>

definition echo_reply :: "(nat \<Rightarrow> u8) \<Rightarrow> skbuff \<Rightarrow> skbuff \<Rightarrow> skbuff" where
  "echo_reply g skb reply =
     (let total = nat (sk_len skb);
          reply = skb_reserve 64 reply;
          (reply, payload) = skb_put total reply;
          reply = skb_write payload (skb_bytes skb) reply;
          reply = skb_write (sk_data reply) [ICMP_ECHO_REPLY, 0, 0, 0] reply;
          reply = skb_write (sk_data reply + 2) (u16_bytes (icmp_checksum (skb_bytes reply))) reply
      in reply\<lparr>sk_protocol := ucast IPPROTO_ICMP\<rparr>)"

definition icmp_rx :: "(nat \<Rightarrow> net \<Rightarrow> net) \<Rightarrow> (nat \<Rightarrow> u8) \<Rightarrow> netdev \<Rightarrow> skbuff \<Rightarrow> net \<Rightarrow> net" where
  "icmp_rx env g dev skb n =
     (if sk_len skb < 8 then n
      else if icmp_checksum (skb_bytes skb) \<noteq> 0 then n
      else
        let n = socket_deliver_icmp_rx g skb n; b = skb_bytes skb
        in if b ! 0 = ICMP_ECHO_REQUEST then
             (case net_skb_alloc g (nat (sk_len skb) + 64) n of
                (None, n) \<Rightarrow> n
              | (Some reply, n) \<Rightarrow>
                  fst (ip_tx env g dev (echo_reply g skb reply) (nd_ip dev) (sk_src_ip skb) IPPROTO_ICMP n))
           else if b ! 0 = ICMP_ECHO_REPLY then
             let ident = ntohs (get16 b 4); sq = ntohs (get16 b 6); p = n_ping n
             in if sk_src_ip skb = pg_target_ip p \<and> ident = pg_id p \<and> sq = pg_last_seq p
                then n\<lparr>n_ping := p\<lparr>pg_reply_received := True\<rparr>\<rparr> else n
           else n)"

definition icmp_send_echo :: "(nat \<Rightarrow> net \<Rightarrow> net) \<Rightarrow> (nat \<Rightarrow> u8) \<Rightarrow> netdev \<Rightarrow> u32 \<Rightarrow> u16 \<Rightarrow> u16 \<Rightarrow> u8 list option \<Rightarrow>
    nat \<Rightarrow> net \<Rightarrow> net \<times> int" where
  "icmp_send_echo env g dev dst_ip ident sq payload payload_len n =
     (let icmp_len = 8 + payload_len in
      case net_skb_alloc g (icmp_len + 128) n of
        (None, n) \<Rightarrow> (n, - 1)
      | (Some skb, n) \<Rightarrow>
          let skb = skb_reserve 128 skb;
              (skb, buf) = skb_put icmp_len skb;
              skb = skb_write buf (icmp_header ICMP_ECHO_REQUEST 0 0 ident sq) skb;
              skb = (case payload of
                       Some d \<Rightarrow> if payload_len > 0 then skb_write (buf + 8) (take payload_len d) skb else skb
                     | None \<Rightarrow> skb);
              skb = skb_write (buf + 2) (u16_bytes (icmp_checksum (skb_bytes skb))) skb;
              skb = skb\<lparr>sk_protocol := ucast IPPROTO_ICMP\<rparr>;
              n = n\<lparr>n_ping := \<lparr>pg_target_ip = dst_ip, pg_id = ident, pg_last_seq = sq, pg_reply_received = False\<rparr>\<rparr>
          in ip_tx env g dev skb (nd_ip dev) dst_ip IPPROTO_ICMP n)"

section \<open>Messages\<close>

lemma length_icmp_header [simp]: "length (icmp_header ty code c ident sq) = 8"
  by (simp add: icmp_header_def)

lemma icmp_header_csum: "put_bytes 2 (u16_bytes c) (icmp_header ty code c' ident sq @ d) = icmp_header ty code c ident sq @ d"
  by (simp add: icmp_header_def put_bytes_def u16_bytes_def)

lemma icmp_header_fields:
  fixes ident sq c :: u16 and ty code :: u8
  defines "h \<equiv> icmp_header ty code c ident sq"
  shows "(h @ r) ! 0 = ty" "get16 (h @ r) 4 = htons ident" "get16 (h @ r) 6 = htons sq"
proof -
  let ?a = "[ty, code] @ u16_bytes c" and ?b = "u16_bytes (htons ident)"
  have h: "h @ r = ?a @ ?b @ u16_bytes (htons sq) @ r" by (simp add: h_def icmp_header_def)
  show "(h @ r) ! 0 = ty" by (simp add: h)
  show "get16 (h @ r) 4 = htons ident" unfolding h using get16_append [of ?a 4 _ 0] by (simp add: get16_bytes)
  show "get16 (h @ r) 6 = htons sq" unfolding h using get16_append [of "?a @ ?b" 6 _ 0] by (simp add: get16_bytes)
qed

text \<open>A message with the checksum that \<^verbatim>\<open>icmp.c\<close> stores.\<close>

definition icmp_message :: "u8 \<Rightarrow> u16 \<Rightarrow> u16 \<Rightarrow> u8 list \<Rightarrow> u8 list" where
  "icmp_message ty ident sq d =
     icmp_header ty 0 (icmp_checksum (icmp_header ty 0 0 ident sq @ d)) ident sq @ d"

lemma length_icmp_message [simp]: "length (icmp_message ty ident sq d) = 8 + length d"
  by (simp add: icmp_message_def)

lemma icmp_message_verifies: "length d \<le> 90000 \<Longrightarrow> icmp_checksum (icmp_message ty ident sq d) = 0"
  using inet_checksum_verifies [of "[ty, 0]" "u16_bytes (htons ident) @ u16_bytes (htons sq) @ d"]
  by (simp add: icmp_message_def icmp_checksum_def icmp_header_def u16_bytes_def)

lemma echo_reply_message:
  fixes g :: "nat \<Rightarrow> u8"
  assumes "skb_ok skb" "skb_bytes skb = icmp_message ty ident sq d"
  defines "r \<equiv> echo_reply g skb (skb_alloc g (nat (sk_len skb) + 64))"
  shows "skb_ok r" "skb_bytes r = icmp_message ICMP_ECHO_REPLY ident sq d" "sk_data r = 198"
proof -
  let ?t = "nat (sk_len skb)"
  have t: "?t = 8 + length d" using skb_bytes_length [OF assms(1)] assms(2) by simp
  define P where "P = fst (skb_put ?t (skb_reserve 64 (skb_alloc g (?t + 64))))"
  have put: "skb_put ?t (skb_reserve 64 (skb_alloc g (?t + 64))) = (P, 198)"
    by (simp add: P_def skb_put_def skb_reserve_def skb_alloc_def Let_def)
  note p = skb_room [of ?t 64 g, unfolded put fst_conv]
  define Q where "Q = skb_write 198 (skb_bytes skb) P"
  have q: "198 = sk_data P + int 0" "0 + length (skb_bytes skb) \<le> length (skb_bytes P)"
    using p t assms(2) by simp_all
  note qw = skb_write_within [OF p(1) q, folded Q_def]
  have Q: "skb_ok Q" "skb_bytes Q = icmp_message ty ident sq d" "sk_data Q = 198"
    using qw p t assms(2) by (simp_all add: put_bytes_all)
  let ?z = "[0, 0, 0, 0] :: u8 list"
  define R where "R = skb_write (sk_data Q) ?z Q"
  have r0: "sk_data Q = sk_data Q + int 0" "0 + length ?z \<le> length (skb_bytes Q)" using Q by simp_all
  note rw = skb_write_within [OF Q(1) r0, folded R_def]
  have R: "skb_ok R" "skb_bytes R = icmp_header 0 0 0 ident sq @ d" "sk_data R = 198"
    using rw Q by (simp_all add: icmp_message_def icmp_header_def put_bytes_def u16_bytes_def)
  let ?c = "u16_bytes (icmp_checksum (skb_bytes R))"
  have s0: "sk_data R + 2 = sk_data R + int 2" "2 + length ?c \<le> length (skb_bytes R)" using R by simp_all
  note sw = skb_write_within [OF R(1) s0]
  have r: "r = (skb_write (sk_data R + 2) ?c R)\<lparr>sk_protocol := ucast IPPROTO_ICMP\<rparr>"
    by (simp only: r_def echo_reply_def Let_def put prod.case R_def Q_def)
  show "skb_ok r" "skb_bytes r = icmp_message ICMP_ECHO_REPLY ident sq d" "sk_data r = 198"
    using sw R by (simp_all add: r skb_ok_def skb_bytes_def icmp_message_def icmp_header_csum)
qed

lemma icmp_send_message:
  fixes g :: "nat \<Rightarrow> u8" and d :: "u8 list"
  assumes "n_km n = True # True # km"
  shows "\<exists>skb. skb_ok skb \<and> sk_data skb = 262 \<and> skb_bytes skb = icmp_message ICMP_ECHO_REQUEST ident sq d \<and>
    icmp_send_echo env g dev dip ident sq (Some d) (length d) n = ip_tx env g dev skb (nd_ip dev) dip IPPROTO_ICMP
      (n\<lparr>n_km := km, n_ping := \<lparr>pg_target_ip = dip, pg_id = ident, pg_last_seq = sq, pg_reply_received = False\<rparr>\<rparr>)"
proof -
  let ?len = "length d" and ?h = "icmp_header ICMP_ECHO_REQUEST 0 0 ident sq"
  define P where "P = fst (skb_put (8 + ?len) (skb_reserve 128 (skb_alloc g (8 + ?len + 128))))"
  have put: "skb_put (8 + ?len) (skb_reserve 128 (skb_alloc g (8 + ?len + 128))) = (P, 262)"
    by (simp add: P_def skb_put_def skb_reserve_def skb_alloc_def Let_def)
  have h8: "length ?h = 8" by simp
  define t where "t = (if ?len > 0 then skb_write (262 + 8) d (skb_write 262 ?h P) else skb_write 262 ?h P)"
  note c = skb_compose [OF h8 refl, where r = 128 and g = g and d = d, unfolded put fst_conv snd_conv, folded t_def]
  have t: "skb_ok t" "skb_bytes t = ?h @ d" "sk_data t = 262" using c by simp_all
  let ?c = "u16_bytes (icmp_checksum (skb_bytes t))"
  have at: "262 + 2 = sk_data t + int 2" "2 + length ?c \<le> length (skb_bytes t)" using t by simp_all
  note w = skb_write_within [OF t(1) at]
  define u where "u = (skb_write (262 + 2) ?c t)\<lparr>sk_protocol := ucast IPPROTO_ICMP\<rparr>"
  have "skb_ok u" "sk_data u = 262" "skb_bytes u = icmp_message ICMP_ECHO_REQUEST ident sq d"
    using w t by (simp_all add: u_def skb_ok_def skb_bytes_def icmp_message_def icmp_header_csum)
  moreover have "icmp_send_echo env g dev dip ident sq (Some d) (length d) n = ip_tx env g dev u (nd_ip dev) dip IPPROTO_ICMP
      (n\<lparr>n_km := km, n_ping := \<lparr>pg_target_ip = dip, pg_id = ident, pg_last_seq = sq, pg_reply_received = False\<rparr>\<rparr>)"
    by (simp only: icmp_send_echo_def net_skb_alloc_ok [OF assms(1)] Let_def prod.case option.case put
      take_all [OF order_refl] t_def [symmetric] u_def)
  ultimately show ?thesis by blast
qed

section \<open>Raw sockets\<close>

definition raw_count :: "skbuff list option list \<Rightarrow> nat" where
  "raw_count sks = length (filter (\<lambda>s. s \<noteq> None) sks)"

lemma raw_deliver_alloc:
  "n_km n = replicate (2 * raw_count sks) True @ km \<Longrightarrow> fst (raw_deliver g skb sks n) = n\<lparr>n_km := km\<rparr>"
proof (induction sks arbitrary: n)
  case (Cons s sks)
  show ?case
  proof (cases s)
    case None
    then show ?thesis using Cons by (simp add: raw_count_def case_prod_beta)
  next
    case (Some q)
    then have "n_km n = True # True # replicate (2 * raw_count sks) True @ km"
      using Cons.prems by (simp add: raw_count_def)
    then show ?thesis using Cons.IH [of "n\<lparr>n_km := replicate (2 * raw_count sks) True @ km\<rparr>"]
      by (simp add: Some net_skb_alloc_ok case_prod_beta Let_def)
  qed
qed (simp add: raw_count_def)

lemma socket_deliver_alloc:
  assumes "n_km n = replicate (2 * raw_count (n_raw n)) True @ km" "sk_len skb \<noteq> 0"
  shows "\<exists>sks. socket_deliver_icmp_rx g skb n = n\<lparr>n_km := km, n_raw := sks\<rparr>"
  using raw_deliver_alloc [OF assms(1), of g skb] assms(2)
  by (auto simp: socket_deliver_icmp_rx_def case_prod_beta Let_def)

section \<open>The echo exchange\<close>

definition icmp_input :: "(nat \<Rightarrow> net \<Rightarrow> net) \<Rightarrow> (nat \<Rightarrow> u8) \<Rightarrow> netdev \<Rightarrow> u8 list \<Rightarrow> net \<Rightarrow> net" where
  "icmp_input env g dev frame n =
     (case ip_input g dev frame n of (n, ToIcmp skb) \<Rightarrow> icmp_rx env g dev skb n | (n, _) \<Rightarrow> n)"

lemma icmp_input_message:
  assumes "n_km n = True # True # km" "length d = 6" "length m = 6" "ip_accepts dev dip" "length b \<le> 65515"
  shows "\<exists>s'. skb_ok s' \<and> skb_bytes s' = b \<and> sk_src_ip s' = sip \<and>
    icmp_input env g dev (eth_header d m ETH_P_IP @ ip_build (word_of_nat (length b + 20)) ident IPPROTO_ICMP sip dip @ b @ pad) n =
      icmp_rx env g dev s' (n\<lparr>n_km := km\<rparr>)"
proof -
  have "unat (word_of_nat (length b + 20) :: u16) = 20 + length b"
    using assms(5) by (simp only: unat_of_nat) (simp add: take_bit_eq_mod)
  from ip_input_packet [OF assms(1-4) this, of sip g ident IPPROTO_ICMP pad] show ?thesis
    by (auto simp: icmp_input_def ip_deliver_def)
qed

lemma icmp_rx_request:
  assumes "skb_ok skb" "skb_bytes skb = icmp_message ICMP_ECHO_REQUEST ident sq d" "length d \<le> 90000"
    "n_km n = replicate (2 * raw_count (n_raw n)) True @ True # True # km"
  shows "\<exists>sks r. skb_ok r \<and> sk_data r = 198 \<and> skb_bytes r = icmp_message ICMP_ECHO_REPLY ident sq d \<and>
    icmp_rx env g dev skb n = fst (ip_tx env g dev r (nd_ip dev) (sk_src_ip skb) IPPROTO_ICMP (n\<lparr>n_km := km, n_raw := sks\<rparr>))"
proof -
  have len: "sk_len skb = int (8 + length d)"
    using skb_bytes_length [OF assms(1)] assms(1,2) by (auto simp: skb_ok_def)
  obtain sks where s: "socket_deliver_icmp_rx g skb n = n\<lparr>n_km := True # True # km, n_raw := sks\<rparr>"
    using socket_deliver_alloc [OF assms(4), of skb g] len by auto
  let ?r = "echo_reply g skb (skb_alloc g (nat (sk_len skb) + 64))"
  have "net_skb_alloc g (nat (sk_len skb) + 64) (n\<lparr>n_km := True # True # km, n_raw := sks\<rparr>) =
    (Some (skb_alloc g (nat (sk_len skb) + 64)), n\<lparr>n_km := km, n_raw := sks\<rparr>)"
    by (simp add: net_skb_alloc_ok)
  moreover have "skb_bytes skb ! 0 = ICMP_ECHO_REQUEST" using assms(2) icmp_header_fields(1) by (simp add: icmp_message_def)
  moreover have "\<not> sk_len skb < 8" "icmp_checksum (skb_bytes skb) = 0" using len assms(2,3) by (simp_all add: icmp_message_verifies)
  ultimately have "icmp_rx env g dev skb n = fst (ip_tx env g dev ?r (nd_ip dev) (sk_src_ip skb) IPPROTO_ICMP (n\<lparr>n_km := km, n_raw := sks\<rparr>))"
    by (simp add: icmp_rx_def s Let_def)
  with echo_reply_message [OF assms(1,2), of g] show ?thesis by blast
qed

lemma icmp_rx_reply:
  assumes "skb_ok skb" "skb_bytes skb = icmp_message ICMP_ECHO_REPLY ident sq d" "length d \<le> 90000"
    "n_km n = replicate (2 * raw_count (n_raw n)) True @ km"
    "pg_target_ip (n_ping n) = sk_src_ip skb" "pg_id (n_ping n) = ident" "pg_last_seq (n_ping n) = sq"
  shows "pg_reply_received (n_ping (icmp_rx env g dev skb n))"
proof -
  have len: "sk_len skb = int (8 + length d)"
    using skb_bytes_length [OF assms(1)] assms(1,2) by (auto simp: skb_ok_def)
  obtain sks where s: "socket_deliver_icmp_rx g skb n = n\<lparr>n_km := km, n_raw := sks\<rparr>"
    using socket_deliver_alloc [OF assms(4), of skb g] len by auto
  have "icmp_checksum (skb_bytes skb) = 0" using assms(2,3) by (simp add: icmp_message_verifies)
  moreover have "skb_bytes skb ! 0 = ICMP_ECHO_REPLY" "get16 (skb_bytes skb) 4 = htons ident" "get16 (skb_bytes skb) 6 = htons sq"
    using assms(2) icmp_header_fields by (simp_all add: icmp_message_def)
  ultimately show ?thesis using len assms(5-7) by (simp add: icmp_rx_def s Let_def)
qed

text \<open>C17: ping works end to end.  When two hosts know each other's hardware addresses and
  find memory, the frame of \<^verbatim>\<open>icmp_send_echo\<close> makes the target answer, whatever raw
  sockets are open on either side and whatever padding the link adds, and its answer
  makes the sender record the reply, which it had not recorded before.\<close>

theorem ping_roundtrip:
  assumes "length (nd_mac devA) = 6" "nd_send devA = Some sA" "length (nd_mac devB) = 6" "nd_send devB = Some sB"
    "arp_known devA (nd_ip devB) (nd_mac devB) nA" "arp_known devB (nd_ip devA) (nd_mac devA) nB"
    "n_km nA = True # True # True # True # replicate (2 * raw_count (n_raw nA)) True @ kA"
    "n_km nB = True # True # replicate (2 * raw_count (n_raw nB)) True @ True # True # kB"
    "length d + 28 \<le> 65535"
  shows "let nA1 = fst (icmp_send_echo envA gA devA (nd_ip devB) ident sq (Some d) (length d) nA);
             nB1 = icmp_input envB gB devB (snd (last (n_sent nA1)) @ padA) nB;
             nA2 = icmp_input envA gA devA (snd (last (n_sent nB1)) @ padB) nA1
         in \<not> pg_reply_received (n_ping nA1) \<and> pg_reply_received (n_ping nA2)"
proof -
  have acc: "ip_accepts devA (nd_ip devA)" "ip_accepts devB (nd_ip devB)" by (simp_all add: ip_accepts_def)
  let ?req = "icmp_message ICMP_ECHO_REQUEST ident sq d" and ?rep = "icmp_message ICMP_ECHO_REPLY ident sq d"
  have ll: "length ?req \<le> 65515" "length ?rep \<le> 65515" "length d \<le> 90000" using assms(9) by simp_all
  define ping where "ping = \<lparr>pg_target_ip = nd_ip devB, pg_id = ident, pg_last_seq = sq, pg_reply_received = False\<rparr>"
  define kA' where "kA' = True # True # replicate (2 * raw_count (n_raw nA)) True @ kA"
  define nA' where "nA' = nA\<lparr>n_km := kA', n_ping := ping\<rparr>"
  have kA: "n_km nA = True # True # kA'" using assms(7) by (simp add: kA'_def)
  obtain skb where skb: "skb_ok skb" "sk_data skb = 262" "skb_bytes skb = ?req"
    "icmp_send_echo envA gA devA (nd_ip devB) ident sq (Some d) (length d) nA = ip_tx envA gA devA skb (nd_ip devA) (nd_ip devB) IPPROTO_ICMP nA'"
    using icmp_send_message [OF kA, of ident sq d envA gA devA "nd_ip devB"] unfolding nA'_def ping_def by blast
  define nA1 where "nA1 = fst (icmp_send_echo envA gA devA (nd_ip devB) ident sq (Some d) (length d) nA)"
  have nA1: "nA1 = nA'\<lparr>n_ip_id := n_ip_id nA' + 1, n_sent := n_sent nA' @
      [(nd_id devA, eth_header (nd_mac devB) (nd_mac devA) ETH_P_IP @
         ip_build (word_of_nat (length ?req + 20)) (n_ip_id nA') IPPROTO_ICMP (nd_ip devA) (nd_ip devB) @ ?req)]\<rparr>"
    unfolding nA1_def skb(4)
    using ip_tx_known [OF skb(1) _ assms(1,2,5,3), of nA' envA gA "nd_ip devA" IPPROTO_ICMP] skb(2,3) by (simp add: nA'_def)
  define kB' where "kB' = replicate (2 * raw_count (n_raw nB)) True @ True # True # kB"
  have kB: "n_km nB = True # True # kB'" using assms(8) by (simp add: kB'_def)
  obtain s1 where s1: "skb_ok s1" "skb_bytes s1 = ?req" "sk_src_ip s1 = nd_ip devA"
    "icmp_input envB gB devB (snd (last (n_sent nA1)) @ padA) nB = icmp_rx envB gB devB s1 (nB\<lparr>n_km := kB'\<rparr>)"
    using icmp_input_message [OF kB assms(3,1) acc(2) ll(1), of "nd_ip devA" envB gB "n_ip_id nA'" padA] by (auto simp: nA1)
  have kB'': "n_km (nB\<lparr>n_km := kB'\<rparr>) = replicate (2 * raw_count (n_raw (nB\<lparr>n_km := kB'\<rparr>))) True @ True # True # kB" by (simp add: kB'_def)
  obtain sks r where r: "skb_ok r" "sk_data r = 198" "skb_bytes r = ?rep"
    "icmp_rx envB gB devB s1 (nB\<lparr>n_km := kB'\<rparr>) = fst (ip_tx envB gB devB r (nd_ip devB) (nd_ip devA) IPPROTO_ICMP (nB\<lparr>n_km := kB, n_raw := sks\<rparr>))"
    using icmp_rx_request [OF s1(1,2) ll(3) kB'', of envB gB devB] s1(3) by auto
  have sent: "snd (last (n_sent (icmp_rx envB gB devB s1 (nB\<lparr>n_km := kB'\<rparr>)))) = eth_header (nd_mac devA) (nd_mac devB) ETH_P_IP @
         ip_build (word_of_nat (length ?rep + 20)) (n_ip_id nB) IPPROTO_ICMP (nd_ip devB) (nd_ip devA) @ ?rep"
    unfolding r(4) using ip_tx_known [OF r(1) _ assms(3,4,6,1), of "nB\<lparr>n_km := kB, n_raw := sks\<rparr>" envB gB "nd_ip devB" IPPROTO_ICMP] r(2,3)
    by simp
  define kA'' where "kA'' = replicate (2 * raw_count (n_raw nA)) True @ kA"
  have kA1: "n_km nA1 = True # True # kA''" by (simp add: nA1 nA'_def kA'_def kA''_def)
  obtain s2 where s2: "skb_ok s2" "skb_bytes s2 = ?rep" "sk_src_ip s2 = nd_ip devB"
    "icmp_input envA gA devA (snd (last (n_sent (icmp_rx envB gB devB s1 (nB\<lparr>n_km := kB'\<rparr>)))) @ padB) nA1 =
       icmp_rx envA gA devA s2 (nA1\<lparr>n_km := kA''\<rparr>)"
    using icmp_input_message [OF kA1 assms(1,3) acc(1) ll(2), of "nd_ip devB" envA gA "n_ip_id nB" padB] by (auto simp: sent)
  have "pg_reply_received (n_ping (icmp_rx envA gA devA s2 (nA1\<lparr>n_km := kA''\<rparr>)))"
    by (rule icmp_rx_reply [OF s2(1,2) ll(3), of _ kA]) (simp_all add: s2 nA1 nA'_def ping_def kA''_def)
  moreover have "\<not> pg_reply_received (n_ping nA1)" by (simp add: nA1 nA'_def ping_def)
  ultimately show ?thesis unfolding nA1_def [symmetric] by (simp add: s1(4) s2(4))
qed

definition ping_peer_example :: net where
  "ping_peer_example = (net_example [True, True, True, True])\<lparr>n_arp :=
     [\<lparr>ae_ip = 0x0F02000A, ae_mac = [2, 0, 0, 0, 0, 7], ae_timestamp = 900, ae_valid = True\<rparr>]\<rparr>"

theorem ping_roundtrip_witness:
  "let devA = dev_example 0x0F02000A 7; devB = dev_example 0x0202000A 8;
       nA1 = fst (icmp_send_echo (\<lambda>_ n. n) (\<lambda>_. 0) devA 0x0202000A 77 1 (Some [1, 2]) 2
               (net_known_example\<lparr>n_km := [True, True, True, True]\<rparr>));
       nB1 = icmp_input (\<lambda>_ n. n) (\<lambda>_. 0) devB (snd (last (n_sent nA1)) @ [0, 0]) ping_peer_example;
       nA2 = icmp_input (\<lambda>_ n. n) (\<lambda>_. 0) devA (snd (last (n_sent nB1)) @ []) nA1
   in pg_reply_received (n_ping nA2)"
proof -
  let ?A = "dev_example 0x0F02000A 7" and ?B = "dev_example 0x0202000A 8"
  let ?nA = "net_known_example\<lparr>n_km := [True, True, True, True]\<rparr>"
  have ip: "nd_ip ?A = 0x0F02000A" "nd_ip ?B = 0x0202000A" by (simp_all add: dev_example_def)
  have kn: "arp_known ?A (nd_ip ?B) (nd_mac ?B) ?nA" "arp_known ?B (nd_ip ?A) (nd_mac ?A) ping_peer_example"
    by (simp_all add: arp_known_def is_broadcast_def next_hop_def dev_example_def net_known_example_def ping_peer_example_def
        net_example_def arp_init_def)
  show ?thesis
    using ping_roundtrip [OF _ _ _ _ kn, where d = "[1, 2]" and ident = 77 and sq = 1 and kA = "[]" and kB = "[]"
        and envA = "\<lambda>_ n. n" and envB = "\<lambda>_ n. n" and gA = "\<lambda>_. 0" and gB = "\<lambda>_. 0" and padA = "[0, 0]" and padB = "[]"]
    unfolding ip
    by (simp add: dev_example_def net_known_example_def ping_peer_example_def net_example_def arp_init_def
        raw_count_def Let_def numeral_2_eq_2)
qed

end
