(* ===== verification/Runq.thy ===== *)
theory Runq
  imports Task_Model
begin

text \<open>
  The run queue of a CPU and the operations that only touch run queues
  (\<^verbatim>\<open>sched/sched.c\<close>): \<^verbatim>\<open>rq_enqueue\<close>, \<^verbatim>\<open>rq_dequeue\<close>, \<^verbatim>\<open>sched_add_task\<close>,
  \<^verbatim>\<open>sched_unblock\<close>, \<^verbatim>\<open>sched_pick_cpu\<close> and \<^verbatim>\<open>sched_set_priority\<close>.  Each runs under the
  queue's lock with interrupts off, so each is one step.
\<close>

section \<open>Enqueue and dequeue\<close>

abbreviation NPRIO :: nat where "NPRIO \<equiv> 8"

definition EEVDF_TICK_SCALE :: u64 where "EEVDF_TICK_SCALE = 1048576"

definition prio_to_weight :: "u32 list" where
  "prio_to_weight = [16384, 8192, 4096, 2048, 1024, 512, 256, 128]"

definition virtual_deadline :: "u64 \<Rightarrow> u32 \<Rightarrow> u32 \<Rightarrow> u64" where
  "virtual_deadline vr sl w = vr + (ucast sl * EEVDF_TICK_SCALE) div ucast w"

text \<open>The virtual time with which a task enters the queue: the queue's own for a new
  task, at most ten ticks behind it for one that was away.\<close>

definition entry_vruntime :: "u64 \<Rightarrow> task \<Rightarrow> u64" where
  "entry_vruntime V t =
     (if \<not> t_vruntime_initialized t then V
      else let threshold = EEVDF_TICK_SCALE * 10
           in if V > threshold \<and> t_vruntime t < V - threshold then V - threshold else t_vruntime t)"

definition enqueued_task :: "u64 \<Rightarrow> task \<Rightarrow> task" where
  "enqueued_task V t =
     (let vr = entry_vruntime V t; w = (if t_weight t = 0 then 1024 else t_weight t)
      in t\<lparr>t_vruntime := vr, t_vruntime_initialized := True, t_weight := w,
           t_deadline := virtual_deadline vr (t_slice_ticks t) w\<rparr>)"

definition rq_enqueue :: "nat \<Rightarrow> tptr \<Rightarrow> kernel \<Rightarrow> kernel" where
  "rq_enqueue c t k =
     (if Some t = cs_idle (k_sched k c) then k
      else upd_sched c (\<lambda>cs. cs\<lparr>cs_rq := t # cs_rq cs, cs_queue_len := cs_queue_len cs + 1\<rparr>)
             (upd_task t (enqueued_task (cs_V_system (k_sched k c))) k))"

fun min_vruntime :: "(tptr \<Rightarrow> task) \<Rightarrow> tptr list \<Rightarrow> u64 \<Rightarrow> u64" where
  "min_vruntime T [] m = m"
| "min_vruntime T (t # ts) m = min_vruntime T ts (if t_vruntime (T t) < m then t_vruntime (T t) else m)"

definition queue_vruntime :: "nat \<Rightarrow> kernel \<Rightarrow> u64" where
  "queue_vruntime c k =
     (let cs = k_sched k c; m = min_vruntime (k_task k) (cs_rq cs) (- 1)
      in case cs_current cs of
           None \<Rightarrow> m
         | Some p \<Rightarrow>
             if Some p \<noteq> cs_idle cs \<and> t_state (k_task k p) = TASK_RUNNING \<and> t_vruntime (k_task k p) < m
             then t_vruntime (k_task k p) else m)"

fun best_deadline :: "(tptr \<Rightarrow> task) \<Rightarrow> u64 \<Rightarrow> tptr list \<Rightarrow> u64 \<Rightarrow> tptr option \<Rightarrow> tptr option" where
  "best_deadline T V [] dl best = best"
| "best_deadline T V (t # ts) dl best =
     (if t_vruntime (T t) \<le> V \<and> t_deadline (T t) < dl
      then best_deadline T V ts (t_deadline (T t)) (Some t)
      else best_deadline T V ts dl best)"

fun least_vruntime :: "(tptr \<Rightarrow> task) \<Rightarrow> tptr list \<Rightarrow> u64 \<Rightarrow> tptr option \<Rightarrow> tptr option" where
  "least_vruntime T [] m best = best"
| "least_vruntime T (t # ts) m best =
     (if t_vruntime (T t) < m then least_vruntime T ts (t_vruntime (T t)) (Some t)
      else least_vruntime T ts m best)"

definition rq_dequeue :: "nat \<Rightarrow> kernel \<Rightarrow> kernel \<times> tptr option" where
  "rq_dequeue c k =
     (if cs_rq (k_sched k c) = [] then (k, None)
      else
        let m = queue_vruntime c k;
            k = (if m \<noteq> - 1 then upd_sched c (\<lambda>cs. cs\<lparr>cs_V_system := m\<rparr>) k else k);
            rq = cs_rq (k_sched k c);
            best = (case best_deadline (k_task k) (cs_V_system (k_sched k c)) rq (- 1) None of
                      Some t \<Rightarrow> Some t
                    | None \<Rightarrow> least_vruntime (k_task k) rq (- 1) None)
        in case best of
             None \<Rightarrow> (k, None)
           | Some t \<Rightarrow>
               (upd_sched c (\<lambda>cs. cs\<lparr>cs_rq := remove1 t (cs_rq cs), cs_queue_len := cs_queue_len cs - 1\<rparr>) k, Some t))"

section \<open>Operations on run queues\<close>

definition sched_add_task :: "tptr \<Rightarrow> nat \<Rightarrow> kernel \<Rightarrow> kernel" where
  "sched_add_task t c k = rq_enqueue c t (upd_task t (\<lambda>x. x\<lparr>t_state := TASK_RUNNABLE\<rparr>) k)"

definition sched_unblock :: "tptr \<Rightarrow> kernel \<Rightarrow> kernel" where
  "sched_unblock t k =
     (if t_state (k_task k t) \<noteq> TASK_BLOCKED then k
      else rq_enqueue (t_cpu_id (k_task k t)) t (upd_task t (\<lambda>x. x\<lparr>t_state := TASK_RUNNABLE\<rparr>) k))"

fun min_queue_len :: "(nat \<Rightarrow> cpu_sched) \<Rightarrow> nat \<Rightarrow> u32" where
  "min_queue_len S 0 = - 1"
| "min_queue_len S (Suc n) =
     (let m = min_queue_len S n in if cs_queue_len (S n) < m then cs_queue_len (S n) else m)"

fun round_robin :: "(nat \<Rightarrow> cpu_sched) \<Rightarrow> u32 \<Rightarrow> nat list \<Rightarrow> nat" where
  "round_robin S m [] = 0"
| "round_robin S m (i # is) = (if cs_queue_len (S i) = m then i else round_robin S m is)"

definition sched_pick_cpu :: "nat \<Rightarrow> kernel \<Rightarrow> kernel \<times> nat" where
  "sched_pick_cpu ncpus k =
     (if ncpus = 1 then (k, 0)
      else
        let m = min_queue_len (k_sched k) ncpus;
            rr = k_rr_cpu k + 1;
            start = unat rr mod ncpus
        in (k\<lparr>k_rr_cpu := rr\<rparr>, round_robin (k_sched k) m (map (\<lambda>j. (start + j) mod ncpus) [0..<ncpus])))"

definition sched_set_priority :: "tptr \<Rightarrow> u8 \<Rightarrow> kernel \<Rightarrow> kernel" where
  "sched_set_priority t prio k =
     (let prio = (if unat prio \<ge> NPRIO then of_nat NPRIO - 1 else prio);
          w = prio_to_weight ! unat prio;
          w = (if w = 0 then 1 else w)
      in upd_task t (\<lambda>x. x\<lparr>t_priority := prio, t_weight := w, t_ticks_used := 0,
                           t_deadline := virtual_deadline (t_vruntime x) (t_slice_ticks x) w\<rparr>) k)"

section \<open>What is dequeued\<close>

lemma min_vruntime_le: "min_vruntime T ts m \<le> m \<and> (\<forall>t \<in> set ts. min_vruntime T ts m \<le> t_vruntime (T t))"
proof (induction ts arbitrary: m)
  case (Cons t ts)
  let ?m = "if t_vruntime (T t) < m then t_vruntime (T t) else m"
  have "?m \<le> m" "?m \<le> t_vruntime (T t)" by auto
  then show ?case using Cons.IH [of ?m] by (auto intro: order.trans)
qed simp

lemma min_vruntime_least: "(\<forall>t \<in> set ts. x \<le> t_vruntime (T t)) \<Longrightarrow> x \<le> m \<Longrightarrow> x \<le> min_vruntime T ts m"
  by (induction ts arbitrary: m) auto

lemma best_deadline_cases:
  obtains (same) "best_deadline T V ts dl best = best" "\<forall>t \<in> set ts. t_vruntime (T t) \<le> V \<longrightarrow> dl \<le> t_deadline (T t)"
    | (found) t where "best_deadline T V ts dl best = Some t" "t \<in> set ts" "t_vruntime (T t) \<le> V" "t_deadline (T t) < dl"
        "\<forall>u \<in> set ts. t_vruntime (T u) \<le> V \<longrightarrow> t_deadline (T t) \<le> t_deadline (T u)"
proof (induction ts arbitrary: dl best thesis)
  case (Cons x xs)
  show ?case
  proof (cases "t_vruntime (T x) \<le> V \<and> t_deadline (T x) < dl")
    case True
    show ?thesis
      by (rule Cons.IH [of "t_deadline (T x)" "Some x"]) (use True Cons.prems(2) in \<open>fastforce+\<close>)
  next
    case False
    show ?thesis
    proof (rule Cons.IH [of dl best], goal_cases)
      case 1 then show ?case using False by (intro Cons.prems(1)) auto
    next
      case (2 t) then show ?case using False by (intro Cons.prems(2) [of t]) (auto dest: order.strict_implies_order)
    qed
  qed
qed simp

lemma least_vruntime_cases:
  obtains (same) "least_vruntime T ts m best = best" "\<forall>t \<in> set ts. m \<le> t_vruntime (T t)"
    | (found) t where "least_vruntime T ts m best = Some t" "t \<in> set ts" "t_vruntime (T t) < m"
        "\<forall>u \<in> set ts. t_vruntime (T t) \<le> t_vruntime (T u)"
proof (induction ts arbitrary: m best thesis)
  case (Cons x xs)
  show ?case
  proof (cases "t_vruntime (T x) < m")
    case True
    show ?thesis by (rule Cons.IH [of "t_vruntime (T x)" "Some x"]) (use True Cons.prems(2) in \<open>fastforce+\<close>)
  next
    case False
    show ?thesis
    proof (rule Cons.IH [of m best], goal_cases)
      case 1 then show ?case using False by (intro Cons.prems(1)) auto
    next
      case (2 t) then show ?case using False by (intro Cons.prems(2) [of t]) auto
    qed
  qed
qed simp

lemma queue_vruntime_le: "t \<in> set (cs_rq (k_sched k c)) \<Longrightarrow> queue_vruntime c k \<le> t_vruntime (k_task k t)"
  using min_vruntime_le [of "k_task k" "cs_rq (k_sched k c)" "- 1"]
  by (auto simp: queue_vruntime_def Let_def split: option.split intro: order.trans)

definition after_dequeue :: "nat \<Rightarrow> u64 \<Rightarrow> tptr \<Rightarrow> kernel \<Rightarrow> kernel" where
  "after_dequeue c V t k =
     upd_sched c (\<lambda>cs. cs\<lparr>cs_V_system := V, cs_rq := remove1 t (cs_rq cs), cs_queue_len := cs_queue_len cs - 1\<rparr>) k"

lemma upd_sched_twice: "upd_sched c f (upd_sched c g k) = upd_sched c (\<lambda>cs. f (g cs)) k"
  by (simp add: upd_sched_def)

lemma rq_dequeue_cases:
  obtains (none) V where "rq_dequeue c k = (upd_sched c (\<lambda>cs. cs\<lparr>cs_V_system := V\<rparr>) k, None)"
        "\<forall>t \<in> set (cs_rq (k_sched k c)). t_vruntime (k_task k t) = - 1"
    | (some) V t where "rq_dequeue c k = (after_dequeue c V t k, Some t)" "t \<in> set (cs_rq (k_sched k c))"
        "\<forall>u \<in> set (cs_rq (k_sched k c)). t_vruntime (k_task k t) \<le> t_vruntime (k_task k u)"
        "V = (if queue_vruntime c k = - 1 then cs_V_system (k_sched k c) else queue_vruntime c k)"
        "\<forall>u \<in> set (cs_rq (k_sched k c)). t_vruntime (k_task k u) \<le> V \<and> t_deadline (k_task k u) \<noteq> - 1 \<longrightarrow>
           t_vruntime (k_task k t) \<le> V \<and> t_deadline (k_task k t) \<le> t_deadline (k_task k u)"
proof -
  let ?rq = "cs_rq (k_sched k c)" and ?m = "queue_vruntime c k"
  define V where "V = (if ?m = - 1 then cs_V_system (k_sched k c) else ?m)"
  have id: "upd_sched c (\<lambda>cs. cs\<lparr>cs_V_system := cs_V_system (k_sched k c)\<rparr>) k = k" by (simp add: upd_sched_def)
  have k1: "(if ?m \<noteq> - 1 then upd_sched c (\<lambda>cs. cs\<lparr>cs_V_system := ?m\<rparr>) k else k) = upd_sched c (\<lambda>cs. cs\<lparr>cs_V_system := V\<rparr>) k"
    by (simp add: V_def id)
  let ?best = "case best_deadline (k_task k) V ?rq (- 1) None of Some t \<Rightarrow> Some t | None \<Rightarrow> least_vruntime (k_task k) ?rq (- 1) None"
  have eq: "rq_dequeue c k = (if ?rq = [] then (k, None) else case ?best of
      None \<Rightarrow> (upd_sched c (\<lambda>cs. cs\<lparr>cs_V_system := V\<rparr>) k, None) | Some t \<Rightarrow> (after_dequeue c V t k, Some t))"
    unfolding rq_dequeue_def Let_def k1 by (simp add: after_dequeue_def upd_sched_twice split: option.split)
  show thesis
  proof (cases "?best")
    case None
    then have "least_vruntime (k_task k) ?rq (- 1) None = None" by (auto split: option.splits)
    then have "\<forall>t \<in> set ?rq. t_vruntime (k_task k t) = - 1"
      by (cases rule: least_vruntime_cases [of "k_task k" ?rq "- 1" None]) (auto simp: word_order.extremum_unique)
    then show thesis using none [of "if ?rq = [] then cs_V_system (k_sched k c) else V"] eq None id by auto
  next
    case (Some t)
    have ne: "?rq \<noteq> []" using Some by auto
    show thesis
    proof (cases rule: best_deadline_cases [of "k_task k" V ?rq "- 1" None])
      case same
      then have l: "least_vruntime (k_task k) ?rq (- 1) None = Some t" using Some by simp
      show thesis
        by (cases rule: least_vruntime_cases [of "k_task k" ?rq "- 1" None])
          (use l same eq Some ne some [of V t] V_def in \<open>auto simp: word_order.extremum_unique\<close>)
    next
      case (found u)
      then have u: "u = t" using Some by simp
      have "t_vruntime (k_task k t) \<le> t_vruntime (k_task k v)" if v: "v \<in> set ?rq" for v
      proof (cases "?m = - 1")
        case True
        then show ?thesis using queue_vruntime_le [OF v] by (simp add: word_order.extremum_unique)
      next
        case False
        then show ?thesis using queue_vruntime_le [OF v] found(3) u by (auto simp: V_def intro: order.trans)
      qed
      then show thesis using some [of V t] found u eq Some ne V_def by auto
    qed
  qed
qed

end
