(* ===== verification/Task_Tree.thy ===== *)
theory Task_Tree
  imports Cred Runq
begin

text \<open>
  Sending signals (\<^verbatim>\<open>ipc/signal.c\<close>), the tree of tasks, task creation and the part of
  task destruction that concerns the kernel's own tables (\<^verbatim>\<open>sched/task.c\<close>).  Each tree
  operation runs under \<^verbatim>\<open>g_task_tree_lock\<close>.  The outcome of a page or heap allocation
  is an argument of the operation that makes it.
\<close>

section \<open>Sending signals\<close>

abbreviation NSIGS :: nat where "NSIGS \<equiv> 64"
abbreviation SIGHUP :: nat where "SIGHUP \<equiv> 1"
abbreviation SIGINT :: nat where "SIGINT \<equiv> 2"
abbreviation SIGQUIT :: nat where "SIGQUIT \<equiv> 3"
abbreviation SIGILL :: nat where "SIGILL \<equiv> 4"
abbreviation SIGABRT :: nat where "SIGABRT \<equiv> 6"
abbreviation SIGBUS :: nat where "SIGBUS \<equiv> 7"
abbreviation SIGFPE :: nat where "SIGFPE \<equiv> 8"
abbreviation SIGKILL :: nat where "SIGKILL \<equiv> 9"
abbreviation SIGUSR1 :: nat where "SIGUSR1 \<equiv> 10"
abbreviation SIGSEGV :: nat where "SIGSEGV \<equiv> 11"
abbreviation SIGUSR2 :: nat where "SIGUSR2 \<equiv> 12"
abbreviation SIGPIPE :: nat where "SIGPIPE \<equiv> 13"
abbreviation SIGALRM :: nat where "SIGALRM \<equiv> 14"
abbreviation SIGTERM :: nat where "SIGTERM \<equiv> 15"
abbreviation SIGCHLD :: nat where "SIGCHLD \<equiv> 17"
abbreviation SIGSTOP :: nat where "SIGSTOP \<equiv> 19"
abbreviation SIGXCPU :: nat where "SIGXCPU \<equiv> 24"
abbreviation SIGXFSZ :: nat where "SIGXFSZ \<equiv> 25"

definition sig_bit :: "nat \<Rightarrow> u64" where "sig_bit sig = push_bit sig 1"

definition may_signal :: "cred option \<Rightarrow> task \<Rightarrow> bool" where
  "may_signal sender t =
     (case sender of
        None \<Rightarrow> True
      | Some c \<Rightarrow> capable c CAP_KILL \<or> cr_euid c = cr_uid (t_cred t) \<or> cr_uid c = cr_uid (t_cred t))"

definition signal_send_from_cred :: "tptr option \<Rightarrow> int \<Rightarrow> cred option \<Rightarrow> kernel \<Rightarrow> kernel" where
  "signal_send_from_cred tp sig sender k =
     (case tp of
        None \<Rightarrow> k
      | Some t \<Rightarrow>
          if sig \<le> 0 \<or> sig \<ge> int NSIGS then k
          else if \<not> may_signal sender (k_task k t) then k
          else sched_unblock t (upd_task t (\<lambda>x. x\<lparr>t_sig_pending := t_sig_pending x OR sig_bit (nat sig)\<rparr>) k))"

definition signal_send :: "tptr \<Rightarrow> nat \<Rightarrow> kernel \<Rightarrow> kernel" where
  "signal_send t sig k = signal_send_from_cred (Some t) (int sig) None k"

fun signal_send_each :: "(task \<Rightarrow> bool) \<Rightarrow> nat \<Rightarrow> nat list \<Rightarrow> kernel \<Rightarrow> kernel" where
  "signal_send_each P sig [] k = k"
| "signal_send_each P sig (i # is) k =
     signal_send_each P sig is
       (case task_get_from_table k i of
          None \<Rightarrow> k
        | Some t \<Rightarrow> if t_is_kthread (k_task k t) \<or> \<not> P (k_task k t) then k else signal_send t sig k)"

definition signal_send_pgrp :: "u32 \<Rightarrow> int \<Rightarrow> kernel \<Rightarrow> kernel" where
  "signal_send_pgrp pgid sig k =
     (if pgid = 0 \<or> sig \<le> 0 \<or> sig \<ge> int NSIGS then k
      else signal_send_each (\<lambda>t. t_pgid t = pgid) (nat sig) [1..<TASK_TABLE_SIZE] k)"

definition signal_send_session :: "u32 \<Rightarrow> int \<Rightarrow> kernel \<Rightarrow> kernel" where
  "signal_send_session sid sig k =
     (if sid = 0 \<or> sig \<le> 0 \<or> sig \<ge> int NSIGS then k
      else signal_send_each (\<lambda>t. t_sid t = sid) (nat sig) [1..<TASK_TABLE_SIZE] k)"

section \<open>The tree of tasks\<close>

definition task_add_child :: "tptr \<Rightarrow> tptr \<Rightarrow> kernel \<Rightarrow> kernel" where
  "task_add_child parent child k =
     (let k = upd_task child (\<lambda>x. x\<lparr>t_parent := Some parent, t_ppid := t_pid (k_task k parent)\<rparr>) k
      in upd_task parent (\<lambda>x. x\<lparr>t_children := child # t_children x\<rparr>) k)"

definition task_remove_child :: "tptr \<Rightarrow> tptr \<Rightarrow> kernel \<Rightarrow> kernel" where
  "task_remove_child parent child k =
     upd_task child (\<lambda>x. x\<lparr>t_parent := None\<rparr>)
       (upd_task parent (\<lambda>x. x\<lparr>t_children := remove1 child (t_children x)\<rparr>) k)"

fun move_children :: "tptr \<Rightarrow> tptr list \<Rightarrow> kernel \<Rightarrow> kernel \<times> bool" where
  "move_children new_parent [] k = (k, False)"
| "move_children new_parent (child # cs) k =
     (let k1 = upd_task child (\<lambda>x. x\<lparr>t_parent := Some new_parent, t_ppid := t_pid (k_task k new_parent)\<rparr>) k;
          k2 = upd_task new_parent (\<lambda>x. x\<lparr>t_children := child # t_children x\<rparr>) k1;
          (k3, z) = move_children new_parent cs k2
      in (k3, t_state (k_task k2 child) = TASK_ZOMBIE \<or> z))"

definition task_reparent_children :: "tptr \<Rightarrow> tptr \<Rightarrow> kernel \<Rightarrow> kernel" where
  "task_reparent_children parent new_parent k =
     (if parent = new_parent then k
      else
        let (k, has_zombie) = move_children new_parent (t_children (k_task k parent)) k;
            k = upd_task parent (\<lambda>x. x\<lparr>t_children := []\<rparr>) k
        in if has_zombie then sched_unblock new_parent (signal_send new_parent SIGCHLD k) else k)"

section \<open>Creation and destruction\<close>

abbreviation USER_TID_MAX :: u32 where "USER_TID_MAX \<equiv> 511"
abbreviation KTHREAD_TID_MIN :: u32 where "KTHREAD_TID_MIN \<equiv> 512"

definition USER_HEAP_BASE :: u64 where "USER_HEAP_BASE = 0x10000000"
definition USER_MMAP_BASE :: u64 where "USER_MMAP_BASE = 0x200000000000"

definition next_tid :: "bool \<Rightarrow> kernel \<Rightarrow> kernel \<times> u32" where
  "next_tid kthread k =
     (if kthread
      then let n = (if k_next_kthread_tid k < KTHREAD_TID_MIN then KTHREAD_TID_MIN else k_next_kthread_tid k)
           in (k\<lparr>k_next_kthread_tid := n - 1\<rparr>, n)
      else let n = (if k_next_user_tid k > USER_TID_MAX then 1 else k_next_user_tid k)
           in (k\<lparr>k_next_user_tid := n + 1\<rparr>, n))"

text \<open>The initial contents of a task.\<close>

definition fresh_task :: "string option \<Rightarrow> nat \<Rightarrow> bool \<Rightarrow> u32 \<Rightarrow> u64 list option \<Rightarrow> nat option \<Rightarrow> task" where
  "fresh_task name cpu kthread tid handlers mailbox =
     task_zero\<lparr>t_state := TASK_RUNNABLE, t_tid := tid, t_pid := tid, t_cpu_id := cpu, t_ppid := 0,
       t_pgid := tid, t_sid := tid, t_cred := cred_init, t_umask := 18, t_is_kthread := kthread,
       t_priority := 4, t_weight := 1024, t_slice_ticks := 10, t_sig_handlers := handlers,
       t_mailbox := mailbox, t_brk_base := USER_HEAP_BASE, t_brk_current := USER_HEAP_BASE,
       t_mmap_next := USER_MMAP_BASE,
       t_name := take 31 (case name of None \<Rightarrow> ''unnamed'' | Some n \<Rightarrow> n)\<rparr>"

record task_memory =
  tm_page :: "tptr option"
  tm_stack :: bool
  tm_fpu :: bool
  tm_handlers :: bool
  tm_mailbox :: "nat option"

definition task_alloc_common :: "task_memory \<Rightarrow> string option \<Rightarrow> nat \<Rightarrow> bool \<Rightarrow> kernel \<Rightarrow> kernel \<times> tptr option" where
  "task_alloc_common mem name cpu kthread k =
     (case tm_page mem of
        None \<Rightarrow> (k, None)
      | Some t \<Rightarrow>
          if \<not> tm_stack mem \<or> \<not> tm_fpu mem then (k, None)
          else
            let (k, tid) = next_tid kthread k;
                h = (if tm_handlers mem then Some (replicate NSIGS 0) else None);
                k = upd_task t (\<lambda>_. fresh_task name cpu kthread tid h (tm_mailbox mem)) k
            in (task_register t k, Some t))"

definition task_create :: "task_memory \<Rightarrow> string option \<Rightarrow> nat \<Rightarrow> kernel \<Rightarrow> kernel \<times> tptr option" where
  "task_create mem name cpu k =
     (case task_alloc_common mem name cpu True k of
        (k, None) \<Rightarrow> (k, None)
      | (k, Some t) \<Rightarrow> (upd_task t (\<lambda>x. x\<lparr>t_is_user := False\<rparr>) k, Some t))"

definition task_create_user :: "task_memory \<Rightarrow> string option \<Rightarrow> nat \<Rightarrow> kernel \<Rightarrow> kernel \<times> tptr option" where
  "task_create_user mem name cpu k =
     (case task_alloc_common mem name cpu False k of
        (k, None) \<Rightarrow> (k, None)
      | (k, Some t) \<Rightarrow>
          let k = upd_task t (\<lambda>x. x\<lparr>t_is_user := True, t_is_kthread := False\<rparr>) k
          in (if t_pid (k_task k t) = 1 \<and> k_init_task k = None then k\<lparr>k_init_task := Some t\<rparr> else k, Some t))"

definition task_destroy :: "tptr \<Rightarrow> kernel \<Rightarrow> kernel" where
  "task_destroy t k =
     (let k = (case k_init_task k of
                 None \<Rightarrow> k
               | Some i \<Rightarrow> if t \<noteq> i then task_reparent_children t i k else k);
          k = (case t_parent (k_task k t) of None \<Rightarrow> k | Some p \<Rightarrow> task_remove_child p t k);
          k = task_unregister t k
      in upd_task t (\<lambda>x. x\<lparr>t_sig_handlers := None, t_sigactions := None, t_mailbox := None, t_vma_list := []\<rparr>) k)"

definition sched_spawn :: "nat \<Rightarrow> task_memory \<Rightarrow> string option \<Rightarrow> kernel \<Rightarrow> kernel \<times> tptr option" where
  "sched_spawn ncpus mem name k =
     (let (k, cpu) = sched_pick_cpu ncpus k
      in case task_create mem name cpu k of
           (k, None) \<Rightarrow> (k, None)
         | (k, Some t) \<Rightarrow> (sched_add_task t cpu k, Some t))"

section \<open>Task identifiers\<close>

text \<open>C24: identifiers of live tasks are given out again.  Once the counter of user identifiers
  has passed 511 it restarts at one without looking at the table: the next process gets
  identifier 1, takes over the table entry of the live first process and with it every
  lookup, signal and wait for that identifier.\<close>

theorem user_tid_reused:
  assumes "k_next_user_tid k = 512" "task_lookup k 1 = Some i" "length (k_table k) = TASK_TABLE_SIZE"
    "tm_page mem = Some t" "tm_stack mem" "tm_fpu mem" "t \<noteq> i"
  shows "\<exists>k'. task_create_user mem name cpu k = (k', Some t) \<and> t_tid (k_task k' t) = 1 \<and>
    k_task k' i = k_task k i \<and> task_lookup k' 1 = Some t"
  using assms
  by (auto simp: task_create_user_def task_alloc_common_def next_tid_def task_register_def task_lookup_def
      fresh_task_def TASK_TABLE_SIZE_def upd_task_def Let_def)

theorem user_tid_reused_witness:
  "\<exists>k'. task_create_user \<lparr>tm_page = Some 9, tm_stack = True, tm_fpu = True, tm_handlers = True, tm_mailbox = None\<rparr>
     (Some ''sh'') 0 (kernel_zero\<lparr>k_next_user_tid := 512, k_table := (replicate TASK_TABLE_SIZE None)[1 := Some 4]\<rparr>) = (k', Some 9) \<and>
     task_lookup k' 1 = Some 9"
  using user_tid_reused [of "kernel_zero\<lparr>k_next_user_tid := 512, k_table := (replicate TASK_TABLE_SIZE None)[1 := Some 4]\<rparr>" 4
      "\<lparr>tm_page = Some 9, tm_stack = True, tm_fpu = True, tm_handlers = True, tm_mailbox = None\<rparr>" 9 "Some ''sh''" 0]
  by (auto simp: task_lookup_def TASK_TABLE_SIZE_def)

end
