(* ===== verification/Ktimer.thy ===== *)
theory Ktimer
  imports Exo_Prelude
begin

text \<open>
  The kernel's software timers (\<^verbatim>\<open>lib/timer.c\<close>).  A timer is named by a number; the
  chain of \<^verbatim>\<open>next\<close> pointers that starts at \<^verbatim>\<open>g_timer_head\<close> is the list \<open>tm_chain\<close>.
  What a callback does to the timers and to the rest of the kernel is the argument
  \<open>fire\<close> of the tick.
\<close>

section \<open>Timers and operations\<close>

record ktimer =
  kt_deadline :: u64
  kt_callback :: "nat option"
  kt_active :: bool

record timers =
  tm_timer :: "nat \<Rightarrow> ktimer"
  tm_chain :: "nat list"

definition ktimer_subsys_init :: "timers \<Rightarrow> timers" where
  "ktimer_subsys_init s = s\<lparr>tm_chain := []\<rparr>"

definition ktimer_init :: "nat \<Rightarrow> nat option \<Rightarrow> timers \<Rightarrow> timers" where
  "ktimer_init t cb s =
     s\<lparr>tm_timer := (tm_timer s)(t := \<lparr>kt_deadline = 0, kt_callback = cb, kt_active = False\<rparr>)\<rparr>"

definition set_active :: "nat \<Rightarrow> bool \<Rightarrow> timers \<Rightarrow> timers" where
  "set_active t a s = s\<lparr>tm_timer := (tm_timer s)(t := (tm_timer s t)\<lparr>kt_active := a\<rparr>)\<rparr>"

definition remove_locked :: "nat \<Rightarrow> timers \<Rightarrow> timers" where
  "remove_locked t s =
     (if \<not> kt_active (tm_timer s t) then s
      else set_active t False (s\<lparr>tm_chain := remove1 t (tm_chain s)\<rparr>))"

fun insert_chain :: "(nat \<Rightarrow> u64) \<Rightarrow> nat \<Rightarrow> nat list \<Rightarrow> nat list" where
  "insert_chain dl t [] = [t]"
| "insert_chain dl t (p # ps) = (if dl p \<le> dl t then p # insert_chain dl t ps else t # p # ps)"

definition insert_locked :: "nat \<Rightarrow> timers \<Rightarrow> timers" where
  "insert_locked t s =
     set_active t True (s\<lparr>tm_chain := insert_chain (\<lambda>x. kt_deadline (tm_timer s x)) t (tm_chain s)\<rparr>)"

definition ktimer_start :: "u64 \<Rightarrow> nat \<Rightarrow> u32 \<Rightarrow> timers \<Rightarrow> timers" where
  "ktimer_start now t ms s =
     (let s = (if kt_active (tm_timer s t) then remove_locked t s else s);
          s = s\<lparr>tm_timer := (tm_timer s)(t := (tm_timer s t)\<lparr>kt_deadline := now + ucast ms\<rparr>)\<rparr>
      in insert_locked t s)"

definition ktimer_cancel :: "nat \<Rightarrow> timers \<Rightarrow> timers" where
  "ktimer_cancel t s = remove_locked t s"

definition ktimer_active :: "nat \<Rightarrow> timers \<Rightarrow> bool" where
  "ktimer_active t s = kt_active (tm_timer s t)"

text \<open>The head leaves the chain before its callback runs.\<close>

definition expire_head :: "nat \<Rightarrow> nat list \<Rightarrow> timers \<Rightarrow> timers" where
  "expire_head t ts s = set_active t False (s\<lparr>tm_chain := ts\<rparr>)"

partial_function (option) ktimer_tick ::
    "u64 \<Rightarrow> (nat \<Rightarrow> timers \<times> 'e \<Rightarrow> timers \<times> 'e) \<Rightarrow> timers \<times> 'e \<Rightarrow> (timers \<times> 'e) option" where
  "ktimer_tick current fire se =
     (case tm_chain (fst se) of
        [] \<Rightarrow> Some se
      | t # ts \<Rightarrow>
          if kt_deadline (tm_timer (fst se) t) \<le> current
          then
            let s = expire_head t ts (fst se)
            in ktimer_tick current fire
                 (if kt_callback (tm_timer s t) \<noteq> None then fire t (s, snd se) else (s, snd se))
          else Some se)"

section \<open>The chain\<close>

abbreviation dl :: "timers \<Rightarrow> nat \<Rightarrow> u64" where "dl s t \<equiv> kt_deadline (tm_timer s t)"

text \<open>The chain is ordered by deadline, holds no timer twice and holds exactly the
  active timers.\<close>

definition timers_ok :: "timers \<Rightarrow> bool" where
  "timers_ok s \<longleftrightarrow> distinct (tm_chain s) \<and> sorted (map (dl s) (tm_chain s)) \<and>
     (\<forall>t. kt_active (tm_timer s t) \<longleftrightarrow> t \<in> set (tm_chain s))"

definition expired :: "u64 \<Rightarrow> timers \<Rightarrow> nat set" where
  "expired current s = {t. kt_active (tm_timer s t) \<and> dl s t \<le> current}"

lemma set_active_simps [simp]:
  "tm_chain (set_active t a s) = tm_chain s" "dl (set_active t a s) x = dl s x"
  "kt_callback (tm_timer (set_active t a s) x) = kt_callback (tm_timer s x)"
  "kt_active (tm_timer (set_active t a s) x) = (if x = t then a else kt_active (tm_timer s x))"
  by (simp_all add: set_active_def)

lemma set_insert_chain [simp]: "set (insert_chain d t ps) = insert t (set ps)"
  by (induction ps) auto

lemma distinct_insert_chain: "distinct ps \<Longrightarrow> t \<notin> set ps \<Longrightarrow> distinct (insert_chain d t ps)"
  by (induction ps) auto

lemma sorted_insert_chain: "sorted (map d ps) \<Longrightarrow> sorted (map d (insert_chain d t ps))"
  by (induction ps) (auto simp: linorder_not_le intro: order.trans less_imp_le)

lemma insert_chain_cong: "(\<And>x. x \<in> insert t (set ps) \<Longrightarrow> d x = d' x) \<Longrightarrow> insert_chain d t ps = insert_chain d' t ps"
  by (induction ps) auto

lemma remove_locked_simps [simp]: "dl (remove_locked t s) x = dl s x"
  "kt_callback (tm_timer (remove_locked t s) x) = kt_callback (tm_timer s x)"
  by (simp_all add: remove_locked_def)

lemma sorted_map_remove1: "sorted (map d xs) \<Longrightarrow> sorted (map d (remove1 x xs))"
proof (induction xs)
  case (Cons a xs)
  have "set (remove1 x xs) \<subseteq> set xs" by (rule set_remove1_subset)
  then show ?case using Cons by auto
qed simp

lemma remove_locked_ok:
  assumes "timers_ok s"
  shows "timers_ok (remove_locked t s)"
    "kt_active (tm_timer (remove_locked t s) x) \<longleftrightarrow> x \<noteq> t \<and> kt_active (tm_timer s x)"
  using assms sorted_map_remove1 [of "dl s" "tm_chain s" t]
  by (auto simp: timers_ok_def remove_locked_def)

lemma ktimer_start_ok:
  fixes s now t ms
  defines "s' \<equiv> ktimer_start now t ms s"
  assumes "timers_ok s"
  shows "timers_ok s'" "kt_active (tm_timer s' x) \<longleftrightarrow> x = t \<or> kt_active (tm_timer s x)"
    "dl s' x = (if x = t then now + ucast ms else dl s x)" "kt_callback (tm_timer s' x) = kt_callback (tm_timer s x)"
proof -
  define r where "r = (if kt_active (tm_timer s t) then remove_locked t s else s)"
  have r: "timers_ok r" "kt_active (tm_timer r x) \<longleftrightarrow> x \<noteq> t \<and> kt_active (tm_timer s x)" "dl r x = dl s x"
    "kt_callback (tm_timer r x) = kt_callback (tm_timer s x)" for x
    using remove_locked_ok(1) [OF assms(2), of t] remove_locked_ok(2) [OF assms(2), of t x] by (auto simp: r_def assms(2))
  define q where "q = r\<lparr>tm_timer := (tm_timer r)(t := (tm_timer r t)\<lparr>kt_deadline := now + ucast ms\<rparr>)\<rparr>"
  have s': "s' = insert_locked t q" by (simp add: s'_def ktimer_start_def r_def q_def Let_def)
  have t: "t \<notin> set (tm_chain r)" using r(1,2) by (auto simp: timers_ok_def)
  then have m: "map (dl q) (tm_chain r) = map (dl r) (tm_chain r)" by (auto simp: q_def)
  have q: "distinct (tm_chain r)" "sorted (map (dl q) (tm_chain r))" "tm_chain q = tm_chain r"
    using r(1) unfolding timers_ok_def m by (simp_all add: q_def)
  have act: "kt_active (tm_timer q x) = kt_active (tm_timer r x)" for x by (simp add: q_def)
  show "kt_active (tm_timer s' x) \<longleftrightarrow> x = t \<or> kt_active (tm_timer s x)"
    "dl s' x = (if x = t then now + ucast ms else dl s x)" "kt_callback (tm_timer s' x) = kt_callback (tm_timer s x)"
    using r(2-4) [of x] by (auto simp: s' insert_locked_def q_def)
  show "timers_ok s'"
    using q(3) r(1) distinct_insert_chain [OF q(1) t, of "dl q"] sorted_insert_chain [OF q(2), of t] act
    by (auto simp: s' insert_locked_def timers_ok_def)
qed

section \<open>The tick\<close>

lemma finite_expired: "timers_ok s \<Longrightarrow> finite (expired cur s)"
  by (rule finite_subset [of _ "set (tm_chain s)"]) (auto simp: timers_ok_def expired_def)

lemma expire_head_simps [simp]:
  "tm_chain (expire_head t ts s) = ts" "dl (expire_head t ts s) x = dl s x"
  "kt_callback (tm_timer (expire_head t ts s) x) = kt_callback (tm_timer s x)"
  "kt_active (tm_timer (expire_head t ts s) x) \<longleftrightarrow> x \<noteq> t \<and> kt_active (tm_timer s x)"
  by (simp_all add: expire_head_def)

lemma expire_head_ok:
  assumes "timers_ok s" "tm_chain s = t # ts"
  shows "timers_ok (expire_head t ts s)" "expired cur (expire_head t ts s) = expired cur s - {t}"
  using assms by (auto simp: timers_ok_def expired_def)

lemma head_not_expired:
  assumes "timers_ok s" "tm_chain s = t # ts" "\<not> dl s t \<le> cur"
  shows "expired cur s = {}"
proof -
  have "dl s t \<le> dl s x" if "x \<in> set (t # ts)" for x using assms(1,2) that by (auto simp: timers_ok_def)
  then have "\<not> dl s x \<le> cur" if "x \<in> set (t # ts)" for x using assms(3) that by (meson order.trans)
  then show ?thesis using assms(1,2) unfolding timers_ok_def expired_def by auto
qed

lemma head_expired:
  assumes "timers_ok s" "tm_chain s = t # ts" "dl s t \<le> cur"
  shows "t \<in> expired cur s"
  using assms by (auto simp: timers_ok_def expired_def)

lemma tick_drains:
  assumes fire: "\<And>t s e. timers_ok s \<Longrightarrow> timers_ok (fst (fire t (s, e))) \<and> expired cur (fst (fire t (s, e))) \<subseteq> expired cur s"
  shows "timers_ok s \<Longrightarrow> \<exists>s' e'. ktimer_tick cur fire (s, e) = Some (s', e') \<and> timers_ok s' \<and> expired cur s' = {}"
proof (induction "card (expired cur s)" arbitrary: s e rule: less_induct)
  case less
  show ?case
  proof (cases "tm_chain s")
    case Nil
    then have "expired cur s = {}" using less.prems by (auto simp: timers_ok_def expired_def)
    then show ?thesis using Nil less.prems by (subst ktimer_tick.simps) simp
  next
    case (Cons t ts)
    show ?thesis
    proof (cases "dl s t \<le> cur")
      case False
      then have "ktimer_tick cur fire (s, e) = Some (s, e)" using Cons by (subst ktimer_tick.simps) simp
      then show ?thesis using less.prems head_not_expired [OF less.prems Cons False] by simp
    next
      case True
      let ?h = "expire_head t ts s"
      let ?n = "if kt_callback (tm_timer ?h t) \<noteq> None then fire t (?h, e) else (?h, e)"
      note h = expire_head_ok [OF less.prems Cons]
      have n: "timers_ok (fst ?n)" "expired cur (fst ?n) \<subseteq> expired cur s - {t}"
        using fire [OF h(1), of t e] h by auto
      have "expired cur (fst ?n) \<subset> expired cur s" using n(2) head_expired [OF less.prems Cons True] by auto
      then have "card (expired cur (fst ?n)) < card (expired cur s)"
        by (rule psubset_card_mono [OF finite_expired [OF less.prems]])
      note ih = less.hyps [OF this n(1), of "snd ?n", unfolded prod.collapse]
      have step: "ktimer_tick cur fire (s, e) = ktimer_tick cur fire ?n"
        by (subst ktimer_tick.simps) (simp add: Cons True)
      show ?thesis using ih unfolding step .
    qed
  qed
qed

lemma tick_passive:
  assumes "timers_ok s"
  shows "\<exists>s'. ktimer_tick cur (\<lambda>t (s, e). (s, e @ [t])) (s, e) =
      Some (s', e @ filter (\<lambda>t. kt_callback (tm_timer s t) \<noteq> None) (takeWhile (\<lambda>t. dl s t \<le> cur) (tm_chain s))) \<and>
    tm_chain s' = dropWhile (\<lambda>t. dl s t \<le> cur) (tm_chain s) \<and> (\<forall>x. dl s' x = dl s x) \<and>
    (\<forall>x. kt_active (tm_timer s' x) \<longleftrightarrow> kt_active (tm_timer s x) \<and> x \<notin> set (takeWhile (\<lambda>t. dl s t \<le> cur) (tm_chain s)))"
  using assms
proof (induction "tm_chain s" arbitrary: s e)
  case Nil
  then have "tm_chain s = []" by simp
  then show ?case by (subst ktimer_tick.simps) simp
next
  case (Cons t ts)
  let ?h = "expire_head t ts s"
  show ?case
  proof (cases "dl s t \<le> cur")
    case False
    then show ?thesis using Cons.hyps(2) [symmetric] by (subst ktimer_tick.simps) simp
  next
    case True
    note h = expire_head_ok [OF Cons.prems Cons.hyps(2) [symmetric]]
    let ?e = "if kt_callback (tm_timer s t) \<noteq> None then e @ [t] else e"
    have step: "ktimer_tick cur (\<lambda>t (s, e). (s, e @ [t])) (s, e) = ktimer_tick cur (\<lambda>t (s, e). (s, e @ [t])) (?h, ?e)"
      by (subst ktimer_tick.simps) (simp add: Cons.hyps(2) [symmetric] True)
    have "ts = tm_chain ?h" by simp
    from Cons.hyps(1) [OF this h(1), of ?e] obtain s' where
      ih: "ktimer_tick cur (\<lambda>t (s, e). (s, e @ [t])) (?h, ?e) =
          Some (s', ?e @ filter (\<lambda>t. kt_callback (tm_timer s t) \<noteq> None) (takeWhile (\<lambda>t. dl s t \<le> cur) ts))"
        "tm_chain s' = dropWhile (\<lambda>t. dl s t \<le> cur) ts" "\<forall>x. dl s' x = dl s x"
        "\<forall>x. kt_active (tm_timer s' x) \<longleftrightarrow> (x \<noteq> t \<and> kt_active (tm_timer s x)) \<and> x \<notin> set (takeWhile (\<lambda>t. dl s t \<le> cur) ts)"
      unfolding expire_head_simps by blast
    show ?thesis unfolding step ih(1) using ih(2-4) True by (intro exI [of _ s']) (simp add: Cons.hyps(2) [symmetric], blast)
  qed
qed

lemma takeWhile_expired:
  assumes "timers_ok s"
  shows "set (takeWhile (\<lambda>t. dl s t \<le> cur) (tm_chain s)) = expired cur s"
proof -
  have "set (takeWhile (\<lambda>t. dl s t \<le> cur) xs) = {t \<in> set xs. dl s t \<le> cur}" if "sorted (map (dl s) xs)" for xs
    using that by (induction xs) (auto intro: order.trans)
  then show ?thesis using assms by (auto simp: timers_ok_def expired_def)
qed

text \<open>The chain of timers stays ordered, free of duplicates and equal to the set of
  active timers under start and cancel.  Starting a timer, armed or not, makes it
  pending exactly once with the new deadline and leaves the others as they were;
  cancelling removes it and nothing else.\<close>

theorem ktimer_start_cancel:
  assumes "timers_ok s"
  shows "timers_ok (ktimer_start now t ms s) \<and> timers_ok (ktimer_cancel t s) \<and>
    (\<forall>x. ktimer_active x (ktimer_start now t ms s) \<longleftrightarrow> x = t \<or> ktimer_active x s) \<and>
    (\<forall>x. ktimer_active x (ktimer_cancel t s) \<longleftrightarrow> x \<noteq> t \<and> ktimer_active x s) \<and>
    dl (ktimer_start now t ms s) t = now + ucast ms \<and>
    (\<forall>x. x \<noteq> t \<longrightarrow> dl (ktimer_start now t ms s) x = dl s x)"
  using ktimer_start_ok [OF assms] remove_locked_ok [OF assms]
  by (simp add: ktimer_active_def ktimer_cancel_def)

text \<open>C18: the tick ends whenever the callbacks arm no timer that is already due, and then
  no due timer is pending; with callbacks that leave the timers alone, exactly the due
  timers fire, each once, in the order of their deadlines.\<close>

theorem ktimer_tick_fires:
  assumes "timers_ok s"
    and fire: "\<And>t s e. timers_ok s \<Longrightarrow> timers_ok (fst (fire t (s, e))) \<and> expired cur (fst (fire t (s, e))) \<subseteq> expired cur s"
    and all: "\<forall>t \<in> expired cur s. kt_callback (tm_timer s t) \<noteq> None"
  shows "(\<exists>s' e'. ktimer_tick cur fire (s, e) = Some (s', e') \<and> timers_ok s' \<and> expired cur s' = {}) \<and>
    (\<exists>s' ts. ktimer_tick cur (\<lambda>t (s, e). (s, e @ [t])) (s, []) = Some (s', ts) \<and>
       set ts = expired cur s \<and> distinct ts \<and> sorted (map (dl s) ts) \<and> expired cur s' = {})"
proof -
  let ?ts = "takeWhile (\<lambda>t. dl s t \<le> cur) (tm_chain s)"
  have "filter (\<lambda>t. kt_callback (tm_timer s t) \<noteq> None) ?ts = ?ts"
    using all takeWhile_expired [OF assms(1), of cur] by (auto intro!: filter_True)
  moreover obtain s' where s': "ktimer_tick cur (\<lambda>t (s, e). (s, e @ [t])) (s, []) =
      Some (s', filter (\<lambda>t. kt_callback (tm_timer s t) \<noteq> None) ?ts)"
    "\<forall>x. dl s' x = dl s x" "\<forall>x. kt_active (tm_timer s' x) \<longleftrightarrow> kt_active (tm_timer s x) \<and> x \<notin> set ?ts"
    using tick_passive [OF assms(1), of cur "[]"] by auto
  moreover have "distinct ?ts" "sorted (map (dl s) ?ts)"
    using assms(1) sorted_wrt_takeWhile [of "(\<le>)" "map (dl s) (tm_chain s)" "\<lambda>x. x \<le> cur"]
    by (simp_all add: timers_ok_def takeWhile_map comp_def)
  moreover have "expired cur s' = {}"
    using s'(2,3) takeWhile_expired [OF assms(1), of cur] by (auto simp: expired_def)
  ultimately show ?thesis using tick_drains [where fire = fire and e = e, OF fire assms(1)] takeWhile_expired [OF assms(1), of cur] by auto
qed

definition timers_example :: timers where
  "timers_example = ktimer_start 10 3 5 (ktimer_start 10 2 1 (ktimer_start 10 1 9
     \<lparr>tm_timer = (\<lambda>_. \<lparr>kt_deadline = 0, kt_callback = Some 0, kt_active = False\<rparr>), tm_chain = []\<rparr>))"

lemma timers_example_ok: "timers_ok timers_example"
  unfolding timers_example_def by (intro ktimer_start_ok(1)) (simp add: timers_ok_def)

theorem ktimer_start_cancel_witness:
  "timers_ok (ktimer_start 11 1 2 timers_example) \<and> dl (ktimer_start 11 1 2 timers_example) 1 = 13 \<and>
   \<not> ktimer_active 2 (ktimer_cancel 2 timers_example)"
  using ktimer_start_cancel [OF timers_example_ok, of 11 1 2] ktimer_start_cancel [OF timers_example_ok, of 11 2 2] by simp

theorem ktimer_tick_fires_witness:
  "\<exists>s'. ktimer_tick 15 (\<lambda>t (s, e). (s, e @ [t])) (timers_example, []) = Some (s', [2, 3])"
proof -
  have d: "dl timers_example 1 = 19" "dl timers_example 2 = 11" "dl timers_example 3 = 15" "tm_chain timers_example = [2, 3, 1]"
    "\<forall>t. kt_callback (tm_timer timers_example t) = Some 0"
    by (simp_all add: timers_example_def ktimer_start_def insert_locked_def set_active_def Let_def)
  have a: "kt_active (tm_timer timers_example t) \<longleftrightarrow> t \<in> {1, 2, 3}" for t
    using timers_example_ok d(4) by (auto simp: timers_ok_def)
  have ex: "expired 15 timers_example = {2, 3}" unfolding expired_def a using d by auto
  obtain s' ts where ts: "ktimer_tick 15 (\<lambda>t (s, e). (s, e @ [t])) (timers_example, []) = Some (s', ts)"
    "set ts = {2, 3}" "distinct ts" "sorted (map (dl timers_example) ts)"
    using ktimer_tick_fires [OF timers_example_ok, of "\<lambda>t se. se" 15 "()"] d(5) unfolding ex by auto
  have "length ts = 2" using distinct_card [OF ts(3)] ts(2) by simp
  then obtain a b where "ts = [a, b]" by (metis One_nat_def Suc_1 length_0_conv length_Suc_conv)
  then have "ts = [2, 3]" using ts(2,4) d by (auto simp: doubleton_eq_iff)
  with ts(1) show ?thesis by blast
qed

end
