(* ===== verification/Sched.thy ===== *)
theory Sched
  imports Task_Tree Ktimer
begin

text \<open>
  The scheduler proper (\<^verbatim>\<open>sched/sched.c\<close>): the tick, which charges the running task,
  wakes sleepers and picks the next task, and the operations that end in a tick
  (block, sleep, exit).  \<open>None\<close> stands for the dereference of a NULL pointer.  The
  switch of stacks, page tables and segment bases is outside the model: after a tick
  \<open>cs_current\<close> names the task that runs.
\<close>

section \<open>The tick\<close>

text \<open>Virtual time is charged to the running task.\<close>

definition charge_task :: "bool \<Rightarrow> task \<Rightarrow> task" where
  "charge_task idle t =
     (let w = (if t_weight t = 0 then 1024 else t_weight t);
          t = (if idle then t else t\<lparr>t_vruntime := t_vruntime t + EEVDF_TICK_SCALE div ucast w\<rparr>)
      in t\<lparr>t_ticks_used := t_ticks_used t + 1\<rparr>)"

definition tick_charge :: "nat \<Rightarrow> kernel \<Rightarrow> kernel" where
  "tick_charge c k =
     (case cs_current (k_sched k c) of
        None \<Rightarrow> k
      | Some p \<Rightarrow>
          if t_state (k_task k p) \<noteq> TASK_RUNNING then k
          else upd_task p (charge_task (Some p = cs_idle (k_sched k c))) k)"

definition slice_over :: "bool \<Rightarrow> task \<Rightarrow> bool" where
  "slice_over idle t \<longleftrightarrow>
     t_ticks_used t \<ge> (if idle then 1 else t_slice_ticks t) \<or> (\<not> idle \<and> t_vruntime t \<ge> t_deadline t)"

definition tick_expire :: "nat \<Rightarrow> kernel \<Rightarrow> kernel" where
  "tick_expire c k =
     (case cs_current (k_sched k c) of
        None \<Rightarrow> k
      | Some p \<Rightarrow>
          let idle = (Some p = cs_idle (k_sched k c)) in
          if t_state (k_task k p) = TASK_RUNNING \<and> slice_over idle (k_task k p)
          then rq_enqueue c p
                 (upd_task p (\<lambda>x. x\<lparr>t_state := TASK_RUNNABLE, t_ticks_used := 0,
                                   t_nivcsw := t_nivcsw x + (if idle then 0 else 1)\<rparr>) k)
          else k)"

fun wake_sleepers :: "u64 \<Rightarrow> nat \<Rightarrow> tptr list \<Rightarrow> kernel \<Rightarrow> kernel \<times> tptr list" where
  "wake_sleepers now c [] k = (k, [])"
| "wake_sleepers now c (st # ss) k =
     (if now \<ge> t_sleep_deadline (k_task k st)
      then wake_sleepers now c ss
             (rq_enqueue c st (upd_task st (\<lambda>x. x\<lparr>t_sleep_deadline := 0, t_state := TASK_RUNNABLE\<rparr>) k))
      else let (k, r) = wake_sleepers now c ss k in (k, st # r))"

definition tick_wake :: "nat \<Rightarrow> kernel \<Rightarrow> kernel" where
  "tick_wake c k =
     (let (k1, r) = wake_sleepers (k_jiffies k) c (cs_sleep (k_sched k c)) k
      in upd_sched c (\<lambda>cs. cs\<lparr>cs_sleep := r\<rparr>) k1)"

text \<open>The search for a runnable task; the dead ones found on the way are collected.\<close>

lemma rq_enqueue_len: "cs_queue_len (k_sched (rq_enqueue c t k) c) \<in> {cs_queue_len (k_sched k c), cs_queue_len (k_sched k c) + 1}"
  by (simp add: rq_enqueue_def)

lemma rq_dequeue_len:
  assumes "rq_dequeue c k = (k', Some t)"
  shows "cs_queue_len (k_sched k' c) = cs_queue_len (k_sched k c) - 1"
  using assms by (auto simp: rq_dequeue_def Let_def split: if_splits option.splits)

lemma pick_measure:
  fixes ql tried :: u32
  assumes "tried < ql + 1" "ql' \<in> {ql, ql - 1}"
  shows "unat (ql' + 1) - unat (tried + 1) < unat (ql + 1) - unat tried"
proof -
  have inc: "unat (w + 1) = (if unat w + 1 = 4294967296 then 0 else unat w + 1)" for w :: u32
    using unat_lt32 [of w] by (simp add: unat_word_ariths)
  have lt: "unat tried < unat (ql + 1)" using assms(1) by (simp add: word_less_nat_alt)
  then have "unat (tried + 1) = unat tried + 1" using inc [of tried] unat_lt32 [of "ql + 1"] by (auto split: if_splits)
  moreover have "unat (ql' + 1) \<le> unat (ql + 1)" using assms(2) lt inc [of ql] by (auto split: if_splits)
  ultimately show ?thesis using lt by linarith
qed

lemma pick_decreases:
  assumes "tried < cs_queue_len (k_sched k c) + 1" "(k1, Some t) = rq_dequeue c k" "k2 \<in> {k1, rq_enqueue c t k1}"
  shows "unat (cs_queue_len (k_sched k2 c) + 1) - unat (tried + 1) < unat (cs_queue_len (k_sched k c) + 1) - unat tried"
  using pick_measure [OF assms(1), of "cs_queue_len (k_sched k2 c)"] rq_dequeue_len [OF assms(2) [symmetric]]
    rq_enqueue_len [of c t k1] assms(3) by auto

function pick_next :: "nat \<Rightarrow> u32 \<Rightarrow> tptr list \<Rightarrow> kernel \<Rightarrow> kernel \<times> tptr option \<times> tptr list" where
  "pick_next c tried dead k =
     (if tried < cs_queue_len (k_sched k c) + 1
      then case rq_dequeue c k of
             (k1, None) \<Rightarrow> (k1, None, dead)
           | (k1, Some t) \<Rightarrow>
               (case t_state (k_task k1 t) of
                  TASK_RUNNABLE \<Rightarrow> (k1, Some t, dead)
                | TASK_DEAD \<Rightarrow> pick_next c (tried + 1) (t # dead) k1
                | TASK_ZOMBIE \<Rightarrow> pick_next c (tried + 1) dead k1
                | _ \<Rightarrow> pick_next c (tried + 1) dead (rq_enqueue c t k1))
      else (k, None, dead))"
  by pat_completeness auto
termination
  by (relation "measure (\<lambda>(c, tried, dead, k). unat (cs_queue_len (k_sched k c) + 1) - unat tried)")
    (auto intro: pick_decreases)

text \<open>A running task that is left is put back; then the chosen one becomes current.\<close>

definition tick_requeue :: "nat \<Rightarrow> tptr option \<Rightarrow> tptr option \<Rightarrow> kernel \<Rightarrow> kernel" where
  "tick_requeue c prev next k =
     (case prev of
        None \<Rightarrow> k
      | Some p \<Rightarrow>
          if t_state (k_task k p) = TASK_RUNNING \<and> prev \<noteq> next
          then rq_enqueue c p (upd_task p (\<lambda>x. x\<lparr>t_state := TASK_RUNNABLE\<rparr>) k)
          else k)"

definition tick_switch :: "nat \<Rightarrow> tptr option \<Rightarrow> tptr option \<Rightarrow> kernel \<Rightarrow> kernel option" where
  "tick_switch c prev next k =
     (case next of
        None \<Rightarrow> None
      | Some n \<Rightarrow>
          let k = upd_task n (\<lambda>x. x\<lparr>t_ticks_used := 0, t_state := TASK_RUNNING\<rparr>) k;
              k = upd_sched c (\<lambda>cs. cs\<lparr>cs_current := Some n\<rparr>) k
          in if prev = None then None else Some k)"

definition sched_tick :: "kernel \<Rightarrow> kernel option" where
  "sched_tick k =
     (case k_self k of
        None \<Rightarrow> Some k
      | Some c \<Rightarrow>
          let prev = cs_current (k_sched k c);
              (k, next, dead) = pick_next c 0 [] (tick_wake c (tick_expire c (tick_charge c k)));
              next = (if next = None then cs_idle (k_sched k c) else next);
              k = fold task_destroy dead (tick_requeue c prev next k)
          in tick_switch c prev next k)"

section \<open>Operations that end in a tick\<close>

definition self_current :: "kernel \<Rightarrow> (nat \<times> tptr) option" where
  "self_current k =
     (case k_self k of
        None \<Rightarrow> None
      | Some c \<Rightarrow> (case cs_current (k_sched k c) of None \<Rightarrow> None | Some p \<Rightarrow> Some (c, p)))"

definition count_nvcsw :: "nat \<Rightarrow> tptr \<Rightarrow> kernel \<Rightarrow> kernel" where
  "count_nvcsw c p k =
     (if Some p = cs_idle (k_sched k c) then k else upd_task p (\<lambda>x. x\<lparr>t_nvcsw := t_nvcsw x + 1\<rparr>) k)"

definition sched_block :: "kernel \<Rightarrow> kernel option" where
  "sched_block k =
     (case self_current k of
        None \<Rightarrow> None
      | Some (c, p) \<Rightarrow> sched_tick (upd_task p (\<lambda>x. x\<lparr>t_state := TASK_BLOCKED\<rparr>) (count_nvcsw c p k)))"

definition sched_sleep :: "u32 \<Rightarrow> kernel \<Rightarrow> kernel option" where
  "sched_sleep ms k =
     (if ms = 0 then Some k
      else case self_current k of
        None \<Rightarrow> None
      | Some (c, p) \<Rightarrow>
          let k = upd_task p (\<lambda>x. x\<lparr>t_sleep_deadline := k_jiffies k + ucast ms, t_state := TASK_SLEEPING\<rparr>) k;
              k = upd_sched c (\<lambda>cs. cs\<lparr>cs_sleep := p # cs_sleep cs\<rparr>) k
          in sched_tick (count_nvcsw c p k))"

definition exit_state :: "tptr \<Rightarrow> kernel \<Rightarrow> kernel" where
  "exit_state p k =
     (case t_parent (k_task k p) of
        Some q \<Rightarrow>
          if t_pid (k_task k p) = t_pid (k_task k q) then upd_task p (\<lambda>x. x\<lparr>t_state := TASK_DEAD\<rparr>) k
          else signal_send q SIGCHLD (upd_task p (\<lambda>x. x\<lparr>t_state := TASK_ZOMBIE\<rparr>) k)
      | None \<Rightarrow> upd_task p (\<lambda>x. x\<lparr>t_state := TASK_DEAD\<rparr>) k)"

definition sched_task_exit :: "kernel \<Rightarrow> kernel option" where
  "sched_task_exit k =
     (case self_current k of
        None \<Rightarrow> None
      | Some (c, p) \<Rightarrow>
          let k = (case k_init_task k of
                     None \<Rightarrow> k
                   | Some i \<Rightarrow> if p \<noteq> i then task_reparent_children p i k else k)
          in sched_tick (exit_state p k))"

section \<open>The timer interrupt\<close>

partial_function (option) itimer_next :: "u64 \<Rightarrow> u64 \<Rightarrow> u64 \<Rightarrow> u64 option" where
  "itimer_next now interval nxt =
     (if nxt + interval \<le> now then itimer_next now interval (nxt + interval) else Some (nxt + interval))"

definition itimer_task :: "u64 \<Rightarrow> tptr \<Rightarrow> kernel \<Rightarrow> kernel option" where
  "itimer_task now t k =
     (let x = k_task k t; dl = t_itimer_real_deadline x in
      if t_state x \<in> {TASK_DEAD, TASK_ZOMBIE} \<or> dl = 0 \<or> now < dl then Some k
      else
        let k = signal_send t SIGALRM k; interval = t_itimer_real_interval x
        in if interval = 0 then Some (upd_task t (\<lambda>x. x\<lparr>t_itimer_real_deadline := 0\<rparr>) k)
           else case itimer_next now interval dl of
                  None \<Rightarrow> None
                | Some d \<Rightarrow> Some (upd_task t (\<lambda>x. x\<lparr>t_itimer_real_deadline := d\<rparr>) k))"

fun process_itimers_from :: "u64 \<Rightarrow> nat list \<Rightarrow> kernel \<Rightarrow> kernel option" where
  "process_itimers_from now [] k = Some k"
| "process_itimers_from now (i # is) k =
     (case (case task_get_from_table k i of None \<Rightarrow> Some k | Some t \<Rightarrow> itimer_task now t k) of
        None \<Rightarrow> None
      | Some k \<Rightarrow> process_itimers_from now is k)"

definition sched_process_itimers :: "u64 \<Rightarrow> kernel \<Rightarrow> kernel option" where
  "sched_process_itimers now k = process_itimers_from now [1..<TASK_TABLE_SIZE] k"

definition tick_account :: "nat \<Rightarrow> bool \<Rightarrow> kernel \<Rightarrow> kernel" where
  "tick_account c user k =
     (let cur = cs_current (k_sched k c);
          stat = (\<lambda>f. upd_sched c (\<lambda>cs. cs\<lparr>cs_stats := f (cs_stats cs)\<rparr>));
          task = (\<lambda>f k. case cur of None \<Rightarrow> k | Some p \<Rightarrow> upd_task p f k)
      in if cur = cs_idle (k_sched k c) then stat (\<lambda>s. s\<lparr>st_idle_ticks := st_idle_ticks s + 1\<rparr>) k
         else if user
         then task (\<lambda>x. x\<lparr>t_user_ticks := t_user_ticks x + 1\<rparr>) (stat (\<lambda>s. s\<lparr>st_user_ticks := st_user_ticks s + 1\<rparr>) k)
         else task (\<lambda>x. x\<lparr>t_system_ticks := t_system_ticks x + 1\<rparr>) (stat (\<lambda>s. s\<lparr>st_system_ticks := st_system_ticks s + 1\<rparr>) k))"

text \<open>The timers fire on CPU 0 only; \<open>fire\<close> is what a timer's callback does.\<close>

definition sched_timer_isr ::
    "(nat \<Rightarrow> timers \<times> kernel \<Rightarrow> timers \<times> kernel) \<Rightarrow> bool \<Rightarrow> timers \<times> kernel \<Rightarrow> (timers \<times> kernel) option" where
  "sched_timer_isr fire user s =
     (case k_self (snd s) of
        None \<Rightarrow> None
      | Some c \<Rightarrow>
          (case (if c = 0
                 then let now = k_jiffies (snd s) + 1
                      in case ktimer_tick now fire (fst s, (snd s)\<lparr>k_jiffies := now\<rparr>) of
                           None \<Rightarrow> None
                         | Some (ts, k) \<Rightarrow> map_option (Pair ts) (sched_process_itimers now k)
                 else Some s) of
             None \<Rightarrow> None
           | Some (ts, k) \<Rightarrow> map_option (Pair ts) (sched_tick (tick_account c user k))))"

section \<open>Start and snapshots\<close>

definition sched_init :: "task_memory \<Rightarrow> nat \<Rightarrow> kernel \<Rightarrow> kernel option" where
  "sched_init mem c k =
     (case task_create mem (Some ''idle'') c (upd_sched c (\<lambda>_. cpu_sched_zero) k) of
        (k, None) \<Rightarrow> None
      | (k, Some t) \<Rightarrow>
          Some (upd_sched c (\<lambda>cs. cs\<lparr>cs_idle := Some t, cs_current := Some t\<rparr>)
                  (upd_task t (\<lambda>x. x\<lparr>t_state := TASK_RUNNABLE\<rparr>) k)))"

definition sched_get_ticks :: "kernel \<Rightarrow> u64" where "sched_get_ticks k = k_jiffies k"

record sched_task_info =
  ti_tid :: u32
  ti_cpu_id :: nat
  ti_priority :: u8
  ti_state :: task_state
  ti_name :: string

definition sched_snapshot_tasks :: "nat \<Rightarrow> kernel \<Rightarrow> sched_task_info list" where
  "sched_snapshot_tasks max_count k =
     take max_count
       (map (\<lambda>t. let x = k_task k t in
                  \<lparr>ti_tid = t_tid x, ti_cpu_id = t_cpu_id x, ti_priority = t_priority x,
                   ti_state = t_state x, ti_name = take 31 (t_name x)\<rparr>)
          (filter (\<lambda>t. t_state (k_task k t) \<noteq> TASK_DEAD)
             (List.map_filter (task_get_from_table k) [0..<TASK_TABLE_SIZE])))"

definition sched_snapshot_cpu_stats :: "nat \<Rightarrow> int \<Rightarrow> kernel \<Rightarrow> sched_cpu_stat list" where
  "sched_snapshot_cpu_stats ncpus max_count k =
     (if max_count \<le> 0 then []
      else let n = (if ncpus = 0 then 1 else ncpus); n = (if nat max_count < n then nat max_count else n)
           in map (\<lambda>i. cs_stats (k_sched k i)) [0..<n])"

declare pick_next.simps [simp del]

section \<open>Every task is where its state says\<close>

text \<open>\<open>N\<close>: the CPUs that run; \<open>L\<close>: the tasks given to the scheduler; \<open>X\<close>: tasks in transit.\<close>

definition placed :: "tptr \<Rightarrow> kernel \<Rightarrow> bool" where
  "placed t k =
     (let cs = k_sched k (t_cpu_id (k_task k t)) in
      case t_state (k_task k t) of
        TASK_RUNNABLE \<Rightarrow> t \<in> set (cs_rq cs)
      | TASK_RUNNING \<Rightarrow> cs_current cs = Some t
      | TASK_SLEEPING \<Rightarrow> t \<in> set (cs_sleep cs)
      | _ \<Rightarrow> True)"

definition cpu_ok :: "tptr set \<Rightarrow> nat \<Rightarrow> kernel \<Rightarrow> bool" where
  "cpu_ok L c k =
     (let cs = k_sched k c in
      distinct (cs_rq cs) \<and> distinct (cs_sleep cs) \<and> cs_queue_len cs = of_nat (length (cs_rq cs)) \<and>
      (\<forall>t \<in> set (cs_rq cs). t \<in> L \<and> t_cpu_id (k_task k t) = c \<and> t_state (k_task k t) = TASK_RUNNABLE) \<and>
      (\<forall>t \<in> set (cs_sleep cs). t \<in> L \<and> t_cpu_id (k_task k t) = c \<and> t_state (k_task k t) = TASK_SLEEPING) \<and>
      (\<exists>i p. cs_idle cs = Some i \<and> i \<notin> L \<and> cs_current cs = Some p \<and> (p = i \<or> p \<in> L \<and> t_cpu_id (k_task k p) = c)))"

definition sched_inv :: "nat set \<Rightarrow> tptr set \<Rightarrow> tptr set \<Rightarrow> kernel \<Rightarrow> bool" where
  "sched_inv N L X k \<longleftrightarrow>
     (\<forall>c \<in> N. cpu_ok L c k) \<and> (\<forall>t \<in> L. t_cpu_id (k_task k t) \<in> N) \<and> (\<forall>t \<in> L - X. placed t k)"

abbreviation sched_ok :: "nat set \<Rightarrow> tptr set \<Rightarrow> kernel \<Rightarrow> bool" where
  "sched_ok N L k \<equiv> sched_inv N L {} k"

lemma cpu_ok_idle: "cpu_ok L c k \<Longrightarrow> t \<in> L \<Longrightarrow> cs_idle (k_sched k c) \<noteq> Some t"
  unfolding cpu_ok_def Let_def by clarsimp

lemma cpu_ok_current:
  assumes "cpu_ok L c k"
  obtains p i where "cs_current (k_sched k c) = Some p" "cs_idle (k_sched k c) = Some i" "i \<notin> L" "p = i \<or> p \<in> L \<and> t_cpu_id (k_task k p) = c"
  using assms unfolding cpu_ok_def Let_def by blast

lemma cpu_ok_lists:
  assumes "cpu_ok L c k"
  shows "distinct (cs_rq (k_sched k c))" "distinct (cs_sleep (k_sched k c))" "cs_queue_len (k_sched k c) = of_nat (length (cs_rq (k_sched k c)))"
    "t \<in> set (cs_rq (k_sched k c)) \<Longrightarrow> t \<in> L \<and> t_cpu_id (k_task k t) = c \<and> t_state (k_task k t) = TASK_RUNNABLE"
    "t \<in> set (cs_sleep (k_sched k c)) \<Longrightarrow> t \<in> L \<and> t_cpu_id (k_task k t) = c \<and> t_state (k_task k t) = TASK_SLEEPING"
  using assms unfolding cpu_ok_def Let_def by blast+

lemma cpu_ok_cong:
  assumes "k_sched k' c = k_sched k c"
    "\<And>t. t \<in> L \<Longrightarrow> t_state (k_task k' t) = t_state (k_task k t) \<and> t_cpu_id (k_task k' t) = t_cpu_id (k_task k t)"
  shows "cpu_ok L c k' = cpu_ok L c k"
  unfolding cpu_ok_def Let_def assms(1) using assms(2) by (simp cong: conj_cong)

lemma placed_cong:
  assumes "k_sched k' = k_sched k" "t_state (k_task k' t) = t_state (k_task k t)" "t_cpu_id (k_task k' t) = t_cpu_id (k_task k t)"
  shows "placed t k' = placed t k"
  using assms by (simp add: placed_def)

lemma inv_cong:
  assumes "sched_inv N L X k" "k_sched k' = k_sched k"
    "\<And>t. t \<in> L \<Longrightarrow> t_state (k_task k' t) = t_state (k_task k t) \<and> t_cpu_id (k_task k' t) = t_cpu_id (k_task k t)"
  shows "sched_inv N L X k'"
proof -
  have "cpu_ok L c k' = cpu_ok L c k" for c by (rule cpu_ok_cong) (use assms(2,3) in auto)
  moreover have "placed t k' = placed t k" if "t \<in> L" for t
    by (rule placed_cong) (use assms(2,3) that in auto)
  ultimately show ?thesis using assms(1,3) unfolding sched_inv_def by simp
qed

text \<open>A task that is in no list may change state; it is then in transit.\<close>

lemma inv_touch:
  assumes "sched_inv N L X k" "\<forall>c \<in> N. t \<notin> set (cs_rq (k_sched k c)) \<and> t \<notin> set (cs_sleep (k_sched k c))"
    "\<And>x. t_cpu_id (f x) = t_cpu_id x"
  shows "sched_inv N L (insert t X) (upd_task t f k)"
proof -
  have T: "k_task (upd_task t f k) u = k_task k u" if "u \<noteq> t" for u using that by (rule upd_task_other)
  have C: "t_cpu_id (k_task (upd_task t f k) u) = t_cpu_id (k_task k u)" for u
    by (cases "u = t") (simp_all add: assms(3) T)
  have "cpu_ok L c (upd_task t f k)" if "c \<in> N" for c
    using assms(1,2) that T C unfolding sched_inv_def cpu_ok_def Let_def by (auto simp: upd_task_apply)
  moreover have "placed u (upd_task t f k)" if "u \<in> L - insert t X" for u
    using assms(1) that T [of u] unfolding sched_inv_def placed_def by (auto split: task_state.splits)
  ultimately show ?thesis using assms(1) C unfolding sched_inv_def by auto
qed

lemma inv_enqueue:
  assumes "sched_inv N L X k" "t \<in> L" "c = t_cpu_id (k_task k t)" "t_state (k_task k t) = TASK_RUNNABLE"
    "t \<notin> set (cs_rq (k_sched k c))" "t \<in> X"
  shows "sched_inv N L (X - {t}) (rq_enqueue c t k)"
proof -
  let ?k = "rq_enqueue c t k"
  have c: "c \<in> N" "cpu_ok L c k" using assms(1-3) unfolding sched_inv_def by auto
  then have ni: "Some t \<noteq> cs_idle (k_sched k c)" using cpu_ok_idle [of L c k t] assms(2) by metis
  have S: "k_sched ?k d = (if d = c then (k_sched k c)\<lparr>cs_rq := t # cs_rq (k_sched k c), cs_queue_len := cs_queue_len (k_sched k c) + 1\<rparr> else k_sched k d)" for d
    using ni by (simp add: rq_enqueue_def upd_sched_apply)
  have T: "t_state (k_task ?k u) = t_state (k_task k u)" "t_cpu_id (k_task ?k u) = t_cpu_id (k_task k u)" for u
    using ni by (simp_all add: rq_enqueue_def upd_task_apply enqueued_task_def Let_def)
  have ok: "cpu_ok L d ?k" if "d \<in> N" for d
  proof (cases "d = c")
    case True
    obtain p i where "cs_current (k_sched k c) = Some p" "cs_idle (k_sched k c) = Some i" "i \<notin> L" "p = i \<or> p \<in> L \<and> t_cpu_id (k_task k p) = c"
      by (rule cpu_ok_current [OF c(2)])
    then show ?thesis using cpu_ok_lists [OF c(2)] assms(2,4,5) assms(3) [symmetric] True by (simp add: cpu_ok_def Let_def S T)
  next
    case False
    then have "cpu_ok L d ?k = cpu_ok L d k" by (intro cpu_ok_cong) (simp_all add: S T)
    then show ?thesis using assms(1) that unfolding sched_inv_def by blast
  qed
  moreover have "placed u ?k" if "u \<in> L - (X - {t})" for u
  proof (cases "u = t")
    case True then show ?thesis using assms(3) [symmetric] assms(4) by (simp add: placed_def T S)
  next
    case False
    then have "placed u k" using assms(1) that unfolding sched_inv_def by blast
    then show ?thesis by (auto simp: placed_def Let_def T S split: task_state.splits)
  qed
  ultimately show ?thesis using assms(1) T unfolding sched_inv_def by auto
qed

lemma inv_cpu: "sched_inv N L X k \<Longrightarrow> c \<in> N \<Longrightarrow> cpu_ok L c k"
  by (simp add: sched_inv_def)

lemma not_listed:
  assumes "sched_inv N L X k" "t_state (k_task k t) \<noteq> TASK_RUNNABLE" "t_state (k_task k t) \<noteq> TASK_SLEEPING"
  shows "\<forall>c \<in> N. t \<notin> set (cs_rq (k_sched k c)) \<and> t \<notin> set (cs_sleep (k_sched k c))"
  using assms(2,3) cpu_ok_lists(4,5) [OF inv_cpu [OF assms(1)]] by metis

lemma inv_wake:
  assumes "sched_inv N L X k" "t \<in> L" "\<forall>c \<in> N. t \<notin> set (cs_rq (k_sched k c)) \<and> t \<notin> set (cs_sleep (k_sched k c))"
    "\<And>x. t_cpu_id (f x) = t_cpu_id x" "\<And>x. t_state (f x) = TASK_RUNNABLE" "c = t_cpu_id (k_task k t)"
  shows "sched_inv N L (X - {t}) (rq_enqueue c t (upd_task t f k))"
proof -
  have N: "c \<in> N" using assms(1,2,6) by (simp add: sched_inv_def)
  have "sched_inv N L (insert t X) (upd_task t f k)" by (rule inv_touch [OF assms(1,3,4)])
  then have "sched_inv N L (insert t X - {t}) (rq_enqueue c t (upd_task t f k))"
    by (rule inv_enqueue) (use assms N in auto)
  then show ?thesis by simp
qed

lemma inv_idle: "sched_inv N L X k \<Longrightarrow> t \<notin> L \<Longrightarrow> sched_inv N L X (upd_task t f k)"
  by (erule inv_cong) (auto simp: upd_task_apply)

lemma rq_enqueue_idle: "cs_idle (k_sched k c) = Some t \<Longrightarrow> rq_enqueue c t k = k"
  by (simp add: rq_enqueue_def)

lemma tick_charge_inv: "sched_inv N L X k \<Longrightarrow> sched_inv N L X (tick_charge c k)"
  unfolding tick_charge_def
  by (auto split: option.split simp: upd_task_apply charge_task_def Let_def elim!: inv_cong)

lemma tick_expire_inv:
  assumes "sched_inv N L X k" "c \<in> N"
  shows "sched_inv N L X (tick_expire c k)"
proof -
  obtain p i where p: "cs_current (k_sched k c) = Some p" "cs_idle (k_sched k c) = Some i" "i \<notin> L" "p = i \<or> p \<in> L \<and> t_cpu_id (k_task k p) = c"
    by (rule cpu_ok_current [OF inv_cpu [OF assms]])
  show ?thesis
  proof (cases "t_state (k_task k p) = TASK_RUNNING \<and> slice_over (Some p = cs_idle (k_sched k c)) (k_task k p)")
    case False then show ?thesis using assms p by (auto simp: tick_expire_def Let_def)
  next
    case True
    let ?f = "\<lambda>x. x\<lparr>t_state := TASK_RUNNABLE, t_ticks_used := 0, t_nivcsw := t_nivcsw x + (if p = i then 0 else 1)\<rparr>"
    have eq: "tick_expire c k = rq_enqueue c p (upd_task p ?f k)" using True p by (simp add: tick_expire_def)
    show ?thesis
    proof (cases "p = i")
      case True then show ?thesis using inv_idle [OF assms(1), of p ?f] p by (simp add: eq rq_enqueue_idle)
    next
      case False
      have "sched_inv N L (X - {p}) (rq_enqueue c p (upd_task p ?f k))"
        by (rule inv_wake [OF assms(1)]) (use False p True not_listed [OF assms(1)] in auto)
      then show ?thesis unfolding eq by (auto simp: sched_inv_def)
    qed
  qed
qed

lemma inv_unsleep:
  assumes "sched_inv N L X k" "c \<in> N" "cs_sleep (k_sched k c) = ys @ t # zs"
  shows "sched_inv N L (insert t X) (upd_sched c (\<lambda>cs. cs\<lparr>cs_sleep := ys @ zs\<rparr>) k)"
proof -
  let ?k = "upd_sched c (\<lambda>cs. cs\<lparr>cs_sleep := ys @ zs\<rparr>) k"
  have ok: "cpu_ok L d ?k" if "d \<in> N" for d
  proof (cases "d = c")
    case True
    obtain p i where "cs_current (k_sched k c) = Some p" "cs_idle (k_sched k c) = Some i" "i \<notin> L" "p = i \<or> p \<in> L \<and> t_cpu_id (k_task k p) = c"
      by (rule cpu_ok_current [OF inv_cpu [OF assms(1,2)]])
    then show ?thesis using cpu_ok_lists [OF inv_cpu [OF assms(1,2)]] True assms(3) by (auto simp: cpu_ok_def Let_def)
  next
    case False
    then have "cpu_ok L d ?k = cpu_ok L d k" by (intro cpu_ok_cong) (simp_all add: upd_sched_apply)
    then show ?thesis using inv_cpu [OF assms(1) that] by simp
  qed
  moreover have "placed u ?k" if u: "u \<in> L - insert t X" for u
  proof -
    have "placed u k" using assms(1) u by (auto simp: sched_inv_def)
    then show ?thesis using u assms(3) by (auto simp: placed_def Let_def upd_sched_apply split: task_state.splits)
  qed
  ultimately show ?thesis using assms(1) by (auto simp: sched_inv_def)
qed

lemma enqueue_sleep_commute:
  "upd_sched c (\<lambda>cs. cs\<lparr>cs_sleep := xs\<rparr>) (rq_enqueue c t (upd_task t f k)) =
   rq_enqueue c t (upd_task t f (upd_sched c (\<lambda>cs. cs\<lparr>cs_sleep := xs\<rparr>) k))"
  by (rule kernel.equality) (auto simp: rq_enqueue_def upd_sched_def upd_task_def intro!: ext)

lemma wake_sleepers_inv:
  assumes "sched_inv N L X (upd_sched c (\<lambda>cs. cs\<lparr>cs_sleep := ys @ ss\<rparr>) k)" "c \<in> N" "wake_sleepers now c ss k = (k', r)"
  shows "sched_inv N L X (upd_sched c (\<lambda>cs. cs\<lparr>cs_sleep := ys @ r\<rparr>) k')"
  using assms(1,3)
proof (induction ss arbitrary: ys k r)
  case (Cons st ss)
  let ?f = "\<lambda>x. x\<lparr>t_sleep_deadline := 0, t_state := TASK_RUNNABLE\<rparr>"
  show ?case
  proof (cases "now \<ge> t_sleep_deadline (k_task k st)")
    case True
    let ?k0 = "upd_sched c (\<lambda>cs. cs\<lparr>cs_sleep := ys @ st # ss\<rparr>) k" and ?k1 = "upd_sched c (\<lambda>cs. cs\<lparr>cs_sleep := ys @ ss\<rparr>) k"
    have st: "st \<in> L" "t_cpu_id (k_task k st) = c" "t_state (k_task k st) = TASK_SLEEPING"
      using cpu_ok_lists(5) [OF inv_cpu [OF Cons.prems(1) assms(2)], of st] by auto
    have "sched_inv N L (insert st X) (upd_sched c (\<lambda>cs. cs\<lparr>cs_sleep := ys @ ss\<rparr>) ?k0)"
      by (rule inv_unsleep [OF Cons.prems(1) assms(2)]) simp
    then have k1: "sched_inv N L (insert st X) ?k1" by (simp add: upd_sched_def)
    have dist: "distinct (ys @ st # ss)" using cpu_ok_lists(2) [OF inv_cpu [OF Cons.prems(1) assms(2)]] by simp
    have "st \<notin> set (cs_rq (k_sched ?k1 d)) \<and> st \<notin> set (cs_sleep (k_sched ?k1 d))" if "d \<in> N" for d
      using cpu_ok_lists(4,5) [OF inv_cpu [OF k1 that], of st] st dist by (cases "d = c") auto
    then have "sched_inv N L (insert st X - {st}) (rq_enqueue c st (upd_task st ?f ?k1))"
      by (intro inv_wake [OF k1]) (use st in auto)
    then have "sched_inv N L X (upd_sched c (\<lambda>cs. cs\<lparr>cs_sleep := ys @ ss\<rparr>) (rq_enqueue c st (upd_task st ?f k)))"
      unfolding enqueue_sleep_commute by (auto simp: sched_inv_def)
    then show ?thesis by (rule Cons.IH) (use Cons.prems(2) True in simp)
  next
    case False
    obtain r1 where "wake_sleepers now c ss k = (k', r1)" "r = st # r1" using Cons.prems(2) False by (auto split: prod.splits)
    then show ?thesis using Cons.IH [of "ys @ [st]" k r1] Cons.prems(1) by simp
  qed
qed simp

lemma tick_wake_inv:
  assumes "sched_inv N L X k" "c \<in> N"
  shows "sched_inv N L X (tick_wake c k)"
proof -
  obtain k' r where w: "wake_sleepers (k_jiffies k) c (cs_sleep (k_sched k c)) k = (k', r)" by fastforce
  have "upd_sched c (\<lambda>cs. cs\<lparr>cs_sleep := [] @ cs_sleep (k_sched k c)\<rparr>) k = k" by (simp add: upd_sched_def)
  then have "sched_inv N L X (upd_sched c (\<lambda>cs. cs\<lparr>cs_sleep := [] @ cs_sleep (k_sched k c)\<rparr>) k)" using assms(1) by simp
  from wake_sleepers_inv [OF this assms(2) w] show ?thesis by (simp add: tick_wake_def w)
qed

lemma inv_V: "sched_inv N L X k \<Longrightarrow> sched_inv N L X (upd_sched c (\<lambda>cs. cs\<lparr>cs_V_system := V\<rparr>) k)"
proof -
  let ?k = "upd_sched c (\<lambda>cs. cs\<lparr>cs_V_system := V\<rparr>) k"
  assume inv: "sched_inv N L X k"
  have F: "cs_rq (k_sched ?k d) = cs_rq (k_sched k d)" "cs_sleep (k_sched ?k d) = cs_sleep (k_sched k d)"
    "cs_queue_len (k_sched ?k d) = cs_queue_len (k_sched k d)" "cs_current (k_sched ?k d) = cs_current (k_sched k d)"
    "cs_idle (k_sched ?k d) = cs_idle (k_sched k d)" for d by (simp_all add: upd_sched_apply)
  show ?thesis using inv unfolding sched_inv_def cpu_ok_def placed_def Let_def F upd_sched_frame .
qed

lemma inv_dequeue:
  assumes "sched_inv N L X k" "c \<in> N" "t \<in> set (cs_rq (k_sched k c))"
  shows "sched_inv N L (insert t X) (after_dequeue c V t k)"
proof -
  let ?k = "after_dequeue c V t k"
  have S: "k_sched ?k d = (if d = c then (k_sched k c)\<lparr>cs_V_system := V, cs_rq := remove1 t (cs_rq (k_sched k c)),
      cs_queue_len := cs_queue_len (k_sched k c) - 1\<rparr> else k_sched k d)" "k_task ?k = k_task k" for d
    by (simp_all add: after_dequeue_def upd_sched_apply)
  note l = cpu_ok_lists [OF inv_cpu [OF assms(1,2)]]
  have len: "of_nat (length (cs_rq (k_sched k c))) - 1 = (of_nat (length (cs_rq (k_sched k c)) - Suc 0) :: u32)"
    using assms(3) by (cases "cs_rq (k_sched k c)") auto
  have ok: "cpu_ok L d ?k" if "d \<in> N" for d
  proof (cases "d = c")
    case True
    obtain p i where "cs_current (k_sched k c) = Some p" "cs_idle (k_sched k c) = Some i" "i \<notin> L" "p = i \<or> p \<in> L \<and> t_cpu_id (k_task k p) = c"
      by (rule cpu_ok_current [OF inv_cpu [OF assms(1,2)]])
    then show ?thesis using l True assms(3) len by (simp add: cpu_ok_def Let_def S length_remove1)
  next
    case False
    then have "cpu_ok L d ?k = cpu_ok L d k" by (intro cpu_ok_cong) (simp_all add: S)
    then show ?thesis using inv_cpu [OF assms(1) that] by simp
  qed
  moreover have "placed u ?k" if u: "u \<in> L - insert t X" for u
  proof -
    have "placed u k" using assms(1) u by (auto simp: sched_inv_def)
    then show ?thesis using u l(1) by (auto simp: placed_def Let_def S split: task_state.splits)
  qed
  ultimately show ?thesis using assms(1) by (auto simp: sched_inv_def S)
qed

lemma pick_next_inv:
  assumes "sched_inv N L X k" "c \<in> N"
  obtains (none) k' where "pick_next c 0 [] k = (k', None, [])" "sched_inv N L X k'" "k_task k' = k_task k \<and> k_self k' = k_self k"
        "cs_current (k_sched k' c) = cs_current (k_sched k c)" "cs_idle (k_sched k' c) = cs_idle (k_sched k c)"
        "Suc (length (cs_rq (k_sched k c))) < 2 ^ 32 \<longrightarrow> (\<forall>t \<in> set (cs_rq (k_sched k c)). t_vruntime (k_task k t) = - 1)"
        "cs_sleep (k_sched k' c) = cs_sleep (k_sched k c)"
    | (some) V t where "pick_next c 0 [] k = (after_dequeue c V t k, Some t, [])" "t \<in> set (cs_rq (k_sched k c))"
        "sched_inv N L (insert t X) (after_dequeue c V t k)"
        "\<forall>u \<in> set (cs_rq (k_sched k c)). t_vruntime (k_task k t) \<le> t_vruntime (k_task k u)"
proof (cases "cs_queue_len (k_sched k c) + 1 = 0")
  case True
  then have "Suc (length (cs_rq (k_sched k c))) \<ge> 2 ^ 32"
    using cpu_ok_lists(3) [OF inv_cpu [OF assms]] by (auto simp: word_unat_eq_iff unat_word_ariths unat_of_nat take_bit_eq_mod mod_Suc split: if_splits)
  then show ?thesis using True none [of k] assms by (simp add: pick_next.simps [of c 0])
next
  case False
  then have z: "0 < cs_queue_len (k_sched k c) + 1" by (simp add: word_gt_0)
  show ?thesis
  proof (cases rule: rq_dequeue_cases [of c k])
    case (none V)
    then show ?thesis using that(1) [of "upd_sched c (\<lambda>cs. cs\<lparr>cs_V_system := V\<rparr>) k"] z inv_V [OF assms(1)]
      by (simp add: pick_next.simps [of c 0])
  next
    case (some V t)
    then have "t_state (k_task k t) = TASK_RUNNABLE" using cpu_ok_lists(4) [OF inv_cpu [OF assms]] by blast
    then show ?thesis using that(2) [of V t] some z inv_dequeue [OF assms some(2)]
      by (simp add: pick_next.simps [of c 0] after_dequeue_def)
  qed
qed

lemma inv_subset: "sched_inv N L X k \<Longrightarrow> X \<subseteq> Y \<Longrightarrow> sched_inv N L Y k"
  by (auto simp: sched_inv_def)

lemma tick_requeue_inv:
  assumes "sched_inv N L X k" "c \<in> N" "cs_current (k_sched k c) = prev" "nx = Some n"
    "prev = Some n \<or> (\<forall>p. prev = Some p \<longrightarrow> p \<notin> X)"
  shows "sched_inv N L X (tick_requeue c prev nx k) \<and> k_self (tick_requeue c prev nx k) = k_self k \<and>
    cs_current (k_sched (tick_requeue c prev nx k) c) = prev \<and> cs_idle (k_sched (tick_requeue c prev nx k) c) = cs_idle (k_sched k c) \<and>
    k_task (tick_requeue c prev nx k) n = k_task k n \<and>
    (n \<notin> set (cs_rq (k_sched k c)) \<longrightarrow> n \<notin> set (cs_rq (k_sched (tick_requeue c prev nx k) c))) \<and>
    (\<forall>p. prev = Some p \<longrightarrow> p \<noteq> n \<longrightarrow> p \<in> L \<longrightarrow> t_state (k_task (tick_requeue c prev nx k) p) \<noteq> TASK_RUNNING)"
proof -
  obtain p i where p: "cs_current (k_sched k c) = Some p" "cs_idle (k_sched k c) = Some i" "i \<notin> L" "p = i \<or> p \<in> L \<and> t_cpu_id (k_task k p) = c"
    by (rule cpu_ok_current [OF inv_cpu [OF assms(1,2)]])
  let ?f = "\<lambda>x. x\<lparr>t_state := TASK_RUNNABLE\<rparr>"
  show ?thesis
  proof (cases "t_state (k_task k p) = TASK_RUNNING \<and> p \<noteq> n")
    case False then show ?thesis using assms p by (auto simp: tick_requeue_def)
  next
    case True
    have eq: "tick_requeue c prev nx k = rq_enqueue c p (upd_task p ?f k)"
      using True p assms(3,4) by (auto simp: tick_requeue_def)
    show ?thesis
    proof (cases "p = i")
      case True then show ?thesis using inv_idle [OF assms(1), of p ?f] p assms(3) \<open>_ \<and> p \<noteq> n\<close>
        unfolding eq by (auto simp: rq_enqueue_idle upd_task_apply)
    next
      case False
      have px: "p \<notin> X" using assms(3,5) p(1) True by auto
      have "sched_inv N L (X - {p}) (rq_enqueue c p (upd_task p ?f k))"
        by (rule inv_wake [OF assms(1)]) (use False p True not_listed [OF assms(1)] in auto)
      then show ?thesis using px True p assms(3) False
        unfolding eq by (auto simp: rq_enqueue_def upd_task_apply enqueued_task_def Let_def)
    qed
  qed
qed

lemma inv_switch:
  assumes "sched_inv N L X k" "c \<in> N" "cs_current (k_sched k c) = Some p" "p \<noteq> n \<Longrightarrow> p \<in> L \<Longrightarrow> t_state (k_task k p) \<noteq> TASK_RUNNING"
    "n \<in> L \<longrightarrow> t_cpu_id (k_task k n) = c \<and> n \<notin> set (cs_rq (k_sched k c)) \<and> n \<notin> set (cs_sleep (k_sched k c))"
    "n \<notin> L \<longrightarrow> cs_idle (k_sched k c) = Some n" "X \<subseteq> {n}"
  shows "\<exists>k'. tick_switch c (Some p) (Some n) k = Some k' \<and> sched_inv N L {} k' \<and> k_self k' = k_self k \<and>
    cs_current (k_sched k' c) = Some n \<and> t_state (k_task k' n) = TASK_RUNNING"
proof -
  let ?f = "\<lambda>x. x\<lparr>t_ticks_used := 0, t_state := TASK_RUNNING\<rparr>"
  let ?k1 = "upd_task n ?f k" let ?k = "upd_sched c (\<lambda>cs. cs\<lparr>cs_current := Some n\<rparr>) ?k1"
  have nl: "\<forall>d \<in> N. n \<notin> set (cs_rq (k_sched k d)) \<and> n \<notin> set (cs_sleep (k_sched k d))"
    using cpu_ok_lists(4,5) [OF inv_cpu [OF assms(1)], of _ n] assms(5) by metis
  have k1: "sched_inv N L (insert n X) ?k1" by (rule inv_touch [OF assms(1) nl]) simp
  have F: "cs_rq (k_sched ?k d) = cs_rq (k_sched ?k1 d)" "cs_sleep (k_sched ?k d) = cs_sleep (k_sched ?k1 d)"
    "cs_queue_len (k_sched ?k d) = cs_queue_len (k_sched ?k1 d)" "cs_idle (k_sched ?k d) = cs_idle (k_sched ?k1 d)"
    "cs_current (k_sched ?k d) = (if d = c then Some n else cs_current (k_sched k d))" "k_task ?k = k_task ?k1" for d
    by (simp_all add: upd_sched_apply)
  have ok: "cpu_ok L d ?k" if "d \<in> N" for d
  proof (cases "d = c")
    case True
    obtain q i where "cs_idle (k_sched ?k1 c) = Some i" "i \<notin> L" by (rule cpu_ok_current [OF inv_cpu [OF k1 assms(2)]])
    moreover have "n = i \<or> n \<in> L \<and> t_cpu_id (k_task ?k1 n) = c" using assms(5,6) calculation by auto
    ultimately show ?thesis using cpu_ok_lists [OF inv_cpu [OF k1 assms(2)]] True by (simp only: cpu_ok_def Let_def F) (simp add: upd_task_apply)
  next
    case False
    then have "cpu_ok L d ?k = cpu_ok L d ?k1" by (intro cpu_ok_cong) (simp_all add: upd_sched_apply)
    then show ?thesis using inv_cpu [OF k1 that] by simp
  qed
  moreover have "placed u ?k" if u: "u \<in> L" for u
  proof (cases "u = n")
    case True then show ?thesis using assms(5) u by (simp add: placed_def)
  next
    case False
    then have "placed u ?k1" using k1 u assms(7) by (auto simp: sched_inv_def)
    moreover have "t_state (k_task k u) = TASK_RUNNING \<Longrightarrow> cs_current (k_sched k (t_cpu_id (k_task k u))) = Some u \<Longrightarrow> t_cpu_id (k_task k u) \<noteq> c"
      using assms(3,4) u False by auto
    ultimately show ?thesis using False by (auto simp: placed_def Let_def F upd_task_apply split: task_state.splits)
  qed
  moreover have "t_cpu_id (k_task ?k u) \<in> N" if "u \<in> L" for u using k1 that by (simp add: sched_inv_def)
  ultimately have "sched_inv N L {} ?k" by (simp add: sched_inv_def)
  then show ?thesis by (simp add: tick_switch_def)
qed

lemma rq_enqueue_frame [simp]:
  "cs_current (k_sched (rq_enqueue c t k) d) = cs_current (k_sched k d)"
  "cs_idle (k_sched (rq_enqueue c t k) d) = cs_idle (k_sched k d)"
  "k_self (rq_enqueue c t k) = k_self k" "k_jiffies (rq_enqueue c t k) = k_jiffies k"
  by (simp_all add: rq_enqueue_def upd_sched_apply)

lemma wake_sleepers_frame:
  "wake_sleepers now c ss k = (k', r) \<Longrightarrow> cs_current (k_sched k' d) = cs_current (k_sched k d) \<and>
    cs_idle (k_sched k' d) = cs_idle (k_sched k d) \<and> k_self k' = k_self k \<and> k_jiffies k' = k_jiffies k"
  by (induction now c ss k arbitrary: k' r rule: wake_sleepers.induct) (auto split: if_splits prod.splits)

definition tick_prepare :: "nat \<Rightarrow> kernel \<Rightarrow> kernel" where
  "tick_prepare c k = tick_wake c (tick_expire c (tick_charge c k))"

lemma tick_prepare_frame:
  "cs_current (k_sched (tick_prepare c k) d) = cs_current (k_sched k d)"
  "cs_idle (k_sched (tick_prepare c k) d) = cs_idle (k_sched k d)"
  "k_self (tick_prepare c k) = k_self k" "k_jiffies (tick_prepare c k) = k_jiffies k"
proof -
  let ?k = "tick_expire c (tick_charge c k)"
  have "cs_current (k_sched ?k d) = cs_current (k_sched k d) \<and> cs_idle (k_sched ?k d) = cs_idle (k_sched k d) \<and> k_self ?k = k_self k \<and> k_jiffies ?k = k_jiffies k"
    by (auto simp: tick_expire_def tick_charge_def Let_def split: option.split)
  moreover obtain k' r where w: "wake_sleepers (k_jiffies ?k) c (cs_sleep (k_sched ?k c)) ?k = (k', r)" by fastforce
  ultimately show "cs_current (k_sched (tick_prepare c k) d) = cs_current (k_sched k d)"
    "cs_idle (k_sched (tick_prepare c k) d) = cs_idle (k_sched k d)"
    "k_self (tick_prepare c k) = k_self k" "k_jiffies (tick_prepare c k) = k_jiffies k"
    using wake_sleepers_frame [OF w, of d] by (auto simp: tick_prepare_def tick_wake_def w upd_sched_apply)
qed

lemma tick_prepare_inv: "sched_inv N L X k \<Longrightarrow> c \<in> N \<Longrightarrow> sched_inv N L X (tick_prepare c k)"
  by (simp add: tick_prepare_def tick_charge_inv tick_expire_inv tick_wake_inv)

lemma sched_tick_inv:
  assumes "sched_ok N L k" "k_self k = Some c" "c \<in> N"
  obtains k' n where "sched_tick k = Some k'" "sched_ok N L k'" "k_self k' = Some c"
    "cs_current (k_sched k' c) = Some n" "t_state (k_task k' n) = TASK_RUNNING"
    "n \<in> set (cs_rq (k_sched (tick_prepare c k) c)) \<and>
       (\<forall>u \<in> set (cs_rq (k_sched (tick_prepare c k) c)). t_vruntime (k_task (tick_prepare c k) n) \<le> t_vruntime (k_task (tick_prepare c k) u)) \<or>
     cs_idle (k_sched k c) = Some n \<and> (Suc (length (cs_rq (k_sched (tick_prepare c k) c))) < 2 ^ 32 \<longrightarrow>
       (\<forall>t \<in> set (cs_rq (k_sched (tick_prepare c k) c)). t_vruntime (k_task (tick_prepare c k) t) = - 1))"
proof -
  let ?k = "tick_prepare c k"
  have inv: "sched_inv N L {} ?k" by (rule tick_prepare_inv [OF assms(1,3)])
  note fr = tick_prepare_frame(1,2) [of c k c] tick_prepare_frame(3,4) [of c k]
  obtain p i where p: "cs_current (k_sched ?k c) = Some p" "cs_idle (k_sched ?k c) = Some i" "i \<notin> L" "p = i \<or> p \<in> L \<and> t_cpu_id (k_task ?k p) = c"
    by (rule cpu_ok_current [OF inv_cpu [OF inv assms(3)]])
  have cur: "cs_current (k_sched k c) = Some p" using p(1) fr(1) by simp
  from inv assms(3) show thesis
  proof (cases rule: pick_next_inv)
    case (none k1)
    let ?k2 = "tick_requeue c (Some p) (Some i) k1"
    note rq = tick_requeue_inv [OF none(2) assms(3) trans [OF none(4) p(1)], where n = i, OF refl]
    obtain k' where k': "tick_switch c (Some p) (Some i) ?k2 = Some k'" "sched_inv N L {} k'" "k_self k' = k_self ?k2"
      "cs_current (k_sched k' c) = Some i" "t_state (k_task k' i) = TASK_RUNNING"
      using inv_switch [of N L "{}" ?k2 c p i] rq p none(5) assms(3) by auto
    have st: "sched_tick k = Some k'" unfolding sched_tick_def assms(2) tick_prepare_def [symmetric]
      using k'(1) p none(1,5) cur by (simp add: Let_def)
    show thesis by (rule that [OF st k'(2) _ k'(4,5)]) (use k'(3) rq none fr p assms(2) in auto)
  next
    case (some V t)
    let ?k1 = "after_dequeue c V t ?k"
    let ?k2 = "tick_requeue c (Some p) (Some t) ?k1"
    have fr1: "cs_current (k_sched ?k1 c) = Some p" "cs_idle (k_sched ?k1 c) = Some i" "k_self ?k1 = k_self ?k" "k_task ?k1 = k_task ?k"
      using p by (simp_all add: after_dequeue_def)
    have t: "t \<in> L" "t_cpu_id (k_task ?k t) = c" "t_state (k_task ?k t) = TASK_RUNNABLE" "t \<notin> set (cs_rq (k_sched ?k1 c))"
      using cpu_ok_lists(1,4) [OF inv_cpu [OF inv assms(3)]] some(2) by (simp_all add: after_dequeue_def)
    note rq = tick_requeue_inv [OF some(3) assms(3) fr1(1), where n = t, OF refl]
    have q: "sched_inv N L {t} ?k2" "cs_current (k_sched ?k2 c) = Some p" "k_task ?k2 t = k_task ?k t" "t \<notin> set (cs_rq (k_sched ?k2 c))"
      "p \<noteq> t \<Longrightarrow> p \<in> L \<Longrightarrow> t_state (k_task ?k2 p) \<noteq> TASK_RUNNING" "k_self ?k2 = k_self ?k"
      using rq fr1 t(4) by auto
    have "t \<notin> set (cs_sleep (k_sched ?k2 c))" using cpu_ok_lists(5) [OF inv_cpu [OF q(1) assms(3)], of t] t(3) q(3) by auto
    then obtain k' where k': "tick_switch c (Some p) (Some t) ?k2 = Some k'" "sched_inv N L {} k'" "k_self k' = k_self ?k2"
      "cs_current (k_sched k' c) = Some t" "t_state (k_task k' t) = TASK_RUNNING"
      using inv_switch [OF q(1) assms(3) q(2,5), of t] t q by auto
    have st: "sched_tick k = Some k'" unfolding sched_tick_def assms(2) tick_prepare_def [symmetric]
      using k'(1) some(1) cur by (simp add: Let_def)
    show thesis by (rule that [OF st k'(2) _ k'(4,5)]) (use k'(3) q(6) fr assms(2) some(2,4) in auto)
  qed
qed

lemma sched_unblock_inv:
  assumes "sched_inv N L X k" "t \<in> L" "t \<notin> X"
  shows "sched_inv N L X (sched_unblock t k) \<and> k_self (sched_unblock t k) = k_self k"
proof (cases "t_state (k_task k t) = TASK_BLOCKED")
  case True
  have "sched_inv N L (X - {t}) (rq_enqueue (t_cpu_id (k_task k t)) t (upd_task t (\<lambda>x. x\<lparr>t_state := TASK_RUNNABLE\<rparr>) k))"
    by (rule inv_wake [OF assms(1,2)]) (use True not_listed [OF assms(1)] in auto)
  then show ?thesis using True assms(3) by (simp add: sched_unblock_def)
qed (simp add: sched_unblock_def assms)

lemma signal_send_inv:
  assumes "sched_inv N L X k" "t \<in> L" "t \<notin> X"
  shows "sched_inv N L X (signal_send_from_cred (Some t) sig sender k) \<and> k_self (signal_send_from_cred (Some t) sig sender k) = k_self k"
proof -
  have "sched_inv N L X (upd_task t (\<lambda>x. x\<lparr>t_sig_pending := t_sig_pending x OR sig_bit (nat sig)\<rparr>) k)"
    using assms(1) by (rule inv_cong) (simp_all add: upd_task_apply)
  from sched_unblock_inv [OF this assms(2,3)] show ?thesis using assms(1) by (simp add: signal_send_from_cred_def)
qed

lemma move_children_frame:
  "move_children np cs k = (k', z) \<Longrightarrow> k_sched k' = k_sched k \<and> k_self k' = k_self k \<and>
    (\<forall>u. t_state (k_task k' u) = t_state (k_task k u) \<and> t_cpu_id (k_task k' u) = t_cpu_id (k_task k u) \<and>
      t_parent (k_task k' u) \<in> {t_parent (k_task k u), Some np})"
proof (induction cs arbitrary: k k' z)
  case (Cons ch cs)
  let ?k = "upd_task np (\<lambda>x. x\<lparr>t_children := ch # t_children x\<rparr>)
    (upd_task ch (\<lambda>x. x\<lparr>t_parent := Some np, t_ppid := t_pid (k_task k np)\<rparr>) k)"
  obtain z' where "move_children np cs ?k = (k', z')" using Cons.prems by (auto simp: Let_def split: prod.splits)
  from Cons.IH [OF this] show ?case by (auto simp: upd_task_apply split: if_splits)
qed simp

lemma reparent_inv:
  assumes "sched_inv N L X k" "np \<in> L" "np \<notin> X"
  shows "sched_inv N L X (task_reparent_children p np k) \<and> k_self (task_reparent_children p np k) = k_self k"
proof (cases "p = np")
  case False
  obtain k1 z where m: "move_children np (t_children (k_task k p)) k = (k1, z)" by fastforce
  let ?k2 = "upd_task p (\<lambda>x. x\<lparr>t_children := []\<rparr>) k1"
  have k2: "sched_inv N L X ?k2" "k_self ?k2 = k_self k"
    using move_children_frame [OF m] assms(1) by (auto simp: upd_task_apply intro: inv_cong)
  note s = signal_send_inv [OF k2(1) assms(2,3), of "int SIGCHLD" None, folded signal_send_def]
  then show ?thesis using sched_unblock_inv [OF conjunct1 [OF s] assms(2,3)] k2 m False
    by (simp add: task_reparent_children_def Let_def)
qed (simp add: task_reparent_children_def assms)

lemma inv_mark:
  assumes "sched_inv N L {} k" "t_state (k_task k p) = TASK_RUNNING" "st \<in> {TASK_BLOCKED, TASK_DEAD, TASK_ZOMBIE}"
  shows "sched_inv N L {} (upd_task p (\<lambda>x. x\<lparr>t_state := st\<rparr>) k)"
proof -
  let ?k = "upd_task p (\<lambda>x. x\<lparr>t_state := st\<rparr>) k"
  have "sched_inv N L {p} ?k" by (rule inv_touch [OF assms(1) not_listed [OF assms(1)]]) (use assms(2) in auto)
  moreover have "placed p ?k" using assms(3) by (auto simp: placed_def)
  ultimately show ?thesis by (auto simp: sched_inv_def)
qed

lemma count_nvcsw_frame [simp]:
  "k_sched (count_nvcsw c p k) = k_sched k" "k_self (count_nvcsw c p k) = k_self k" "k_jiffies (count_nvcsw c p k) = k_jiffies k"
  "t_state (k_task (count_nvcsw c p k) u) = t_state (k_task k u)" "t_cpu_id (k_task (count_nvcsw c p k) u) = t_cpu_id (k_task k u)"
  by (simp_all add: count_nvcsw_def upd_task_apply)

lemma count_nvcsw_inv: "sched_inv N L X k \<Longrightarrow> sched_inv N L X (count_nvcsw c p k)"
  by (erule inv_cong) simp_all

lemma inv_sleep:
  assumes "sched_inv N L {} k" "c \<in> N" "p \<in> L" "t_cpu_id (k_task k p) = c" "t_state (k_task k p) = TASK_RUNNING"
    "\<And>x. t_cpu_id (f x) = t_cpu_id x" "\<And>x. t_state (f x) = TASK_SLEEPING"
  shows "sched_inv N L {} (upd_sched c (\<lambda>cs. cs\<lparr>cs_sleep := p # cs_sleep cs\<rparr>) (upd_task p f k))"
proof -
  let ?k1 = "upd_task p f k" let ?k = "upd_sched c (\<lambda>cs. cs\<lparr>cs_sleep := p # cs_sleep cs\<rparr>) ?k1"
  have nl: "\<forall>d \<in> N. p \<notin> set (cs_rq (k_sched k d)) \<and> p \<notin> set (cs_sleep (k_sched k d))"
    by (rule not_listed [OF assms(1)]) (use assms(5) in auto)
  have k1: "sched_inv N L {p} ?k1" by (rule inv_touch [OF assms(1) nl assms(6)])
  have ok: "cpu_ok L d ?k" if "d \<in> N" for d
  proof (cases "d = c")
    case True
    obtain q i where "cs_current (k_sched ?k1 c) = Some q" "cs_idle (k_sched ?k1 c) = Some i" "i \<notin> L" "q = i \<or> q \<in> L \<and> t_cpu_id (k_task ?k1 q) = c"
      by (rule cpu_ok_current [OF inv_cpu [OF k1 assms(2)]])
    then show ?thesis using cpu_ok_lists [OF inv_cpu [OF k1 assms(2)]] nl assms(2,3,4,6,7) True by (simp add: cpu_ok_def Let_def)
  next
    case False
    then have "cpu_ok L d ?k = cpu_ok L d ?k1" by (intro cpu_ok_cong) (simp_all add: upd_sched_apply)
    then show ?thesis using inv_cpu [OF k1 that] by simp
  qed
  moreover have "placed u ?k" if "u \<in> L" for u
  proof (cases "u = p")
    case True then show ?thesis using assms(4,6,7) by (simp add: placed_def)
  next
    case False
    then have "placed u ?k1" using k1 that by (auto simp: sched_inv_def)
    then show ?thesis by (auto simp: placed_def Let_def upd_sched_apply split: task_state.splits)
  qed
  ultimately show ?thesis using k1 by (simp add: sched_inv_def)
qed

lemma inv_grow:
  assumes "sched_inv N L X k" "t_cpu_id (k_task k t) \<in> N" "\<forall>c \<in> N. cs_idle (k_sched k c) \<noteq> Some t"
  shows "sched_inv N (insert t L) (insert t X) k"
proof -
  have "cpu_ok (insert t L) c k" if "c \<in> N" for c
  proof -
    note ok = inv_cpu [OF assms(1) that]
    obtain p i where "cs_current (k_sched k c) = Some p" "cs_idle (k_sched k c) = Some i" "i \<notin> L" "p = i \<or> p \<in> L \<and> t_cpu_id (k_task k p) = c"
      by (rule cpu_ok_current [OF ok])
    moreover have "i \<noteq> t" using calculation(2) assms(3) that by auto
    ultimately show ?thesis using cpu_ok_lists [OF ok] by (auto simp add: cpu_ok_def Let_def)
  qed
  then show ?thesis using assms(1,2) by (auto simp: sched_inv_def)
qed

lemma sched_add_inv:
  assumes "sched_inv N L {} k" "t \<notin> L" "t_cpu_id (k_task k t) = c" "c \<in> N" "\<forall>c \<in> N. cs_idle (k_sched k c) \<noteq> Some t"
  shows "sched_inv N (insert t L) {} (sched_add_task t c k)"
proof -
  have g: "sched_inv N (insert t L) {t} k" using inv_grow [OF assms(1) _ assms(5)] assms(3,4) by simp
  have "\<forall>d \<in> N. t \<notin> set (cs_rq (k_sched k d)) \<and> t \<notin> set (cs_sleep (k_sched k d))"
    using cpu_ok_lists(4,5) [OF inv_cpu [OF assms(1)], of _ t] assms(2) by blast
  from inv_wake [OF g _ this, of "\<lambda>x. x\<lparr>t_state := TASK_RUNNABLE\<rparr>" c] show ?thesis
    using assms(3) by (simp add: sched_add_task_def)
qed

section \<open>Runs of the scheduler\<close>

text \<open>One atomic action of one CPU.  \<open>SetCpu\<close> moves the point of view to another CPU;
  \<open>Mark\<close> is the store to the state of the running task with which it blocks, dies or
  becomes a zombie before it calls the tick (\<^verbatim>\<open>sched_block\<close>, \<^verbatim>\<open>signal_deliver_user\<close>,
  \<^verbatim>\<open>sys_clone\<close> and the exception handlers).\<close>

definition running :: "kernel \<Rightarrow> tptr \<Rightarrow> bool" where
  "running k p \<longleftrightarrow> sched_current k = Some p \<and> t_state (k_task k p) = TASK_RUNNING"

inductive sched_step :: "nat set \<Rightarrow> tptr set \<times> kernel \<Rightarrow> tptr set \<times> kernel \<Rightarrow> bool" for N where
  SetCpu: "c \<in> N \<Longrightarrow> sched_step N (L, k) (L, k\<lparr>k_self := Some c\<rparr>)"
| Clock: "sched_step N (L, k) (L, k\<lparr>k_jiffies := k_jiffies k + 1\<rparr>)"
| Tick: "sched_tick k = Some k' \<Longrightarrow> sched_step N (L, k) (L, k')"
| Mark: "running k p \<Longrightarrow> st \<in> {TASK_BLOCKED, TASK_DEAD, TASK_ZOMBIE} \<Longrightarrow>
    sched_step N (L, k) (L, upd_task p (\<lambda>x. x\<lparr>t_state := st\<rparr>) k)"
| Block: "running k p \<Longrightarrow> sched_block k = Some k' \<Longrightarrow> sched_step N (L, k) (L, k')"
| Sleep: "running k p \<Longrightarrow> p \<in> L \<Longrightarrow> sched_sleep ms k = Some k' \<Longrightarrow> sched_step N (L, k) (L, k')"
| Exit: "running k p \<Longrightarrow> {q. t_parent (k_task k p) = Some q \<or> k_init_task k = Some q} \<subseteq> L \<Longrightarrow>
    sched_task_exit k = Some k' \<Longrightarrow> sched_step N (L, k) (L, k')"
| Unblock: "t \<in> L \<Longrightarrow> sched_step N (L, k) (L, sched_unblock t k)"
| Signal: "t \<in> L \<Longrightarrow> sched_step N (L, k) (L, signal_send_from_cred (Some t) sig sender k)"
| Add: "t \<notin> L \<Longrightarrow> t_cpu_id (k_task k t) = c \<Longrightarrow> c \<in> N \<Longrightarrow> \<forall>d \<in> N. cs_idle (k_sched k d) \<noteq> Some t \<Longrightarrow>
    sched_step N (L, k) (insert t L, sched_add_task t c k)"
| Priority: "sched_step N (L, k) (L, sched_set_priority t prio k)"

lemma sched_tick_ok:
  assumes "sched_ok N L k" "k_self k = Some c" "c \<in> N" "sched_tick k = Some k'"
  shows "sched_ok N L k' \<and> k_self k' \<in> Some ` N"
proof -
  obtain k1 n where "sched_tick k = Some k1" "sched_ok N L k1" "k_self k1 = Some c" using sched_tick_inv [OF assms(1-3)] by metis
  then show ?thesis using assms(3,4) by auto
qed

lemma unblock_running:
  "t_state (k_task k p) = TASK_RUNNING \<Longrightarrow> t_state (k_task (sched_unblock t k) p) = TASK_RUNNING"
  by (auto simp: sched_unblock_def rq_enqueue_def upd_task_apply)

lemma signal_running:
  "t_state (k_task k p) = TASK_RUNNING \<Longrightarrow> t_state (k_task (signal_send_from_cred (Some t) sig sender k) p) = TASK_RUNNING"
  by (auto simp: signal_send_from_cred_def upd_task_apply intro!: unblock_running)

lemma reparent_running:
  assumes "t_state (k_task k p) = TASK_RUNNING"
  shows "t_state (k_task (task_reparent_children q np k) p) = TASK_RUNNING"
proof -
  obtain k1 z where m: "move_children np (t_children (k_task k q)) k = (k1, z)" by fastforce
  have "t_state (k_task (upd_task q (\<lambda>x. x\<lparr>t_children := []\<rparr>) k1) p) = TASK_RUNNING"
    using move_children_frame [OF m] assms by (auto simp: upd_task_apply)
  then show ?thesis using m assms
    by (auto simp: task_reparent_children_def signal_send_def Let_def intro!: unblock_running signal_running)
qed

lemma reparent_parent:
  "t_parent (k_task (task_reparent_children q np k) p) \<in> {t_parent (k_task k p), Some np}"
proof -
  obtain k1 z where m: "move_children np (t_children (k_task k q)) k = (k1, z)" by fastforce
  have u: "t_parent (k_task (sched_unblock t k) p) = t_parent (k_task k p)" for t k
    by (simp add: sched_unblock_def rq_enqueue_def upd_task_apply enqueued_task_def Let_def)
  have s: "t_parent (k_task (signal_send t sig k) p) = t_parent (k_task k p)" for t sig k
    by (simp add: signal_send_def signal_send_from_cred_def u upd_task_apply)
  show ?thesis using move_children_frame [OF m] m
    by (auto simp: task_reparent_children_def Let_def u s upd_task_apply)
qed

lemma sched_exit_ok:
  assumes "sched_ok N L k" "k_self k = Some c" "c \<in> N" "running k p"
    "{q. t_parent (k_task k p) = Some q \<or> k_init_task k = Some q} \<subseteq> L" "sched_task_exit k = Some k'"
  shows "sched_ok N L k' \<and> k_self k' \<in> Some ` N"
proof -
  have cur: "self_current k = Some (c, p)" "t_state (k_task k p) = TASK_RUNNING"
    using assms(2,4) by (auto simp: self_current_def running_def sched_current_def)
  define k1 where "k1 = (case k_init_task k of None \<Rightarrow> k | Some i \<Rightarrow> if p \<noteq> i then task_reparent_children p i k else k)"
  have k1: "sched_ok N L k1" "k_self k1 = Some c" "t_state (k_task k1 p) = TASK_RUNNING"
    using reparent_inv [OF assms(1)] reparent_running [OF cur(2)] assms(1,2,5) cur(2) by (auto simp: k1_def split: option.split)
  have m: "sched_ok N L (upd_task p (\<lambda>x. x\<lparr>t_state := st\<rparr>) k1)" if "st \<in> {TASK_BLOCKED, TASK_DEAD, TASK_ZOMBIE}" for st
    by (rule inv_mark [OF k1(1,3) that])
  have par: "t_parent (k_task k1 p) = Some q \<Longrightarrow> q \<in> L" for q
  proof -
    assume q: "t_parent (k_task k1 p) = Some q"
    have "t_parent (k_task k1 p) \<in> insert (t_parent (k_task k p)) {Some i |i. k_init_task k = Some i}"
      using reparent_parent [of p _ k p] by (auto simp: k1_def split: option.split)
    then show ?thesis using q assms(5) by auto
  qed
  have "sched_ok N L (exit_state p k1) \<and> k_self (exit_state p k1) = Some c"
    using m signal_send_inv [OF m] k1(2) par by (auto simp: exit_state_def signal_send_def split: option.split)
  then show ?thesis using sched_tick_ok [of N L "exit_state p k1" c k'] assms(3,6) cur
    by (simp add: sched_task_exit_def k1_def)
qed

lemma sched_block_ok:
  assumes "sched_ok N L k" "k_self k = Some c" "c \<in> N" "running k p" "sched_block k = Some k'"
  shows "sched_ok N L k' \<and> k_self k' \<in> Some ` N"
proof -
  have cur: "self_current k = Some (c, p)" "t_state (k_task k p) = TASK_RUNNING"
    using assms(2,4) by (auto simp: self_current_def running_def sched_current_def)
  let ?k = "upd_task p (\<lambda>x. x\<lparr>t_state := TASK_BLOCKED\<rparr>) (count_nvcsw c p k)"
  have "sched_ok N L ?k" by (rule inv_mark [OF count_nvcsw_inv [OF assms(1)]]) (use cur in auto)
  then show ?thesis using sched_tick_ok [of N L ?k c k'] assms(2,3,5) cur by (simp add: sched_block_def)
qed

lemma sched_sleep_ok:
  assumes "sched_ok N L k" "k_self k = Some c" "c \<in> N" "running k p" "p \<in> L" "sched_sleep ms k = Some k'"
  shows "sched_ok N L k' \<and> k_self k' \<in> Some ` N"
proof (cases "ms = 0")
  case False
  have cur: "self_current k = Some (c, p)" "t_state (k_task k p) = TASK_RUNNING" "cs_current (k_sched k c) = Some p"
    using assms(2,4) by (auto simp: self_current_def running_def sched_current_def)
  have "t_cpu_id (k_task k p) = c"
    using cpu_ok_current [OF inv_cpu [OF assms(1,3)]] cur(3) assms(5) by (metis option.inject)
  then have "sched_ok N L (upd_sched c (\<lambda>cs. cs\<lparr>cs_sleep := p # cs_sleep cs\<rparr>)
      (upd_task p (\<lambda>x. x\<lparr>t_sleep_deadline := k_jiffies k + ucast ms, t_state := TASK_SLEEPING\<rparr>) k))" (is "sched_ok N L ?k")
    by (intro inv_sleep [OF assms(1,3,5)]) (use cur in auto)
  then have "sched_ok N L (count_nvcsw c p ?k)" by (rule count_nvcsw_inv)
  then show ?thesis using sched_tick_ok [of N L "count_nvcsw c p ?k" c k'] assms(2,3,6) cur False by (simp add: sched_sleep_def Let_def)
qed (use assms in \<open>auto simp: sched_sleep_def\<close>)

lemma sched_step_ok:
  assumes "sched_step N (L, k) (L', k')" "sched_ok N L k" "k_self k = Some c" "c \<in> N"
  shows "sched_ok N L' k' \<and> k_self k' \<in> Some ` N \<and> L \<subseteq> L'"
  using assms(1)
proof (cases rule: sched_step.cases)
  case (Priority t prio)
  have "sched_ok N L k'"
    by (rule inv_cong [OF assms(2)]) (simp_all add: Priority sched_set_priority_def Let_def upd_task_apply)
  then show ?thesis using assms(3,4) Priority by (simp add: sched_set_priority_def Let_def)
next
  case (SetCpu d)
  have "sched_ok N L k'" by (rule inv_cong [OF assms(2)]) (simp_all add: SetCpu)
  then show ?thesis using SetCpu by simp
next
  case Clock
  have "sched_ok N L k'" by (rule inv_cong [OF assms(2)]) (simp_all add: Clock)
  then show ?thesis using Clock assms(3,4) by simp
next
  case Tick then show ?thesis using sched_tick_ok [OF assms(2-4)] by simp
next
  case (Mark p st) then show ?thesis using inv_mark [OF assms(2), of p st] assms(3,4) by (simp add: running_def)
next
  case (Block p) then show ?thesis using sched_block_ok [OF assms(2-4)] by simp
next
  case (Sleep p ms) then show ?thesis using sched_sleep_ok [OF assms(2-4)] by simp
next
  case (Exit p) then show ?thesis using sched_exit_ok [OF assms(2-4)] by simp
next
  case (Unblock t) then show ?thesis using sched_unblock_inv [OF assms(2)] assms(3,4) by simp
next
  case (Signal t sig sender) then show ?thesis using signal_send_inv [OF assms(2)] assms(3,4) by simp
next
  case (Add t d)
  have "sched_ok N L' k'" unfolding Add by (rule sched_add_inv [OF assms(2)]) (use Add in auto)
  then show ?thesis using assms(3,4) Add by (auto simp: sched_add_task_def)
qed

lemma sched_steps_ok:
  assumes "(sched_step N)\<^sup>*\<^sup>* (L, k) (L', k')" "sched_ok N L k" "k_self k \<in> Some ` N"
  shows "L \<subseteq> L' \<and> sched_ok N L' k' \<and> k_self k' \<in> Some ` N"
  using assms
proof (induction rule: rtranclp_induct2)
  case (step L1 k1 L2 k2)
  then obtain c where "k_self k1 = Some c" "c \<in> N" by auto
  with step sched_step_ok [OF step(2)] show ?case by blast
qed simp

text \<open>C19: no task is lost.  Take any interleaving, over any set of CPUs, of ticks, blocking and
  unblocking, sleeping, exiting, signals, new tasks, changes of priority and of the
  clock, in which a task blocks only while it runs.  Then at every moment each task
  given to the scheduler is where its state says: a runnable task is on the run queue of
  its CPU, exactly once and on no other, a running one is its CPU's current task, a
  sleeping one is on its CPU's sleep list; the queue lengths are right, and the next
  tick dereferences no NULL pointer and leaves a running task.\<close>

theorem sched_no_task_lost:
  assumes "(sched_step N)\<^sup>*\<^sup>* (L, k) (L', k')" "sched_ok N L k" "k_self k \<in> Some ` N"
  shows "L \<subseteq> L' \<and> sched_ok N L' k' \<and>
    (\<exists>k'' c n. sched_tick k' = Some k'' \<and> k_self k' = Some c \<and> cs_current (k_sched k'' c) = Some n \<and>
       t_state (k_task k'' n) = TASK_RUNNING)"
proof -
  note ok = sched_steps_ok [OF assms]
  then obtain c where c: "k_self k' = Some c" "c \<in> N" by auto
  obtain k'' n where "sched_tick k' = Some k''" "cs_current (k_sched k'' c) = Some n" "t_state (k_task k'' n) = TASK_RUNNING"
    by (rule sched_tick_inv [OF _ c]) (use ok in blast)+
  then show ?thesis using ok c by blast
qed

section \<open>A busy CPU\<close>

definition switched :: "nat \<Rightarrow> tptr \<Rightarrow> tptr \<Rightarrow> u64 \<Rightarrow> kernel \<Rightarrow> kernel" where
  "switched c p n V k =
     upd_sched c (\<lambda>cs. cs\<lparr>cs_current := Some n\<rparr>)
       (upd_task n (\<lambda>x. x\<lparr>t_ticks_used := 0, t_state := TASK_RUNNING\<rparr>)
          (tick_requeue c (Some p) (Some n) (after_dequeue c V n k)))"

lemma sched_tick_busy:
  assumes "sched_ok N L k" "k_self k = Some c" "c \<in> N" "cs_current (k_sched k c) = Some p"
    "t \<in> set (cs_rq (k_sched (tick_prepare c k) c))" "t_vruntime (k_task (tick_prepare c k) t) \<noteq> - 1"
    "Suc (length (cs_rq (k_sched (tick_prepare c k) c))) < 2 ^ 32"
  obtains n V where "sched_tick k = Some (switched c p n V (tick_prepare c k))" "n \<in> set (cs_rq (k_sched (tick_prepare c k) c))"
    "\<forall>u \<in> set (cs_rq (k_sched (tick_prepare c k) c)). t_vruntime (k_task (tick_prepare c k) n) \<le> t_vruntime (k_task (tick_prepare c k) u)"
    "V = queue_vruntime c (tick_prepare c k)"
proof -
  let ?k = "tick_prepare c k"
  have inv: "sched_inv N L {} ?k" by (rule tick_prepare_inv [OF assms(1,3)])
  have q: "queue_vruntime c ?k \<noteq> - 1" using queue_vruntime_le [OF assms(5)] assms(6) by (auto simp: word_order.extremum_unique)
  have len: "cs_queue_len (k_sched ?k c) + 1 \<noteq> 0"
    using cpu_ok_lists(3) [OF inv_cpu [OF inv assms(3)]] assms(7)
    by (auto simp: word_unat_eq_iff unat_word_ariths unat_of_nat take_bit_eq_mod)
  show thesis
  proof (cases rule: rq_dequeue_cases [of c ?k])
    case (none V) then show thesis using assms(5,6) by blast
  next
    case (some V n)
    have "t_state (k_task ?k n) = TASK_RUNNABLE" using cpu_ok_lists(4) [OF inv_cpu [OF inv assms(3)]] some(2) by blast
    then have pk: "pick_next c 0 [] ?k = (after_dequeue c V n ?k, Some n, [])"
      using some(1) len by (simp add: pick_next.simps [of c 0] after_dequeue_def word_gt_0)
    have "sched_tick k = Some (switched c p n V ?k)"
      unfolding sched_tick_def assms(2) tick_prepare_def [symmetric] using pk assms(4)
      by (simp add: tick_switch_def switched_def Let_def)
    then show thesis by (rule that) (use some q in auto)
  qed
qed

definition tick_cost :: "task \<Rightarrow> u64" where
  "tick_cost t = EEVDF_TICK_SCALE div ucast (if t_weight t = 0 then 1024 else t_weight t)"

lemma remove1_back:
  assumes "distinct xs" "x \<in> set xs"
  shows "insert x (set (remove1 x xs)) = set xs" "Suc (length (remove1 x xs)) = length xs"
  using assms length_pos_if_in_set [of x xs] by (auto simp: length_remove1)

lemma upd_sleep_id: "cs_sleep (k_sched k c) = xs \<Longrightarrow> upd_sched c (\<lambda>cs. cs\<lparr>cs_sleep := xs\<rparr>) k = k"
  by (rule kernel.equality) (auto simp: upd_sched_def intro!: ext cpu_sched.equality)

lemma tick_prepare_awake:
  assumes "cs_sleep (k_sched k c) = []"
  shows "tick_prepare c k = tick_expire c (tick_charge c k)"
proof -
  have "cs_sleep (k_sched (tick_expire c (tick_charge c k)) c) = []"
    using assms by (auto simp: tick_expire_def tick_charge_def rq_enqueue_def Let_def split: option.split)
  then show ?thesis by (simp add: tick_prepare_def tick_wake_def upd_sleep_id)
qed

lemma enqueued_state [simp]: "t_state (enqueued_task V x) = t_state x"
  by (simp add: enqueued_task_def Let_def)

lemma enqueue_facts:
  assumes "Some t \<noteq> cs_idle (k_sched k c)"
  shows "cs_rq (k_sched (rq_enqueue c t k) c) = t # cs_rq (k_sched k c)"
    "cs_sleep (k_sched (rq_enqueue c t k) c) = cs_sleep (k_sched k c)"
    "cs_V_system (k_sched (rq_enqueue c t k) c) = cs_V_system (k_sched k c)"
    "k_task (rq_enqueue c t k) u = (if u = t then enqueued_task (cs_V_system (k_sched k c)) (k_task k t) else k_task k u)"
  using assms by (simp_all add: rq_enqueue_def upd_task_apply)

lemma after_dequeue_facts [simp]:
  "cs_rq (k_sched (after_dequeue c V t k) c) = remove1 t (cs_rq (k_sched k c))"
  "cs_sleep (k_sched (after_dequeue c V t k) c) = cs_sleep (k_sched k c)"
  "cs_V_system (k_sched (after_dequeue c V t k) c) = V"
  "cs_idle (k_sched (after_dequeue c V t k) c) = cs_idle (k_sched k c)"
  "k_task (after_dequeue c V t k) = k_task k" "k_self (after_dequeue c V t k) = k_self k"
  by (simp_all add: after_dequeue_def)

text \<open>The fields of a task that a tick on another task's account leaves alone.\<close>

definition same_share :: "task \<Rightarrow> task \<Rightarrow> bool" where
  "same_share x y \<longleftrightarrow> t_vruntime x = t_vruntime y \<and> t_weight x = t_weight y \<and> t_slice_ticks x = t_slice_ticks y \<and>
     t_deadline x = t_deadline y \<and> t_vruntime_initialized x = t_vruntime_initialized y"

definition charged :: "u64 \<Rightarrow> task \<Rightarrow> task \<Rightarrow> bool" where
  "charged V x y \<longleftrightarrow> same_share (enqueued_task V (y\<lparr>t_vruntime := t_vruntime y + tick_cost y\<rparr>)) x"

lemma charged_simps:
  "charged V (enqueued_task V ((charge_task False x)\<lparr>t_state := st, t_ticks_used := i, t_nivcsw := j\<rparr>)) x"
  "charged V (enqueued_task V ((charge_task False x)\<lparr>t_state := st\<rparr>)) x"
  "charged V (y\<lparr>t_ticks_used := i, t_state := st\<rparr>) x = charged V y x"
  by (simp_all add: charged_def same_share_def enqueued_task_def entry_vruntime_def charge_task_def tick_cost_def Let_def)

text \<open>What a tick does on a CPU that runs \<open>p\<close> and picks \<open>n\<close>.\<close>

definition tick_result :: "nat \<Rightarrow> tptr \<Rightarrow> tptr \<Rightarrow> kernel \<Rightarrow> kernel \<Rightarrow> bool" where
  "tick_result c p n k k' \<longleftrightarrow>
     (let cs = k_sched k c; cs' = k_sched k' c in
      cs_current cs' = Some n \<and> t_state (k_task k' n) = TASK_RUNNING \<and> t_ticks_used (k_task k' n) = 0 \<and> cs_sleep cs' = [] \<and>
      insert n (set (cs_rq cs')) = insert p (set (cs_rq cs)) \<and> length (cs_rq cs') = length (cs_rq cs) \<and>
      (\<forall>u \<in> set (cs_rq cs). t_vruntime (k_task k' n) \<le> t_vruntime (k_task k u) \<and> cs_V_system cs' \<le> t_vruntime (k_task k u)) \<and>
      (\<forall>u. u \<noteq> p \<longrightarrow> same_share (k_task k' u) (k_task k u)) \<and>
      (charged (cs_V_system cs) (k_task k' p) (k_task k p) \<or> charged (cs_V_system cs') (k_task k' p) (k_task k p)) \<and>
      (n = p \<longrightarrow> slice_over False (charge_task False (k_task k p))))"

lemma switched_over:
  assumes "k0 = rq_enqueue c p (upd_task p (\<lambda>x. x\<lparr>t_state := TASK_RUNNABLE, t_ticks_used := 0, t_nivcsw := t_nivcsw x + 1\<rparr>)
      (upd_task p (charge_task False) k))"
    "cs_idle (k_sched k c) \<noteq> Some p" "cs_sleep (k_sched k c) = []" "distinct (p # cs_rq (k_sched k c))"
    "n \<in> set (p # cs_rq (k_sched k c))" "slice_over False (charge_task False (k_task k p))"
    "\<forall>u \<in> set (cs_rq (k_sched k c)). t_vruntime (k_task k0 n) \<le> t_vruntime (k_task k u) \<and> V \<le> t_vruntime (k_task k u)"
  shows "tick_result c p n k (switched c p n V k0)"
proof -
  let ?rq = "cs_rq (k_sched k c)" and ?k = "switched c p n V k0"
  have F: "cs_rq (k_sched k0 c) = p # ?rq" "cs_sleep (k_sched k0 c) = []" "u \<noteq> p \<Longrightarrow> k_task k0 u = k_task k u"
    "t_state (k_task k0 p) = TASK_RUNNABLE" "charged (cs_V_system (k_sched k c)) (k_task k0 p) (k_task k p)" for u
    using assms(1-3) by (simp_all add: enqueue_facts upd_task_apply charged_simps)
  have eq: "?k = upd_sched c (\<lambda>cs. cs\<lparr>cs_current := Some n\<rparr>) (upd_task n (\<lambda>x. x\<lparr>t_ticks_used := 0, t_state := TASK_RUNNING\<rparr>) (after_dequeue c V n k0))"
    using F(4) by (simp add: switched_def tick_requeue_def)
  have "insert n (set (remove1 n (p # ?rq))) = insert p (set ?rq)" "length (remove1 n (p # ?rq)) = length ?rq"
    using assms(5) remove1_back [OF assms(4), of n] by simp_all
  moreover have "same_share (k_task ?k u) (k_task k u)" if "u \<noteq> p" for u
    unfolding eq using F(3) [OF that] by (cases "u = n") (simp_all add: upd_task_apply same_share_def)
  moreover have "charged (cs_V_system (k_sched k c)) (k_task ?k p) (k_task k p)"
    unfolding eq using F(5) by (cases "p = n") (simp_all add: upd_task_apply charged_simps)
  ultimately show ?thesis unfolding tick_result_def eq Let_def using assms(6,7) F(1,2) by simp
qed

lemma switched_keep:
  assumes "cs_idle (k_sched k c) \<noteq> Some p" "cs_sleep (k_sched k c) = []" "distinct (cs_rq (k_sched k c))"
    "n \<in> set (cs_rq (k_sched k c))" "p \<notin> set (cs_rq (k_sched k c))" "t_state (k_task k p) = TASK_RUNNING"
    "\<forall>u \<in> set (cs_rq (k_sched k c)). t_vruntime (k_task k n) \<le> t_vruntime (k_task k u) \<and> V \<le> t_vruntime (k_task k u)"
  shows "tick_result c p n k (switched c p n V (upd_task p (charge_task False) k))"
proof -
  let ?rq = "cs_rq (k_sched k c)" and ?k0 = "upd_task p (charge_task False) k"
  let ?k = "switched c p n V ?k0" and ?k2 = "upd_task p (\<lambda>x. x\<lparr>t_state := TASK_RUNNABLE\<rparr>) (after_dequeue c V n ?k0)"
  have np: "n \<noteq> p" using assms(4,5) by auto
  have eq: "?k = upd_sched c (\<lambda>cs. cs\<lparr>cs_current := Some n\<rparr>) (upd_task n (\<lambda>x. x\<lparr>t_ticks_used := 0, t_state := TASK_RUNNING\<rparr>) (rq_enqueue c p ?k2))"
    using assms(6) np by (simp add: switched_def tick_requeue_def charge_task_def Let_def)
  have F: "cs_rq (k_sched (rq_enqueue c p ?k2) c) = p # remove1 n ?rq" "cs_sleep (k_sched (rq_enqueue c p ?k2) c) = []"
    "cs_V_system (k_sched (rq_enqueue c p ?k2) c) = V"
    "k_task (rq_enqueue c p ?k2) u = (if u = p then enqueued_task V ((charge_task False (k_task k p))\<lparr>t_state := TASK_RUNNABLE\<rparr>) else k_task k u)" for u
    using assms(1,2) by (simp_all add: enqueue_facts upd_task_apply)
  have "insert n (set (p # remove1 n ?rq)) = insert p (set ?rq)" "length (p # remove1 n ?rq) = length ?rq"
    using remove1_back [OF assms(3,4)] by auto
  moreover have "same_share (k_task ?k u) (k_task k u)" if "u \<noteq> p" for u
    using that by (cases "u = n") (simp_all add: eq upd_task_apply same_share_def F)
  moreover have "charged V (k_task ?k p) (k_task k p)" using np by (simp add: eq upd_task_apply charged_simps F)
  ultimately show ?thesis using assms(7) np by (simp add: tick_result_def eq Let_def F)
qed

lemma busy_tick:
  assumes "sched_ok N L k" "k_self k = Some c" "c \<in> N" "cs_current (k_sched k c) = Some p" "p \<in> L"
    "t_state (k_task k p) = TASK_RUNNING" "cs_sleep (k_sched k c) = []"
    "t \<in> set (cs_rq (k_sched k c))" "t_vruntime (k_task k t) \<noteq> - 1" "Suc (Suc (length (cs_rq (k_sched k c)))) < 2 ^ 32"
  obtains k' n where "sched_tick k = Some k'" "sched_ok N L k'" "k_self k' = Some c" "n \<in> L" "tick_result c p n k k'"
proof -
  let ?k1 = "upd_task p (charge_task False) k" let ?k0 = "tick_prepare c k" let ?rq = "cs_rq (k_sched k c)"
  let ?f = "\<lambda>x. x\<lparr>t_state := TASK_RUNNABLE, t_ticks_used := 0, t_nivcsw := t_nivcsw x + 1\<rparr>"
  note lists = cpu_ok_lists [OF inv_cpu [OF assms(1,3)]]
  have ni: "cs_idle (k_sched k c) \<noteq> Some p" using cpu_ok_idle [OF inv_cpu [OF assms(1,3)] assms(5)] .
  have pn: "p \<notin> set ?rq" using lists(4) assms(6) by auto
  have k0: "?k0 = (if slice_over False (charge_task False (k_task k p)) then rq_enqueue c p (upd_task p ?f ?k1) else ?k1)"
    using assms(4,6) ni by (auto simp: tick_prepare_awake [OF assms(7)] tick_expire_def tick_charge_def charge_task_def Let_def)
  have rq0: "cs_rq (k_sched ?k0 c) = (if slice_over False (charge_task False (k_task k p)) then p # ?rq else ?rq)"
    and T0: "\<And>u. u \<noteq> p \<Longrightarrow> k_task ?k0 u = k_task k u"
    using ni by (auto simp: k0 enqueue_facts upd_task_apply)
  have t0: "t \<in> set (cs_rq (k_sched ?k0 c))" "t_vruntime (k_task ?k0 t) \<noteq> - 1" "Suc (length (cs_rq (k_sched ?k0 c))) < 2 ^ 32"
    using assms(8-10) T0 [of t] pn by (cases "t = p"; simp add: rq0)+
  obtain n V where n: "sched_tick k = Some (switched c p n V ?k0)" "n \<in> set (cs_rq (k_sched ?k0 c))"
    "\<forall>u \<in> set (cs_rq (k_sched ?k0 c)). t_vruntime (k_task ?k0 n) \<le> t_vruntime (k_task ?k0 u)" "V = queue_vruntime c ?k0"
    by (rule sched_tick_busy [OF assms(1-4) t0])
  obtain k' where k': "sched_tick k = Some k'" "sched_ok N L k'" "k_self k' = Some c"
    using sched_tick_inv [OF assms(1-3)] by metis
  have sub: "u \<in> set (cs_rq (k_sched ?k0 c)) \<and> k_task ?k0 u = k_task k u" if "u \<in> set ?rq" for u
    using that T0 [of u] pn by (auto simp: rq0)
  then have m: "\<forall>u \<in> set ?rq. t_vruntime (k_task ?k0 n) \<le> t_vruntime (k_task k u) \<and> V \<le> t_vruntime (k_task k u)"
    using n(3,4) queue_vruntime_le [of _ ?k0 c] by metis
  have "tick_result c p n k (switched c p n V ?k0)"
  proof (cases "slice_over False (charge_task False (k_task k p))")
    case True
    then have eq: "?k0 = rq_enqueue c p (upd_task p ?f ?k1)" by (simp only: k0 if_True)
    have "n \<in> set (p # ?rq)" using n(2) True by (simp only: rq0 if_True)
    from switched_over [OF eq ni assms(7) _ this True m] lists(1) pn show ?thesis by simp
  next
    case False
    then have eq: "?k0 = ?k1" by (simp only: k0 if_False)
    have "n \<in> set ?rq" using n(2) False by (simp only: rq0 if_False)
    with eq show ?thesis using switched_keep [OF ni assms(7) lists(1) _ pn assms(6), of n V] m sub by metis
  qed
  moreover have "n \<in> L" using n(2) lists(4) assms(5) by (auto simp: rq0 split: if_splits)
  ultimately show thesis using that [OF k'] k'(1) n(1) by simp
qed

lemma tick_cost_bounds:
  assumes "t_weight t \<le> 1048576"
  shows "1 \<le> unat (tick_cost t)" "unat (tick_cost t) \<le> 1048576"
proof -
  let ?w = "if t_weight t = 0 then 1024 else t_weight t"
  have c: "unat (tick_cost t) = 1048576 div unat ?w"
    using unat_lt32 [of ?w] by (simp add: tick_cost_def EEVDF_TICK_SCALE_def unat_div unsigned_ucast_eq take_bit_eq_mod)
  have "unat ?w \<le> 1048576" "0 < unat ?w" using assms by (auto simp: word_le_nat_alt unat_gt_0)
  then show "1 \<le> unat (tick_cost t)" "unat (tick_cost t) \<le> 1048576"
    unfolding c by (simp_all add: div_le_dividend Suc_le_eq div_greater_zero_iff)
qed

lemma charged_bounds:
  assumes "charged V x y" "t_vruntime_initialized y" "t_weight y \<le> 1048576" "unat (t_vruntime y) + 1048576 < 2 ^ 64"
  shows "unat (t_vruntime y) + 1 \<le> unat (t_vruntime x)"
    "unat (t_vruntime x) \<le> max (unat (t_vruntime y) + 1048576) (unat V)"
    "t_vruntime_initialized x" "t_weight x \<le> 1048576"
proof -
  let ?z = "t_vruntime y + tick_cost y" and ?thr = "EEVDF_TICK_SCALE * 10"
  note b = tick_cost_bounds [OF assms(3)]
  have z: "unat ?z = unat (t_vruntime y) + unat (tick_cost y)"
    using assms(4) b(2) by (subst unat_add_lem [THEN iffD1]) auto
  have x: "t_vruntime x = (if V > ?thr \<and> ?z < V - ?thr then V - ?thr else ?z)" "t_vruntime_initialized x"
    "t_weight x = (if t_weight y = 0 then 1024 else t_weight y)"
    using assms(1,2) by (auto simp: charged_def same_share_def enqueued_task_def entry_vruntime_def Let_def split: if_splits)
  have V: "unat (V - ?thr) \<le> unat V" if "V > ?thr" using that by (simp add: unat_sub_if' word_less_nat_alt split: if_splits)
  show "unat (t_vruntime y) + 1 \<le> unat (t_vruntime x)" using x(1) z b(1) by (auto simp: word_less_nat_alt)
  show "unat (t_vruntime x) \<le> max (unat (t_vruntime y) + 1048576) (unat V)" using x(1) z b(2) V by auto
  show "t_vruntime_initialized x" "t_weight x \<le> 1048576" using x assms(3) by auto
qed

fun sched_ticks :: "nat \<Rightarrow> kernel \<Rightarrow> kernel option" where
  "sched_ticks 0 k = Some k"
| "sched_ticks (Suc n) k = (case sched_tick k of None \<Rightarrow> None | Some k' \<Rightarrow> sched_ticks n k')"

text \<open>A CPU that runs a task, has others queued and nobody asleep, with virtual times far
  from the end of their range and the weights of \<^verbatim>\<open>prio_to_weight\<close> or close to them.\<close>

definition busy :: "nat set \<Rightarrow> tptr set \<Rightarrow> nat \<Rightarrow> nat \<Rightarrow> kernel \<Rightarrow> bool" where
  "busy N L c b k \<longleftrightarrow> sched_ok N L k \<and> k_self k = Some c \<and> c \<in> N \<and> cs_sleep (k_sched k c) = [] \<and>
     Suc (Suc (length (cs_rq (k_sched k c)))) < 2 ^ 32 \<and> unat (cs_V_system (k_sched k c)) \<le> b \<and>
     (\<exists>p \<in> L. cs_current (k_sched k c) = Some p \<and> t_state (k_task k p) = TASK_RUNNING \<and>
        (\<forall>u \<in> insert p (set (cs_rq (k_sched k c))). t_vruntime_initialized (k_task k u) \<and>
           t_weight (k_task k u) \<le> 1048576 \<and> unat (t_vruntime (k_task k u)) \<le> b))"

definition competitors :: "nat \<Rightarrow> kernel \<Rightarrow> tptr set" where
  "competitors c k = set (cs_rq (k_sched k c)) \<union> {p. cs_current (k_sched k c) = Some p}"

lemma busy_step:
  assumes "busy N L c b k" "cs_current (k_sched k c) = Some p" "t \<in> set (cs_rq (k_sched k c))"
    "unat (t_vruntime (k_task k p)) + 1048576 \<le> b'" "b \<le> b'" "b' < 2 ^ 64 - 1"
  obtains k' n where "sched_tick k = Some k'" "busy N L c b' k'" "cs_current (k_sched k' c) = Some n"
    "competitors c k' = competitors c k" "t \<noteq> n \<longrightarrow> t \<in> set (cs_rq (k_sched k' c))"
    "t_vruntime (k_task k' n) \<le> t_vruntime (k_task k t)"
    "\<forall>u. u \<noteq> p \<longrightarrow> t_vruntime (k_task k' u) = t_vruntime (k_task k u)"
    "unat (t_vruntime (k_task k p)) < unat (t_vruntime (k_task k' p))"
proof -
  have a: "sched_ok N L k" "k_self k = Some c" "c \<in> N" "p \<in> L" "t_state (k_task k p) = TASK_RUNNING" "cs_sleep (k_sched k c) = []"
    "Suc (Suc (length (cs_rq (k_sched k c)))) < 2 ^ 32" "unat (cs_V_system (k_sched k c)) \<le> b"
    and U: "\<And>u. u \<in> insert p (set (cs_rq (k_sched k c))) \<Longrightarrow> t_vruntime_initialized (k_task k u) \<and> t_weight (k_task k u) \<le> 1048576 \<and> unat (t_vruntime (k_task k u)) \<le> b"
    using assms(1,2) unfolding busy_def by auto
  have "unat (t_vruntime (k_task k t)) < 2 ^ 64 - 1" using U [of t] assms(3,5,6) by force
  then have nm: "t_vruntime (k_task k t) \<noteq> - 1" by (auto simp: unsigned_minus_1_eq_mask mask_eq_exp_minus_1)
  obtain k' n where k'1: "sched_tick k = Some k'" "sched_ok N L k'" "k_self k' = Some c" "n \<in> L" "tick_result c p n k k'"
    by (rule busy_tick [OF a(1-3) assms(2) a(4-6) assms(3) nm a(7)])
  then have k': "cs_current (k_sched k' c) = Some n" "t_state (k_task k' n) = TASK_RUNNING" "cs_sleep (k_sched k' c) = []"
    "insert n (set (cs_rq (k_sched k' c))) = insert p (set (cs_rq (k_sched k c)))" "length (cs_rq (k_sched k' c)) = length (cs_rq (k_sched k c))"
    "\<forall>u \<in> set (cs_rq (k_sched k c)). t_vruntime (k_task k' n) \<le> t_vruntime (k_task k u) \<and> cs_V_system (k_sched k' c) \<le> t_vruntime (k_task k u)"
    "\<forall>u. u \<noteq> p \<longrightarrow> same_share (k_task k' u) (k_task k u)"
    "charged (cs_V_system (k_sched k c)) (k_task k' p) (k_task k p) \<or> charged (cs_V_system (k_sched k' c)) (k_task k' p) (k_task k p)"
    unfolding tick_result_def Let_def by blast+
  have V': "unat (cs_V_system (k_sched k' c)) \<le> b" using k'(6) U [of t] assms(3) by (auto simp: word_le_nat_alt)
  obtain W where W: "charged W (k_task k' p) (k_task k p)" "unat W \<le> b" using k'(8) V' a(8) by blast
  have ov: "unat (t_vruntime (k_task k p)) + 1048576 < 2 ^ 64" using assms(4,6) by simp
  have up: "t_vruntime_initialized (k_task k p)" "t_weight (k_task k p) \<le> 1048576" using U by auto
  note cb = charged_bounds [OF W(1) up ov]
  have U': "t_vruntime_initialized (k_task k' u) \<and> t_weight (k_task k' u) \<le> 1048576 \<and> unat (t_vruntime (k_task k' u)) \<le> b'"
    if "u \<in> insert n (set (cs_rq (k_sched k' c)))" for u
  proof (cases "u = p")
    case True then show ?thesis using cb W(2) assms(4,5) by auto
  next
    case False
    then show ?thesis using U [of u] that k'(4,7) assms(5) by (auto simp: same_share_def)
  qed
  have "busy N L c b' k'" using k'1(2-4) k'(1-3,5) a(3,7) V' assms(5) U' unfolding busy_def by auto
  moreover have "competitors c k' = competitors c k" using k'(1,4) assms(2) by (auto simp: competitors_def)
  moreover have "t \<noteq> n \<longrightarrow> t \<in> set (cs_rq (k_sched k' c))" using k'(4) assms(3) by auto
  ultimately show thesis using that [OF k'1(1)] k'(1,6,7) assms(3) cb(1) by (auto simp: same_share_def)
qed

lemma busy_not_current:
  assumes "busy N L c b k" "cs_current (k_sched k c) = Some p" "t \<in> set (cs_rq (k_sched k c))"
  shows "t \<noteq> p"
proof -
  have "cpu_ok L c k" "t_state (k_task k p) = TASK_RUNNING" using assms(1,2) by (auto simp: busy_def sched_inv_def)
  then show ?thesis using cpu_ok_lists(4) [of L c k t] assms(3) by auto
qed

lemma catches_up:
  assumes "busy N L c b k" "cs_current (k_sched k c) = Some p" "t \<in> set (cs_rq (k_sched k c))"
    "t_vruntime (k_task k p) \<le> t_vruntime (k_task k t)" "unat (t_vruntime (k_task k t)) + 1048576 \<le> b" "b < 2 ^ 64 - 1"
  shows "\<exists>n k'. sched_ticks n k = Some k' \<and> cs_current (k_sched k' c) = Some t"
  using assms(1-5)
proof (induction "\<Sum>u \<in> competitors c k. Suc (unat (t_vruntime (k_task k t))) - unat (t_vruntime (k_task k u))" arbitrary: k p rule: less_induct)
  case less
  let ?v = "t_vruntime (k_task k t)"
  have vp: "unat (t_vruntime (k_task k p)) \<le> unat ?v" using less.prems(4) by (simp add: word_le_nat_alt)
  then have ov: "unat (t_vruntime (k_task k p)) + 1048576 \<le> b" using less.prems(5) by simp
  obtain k' n where k': "sched_tick k = Some k'" "busy N L c b k'" "cs_current (k_sched k' c) = Some n"
    "competitors c k' = competitors c k" "t \<noteq> n \<longrightarrow> t \<in> set (cs_rq (k_sched k' c))"
    "t_vruntime (k_task k' n) \<le> ?v" "\<forall>u. u \<noteq> p \<longrightarrow> t_vruntime (k_task k' u) = t_vruntime (k_task k u)"
    "unat (t_vruntime (k_task k p)) < unat (t_vruntime (k_task k' p))"
    by (rule busy_step [OF less.prems(1-3) ov order.refl assms(6)])
  show ?case
  proof (cases "n = t")
    case True
    then have "sched_ticks 1 k = Some k' \<and> cs_current (k_sched k' c) = Some t" using k'(1,3) by simp
    then show ?thesis by blast
  next
    case False
    have vt: "t_vruntime (k_task k' t) = ?v" using k'(7) busy_not_current [OF less.prems(1-3)] by blast
    have fin: "finite (competitors c k)" "p \<in> competitors c k" using less.prems(2) by (simp_all add: competitors_def)
    have "(\<Sum>u \<in> competitors c k'. Suc (unat (t_vruntime (k_task k' t))) - unat (t_vruntime (k_task k' u))) <
        (\<Sum>u \<in> competitors c k. Suc (unat ?v) - unat (t_vruntime (k_task k u)))"
      unfolding k'(4) vt
    proof (rule sum_strict_mono_ex1 [OF fin(1)])
      show "\<forall>u \<in> competitors c k. Suc (unat ?v) - unat (t_vruntime (k_task k' u)) \<le> Suc (unat ?v) - unat (t_vruntime (k_task k u))"
        using k'(7,8) by (metis diff_le_mono2 nat_less_le order.refl)
      show "\<exists>u \<in> competitors c k. Suc (unat ?v) - unat (t_vruntime (k_task k' u)) < Suc (unat ?v) - unat (t_vruntime (k_task k u))"
        by (rule bexI [OF _ fin(2)]) (use k'(8) vp in linarith)
    qed
    from less.hyps [OF this k'(2,3)] k'(5,6) False vt less.prems(5)
    obtain m k'' where "sched_ticks m k' = Some k''" "cs_current (k_sched k'' c) = Some t" by auto
    then have "sched_ticks (Suc m) k = Some k'' \<and> cs_current (k_sched k'' c) = Some t" using k'(1) by simp
    then show ?thesis by blast
  qed
qed

text \<open>C20: no starvation.  On a CPU that is busy with a fixed set of runnable tasks, of whatever
  weights between one and the tick scale, every queued task becomes the current one after
  finitely many ticks, as long as the virtual times are a tick away from the end of their
  range.\<close>

theorem sched_no_starvation:
  assumes "busy N L c b k" "t \<in> set (cs_rq (k_sched k c))" "b + 1048576 < 2 ^ 64 - 1"
  shows "\<exists>n k'. sched_ticks n k = Some k' \<and> cs_current (k_sched k' c) = Some t"
proof -
  obtain p where p: "cs_current (k_sched k c) = Some p" "unat (t_vruntime (k_task k p)) \<le> b"
    "unat (t_vruntime (k_task k t)) \<le> b" using assms(1,2) by (auto simp: busy_def)
  obtain k' n where k': "sched_tick k = Some k'" "busy N L c (b + 1048576) k'" "cs_current (k_sched k' c) = Some n"
    "t \<noteq> n \<longrightarrow> t \<in> set (cs_rq (k_sched k' c))" "t_vruntime (k_task k' n) \<le> t_vruntime (k_task k t)"
    "\<forall>u. u \<noteq> p \<longrightarrow> t_vruntime (k_task k' u) = t_vruntime (k_task k u)"
    by (rule busy_step [OF assms(1) p(1) assms(2) _ _ assms(3)]) (use p(2) in auto)
  show ?thesis
  proof (cases "n = t")
    case True
    then have "sched_ticks 1 k = Some k' \<and> cs_current (k_sched k' c) = Some t" using k'(1,3) by simp
    then show ?thesis by blast
  next
    case False
    have vt: "t_vruntime (k_task k' t) = t_vruntime (k_task k t)" using k'(6) busy_not_current [OF assms(1) p(1) assms(2)] by blast
    obtain m k'' where "sched_ticks m k' = Some k''" "cs_current (k_sched k'' c) = Some t"
      using catches_up [OF k'(2,3), of t] k'(4,5) False vt p(3) assms(3) by auto
    then have "sched_ticks (Suc m) k = Some k'' \<and> cs_current (k_sched k'' c) = Some t" using k'(1) by simp
    then show ?thesis by blast
  qed
qed

definition fresh_slice :: "nat \<Rightarrow> task \<Rightarrow> bool" where
  "fresh_slice m t \<longleftrightarrow> t_weight t \<noteq> 0 \<and> 2 \<le> unat (t_slice_ticks t) \<and> unat (t_slice_ticks t) \<le> m \<and>
     t_deadline t = virtual_deadline (t_vruntime t) (t_slice_ticks t) (t_weight t)"

definition duel :: "nat set \<Rightarrow> tptr set \<Rightarrow> nat \<Rightarrow> nat \<Rightarrow> nat \<Rightarrow> tptr \<Rightarrow> tptr \<Rightarrow> kernel \<Rightarrow> bool" where
  "duel N L c b m x y k \<longleftrightarrow> busy N L c b k \<and> cs_current (k_sched k c) = Some x \<and> cs_rq (k_sched k c) = [y] \<and>
     fresh_slice m (k_task k x) \<and> fresh_slice m (k_task k y) \<and> t_ticks_used (k_task k x) = 0"

lemma fresh_slice_not_over:
  assumes "fresh_slice m t" "t_ticks_used t = 0" "t_weight t \<le> 1048576" "unat (t_vruntime t) + m * 1048576 < 2 ^ 64"
  shows "\<not> slice_over False (charge_task False t)"
proof -
  let ?w = "unat (t_weight t)" and ?s = "unat (t_slice_ticks t)"
  have w: "0 < ?w" "?w \<le> 1048576" and s: "2 \<le> ?s" "?s \<le> m"
    using assms(1,3) by (auto simp: fresh_slice_def word_le_nat_alt unat_gt_0)
  have le: "(?s * 1048576) div ?w \<le> m * 1048576" by (meson div_le_dividend le_trans mult_le_mono1 s(2))
  have "?s * 1048576 < 2 ^ 64" using unat_lt32 [of "t_slice_ticks t"] by simp
  then have q: "unat ((ucast (t_slice_ticks t) * EEVDF_TICK_SCALE) div ucast (t_weight t) :: u64) = (?s * 1048576) div ?w"
    using unat_lt32 [of "t_slice_ticks t"] unat_lt32 [of "t_weight t"]
    by (simp add: unat_div unat_mult_lem [THEN iffD1] EEVDF_TICK_SCALE_def unat_word_ariths unsigned_ucast_eq take_bit_eq_mod)
  have d: "unat (t_deadline t) = unat (t_vruntime t) + (?s * 1048576) div ?w"
    using assms(1,4) le q by (simp add: fresh_slice_def virtual_deadline_def unat_word_ariths)
  have c: "unat (tick_cost t) = 1048576 div ?w"
    using w(1) unat_lt32 [of "t_weight t"] by (auto simp: tick_cost_def EEVDF_TICK_SCALE_def unat_div unsigned_ucast_eq take_bit_eq_mod)
  have "1 \<le> 1048576 div ?w" using w by (simp add: Suc_le_eq div_greater_zero_iff)
  moreover have "2 * (1048576 div ?w) \<le> (?s * 1048576) div ?w"
  proof -
    have "2 * (1048576 div ?w) * ?w \<le> 2 * 1048576" by (metis div_times_less_eq_dividend mult.assoc mult_le_mono2)
    also have "\<dots> \<le> ?s * 1048576" using s(1) by (rule mult_le_mono1)
    finally show ?thesis using w(1) by (simp only: less_eq_div_iff_mult_less_eq)
  qed
  ultimately have lt: "1048576 div ?w < (?s * 1048576) div ?w" by linarith
  have v: "unat (t_vruntime t + tick_cost t) = unat (t_vruntime t) + 1048576 div ?w"
    using c assms(4) le lt by (simp add: unat_word_ariths)
  have "\<not> t_deadline t \<le> t_vruntime t + tick_cost t" using v d lt by (simp add: word_le_nat_alt)
  moreover have "\<not> t_slice_ticks t \<le> 1" using s(1) by (simp add: word_le_nat_alt)
  ultimately show ?thesis using assms(1,2) by (simp add: slice_over_def charge_task_def tick_cost_def fresh_slice_def)
qed


lemma duel_step:
  assumes "duel N L c b m x y k" "b + (m + 1) * 1048576 < 2 ^ 64 - 1"
  shows "\<exists>k'. sched_tick k = Some k' \<and> duel N L c (b + 1048576) m y x k'"
proof -
  have d: "busy N L c b k" "cs_current (k_sched k c) = Some x" "cs_rq (k_sched k c) = [y]"
    "fresh_slice m (k_task k x)" "fresh_slice m (k_task k y)" "t_ticks_used (k_task k x) = 0" using assms(1) by (auto simp: duel_def)
  have yx: "y \<noteq> x" using busy_not_current [OF d(1,2), of y] d(3) by simp
  have a: "sched_ok N L k" "k_self k = Some c" "c \<in> N" "x \<in> L" "t_state (k_task k x) = TASK_RUNNING" "cs_sleep (k_sched k c) = []"
    "unat (t_vruntime (k_task k y)) \<le> b" "unat (t_vruntime (k_task k x)) \<le> b" "t_weight (k_task k x) \<le> 1048576"
    using d(1-3) unfolding busy_def by auto
  have nm: "t_vruntime (k_task k y) \<noteq> - 1" using a(7) assms(2) by (auto simp: unsigned_minus_1_eq_mask mask_eq_exp_minus_1)
  obtain k' n where k': "sched_tick k = Some k'" "tick_result c x n k k'"
    by (rule busy_tick [OF a(1-3) d(2) a(4-6) _ nm]) (use d(3) in auto)
  obtain k2 where "sched_tick k = Some k2" and b2: "busy N L c (b + 1048576) k2"
    by (rule busy_step [OF d(1,2), of y "b + 1048576"]) (use d(3) a(8) assms(2) in auto)
  then have b': "busy N L c (b + 1048576) k'" using k'(1) by simp
  have "\<not> slice_over False (charge_task False (k_task k x))"
    by (rule fresh_slice_not_over [OF d(4,6) a(9)]) (use a(8) assms(2) in auto)
  then have nx: "n \<noteq> x" using k'(2) by (auto simp: tick_result_def Let_def)
  have set': "insert n (set (cs_rq (k_sched k' c))) = {x, y}" "length (cs_rq (k_sched k' c)) = 1"
    using k'(2) d(3) by (auto simp: tick_result_def Let_def)
  then have n: "n = y" using nx by auto
  obtain z where z: "cs_rq (k_sched k' c) = [z]" using set'(2) by (metis One_nat_def length_0_conv length_Suc_conv)
  then have "z = x" using set'(1) n yx by (auto simp: doubleton_eq_iff)
  moreover have "fresh_slice m (k_task k' y)" using k'(2) d(5) yx by (auto simp: tick_result_def Let_def same_share_def fresh_slice_def)
  moreover have "charged V (k_task k' x) (k_task k x) \<Longrightarrow> fresh_slice m (k_task k' x)" for V
    using d(4) by (auto simp: charged_def same_share_def enqueued_task_def fresh_slice_def Let_def)
  ultimately show ?thesis using k' b' z n by (auto simp: duel_def tick_result_def Let_def)
qed

text \<open>C21: priorities do not matter between two tasks.  A tick dequeues some task whenever the queue
  is not empty and puts the running one back, so two runnable tasks whose slice is at
  least two ticks alternate at every tick for as long as the virtual times do not wrap,
  whatever their weights, slices and virtual times: neither the slice nor the weight,
  which should give one of them more of the CPU, is honoured.\<close>

theorem sched_two_tasks_alternate:
  assumes "duel N L c b m x y k" "b + (n + m + 1) * 1048576 < 2 ^ 64 - 1"
  shows "\<exists>k'. sched_ticks n k = Some k' \<and> cs_current (k_sched k' c) = Some (if even n then x else y)"
  using assms
proof (induction n arbitrary: b x y k)
  case 0 then show ?case by (simp add: duel_def)
next
  case (Suc n)
  obtain k1 where "sched_tick k = Some k1" "duel N L c (b + 1048576) m y x k1"
    using duel_step [OF Suc.prems(1)] Suc.prems(2) by auto
  with Suc.IH [of "b + 1048576" y x k1] Suc.prems(2) show ?case by auto
qed

section \<open>Sleeping\<close>

lemma sched_tick_form:
  assumes "sched_ok N L k" "k_self k = Some c" "c \<in> N" "cs_current (k_sched k c) = Some p"
  obtains n k1 where "sched_tick k = Some (upd_sched c (\<lambda>cs. cs\<lparr>cs_current := Some n\<rparr>)
      (upd_task n (\<lambda>x. x\<lparr>t_ticks_used := 0, t_state := TASK_RUNNING\<rparr>) (tick_requeue c (Some p) (Some n) k1)))"
    "k_task k1 = k_task (tick_prepare c k)" "cs_sleep (k_sched k1 c) = cs_sleep (k_sched (tick_prepare c k) c)"
proof -
  let ?k = "tick_prepare c k"
  have inv: "sched_inv N L {} ?k" by (rule tick_prepare_inv [OF assms(1,3)])
  obtain i where i: "cs_idle (k_sched ?k c) = Some i" by (rule cpu_ok_current [OF inv_cpu [OF inv assms(3)]])
  from inv assms(3) show thesis
  proof (cases rule: pick_next_inv)
    case (none k1)
    show thesis by (rule that [of i k1])
      (use none i assms(4) in \<open>simp_all add: sched_tick_def assms(2) tick_prepare_def [symmetric] tick_switch_def Let_def\<close>)
  next
    case (some V t)
    show thesis by (rule that [of t "after_dequeue c V t ?k"])
      (use some assms(4) in \<open>simp_all add: sched_tick_def assms(2) tick_prepare_def [symmetric] tick_switch_def Let_def\<close>)
  qed
qed

lemma rq_enqueue_other:
  "cs_sleep (k_sched (rq_enqueue c t k) d) = cs_sleep (k_sched k d)"
  "t_state (k_task (rq_enqueue c t k) u) = t_state (k_task k u)"
  "t_sleep_deadline (k_task (rq_enqueue c t k) u) = t_sleep_deadline (k_task k u)"
  by (simp_all add: rq_enqueue_def upd_sched_apply upd_task_apply enqueued_task_def Let_def)

lemma wake_sleepers_result:
  assumes "wake_sleepers now c ss k = (k', r)" "distinct ss"
  shows "r = filter (\<lambda>t. now < t_sleep_deadline (k_task k t)) ss \<and>
    (\<forall>t. t \<notin> set ss \<or> now < t_sleep_deadline (k_task k t) \<longrightarrow>
       t_state (k_task k' t) = t_state (k_task k t) \<and> t_sleep_deadline (k_task k' t) = t_sleep_deadline (k_task k t)) \<and>
    (\<forall>t \<in> set ss. \<not> now < t_sleep_deadline (k_task k t) \<longrightarrow> t_state (k_task k' t) = TASK_RUNNABLE)"
  using assms
proof (induction ss arbitrary: k r)
  case (Cons st ss)
  show ?case
  proof (cases "now \<ge> t_sleep_deadline (k_task k st)")
    case True
    define k1 where "k1 = rq_enqueue c st (upd_task st (\<lambda>x. x\<lparr>t_sleep_deadline := 0, t_state := TASK_RUNNABLE\<rparr>) k)"
    have w: "wake_sleepers now c ss k1 = (k', r)" using Cons.prems(1) True by (simp add: k1_def)
    have o: "t \<noteq> st \<Longrightarrow> t_state (k_task k1 t) = t_state (k_task k t)"
      "t \<noteq> st \<Longrightarrow> t_sleep_deadline (k_task k1 t) = t_sleep_deadline (k_task k t)"
      "t_state (k_task k1 st) = TASK_RUNNABLE" for t by (simp_all add: k1_def rq_enqueue_other upd_task_apply)
    have st: "st \<notin> set ss" and ds: "distinct ss" using Cons.prems(2) by simp_all
    have "filter (\<lambda>t. now < t_sleep_deadline (k_task k1 t)) ss = filter (\<lambda>t. now < t_sleep_deadline (k_task k t)) ss"
      by (intro filter_cong refl) (metis o(2) st)
    moreover have "t_state (k_task k' t) = t_state (k_task k t) \<and> t_sleep_deadline (k_task k' t) = t_sleep_deadline (k_task k t)"
      if t: "t \<notin> set (st # ss) \<or> now < t_sleep_deadline (k_task k t)" for t
    proof -
      have "t \<noteq> st" using t True by auto
      then show ?thesis using Cons.IH [OF w ds] o(1,2) [of t] t by auto
    qed
    moreover have "t_state (k_task k' t) = TASK_RUNNABLE" if t: "t \<in> set (st # ss)" "\<not> now < t_sleep_deadline (k_task k t)" for t
      using Cons.IH [OF w ds] o t st by (cases "t = st") auto
    ultimately show ?thesis using Cons.IH [OF w ds] True by (auto simp: not_less)
  next
    case False
    obtain r1 where "wake_sleepers now c ss k = (k', r1)" "r = st # r1" using Cons.prems(1) False by (auto split: prod.splits)
    then show ?thesis using Cons.IH [of k r1] Cons.prems(2) False by (auto simp: not_le)
  qed
qed auto

lemma tick_sleeper:
  assumes "sched_ok N L k" "k_self k = Some c" "c \<in> N" "t \<in> set (cs_sleep (k_sched k c))"
  shows "\<exists>k'. sched_tick k = Some k' \<and> sched_ok N L k' \<and> k_self k' = Some c \<and>
    (if k_jiffies k < t_sleep_deadline (k_task k t)
     then t \<in> set (cs_sleep (k_sched k' c)) \<and> t_state (k_task k' t) = TASK_SLEEPING \<and> t_sleep_deadline (k_task k' t) = t_sleep_deadline (k_task k t)
     else t \<notin> set (cs_sleep (k_sched k' c)) \<and> t_state (k_task k' t) \<in> {TASK_RUNNABLE, TASK_RUNNING})"
proof -
  let ?k1 = "tick_expire c (tick_charge c k)" and ?k0 = "tick_prepare c k"
  note lists = cpu_ok_lists [OF inv_cpu [OF assms(1,3)]]
  have t: "t_state (k_task k t) = TASK_SLEEPING" using lists(5) assms(4) by blast
  have k1: "cs_sleep (k_sched ?k1 c) = cs_sleep (k_sched k c)" "k_jiffies ?k1 = k_jiffies k"
    "t_state (k_task ?k1 t) = TASK_SLEEPING" "t_sleep_deadline (k_task ?k1 t) = t_sleep_deadline (k_task k t)"
    using t by (auto simp: tick_expire_def tick_charge_def rq_enqueue_other upd_task_apply charge_task_def Let_def split: option.split)
  obtain k2 r where w: "wake_sleepers (k_jiffies k) c (cs_sleep (k_sched k c)) ?k1 = (k2, r)" by fastforce
  have k0: "?k0 = upd_sched c (\<lambda>cs. cs\<lparr>cs_sleep := r\<rparr>) k2" by (simp add: tick_prepare_def tick_wake_def k1 w)
  note wk = wake_sleepers_result [OF w lists(2)]
  obtain p where p: "cs_current (k_sched k c) = Some p" by (rule cpu_ok_current [OF inv_cpu [OF assms(1,3)]])
  obtain n k3 where tk: "sched_tick k = Some (upd_sched c (\<lambda>cs. cs\<lparr>cs_current := Some n\<rparr>)
      (upd_task n (\<lambda>x. x\<lparr>t_ticks_used := 0, t_state := TASK_RUNNING\<rparr>) (tick_requeue c (Some p) (Some n) k3)))"
    "k_task k3 = k_task ?k0" "cs_sleep (k_sched k3 c) = cs_sleep (k_sched ?k0 c)"
    by (rule sched_tick_form [OF assms(1-3) p])
  obtain k' where k': "sched_tick k = Some k'" "sched_ok N L k'" "k_self k' = Some c" using sched_tick_inv [OF assms(1-3)] by metis
  have sl: "cs_sleep (k_sched k' c) = r" using k'(1) tk k0 by (auto simp: tick_requeue_def rq_enqueue_other)
  have st: "t_state (k_task k' t) \<in> {t_state (k_task k2 t), TASK_RUNNABLE, TASK_RUNNING}"
    "t_sleep_deadline (k_task k' t) = t_sleep_deadline (k_task k2 t)"
    using k'(1) tk k0 by (auto simp: tick_requeue_def rq_enqueue_other upd_task_apply)
  show ?thesis
  proof (cases "k_jiffies k < t_sleep_deadline (k_task k t)")
    case True
    then have "t \<in> set r" "t_sleep_deadline (k_task k2 t) = t_sleep_deadline (k_task k t)" using wk assms(4) k1 by auto
    then show ?thesis using cpu_ok_lists(5) [OF inv_cpu [OF k'(2) assms(3)], of t] sl st(2) k' True by auto
  next
    case False
    then have "t \<notin> set r" "t_state (k_task k2 t) = TASK_RUNNABLE" using wk assms(4) k1 by auto
    then show ?thesis using sl st(1) k' False by auto
  qed
qed

text \<open>C22: a sleep lasts as long as asked.  \<^verbatim>\<open>sched_sleep(ms)\<close> by the running task returns control
  with the task asleep, and every later tick that finds it asleep leaves it so exactly
  while fewer than \<open>ms\<close> clock ticks have passed since the call.\<close>

theorem sched_sleep_duration:
  assumes "sched_ok N L k" "k_self k = Some c" "c \<in> N" "running k p" "p \<in> L" "ms \<noteq> 0" "unat (k_jiffies k) + unat ms < 2 ^ 64"
  shows "\<exists>k1. sched_sleep ms k = Some k1 \<and> t_state (k_task k1 p) = TASK_SLEEPING \<and>
    t_sleep_deadline (k_task k1 p) = k_jiffies k + ucast ms \<and>
    (\<forall>k2. sched_ok N L k2 \<and> k_self k2 = Some c \<and> p \<in> set (cs_sleep (k_sched k2 c)) \<and>
        t_sleep_deadline (k_task k2 p) = k_jiffies k + ucast ms \<longrightarrow>
       (\<exists>k3. sched_tick k2 = Some k3 \<and> (t_state (k_task k3 p) = TASK_SLEEPING \<longleftrightarrow> unat (k_jiffies k2) < unat (k_jiffies k) + unat ms)))"
proof -
  have cur: "self_current k = Some (c, p)" "t_state (k_task k p) = TASK_RUNNING" "cs_current (k_sched k c) = Some p"
    using assms(2,4) by (auto simp: self_current_def running_def sched_current_def)
  have cpu: "t_cpu_id (k_task k p) = c"
    using cpu_ok_current [OF inv_cpu [OF assms(1,3)]] cur(3) assms(5) by (metis option.inject)
  let ?d = "k_jiffies k + ucast ms"
  have d: "unat ?d = unat (k_jiffies k) + unat ms"
    using assms(7) unat_lt32 [of ms] by (simp add: unat_word_ariths unsigned_ucast_eq take_bit_eq_mod)
  have lt: "x < ?d \<longleftrightarrow> unat x < unat (k_jiffies k) + unat ms" for x by (simp only: word_less_nat_alt d)
  define ks where "ks = count_nvcsw c p (upd_sched c (\<lambda>cs. cs\<lparr>cs_sleep := p # cs_sleep cs\<rparr>)
    (upd_task p (\<lambda>x. x\<lparr>t_sleep_deadline := ?d, t_state := TASK_SLEEPING\<rparr>) k))"
  have ks: "sched_ok N L ks" unfolding ks_def by (intro count_nvcsw_inv inv_sleep [OF assms(1,3,5) cpu cur(2)]) simp_all
  have f: "k_self ks = Some c" "p \<in> set (cs_sleep (k_sched ks c))" "k_jiffies ks = k_jiffies k" "t_sleep_deadline (k_task ks p) = ?d"
    using assms(2) by (simp_all add: ks_def count_nvcsw_def upd_task_apply)
  have "k_jiffies ks < t_sleep_deadline (k_task ks p)" using f lt assms(6) by (simp add: unat_gt_0)
  with tick_sleeper [OF ks f(1) assms(3) f(2)] obtain k1 where k1: "sched_tick ks = Some k1" "t_state (k_task k1 p) = TASK_SLEEPING"
    "t_sleep_deadline (k_task k1 p) = ?d" using f(4) by auto
  have "sched_sleep ms k = Some k1" using k1(1) assms(6) cur by (simp add: sched_sleep_def ks_def Let_def)
  moreover have "\<exists>k3. sched_tick k2 = Some k3 \<and> (t_state (k_task k3 p) = TASK_SLEEPING \<longleftrightarrow> unat (k_jiffies k2) < unat (k_jiffies k) + unat ms)"
    if "sched_ok N L k2" "k_self k2 = Some c" "p \<in> set (cs_sleep (k_sched k2 c))" "t_sleep_deadline (k_task k2 p) = ?d" for k2
    using tick_sleeper [OF that(1,2) assms(3) that(3)] that(4) by (auto simp: lt split: if_splits)
  ultimately show ?thesis using k1 by blast
qed


section \<open>Examples\<close>

definition worker :: "u32 \<Rightarrow> task_state \<Rightarrow> task" where
  "worker w st = task_zero\<lparr>t_state := st, t_weight := w, t_slice_ticks := 10, t_vruntime_initialized := True,
     t_deadline := virtual_deadline 0 10 w\<rparr>"

definition sched_example :: "u32 \<Rightarrow> u32 \<Rightarrow> kernel" where
  "sched_example w1 w2 = kernel_zero\<lparr>k_self := Some 0,
     k_task := (\<lambda>_. task_zero)(1 := worker w1 TASK_RUNNING, 2 := worker w2 TASK_RUNNABLE),
     k_sched := (\<lambda>_. cpu_sched_zero)(0 := cpu_sched_zero\<lparr>cs_current := Some 1, cs_rq := [2], cs_queue_len := 1, cs_idle := Some 0\<rparr>)\<rparr>"

lemma sched_example_ok: "sched_ok {0} {1, 2} (sched_example w1 w2)"
  by (simp add: sched_inv_def cpu_ok_def placed_def sched_example_def worker_def cpu_sched_zero_def task_zero_def Let_def)

lemma sched_example_busy: "w1 \<le> 1048576 \<Longrightarrow> w2 \<le> 1048576 \<Longrightarrow> busy {0} {1, 2} 0 0 (sched_example w1 w2)"
  using sched_example_ok [of w1 w2]
  by (simp add: busy_def) (simp add: sched_example_def worker_def cpu_sched_zero_def task_zero_def)

theorem sched_no_starvation_witness:
  "\<exists>n k'. sched_ticks n (sched_example 16384 128) = Some k' \<and> cs_current (k_sched k' 0) = Some 2"
  by (rule sched_no_starvation [OF sched_example_busy]) (simp_all add: sched_example_def)

theorem sched_two_tasks_alternate_witness:
  "\<exists>k'. sched_ticks 1001 (sched_example 16384 128) = Some k' \<and> cs_current (k_sched k' 0) = Some 2"
proof -
  have "duel {0} {1, 2} 0 0 10 1 2 (sched_example 16384 128)" unfolding duel_def
    using sched_example_busy [of 16384 128] by (simp add: sched_example_def worker_def fresh_slice_def task_zero_def)
  from sched_two_tasks_alternate [OF this, of 1001] show ?thesis by simp
qed


theorem sched_no_task_lost_witness:
  "\<exists>k'. (sched_step {0})\<^sup>*\<^sup>* ({1, 2}, sched_example 1024 1024) ({1, 2}, k') \<and> sched_ok {0} {1, 2} k' \<and> (\<exists>k''. sched_tick k' = Some k'')"
proof -
  let ?k = "sched_example 1024 1024" and ?k1 = "upd_task 1 (\<lambda>x. x\<lparr>t_state := TASK_BLOCKED\<rparr>) (sched_example 1024 1024)"
  have "running ?k 1" by (simp add: running_def sched_current_def sched_example_def worker_def)
  then have "sched_step {0} ({1, 2}, ?k) ({1, 2}, ?k1)" by (rule sched_step.Mark) simp
  moreover have "sched_step {0} ({1, 2}, ?k1) ({1, 2}, sched_unblock 1 ?k1)" by (rule sched_step.Unblock) simp
  ultimately have st: "(sched_step {0})\<^sup>*\<^sup>* ({1, 2}, ?k) ({1, 2}, sched_unblock 1 ?k1)" by simp
  have "k_self ?k \<in> Some ` {0}" by (simp add: sched_example_def)
  from sched_no_task_lost [OF st sched_example_ok this] st show ?thesis by blast
qed

theorem sched_sleep_duration_witness:
  "\<exists>k1. sched_sleep 5 (sched_example 1024 1024) = Some k1 \<and> t_state (k_task k1 1) = TASK_SLEEPING \<and> t_sleep_deadline (k_task k1 1) = 5"
proof -
  let ?k = "sched_example 1024 1024"
  have "running ?k 1" "k_self ?k = Some 0" "k_jiffies ?k = 0"
    by (simp_all add: running_def sched_current_def sched_example_def worker_def kernel_zero_def)
  from sched_sleep_duration [OF sched_example_ok this(2) _ this(1), of 5] this(3) show ?thesis by auto
qed

end
