(* ===== verification/Signal.thy ===== *)
theory Signal
  imports Task_Tree
begin

unbundle bit_operations_syntax

text \<open>
  Signal delivery (\<^verbatim>\<open>ipc/signal.c\<close>).  Physical memory is a function from addresses to
  bytes and the page table of the task a function \<open>pte\<close> that gives the entry found for
  a virtual address, as \<^verbatim>\<open>vmm_get_pte\<close> does; the kernel's window onto physical memory
  is the identity.  A handler of a kernel task is called through the argument \<open>call\<close>.
\<close>

section \<open>Memory and registers\<close>

type_synonym pmem = "u64 \<Rightarrow> u8"

definition mem_write :: "u64 \<Rightarrow> u8 list \<Rightarrow> pmem \<Rightarrow> pmem" where
  "mem_write a bs m = (\<lambda>x. let i = unat (x - a) in if i < length bs then bs ! i else m x)"

definition mem_read :: "u64 \<Rightarrow> nat \<Rightarrow> pmem \<Rightarrow> u8 list" where
  "mem_read a n m = map (\<lambda>i. m (a + of_nat i)) [0..<n]"

definition le64 :: "u64 \<Rightarrow> u8 list" where
  "le64 w = map (\<lambda>i. ucast (drop_bit (8 * i) w)) [0..<8]"

definition le64_value :: "u8 list \<Rightarrow> u64" where
  "le64_value bs = fold (\<lambda>i w. w OR push_bit (8 * i) (ucast (bs ! i))) [0..<8] 0"

abbreviation PTE_ADDR_MASK :: u64 where "PTE_ADDR_MASK \<equiv> 0x000FFFFFFFFFF000"

definition page_offset :: "u64 \<Rightarrow> u64" where "page_offset a = a AND 0xFFF"

definition translate :: "(u64 \<Rightarrow> u64 option) \<Rightarrow> u64 \<Rightarrow> u64 option" where
  "translate pte va = map_option (\<lambda>e. (e AND PTE_ADDR_MASK) + page_offset va) (pte va)"

record cpu_regs =
  r_rax :: u64
  r_rbx :: u64
  r_rcx :: u64
  r_rdx :: u64
  r_rsi :: u64
  r_rdi :: u64
  r_rbp :: u64
  r_rsp :: u64
  r_r8 :: u64
  r_r9 :: u64
  r_r10 :: u64
  r_r11 :: u64
  r_r12 :: u64
  r_r13 :: u64
  r_r14 :: u64
  r_r15 :: u64
  r_rip :: u64
  r_rflags :: u64

text \<open>The fields of \<^verbatim>\<open>sigframe_t\<close> in their order.\<close>

definition sigframe :: "cpu_regs \<Rightarrow> u64 \<Rightarrow> nat \<Rightarrow> u64 list" where
  "sigframe r mk sig =
     [r_rax r, r_rbx r, r_rcx r, r_rdx r, r_rsi r, r_rdi r, r_rbp r, r_rsp r,
      r_r8 r, r_r9 r, r_r10 r, r_r11 r, r_r12 r, r_r13 r, r_r14 r, r_r15 r,
      r_rip r, r_rflags r, mk, of_nat sig]"

abbreviation SIGFRAME_SIZE :: nat where "SIGFRAME_SIZE \<equiv> 160"

definition frame_field :: "u64 \<Rightarrow> pmem \<Rightarrow> nat \<Rightarrow> u64" where
  "frame_field a m i = le64_value (mem_read (a + of_nat (8 * i)) 8 m)"

section \<open>Handlers and masks\<close>

abbreviation SA_ONSTACK :: u64 where "SA_ONSTACK \<equiv> 0x08000000"
abbreviation SA_RESTORER :: u64 where "SA_RESTORER \<equiv> 0x04000000"
abbreviation SA_NODEFER :: u64 where "SA_NODEFER \<equiv> 0x40000000"
abbreviation SA_RESETHAND :: u64 where "SA_RESETHAND \<equiv> 0x80000000"
abbreviation SS_DISABLE :: u32 where "SS_DISABLE \<equiv> 2"

definition signal_set :: "tptr \<Rightarrow> int \<Rightarrow> u64 \<Rightarrow> kernel \<Rightarrow> kernel" where
  "signal_set t sig h k =
     (if sig \<le> 0 \<or> sig \<ge> int NSIGS \<or> sig = int SIGKILL then k
      else case t_sig_handlers (k_task k t) of
             None \<Rightarrow> k
           | Some tbl \<Rightarrow> upd_task t (\<lambda>x. x\<lparr>t_sig_handlers := Some (tbl[nat sig := h])\<rparr>) k)"

definition signal_get :: "tptr \<Rightarrow> int \<Rightarrow> kernel \<Rightarrow> u64" where
  "signal_get t sig k =
     (case t_sig_handlers (k_task k t) of
        None \<Rightarrow> 0
      | Some tbl \<Rightarrow> if sig \<le> 0 \<or> sig \<ge> int NSIGS then 0 else tbl ! nat sig)"

definition sig_default_is_fatal :: "nat \<Rightarrow> bool" where
  "sig_default_is_fatal sig \<longleftrightarrow>
     sig \<in> {SIGHUP, SIGINT, SIGQUIT, SIGILL, SIGABRT, SIGFPE, SIGKILL, SIGSEGV, SIGPIPE, SIGALRM, SIGTERM,
             SIGUSR1, SIGUSR2, SIGBUS, SIGXCPU, SIGXFSZ}"

definition sigaction_zero :: kernel_sigaction where
  "sigaction_zero = \<lparr>sa_handler = 0, sa_flags = 0, sa_restorer = 0, sa_mask = 0\<rparr>"

definition sys_rt_sigaction ::
    "bool \<Rightarrow> int \<Rightarrow> kernel_sigaction option \<Rightarrow> kernel \<Rightarrow> kernel \<times> int \<times> kernel_sigaction option" where
  "sys_rt_sigaction mem_ok sig act k =
     (if sig \<le> 0 \<or> sig \<ge> int NSIGS then (k, - EINVAL, None)
      else if sig = int SIGKILL \<or> sig = int SIGSTOP then (k, - EINVAL, None)
      else case sched_current k of
        None \<Rightarrow> (k, - ESRCH, None)
      | Some cur \<Rightarrow>
          (case (case t_sigactions (k_task k cur) of
                   Some tbl \<Rightarrow> Some tbl
                 | None \<Rightarrow> if mem_ok then Some (replicate NSIGS sigaction_zero) else None) of
             None \<Rightarrow> (k, - ENOMEM, None)
           | Some tbl \<Rightarrow>
               let old = tbl ! nat sig;
                   k = upd_task cur (\<lambda>x. x\<lparr>t_sigactions := Some tbl\<rparr>) k
               in case act of
                    None \<Rightarrow> (k, 0, Some old)
                  | Some a \<Rightarrow>
                      (upd_task cur (\<lambda>x. x\<lparr>t_sigactions := Some (tbl[nat sig := a]),
                          t_sig_handlers := map_option (\<lambda>hs. hs[nat sig := sa_handler a]) (t_sig_handlers x)\<rparr>) k,
                       0, Some old)))"

definition sys_rt_sigprocmask :: "int \<Rightarrow> u64 option \<Rightarrow> kernel \<Rightarrow> kernel \<times> int \<times> u64" where
  "sys_rt_sigprocmask how st k =
     (case sched_current k of
        None \<Rightarrow> (k, - ESRCH, 0)
      | Some cur \<Rightarrow>
          let old = t_sig_mask (k_task k cur) in
          case st of
            None \<Rightarrow> (k, 0, old)
          | Some s \<Rightarrow>
              let s = s AND NOT (sig_bit SIGKILL OR sig_bit SIGSTOP);
                  put = (\<lambda>m. (upd_task cur (\<lambda>x. x\<lparr>t_sig_mask := m\<rparr>) k, 0, old))
              in if how = 0 then put (old OR s)
                 else if how = 1 then put (old AND NOT s)
                 else if how = 2 then put s
                 else (k, - EINVAL, old))"

section \<open>Delivery\<close>

definition signal_dead :: "tptr \<Rightarrow> nat \<Rightarrow> kernel \<Rightarrow> kernel" where
  "signal_dead t sig k = upd_task t (\<lambda>x. x\<lparr>t_exit_status := int sig, t_state := TASK_DEAD\<rparr>) k"

definition signal_kill :: "tptr \<Rightarrow> nat \<Rightarrow> kernel \<Rightarrow> kernel" where
  "signal_kill t sig k =
     (let k = upd_task t (\<lambda>x. x\<lparr>t_exit_status := int sig\<rparr>) k
      in case t_parent (k_task k t) of
           Some p \<Rightarrow> sched_unblock p (signal_send p SIGCHLD (upd_task t (\<lambda>x. x\<lparr>t_state := TASK_ZOMBIE\<rparr>) k))
         | None \<Rightarrow> upd_task t (\<lambda>x. x\<lparr>t_state := TASK_DEAD\<rparr>) k)"

fun dispatch_from :: "(u64 \<Rightarrow> nat \<Rightarrow> kernel \<Rightarrow> kernel) \<Rightarrow> tptr \<Rightarrow> u64 \<Rightarrow> nat list \<Rightarrow> kernel \<Rightarrow> kernel" where
  "dispatch_from call t pending [] k = k"
| "dispatch_from call t pending (sig # sigs) k =
     (if pending AND sig_bit sig = 0 then dispatch_from call t pending sigs k
      else if sig = SIGKILL then upd_task t (\<lambda>x. x\<lparr>t_state := TASK_DEAD\<rparr>) k
      else case t_sig_handlers (k_task k t) of
             None \<Rightarrow> dispatch_from call t pending sigs k
           | Some hs \<Rightarrow>
               if hs ! sig = 0
               then if sig_default_is_fatal sig then signal_dead t sig k else dispatch_from call t pending sigs k
               else if hs ! sig = 1 then dispatch_from call t pending sigs k
               else dispatch_from call t pending sigs (call (hs ! sig) sig k))"

definition signal_dispatch :: "(u64 \<Rightarrow> nat \<Rightarrow> kernel \<Rightarrow> kernel) \<Rightarrow> tptr \<Rightarrow> kernel \<Rightarrow> kernel" where
  "signal_dispatch call t k =
     dispatch_from call t (t_sig_pending (k_task k t)) [1..<NSIGS] (upd_task t (\<lambda>x. x\<lparr>t_sig_pending := 0\<rparr>) k)"

text \<open>What is done with one pending signal of a user task.\<close>

datatype sig_act =
  ActIgnore | ActKill | ActDead | ActHandle (ha_handler: u64) (ha_restorer: u64) (ha_mask: u64) (ha_flags: u64) (ha_table: bool)

definition legacy_action :: "task \<Rightarrow> nat \<Rightarrow> sig_act" where
  "legacy_action x sig =
     (case t_sig_handlers x of
        Some hs \<Rightarrow>
          if hs ! sig = 0 then (if sig_default_is_fatal sig then ActKill else ActIgnore)
          else if hs ! sig = 1 then ActIgnore
          else ActHandle (hs ! sig) 0 0 0 False
      | None \<Rightarrow> if sig_default_is_fatal sig then ActDead else ActIgnore)"

definition sig_action :: "task \<Rightarrow> nat \<Rightarrow> sig_act" where
  "sig_action x sig =
     (if sig = SIGKILL then ActKill
      else
        case t_sigactions x of
          Some tbl \<Rightarrow>
            if sa_handler (tbl ! sig) \<noteq> 0
            then let a = tbl ! sig
                 in if sa_handler a \<le> 1 then ActIgnore
                    else ActHandle (sa_handler a) (sa_restorer a) (sa_mask a) (sa_flags a) True
            else legacy_action x sig
        | None \<Rightarrow> legacy_action x sig)"

definition frame_sp :: "task \<Rightarrow> u64 \<Rightarrow> u64 \<Rightarrow> u64" where
  "frame_sp x flags rsp =
     (let sp = (if flags AND SA_ONSTACK \<noteq> 0 \<and> t_altstack_sp x \<noteq> 0 \<and> t_altstack_flags x AND SS_DISABLE = 0
                then t_altstack_sp x + t_altstack_size x else rsp)
      in (sp - of_nat SIGFRAME_SIZE) AND NOT 0xF)"

definition handler_mask :: "sig_act \<Rightarrow> nat \<Rightarrow> u64 \<Rightarrow> u64" where
  "handler_mask a sig mk =
     (if ha_flags a AND SA_NODEFER = 0 then mk OR sig_bit sig else mk) OR ha_mask a"

text \<open>The frame is written through the page of its first byte; \<open>None\<close>: the stack is not mapped.\<close>

definition push_frame ::
    "(u64 \<Rightarrow> u64 option) \<Rightarrow> tptr \<Rightarrow> nat \<Rightarrow> sig_act \<Rightarrow> cpu_regs \<Rightarrow> pmem \<Rightarrow> kernel \<Rightarrow> (kernel \<times> cpu_regs \<times> pmem) option" where
  "push_frame pte t sig a r m k =
     (let x = k_task k t; sp = frame_sp x (ha_flags a) (r_rsp r) in
      case translate pte sp of
        None \<Rightarrow> None
      | Some pa \<Rightarrow>
          if pte (sp + of_nat SIGFRAME_SIZE - 1) = None then None
          else
            let m = mem_write pa (concat (map le64 (sigframe r (t_sig_mask x) sig))) m;
                k = upd_task t (\<lambda>x. x\<lparr>t_sig_mask := handler_mask a sig (t_sig_mask x)\<rparr>) k;
                r = r\<lparr>r_rdi := of_nat sig, r_rip := ha_handler a, r_rsp := sp\<rparr>;
                (r, m) = (if ha_flags a AND SA_RESTORER \<noteq> 0 \<and> ha_restorer a \<noteq> 0
                          then (r\<lparr>r_rsp := sp - 8\<rparr>,
                                case translate pte (sp - 8) of
                                  None \<Rightarrow> m
                                | Some ra \<Rightarrow> mem_write ra (le64 (ha_restorer a)) m)
                          else (r, m));
                k = (if ha_flags a AND SA_RESETHAND \<noteq> 0 \<and> ha_table a
                     then upd_task t (\<lambda>x. x\<lparr>t_sigactions := map_option (\<lambda>tbl. tbl[sig := (tbl ! sig)\<lparr>sa_handler := 0\<rparr>]) (t_sigactions x)\<rparr>) k
                     else k)
            in Some (k, r, m))"

definition clear_pending :: "tptr \<Rightarrow> nat \<Rightarrow> kernel \<Rightarrow> kernel" where
  "clear_pending t sig k = upd_task t (\<lambda>x. x\<lparr>t_sig_pending := t_sig_pending x AND NOT (sig_bit sig)\<rparr>) k"

fun deliver_from ::
    "(u64 \<Rightarrow> u64 option) \<Rightarrow> tptr \<Rightarrow> u64 \<Rightarrow> nat list \<Rightarrow> cpu_regs \<Rightarrow> pmem \<Rightarrow> kernel \<Rightarrow> kernel \<times> cpu_regs \<times> pmem \<times> bool" where
  "deliver_from pte t deliverable [] r m k = (k, r, m, False)"
| "deliver_from pte t deliverable (sig # sigs) r m k =
     (if deliverable AND sig_bit sig = 0 then deliver_from pte t deliverable sigs r m k
      else
        let k = clear_pending t sig k in
        case sig_action (k_task k t) sig of
          ActKill \<Rightarrow> (signal_kill t sig k, r, m, True)
        | ActDead \<Rightarrow> (signal_dead t sig k, r, m, True)
        | ActIgnore \<Rightarrow> deliver_from pte t deliverable sigs r m k
        | ActHandle h re mk fl tb \<Rightarrow> (case push_frame pte t sig (ActHandle h re mk fl tb) r m k of
                  None \<Rightarrow> (k, r, m, False)
                | Some (k, r, m) \<Rightarrow> (k, r, m, True)))"

definition signal_deliver_user ::
    "(u64 \<Rightarrow> u64 option) \<Rightarrow> tptr \<Rightarrow> cpu_regs \<Rightarrow> pmem \<Rightarrow> kernel \<Rightarrow> kernel \<times> cpu_regs \<times> pmem \<times> bool" where
  "signal_deliver_user pte t r m k =
     (if \<not> t_is_user (k_task k t) then (k, r, m, False)
      else deliver_from pte t (t_sig_pending (k_task k t) AND NOT (t_sig_mask (k_task k t))) [1..<NSIGS] r m k)"

definition sys_rt_sigreturn :: "(u64 \<Rightarrow> u64 option) \<Rightarrow> cpu_regs \<Rightarrow> pmem \<Rightarrow> kernel \<Rightarrow> kernel \<times> cpu_regs \<times> int" where
  "sys_rt_sigreturn pte r m k =
     (case sched_current k of
        None \<Rightarrow> (k, r, - EFAULT)
      | Some cur \<Rightarrow>
          (case translate pte (r_rsp r) of
             None \<Rightarrow> (k, r, - EFAULT)
           | Some pa \<Rightarrow>
               let f = frame_field pa m;
                   r = \<lparr>r_rax = f 0, r_rbx = f 1, r_rcx = f 2, r_rdx = f 3, r_rsi = f 4, r_rdi = f 5, r_rbp = f 6, r_rsp = f 7,
                        r_r8 = f 8, r_r9 = f 9, r_r10 = f 10, r_r11 = f 11, r_r12 = f 12, r_r13 = f 13, r_r14 = f 14, r_r15 = f 15,
                        r_rip = f 16, r_rflags = f 17\<rparr>
               in (upd_task cur (\<lambda>x. x\<lparr>t_sig_mask := f 18\<rparr>) k, r, sint (f 0))))"

section \<open>Bytes and words in memory\<close>

lemma le64_fold: "fold (\<lambda>i v. v OR push_bit (8 * i) (ucast (ucast (drop_bit (8 * i) w) :: u8))) [0..<k] 0 = take_bit (8 * k) (w :: u64)"
proof (induction k)
  case (Suc k)
  have "take_bit (8 * k) w OR push_bit (8 * k) (ucast (ucast (drop_bit (8 * k) w) :: u8)) = take_bit (8 * Suc k) w"
    by (rule bit_eqI) (auto simp: bit_simps)
  then show ?case by (simp only: upt_Suc le0 if_True fold_append comp_apply fold.simps Suc.IH id_apply)
qed simp

lemma le64_roundtrip: "le64_value (le64 w) = w"
proof -
  have "le64_value (le64 w) = fold (\<lambda>i v. v OR push_bit (8 * i) (ucast (ucast (drop_bit (8 * i) w) :: u8))) [0..<8] 0"
    unfolding le64_value_def le64_def by (rule fold_cong) simp_all
  also have "\<dots> = take_bit 64 w" using le64_fold [of w 8] by simp
  finally show ?thesis by (simp add: take_bit_word_eq_self)
qed

lemma length_le64 [simp]: "length (le64 w) = 8"
  by (simp add: le64_def)

lemma read_written:
  assumes "j + n \<le> length bs" "length bs < 2 ^ 64"
  shows "mem_read (a + of_nat j) n (mem_write a bs m) = take n (drop j bs)"
proof (rule nth_equalityI)
  show "length (mem_read (a + of_nat j) n (mem_write a bs m)) = length (take n (drop j bs))" using assms(1) by (simp add: mem_read_def)
  fix i assume "i < length (mem_read (a + of_nat j) n (mem_write a bs m))"
  then have i: "i < n" by (simp add: mem_read_def)
  have "unat (a + of_nat j + of_nat i - a) = j + i"
  proof -
    have "a + of_nat j + of_nat i - a = (of_nat (j + i) :: u64)" by simp
    then show ?thesis using i assms by (simp only: unat_of_nat) (simp add: take_bit_eq_mod)
  qed
  then show "mem_read (a + of_nat j) n (mem_write a bs m) ! i = take n (drop j bs) ! i"
    using i assms(1) by (simp add: mem_read_def mem_write_def Let_def)
qed

lemma drop_words: "i < length ws \<Longrightarrow> take 8 (drop (8 * i) (concat (map le64 ws))) = le64 (ws ! i)"
proof (induction ws arbitrary: i)
  case (Cons w ws) then show ?case by (cases i) simp_all
qed simp

lemma length_words: "length (concat (map le64 ws)) = 8 * length ws"
  by (induction ws) simp_all

lemma field_written:
  assumes "i < length ws" "length ws < 2 ^ 60"
  shows "frame_field a (mem_write a (concat (map le64 ws)) m) i = ws ! i"
proof -
  have "mem_read (a + of_nat (8 * i)) 8 (mem_write a (concat (map le64 ws)) m) = le64 (ws ! i)"
    unfolding drop_words [OF assms(1), symmetric] by (rule read_written) (use assms in \<open>simp_all add: length_words\<close>)
  then show ?thesis by (simp add: frame_field_def le64_roundtrip)
qed

lemma read_cong: "(\<And>i. i < n \<Longrightarrow> m (a + of_nat i) = m' (a + of_nat i)) \<Longrightarrow> mem_read a n m = mem_read a n m'"
  by (simp add: mem_read_def)

lemma field_cong:
  assumes "\<And>j. j < N \<Longrightarrow> m (a + of_nat j) = m' (a + of_nat j)" "8 * i + 8 \<le> N"
  shows "frame_field a m i = frame_field a m' i"
proof -
  have "mem_read (a + of_nat (8 * i)) 8 m = mem_read (a + of_nat (8 * i)) 8 m'"
  proof (rule read_cong)
    fix j :: nat assume "j < 8"
    then show "m (a + of_nat (8 * i) + of_nat j) = m' (a + of_nat (8 * i) + of_nat j)"
      using assms(1) [of "8 * i + j"] assms(2) by (simp add: add.assoc)
  qed
  then show ?thesis by (simp add: frame_field_def)
qed


section \<open>Pages\<close>

definition page_of :: "u64 \<Rightarrow> u64" where "page_of a = drop_bit 12 a"

text \<open>A page table gives one entry to all addresses of a page.\<close>

definition page_granular :: "(u64 \<Rightarrow> u64 option) \<Rightarrow> bool" where
  "page_granular pte \<longleftrightarrow> (\<forall>u v. page_of u = page_of v \<longrightarrow> pte u = pte v)"

text \<open>Different pages that are both mapped have different physical pages.\<close>

definition distinct_frames :: "(u64 \<Rightarrow> u64 option) \<Rightarrow> u64 \<Rightarrow> u64 \<Rightarrow> bool" where
  "distinct_frames pte u v \<longleftrightarrow>
     (\<forall>e e'. pte u = Some e \<longrightarrow> pte v = Some e' \<longrightarrow> e AND PTE_ADDR_MASK = e' AND PTE_ADDR_MASK \<longrightarrow> page_of u = page_of v)"

lemma page_offset_mod: "page_offset a = a mod 4096"
  unfolding page_offset_def using take_bit_eq_mask [of 12 a] by (simp add: take_bit_eq_mod mask_eq_exp_minus_1)

lemma unat_page_offset: "unat (page_offset a) = unat a mod 4096"
  by (simp add: page_offset_mod unat_mod_distrib)

lemma unat_page_of: "unat (page_of a) = unat a div 4096"
  by (simp add: page_of_def drop_bit_eq_div unat_div_distrib)

lemma page_of_eq: "page_of a = page_of b \<longleftrightarrow> unat a div 4096 = unat b div 4096"
  by (metis unat_page_of word_unat_eq_iff)

lemma pte_base_aligned: "unat (e AND PTE_ADDR_MASK) mod 4096 = 0"
proof -
  have "page_offset (e AND PTE_ADDR_MASK) = 0" by (simp add: page_offset_def and.assoc)
  then show ?thesis using unat_page_offset by (metis unat_0)
qed

lemma base_plus:
  fixes b :: u64
  assumes "unat b mod 4096 = 0" "n < 4096"
  shows "unat (b + of_nat n) = unat b + n"
proof -
  obtain q where q: "unat b = 4096 * q" using assms(1) by (auto simp: mod_eq_0_iff_dvd)
  then have "q < 4503599627370496" using unat_lt64 [of b] by linarith
  then have "4096 * q + n < 18446744073709551616" using assms(2) by linarith
  then show ?thesis using q by (simp only: unat_word_ariths unat_of_nat take_bit_eq_mod) simp
qed

lemma frame_sp_aligned: "unat (frame_sp x fl rsp) mod 16 = 0"
proof -
  have "frame_sp x fl rsp AND 0xF = 0" by (simp add: frame_sp_def Let_def and.assoc)
  then have "take_bit 4 (frame_sp x fl rsp) = 0" using take_bit_eq_mask [of 4 "frame_sp x fl rsp"] by (simp add: mask_eq_exp_minus_1)
  then have "frame_sp x fl rsp mod 16 = 0" by (simp add: take_bit_eq_mod)
  then have "unat (frame_sp x fl rsp mod 16) = 0" by simp
  then show ?thesis by (simp add: unat_mod_distrib)
qed

lemma sub_in_page:
  fixes a d :: nat
  assumes "d \<le> a mod 4096"
  shows "(a - d) div 4096 = a div 4096" "(a - d) mod 4096 = a mod 4096 - d"
proof -
  have "a - d = 4096 * (a div 4096) + (a mod 4096 - d)" using assms by (simp flip: diff_add_assoc)
  moreover have "a mod 4096 - d < 4096" by (simp add: less_imp_diff_less)
  ultimately show "(a - d) div 4096 = a div 4096" "(a - d) mod 4096 = a mod 4096 - d" by simp_all
qed

lemma aligned_apart:
  fixes x y :: nat
  assumes "x mod 4096 = 0" "y mod 4096 = 0" "x \<noteq> y" "i < 4096" "j < 4096"
  shows "x + i \<noteq> y + j"
  using assms by (metis add.commute mod_add_cong mod_add_left_eq mod_less add_0 add_right_cancel)

lemma below_frame:
  fixes sp :: u64
  assumes "unat sp mod 16 = 0"
  shows "unat sp mod 4096 = 0 \<Longrightarrow> unat (sp - 8) mod 4096 = 4088 \<and> unat (sp - 8) div 4096 \<noteq> unat sp div 4096"
    and "unat sp mod 4096 \<noteq> 0 \<Longrightarrow> unat (sp - 8) = unat sp - 8 \<and> 16 \<le> unat sp mod 4096"
proof -
  obtain p where p: "unat sp = 16 * p" using assms by (auto simp: mod_eq_0_iff_dvd)
  have ge: "unat (sp - 8) = unat sp - 8" if "p \<noteq> 0" using that p by (simp add: unat_sub_if')
  show "unat (sp - 8) mod 4096 = 4088 \<and> unat (sp - 8) div 4096 \<noteq> unat sp div 4096" if z: "unat sp mod 4096 = 0"
  proof (cases "p = 0")
    case True
    then have "sp = 0" using p by (simp add: word_unat_eq_iff)
    then show ?thesis by simp
  next
    case False
    obtain q where q: "unat sp = 4096 * q" using z by (auto simp: mod_eq_0_iff_dvd)
    then obtain q' where q': "q = Suc q'" using False p by (cases q) auto
    have "unat (sp - 8) = 4096 * q' + 4088" using ge [OF False] q q' by simp
    then show ?thesis using q q' by simp
  qed
  show "unat (sp - 8) = unat sp - 8 \<and> 16 \<le> unat sp mod 4096" if z: "unat sp mod 4096 \<noteq> 0"
  proof -
    have "p \<noteq> 0" using p z by auto
    moreover have "unat sp mod 4096 = 16 * (p mod 256)" using p mult_mod_right [of 16 p 256] by simp
    moreover have "p mod 256 \<noteq> 0" using calculation(2) z by auto
    ultimately show ?thesis using ge by simp
  qed
qed

text \<open>The slot of the return address, one word below the frame, does not overlap it.\<close>

lemma restorer_outside:
  assumes gran: "page_granular pte"
    and inj: "distinct_frames pte (sp - 8) sp"
    and al: "unat sp mod 16 = 0"
    and pa: "translate pte sp = Some pa" and ra: "translate pte (sp - 8) = Some ra"
    and fits: "unat (page_offset sp) + 160 \<le> 4096" and j: "j < 160"
  shows "mem_write ra (le64 w) m (pa + of_nat j) = m (pa + of_nat j)"
proof -
  obtain e where e: "pte sp = Some e" "pa = (e AND PTE_ADDR_MASK) + page_offset sp" using pa by (auto simp: translate_def)
  obtain e' where e': "pte (sp - 8) = Some e'" "ra = (e' AND PTE_ADDR_MASK) + page_offset (sp - 8)" using ra by (auto simp: translate_def)
  define b where "b = e AND PTE_ADDR_MASK"
  define b' where "b' = e' AND PTE_ADDR_MASK"
  have b: "unat b mod 4096 = 0" "unat b' mod 4096 = 0" using pte_base_aligned by (simp_all add: b_def b'_def)
  have "pa + of_nat j = b + of_nat (unat sp mod 4096 + j)" unfolding unat_page_offset [symmetric] by (simp add: e(2) b_def)
  then have upa: "unat (pa + of_nat j) = unat b + (unat sp mod 4096 + j)"
    using base_plus [OF b(1), of "unat sp mod 4096 + j"] fits j by (simp only: unat_page_offset)
  have "ra = b' + of_nat (unat (sp - 8) mod 4096)" unfolding unat_page_offset [symmetric] by (simp add: e'(2) b'_def)
  then have ura: "unat ra = unat b' + unat (sp - 8) mod 4096"
    using base_plus [OF b(2), of "unat (sp - 8) mod 4096"] by simp
  have "\<not> (unat ra \<le> unat (pa + of_nat j) \<and> unat (pa + of_nat j) < unat ra + 8)"
  proof (cases "unat sp mod 4096 = 0")
    case True
    note sp8 = below_frame(1) [OF al True]
    then have "b \<noteq> b'" using inj e(1) e'(1) by (auto simp: b_def b'_def page_of_eq distinct_frames_def)
    then have "unat b \<noteq> unat b'" by (simp add: word_unat_eq_iff)
    then have apart: "unat b + j \<noteq> unat b' + i" if "i < 4096" for i using aligned_apart [OF b _ _ that, of j] j by simp
    show ?thesis
    proof
      assume "unat ra \<le> unat (pa + of_nat j) \<and> unat (pa + of_nat j) < unat ra + 8"
      then have le: "unat b' + 4088 \<le> unat b + j" and lt: "unat b + j < unat b' + 4096" using upa ura sp8 True by simp_all
      have "unat b + j - unat b' < 4096" using le lt by linarith
      from apart [OF this] show False using le by simp
    qed
  next
    case False
    note sp8 = below_frame(2) [OF al False]
    have lt: "unat sp mod 4096 < 4096" by simp
    have page: "unat (sp - 8) div 4096 = unat sp div 4096" and off: "unat (sp - 8) mod 4096 = unat sp mod 4096 - 8"
      using sub_in_page [of 8 "unat sp"] sp8 by auto
    have "pte (sp - 8) = pte sp" using gran page unfolding page_granular_def page_of_eq by blast
    then have "b = b'" using e(1) e'(1) by (simp add: b_def b'_def)
    then have "unat ra + 8 \<le> unat (pa + of_nat j)" using upa ura off sp8 by simp
    then show ?thesis by linarith
  qed
  moreover have "unat ra < 9223372036854775808"
  proof -
    have "b' \<le> PTE_ADDR_MASK" unfolding b'_def by (rule word_and_le1)
    then have "unat b' \<le> unat PTE_ADDR_MASK" by (simp only: word_le_nat_alt)
    then have "unat b' \<le> 0x000FFFFFFFFFF000" by simp
    moreover have "unat (sp - 8) mod 4096 < 4096" by simp
    ultimately show ?thesis using ura by linarith
  qed
  ultimately have "\<not> unat (pa + of_nat j - ra) < 8" by (auto simp: unat_sub_if' split: if_splits)
  then show ?thesis by (simp add: mem_write_def Let_def)
qed


section \<open>Delivery and return\<close>

lemma sigframe_read:
  assumes "\<And>j. j < 160 \<Longrightarrow> m2 (pa + of_nat j) = mem_write pa (concat (map le64 (sigframe r mk sig))) m (pa + of_nat j)" "i < 20"
  shows "frame_field pa m2 i = sigframe r mk sig ! i"
proof -
  have "frame_field pa m2 i = frame_field pa (mem_write pa (concat (map le64 (sigframe r mk sig))) m) i"
    by (rule field_cong [where N = 160]) (use assms in auto)
  also have "\<dots> = sigframe r mk sig ! i" by (rule field_written) (use assms(2) in \<open>simp_all add: sigframe_def\<close>)
  finally show ?thesis .
qed

lemma sigreturn_restores:
  assumes "sched_current k2 = Some t" "translate pte (r_rsp r2) = Some pa"
    and "\<And>j. j < 160 \<Longrightarrow> m2 (pa + of_nat j) = mem_write pa (concat (map le64 (sigframe r mk sig))) m (pa + of_nat j)"
  shows "sys_rt_sigreturn pte r2 m2 k2 = (upd_task t (\<lambda>x. x\<lparr>t_sig_mask := mk\<rparr>) k2, r, sint (r_rax r))"
  unfolding sys_rt_sigreturn_def assms(1,2) option.case Let_def
  by (simp add: sigframe_read [OF assms(3)]) (simp add: sigframe_def)

lemma action_pending: "sig_action (x\<lparr>t_sig_pending := p\<rparr>) s = sig_action x s"
proof -
  have "legacy_action (x\<lparr>t_sig_pending := p\<rparr>) s = legacy_action x s" by (simp add: legacy_action_def)
  then show ?thesis by (cases "t_sigactions x") (simp_all add: sig_action_def)
qed

text \<open>Signals that are ignored are passed over.\<close>

lemma deliver_skip:
  assumes "\<forall>s \<in> set ss. del AND sig_bit s \<noteq> 0 \<longrightarrow> sig_action (k_task k t) s = ActIgnore"
  shows "\<exists>pend. deliver_from pte t del (ss @ us) r m k = deliver_from pte t del us r m (upd_task t (\<lambda>x. x\<lparr>t_sig_pending := pend\<rparr>) k)"
  using assms
proof (induction ss arbitrary: k)
  case Nil
  have "upd_task t (\<lambda>x. x\<lparr>t_sig_pending := t_sig_pending (k_task k t)\<rparr>) k = k" by (simp add: upd_task_def)
  then show ?case by (metis append_Nil)
next
  case (Cons s ss)
  show ?case
  proof (cases "del AND sig_bit s = 0")
    case True then show ?thesis using Cons by simp
  next
    case False
    let ?k = "clear_pending t s k"
    have act: "sig_action (k_task ?k t) u = sig_action (k_task k t) u" for u
      by (simp add: clear_pending_def action_pending)
    have "\<exists>pend. deliver_from pte t del (ss @ us) r m ?k = deliver_from pte t del us r m (upd_task t (\<lambda>x. x\<lparr>t_sig_pending := pend\<rparr>) ?k)"
      by (rule Cons.IH) (use Cons.prems act in auto)
    moreover have "upd_task t (\<lambda>x. x\<lparr>t_sig_pending := pend\<rparr>) ?k = upd_task t (\<lambda>x. x\<lparr>t_sig_pending := pend\<rparr>) k" for pend
      by (simp add: clear_pending_def upd_task_def)
    moreover have "sig_action (k_task ?k t) s = ActIgnore" using Cons.prems False act by simp
    ultimately show ?thesis using False by (simp add: Let_def)
  qed
qed


lemma push_frame_delivers:
  assumes a: "a = ActHandle h re mk fl tb" and pa: "translate pte sp = Some pa" and pend: "pte (sp + 159) \<noteq> None"
    and sp: "sp = frame_sp (k_task k t) fl (r_rsp r)"
    and gran: "page_granular pte"
    and inj: "distinct_frames pte (sp - 8) sp"
    and fits: "unat (page_offset sp) + 160 \<le> 4096"
  obtains k' m' where "push_frame pte t sig a r m k =
       Some (k', r\<lparr>r_rdi := of_nat sig, r_rip := h, r_rsp := (if fl AND SA_RESTORER \<noteq> 0 \<and> re \<noteq> 0 then sp - 8 else sp)\<rparr>, m')"
    "t_sig_mask (k_task k' t) = handler_mask a sig (t_sig_mask (k_task k t))"
    "t_sig_pending (k_task k' t) = t_sig_pending (k_task k t)"
    "\<And>j. j < 160 \<Longrightarrow> m' (pa + of_nat j) = mem_write pa (concat (map le64 (sigframe r (t_sig_mask (k_task k t)) sig))) m (pa + of_nat j)"
proof -
  have keep: "mem_write ra (le64 re) m1 (pa + of_nat j) = m1 (pa + of_nat j)"
    if "translate pte (sp - 8) = Some ra" "j < 160" for ra m1 j
    by (rule restorer_outside [OF gran inj _ pa that(1) fits that(2)]) (simp add: sp frame_sp_aligned)
  define m1 where "m1 = mem_write pa (concat (map le64 (sigframe r (t_sig_mask (k_task k t)) sig))) m"
  define m2 where "m2 = (if fl AND SA_RESTORER \<noteq> 0 \<and> re \<noteq> 0
    then case translate pte (sp - 8) of None \<Rightarrow> m1 | Some ra \<Rightarrow> mem_write ra (le64 re) m1 else m1)"
  define k1 where "k1 = upd_task t (\<lambda>x. x\<lparr>t_sig_mask := handler_mask a sig (t_sig_mask x)\<rparr>) k"
  define k2 where "k2 = (if fl AND SA_RESETHAND \<noteq> 0 \<and> tb
    then upd_task t (\<lambda>x. x\<lparr>t_sigactions := map_option (\<lambda>tbl. tbl[sig := (tbl ! sig)\<lparr>sa_handler := 0\<rparr>]) (t_sigactions x)\<rparr>) k1 else k1)"
  obtain e where e: "pte (sp + 159) = Some e" using pend by auto
  show thesis
  proof (rule that [of k2 m2])
    show "push_frame pte t sig a r m k =
       Some (k2, r\<lparr>r_rdi := of_nat sig, r_rip := h, r_rsp := (if fl AND SA_RESTORER \<noteq> 0 \<and> re \<noteq> 0 then sp - 8 else sp)\<rparr>, m2)"
      using pa e by (cases "translate pte (sp - 8)") (simp_all add: push_frame_def Let_def a sp [symmetric] k2_def m2_def k1_def m1_def add.commute)
    show "t_sig_mask (k_task k2 t) = handler_mask a sig (t_sig_mask (k_task k t))"
      "t_sig_pending (k_task k2 t) = t_sig_pending (k_task k t)" by (simp_all add: k2_def k1_def)
    show "m2 (pa + of_nat j) = mem_write pa (concat (map le64 (sigframe r (t_sig_mask (k_task k t)) sig))) m (pa + of_nat j)"
      if "j < 160" for j
      unfolding m1_def [symmetric] m2_def using keep that by (auto split: option.split)
  qed
qed


lemma frame_one_page:
  assumes "unat (page_offset sp) + 160 \<le> 4096"
  shows "page_of (sp + 159) = page_of sp"
proof -
  have o: "unat sp mod 4096 + 159 < 4096" using assms by (simp add: unat_page_offset)
  have lt: "unat sp div 4096 < 4503599627370496" using unat_lt64 [of sp] by linarith
  have sp: "unat sp = 4096 * (unat sp div 4096) + unat sp mod 4096" by simp
  have "unat sp + 159 < 18446744073709551616" using o lt sp by linarith
  then have "unat (sp + 159) = unat sp + 159" by (simp add: unat_word_ariths)
  also have "\<dots> = 4096 * (unat sp div 4096) + (unat sp mod 4096 + 159)" using sp by linarith
  finally have "unat (sp + 159) div 4096 = (unat sp div 4096 * 4096 + (unat sp mod 4096 + 159)) div 4096" by (simp only: mult.commute)
  also have "\<dots> = unat sp div 4096" using o by (subst div_mult_self3) simp_all
  finally show ?thesis by (simp only: page_of_eq)
qed

text \<open>C25: the lowest deliverable signal that is not ignored, if it has a handler and the stack page has room for
  the frame, starts the handler with the signal number as its argument, the signal no longer pending and the mask
  extended; and when the handler, having left the frame alone, makes \<^verbatim>\<open>rt_sigreturn\<close>, all eighteen registers and
  the signal mask are what they were.\<close>

theorem signal_deliver_return:
  assumes user: "t_is_user (k_task k t)" and sig: "0 < sig" "sig < NSIGS"
    and del: "(t_sig_pending (k_task k t) AND NOT (t_sig_mask (k_task k t))) AND sig_bit sig \<noteq> 0"
    and lower: "\<forall>s \<in> {1..<sig}. (t_sig_pending (k_task k t) AND NOT (t_sig_mask (k_task k t))) AND sig_bit s \<noteq> 0
                  \<longrightarrow> sig_action (k_task k t) s = ActIgnore"
    and act: "sig_action (k_task k t) sig = ActHandle h re mk fl tb"
    and sp: "sp = frame_sp (k_task k t) fl (r_rsp r)" and pa: "translate pte sp = Some pa"
    and gran: "page_granular pte" and fits: "unat (page_offset sp) + 160 \<le> 4096"
    and frames: "distinct_frames pte (sp - 8) sp"
  shows "\<exists>k' r' m'. signal_deliver_user pte t r m k = (k', r', m', True) \<and>
     r_rip r' = h \<and> r_rdi r' = of_nat sig \<and>
     r_rsp r' = (if fl AND SA_RESTORER \<noteq> 0 \<and> re \<noteq> 0 then sp - 8 else sp) \<and>
     t_sig_mask (k_task k' t) = handler_mask (ActHandle h re mk fl tb) sig (t_sig_mask (k_task k t)) \<and>
     t_sig_pending (k_task k' t) AND sig_bit sig = 0 \<and>
     (\<forall>k2 r2 m2. sched_current k2 = Some t \<longrightarrow> r_rsp r2 = sp \<longrightarrow>
        (\<forall>j < 160. m2 (pa + of_nat j) = m' (pa + of_nat j)) \<longrightarrow>
        sys_rt_sigreturn pte r2 m2 k2 =
          (upd_task t (\<lambda>x. x\<lparr>t_sig_mask := t_sig_mask (k_task k t)\<rparr>) k2, r, sint (r_rax r)))"
proof -
  let ?del = "t_sig_pending (k_task k t) AND NOT (t_sig_mask (k_task k t))"
  have split: "[1..<NSIGS] = [1..<sig] @ sig # [Suc sig..<NSIGS]"
    using sig upt_add_eq_append [of 1 sig "NSIGS - sig"] by (simp add: upt_conv_Cons)
  obtain pend where skip: "signal_deliver_user pte t r m k =
      deliver_from pte t ?del (sig # [Suc sig..<NSIGS]) r m (upd_task t (\<lambda>x. x\<lparr>t_sig_pending := pend\<rparr>) k)"
    using deliver_skip [of "[1..<sig]" ?del k t pte "sig # [Suc sig..<NSIGS]" r m] user lower
    unfolding signal_deliver_user_def split by auto
  define k1 where "k1 = clear_pending t sig (upd_task t (\<lambda>x. x\<lparr>t_sig_pending := pend\<rparr>) k)"
  have k1: "sig_action (k_task k1 t) sig = ActHandle h re mk fl tb" "t_sig_mask (k_task k1 t) = t_sig_mask (k_task k t)"
    "frame_sp (k_task k1 t) = frame_sp (k_task k t)" "t_sig_pending (k_task k1 t) AND sig_bit sig = 0"
    using act by (simp_all add: k1_def clear_pending_def action_pending frame_sp_def and.assoc fun_eq_iff)
  have "pte (sp + 159) = pte sp" using frame_one_page [OF fits] gran unfolding page_granular_def by blast
  then have last: "pte (sp + 159) \<noteq> None" using pa by (auto simp: translate_def)
  obtain k' m' where p: "push_frame pte t sig (ActHandle h re mk fl tb) r m k1 =
       Some (k', r\<lparr>r_rdi := of_nat sig, r_rip := h, r_rsp := (if fl AND SA_RESTORER \<noteq> 0 \<and> re \<noteq> 0 then sp - 8 else sp)\<rparr>, m')"
    "t_sig_mask (k_task k' t) = handler_mask (ActHandle h re mk fl tb) sig (t_sig_mask (k_task k1 t))"
    "t_sig_pending (k_task k' t) = t_sig_pending (k_task k1 t)"
    and fr: "\<And>j. j < 160 \<Longrightarrow> m' (pa + of_nat j) = mem_write pa (concat (map le64 (sigframe r (t_sig_mask (k_task k1 t)) sig))) m (pa + of_nat j)"
    by (rule push_frame_delivers [OF refl pa last _ gran frames fits, of k1 t fl r]) (auto simp: sp k1(3))
  have "signal_deliver_user pte t r m k =
      (k', r\<lparr>r_rdi := of_nat sig, r_rip := h, r_rsp := (if fl AND SA_RESTORER \<noteq> 0 \<and> re \<noteq> 0 then sp - 8 else sp)\<rparr>, m', True)"
    using del k1(1) p(1) by (simp add: skip Let_def k1_def [symmetric])
  moreover have "sys_rt_sigreturn pte r2 m2 k2 = (upd_task t (\<lambda>x. x\<lparr>t_sig_mask := t_sig_mask (k_task k t)\<rparr>) k2, r, sint (r_rax r))"
    if "sched_current k2 = Some t" "r_rsp r2 = sp" "\<forall>j < 160. m2 (pa + of_nat j) = m' (pa + of_nat j)" for k2 r2 m2
    by (rule sigreturn_restores [where sig = sig and m = m]) (use that pa fr k1(2) in auto)
  ultimately show ?thesis using p k1 by auto
qed


lemma bit_sig_bit: "bit (sig_bit s) n \<longleftrightarrow> n = s \<and> s < 64"
  by (auto simp: sig_bit_def push_bit_eq_mult bit_exp_iff)

lemma sig_bit_masked: "x AND sig_bit s \<noteq> 0 \<Longrightarrow> sig_bit s AND NOT x = 0"
proof -
  assume "x AND sig_bit s \<noteq> 0"
  then have "bit x s" by (rule contrapos_np) (auto intro!: bit_word_eqI simp: bit_and_iff bit_sig_bit)
  then show ?thesis by (auto intro!: bit_word_eqI simp: bit_and_iff bit_not_iff bit_sig_bit)
qed

lemma deliver_masked:
  assumes "t_sig_pending (k_task k t) AND NOT (t_sig_mask (k_task k t)) = 0"
  shows "signal_deliver_user pte t r m k = (k, r, m, False)"
proof -
  have "deliver_from pte t 0 ss r m k = (k, r, m, False)" for ss by (induction ss) simp_all
  then show ?thesis by (simp add: signal_deliver_user_def assms)
qed

text \<open>C27: \<^verbatim>\<open>rt_sigaction\<close> stores the mask of the handler as it is given, so while a handler whose mask names SIGKILL
  runs, a SIGKILL sent to the task stays pending and is not acted on; \<^verbatim>\<open>rt_sigprocmask\<close> in contrast removes
  SIGKILL from what it is given.\<close>

theorem sigkill_blocked_by_handler:
  assumes cur: "sched_current k = Some t" and tbl: "t_sigactions (k_task k t) = Some tbl" "sig < length tbl"
    and sig: "0 < sig" "sig < NSIGS" "sig \<noteq> SIGKILL" "sig \<noteq> SIGSTOP"
    and a: "1 < sa_handler a" "sa_mask a AND sig_bit SIGKILL \<noteq> 0"
    and k1: "k1 = fst (sys_rt_sigaction True (int sig) (Some a) k)"
    and run: "push_frame pte t sig (sig_action (k_task k1 t) sig) r m k1 = Some (k2, r2, m2)"
    and quiet: "t_sig_pending (k_task k2 t) = 0"
    and k3: "k3 = signal_send t SIGKILL k2"
  shows "fst (snd (sys_rt_sigaction True (int sig) (Some a) k)) = 0 \<and>
     t_sig_pending (k_task k3 t) = sig_bit SIGKILL \<and> signal_deliver_user pte t r3 m3 k3 = (k3, r3, m3, False)"
proof -
  have act: "fst (snd (sys_rt_sigaction True (int sig) (Some a) k)) = 0"
    "sig_action (k_task k1 t) sig = ActHandle (sa_handler a) (sa_restorer a) (sa_mask a) (sa_flags a) True"
    using cur tbl sig a unfolding k1 by (auto simp: sys_rt_sigaction_def sig_action_def Let_def)
  have "t_sig_mask (k_task k2 t) = handler_mask (sig_action (k_task k1 t) sig) sig (t_sig_mask (k_task k1 t))"
    using run by (auto simp: push_frame_def Let_def split: option.splits if_splits)
  then have "t_sig_mask (k_task k2 t) AND sig_bit SIGKILL \<noteq> 0" using a(2) unfolding act(2) handler_mask_def
    by (simp add: bit.conj_disj_distrib2 or_eq_0_iff)
  then have masked: "sig_bit SIGKILL AND NOT (t_sig_mask (k_task k2 t)) = 0" by (rule sig_bit_masked)
  have k3': "t_sig_pending (k_task k3 t) = sig_bit SIGKILL" "t_sig_mask (k_task k3 t) = t_sig_mask (k_task k2 t)"
    unfolding k3 signal_send_def signal_send_from_cred_def using quiet
    by (simp_all add: may_signal_def sched_unblock_def rq_enqueue_def enqueued_task_def Let_def)
  then show ?thesis using act(1) masked by (simp add: deliver_masked)
qed

section \<open>Signals to groups\<close>

lemma send_keeps:
  "k_table (signal_send p sig k) = k_table k"
  "t_is_kthread (k_task (signal_send p sig k) q) = t_is_kthread (k_task k q)"
  "t_pgid (k_task (signal_send p sig k) q) = t_pgid (k_task k q)"
  "t_sid (k_task (signal_send p sig k) q) = t_sid (k_task k q)"
  by (cases "q = p"; simp add: signal_send_def signal_send_from_cred_def may_signal_def sched_unblock_def rq_enqueue_def
      enqueued_task_def Let_def upd_task_other)+

lemma send_pending:
  assumes "0 < sig" "sig < NSIGS"
  shows "t_sig_pending (k_task (signal_send p sig k) q) = (if q = p then t_sig_pending (k_task k q) OR sig_bit sig else t_sig_pending (k_task k q))"
  using assms by (cases "q = p") (simp_all add: signal_send_def signal_send_from_cred_def may_signal_def sched_unblock_def rq_enqueue_def
      enqueued_task_def Let_def upd_task_other)

lemma send_each_pending:
  assumes sig: "0 < sig" "sig < NSIGS"
    and P: "\<And>p k q. P (k_task (signal_send p sig k) q) = P (k_task k q)"
  shows "t_sig_pending (k_task (signal_send_each P sig is k) q) =
    (if (\<exists>i \<in> set is. task_get_from_table k i = Some q) \<and> \<not> t_is_kthread (k_task k q) \<and> P (k_task k q)
     then t_sig_pending (k_task k q) OR sig_bit sig else t_sig_pending (k_task k q))"
proof (induction "is" arbitrary: k)
  case (Cons i js)
  have tab: "task_get_from_table (signal_send p sig k) j = task_get_from_table k j" for p j
    by (simp add: task_get_from_table_def send_keeps)
  show ?case
  proof (cases "task_get_from_table k i")
    case None then show ?thesis by (simp add: Cons.IH)
  next
    case (Some p)
    then show ?thesis by (cases "p = q") (auto simp: Cons.IH tab send_keeps send_pending sig P or.assoc)
  qed
qed simp

text \<open>C26: a signal sent to a process group becomes pending in exactly the user tasks of the group that the
  task table holds, and changes the pending signals of no other task.\<close>

theorem signal_send_pgrp_exact:
  assumes "pgid \<noteq> 0" "0 < sig" "sig < int NSIGS"
  shows "t_sig_pending (k_task (signal_send_pgrp pgid sig k) q) =
    (if (\<exists>i \<in> {1..<TASK_TABLE_SIZE}. task_get_from_table k i = Some q) \<and> \<not> t_is_kthread (k_task k q) \<and> t_pgid (k_task k q) = pgid
     then t_sig_pending (k_task k q) OR sig_bit (nat sig) else t_sig_pending (k_task k q))"
proof -
  have "0 < nat sig" "nat sig < NSIGS" using assms by auto
  from send_each_pending [OF this, of "\<lambda>t. t_pgid t = pgid"] show ?thesis
    using assms by (simp add: signal_send_pgrp_def send_keeps)
qed


section \<open>Examples\<close>

definition one_page :: "u64 \<Rightarrow> u64 option" where
  "one_page v = (if page_of v = 7 then Some 0x5007 else None)"

definition user_action :: kernel_sigaction where
  "user_action = \<lparr>sa_handler = 0x400000, sa_flags = SA_RESTORER, sa_restorer = 0x400100, sa_mask = 0x200\<rparr>"

definition sig_example :: kernel where
  "sig_example = kernel_zero\<lparr>k_self := Some 0, k_table := (replicate TASK_TABLE_SIZE None)[3 := Some 3],
     k_task := (\<lambda>_. task_zero)(3 := task_zero\<lparr>t_is_user := True, t_pgid := 7, t_state := TASK_RUNNING, t_sig_pending := 0x400,
       t_sigactions := Some ((replicate NSIGS sigaction_zero)[SIGUSR1 := user_action])\<rparr>),
     k_sched := (\<lambda>_. cpu_sched_zero\<lparr>cs_current := Some 3\<rparr>)\<rparr>"

definition user_regs :: cpu_regs where
  "user_regs = \<lparr>r_rax = 1, r_rbx = 2, r_rcx = 3, r_rdx = 4, r_rsi = 5, r_rdi = 6, r_rbp = 7, r_rsp = 0x7800, r_r8 = 8, r_r9 = 9,
     r_r10 = 10, r_r11 = 11, r_r12 = 12, r_r13 = 13, r_r14 = 14, r_r15 = 15, r_rip = 0x401234, r_rflags = 0x202\<rparr>"

lemma one_page_granular: "page_granular one_page"
  by (simp add: page_granular_def one_page_def)

lemma one_page_distinct: "distinct_frames one_page u v"
  by (auto simp: distinct_frames_def one_page_def split: if_splits)

lemma sig_example_task:
  "t_is_user (k_task sig_example 3)" "t_sig_pending (k_task sig_example 3) = 0x400" "t_sig_mask (k_task sig_example 3) = 0"
  "t_sigactions (k_task sig_example 3) = Some ((replicate NSIGS sigaction_zero)[SIGUSR1 := user_action])"
  "sched_current sig_example = Some 3" "t_is_kthread (k_task sig_example 3) = False" "t_pgid (k_task sig_example 3) = 7"
  "k_task sig_example 2 = task_zero"
  by (simp_all add: sig_example_def task_zero_def sched_current_def)

lemma sig_example_action: "sig_action (k_task sig_example 3) SIGUSR1 = ActHandle 0x400000 0x400100 0x200 SA_RESTORER True"
  by (simp add: sig_action_def sig_example_task user_action_def Let_def word_le_nat_alt)

lemma sig_example_frame: "frame_sp (k_task sig_example 3) SA_RESTORER (r_rsp user_regs) = 0x7760"
  by (simp add: frame_sp_def user_regs_def Let_def)

theorem signal_deliver_return_witness:
  "\<exists>k' r' m'. signal_deliver_user one_page 3 user_regs (\<lambda>_. 0) sig_example = (k', r', m', True) \<and> r_rip r' = 0x400000 \<and>
     sys_rt_sigreturn one_page (user_regs\<lparr>r_rsp := 0x7760\<rparr>) m' sig_example =
       (upd_task 3 (\<lambda>x. x\<lparr>t_sig_mask := 0\<rparr>) sig_example, user_regs, 1)"
proof -
  let ?t = "k_task sig_example 3"
  have pa: "translate one_page 0x7760 = Some 0x5760" by (simp add: translate_def one_page_def page_of_def page_offset_def drop_bit_eq_div)
  have lower: "\<forall>s \<in> {1..<SIGUSR1}. (t_sig_pending ?t AND NOT (t_sig_mask ?t)) AND sig_bit s \<noteq> 0 \<longrightarrow> sig_action ?t s = ActIgnore"
  proof -
    have "sig_bit SIGUSR1 AND sig_bit s = 0" if "s < SIGUSR1" for s
      using that by (auto intro!: bit_word_eqI simp: bit_and_iff bit_sig_bit)
    moreover have "sig_bit SIGUSR1 = 0x400" by (simp add: sig_bit_def)
    ultimately show ?thesis by (simp add: sig_example_task)
  qed
  have del: "(t_sig_pending ?t AND NOT (t_sig_mask ?t)) AND sig_bit SIGUSR1 \<noteq> 0" by (simp add: sig_bit_def sig_example_task)
  have fits: "unat (page_offset 0x7760) + 160 \<le> 4096" by (simp add: page_offset_def)
  obtain k' r' m' where d: "signal_deliver_user one_page 3 user_regs (\<lambda>_. 0) sig_example = (k', r', m', True)" "r_rip r' = 0x400000"
    and ret: "\<And>k2 r2 m2. sched_current k2 = Some 3 \<Longrightarrow> r_rsp r2 = 0x7760 \<Longrightarrow> (\<forall>j < 160. m2 (0x5760 + of_nat j) = m' (0x5760 + of_nat j)) \<Longrightarrow>
        sys_rt_sigreturn one_page r2 m2 k2 = (upd_task 3 (\<lambda>x. x\<lparr>t_sig_mask := t_sig_mask ?t\<rparr>) k2, user_regs, sint (r_rax user_regs))"
    using signal_deliver_return [OF sig_example_task(1) _ _ del lower sig_example_action sig_example_frame [symmetric] pa one_page_granular
        fits one_page_distinct, of "\<lambda>_. 0"] by auto
  show ?thesis using d ret [of sig_example "user_regs\<lparr>r_rsp := 0x7760\<rparr>" m'] by (simp add: sig_example_task) (simp add: user_regs_def)
qed

theorem sigkill_blocked_by_handler_witness:
  "\<exists>k2 r2 m2. push_frame one_page 3 SIGUSR1 (ActHandle 0x400000 0x400100 0x200 SA_RESTORER True) user_regs (\<lambda>_. 0)
      (fst (sys_rt_sigaction True 10 (Some user_action) (clear_pending 3 SIGUSR1 sig_example))) = Some (k2, r2, m2) \<and>
     signal_deliver_user one_page 3 r2 m2 (signal_send 3 SIGKILL k2) = (signal_send 3 SIGKILL k2, r2, m2, False)"
proof -
  let ?k = "clear_pending 3 SIGUSR1 sig_example"
  define k1 where "k1 = fst (sys_rt_sigaction True (int SIGUSR1) (Some user_action) ?k)"
  have cur: "sched_current ?k = Some 3" and tbl: "t_sigactions (k_task ?k 3) = Some ((replicate NSIGS sigaction_zero)[SIGUSR1 := user_action])"
    by (simp_all add: clear_pending_def sig_example_task)
  have a: "1 < sa_handler user_action" "sa_mask user_action AND sig_bit SIGKILL \<noteq> 0"
    by (simp_all add: user_action_def sig_bit_def word_less_nat_alt)
  have t1: "sig_action (k_task k1 3) SIGUSR1 = ActHandle 0x400000 0x400100 0x200 SA_RESTORER True"
    "frame_sp (k_task k1 3) = frame_sp (k_task sig_example 3)" "t_sig_pending (k_task k1 3) = 0"
    using cur tbl by (auto simp: k1_def sys_rt_sigaction_def Let_def sig_action_def user_action_def clear_pending_def
        sig_example_task sig_bit_def frame_sp_def fun_eq_iff word_le_nat_alt)
  have pa: "translate one_page 0x7760 = Some 0x5760" by (simp add: translate_def one_page_def page_of_def page_offset_def drop_bit_eq_div)
  obtain k2 r2 m2 where p: "push_frame one_page 3 SIGUSR1 (ActHandle 0x400000 0x400100 0x200 SA_RESTORER True) user_regs (\<lambda>_. 0) k1 = Some (k2, r2, m2)"
    "t_sig_pending (k_task k2 3) = t_sig_pending (k_task k1 3)"
    by (rule push_frame_delivers [where k = k1 and r = user_regs and m = "\<lambda>_. 0" and sig = SIGUSR1 and t = 3
        and h = "0x400000" and re = "0x400100" and mk = "0x200" and fl = SA_RESTORER and tb = True, OF refl pa _ _ one_page_granular one_page_distinct])
      (auto simp: t1 sig_example_frame one_page_def page_of_def drop_bit_eq_div page_offset_def)
  show ?thesis
    using sigkill_blocked_by_handler [OF cur tbl _ _ _ _ _ a k1_def p(1) [folded t1(1)] _ refl, of r2 m2] p t1(3)
    unfolding k1_def by auto
qed

theorem signal_send_pgrp_exact_witness:
  "t_sig_pending (k_task (signal_send_pgrp 7 15 sig_example) 3) = 0x8400 \<and> t_sig_pending (k_task (signal_send_pgrp 7 15 sig_example) 2) = 0"
proof -
  have "task_get_from_table sig_example 3 = Some 3" by (simp add: task_get_from_table_def sig_example_def TASK_TABLE_SIZE_def)
  then have "\<exists>i \<in> {1..<TASK_TABLE_SIZE}. task_get_from_table sig_example i = Some 3"
    by (intro bexI [of _ 3]) (simp_all add: TASK_TABLE_SIZE_def)
  then show ?thesis
    using signal_send_pgrp_exact [of 7 15 sig_example 3] signal_send_pgrp_exact [of 7 15 sig_example 2]
    by (simp add: sig_example_task sig_bit_def) (simp add: task_zero_def)
qed

end
