(* ===== verification/Tcp.thy ===== *)
theory Tcp
  imports Udp
begin

text \<open>
  TCP (\<^verbatim>\<open>net/tcp.c\<close>, \<^verbatim>\<open>net/tcp_input.c\<close>, \<^verbatim>\<open>net/tcp_output.c\<close>, \<^verbatim>\<open>net/tcp_timer.c\<close>) and the TCP
  operations of \<^verbatim>\<open>net/socket.c\<close>.  A control block is a record; the table of control
  blocks is a list and a pointer to a block is its index.  The retransmit queue is
  the list its chain denotes.  A timer is the tick it is armed for, if it is armed.
  Waking tasks is left to the scheduler's model.  The spin lock of a block is a
  boolean: acquiring a lock that the same path already holds never returns, and
  operations that can do so return \<open>None\<close> then.
\<close>

section \<open>Control blocks\<close>

abbreviation TCP_FIN :: u8 where "TCP_FIN \<equiv> 0x01"
abbreviation TCP_SYN :: u8 where "TCP_SYN \<equiv> 0x02"
abbreviation TCP_RST :: u8 where "TCP_RST \<equiv> 0x04"
abbreviation TCP_PSH :: u8 where "TCP_PSH \<equiv> 0x08"
abbreviation TCP_ACK :: u8 where "TCP_ACK \<equiv> 0x10"
abbreviation TCP_MAX_TCB :: nat where "TCP_MAX_TCB \<equiv> 128"
abbreviation TCP_BUFSZ :: nat where "TCP_BUFSZ \<equiv> 65536"
abbreviation TCP_MSS_DEFAULT :: nat where "TCP_MSS_DEFAULT \<equiv> 1460"
abbreviation SOMAXCONN :: nat where "SOMAXCONN \<equiv> 128"
abbreviation IPPROTO_TCP :: u8 where "IPPROTO_TCP \<equiv> 6"

datatype tcp_state = TCP_CLOSED | TCP_LISTEN | TCP_SYN_SENT | TCP_SYN_RECEIVED | TCP_ESTABLISHED
  | TCP_FIN_WAIT_1 | TCP_FIN_WAIT_2 | TCP_CLOSE_WAIT | TCP_CLOSING | TCP_LAST_ACK | TCP_TIME_WAIT

record rexmit =
  re_start :: u32
  re_end :: u32
  re_data :: "u8 list option"
  re_len :: nat
  re_flags :: u8

record tcb =
  tc_local_ip :: u32
  tc_local_port :: u16
  tc_remote_ip :: u32
  tc_remote_port :: u16
  tc_state :: tcp_state
  tc_lock :: bool
  tc_snd_una :: u32
  tc_snd_nxt :: u32
  tc_snd_wnd :: u32
  tc_iss :: u32
  tc_rcv_nxt :: u32
  tc_rcv_wnd :: u32
  tc_irs :: u32
  tc_snd_mss :: u16
  tc_rcv_mss :: u16
  tc_rx_buf :: "u8 list"
  tc_rx_head :: u32
  tc_rx_tail :: u32
  tc_rx_size :: u32
  tc_tx_buf :: "u8 list"
  tc_tx_head :: u32
  tc_tx_tail :: u32
  tc_tx_size :: u32
  tc_rexmit :: "rexmit list"
  tc_rexmit_timer :: "u64 option"
  tc_delack_timer :: "u64 option"
  tc_timewait_timer :: "u64 option"
  tc_rto :: u32
  tc_accept_queue :: "nat list"
  tc_accept_head :: nat
  tc_accept_tail :: nat
  tc_backlog :: int
  tc_listener :: "nat option"
  tc_dev :: netdev
  tc_fin_sent :: bool
  tc_fin_received :: bool
  tc_delack_pending :: bool
  tc_user_closed :: bool
  tc_so_error :: int
  tc_socket :: "nat option"
  tc_active :: bool

record tcp =
  tp_tcbs :: "tcb list"
  tp_eph :: u16
  tp_isn :: u32
  tp_net :: net

text \<open>The NULL device of a fresh block, and a block of zero bytes.\<close>

definition netdev_none :: netdev where
  "netdev_none = \<lparr>nd_id = 0, nd_send = None, nd_mac = [], nd_ip = 0, nd_netmask = 0, nd_gateway = 0\<rparr>"

definition tcb_zero :: tcb where
  "tcb_zero = \<lparr>tc_local_ip = 0, tc_local_port = 0, tc_remote_ip = 0, tc_remote_port = 0, tc_state = TCP_CLOSED,
     tc_lock = False, tc_snd_una = 0, tc_snd_nxt = 0, tc_snd_wnd = 0, tc_iss = 0, tc_rcv_nxt = 0, tc_rcv_wnd = 0,
     tc_irs = 0, tc_snd_mss = 0, tc_rcv_mss = 0, tc_rx_buf = [], tc_rx_head = 0, tc_rx_tail = 0, tc_rx_size = 0,
     tc_tx_buf = [], tc_tx_head = 0, tc_tx_tail = 0, tc_tx_size = 0, tc_rexmit = [], tc_rexmit_timer = None,
     tc_delack_timer = None, tc_timewait_timer = None, tc_rto = 0, tc_accept_queue = replicate SOMAXCONN 0,
     tc_accept_head = 0, tc_accept_tail = 0, tc_backlog = 0, tc_listener = None, tc_dev = netdev_none,
     tc_fin_sent = False, tc_fin_received = False, tc_delack_pending = False, tc_user_closed = False,
     tc_so_error = 0, tc_socket = None, tc_active = False\<rparr>"

definition tcp_init :: "tcp \<Rightarrow> tcp" where
  "tcp_init s = s\<lparr>tp_tcbs := replicate TCP_MAX_TCB tcb_zero\<rparr>"

definition tcp_generate_isn :: "tcp \<Rightarrow> tcp \<times> u32" where
  "tcp_generate_isn s = (s\<lparr>tp_isn := tp_isn s + 64000\<rparr>, tp_isn s)"

definition tcb_at :: "nat \<Rightarrow> tcp \<Rightarrow> tcb" where "tcb_at i s = tp_tcbs s ! i"

definition upd_tcb :: "nat \<Rightarrow> tcb \<Rightarrow> tcp \<Rightarrow> tcp" where
  "upd_tcb i t s = s\<lparr>tp_tcbs := (tp_tcbs s)[i := t]\<rparr>"

section \<open>Sequence numbers and rings\<close>

definition tcp_seq_diff :: "u32 \<Rightarrow> u32 \<Rightarrow> int" where "tcp_seq_diff a b = sint (a - b)"
definition tcp_seq_lt :: "u32 \<Rightarrow> u32 \<Rightarrow> bool" where "tcp_seq_lt a b \<longleftrightarrow> tcp_seq_diff a b < 0"
definition tcp_seq_le :: "u32 \<Rightarrow> u32 \<Rightarrow> bool" where "tcp_seq_le a b \<longleftrightarrow> tcp_seq_diff a b \<le> 0"
definition tcp_seq_gt :: "u32 \<Rightarrow> u32 \<Rightarrow> bool" where "tcp_seq_gt a b \<longleftrightarrow> tcp_seq_diff a b > 0"
definition tcp_seq_ge :: "u32 \<Rightarrow> u32 \<Rightarrow> bool" where "tcp_seq_ge a b \<longleftrightarrow> tcp_seq_diff a b \<ge> 0"

definition tcp_rx_available :: "tcb \<Rightarrow> u32" where
  "tcp_rx_available t = (tc_rx_head t - tc_rx_tail t) mod tc_rx_size t"

definition tcp_rx_free :: "tcb \<Rightarrow> u32" where
  "tcp_rx_free t = tc_rx_size t - 1 - tcp_rx_available t"

section \<open>Table\<close>

fun tcb_free_slot :: "tcb list \<Rightarrow> nat \<Rightarrow> nat option" where
  "tcb_free_slot [] i = None"
| "tcb_free_slot (t # ts) i = (if \<not> tc_active t then Some i else tcb_free_slot ts (i + 1))"

definition tcp_tcb_alloc :: "tcp \<Rightarrow> tcp \<times> nat option" where
  "tcp_tcb_alloc s =
     (case tcb_free_slot (tp_tcbs s) 0 of
        None \<Rightarrow> (s, None)
      | Some i \<Rightarrow>
          let (s, isn) = tcp_generate_isn s;
              t = tcb_zero\<lparr>tc_active := True, tc_state := TCP_CLOSED, tc_rto := 1000, tc_rcv_mss := of_nat TCP_MSS_DEFAULT,
                    tc_snd_mss := of_nat TCP_MSS_DEFAULT, tc_rcv_wnd := of_nat TCP_BUFSZ, tc_iss := isn\<rparr>;
              (ok1, n) = net_kmalloc (tp_net s);
              (ok2, n) = net_kmalloc n;
              s = s\<lparr>tp_net := n\<rparr>;
              t = t\<lparr>tc_rx_size := of_nat TCP_BUFSZ, tc_tx_size := of_nat TCP_BUFSZ\<rparr>
          in if \<not> ok1 \<or> \<not> ok2 then (upd_tcb i (t\<lparr>tc_active := False\<rparr>) s, None)
             else (upd_tcb i (t\<lparr>tc_rx_buf := replicate TCP_BUFSZ 0, tc_tx_buf := replicate TCP_BUFSZ 0\<rparr>) s, Some i))"

text \<open>\<^verbatim>\<open>tcp_tcb_free\<close> takes the block's lock first.\<close>

definition tcb_release :: "tcb \<Rightarrow> tcb" where
  "tcb_release t = t\<lparr>tc_rexmit_timer := None, tc_delack_timer := None, tc_timewait_timer := None, tc_rexmit := [],
     tc_rx_buf := [], tc_tx_buf := [], tc_state := TCP_CLOSED, tc_active := False\<rparr>"

definition tcp_tcb_free :: "nat \<Rightarrow> tcp \<Rightarrow> tcp option" where
  "tcp_tcb_free i s = (if tc_lock (tcb_at i s) then None else Some (upd_tcb i (tcb_release (tcb_at i s)) s))"

definition tcb_match :: "u32 \<Rightarrow> u16 \<Rightarrow> u32 \<Rightarrow> u16 \<Rightarrow> tcb \<Rightarrow> bool" where
  "tcb_match local_ip local_port remote_ip remote_port t \<longleftrightarrow>
     tc_active t \<and> tc_local_port t = local_port \<and> tc_remote_port t = remote_port \<and>
     (tc_local_ip t = 0 \<or> tc_local_ip t = local_ip) \<and> tc_remote_ip t = remote_ip"

fun tcb_search :: "(tcb \<Rightarrow> bool) \<Rightarrow> tcb list \<Rightarrow> nat \<Rightarrow> nat option" where
  "tcb_search P [] i = None"
| "tcb_search P (t # ts) i = (if P t then Some i else tcb_search P ts (i + 1))"

definition tcp_tcb_lookup :: "u32 \<Rightarrow> u16 \<Rightarrow> u32 \<Rightarrow> u16 \<Rightarrow> tcp \<Rightarrow> nat option" where
  "tcp_tcb_lookup local_ip local_port remote_ip remote_port s =
     tcb_search (tcb_match local_ip local_port remote_ip remote_port) (tp_tcbs s) 0"

definition tcp_tcb_lookup_listen :: "u16 \<Rightarrow> tcp \<Rightarrow> nat option" where
  "tcp_tcb_lookup_listen local_port s =
     tcb_search (\<lambda>t. tc_active t \<and> tc_state t = TCP_LISTEN \<and> tc_local_port t = local_port) (tp_tcbs s) 0"

definition tcp_alloc_ephemeral :: "tcp \<Rightarrow> tcp \<times> u16" where
  "tcp_alloc_ephemeral s =
     (let used = (\<lambda>p. list_ex (\<lambda>t. tc_active t \<and> tc_local_port t = p) (tp_tcbs s));
          (nxt, port) = eph_scan used (tp_eph s) (tp_eph s)
      in (s\<lparr>tp_eph := nxt\<rparr>, port))"

section \<open>Timers\<close>

definition tcp_rexmit_timer_reset :: "u64 \<Rightarrow> tcb \<Rightarrow> tcb" where
  "tcp_rexmit_timer_reset now t = t\<lparr>tc_rexmit_timer := Some (now + ucast (tc_rto t))\<rparr>"

definition tcp_rexmit_timer_stop :: "tcb \<Rightarrow> tcb" where
  "tcp_rexmit_timer_stop t = t\<lparr>tc_rexmit_timer := None\<rparr>"

definition tcp_delack_schedule :: "u64 \<Rightarrow> tcb \<Rightarrow> tcb" where
  "tcp_delack_schedule now t =
     (if \<not> tc_delack_pending t then t\<lparr>tc_delack_pending := True, tc_delack_timer := Some (now + 40)\<rparr> else t)"

definition tcp_timewait_start :: "u64 \<Rightarrow> tcb \<Rightarrow> tcb" where
  "tcp_timewait_start now t = t\<lparr>tc_timewait_timer := Some (now + 60000)\<rparr>"

section \<open>Retransmit queue\<close>

definition seq_consumed :: "u8 \<Rightarrow> nat \<Rightarrow> u32" where
  "seq_consumed flags len =
     (let c = of_nat len;
          c = (if flags AND TCP_SYN \<noteq> 0 then c + 1 else c)
      in if flags AND TCP_FIN \<noteq> 0 then c + 1 else c)"

definition tcp_rexmit_enqueue :: "u32 \<Rightarrow> u8 list option \<Rightarrow> nat \<Rightarrow> u8 \<Rightarrow> tcb \<times> net \<Rightarrow> tcb \<times> net" where
  "tcp_rexmit_enqueue sq data len flags tn =
     (let (t, n) = tn; (ok, n) = net_kmalloc n
      in if \<not> ok then (t, n)
         else
           let (d, n) = (if len > 0
                         then let (ok, n) = net_kmalloc n in (if ok then map_option (take len) data else None, n)
                         else (None, n));
               ent = \<lparr>re_start = sq, re_end = sq + seq_consumed flags len, re_data = d,
                      re_len = (if len > 0 then len else 0), re_flags = flags\<rparr>
           in (t\<lparr>tc_rexmit := tc_rexmit t @ [ent]\<rparr>, n))"

fun rexmit_drop :: "u32 \<Rightarrow> rexmit list \<Rightarrow> rexmit list" where
  "rexmit_drop ack [] = []"
| "rexmit_drop ack (e # es) = (if tcp_seq_le (re_end e) ack then rexmit_drop ack es else e # es)"

definition tcp_rexmit_ack :: "u32 \<Rightarrow> tcb \<Rightarrow> tcb" where
  "tcp_rexmit_ack ack t =
     (let t = t\<lparr>tc_rexmit := rexmit_drop ack (tc_rexmit t)\<rparr>
      in if tc_rexmit t = [] then tcp_rexmit_timer_stop t else t)"

definition tcp_rexmit_purge :: "tcb \<Rightarrow> tcb" where
  "tcp_rexmit_purge t = t\<lparr>tc_rexmit := []\<rparr>"

section \<open>Segments\<close>

definition tcp_header :: "u16 \<Rightarrow> u16 \<Rightarrow> u32 \<Rightarrow> u32 \<Rightarrow> u8 \<Rightarrow> u8 \<Rightarrow> u16 \<Rightarrow> u16 \<Rightarrow> u8 list" where
  "tcp_header src_port dst_port sq ack data_off flags window csum =
     u16_bytes (htons src_port) @ u16_bytes (htons dst_port) @ u32_bytes (htonl sq) @ u32_bytes (htonl ack) @
     [data_off, flags] @ u16_bytes (htons window) @ u16_bytes csum @ u16_bytes 0"

definition TCP_DATA_OFF :: "nat \<Rightarrow> u8" where "TCP_DATA_OFF len = push_bit 4 (of_nat (len div 4))"
definition TCP_HDR_LEN :: "u8 \<Rightarrow> nat" where "TCP_HDR_LEN data_off = unat (drop_bit 4 data_off) * 4"

definition tcp_checksum :: "u32 \<Rightarrow> u32 \<Rightarrow> u8 list \<Rightarrow> u16" where
  "tcp_checksum src_ip dst_ip seg =
     inet_checksum_fold (inet_checksum_partial (pseudo_header src_ip dst_ip IPPROTO_TCP (of_nat (length seg))) +
       inet_checksum_partial seg)"

definition adv_window :: "tcb \<Rightarrow> u16" where
  "adv_window t = (if tc_rcv_wnd t < 65535 then ucast (tc_rcv_wnd t) else 65535)"

definition mss_option :: "tcb \<Rightarrow> u8 list" where
  "mss_option t = [2, 4, ucast (drop_bit 8 (tc_rcv_mss t) AND 0xFF), ucast (tc_rcv_mss t AND 0xFF)]"

text \<open>The steps the three senders share: a buffer with room for the lower headers, the
  header and options, the payload, and the checksum over all of it.\<close>

definition tcp_fill :: "u32 \<Rightarrow> u32 \<Rightarrow> u8 list \<Rightarrow> u8 list option \<Rightarrow> nat \<Rightarrow> skbuff \<Rightarrow> skbuff" where
  "tcp_fill src_ip dst_ip hdr data len skb =
     (let (skb, buf) = skb_put (length hdr + len) (skb_reserve 128 skb);
          skb = skb_write buf hdr skb;
          skb = (case data of
                   Some d \<Rightarrow> if len > 0 then skb_write (buf + int (length hdr)) (take len d) skb else skb
                 | None \<Rightarrow> skb);
          skb = skb_write (buf + 16) (u16_bytes (tcp_checksum src_ip dst_ip (skb_bytes skb))) skb
      in skb\<lparr>sk_protocol := ucast IPPROTO_TCP\<rparr>)"

definition tcp_send_segment :: "(nat \<Rightarrow> net \<Rightarrow> net) \<Rightarrow> (nat \<Rightarrow> u8) \<Rightarrow> u8 \<Rightarrow> u8 list option \<Rightarrow> nat \<Rightarrow> tcb \<times> net \<Rightarrow>
    (tcb \<times> net) \<times> int" where
  "tcp_send_segment env g flags data len tn =
     (let (t, n) = tn;
          opts = (if flags AND TCP_SYN \<noteq> 0 then mss_option t else []);
          hdr = tcp_header (tc_local_port t) (tc_remote_port t) (tc_snd_nxt t) (tc_rcv_nxt t)
                  (TCP_DATA_OFF (20 + length opts)) flags (adv_window t) 0 @ opts
      in case net_skb_alloc g (length hdr + len + 128) n of
           (None, n) \<Rightarrow> ((t, n), - 1)
         | (Some skb, n) \<Rightarrow>
             let skb = tcp_fill (tc_local_ip t) (tc_remote_ip t) hdr data len skb;
                 sq = tc_snd_nxt t;
                 t = t\<lparr>tc_snd_nxt := sq + seq_consumed flags len\<rparr>;
                 (t, n) = (if seq_consumed flags len > 0 then tcp_rexmit_enqueue sq data len flags (t, n) else (t, n));
                 (n, rc) = ip_tx env g (tc_dev t) skb (tc_local_ip t) (tc_remote_ip t) IPPROTO_TCP n
             in ((t, n), rc))"

definition tcp_send_rst :: "(nat \<Rightarrow> net \<Rightarrow> net) \<Rightarrow> (nat \<Rightarrow> u8) \<Rightarrow> netdev \<Rightarrow> u32 \<Rightarrow> u16 \<Rightarrow> u16 \<Rightarrow> u32 \<Rightarrow> u32 \<Rightarrow> net \<Rightarrow>
    net \<times> int" where
  "tcp_send_rst env g dev dst_ip src_port dst_port sq ack n =
     (case net_skb_alloc g (20 + 128) n of
        (None, n) \<Rightarrow> (n, - 1)
      | (Some skb, n) \<Rightarrow>
          let skb = tcp_fill (nd_ip dev) dst_ip
                (tcp_header src_port dst_port sq ack (TCP_DATA_OFF 20) (TCP_RST OR TCP_ACK) 0 0) None 0 skb
          in ip_tx env g dev skb (nd_ip dev) dst_ip IPPROTO_TCP n)"

definition tcp_send_ack :: "(nat \<Rightarrow> net \<Rightarrow> net) \<Rightarrow> (nat \<Rightarrow> u8) \<Rightarrow> tcb \<times> net \<Rightarrow> tcb \<times> net" where
  "tcp_send_ack env g tn =
     (let (t, n) = tn in
      case net_skb_alloc g (20 + 128) n of
        (None, n) \<Rightarrow> (t, n)
      | (Some skb, n) \<Rightarrow>
          let skb = tcp_fill (tc_local_ip t) (tc_remote_ip t)
                (tcp_header (tc_local_port t) (tc_remote_port t) (tc_snd_nxt t) (tc_rcv_nxt t) (TCP_DATA_OFF 20)
                   TCP_ACK (adv_window t) 0) None 0 skb;
              (n, rc) = ip_tx env g (tc_dev t) skb (tc_local_ip t) (tc_remote_ip t) IPPROTO_TCP n
          in (t\<lparr>tc_delack_pending := False, tc_delack_timer := None\<rparr>, n))"

section \<open>Output\<close>

definition tx_pending :: "tcb \<Rightarrow> u32" where
  "tx_pending t = (if tc_tx_head t \<ge> tc_tx_tail t then tc_tx_head t - tc_tx_tail t
                   else tc_tx_size t - tc_tx_tail t + tc_tx_head t)"

definition tx_usable :: "tcb \<Rightarrow> u32" where
  "tx_usable t = (let in_flight = tc_snd_nxt t - tc_snd_una t
                  in if tc_snd_wnd t > in_flight then tc_snd_wnd t - in_flight else 0)"

definition tx_chunk :: "tcb \<Rightarrow> u32" where
  "tx_chunk t =
     (let chunk = tx_pending t;
          chunk = (if chunk > ucast (tc_snd_mss t) then ucast (tc_snd_mss t) else chunk)
      in if chunk > tx_usable t then tx_usable t else chunk)"

definition tx_copy :: "tcb \<Rightarrow> nat \<Rightarrow> u8 list" where
  "tx_copy t chunk = map (\<lambda>i. tc_tx_buf t ! unat ((tc_tx_tail t + of_nat i) mod tc_tx_size t)) [0..<chunk]"

text \<open>The segment is copied to \<^verbatim>\<open>seg_data\<close>, an array of \<^verbatim>\<open>TCP_MSS_DEFAULT\<close> bytes on the
  stack; a longer chunk overruns it.\<close>

datatype out_result = OutOverrun | OutDone "tcb \<times> net" int

partial_function (option) tcp_output_loop ::
    "(nat \<Rightarrow> net \<Rightarrow> net) \<Rightarrow> (nat \<Rightarrow> u8) \<Rightarrow> tcb \<times> net \<Rightarrow> int \<Rightarrow> out_result option" where
  "tcp_output_loop env g tn sent =
     (let (t, n) = tn in
      if tc_tx_tail t = tc_tx_head t \<or> tx_pending t = 0 \<or> tx_usable t = 0 then Some (OutDone (t, n) sent)
      else
        let chunk = unat (tx_chunk t) in
        if chunk > TCP_MSS_DEFAULT then Some OutOverrun
        else
          let ((t, n), rc) = tcp_send_segment env g (TCP_ACK OR TCP_PSH) (Some (tx_copy t chunk)) chunk (t, n)
          in if rc < 0 then Some (OutDone (t, n) sent)
             else
               let t = t\<lparr>tc_tx_tail := (tc_tx_tail t + of_nat chunk) mod tc_tx_size t\<rparr>
               in tcp_output_loop env g (tcp_rexmit_timer_reset (n_ticks n) t, n) (sent + int chunk))"

definition tcp_output :: "(nat \<Rightarrow> net \<Rightarrow> net) \<Rightarrow> (nat \<Rightarrow> u8) \<Rightarrow> tcb \<times> net \<Rightarrow> out_result option" where
  "tcp_output env g tn =
     (if tc_state (fst tn) \<noteq> TCP_ESTABLISHED \<and> tc_state (fst tn) \<noteq> TCP_CLOSE_WAIT then Some (OutDone tn 0)
      else tcp_output_loop env g tn 0)"

section \<open>Receive ring\<close>

definition rx_put :: "u8 \<Rightarrow> tcb \<Rightarrow> tcb \<times> bool" where
  "rx_put b t =
     (let next_head = (tc_rx_head t + 1) mod tc_rx_size t
      in if next_head = tc_rx_tail t then (t, False)
         else (t\<lparr>tc_rx_buf := (tc_rx_buf t)[unat (tc_rx_head t) := b], tc_rx_head := next_head\<rparr>, True))"

fun deliver_loop :: "u8 list \<Rightarrow> tcb \<Rightarrow> tcb" where
  "deliver_loop [] t = t"
| "deliver_loop (b # bs) t = (case rx_put b t of (t, True) \<Rightarrow> deliver_loop bs t | (t, False) \<Rightarrow> t)"

definition tcp_deliver_data :: "u8 list \<Rightarrow> tcb \<Rightarrow> tcb" where
  "tcp_deliver_data data t =
     (let t = deliver_loop data t;
          t = t\<lparr>tc_rcv_nxt := tc_rcv_nxt t + of_nat (length data)\<rparr>
      in t\<lparr>tc_rcv_wnd := tcp_rx_free t\<rparr>)"

section \<open>Input\<close>

text \<open>A parsed segment.\<close>

record tcp_seg =
  sg_src_ip :: u32
  sg_src_port :: u16
  sg_dst_port :: u16
  sg_seq :: u32
  sg_ack :: u32
  sg_flags :: u8
  sg_window :: u16
  sg_opts :: "u8 list"
  sg_data :: "u8 list"

definition tcp_parse :: "skbuff \<Rightarrow> tcp_seg option" where
  "tcp_parse skb =
     (if sk_len skb < 20 then None
      else
        let b = skb_bytes skb; hdr_len = TCP_HDR_LEN (b ! 12)
        in if hdr_len < 20 \<or> int hdr_len > sk_len skb then None
           else if tcp_checksum (sk_src_ip skb) (sk_dst_ip skb) b \<noteq> 0 then None
           else Some \<lparr>sg_src_ip = sk_src_ip skb, sg_src_port = ntohs (get16 b 0), sg_dst_port = ntohs (get16 b 2),
                  sg_seq = ntohl (get32 b 4), sg_ack = ntohl (get32 b 8), sg_flags = b ! 13,
                  sg_window = ntohs (get16 b 14), sg_opts = drop 20 (take hdr_len b), sg_data = drop hdr_len b\<rparr>)"

function parse_mss :: "u8 list \<Rightarrow> u16 \<Rightarrow> u16" where
  "parse_mss [] m = m"
| "parse_mss (k # rest) m =
     (if k = 0 then m
      else if k = 1 then parse_mss rest m
      else case rest of
             [] \<Rightarrow> m
           | olen # _ \<Rightarrow>
               if unat olen < 2 \<or> unat olen > length (k # rest) then m
               else
                 let m' = (if k = 2 \<and> olen = 4
                           then let v = push_bit 8 (ucast ((k # rest) ! 2)) OR ucast ((k # rest) ! 3)
                                in if v < 536 then 536 else v
                           else m)
                 in parse_mss (drop (unat olen) (k # rest)) m')"
  by pat_completeness auto
termination by (relation "measure (\<lambda>(o1, m). length o1)") auto

definition on_tcb :: "nat \<Rightarrow> (tcb \<times> net \<Rightarrow> tcb \<times> net) \<Rightarrow> tcp \<Rightarrow> tcp" where
  "on_tcb i f s = (let (t, n) = f (tcb_at i s, tp_net s) in (upd_tcb i t s)\<lparr>tp_net := n\<rparr>)"

definition set_lock :: "nat \<Rightarrow> bool \<Rightarrow> tcp \<Rightarrow> tcp" where
  "set_lock i b s = upd_tcb i ((tcb_at i s)\<lparr>tc_lock := b\<rparr>) s"

definition tcp_accept_enqueue :: "nat \<Rightarrow> nat \<Rightarrow> tcp \<Rightarrow> tcp option" where
  "tcp_accept_enqueue listener child s =
     (let l = tcb_at listener s; nxt = (tc_accept_head l + 1) mod SOMAXCONN
      in if nxt = tc_accept_tail l then tcp_tcb_free child s
         else Some (upd_tcb listener (l\<lparr>tc_accept_queue := (tc_accept_queue l)[tc_accept_head l := child],
                tc_accept_head := nxt\<rparr>) s))"

definition tcp_handle_syn :: "(nat \<Rightarrow> net \<Rightarrow> net) \<Rightarrow> (nat \<Rightarrow> u8) \<Rightarrow> netdev \<Rightarrow> nat \<Rightarrow> tcp_seg \<Rightarrow> tcp \<Rightarrow> tcp" where
  "tcp_handle_syn env g dev listener seg s =
     (case tcp_tcb_alloc s of
        (s, None) \<Rightarrow> s
      | (s, Some i) \<Rightarrow>
          let c = tcb_at i s;
              c = c\<lparr>tc_local_ip := nd_ip dev, tc_local_port := tc_local_port (tcb_at listener s),
                    tc_remote_ip := sg_src_ip seg, tc_remote_port := sg_src_port seg, tc_dev := dev,
                    tc_listener := Some listener, tc_irs := sg_seq seg, tc_rcv_nxt := sg_seq seg + 1,
                    tc_snd_nxt := tc_iss c, tc_snd_una := tc_iss c, tc_snd_wnd := ucast (sg_window seg),
                    tc_snd_mss := parse_mss (sg_opts seg) (tc_snd_mss c), tc_state := TCP_SYN_RECEIVED\<rparr>;
              s = upd_tcb i c s
          in on_tcb i (\<lambda>tn. let ((t, n), rc) = tcp_send_segment env g (TCP_SYN OR TCP_ACK) None 0 tn
                            in (tcp_rexmit_timer_reset (n_ticks n) t, n)) s)"

definition rst_reply :: "(nat \<Rightarrow> net \<Rightarrow> net) \<Rightarrow> (nat \<Rightarrow> u8) \<Rightarrow> netdev \<Rightarrow> tcp_seg \<Rightarrow> tcp \<Rightarrow> tcp" where
  "rst_reply env g dev seg s =
     (if sg_flags seg AND TCP_RST \<noteq> 0 then s
      else
        let (rst_seq, rst_ack) =
              (if sg_flags seg AND TCP_ACK \<noteq> 0 then (sg_ack seg, 0)
               else (0, sg_seq seg + seq_consumed (sg_flags seg) (length (sg_data seg))))
        in s\<lparr>tp_net := fst (tcp_send_rst env g dev (sg_src_ip seg) (sg_dst_port seg) (sg_src_port seg)
               rst_seq rst_ack (tp_net s))\<rparr>)"

definition rx_rst :: "tcb \<Rightarrow> tcb" where
  "rx_rst t = t\<lparr>tc_so_error := - ECONNRESET, tc_state := TCP_CLOSED\<rparr>"

definition rx_syn_sent :: "(nat \<Rightarrow> net \<Rightarrow> net) \<Rightarrow> (nat \<Rightarrow> u8) \<Rightarrow> netdev \<Rightarrow> tcp_seg \<Rightarrow> tcb \<times> net \<Rightarrow> tcb \<times> net" where
  "rx_syn_sent env g dev seg tn =
     (let (t, n) = tn in
      if sg_flags seg AND (TCP_SYN OR TCP_ACK) = TCP_SYN OR TCP_ACK then
        if sg_ack seg \<noteq> tc_snd_nxt t
        then (t, fst (tcp_send_rst env g dev (sg_src_ip seg) (sg_dst_port seg) (sg_src_port seg) (sg_ack seg) 0 n))
        else
          let t = t\<lparr>tc_irs := sg_seq seg, tc_rcv_nxt := sg_seq seg + 1, tc_snd_una := sg_ack seg,
                    tc_snd_wnd := ucast (sg_window seg), tc_snd_mss := parse_mss (sg_opts seg) (tc_snd_mss t)\<rparr>;
              t = tcp_rexmit_ack (sg_ack seg) t;
              t = t\<lparr>tc_state := TCP_ESTABLISHED\<rparr>
          in tcp_send_ack env g (t, n)
      else (t, n))"

definition rx_syn_received :: "nat \<Rightarrow> tcp_seg \<Rightarrow> tcp \<Rightarrow> tcp option" where
  "rx_syn_received i seg s =
     (let t = tcb_at i s in
      if sg_flags seg AND TCP_ACK \<noteq> 0 \<and> sg_ack seg = tc_snd_nxt t then
        let t = tcp_rexmit_ack (sg_ack seg) (t\<lparr>tc_snd_una := sg_ack seg\<rparr>);
            s = upd_tcb i (t\<lparr>tc_state := TCP_ESTABLISHED\<rparr>) s
        in (case tc_listener t of Some l \<Rightarrow> tcp_accept_enqueue l i s | None \<Rightarrow> Some s)
      else Some s)"

text \<open>The four states that exchange data.\<close>

definition rx_ack :: "tcp_seg \<Rightarrow> tcb \<Rightarrow> tcb" where
  "rx_ack seg t =
     (let t = (if sg_flags seg AND TCP_ACK \<noteq> 0 \<and> tcp_seq_gt (sg_ack seg) (tc_snd_una t) \<and>
                  tcp_seq_le (sg_ack seg) (tc_snd_nxt t)
               then (tcp_rexmit_ack (sg_ack seg) (t\<lparr>tc_snd_una := sg_ack seg\<rparr>))\<lparr>tc_snd_wnd := ucast (sg_window seg)\<rparr>
               else t)
      in if tc_state t = TCP_FIN_WAIT_1 \<and> tc_snd_una t = tc_snd_nxt t then t\<lparr>tc_state := TCP_FIN_WAIT_2\<rparr> else t)"

definition rx_fin :: "(nat \<Rightarrow> net \<Rightarrow> net) \<Rightarrow> (nat \<Rightarrow> u8) \<Rightarrow> tcb \<times> net \<Rightarrow> tcb \<times> net" where
  "rx_fin env g tn =
     (let (t, n) = tn;
          (t, n) = tcp_send_ack env g (t\<lparr>tc_rcv_nxt := tc_rcv_nxt t + 1, tc_fin_received := True\<rparr>, n)
      in case tc_state t of
           TCP_ESTABLISHED \<Rightarrow> (t\<lparr>tc_state := TCP_CLOSE_WAIT\<rparr>, n)
         | TCP_FIN_WAIT_1 \<Rightarrow> (t\<lparr>tc_state := TCP_CLOSING\<rparr>, n)
         | TCP_FIN_WAIT_2 \<Rightarrow> (tcp_timewait_start (n_ticks n) (t\<lparr>tc_state := TCP_TIME_WAIT\<rparr>), n)
         | _ \<Rightarrow> (t, n))"

definition rx_data :: "(nat \<Rightarrow> net \<Rightarrow> net) \<Rightarrow> (nat \<Rightarrow> u8) \<Rightarrow> tcp_seg \<Rightarrow> tcb \<times> net \<Rightarrow> tcb \<times> net" where
  "rx_data env g seg tn =
     (let (t, n) = tn; t = rx_ack seg t; fin = (sg_flags seg AND TCP_FIN \<noteq> 0)
      in if (sg_data seg \<noteq> [] \<or> fin) \<and> sg_seq seg \<noteq> tc_rcv_nxt t then tcp_send_ack env g (t, n)
         else
           let t = (if sg_data seg \<noteq> [] then tcp_delack_schedule (n_ticks n) (tcp_deliver_data (sg_data seg) t) else t)
           in if fin then rx_fin env g (t, n) else (t, n))"

definition rx_closing :: "tcp_seg \<Rightarrow> tcb \<times> net \<Rightarrow> tcb \<times> net" where
  "rx_closing seg tn =
     (let (t, n) = tn in
      if sg_flags seg AND TCP_ACK \<noteq> 0 \<and> tc_snd_una t = tc_snd_nxt t
      then (tcp_timewait_start (n_ticks n) (t\<lparr>tc_state := TCP_TIME_WAIT\<rparr>), n) else (t, n))"

definition rx_time_wait :: "(nat \<Rightarrow> net \<Rightarrow> net) \<Rightarrow> (nat \<Rightarrow> u8) \<Rightarrow> tcb \<times> net \<Rightarrow> tcb \<times> net" where
  "rx_time_wait env g tn = (let (t, n) = tcp_send_ack env g tn in (tcp_timewait_start (n_ticks n) t, n))"

definition rx_last_ack :: "nat \<Rightarrow> tcp_seg \<Rightarrow> tcp \<Rightarrow> tcp option" where
  "rx_last_ack i seg s =
     (let t = tcb_at i s in
      if sg_flags seg AND TCP_ACK \<noteq> 0 \<and> tc_snd_una t = tc_snd_nxt t
      then tcp_tcb_free i (set_lock i False (upd_tcb i (t\<lparr>tc_state := TCP_CLOSED\<rparr>) s)) else Some s)"

definition rx_dispatch :: "(nat \<Rightarrow> net \<Rightarrow> net) \<Rightarrow> (nat \<Rightarrow> u8) \<Rightarrow> netdev \<Rightarrow> tcp_seg \<Rightarrow> nat \<Rightarrow> tcp \<Rightarrow> tcp option" where
  "rx_dispatch env g dev seg i s =
     (case tc_state (tcb_at i s) of
        TCP_SYN_SENT \<Rightarrow> Some (on_tcb i (rx_syn_sent env g dev seg) s)
      | TCP_SYN_RECEIVED \<Rightarrow> rx_syn_received i seg s
      | TCP_ESTABLISHED \<Rightarrow> Some (on_tcb i (rx_data env g seg) s)
      | TCP_FIN_WAIT_1 \<Rightarrow> Some (on_tcb i (rx_data env g seg) s)
      | TCP_FIN_WAIT_2 \<Rightarrow> Some (on_tcb i (rx_data env g seg) s)
      | TCP_CLOSE_WAIT \<Rightarrow> Some (on_tcb i (rx_data env g seg) s)
      | TCP_CLOSING \<Rightarrow> Some (on_tcb i (rx_closing seg) s)
      | TCP_LAST_ACK \<Rightarrow> rx_last_ack i seg s
      | TCP_TIME_WAIT \<Rightarrow> Some (on_tcb i (rx_time_wait env g) s)
      | _ \<Rightarrow> Some s)"

definition tcp_rx_seg :: "(nat \<Rightarrow> net \<Rightarrow> net) \<Rightarrow> (nat \<Rightarrow> u8) \<Rightarrow> netdev \<Rightarrow> tcp_seg \<Rightarrow> tcp \<Rightarrow> tcp option" where
  "tcp_rx_seg env g dev seg s =
     (case tcp_tcb_lookup (nd_ip dev) (sg_dst_port seg) (sg_src_ip seg) (sg_src_port seg) s of
        None \<Rightarrow>
          (case tcp_tcb_lookup_listen (sg_dst_port seg) s of
             Some l \<Rightarrow> if sg_flags seg AND TCP_SYN \<noteq> 0 \<and> sg_flags seg AND TCP_ACK = 0
                       then Some (tcp_handle_syn env g dev l seg s) else Some (rst_reply env g dev seg s)
           | None \<Rightarrow> Some (rst_reply env g dev seg s))
      | Some i \<Rightarrow>
          if tc_lock (tcb_at i s) then None
          else
            let s = set_lock i True s
            in if sg_flags seg AND TCP_RST \<noteq> 0
               then Some (set_lock i False (upd_tcb i (rx_rst (tcb_at i s)) s))
               else map_option (set_lock i False) (rx_dispatch env g dev seg i s))"

definition tcp_rx :: "(nat \<Rightarrow> net \<Rightarrow> net) \<Rightarrow> (nat \<Rightarrow> u8) \<Rightarrow> netdev \<Rightarrow> skbuff \<Rightarrow> tcp \<Rightarrow> tcp option" where
  "tcp_rx env g dev skb s = (case tcp_parse skb of None \<Rightarrow> Some s | Some seg \<Rightarrow> tcp_rx_seg env g dev seg s)"

section \<open>Timer callbacks\<close>

definition tcp_rexmit_timeout :: "tcb \<Rightarrow> tcb" where
  "tcp_rexmit_timeout t =
     (if tc_state t = TCP_CLOSED \<or> \<not> tc_active t then t
      else case tc_rexmit t of
             [] \<Rightarrow> t
           | _ \<Rightarrow> t\<lparr>tc_so_error := - ETIMEDOUT, tc_state := TCP_CLOSED\<rparr>)"

definition tcp_delack_timeout :: "(nat \<Rightarrow> net \<Rightarrow> net) \<Rightarrow> (nat \<Rightarrow> u8) \<Rightarrow> tcb \<times> net \<Rightarrow> tcb \<times> net" where
  "tcp_delack_timeout env g tn =
     (if tc_delack_pending (fst tn) \<and> tc_state (fst tn) \<noteq> TCP_CLOSED then tcp_send_ack env g tn else tn)"

definition tcp_timewait_timeout :: "nat \<Rightarrow> tcp \<Rightarrow> tcp option" where
  "tcp_timewait_timeout i s = tcp_tcb_free i s"

section \<open>Socket operations\<close>

definition tcp_sock_listen :: "netdev list \<Rightarrow> u32 \<Rightarrow> u16 \<Rightarrow> nat \<Rightarrow> int \<Rightarrow> tcp \<Rightarrow> tcp \<times> int" where
  "tcp_sock_listen devs local_ip local_port sk backlog s =
     (case tcp_tcb_alloc s of
        (s, None) \<Rightarrow> (s, - 1)
      | (s, Some i) \<Rightarrow>
          let t = (tcb_at i s)\<lparr>tc_local_ip := local_ip, tc_local_port := local_port, tc_state := TCP_LISTEN,
                    tc_backlog := (if backlog > 0 \<and> backlog \<le> int SOMAXCONN then backlog else int SOMAXCONN),
                    tc_socket := Some sk\<rparr>;
              t = (if local_ip = 0 then (case devs of [] \<Rightarrow> t | dev # _ \<Rightarrow> t\<lparr>tc_dev := dev\<rparr>)
                   else case ip_route local_ip devs of
                          Some (dev, nh) \<Rightarrow> t\<lparr>tc_dev := dev\<rparr> | None \<Rightarrow> t\<lparr>tc_dev := netdev_none\<rparr>)
          in (upd_tcb i t s, 0))"

text \<open>The loop of \<^verbatim>\<open>recv\<close> over the bytes that are there; \<open>None\<close> when the caller would wait
  or is told that nothing is available.\<close>

definition rx_get :: "tcb \<Rightarrow> tcb \<times> u8 option" where
  "rx_get t =
     (if tcp_rx_available t = 0 then (t, None)
      else (t\<lparr>tc_rx_tail := (tc_rx_tail t + 1) mod tc_rx_size t\<rparr>, Some (tc_rx_buf t ! unat (tc_rx_tail t))))"

fun recv_loop :: "nat \<Rightarrow> tcb \<Rightarrow> tcb \<times> u8 list" where
  "recv_loop 0 t = (t, [])"
| "recv_loop (Suc k) t =
     (case rx_get t of (t, None) \<Rightarrow> (t, []) | (t, Some b) \<Rightarrow> let (t, bs) = recv_loop k t in (t, b # bs))"

datatype recv_result = RecvEof | RecvBlocks | RecvData "u8 list"

definition tcp_sock_recvfrom :: "nat \<Rightarrow> tcb \<Rightarrow> tcb \<times> recv_result" where
  "tcp_sock_recvfrom len t =
     (if tcp_rx_available t = 0 then
        if tc_fin_received t \<or> tc_state t = TCP_CLOSE_WAIT \<or> tc_state t = TCP_CLOSED then (t, RecvEof) else (t, RecvBlocks)
      else
        let avail = unat (tcp_rx_available t); to_copy = (if len < avail then len else avail);
            (t, bs) = recv_loop to_copy t
        in (t\<lparr>tc_rcv_wnd := tcp_rx_free t\<rparr>, RecvData bs))"

definition tcp_sock_shutdown :: "(nat \<Rightarrow> net \<Rightarrow> net) \<Rightarrow> (nat \<Rightarrow> u8) \<Rightarrow> bool \<Rightarrow> tcb \<times> net \<Rightarrow> tcb \<times> net" where
  "tcp_sock_shutdown env g wr tn =
     (let (t, n) = tn in
      if wr \<and> \<not> tc_fin_sent t \<and> (tc_state t = TCP_ESTABLISHED \<or> tc_state t = TCP_CLOSE_WAIT) then
        let ((t, n), rc) = tcp_send_segment env g (TCP_FIN OR TCP_ACK) None 0
                             (t\<lparr>tc_fin_sent := True, tc_user_closed := True\<rparr>, n)
        in (if tc_state t = TCP_ESTABLISHED then t\<lparr>tc_state := TCP_FIN_WAIT_1\<rparr>
            else if tc_state t = TCP_CLOSE_WAIT then t\<lparr>tc_state := TCP_LAST_ACK\<rparr> else t, n)
      else (t, n))"

text \<open>\<^verbatim>\<open>connect\<close> up to the point where it waits for the answer to its SYN.\<close>

definition tcp_sock_connect :: "(nat \<Rightarrow> net \<Rightarrow> net) \<Rightarrow> (nat \<Rightarrow> u8) \<Rightarrow> netdev list \<Rightarrow> nat \<Rightarrow> u16 option \<Rightarrow> u32 \<Rightarrow> u16 \<Rightarrow>
    tcp \<Rightarrow> (tcp \<times> nat option) option" where
  "tcp_sock_connect env g devs sk bound dst_ip dst_port s =
     (case tcp_tcb_alloc s of
        (s, None) \<Rightarrow> Some (s, None)
      | (s, Some i) \<Rightarrow>
          (case ip_route dst_ip devs of
             None \<Rightarrow> map_option (\<lambda>s. (s, None)) (tcp_tcb_free i s)
           | Some (dev, nh) \<Rightarrow>
               let t = (tcb_at i s)\<lparr>tc_dev := dev, tc_local_ip := nd_ip dev, tc_remote_ip := dst_ip,
                         tc_remote_port := dst_port, tc_socket := Some sk\<rparr>;
                   s = upd_tcb i t s;
                   (s, port) = (case bound of None \<Rightarrow> tcp_alloc_ephemeral s | Some p \<Rightarrow> (s, p));
                   t = (tcb_at i s)\<lparr>tc_local_port := port\<rparr>;
                   t = t\<lparr>tc_snd_nxt := tc_iss t, tc_snd_una := tc_iss t, tc_state := TCP_SYN_SENT\<rparr>;
                   s = upd_tcb i t s
               in Some (on_tcb i (\<lambda>tn. let ((t, n), rc) = tcp_send_segment env g TCP_SYN None 0 tn
                                       in (tcp_rexmit_timer_reset (n_ticks n) t, n)) s, Some i)))"

text \<open>\<^verbatim>\<open>accept\<close> of a connection that is waiting in the queue.\<close>

definition tcp_accept_take :: "nat \<Rightarrow> tcp \<Rightarrow> (tcp \<times> nat) option" where
  "tcp_accept_take listener s =
     (let l = tcb_at listener s in
      if tc_state l \<noteq> TCP_LISTEN \<or> tc_accept_head l = tc_accept_tail l then None
      else Some (upd_tcb listener (l\<lparr>tc_accept_tail := (tc_accept_tail l + 1) mod SOMAXCONN\<rparr>) s,
                 tc_accept_queue l ! tc_accept_tail l))"

datatype send_result = SendRefused | SendFault | SendBlocks "tcb \<times> net" nat | SendDone "tcb \<times> net" nat

definition tx_full :: "tcb \<Rightarrow> bool" where
  "tx_full t \<longleftrightarrow> (tc_tx_head t + 1) mod tc_tx_size t = tc_tx_tail t"

definition tx_put :: "u8 \<Rightarrow> tcb \<Rightarrow> tcb" where
  "tx_put b t = t\<lparr>tc_tx_buf := (tc_tx_buf t)[unat (tc_tx_head t) := b],
     tc_tx_head := (tc_tx_head t + 1) mod tc_tx_size t\<rparr>"

text \<open>\<^verbatim>\<open>send\<close> copies into the ring, flushing when the ring is full; \<open>SendBlocks\<close> is the point
  where a blocking socket waits for room.  \<open>SendFault\<close> is the overrun of the output loop.\<close>

fun send_loop :: "(nat \<Rightarrow> net \<Rightarrow> net) \<Rightarrow> (nat \<Rightarrow> u8) \<Rightarrow> bool \<Rightarrow> u8 list \<Rightarrow> tcb \<times> net \<Rightarrow> nat \<Rightarrow> send_result option" where
  "send_loop env g nonblock [] tn written = Some (SendDone tn written)"
| "send_loop env g nonblock (b # bs) tn written =
     (if \<not> tx_full (fst tn) then send_loop env g nonblock bs (tx_put b (fst tn), snd tn) (written + 1)
      else case tcp_output env g tn of
             None \<Rightarrow> None
           | Some OutOverrun \<Rightarrow> Some SendFault
           | Some (OutDone tn sent) \<Rightarrow>
               if tx_full (fst tn) then
                 if nonblock then Some (SendDone tn written) else Some (SendBlocks tn written)
               else send_loop env g nonblock bs (tx_put b (fst tn), snd tn) (written + 1))"

definition tcp_sock_sendto :: "(nat \<Rightarrow> net \<Rightarrow> net) \<Rightarrow> (nat \<Rightarrow> u8) \<Rightarrow> bool \<Rightarrow> u8 list \<Rightarrow> tcb \<times> net \<Rightarrow> send_result option" where
  "tcp_sock_sendto env g nonblock src tn =
     (if tc_state (fst tn) \<noteq> TCP_ESTABLISHED \<and> tc_state (fst tn) \<noteq> TCP_CLOSE_WAIT then Some SendRefused
      else case send_loop env g nonblock src tn 0 of
             Some (SendDone tn written) \<Rightarrow>
               (case tcp_output env g tn of
                  None \<Rightarrow> None
                | Some OutOverrun \<Rightarrow> Some SendFault
                | Some (OutDone tn sent) \<Rightarrow> Some (SendDone tn written))
           | r \<Rightarrow> r)"

end
