(* ===== verification/Tcp_Stream.thy ===== *)
theory Tcp_Stream
  imports Tcp Queues
begin

text \<open>
  The receive side of a TCP connection as a queue of bytes: the ring of the control
  block implements the bounded queue of \<open>Queues\<close>, and reading it gives back the
  stream that arrived.
\<close>

unbundle bit_operations_syntax

section \<open>The receive ring as a queue\<close>

lemma wrap_mod: "x < 2 * m \<Longrightarrow> x mod m = (if x < m then x else x - m)" for x m :: nat
  by (simp add: le_mod_geq)

definition rx_ok :: "tcb \<Rightarrow> bool" where
  "rx_ok t \<longleftrightarrow> tc_rx_size t = 65536 \<and> length (tc_rx_buf t) = TCP_BUFSZ \<and>
     unat (tc_rx_head t) < TCP_BUFSZ \<and> unat (tc_rx_tail t) < TCP_BUFSZ"

definition rx_contents :: "tcb \<Rightarrow> u8 list" where
  "rx_contents t = ring_list (tc_rx_buf t) (unat (tc_rx_tail t)) (unat (tcp_rx_available t))"

lemma unat_available:
  assumes "rx_ok t"
  shows "unat (tcp_rx_available t) = (unat (tc_rx_head t) + 65536 - unat (tc_rx_tail t)) mod 65536"
proof -
  let ?h = "unat (tc_rx_head t)" and ?l = "unat (tc_rx_tail t)"
  have b: "?h < 65536" "?l < 65536" using assms by (simp_all add: rx_ok_def)
  have "unat (tc_rx_head t - tc_rx_tail t) = (if ?l \<le> ?h then ?h - ?l else ?h + 4294967296 - ?l)"
    by (simp add: unat_sub_if')
  moreover have "(?h + 4294967296 - ?l) mod 65536 = (?h + 65536 - ?l) mod 65536"
  proof -
    have "?h + 4294967296 - ?l = (?h + 65536 - ?l) + 65536 * 65535" using b by simp
    then show ?thesis by (simp only: mod_mult_self2)
  qed
  moreover have "(?h - ?l) mod 65536 = (?h + 65536 - ?l) mod 65536" if "?l \<le> ?h"
  proof -
    have "?h + 65536 - ?l = (?h - ?l) + 65536 * 1" using that by simp
    then show ?thesis by (simp only: mod_mult_self2)
  qed
  ultimately show ?thesis
    using assms by (simp add: tcp_rx_available_def rx_ok_def unat_mod_distrib)
qed

lemma rx_head_eq:
  assumes "rx_ok t"
  shows "unat (tc_rx_head t) = (unat (tc_rx_tail t) + unat (tcp_rx_available t)) mod 65536"
    "unat (tcp_rx_available t) < 65536"
proof -
  let ?h = "unat (tc_rx_head t)" and ?l = "unat (tc_rx_tail t)"
  have b: "?h < 65536" "?l < 65536" using assms by (simp_all add: rx_ok_def)
  have "(?l + (?h + 65536 - ?l) mod 65536) mod 65536 = (?l + (?h + 65536 - ?l)) mod 65536" by (rule mod_add_right_eq)
  also have "\<dots> = ?h" using b by simp
  finally show "?h = (?l + unat (tcp_rx_available t)) mod 65536" using unat_available [OF assms] by simp
  show "unat (tcp_rx_available t) < 65536" by (simp add: unat_available [OF assms])
qed

lemma unat_next:
  assumes "unat (h :: u32) < 65536"
  shows "unat ((h + 1) mod 65536) = (unat h + 1) mod 65536"
  using assms by (simp add: unat_mod_distrib unat_word_ariths)

lemma rx_full:
  assumes "rx_ok t"
  shows "(tc_rx_head t + 1) mod tc_rx_size t = tc_rx_tail t \<longleftrightarrow> unat (tcp_rx_available t) = 65535"
proof -
  let ?h = "unat (tc_rx_head t)" and ?l = "unat (tc_rx_tail t)" and ?a = "unat (tcp_rx_available t)"
  have b: "?h < 65536" "?l < 65536" "tc_rx_size t = 65536" using assms by (simp_all add: rx_ok_def)
  have "(tc_rx_head t + 1) mod tc_rx_size t = tc_rx_tail t \<longleftrightarrow> (?h + 1) mod 65536 = ?l"
    unfolding b(3) word_unat_eq_iff unat_next [OF b(1)] ..
  also have "\<dots> \<longleftrightarrow> (?l + ?a + 1) mod 65536 = ?l mod 65536"
    using rx_head_eq(1) [OF assms] b(2) by (simp add: mod_Suc_eq)
  also have "\<dots> \<longleftrightarrow> ?a = 65535"
  proof -
    have "?a < 65536" by (rule rx_head_eq(2) [OF assms])
    then show ?thesis using b(2) wrap_mod [of "?l + ?a + 1" 65536] by auto
  qed
  finally show ?thesis .
qed

lemma available_Suc:
  assumes "rx_ok t" "unat (tcp_rx_available t) < 65535"
  shows "unat (tcp_rx_available (t\<lparr>tc_rx_buf := b, tc_rx_head := (tc_rx_head t + 1) mod tc_rx_size t\<rparr>)) =
    unat (tcp_rx_available t) + 1"
proof -
  let ?t = "t\<lparr>tc_rx_buf := b, tc_rx_head := (tc_rx_head t + 1) mod tc_rx_size t\<rparr>"
  let ?h = "unat (tc_rx_head t)" and ?l = "unat (tc_rx_tail t)"
  have r: "?h < 65536" "?l < 65536" "tc_rx_size t = 65536" using assms by (simp_all add: rx_ok_def)
  have ok: "rx_ok (?t\<lparr>tc_rx_buf := tc_rx_buf t\<rparr>)" using assms r unat_next [OF r(1)] by (simp add: rx_ok_def)
  have "tcp_rx_available ?t = tcp_rx_available (?t\<lparr>tc_rx_buf := tc_rx_buf t\<rparr>)" by (simp add: tcp_rx_available_def)
  then have "unat (tcp_rx_available ?t) = ((?h + 1) mod 65536 + 65536 - ?l) mod 65536"
    using unat_available [OF ok] unat_next [OF r(1)] r by simp
  also have "\<dots> = ((?h + 1) + 65536 - ?l) mod 65536"
  proof -
    have "(?h + 1) mod 65536 + 65536 - ?l = (?h + 1) mod 65536 + (65536 - ?l)"
      "(?h + 1) + 65536 - ?l = (?h + 1) + (65536 - ?l)" using r by simp_all
    then show ?thesis by (simp only: mod_add_left_eq)
  qed
  also have "\<dots> = ((?h + 65536 - ?l) mod 65536 + 1) mod 65536"
  proof -
    have "(?h + 1) + 65536 - ?l = (?h + 65536 - ?l) + 1" using r by simp
    then show ?thesis by (simp only: mod_add_left_eq)
  qed
  also have "\<dots> = unat (tcp_rx_available t) + 1" using unat_available [OF assms(1)] assms(2) by simp
  finally show ?thesis .
qed

lemma rx_put_room:
  assumes "rx_ok t" "unat (tcp_rx_available t) < 65535"
  shows "snd (rx_put x t)" "rx_ok (fst (rx_put x t))" "rx_contents (fst (rx_put x t)) = rx_contents t @ [x]"
proof -
  have nf: "(tc_rx_head t + 1) mod tc_rx_size t \<noteq> tc_rx_tail t" using rx_full [OF assms(1)] assms(2) by simp
  have r: "unat (tc_rx_head t) < 65536" "tc_rx_size t = 65536" "length (tc_rx_buf t) = 65536" using assms by (simp_all add: rx_ok_def)
  define t' where "t' = t\<lparr>tc_rx_buf := (tc_rx_buf t)[unat (tc_rx_head t) := x], tc_rx_head := (tc_rx_head t + 1) mod tc_rx_size t\<rparr>"
  have p: "rx_put x t = (t', True)" using nf by (simp add: rx_put_def t'_def Let_def)
  then show "snd (rx_put x t)" by simp
  show "rx_ok (fst (rx_put x t))" using assms r unat_next [OF r(1)] by (simp add: p t'_def rx_ok_def)
  have "unat (tcp_rx_available t') = unat (tcp_rx_available t) + 1" unfolding t'_def by (rule available_Suc [OF assms])
  then show "rx_contents (fst (rx_put x t)) = rx_contents t @ [x]"
    using ring_push [of "unat (tcp_rx_available t)" "tc_rx_buf t" "unat (tc_rx_tail t)" x] rx_head_eq(1) [OF assms(1)] assms(2) r
    by (simp add: p rx_contents_def) (simp add: t'_def)
qed

lemma rx_put_full:
  assumes "rx_ok t" "\<not> unat (tcp_rx_available t) < 65535"
  shows "rx_put x t = (t, False)"
  using rx_full [OF assms(1)] rx_head_eq(2) [OF assms(1)] assms(2) by (simp add: rx_put_def Let_def)

lemma rx_get_some:
  assumes "rx_ok t" "rx_contents t = x # xs"
  shows "snd (rx_get t) = Some x" "rx_ok (fst (rx_get t))" "rx_contents (fst (rx_get t)) = xs"
proof -
  let ?a = "unat (tcp_rx_available t)" and ?l = "unat (tc_rx_tail t)" and ?h = "unat (tc_rx_head t)"
  have r: "?h < 65536" "?l < 65536" "tc_rx_size t = 65536" "length (tc_rx_buf t) = 65536" using assms by (simp_all add: rx_ok_def)
  have "length (rx_contents t) = ?a" by (simp add: rx_contents_def)
  then obtain k where k: "?a = Suc k" "k = length xs" using assms(2) by simp
  define t' where "t' = t\<lparr>tc_rx_tail := (tc_rx_tail t + 1) mod tc_rx_size t\<rparr>"
  have ne: "tcp_rx_available t \<noteq> 0" using k by (metis nat.distinct(1) unat_0)
  then have p: "rx_get t = (t', Some (tc_rx_buf t ! ?l))" by (simp add: rx_get_def t'_def)
  have c: "tc_rx_buf t ! ?l # ring_list (tc_rx_buf t) ((?l + 1) mod 65536) k = x # xs"
    using assms(2) ring_pop [of ?l "tc_rx_buf t" k] r by (simp add: rx_contents_def k)
  then show "snd (rx_get t) = Some x" by (simp add: p)
  show ok: "rx_ok (fst (rx_get t))" using assms(1) r unat_next [OF r(2)] by (simp add: p t'_def rx_ok_def)
  have "unat (tcp_rx_available t') = (?h + 65536 - (?l + 1) mod 65536) mod 65536"
    using unat_available [OF ok] unat_next [OF r(2)] r(3) by (simp add: p t'_def)
  also have "\<dots> = k"
  proof -
    have "?h = (?l + Suc k) mod 65536" using rx_head_eq(1) [OF assms(1)] k by simp
    moreover have "k < 65535" using rx_head_eq(2) [OF assms(1)] k by simp
    moreover have "(?l + 1) mod 65536 = (if ?l = 65535 then 0 else ?l + 1)" using r(2) by auto
    ultimately show ?thesis using r(2) wrap_mod [of "?l + Suc k" 65536] by auto
  qed
  finally show "rx_contents (fst (rx_get t)) = xs"
    using c unat_next [OF r(2)] r(3) by (simp add: rx_contents_def p) (simp add: t'_def)
qed

interpretation rxq: bounded_fifo rx_ok rx_contents "\<lambda>t. 65535" rx_put rx_get
proof unfold_locales
  fix t :: tcb and x :: u8 and xs :: "u8 list"
  assume ok: "rx_ok t"
  have l: "length (rx_contents t) = unat (tcp_rx_available t)" by (simp add: rx_contents_def)
  show "snd (rx_put x t) \<and> rx_ok (fst (rx_put x t)) \<and> rx_contents (fst (rx_put x t)) = rx_contents t @ [x] \<and> (65535 :: nat) = 65535"
    if "length (rx_contents t) < 65535" using rx_put_room [OF ok] that l by simp
  show "rx_put x t = (t, False)" if "\<not> length (rx_contents t) < 65535" using rx_put_full [OF ok] that l by simp
  show "rx_get t = (t, None)" if "rx_contents t = []"
  proof -
    have "unat (tcp_rx_available t) = 0" using l that by simp
    then show ?thesis by (simp add: rx_get_def unat_eq_0)
  qed
  show "snd (rx_get t) = Some x \<and> rx_ok (fst (rx_get t)) \<and> rx_contents (fst (rx_get t)) = xs \<and> (65535 :: nat) = 65535"
    if "rx_contents t = x # xs" using rx_get_some [OF ok that] by simp
  show "length (rx_contents t) \<le> 65535" using rx_head_eq(2) [OF ok] l by simp
qed

lemma deliver_contents:
  assumes "rx_ok t"
  shows "rx_ok (deliver_loop bs t)" "rx_contents (deliver_loop bs t) = rx_contents t @ take (65535 - length (rx_contents t)) bs"
proof -
  have "rx_ok (deliver_loop bs t) \<and> rx_contents (deliver_loop bs t) = rx_contents t @ take (65535 - length (rx_contents t)) bs"
    using assms
  proof (induction bs arbitrary: t)
    case (Cons b bs)
    from Cons.prems show ?case
    proof (cases rule: rxq.push_cases [where x = b])
      case (room s1)
      then have "length (rx_contents t) < 65535" using rxq.within_capacity [OF room(2)] by simp
      then show ?thesis using room Cons.IH [OF room(2)] by (simp add: take_Cons' Suc_diff_Suc)
    qed (use Cons.prems in simp)
  qed simp
  then show "rx_ok (deliver_loop bs t)" "rx_contents (deliver_loop bs t) = rx_contents t @ take (65535 - length (rx_contents t)) bs"
    by simp_all
qed

lemma recv_loop_contents:
  "rx_ok t \<Longrightarrow> recv_loop k t = (t', bs) \<Longrightarrow> rx_ok t' \<and> bs = take k (rx_contents t) \<and> rx_contents t' = drop k (rx_contents t)"
proof (induction k arbitrary: t t' bs)
  case (Suc k)
  from Suc.prems(1) show ?case
  proof (cases rule: rxq.pop_cases)
    case none then show ?thesis using Suc.prems by simp
  next
    case (some x s1)
    obtain t2 bs2 where r: "recv_loop k s1 = (t2, bs2)" by fastforce
    then show ?thesis using Suc.IH [OF some(2) r] Suc.prems(2) some by simp
  qed
qed simp

lemma rx_ok_cong [simp]:
  "rx_ok (t\<lparr>tc_rcv_nxt := a\<rparr>) = rx_ok t" "rx_ok (t\<lparr>tc_rcv_wnd := b\<rparr>) = rx_ok t"
  "rx_contents (t\<lparr>tc_rcv_nxt := a\<rparr>) = rx_contents t" "rx_contents (t\<lparr>tc_rcv_wnd := b\<rparr>) = rx_contents t"
  "tcp_rx_free (t\<lparr>tc_rcv_nxt := a\<rparr>) = tcp_rx_free t"
  by (simp_all add: rx_ok_def rx_contents_def tcp_rx_available_def tcp_rx_free_def)

text \<open>The window a block advertises is the room in its ring.\<close>

definition window_ok :: "tcb \<Rightarrow> bool" where
  "window_ok t \<longleftrightarrow> rx_ok t \<and> unat (adv_window t) + length (rx_contents t) = 65535"

lemma rx_free_window:
  assumes "rx_ok t"
  shows "window_ok (t\<lparr>tc_rcv_wnd := tcp_rx_free t\<rparr>)"
proof -
  have a: "unat (tcp_rx_available t) \<le> 65535" using rx_head_eq(2) [OF assms] by simp
  then have "tcp_rx_available t \<le> 65535" by (simp add: word_le_nat_alt)
  then have f: "unat (tcp_rx_free t) = 65535 - unat (tcp_rx_available t)"
    using assms by (simp add: tcp_rx_free_def rx_ok_def unat_sub)
  have "unat (adv_window (t\<lparr>tc_rcv_wnd := tcp_rx_free t\<rparr>)) = unat (tcp_rx_free t)"
    using f by (auto simp: adv_window_def word_less_nat_alt unsigned_ucast_eq take_bit_eq_mod)
  then show ?thesis using assms f a by (simp add: window_ok_def) (simp add: rx_contents_def)
qed

text \<open>What happens to the receive side of an established connection: data arrives in
  order, or the user reads.\<close>

datatype tcp_io = Arrive "u8 list" | Read nat

fun tcp_io_run :: "tcp_io list \<Rightarrow> tcb \<Rightarrow> tcb \<times> u8 list" where
  "tcp_io_run [] t = (t, [])"
| "tcp_io_run (Arrive bs # ops) t = tcp_io_run ops (tcp_deliver_data bs t)"
| "tcp_io_run (Read k # ops) t =
     (let (t, r) = tcp_sock_recvfrom k t; (t, out) = tcp_io_run ops t
      in (t, case r of RecvData bs \<Rightarrow> bs @ out | _ \<Rightarrow> out))"

fun arrived :: "tcp_io list \<Rightarrow> u8 list" where
  "arrived [] = []"
| "arrived (Arrive bs # ops) = bs @ arrived ops"
| "arrived (Read k # ops) = arrived ops"

text \<open>The peer never sends more than the window it was last told.\<close>

fun respects_window :: "tcp_io list \<Rightarrow> tcb \<Rightarrow> bool" where
  "respects_window [] t \<longleftrightarrow> True"
| "respects_window (Arrive bs # ops) t \<longleftrightarrow>
     length bs \<le> unat (adv_window t) \<and> respects_window ops (tcp_deliver_data bs t)"
| "respects_window (Read k # ops) t \<longleftrightarrow> respects_window ops (fst (tcp_sock_recvfrom k t))"

lemma deliver_window:
  assumes "window_ok t"
  shows "window_ok (tcp_deliver_data bs t)"
    "rx_contents (tcp_deliver_data bs t) = rx_contents t @ take (unat (adv_window t)) bs"
    "tc_rcv_nxt (tcp_deliver_data bs t) = tc_rcv_nxt t + of_nat (length bs)"
proof -
  have ok: "rx_ok t" "unat (adv_window t) = 65535 - length (rx_contents t)" using assms by (auto simp: window_ok_def)
  note d = deliver_contents [OF ok(1), of bs]
  have n: "tc_rcv_nxt (deliver_loop bs t) = tc_rcv_nxt t"
    by (induction bs arbitrary: t) (auto simp: rx_put_def Let_def split: prod.splits bool.splits if_splits)
  show "window_ok (tcp_deliver_data bs t)"
    using rx_free_window [of "deliver_loop bs t\<lparr>tc_rcv_nxt := tc_rcv_nxt (deliver_loop bs t) + of_nat (length bs)\<rparr>"] d
    by (simp add: tcp_deliver_data_def Let_def)
  show "rx_contents (tcp_deliver_data bs t) = rx_contents t @ take (unat (adv_window t)) bs"
    using d ok by (simp add: tcp_deliver_data_def Let_def)
  show "tc_rcv_nxt (tcp_deliver_data bs t) = tc_rcv_nxt t + of_nat (length bs)"
    using n by (simp add: tcp_deliver_data_def Let_def)
qed

lemma recv_window:
  assumes "window_ok t" "tcp_sock_recvfrom k t = (t', r)"
  shows "window_ok t' \<and> (case r of RecvData bs \<Rightarrow> bs | _ \<Rightarrow> []) @ rx_contents t' = rx_contents t"
proof (cases "tcp_rx_available t = 0")
  case True
  then show ?thesis using assms by (auto simp: tcp_sock_recvfrom_def split: if_splits)
next
  case False
  let ?a = "unat (tcp_rx_available t)" let ?k = "if k < ?a then k else ?a"
  obtain u bs where u: "recv_loop ?k t = (u, bs)" by fastforce
  have ok: "rx_ok t" using assms(1) by (simp add: window_ok_def)
  note rl = recv_loop_contents [OF ok u]
  then show ?thesis using assms(2) False u rx_free_window [of u] by (auto simp: tcp_sock_recvfrom_def Let_def)
qed

text \<open>C14: the received byte stream is intact.  As long as no arriving segment is longer than
  the window the block advertised, whatever is read, followed by what is still in the
  ring, is what was in the ring followed by everything that arrived: nothing is lost,
  duplicated or reordered, over any interleaving of arrivals and reads and across the
  wrap of the ring; and the advertised window always equals the room in the ring.\<close>

theorem tcp_stream_integrity:
  assumes "window_ok t" "respects_window ops t" "tcp_io_run ops t = (t', out)"
  shows "window_ok t' \<and> out @ rx_contents t' = rx_contents t @ arrived ops"
  using assms
proof (induction ops arbitrary: t out)
  case (Cons op ops)
  show ?case
  proof (cases op)
    case (Arrive bs)
    note d = deliver_window [OF Cons.prems(1), of bs]
    show ?thesis using Cons.IH [OF d(1), of out] d(2) Cons.prems Arrive by simp
  next
    case (Read k)
    obtain u r where u: "tcp_sock_recvfrom k t = (u, r)" by fastforce
    obtain out1 where v: "tcp_io_run ops u = (t', out1)" using Cons.prems(3) Read u by (auto split: prod.splits)
    note w = recv_window [OF Cons.prems(1) u]
    have "window_ok t' \<and> out1 @ rx_contents t' = rx_contents u @ arrived ops"
      using Cons.IH [OF _ _ v] w Cons.prems(2) Read u by simp
    then show ?thesis using Cons.prems(3) Read u v w by (cases r) (simp_all, metis append_assoc)
  qed
qed simp

definition tcb_example :: tcb where
  "tcb_example = tcb_zero\<lparr>tc_active := True, tc_state := TCP_ESTABLISHED, tc_rx_size := 65536, tc_tx_size := 65536,
     tc_rx_buf := replicate 65536 0, tc_tx_buf := replicate 65536 0, tc_rcv_wnd := 65536, tc_snd_mss := 1460,
     tc_rcv_mss := 1460\<rparr>"

lemma tcb_example_window: "window_ok tcb_example"
  by (simp add: window_ok_def rx_ok_def rx_contents_def adv_window_def tcb_example_def tcb_zero_def tcp_rx_available_def)

theorem tcp_stream_integrity_witness:
  "window_ok (fst (tcp_io_run [Arrive [1, 2, 3], Read 2, Arrive [4]] tcb_example)) \<and>
   snd (tcp_io_run [Arrive [1, 2, 3], Read 2, Arrive [4]] tcb_example) @
     rx_contents (fst (tcp_io_run [Arrive [1, 2, 3], Read 2, Arrive [4]] tcb_example)) = [1, 2, 3, 4]"
proof -
  let ?ops = "[Arrive [1, 2, 3], Read 2, Arrive [4]]"
  have c: "rx_contents tcb_example = []" by (simp add: rx_contents_def tcp_rx_available_def tcb_example_def tcb_zero_def)
  have a: "unat (adv_window tcb_example) = 65535" by (simp add: adv_window_def tcb_example_def)
  let ?t1 = "tcp_deliver_data [1, 2, 3] tcb_example"
  note d = deliver_window [OF tcb_example_window, of "[1, 2, 3]"]
  obtain u r where u: "tcp_sock_recvfrom 2 ?t1 = (u, r)" by fastforce
  note w = recv_window [OF d(1) u]
  have "rx_contents ?t1 = [1, 2, 3]" using d(2) c a by simp
  then have "length (rx_contents u) \<le> 3" using arg_cong [OF conjunct2 [OF w], of length] by simp
  then have "1 \<le> unat (adv_window u)" using w by (simp add: window_ok_def)
  then have rw: "respects_window ?ops tcb_example" using a u by simp
  obtain t' out where o: "tcp_io_run ?ops tcb_example = (t', out)" by fastforce
  from tcp_stream_integrity [OF tcb_example_window rw o] show ?thesis unfolding o by (simp add: c)
qed

end
