(* ===== verification/Tcp_Handshake.thy ===== *)
theory Tcp_Handshake
  imports Tcp_Stream
begin

unbundle bit_operations_syntax

text \<open>Connection establishment across two hosts: what \<open>tcp_send_segment\<close> and \<open>tcp_send_ack\<close>
  (net/tcp_output.c) put on the wire is parsed back by \<open>tcp_rx\<close> (net/tcp_input.c) on the other side, so that
  \<open>tcp_sock_connect\<close> (net/socket.c), \<open>tcp_handle_syn\<close> and the two halves of the SYN states compose to the
  three-way handshake, frame by frame, through the ARP and IPv4 layers.\<close>

section \<open>Segments on the wire\<close>

lemma length_tcp_header [simp]: "length (tcp_header sp dp sq ack off fl win c) = 20"
  by (simp add: tcp_header_def)

lemma tcp_header_csum: "put_bytes 16 (u16_bytes c) (tcp_header sp dp sq ack off fl win 0 @ d) = tcp_header sp dp sq ack off fl win c @ d"
  by (simp add: tcp_header_def put_bytes_def u16_bytes_def u32_bytes_def)

lemma tcp_words: "words_sum (tcp_header sp dp sq ack off fl win c @ d) = words_sum (tcp_header sp dp sq ack off fl win 0 @ d) + unat c"
  by (simp add: tcp_header_def words_sum_append words_sum_field)

lemma tcp_header_fields:
  fixes sp dp win c :: u16 and sq ack :: u32 and off fl :: u8
  defines "h \<equiv> tcp_header sp dp sq ack off fl win c"
  shows "get16 (h @ r) 0 = htons sp" "get16 (h @ r) 2 = htons dp" "get32 (h @ r) 4 = htonl sq" "get32 (h @ r) 8 = htonl ack"
    "(h @ r) ! 12 = off" "(h @ r) ! 13 = fl" "get16 (h @ r) 14 = htons win"
proof -
  let ?a = "u16_bytes (htons sp)" and ?b = "u16_bytes (htons dp)" and ?c = "u32_bytes (htonl sq)" and ?d = "u32_bytes (htonl ack)"
  have h: "h @ r = ?a @ ?b @ ?c @ ?d @ [off, fl] @ u16_bytes (htons win) @ u16_bytes c @ u16_bytes 0 @ r"
    by (simp add: h_def tcp_header_def)
  show "get16 (h @ r) 0 = htons sp" unfolding h by (rule get16_bytes)
  show "get16 (h @ r) 2 = htons dp" unfolding h using get16_append [of ?a 2 _ 0] by (simp add: get16_bytes)
  show "get32 (h @ r) 4 = htonl sq" unfolding h using get32_append [of "?a @ ?b" 4 _ 0] by (simp add: get32_bytes)
  show "get32 (h @ r) 8 = htonl ack" unfolding h using get32_append [of "?a @ ?b @ ?c" 8 _ 0] by (simp add: get32_bytes)
  show "(h @ r) ! 12 = off" "(h @ r) ! 13 = fl" unfolding h by (simp_all add: u16_bytes_def u32_bytes_def)
  show "get16 (h @ r) 14 = htons win" unfolding h using get16_append [of "?a @ ?b @ ?c @ ?d @ [off, fl]" 14 _ 0] by (simp add: get16_bytes)
qed

text \<open>The bytes of a segment with the checksum that is stored in it.\<close>

definition tcp_wire :: "u32 \<Rightarrow> u32 \<Rightarrow> u16 \<Rightarrow> u16 \<Rightarrow> u32 \<Rightarrow> u32 \<Rightarrow> u8 \<Rightarrow> u16 \<Rightarrow> u8 list \<Rightarrow> u8 list \<Rightarrow> u8 list" where
  "tcp_wire s d sp dp sq ack fl win opts data =
     (let off = TCP_DATA_OFF (20 + length opts)
      in tcp_header sp dp sq ack off fl win (tcp_checksum s d (tcp_header sp dp sq ack off fl win 0 @ opts @ data)) @ opts @ data)"

lemma length_tcp_wire [simp]: "length (tcp_wire s d sp dp sq ack fl win opts data) = 20 + length opts + length data"
  by (simp add: tcp_wire_def Let_def)

lemma tcp_wire_verifies:
  assumes "20 + length opts + length data \<le> 65535"
  shows "tcp_checksum s d (tcp_wire s d sp dp sq ack fl win opts data) = 0"
proof -
  let ?off = "TCP_DATA_OFF (20 + length opts)"
  let ?seg = "\<lambda>c. tcp_header sp dp sq ack ?off fl win c @ opts @ data"
  let ?len = "of_nat (20 + (length opts + length data)) :: u16"
  let ?sum = "\<lambda>c. inet_checksum_partial (pseudo_header s d IPPROTO_TCP ?len) + inet_checksum_partial (?seg c)"
  have ck: "tcp_checksum s d (?seg c) = inet_checksum_fold (?sum c)" for c by (simp add: tcp_checksum_def)
  have sum: "unat (?sum c) = unat (?sum 0) + unat c" for c
    using pseudo_sum [of "?seg c" s d IPPROTO_TCP ?len] pseudo_sum [of "?seg 0" s d IPPROTO_TCP ?len] assms
      tcp_words [of sp dp sq ack ?off fl win c "opts @ data"] by simp
  have "inet_checksum_fold (?sum (inet_checksum_fold (?sum 0))) = 0" by (rule fold_cancel [OF refl sum])
  then show ?thesis unfolding tcp_wire_def Let_def ck .
qed

lemma tcp_fill_wire:
  fixes g :: "nat \<Rightarrow> u8" and sp dp win :: u16 and sq ack s dip :: u32 and fl :: u8 and opts :: "u8 list"
  assumes "data = Some d \<and> len = length d \<or> data = None \<and> len = 0 \<and> d = []"
  defines "hdr \<equiv> tcp_header sp dp sq ack (TCP_DATA_OFF (20 + length opts)) fl win 0 @ opts"
  defines "r \<equiv> tcp_fill s dip hdr data len (skb_alloc g (length hdr + len + 128))"
  shows "skb_ok r" "skb_bytes r = tcp_wire s dip sp dp sq ack fl win opts d" "sk_data r = 262"
proof -
  have d: "length d = len" using assms(1) by auto
  define P where "P = fst (skb_put (length hdr + len) (skb_reserve 128 (skb_alloc g (length hdr + len + 128))))"
  have put: "skb_put (length hdr + len) (skb_reserve 128 (skb_alloc g (length hdr + len + 128))) = (P, 262)"
    by (simp add: P_def skb_put_def skb_reserve_def skb_alloc_def Let_def)
  note p = skb_room [of "length hdr + len" 128 g, unfolded put fst_conv]
  define Q where "Q = skb_write 262 hdr P"
  have q0: "262 = sk_data P + int 0" "0 + length hdr \<le> length (skb_bytes P)" using p by simp_all
  note q = skb_write_within [OF p(1) q0, folded Q_def]
  have qb: "skb_bytes Q = hdr @ drop (length hdr) (skb_bytes P)" "length (skb_bytes Q) = length hdr + len"
    using q p by (simp_all add: put_bytes_def)
  define R where "R = (case data of Some d \<Rightarrow> if len > 0 then skb_write (262 + int (length hdr)) (take len d) Q else Q | None \<Rightarrow> Q)"
  have R: "skb_ok R" "skb_bytes R = hdr @ d" "sk_data R = 262"
  proof -
    have a: "262 + int (length hdr) = sk_data Q + int (length hdr)" "length hdr + length d \<le> length (skb_bytes Q)"
      using q p qb d by simp_all
    note w = skb_write_within [OF q(1) a]
    have "put_bytes (length hdr) d (skb_bytes Q) = hdr @ d" using qb d p by (simp add: put_bytes_def)
    moreover have "skb_bytes Q = hdr" if "len = 0" using qb p that by simp
    ultimately show "skb_ok R" "skb_bytes R = hdr @ d" "sk_data R = 262"
      using assms(1) w q p d by (auto simp: R_def)
  qed
  let ?c = "u16_bytes (tcp_checksum s dip (skb_bytes R))"
  have b: "262 + 16 = sk_data R + int 16" "16 + length ?c \<le> length (skb_bytes R)" using R by (simp_all add: hdr_def)
  note w = skb_write_within [OF R(1) b]
  have r: "r = (skb_write (262 + 16) ?c R)\<lparr>sk_protocol := ucast IPPROTO_TCP\<rparr>"
    by (simp only: r_def tcp_fill_def Let_def put prod.case R_def Q_def)
  show "skb_ok r" "skb_bytes r = tcp_wire s dip sp dp sq ack fl win opts d" "sk_data r = 262"
    using w R tcp_header_csum [of _ sp dp sq ack "TCP_DATA_OFF (20 + length opts)" fl win "opts @ d"]
    by (simp_all add: r skb_ok_def skb_bytes_def hdr_def tcp_wire_def Let_def)
qed

lemma hdr_len_off: "n \<in> {20, 24} \<Longrightarrow> TCP_HDR_LEN (TCP_DATA_OFF n) = n"
  by (auto simp: TCP_HDR_LEN_def TCP_DATA_OFF_def)

lemma tcp_parse_wire:
  assumes "skb_ok skb" "skb_bytes skb = tcp_wire s d sp dp sq ack fl win opts data" "sk_src_ip skb = s" "sk_dst_ip skb = d"
    "length opts \<in> {0, 4}" "20 + length opts + length data \<le> 65535"
  shows "tcp_parse skb = Some \<lparr>sg_src_ip = s, sg_src_port = sp, sg_dst_port = dp, sg_seq = sq, sg_ack = ack,
    sg_flags = fl, sg_window = win, sg_opts = opts, sg_data = data\<rparr>"
proof -
  let ?off = "TCP_DATA_OFF (20 + length opts)"
  have len: "sk_len skb = int (20 + length opts + length data)"
    using skb_bytes_length [OF assms(1)] assms(1,2) by (auto simp: skb_ok_def)
  define c where "c = tcp_checksum s d (tcp_header sp dp sq ack ?off fl win 0 @ opts @ data)"
  have b: "skb_bytes skb = tcp_header sp dp sq ack ?off fl win c @ opts @ data" using assms(2) by (simp add: tcp_wire_def Let_def c_def)
  have off: "TCP_HDR_LEN ?off = 20 + length opts" by (rule hdr_len_off) (use assms(5) in auto)
  have ck: "tcp_checksum s d (skb_bytes skb) = 0" using tcp_wire_verifies [OF assms(6)] assms(2) by simp
  show ?thesis using len ck
    by (simp add: tcp_parse_def Let_def assms(3,4)) (simp add: b tcp_header_fields off)
qed

section \<open>The table\<close>

lemma tcb_at_upd [simp]:
  "i < length (tp_tcbs s) \<Longrightarrow> tcb_at i (upd_tcb i t s) = t" "i \<noteq> j \<Longrightarrow> tcb_at j (upd_tcb i t s) = tcb_at j s"
  "tp_net (upd_tcb i t s) = tp_net s" "upd_tcb i t (upd_tcb i t' s) = upd_tcb i t s"
  "tp_tcbs (upd_tcb i t s) = (tp_tcbs s)[i := t]" "tcb_at i (s\<lparr>tp_net := n\<rparr>) = tcb_at i s"
  "tcb_at i (s\<lparr>tp_eph := e\<rparr>) = tcb_at i s" "tcb_at i (s\<lparr>tp_isn := v\<rparr>) = tcb_at i s"
  by (simp_all add: tcb_at_def upd_tcb_def)

lemma set_lock_simps [simp]:
  "tp_net (set_lock i b s) = tp_net s" "length (tp_tcbs (set_lock i b s)) = length (tp_tcbs s)"
  "i < length (tp_tcbs s) \<Longrightarrow> tcb_at i (set_lock i b s) = (tcb_at i s)\<lparr>tc_lock := b\<rparr>"
  "i \<noteq> j \<Longrightarrow> tcb_at j (set_lock i b s) = tcb_at j s"
  by (simp_all add: set_lock_def)

lemma on_tcb_simps:
  assumes "f (tcb_at i s, tp_net s) = (t, n)" "i < length (tp_tcbs s)"
  shows "tcb_at i (on_tcb i f s) = t" "tp_net (on_tcb i f s) = n" "tp_tcbs (on_tcb i f s) = (tp_tcbs s)[i := t]"
    "j \<noteq> i \<Longrightarrow> tcb_at j (on_tcb i f s) = tcb_at j s"
  using assms by (simp_all add: on_tcb_def tcb_at_def upd_tcb_def)

lemma free_slot_Some: "tcb_free_slot ts k = Some i \<Longrightarrow> k \<le> i \<and> i < k + length ts \<and> \<not> tc_active (ts ! (i - k))"
proof (induction ts arbitrary: k)
  case (Cons t ts)
  then show ?case
  proof (cases "tc_active t")
    case True
    then have "k + 1 \<le> i \<and> i < k + 1 + length ts \<and> \<not> tc_active (ts ! (i - (k + 1)))"
      using Cons.IH [of "k + 1"] Cons.prems by simp
    then show ?thesis by (simp add: nth_Cons' less_eq_Suc_le)
  qed (use Cons.prems in auto)
qed simp

lemma search_Some: "tcb_search P ts k = Some i \<Longrightarrow> k \<le> i \<and> i < k + length ts \<and> P (ts ! (i - k))"
proof (induction ts arbitrary: k)
  case (Cons t ts)
  then show ?case
  proof (cases "P t")
    case False
    then have "k + 1 \<le> i \<and> i < k + 1 + length ts \<and> P (ts ! (i - (k + 1)))"
      using Cons.IH [of "k + 1"] Cons.prems by simp
    then show ?thesis by (simp add: nth_Cons' less_eq_Suc_le)
  qed (use Cons.prems in auto)
qed simp

lemma search_None: "tcb_search P ts k = None \<longleftrightarrow> (\<forall>t \<in> set ts. \<not> P t)"
  by (induction ts arbitrary: k) auto

lemma search_unique:
  assumes "i < length ts" "P (ts ! i)" "\<And>j. j < length ts \<Longrightarrow> j \<noteq> i \<Longrightarrow> \<not> P (ts ! j)"
  shows "tcb_search P ts 0 = Some i"
proof -
  have "tcb_search P ts 0 \<noteq> None" using assms(1,2) by (auto simp: search_None)
  then obtain k where k: "tcb_search P ts 0 = Some k" by blast
  from search_Some [OF this] have "k = i" using assms(3) by (metis add_0 diff_zero)
  with k show ?thesis by simp
qed

section \<open>Sending control segments\<close>

definition tcp_frame :: "mac \<Rightarrow> mac \<Rightarrow> u16 \<Rightarrow> u32 \<Rightarrow> u32 \<Rightarrow> u8 list \<Rightarrow> u8 list" where
  "tcp_frame m sm ident s d w = eth_header m sm ETH_P_IP @ ip_build (word_of_nat (length w + 20)) ident IPPROTO_TCP s d @ w"

text \<open>A block whose device works and whose peer's next hop is in the cache.\<close>

definition reachable_peer :: "tcb \<Rightarrow> mac \<Rightarrow> net \<Rightarrow> bool" where
  "reachable_peer t m n \<longleftrightarrow> length (nd_mac (tc_dev t)) = 6 \<and> nd_send (tc_dev t) \<noteq> None \<and>
     arp_known (tc_dev t) (tc_remote_ip t) m n \<and> length m = 6"

lemma reachable_peer_cong:
  assumes "reachable_peer t m n" "tc_dev t' = tc_dev t" "tc_remote_ip t' = tc_remote_ip t" "n_arp n' = n_arp n" "n_ticks n' = n_ticks n"
  shows "reachable_peer t' m n'"
  using assms by (simp add: reachable_peer_def arp_known_def)

definition ctl_opts :: "u8 \<Rightarrow> tcb \<Rightarrow> u8 list" where
  "ctl_opts fl t = (if fl AND TCP_SYN \<noteq> 0 then mss_option t else [])"

lemma ctl_opts_length: "length (ctl_opts fl t) \<in> {0, 4}"
  by (simp add: ctl_opts_def mss_option_def)

lemma send_control:
  assumes "n_km n = True # True # True # km" "reachable_peer t m n" "seq_consumed fl 0 = 1"
  shows "\<exists>e rc. tcp_send_segment env g fl None 0 (t, n) =
    ((t\<lparr>tc_snd_nxt := tc_snd_nxt t + 1, tc_rexmit := tc_rexmit t @ [e]\<rparr>,
      n\<lparr>n_km := km, n_ip_id := n_ip_id n + 1, n_sent := n_sent n @ [(nd_id (tc_dev t),
         tcp_frame m (nd_mac (tc_dev t)) (n_ip_id n) (tc_local_ip t) (tc_remote_ip t)
           (tcp_wire (tc_local_ip t) (tc_remote_ip t) (tc_local_port t) (tc_remote_port t) (tc_snd_nxt t) (tc_rcv_nxt t)
              fl (adv_window t) (ctl_opts fl t) []))]\<rparr>), rc) \<and> re_end e = tc_snd_nxt t + 1"
proof -
  let ?o = "ctl_opts fl t"
  let ?h = "tcp_header (tc_local_port t) (tc_remote_port t) (tc_snd_nxt t) (tc_rcv_nxt t) (TCP_DATA_OFF (20 + length ?o)) fl (adv_window t) 0 @ ?o"
  let ?e = "\<lparr>re_start = tc_snd_nxt t, re_end = tc_snd_nxt t + 1, re_data = None, re_len = 0, re_flags = fl\<rparr>"
  define n1 where "n1 = n\<lparr>n_km := km\<rparr>"
  have "None = Some ([] :: u8 list) \<and> 0 = length ([] :: u8 list) \<or> (None :: u8 list option) = None \<and> (0 :: nat) = 0 \<and> ([] :: u8 list) = []" by simp
  note f = tcp_fill_wire [OF this, where sp = "tc_local_port t" and dp = "tc_remote_port t" and sq = "tc_snd_nxt t" and
      ack = "tc_rcv_nxt t" and opts = ?o and fl = fl and win = "adv_window t" and s = "tc_local_ip t" and
      dip = "tc_remote_ip t" and g = g]
  let ?s = "tcp_fill (tc_local_ip t) (tc_remote_ip t) ?h None 0 (skb_alloc g (length ?h + 0 + 128))"
  obtain sf where sf: "nd_send (tc_dev t) = Some sf" using assms(2) by (auto simp: reachable_peer_def)
  have km: "n_arp n1 = n_arp n" "n_ticks n1 = n_ticks n" by (simp_all add: n1_def)
  have tx: "fst (ip_tx env g (tc_dev t) ?s (tc_local_ip t) (tc_remote_ip t) IPPROTO_TCP n1) =
    n1\<lparr>n_ip_id := n_ip_id n1 + 1, n_sent := n_sent n1 @ [(nd_id (tc_dev t), tcp_frame m (nd_mac (tc_dev t)) (n_ip_id n1) (tc_local_ip t) (tc_remote_ip t) (skb_bytes ?s))]\<rparr>"
    using ip_tx_known [OF f(1) _ _ sf _ _ km, of "tc_remote_ip t" m env g "tc_local_ip t" IPPROTO_TCP] f(3) assms(2)
    by (simp add: reachable_peer_def tcp_frame_def)
  obtain n2 rc where n2: "ip_tx env g (tc_dev t) ?s (tc_local_ip t) (tc_remote_ip t) IPPROTO_TCP n1 = (n2, rc)" by fastforce
  have al: "net_skb_alloc g (length ?h + 0 + 128) n = (Some (skb_alloc g (length ?h + 0 + 128)), n\<lparr>n_km := True # km\<rparr>)"
    by (rule net_skb_alloc_ok) (rule assms(1))
  have enq: "tcp_rexmit_enqueue (tc_snd_nxt t) None 0 fl (t\<lparr>tc_snd_nxt := tc_snd_nxt t + 1\<rparr>, n\<lparr>n_km := True # km\<rparr>) =
    (t\<lparr>tc_snd_nxt := tc_snd_nxt t + 1, tc_rexmit := tc_rexmit t @ [?e]\<rparr>, n1)"
    by (simp add: tcp_rexmit_enqueue_def net_kmalloc_def assms(3) n1_def)
  have "tcp_send_segment env g fl None 0 (t, n) = ((t\<lparr>tc_snd_nxt := tc_snd_nxt t + 1, tc_rexmit := tc_rexmit t @ [?e]\<rparr>, n2), rc)"
    unfolding tcp_send_segment_def Let_def prod.case ctl_opts_def [symmetric] al option.case assms(3) enq
    by (simp add: enq n2 [simplified])
  then show ?thesis using tx n2 f(2) by (auto simp: n1_def)
qed

lemma send_ack_frame:
  assumes "n_km n = True # True # km" "reachable_peer t m n"
  shows "tcp_send_ack env g (t, n) =
    (t\<lparr>tc_delack_pending := False, tc_delack_timer := None\<rparr>,
     n\<lparr>n_km := km, n_ip_id := n_ip_id n + 1, n_sent := n_sent n @ [(nd_id (tc_dev t),
         tcp_frame m (nd_mac (tc_dev t)) (n_ip_id n) (tc_local_ip t) (tc_remote_ip t)
           (tcp_wire (tc_local_ip t) (tc_remote_ip t) (tc_local_port t) (tc_remote_port t) (tc_snd_nxt t) (tc_rcv_nxt t)
              TCP_ACK (adv_window t) [] []))]\<rparr>)"
proof -
  let ?h = "tcp_header (tc_local_port t) (tc_remote_port t) (tc_snd_nxt t) (tc_rcv_nxt t) (TCP_DATA_OFF 20) TCP_ACK (adv_window t) 0"
  define n1 where "n1 = n\<lparr>n_km := km\<rparr>"
  have "None = Some ([] :: u8 list) \<and> 0 = length ([] :: u8 list) \<or> (None :: u8 list option) = None \<and> (0 :: nat) = 0 \<and> ([] :: u8 list) = []" by simp
  note f = tcp_fill_wire [OF this, where sp = "tc_local_port t" and dp = "tc_remote_port t" and sq = "tc_snd_nxt t" and
      ack = "tc_rcv_nxt t" and opts = "[]" and fl = TCP_ACK and win = "adv_window t" and s = "tc_local_ip t" and
      dip = "tc_remote_ip t" and g = g, simplified]
  let ?s = "tcp_fill (tc_local_ip t) (tc_remote_ip t) ?h None 0 (skb_alloc g 148)"
  obtain sf where sf: "nd_send (tc_dev t) = Some sf" using assms(2) by (auto simp: reachable_peer_def)
  have km: "n_arp n1 = n_arp n" "n_ticks n1 = n_ticks n" by (simp_all add: n1_def)
  have tx: "fst (ip_tx env g (tc_dev t) ?s (tc_local_ip t) (tc_remote_ip t) IPPROTO_TCP n1) =
    n1\<lparr>n_ip_id := n_ip_id n1 + 1, n_sent := n_sent n1 @ [(nd_id (tc_dev t), tcp_frame m (nd_mac (tc_dev t)) (n_ip_id n1) (tc_local_ip t) (tc_remote_ip t) (skb_bytes ?s))]\<rparr>"
    using ip_tx_known [OF f(1) _ _ sf _ _ km, of "tc_remote_ip t" m env g "tc_local_ip t" IPPROTO_TCP] f(3) assms(2)
    by (simp add: reachable_peer_def tcp_frame_def)
  obtain n2 rc where n2: "ip_tx env g (tc_dev t) ?s (tc_local_ip t) (tc_remote_ip t) IPPROTO_TCP n1 = (n2, rc)" by fastforce
  have al: "net_skb_alloc g 148 n = (Some (skb_alloc g 148), n1)"
    unfolding n1_def by (rule net_skb_alloc_ok) (rule assms(1))
  have "tcp_send_ack env g (t, n) = (t\<lparr>tc_delack_pending := False, tc_delack_timer := None\<rparr>, n2)"
    by (simp add: tcp_send_ack_def al n2)
  then show ?thesis using tx n2 f(2) by (auto simp: n1_def)
qed

section \<open>Receiving a frame\<close>

definition tcp_input :: "(nat \<Rightarrow> net \<Rightarrow> net) \<Rightarrow> (nat \<Rightarrow> u8) \<Rightarrow> netdev \<Rightarrow> u8 list \<Rightarrow> tcp \<Rightarrow> tcp option" where
  "tcp_input env g dev frame s =
     (case ip_input g dev frame (tp_net s) of
        (n, ToTcp skb) \<Rightarrow> tcp_rx env g dev skb (s\<lparr>tp_net := n\<rparr>)
      | (n, _) \<Rightarrow> Some (s\<lparr>tp_net := n\<rparr>))"

lemma tcp_input_frame:
  assumes "n_km (tp_net s) = True # True # km" "length m = 6" "length sm = 6" "ip_accepts dev dip"
    "length opts \<in> {0, 4}" "length opts + length data \<le> 65495"
  shows "tcp_input env g dev (tcp_frame m sm ident sip dip (tcp_wire sip dip sp dp sq ack fl win opts data) @ pad) s =
    tcp_rx_seg env g dev \<lparr>sg_src_ip = sip, sg_src_port = sp, sg_dst_port = dp, sg_seq = sq, sg_ack = ack,
      sg_flags = fl, sg_window = win, sg_opts = opts, sg_data = data\<rparr> (s\<lparr>tp_net := (tp_net s)\<lparr>n_km := km\<rparr>\<rparr>)"
proof -
  let ?w = "tcp_wire sip dip sp dp sq ack fl win opts data"
  have u: "unat (word_of_nat (length ?w + 20) :: u16) = 20 + length ?w"
    using assms(6) by (simp only: unat_of_nat) (simp add: take_bit_eq_mod)
  from ip_input_packet [OF assms(1-4) u, of sip g ident IPPROTO_TCP pad] obtain s' where
    s': "skb_ok s'" "skb_bytes s' = ?w" "sk_src_ip s' = sip" "sk_dst_ip s' = dip"
      "ip_input g dev (eth_header m sm ETH_P_IP @ ip_build (word_of_nat (length ?w + 20)) ident IPPROTO_TCP sip dip @ ?w @ pad) (tp_net s) =
        ((tp_net s)\<lparr>n_km := km\<rparr>, ToTcp s')"
    by (auto simp: ip_deliver_def)
  have "tcp_parse s' = Some \<lparr>sg_src_ip = sip, sg_src_port = sp, sg_dst_port = dp, sg_seq = sq, sg_ack = ack,
      sg_flags = fl, sg_window = win, sg_opts = opts, sg_data = data\<rparr>"
    by (rule tcp_parse_wire [OF s'(1-4) assms(5)]) (use assms(6) in simp)
  then show ?thesis using s'(5) by (simp add: tcp_input_def tcp_frame_def tcp_rx_def)
qed

section \<open>Opening a connection\<close>

text \<open>The fields that identify a connection and place it in the sequence space.\<close>

definition conn :: "tcp_state \<Rightarrow> netdev \<Rightarrow> u16 \<Rightarrow> u32 \<Rightarrow> u16 \<Rightarrow> u32 \<Rightarrow> u32 \<Rightarrow> tcb \<Rightarrow> bool" where
  "conn st dev lp rip rp snd_nxt rcv_nxt t \<longleftrightarrow>
     tc_active t \<and> \<not> tc_lock t \<and> tc_state t = st \<and> tc_dev t = dev \<and> tc_local_ip t = nd_ip dev \<and> tc_local_port t = lp \<and>
     tc_remote_ip t = rip \<and> tc_remote_port t = rp \<and> tc_snd_nxt t = snd_nxt \<and> tc_rcv_nxt t = rcv_nxt"

lemma alloc_fresh:
  assumes "tcb_free_slot (tp_tcbs s) 0 = Some i" "n_km (tp_net s) = True # True # km"
  shows "\<exists>t. tcp_tcb_alloc s = (upd_tcb i t (s\<lparr>tp_isn := tp_isn s + 64000, tp_net := (tp_net s)\<lparr>n_km := km\<rparr>\<rparr>), Some i) \<and>
    tc_active t \<and> \<not> tc_lock t \<and> tc_iss t = tp_isn s \<and> window_ok t \<and> tc_rcv_nxt t = 0 \<and> tc_rexmit t = [] \<and> tc_local_port t = 0"
proof -
  let ?t = "tcb_zero\<lparr>tc_active := True, tc_state := TCP_CLOSED, tc_rto := 1000, tc_rcv_mss := of_nat TCP_MSS_DEFAULT,
                    tc_snd_mss := of_nat TCP_MSS_DEFAULT, tc_rcv_wnd := of_nat TCP_BUFSZ, tc_iss := tp_isn s,
                    tc_rx_size := of_nat TCP_BUFSZ, tc_tx_size := of_nat TCP_BUFSZ,
                    tc_rx_buf := replicate TCP_BUFSZ 0, tc_tx_buf := replicate TCP_BUFSZ 0\<rparr>"
  have "tcp_tcb_alloc s = (upd_tcb i ?t (s\<lparr>tp_isn := tp_isn s + 64000, tp_net := (tp_net s)\<lparr>n_km := km\<rparr>\<rparr>), Some i)"
    using assms by (simp add: tcp_tcb_alloc_def tcp_generate_isn_def net_kmalloc_def)
  moreover have "window_ok ?t"
    by (simp add: window_ok_def rx_ok_def rx_contents_def adv_window_def tcb_zero_def tcp_rx_available_def)
  ultimately show ?thesis by (intro exI [of _ ?t]) (simp add: tcb_zero_def)
qed

lemma window_ok_cong:
  assumes "window_ok t" "tc_rx_size t' = tc_rx_size t" "tc_rx_buf t' = tc_rx_buf t" "tc_rx_head t' = tc_rx_head t"
    "tc_rx_tail t' = tc_rx_tail t" "tc_rcv_wnd t' = tc_rcv_wnd t"
  shows "window_ok t'"
  using assms(1) unfolding window_ok_def rx_ok_def rx_contents_def adv_window_def tcp_rx_available_def assms(2-6) .

lemma syn_consumes: "seq_consumed TCP_SYN 0 = 1" "seq_consumed (TCP_SYN OR TCP_ACK) 0 = 1"
  by (simp_all add: seq_consumed_def)

lemma eph_fresh:
  assumes "length (tp_tcbs s) < 65536" "tcp_alloc_ephemeral s = (s', p)"
  shows "s' = s\<lparr>tp_eph := tp_eph s'\<rparr>" "\<forall>t \<in> set (tp_tcbs s). tc_active t \<longrightarrow> tc_local_port t \<noteq> p"
proof -
  let ?used = "\<lambda>p. list_ex (\<lambda>t. tc_active t \<and> tc_local_port t = p) (tp_tcbs s)"
  obtain x where x: "eph_scan ?used (tp_eph s) (tp_eph s) = (x, p)" "s' = s\<lparr>tp_eph := x\<rparr>"
    using assms(2) by (auto simp: tcp_alloc_ephemeral_def split: prod.splits)
  have "{p. ?used p} \<subseteq> tc_local_port ` set (tp_tcbs s)" by (auto simp: list_ex_iff)
  then have "card {p. ?used p} \<le> card (tc_local_port ` set (tp_tcbs s))" by (intro card_mono) auto
  also have "\<dots> \<le> card (set (tp_tcbs s))" by (rule card_image_le) simp
  also have "\<dots> \<le> length (tp_tcbs s)" by (rule card_length)
  finally have "card {p. ?used p} < 65536" using assms(1) by simp
  from eph_scan_fresh [OF this x(1)] show "\<forall>t \<in> set (tp_tcbs s). tc_active t \<longrightarrow> tc_local_port t \<noteq> p"
    by (auto simp: list_ex_iff)
  show "s' = s\<lparr>tp_eph := tp_eph s'\<rparr>" by (simp add: x)
qed

text \<open>The blocks that a sender arms its timer on after a control segment.\<close>

lemma on_control:
  fixes env :: "nat \<Rightarrow> net \<Rightarrow> net" and g :: "nat \<Rightarrow> u8"
  assumes "i < length (tp_tcbs s)" "n_km (tp_net s) = True # True # True # km" "reachable_peer (tcb_at i s) m (tp_net s)"
    "seq_consumed fl 0 = 1"
  defines "t \<equiv> tcb_at i s" and "n \<equiv> tp_net s"
  defines "s' \<equiv> on_tcb i (\<lambda>tn. let ((t, n), rc) = tcp_send_segment env g fl None 0 tn in (tcp_rexmit_timer_reset (n_ticks n) t, n)) s"
  shows "\<exists>e tm. re_end e = tc_snd_nxt t + 1 \<and>
    s' = (upd_tcb i (t\<lparr>tc_snd_nxt := tc_snd_nxt t + 1, tc_rexmit := tc_rexmit t @ [e], tc_rexmit_timer := tm\<rparr>) s)
      \<lparr>tp_net := n\<lparr>n_km := km, n_ip_id := n_ip_id n + 1, n_sent := n_sent n @ [(nd_id (tc_dev t),
         tcp_frame m (nd_mac (tc_dev t)) (n_ip_id n) (tc_local_ip t) (tc_remote_ip t)
           (tcp_wire (tc_local_ip t) (tc_remote_ip t) (tc_local_port t) (tc_remote_port t) (tc_snd_nxt t) (tc_rcv_nxt t)
              fl (adv_window t) (ctl_opts fl t) []))]\<rparr>\<rparr>"
proof -
  obtain e rc where e: "tcp_send_segment env g fl None 0 (t, n) =
    ((t\<lparr>tc_snd_nxt := tc_snd_nxt t + 1, tc_rexmit := tc_rexmit t @ [e]\<rparr>,
      n\<lparr>n_km := km, n_ip_id := n_ip_id n + 1, n_sent := n_sent n @ [(nd_id (tc_dev t),
         tcp_frame m (nd_mac (tc_dev t)) (n_ip_id n) (tc_local_ip t) (tc_remote_ip t)
           (tcp_wire (tc_local_ip t) (tc_remote_ip t) (tc_local_port t) (tc_remote_port t) (tc_snd_nxt t) (tc_rcv_nxt t)
              fl (adv_window t) (ctl_opts fl t) []))]\<rparr>), rc)" "re_end e = tc_snd_nxt t + 1"
    using send_control [OF assms(2-4), of env g] unfolding t_def n_def by blast
  have "s' = (upd_tcb i (t\<lparr>tc_snd_nxt := tc_snd_nxt t + 1, tc_rexmit := tc_rexmit t @ [e], tc_rexmit_timer := Some (n_ticks n + ucast (tc_rto t))\<rparr>) s)
      \<lparr>tp_net := n\<lparr>n_km := km, n_ip_id := n_ip_id n + 1, n_sent := n_sent n @ [(nd_id (tc_dev t),
         tcp_frame m (nd_mac (tc_dev t)) (n_ip_id n) (tc_local_ip t) (tc_remote_ip t)
           (tcp_wire (tc_local_ip t) (tc_remote_ip t) (tc_local_port t) (tc_remote_port t) (tc_snd_nxt t) (tc_rcv_nxt t)
              fl (adv_window t) (ctl_opts fl t) []))]\<rparr>\<rparr>"
    unfolding s'_def on_tcb_def t_def [symmetric] n_def [symmetric] e(1) Let_def
    by (simp add: tcp_rexmit_timer_reset_def)
  with e(2) show ?thesis by blast
qed

lemma connect_syn:
  assumes "tcb_free_slot (tp_tcbs s) 0 = Some i" "n_km (tp_net s) = True # True # True # True # True # km"
    "ip_route dip devs = Some (dev, nh)" "length (nd_mac dev) = 6" "nd_send dev \<noteq> None" "arp_known dev dip m (tp_net s)"
    "length m = 6" "length (tp_tcbs s) < 65536"
  shows "\<exists>s1 t lp win opts. tcp_sock_connect env g devs sk None dip dp s = Some (s1, Some i) \<and>
    tp_tcbs s1 = (tp_tcbs s)[i := t] \<and> i < length (tp_tcbs s) \<and> conn TCP_SYN_SENT dev lp dip dp (tp_isn s + 1) 0 t \<and>
    window_ok t \<and> (\<exists>e. tc_rexmit t = [e] \<and> re_end e = tp_isn s + 1) \<and>
    (\<forall>x \<in> set (tp_tcbs s). tc_active x \<longrightarrow> tc_local_port x \<noteq> lp) \<and>
    n_km (tp_net s1) = km \<and> n_arp (tp_net s1) = n_arp (tp_net s) \<and> n_ticks (tp_net s1) = n_ticks (tp_net s) \<and>
    length opts \<in> {0, 4} \<and> snd (last (n_sent (tp_net s1))) = tcp_frame m (nd_mac dev) (n_ip_id (tp_net s)) (nd_ip dev) dip
      (tcp_wire (nd_ip dev) dip lp dp (tp_isn s) 0 TCP_SYN win opts [])"
proof -
  have i: "i < length (tp_tcbs s)" "\<not> tc_active (tp_tcbs s ! i)" using free_slot_Some [OF assms(1)] by auto
  define n1 where "n1 = (tp_net s)\<lparr>n_km := True # True # True # km\<rparr>"
  obtain t0 where al: "tcp_tcb_alloc s = (upd_tcb i t0 (s\<lparr>tp_isn := tp_isn s + 64000, tp_net := n1\<rparr>), Some i)"
    and t0: "tc_active t0" "\<not> tc_lock t0" "tc_iss t0 = tp_isn s" "window_ok t0" "tc_rcv_nxt t0 = 0" "tc_rexmit t0 = []" "tc_local_port t0 = 0"
    using alloc_fresh [OF assms(1,2)] unfolding n1_def by blast
  define t1 where "t1 = t0\<lparr>tc_dev := dev, tc_local_ip := nd_ip dev, tc_remote_ip := dip, tc_remote_port := dp, tc_socket := Some sk\<rparr>"
  define s1 where "s1 = upd_tcb i t1 (s\<lparr>tp_isn := tp_isn s + 64000, tp_net := n1\<rparr>)"
  obtain s2 lp where ep: "tcp_alloc_ephemeral s1 = (s2, lp)" by fastforce
  have len: "length (tp_tcbs s1) < 65536" using assms(8) by (simp add: s1_def)
  note fr = eph_fresh [OF len ep]
  have s2: "tp_tcbs s2 = tp_tcbs s1" "tp_net s2 = n1" "tcb_at i s2 = t1" "i < length (tp_tcbs s2)" "tp_isn s2 = tp_isn s1"
    using i by (subst fr(1), simp add: s1_def)+
  have fresh: "tc_local_port x \<noteq> lp" if x: "x \<in> set (tp_tcbs s)" "tc_active x" for x
  proof -
    obtain k where k: "k < length (tp_tcbs s)" "tp_tcbs s ! k = x" using x(1) by (auto simp: in_set_conv_nth)
    then have "k \<noteq> i" using i(2) x(2) by auto
    then have "tp_tcbs s1 ! k = x" using k by (simp add: s1_def)
    moreover have "k < length (tp_tcbs s1)" using k by (simp add: s1_def)
    ultimately have "x \<in> set (tp_tcbs s1)" by (metis nth_mem)
    then show ?thesis using fr(2) x(2) by blast
  qed
  define t2 where "t2 = t1\<lparr>tc_local_port := lp, tc_snd_nxt := tp_isn s, tc_snd_una := tp_isn s, tc_state := TCP_SYN_SENT\<rparr>"
  define s3 where "s3 = upd_tcb i t2 s2"
  have s3: "i < length (tp_tcbs s3)" "n_km (tp_net s3) = True # True # True # km" "tcb_at i s3 = t2" "tp_net s3 = n1"
    "reachable_peer (tcb_at i s3) m (tp_net s3)"
    using s2 assms(4-7) by (simp_all add: s3_def n1_def reachable_peer_def t2_def t1_def arp_known_def)
  have c: "tcp_sock_connect env g devs sk None dip dp s = Some (on_tcb i (\<lambda>tn. let ((t, n), rc) = tcp_send_segment env g TCP_SYN None 0 tn
       in (tcp_rexmit_timer_reset (n_ticks n) t, n)) s3, Some i)"
    using i t0(3) s2(3) by (simp add: tcp_sock_connect_def al assms(3) t1_def [symmetric] s1_def [symmetric] ep s3_def t2_def)
      (simp add: t1_def)
  obtain e tm where e: "re_end e = tc_snd_nxt t2 + 1"
    "on_tcb i (\<lambda>tn. let ((t, n), rc) = tcp_send_segment env g TCP_SYN None 0 tn in (tcp_rexmit_timer_reset (n_ticks n) t, n)) s3 =
      (upd_tcb i (t2\<lparr>tc_snd_nxt := tc_snd_nxt t2 + 1, tc_rexmit := tc_rexmit t2 @ [e], tc_rexmit_timer := tm\<rparr>) s3)
      \<lparr>tp_net := n1\<lparr>n_km := km, n_ip_id := n_ip_id n1 + 1, n_sent := n_sent n1 @ [(nd_id (tc_dev t2),
         tcp_frame m (nd_mac (tc_dev t2)) (n_ip_id n1) (tc_local_ip t2) (tc_remote_ip t2)
           (tcp_wire (tc_local_ip t2) (tc_remote_ip t2) (tc_local_port t2) (tc_remote_port t2) (tc_snd_nxt t2) (tc_rcv_nxt t2)
              TCP_SYN (adv_window t2) (ctl_opts TCP_SYN t2) []))]\<rparr>\<rparr>"
    using on_control [OF s3(1,2,5) syn_consumes(1), of env g] unfolding s3(3,4) by blast
  let ?t = "t2\<lparr>tc_snd_nxt := tc_snd_nxt t2 + 1, tc_rexmit := tc_rexmit t2 @ [e], tc_rexmit_timer := tm\<rparr>"
  have w: "window_ok ?t" by (rule window_ok_cong [OF t0(4)]) (simp_all add: t2_def t1_def)
  define s4 where "s4 = (upd_tcb i ?t s3)\<lparr>tp_net := n1\<lparr>n_km := km, n_ip_id := n_ip_id n1 + 1, n_sent := n_sent n1 @ [(nd_id dev,
         tcp_frame m (nd_mac dev) (n_ip_id n1) (nd_ip dev) dip
           (tcp_wire (nd_ip dev) dip lp dp (tp_isn s) 0 TCP_SYN (adv_window t2) (ctl_opts TCP_SYN t2) []))]\<rparr>\<rparr>"
  have r: "tcp_sock_connect env g devs sk None dip dp s = Some (s4, Some i)"
    unfolding c e(2) s4_def by (simp add: t2_def t1_def t0)
  have cn: "conn TCP_SYN_SENT dev lp dip dp (tp_isn s + 1) 0 ?t" using t0 by (simp add: conn_def t2_def t1_def)
  have rx: "\<exists>e'. tc_rexmit ?t = [e'] \<and> re_end e' = tp_isn s + 1" using e(1) t0(6) by (simp add: t2_def t1_def)
  have s4: "tp_tcbs s4 = (tp_tcbs s)[i := ?t]" "n_km (tp_net s4) = km" "n_arp (tp_net s4) = n_arp (tp_net s)" "n_ticks (tp_net s4) = n_ticks (tp_net s)"
    "snd (last (n_sent (tp_net s4))) = tcp_frame m (nd_mac dev) (n_ip_id (tp_net s)) (nd_ip dev) dip
      (tcp_wire (nd_ip dev) dip lp dp (tp_isn s) 0 TCP_SYN (adv_window t2) (ctl_opts TCP_SYN t2) [])"
    by (simp_all add: s4_def s3_def s2 s1_def n1_def)
  show ?thesis using r s4(1) i(1) cn w rx fresh s4(2-5) ctl_opts_length [of TCP_SYN t2] by blast
qed

lemma listen_syn:
  assumes "tcp_tcb_lookup (nd_ip dev) (sg_dst_port seg) (sg_src_ip seg) (sg_src_port seg) s = None"
    "tcp_tcb_lookup_listen (sg_dst_port seg) s = Some l" "sg_flags seg = TCP_SYN"
    "tcb_free_slot (tp_tcbs s) 0 = Some j" "n_km (tp_net s) = True # True # True # True # True # km"
    "length (nd_mac dev) = 6" "nd_send dev \<noteq> None" "arp_known dev (sg_src_ip seg) m (tp_net s)" "length m = 6"
  shows "\<exists>s1 t win opts. tcp_rx_seg env g dev seg s = Some s1 \<and> tp_tcbs s1 = (tp_tcbs s)[j := t] \<and> j < length (tp_tcbs s) \<and>
    conn TCP_SYN_RECEIVED dev (sg_dst_port seg) (sg_src_ip seg) (sg_src_port seg) (tp_isn s + 1) (sg_seq seg + 1) t \<and>
    window_ok t \<and> (\<exists>e. tc_rexmit t = [e] \<and> re_end e = tp_isn s + 1) \<and> tc_listener t = Some l \<and> l \<noteq> j \<and> l < length (tp_tcbs s) \<and>
    n_km (tp_net s1) = km \<and> length opts \<in> {0, 4} \<and>
    snd (last (n_sent (tp_net s1))) = tcp_frame m (nd_mac dev) (n_ip_id (tp_net s)) (nd_ip dev) (sg_src_ip seg)
      (tcp_wire (nd_ip dev) (sg_src_ip seg) (sg_dst_port seg) (sg_src_port seg) (tp_isn s) (sg_seq seg + 1) (TCP_SYN OR TCP_ACK) win opts [])"
proof -
  have j: "j < length (tp_tcbs s)" "\<not> tc_active (tp_tcbs s ! j)" using free_slot_Some [OF assms(4)] by auto
  have l: "l < length (tp_tcbs s)" "tc_active (tp_tcbs s ! l)" "tc_local_port (tp_tcbs s ! l) = sg_dst_port seg"
    using search_Some [of _ "tp_tcbs s" 0 l] assms(2) by (auto simp: tcp_tcb_lookup_listen_def)
  have lj: "l \<noteq> j" using l(2) j(2) by auto
  define n1 where "n1 = (tp_net s)\<lparr>n_km := True # True # True # km\<rparr>"
  obtain t0 where al: "tcp_tcb_alloc s = (upd_tcb j t0 (s\<lparr>tp_isn := tp_isn s + 64000, tp_net := n1\<rparr>), Some j)"
    and t0: "tc_active t0" "\<not> tc_lock t0" "tc_iss t0 = tp_isn s" "window_ok t0" "tc_rcv_nxt t0 = 0" "tc_rexmit t0 = []" "tc_local_port t0 = 0"
    using alloc_fresh [OF assms(4,5)] unfolding n1_def by blast
  define s0 where "s0 = s\<lparr>tp_isn := tp_isn s + 64000, tp_net := n1\<rparr>"
  have s0: "tp_tcbs s0 = tp_tcbs s" "tp_net s0 = n1" by (simp_all add: s0_def)
  define t2 where "t2 = t0\<lparr>tc_local_ip := nd_ip dev, tc_local_port := sg_dst_port seg,
                    tc_remote_ip := sg_src_ip seg, tc_remote_port := sg_src_port seg, tc_dev := dev,
                    tc_listener := Some l, tc_irs := sg_seq seg, tc_rcv_nxt := sg_seq seg + 1,
                    tc_snd_nxt := tp_isn s, tc_snd_una := tp_isn s, tc_snd_wnd := ucast (sg_window seg),
                    tc_snd_mss := parse_mss (sg_opts seg) (tc_snd_mss t0), tc_state := TCP_SYN_RECEIVED\<rparr>"
  define s3 where "s3 = upd_tcb j t2 s0"
  have s3: "j < length (tp_tcbs s3)" "n_km (tp_net s3) = True # True # True # km" "tcb_at j s3 = t2" "tp_net s3 = n1"
    "reachable_peer (tcb_at j s3) m (tp_net s3)"
    using j assms(6-9) s0 by (simp_all add: s3_def n1_def reachable_peer_def t2_def arp_known_def)
  have lp: "tc_local_port (tcb_at l (upd_tcb j t0 s0)) = sg_dst_port seg" using l lj by (simp add: s0_def tcb_at_def upd_tcb_def)
  have "tcp_handle_syn env g dev l seg s = on_tcb j (\<lambda>tn. let ((t, n), rc) = tcp_send_segment env g (TCP_SYN OR TCP_ACK) None 0 tn
       in (tcp_rexmit_timer_reset (n_ticks n) t, n)) s3"
    using j lp t0(3) unfolding tcp_handle_syn_def al s0_def [symmetric] by (simp add: s0 Let_def t2_def s3_def)
  moreover obtain e tm where e: "re_end e = tc_snd_nxt t2 + 1"
    "on_tcb j (\<lambda>tn. let ((t, n), rc) = tcp_send_segment env g (TCP_SYN OR TCP_ACK) None 0 tn in (tcp_rexmit_timer_reset (n_ticks n) t, n)) s3 =
      (upd_tcb j (t2\<lparr>tc_snd_nxt := tc_snd_nxt t2 + 1, tc_rexmit := tc_rexmit t2 @ [e], tc_rexmit_timer := tm\<rparr>) s3)
      \<lparr>tp_net := n1\<lparr>n_km := km, n_ip_id := n_ip_id n1 + 1, n_sent := n_sent n1 @ [(nd_id (tc_dev t2),
         tcp_frame m (nd_mac (tc_dev t2)) (n_ip_id n1) (tc_local_ip t2) (tc_remote_ip t2)
           (tcp_wire (tc_local_ip t2) (tc_remote_ip t2) (tc_local_port t2) (tc_remote_port t2) (tc_snd_nxt t2) (tc_rcv_nxt t2)
              (TCP_SYN OR TCP_ACK) (adv_window t2) (ctl_opts (TCP_SYN OR TCP_ACK) t2) []))]\<rparr>\<rparr>"
    using on_control [OF s3(1,2,5) syn_consumes(2), of env g] unfolding s3(3,4) by blast
  let ?t = "t2\<lparr>tc_snd_nxt := tc_snd_nxt t2 + 1, tc_rexmit := tc_rexmit t2 @ [e], tc_rexmit_timer := tm\<rparr>"
  define s4 where "s4 = (upd_tcb j ?t s3)\<lparr>tp_net := n1\<lparr>n_km := km, n_ip_id := n_ip_id n1 + 1, n_sent := n_sent n1 @ [(nd_id dev,
         tcp_frame m (nd_mac dev) (n_ip_id n1) (nd_ip dev) (sg_src_ip seg)
           (tcp_wire (nd_ip dev) (sg_src_ip seg) (sg_dst_port seg) (sg_src_port seg) (tp_isn s) (sg_seq seg + 1) (TCP_SYN OR TCP_ACK)
              (adv_window t2) (ctl_opts (TCP_SYN OR TCP_ACK) t2) []))]\<rparr>\<rparr>"
  have h: "tcp_handle_syn env g dev l seg s = s4" unfolding calculation e(2) s4_def by (simp add: t2_def t0)
  then have r: "tcp_rx_seg env g dev seg s = Some s4" by (simp add: tcp_rx_seg_def assms(1-3))
  have w: "window_ok ?t" by (rule window_ok_cong [OF t0(4)]) (simp_all add: t2_def)
  have cn: "conn TCP_SYN_RECEIVED dev (sg_dst_port seg) (sg_src_ip seg) (sg_src_port seg) (tp_isn s + 1) (sg_seq seg + 1) ?t"
    using t0 by (simp add: conn_def t2_def)
  have rx: "\<exists>e'. tc_rexmit ?t = [e'] \<and> re_end e' = tp_isn s + 1" "tc_listener ?t = Some l" using e(1) t0(6) by (simp_all add: t2_def)
  have s4: "tp_tcbs s4 = (tp_tcbs s)[j := ?t]" "n_km (tp_net s4) = km"
    "snd (last (n_sent (tp_net s4))) = tcp_frame m (nd_mac dev) (n_ip_id (tp_net s)) (nd_ip dev) (sg_src_ip seg)
      (tcp_wire (nd_ip dev) (sg_src_ip seg) (sg_dst_port seg) (sg_src_port seg) (tp_isn s) (sg_seq seg + 1) (TCP_SYN OR TCP_ACK)
        (adv_window t2) (ctl_opts (TCP_SYN OR TCP_ACK) t2) [])"
    by (simp_all add: s4_def s3_def s0 n1_def)
  show ?thesis using r s4(1) j(1) cn w rx lj l(1) s4(2,3) ctl_opts_length [of "TCP_SYN OR TCP_ACK" t2] by blast
qed

lemma rexmit_ack_simps:
  "tc_rexmit (tcp_rexmit_ack a t) = rexmit_drop a (tc_rexmit t)" "tc_active (tcp_rexmit_ack a t) = tc_active t"
  "tc_lock (tcp_rexmit_ack a t) = tc_lock t" "tc_state (tcp_rexmit_ack a t) = tc_state t" "tc_dev (tcp_rexmit_ack a t) = tc_dev t"
  "tc_local_ip (tcp_rexmit_ack a t) = tc_local_ip t" "tc_local_port (tcp_rexmit_ack a t) = tc_local_port t"
  "tc_remote_ip (tcp_rexmit_ack a t) = tc_remote_ip t" "tc_remote_port (tcp_rexmit_ack a t) = tc_remote_port t"
  "tc_snd_nxt (tcp_rexmit_ack a t) = tc_snd_nxt t" "tc_rcv_nxt (tcp_rexmit_ack a t) = tc_rcv_nxt t"
  "tc_snd_una (tcp_rexmit_ack a t) = tc_snd_una t" "tc_listener (tcp_rexmit_ack a t) = tc_listener t"
  "tc_rx_size (tcp_rexmit_ack a t) = tc_rx_size t" "tc_rx_buf (tcp_rexmit_ack a t) = tc_rx_buf t"
  "tc_rx_head (tcp_rexmit_ack a t) = tc_rx_head t" "tc_rx_tail (tcp_rexmit_ack a t) = tc_rx_tail t"
  "tc_rcv_wnd (tcp_rexmit_ack a t) = tc_rcv_wnd t"
  by (simp_all add: tcp_rexmit_ack_def tcp_rexmit_timer_stop_def Let_def)

lemma syn_sent_answer:
  assumes "tcp_tcb_lookup (nd_ip dev) (sg_dst_port seg) (sg_src_ip seg) (sg_src_port seg) s = Some i" "i < length (tp_tcbs s)"
    "conn TCP_SYN_SENT dev lp rip rp nxt rn (tcb_at i s)" "window_ok (tcb_at i s)" "tc_rexmit (tcb_at i s) = [e]" "re_end e = nxt"
    "sg_flags seg = TCP_SYN OR TCP_ACK" "sg_ack seg = nxt" "n_km (tp_net s) = True # True # km"
    "length (nd_mac dev) = 6" "nd_send dev \<noteq> None" "arp_known dev rip m (tp_net s)" "length m = 6"
  shows "\<exists>s1 t win. tcp_rx_seg env g dev seg s = Some s1 \<and> tp_tcbs s1 = (tp_tcbs s)[i := t] \<and>
    conn TCP_ESTABLISHED dev lp rip rp nxt (sg_seq seg + 1) t \<and> window_ok t \<and> tc_snd_una t = nxt \<and> tc_rexmit t = [] \<and>
    snd (last (n_sent (tp_net s1))) = tcp_frame m (nd_mac dev) (n_ip_id (tp_net s)) (nd_ip dev) rip
      (tcp_wire (nd_ip dev) rip lp rp nxt (sg_seq seg + 1) TCP_ACK win [] [])"
proof -
  let ?t0 = "tcb_at i s"
  have c: "tc_active ?t0" "\<not> tc_lock ?t0" "tc_state ?t0 = TCP_SYN_SENT" "tc_dev ?t0 = dev" "tc_local_ip ?t0 = nd_ip dev"
    "tc_local_port ?t0 = lp" "tc_remote_ip ?t0 = rip" "tc_remote_port ?t0 = rp" "tc_snd_nxt ?t0 = nxt" "tc_rcv_nxt ?t0 = rn"
    using assms(3) by (simp_all add: conn_def)
  define s0 where "s0 = set_lock i True s"
  have s0: "tcb_at i s0 = ?t0\<lparr>tc_lock := True\<rparr>" "tp_net s0 = tp_net s" "i < length (tp_tcbs s0)"
    "tp_tcbs s0 = (tp_tcbs s)[i := ?t0\<lparr>tc_lock := True\<rparr>]"
    using assms(2) by (simp_all add: s0_def set_lock_def)
  define t1 where "t1 = (tcp_rexmit_ack nxt (?t0\<lparr>tc_lock := True, tc_irs := sg_seq seg, tc_rcv_nxt := sg_seq seg + 1, tc_snd_una := nxt,
                    tc_snd_wnd := ucast (sg_window seg), tc_snd_mss := parse_mss (sg_opts seg) (tc_snd_mss ?t0)\<rparr>))\<lparr>tc_state := TCP_ESTABLISHED\<rparr>"
  have t1: "tc_snd_nxt t1 = nxt" "tc_rcv_nxt t1 = sg_seq seg + 1" "tc_dev t1 = dev" "tc_local_ip t1 = nd_ip dev" "tc_local_port t1 = lp"
    "tc_remote_ip t1 = rip" "tc_remote_port t1 = rp" "tc_active t1" "tc_snd_una t1 = nxt" "tc_rexmit t1 = []" "tc_state t1 = TCP_ESTABLISHED"
    using c assms(5,6) by (simp_all add: t1_def rexmit_ack_simps tcp_seq_le_def tcp_seq_diff_def)
  have rp: "reachable_peer t1 m (tp_net s)" using assms(10-13) t1 by (simp add: reachable_peer_def)
  note sa = send_ack_frame [OF assms(9) rp, of env g, unfolded t1]
  define t2 where "t2 = t1\<lparr>tc_delack_pending := False, tc_delack_timer := None\<rparr>"
  define n2 where "n2 = (tp_net s)\<lparr>n_km := km, n_ip_id := n_ip_id (tp_net s) + 1, n_sent := n_sent (tp_net s) @ [(nd_id dev,
         tcp_frame m (nd_mac dev) (n_ip_id (tp_net s)) (nd_ip dev) rip (tcp_wire (nd_ip dev) rip lp rp nxt (sg_seq seg + 1) TCP_ACK (adv_window t1) [] []))]\<rparr>"
  have sy: "rx_syn_sent env g dev seg (tcb_at i s0, tp_net s0) = (t2, n2)"
    unfolding s0 using c(9) assms(7,8) sa by (simp add: rx_syn_sent_def t1_def [symmetric] t2_def n2_def Let_def)
  note o = on_tcb_simps [where f = "rx_syn_sent env g dev seg", OF sy s0(3)]
  define s1 where "s1 = set_lock i False (on_tcb i (rx_syn_sent env g dev seg) s0)"
  have st: "tc_state (tcb_at i s0) = TCP_SYN_SENT" using s0 c by simp
  have r: "tcp_rx_seg env g dev seg s = Some s1"
    using assms(1,7) c(2) st by (simp add: tcp_rx_seg_def s0_def [symmetric] rx_dispatch_def s1_def)
  let ?t = "t2\<lparr>tc_lock := False\<rparr>"
  have s1: "tp_tcbs s1 = (tp_tcbs s)[i := ?t]" "tp_net s1 = n2"
    using o s0 by (simp_all add: s1_def set_lock_def)
  have w: "window_ok ?t" by (rule window_ok_cong [OF assms(4)]) (simp_all add: t2_def t1_def rexmit_ack_simps)
  have cn: "conn TCP_ESTABLISHED dev lp rip rp nxt (sg_seq seg + 1) ?t" using t1 by (simp add: conn_def t2_def)
  show ?thesis using r s1 cn w t1(9,10) by (intro exI [of _ s1] exI [of _ ?t] exI [of _ "adv_window t1"]) (simp add: t2_def n2_def)
qed

lemma syn_received_ack:
  assumes "tcp_tcb_lookup (nd_ip dev) (sg_dst_port seg) (sg_src_ip seg) (sg_src_port seg) s = Some j" "j < length (tp_tcbs s)"
    "conn TCP_SYN_RECEIVED dev lp rip rp nxt rn (tcb_at j s)" "window_ok (tcb_at j s)" "tc_rexmit (tcb_at j s) = [e]" "re_end e = nxt"
    "sg_flags seg = TCP_ACK" "sg_ack seg = nxt" "tc_listener (tcb_at j s) = Some l" "l \<noteq> j" "l < length (tp_tcbs s)"
    "(tc_accept_head (tcb_at l s) + 1) mod SOMAXCONN \<noteq> tc_accept_tail (tcb_at l s)"
  shows "\<exists>s1. tcp_rx_seg env g dev seg s = Some s1 \<and> conn TCP_ESTABLISHED dev lp rip rp nxt rn (tcb_at j s1) \<and> window_ok (tcb_at j s1) \<and>
    tc_snd_una (tcb_at j s1) = nxt \<and> tc_rexmit (tcb_at j s1) = [] \<and>
    tcb_at l s1 = (tcb_at l s)\<lparr>tc_accept_queue := (tc_accept_queue (tcb_at l s))[tc_accept_head (tcb_at l s) := j],
      tc_accept_head := (tc_accept_head (tcb_at l s) + 1) mod SOMAXCONN\<rparr>"
proof -
  let ?t0 = "tcb_at j s"
  have c: "tc_active ?t0" "\<not> tc_lock ?t0" "tc_state ?t0 = TCP_SYN_RECEIVED" "tc_dev ?t0 = dev" "tc_local_ip ?t0 = nd_ip dev"
    "tc_local_port ?t0 = lp" "tc_remote_ip ?t0 = rip" "tc_remote_port ?t0 = rp" "tc_snd_nxt ?t0 = nxt" "tc_rcv_nxt ?t0 = rn"
    using assms(3) by (simp_all add: conn_def)
  define s0 where "s0 = set_lock j True s"
  have s0: "tcb_at j s0 = ?t0\<lparr>tc_lock := True\<rparr>" "tcb_at l s0 = tcb_at l s" "length (tp_tcbs s0) = length (tp_tcbs s)"
    using assms(2,10) by (simp_all add: s0_def)
  define t1 where "t1 = (tcp_rexmit_ack nxt (?t0\<lparr>tc_lock := True, tc_snd_una := nxt\<rparr>))\<lparr>tc_state := TCP_ESTABLISHED\<rparr>"
  define L where "L = (tcb_at l s)\<lparr>tc_accept_queue := (tc_accept_queue (tcb_at l s))[tc_accept_head (tcb_at l s) := j],
      tc_accept_head := (tc_accept_head (tcb_at l s) + 1) mod SOMAXCONN\<rparr>"
  define s2 where "s2 = upd_tcb l L (upd_tcb j t1 s0)"
  have "rx_syn_received j seg s0 = tcp_accept_enqueue l j (upd_tcb j t1 s0)"
    using s0 assms(7-9) c(9) by (simp add: rx_syn_received_def t1_def Let_def rexmit_ack_simps)
  also have "\<dots> = Some s2" using assms(10,12) s0 by (simp add: tcp_accept_enqueue_def L_def s2_def Let_def)
  finally have r: "tcp_rx_seg env g dev seg s = Some (set_lock j False s2)"
    using assms(1,7) c(2,3) s0(1) by (simp add: tcp_rx_seg_def s0_def [symmetric] rx_dispatch_def)
  have at: "tcb_at j (set_lock j False s2) = t1\<lparr>tc_lock := False\<rparr>" "tcb_at l (set_lock j False s2) = L"
    using assms(2,10,11) s0(3) by (simp_all add: s2_def)
  have w: "window_ok (t1\<lparr>tc_lock := False\<rparr>)" by (rule window_ok_cong [OF assms(4)]) (simp_all add: t1_def rexmit_ack_simps)
  have "conn TCP_ESTABLISHED dev lp rip rp nxt rn (t1\<lparr>tc_lock := False\<rparr>)" "tc_snd_una t1 = nxt" "tc_rexmit t1 = []"
    using c assms(5,6) by (simp_all add: conn_def t1_def rexmit_ack_simps tcp_seq_le_def tcp_seq_diff_def)
  then show ?thesis using r at w by (intro exI [of _ "set_lock j False s2"]) (simp add: L_def)
qed

lemma lookup_new:
  assumes "tp_tcbs s1 = (tp_tcbs s)[i := t]" "i < length (tp_tcbs s)" "tcb_match lip lp rip rp t"
    "\<forall>x \<in> set (tp_tcbs s). tc_active x \<longrightarrow> tc_local_port x \<noteq> lp \<or> tc_remote_ip x \<noteq> rip"
  shows "tcp_tcb_lookup lip lp rip rp s1 = Some i"
  unfolding tcp_tcb_lookup_def
proof (rule search_unique)
  show "i < length (tp_tcbs s1)" "tcb_match lip lp rip rp (tp_tcbs s1 ! i)" using assms(1-3) by simp_all
  fix k assume "k < length (tp_tcbs s1)" "k \<noteq> i"
  then have "tp_tcbs s1 ! k = tp_tcbs s ! k" "tp_tcbs s ! k \<in> set (tp_tcbs s)" using assms(1) by simp_all
  then show "\<not> tcb_match lip lp rip rp (tp_tcbs s1 ! k)" using assms(4) by (auto simp: tcb_match_def)
qed

text \<open>The frame a host sent last.\<close>

definition last_frame :: "tcp \<Rightarrow> u8 list" where
  "last_frame s = snd (last (n_sent (tp_net s)))"

lemma handshake_open:
  assumes A: "tcb_free_slot (tp_tcbs sA) 0 = Some i" "length (tp_tcbs sA) < 65536" "n_km (tp_net sA) = replicate 9 True @ kA"
      "ip_route (nd_ip devB) devs = Some (devA, nh)" "length (nd_mac devA) = 6" "nd_send devA \<noteq> None"
      "arp_known devA (nd_ip devB) (nd_mac devB) (tp_net sA)"
    and B: "tcb_free_slot (tp_tcbs sB) 0 = Some j" "tcp_tcb_lookup_listen port sB = Some l" "n_km (tp_net sB) = replicate 9 True @ kB"
      "\<forall>t \<in> set (tp_tcbs sB). tc_active t \<longrightarrow> tc_remote_ip t \<noteq> nd_ip devA" "length (nd_mac devB) = 6" "nd_send devB \<noteq> None"
      "arp_known devB (nd_ip devA) (nd_mac devA) (tp_net sB)"
      "(tc_accept_head (tcb_at l sB) + 1) mod SOMAXCONN \<noteq> tc_accept_tail (tcb_at l sB)"
  obtains lp sA1 tA sB1 tB w2 o2 where "tcp_sock_connect envA gA devs sk None (nd_ip devB) port sA = Some (sA1, Some i)"
    "tp_tcbs sA1 = (tp_tcbs sA)[i := tA]" "i < length (tp_tcbs sA)" "conn TCP_SYN_SENT devA lp (nd_ip devB) port (tp_isn sA + 1) 0 tA" "window_ok tA"
    "\<exists>e. tc_rexmit tA = [e] \<and> re_end e = tp_isn sA + 1" "\<forall>x \<in> set (tp_tcbs sA). tc_active x \<longrightarrow> tc_local_port x \<noteq> lp"
    "n_km (tp_net sA1) = True # True # True # True # kA" "n_arp (tp_net sA1) = n_arp (tp_net sA)" "n_ticks (tp_net sA1) = n_ticks (tp_net sA)"
    "tcp_input envB gB devB (last_frame sA1 @ pad1) sB = Some sB1" "tp_tcbs sB1 = (tp_tcbs sB)[j := tB]" "j < length (tp_tcbs sB)"
    "conn TCP_SYN_RECEIVED devB port (nd_ip devA) lp (tp_isn sB + 1) (tp_isn sA + 1) tB" "window_ok tB" "\<exists>e. tc_rexmit tB = [e] \<and> re_end e = tp_isn sB + 1"
    "tc_listener tB = Some l" "l \<noteq> j" "l < length (tp_tcbs sB)" "n_km (tp_net sB1) = True # True # kB" "length o2 \<in> {0, 4}"
    "last_frame sB1 = tcp_frame (nd_mac devA) (nd_mac devB) (n_ip_id (tp_net sB)) (nd_ip devB) (nd_ip devA)
       (tcp_wire (nd_ip devB) (nd_ip devA) port lp (tp_isn sB) (tp_isn sA + 1) (TCP_SYN OR TCP_ACK) w2 o2 [])"
proof -
  let ?a = "nd_ip devA" and ?b = "nd_ip devB" and ?x = "tp_isn sA" and ?y = "tp_isn sB"
  have acc: "ip_accepts devA ?a" "ip_accepts devB ?b" by (simp_all add: ip_accepts_def)
  have kA: "n_km (tp_net sA) = True # True # True # True # True # True # True # True # True # kA" using A(3) by (simp add: eval_nat_numeral)
  have kB: "n_km (tp_net sB) = True # True # True # True # True # True # True # True # True # kB" using B(3) by (simp add: eval_nat_numeral)
  obtain sA1 tA lp w1 o1 where a1: "tcp_sock_connect envA gA devs sk None ?b port sA = Some (sA1, Some i)"
    "tp_tcbs sA1 = (tp_tcbs sA)[i := tA]" "i < length (tp_tcbs sA)" "conn TCP_SYN_SENT devA lp ?b port (?x + 1) 0 tA" "window_ok tA"
    "\<exists>e. tc_rexmit tA = [e] \<and> re_end e = ?x + 1" "\<forall>x \<in> set (tp_tcbs sA). tc_active x \<longrightarrow> tc_local_port x \<noteq> lp"
    "n_km (tp_net sA1) = True # True # True # True # kA" "n_arp (tp_net sA1) = n_arp (tp_net sA)" "n_ticks (tp_net sA1) = n_ticks (tp_net sA)"
    "length o1 \<in> {0, 4}" "last_frame sA1 = tcp_frame (nd_mac devB) (nd_mac devA) (n_ip_id (tp_net sA)) ?a ?b (tcp_wire ?a ?b lp port ?x 0 TCP_SYN w1 o1 [])"
    using connect_syn [OF A(1) kA A(4-7) B(5) A(2), of envA gA sk port] unfolding last_frame_def by blast
  define g1 where "g1 = \<lparr>sg_src_ip = ?a, sg_src_port = lp, sg_dst_port = port, sg_seq = ?x, sg_ack = 0,
      sg_flags = TCP_SYN, sg_window = w1, sg_opts = o1, sg_data = []\<rparr>"
  have g1s: "sg_dst_port g1 = port" "sg_src_ip g1 = ?a" "sg_src_port g1 = lp" "sg_seq g1 = ?x" "sg_flags g1 = TCP_SYN"
    by (simp_all add: g1_def)
  define sB0 where "sB0 = sB\<lparr>tp_net := (tp_net sB)\<lparr>n_km := True # True # True # True # True # True # True # kB\<rparr>\<rparr>"
  have sB0: "tp_tcbs sB0 = tp_tcbs sB" "tp_isn sB0 = ?y" "n_km (tp_net sB0) = True # True # True # True # True # True # True # kB"
    "tcp_tcb_lookup_listen port sB0 = Some l" "arp_known devB ?a (nd_mac devA) (tp_net sB0)"
    using B(2,7) by (simp_all add: sB0_def tcp_tcb_lookup_listen_def arp_known_def)
  have i1: "tcp_input envB gB devB (last_frame sA1 @ pad1) sB = tcp_rx_seg envB gB devB g1 sB0"
    unfolding a1(12) g1_def sB0_def by (rule tcp_input_frame [OF kB B(5) A(5) acc(2) a1(11)]) (use a1(11) in auto)
  have none: "tcp_tcb_lookup ?b (sg_dst_port g1) (sg_src_ip g1) (sg_src_port g1) sB0 = None"
    using B(4) by (auto simp: tcp_tcb_lookup_def search_None tcb_match_def g1_def sB0)
  obtain sB1 tB w2 o2 where b1: "tcp_rx_seg envB gB devB g1 sB0 = Some sB1" "tp_tcbs sB1 = (tp_tcbs sB)[j := tB]" "j < length (tp_tcbs sB)"
    "conn TCP_SYN_RECEIVED devB port ?a lp (?y + 1) (?x + 1) tB" "window_ok tB" "\<exists>e. tc_rexmit tB = [e] \<and> re_end e = ?y + 1"
    "tc_listener tB = Some l" "l \<noteq> j" "l < length (tp_tcbs sB)" "n_km (tp_net sB1) = True # True # kB" "length o2 \<in> {0, 4}"
    "last_frame sB1 = tcp_frame (nd_mac devA) (nd_mac devB) (n_ip_id (tp_net sB0)) ?b ?a (tcp_wire ?b ?a port lp ?y (?x + 1) (TCP_SYN OR TCP_ACK) w2 o2 [])"
    using listen_syn [OF none, unfolded g1s sB0(1,2), OF sB0(4) refl B(1) sB0(3) B(5,6) sB0(5) A(5), of envB gB]
    unfolding last_frame_def by blast
  have ident: "n_ip_id (tp_net sB0) = n_ip_id (tp_net sB)" by (simp add: sB0_def)
  show thesis by (rule that [OF a1(1-10) trans [OF i1 b1(1)] b1(2-11) b1(12) [unfolded ident]])
qed

text \<open>C13: the three-way handshake. Let host A have a free control block and a route to host B, host B a
  listening block on \<open>port\<close> with room in its accept queue and no connection with A yet, let both know each other's
  hardware address and let the allocator serve the nine requests each side makes. Then \<open>connect\<close> on A returns, and
  delivering A's SYN frame to B, B's SYN/ACK frame to A and A's ACK frame to B (each possibly padded by the link)
  returns every time and leaves both ends ESTABLISHED with mirrored ports, each side's next sequence number being the
  one the other expects, nothing unacknowledged, nothing on a retransmit queue, the receive window advertised
  consistent with the ring, and B's new block at the head of the listener's accept queue.\<close>

theorem tcp_handshake:
  assumes A: "tcb_free_slot (tp_tcbs sA) 0 = Some i" "length (tp_tcbs sA) < 65536" "n_km (tp_net sA) = replicate 9 True @ kA"
      "ip_route (nd_ip devB) devs = Some (devA, nh)" "length (nd_mac devA) = 6" "nd_send devA \<noteq> None"
      "arp_known devA (nd_ip devB) (nd_mac devB) (tp_net sA)"
    and B: "tcb_free_slot (tp_tcbs sB) 0 = Some j" "tcp_tcb_lookup_listen port sB = Some l" "n_km (tp_net sB) = replicate 9 True @ kB"
      "\<forall>t \<in> set (tp_tcbs sB). tc_active t \<longrightarrow> tc_remote_ip t \<noteq> nd_ip devA" "length (nd_mac devB) = 6" "nd_send devB \<noteq> None"
      "arp_known devB (nd_ip devA) (nd_mac devA) (tp_net sB)"
      "(tc_accept_head (tcb_at l sB) + 1) mod SOMAXCONN \<noteq> tc_accept_tail (tcb_at l sB)"
  shows "\<exists>lp sA1 sB1 sA2 sB2. tcp_sock_connect envA gA devs sk None (nd_ip devB) port sA = Some (sA1, Some i) \<and>
    tcp_input envB gB devB (last_frame sA1 @ pad1) sB = Some sB1 \<and>
    tcp_input envA gA devA (last_frame sB1 @ pad2) sA1 = Some sA2 \<and>
    tcp_input envB gB devB (last_frame sA2 @ pad3) sB1 = Some sB2 \<and>
    conn TCP_ESTABLISHED devA lp (nd_ip devB) port (tp_isn sA + 1) (tp_isn sB + 1) (tcb_at i sA2) \<and>
    conn TCP_ESTABLISHED devB port (nd_ip devA) lp (tp_isn sB + 1) (tp_isn sA + 1) (tcb_at j sB2) \<and>
    (\<forall>t \<in> {tcb_at i sA2, tcb_at j sB2}. window_ok t \<and> tc_snd_una t = tc_snd_nxt t \<and> tc_rexmit t = []) \<and>
    tc_accept_head (tcb_at l sB2) = (tc_accept_head (tcb_at l sB) + 1) mod SOMAXCONN \<and>
    tc_accept_queue (tcb_at l sB2) = (tc_accept_queue (tcb_at l sB))[tc_accept_head (tcb_at l sB) := j]"
proof -
  let ?a = "nd_ip devA" and ?b = "nd_ip devB" and ?x = "tp_isn sA" and ?y = "tp_isn sB"
  have acc: "ip_accepts devA ?a" "ip_accepts devB ?b" by (simp_all add: ip_accepts_def)
  obtain lp sA1 tA sB1 tB w2 o2 where a1: "tcp_sock_connect envA gA devs sk None (nd_ip devB) port sA = Some (sA1, Some i)"
    "tp_tcbs sA1 = (tp_tcbs sA)[i := tA]" "i < length (tp_tcbs sA)" "conn TCP_SYN_SENT devA lp (nd_ip devB) port (tp_isn sA + 1) 0 tA" "window_ok tA"
    "\<exists>e. tc_rexmit tA = [e] \<and> re_end e = tp_isn sA + 1" "\<forall>x \<in> set (tp_tcbs sA). tc_active x \<longrightarrow> tc_local_port x \<noteq> lp"
    "n_km (tp_net sA1) = True # True # True # True # kA" "n_arp (tp_net sA1) = n_arp (tp_net sA)" "n_ticks (tp_net sA1) = n_ticks (tp_net sA)"
    and b1: "tcp_input envB gB devB (last_frame sA1 @ pad1) sB = Some sB1" "tp_tcbs sB1 = (tp_tcbs sB)[j := tB]" "j < length (tp_tcbs sB)"
    "conn TCP_SYN_RECEIVED devB port (nd_ip devA) lp (tp_isn sB + 1) (tp_isn sA + 1) tB" "window_ok tB" "\<exists>e. tc_rexmit tB = [e] \<and> re_end e = tp_isn sB + 1"
    "tc_listener tB = Some l" "l \<noteq> j" "l < length (tp_tcbs sB)" "n_km (tp_net sB1) = True # True # kB" "length o2 \<in> {0, 4}"
    "last_frame sB1 = tcp_frame (nd_mac devA) (nd_mac devB) (n_ip_id (tp_net sB)) (nd_ip devB) (nd_ip devA)
       (tcp_wire (nd_ip devB) (nd_ip devA) port lp (tp_isn sB) (tp_isn sA + 1) (TCP_SYN OR TCP_ACK) w2 o2 [])"
    by (rule handshake_open [OF A B, of envA gA sk envB gB pad1])
  define g2 where "g2 = \<lparr>sg_src_ip = ?b, sg_src_port = port, sg_dst_port = lp, sg_seq = ?y, sg_ack = ?x + 1,
      sg_flags = TCP_SYN OR TCP_ACK, sg_window = w2, sg_opts = o2, sg_data = []\<rparr>"
  have g2s: "sg_dst_port g2 = lp" "sg_src_ip g2 = ?b" "sg_src_port g2 = port" "sg_seq g2 = ?y" "sg_flags g2 = TCP_SYN OR TCP_ACK"
    "sg_ack g2 = ?x + 1" by (simp_all add: g2_def)
  define sA0 where "sA0 = sA1\<lparr>tp_net := (tp_net sA1)\<lparr>n_km := True # True # kA\<rparr>\<rparr>"
  have sA0: "tp_tcbs sA0 = tp_tcbs sA1" "n_km (tp_net sA0) = True # True # kA" "arp_known devA ?b (nd_mac devB) (tp_net sA0)" "tcb_at i sA0 = tA"
    using A(7) a1(2,3,9,10) by (simp_all add: sA0_def arp_known_def tcb_at_def)
  have i2: "tcp_input envA gA devA (last_frame sB1 @ pad2) sA1 = tcp_rx_seg envA gA devA g2 sA0"
    unfolding b1(12) g2_def sA0_def by (rule tcp_input_frame [OF a1(8) A(5) B(5) acc(1) b1(11)]) (use b1(11) in auto)
  have la: "tcp_tcb_lookup ?a (sg_dst_port g2) (sg_src_ip g2) (sg_src_port g2) sA0 = Some i"
    by (rule lookup_new [of sA0 sA i tA]) (use a1(2-4,7) sA0(1) in \<open>auto simp: g2_def conn_def tcb_match_def\<close>)
  have iA: "i < length (tp_tcbs sA0)" using a1(2,3) sA0(1) by simp
  obtain eA where eA: "tc_rexmit tA = [eA]" "re_end eA = ?x + 1" using a1(6) by blast
  obtain sA2 tA2 w3 where a2: "tcp_rx_seg envA gA devA g2 sA0 = Some sA2" "tp_tcbs sA2 = (tp_tcbs sA0)[i := tA2]"
    "conn TCP_ESTABLISHED devA lp ?b port (?x + 1) (?y + 1) tA2" "window_ok tA2" "tc_snd_una tA2 = ?x + 1" "tc_rexmit tA2 = []"
    "last_frame sA2 = tcp_frame (nd_mac devB) (nd_mac devA) (n_ip_id (tp_net sA0)) ?a ?b (tcp_wire ?a ?b lp port (?x + 1) (?y + 1) TCP_ACK w3 [] [])"
    using syn_sent_answer [OF la, unfolded g2s sA0(4), OF iA a1(4,5) eA refl refl sA0(2) A(5,6) sA0(3) B(5), of envA gA]
    unfolding last_frame_def by blast
  define g3 where "g3 = \<lparr>sg_src_ip = ?a, sg_src_port = lp, sg_dst_port = port, sg_seq = ?x + 1, sg_ack = ?y + 1,
      sg_flags = TCP_ACK, sg_window = w3, sg_opts = [], sg_data = []\<rparr>"
  have g3s: "sg_dst_port g3 = port" "sg_src_ip g3 = ?a" "sg_src_port g3 = lp" "sg_flags g3 = TCP_ACK" "sg_ack g3 = ?y + 1"
    by (simp_all add: g3_def)
  define sB3 where "sB3 = sB1\<lparr>tp_net := (tp_net sB1)\<lparr>n_km := kB\<rparr>\<rparr>"
  have sB3: "tp_tcbs sB3 = (tp_tcbs sB)[j := tB]" "tcb_at j sB3 = tB" "tcb_at l sB3 = tcb_at l sB"
    using b1(2,3,8) by (simp_all add: sB3_def tcb_at_def)
  have i3: "tcp_input envB gB devB (last_frame sA2 @ pad3) sB1 = tcp_rx_seg envB gB devB g3 sB3"
    unfolding a2(7) g3_def sB3_def by (rule tcp_input_frame [OF b1(10) B(5) A(5) acc(2)]) auto
  have lb: "tcp_tcb_lookup ?b (sg_dst_port g3) (sg_src_ip g3) (sg_src_port g3) sB3 = Some j"
    by (rule lookup_new [of sB3 sB j tB]) (use b1(3,4) sB3 B(4) in \<open>auto simp: g3_def conn_def tcb_match_def\<close>)
  have jB: "j < length (tp_tcbs sB3)" "l < length (tp_tcbs sB3)" using b1(3,9) sB3(1) by simp_all
  obtain eB where eB: "tc_rexmit tB = [eB]" "re_end eB = ?y + 1" using b1(6) by blast
  obtain sB2 where b2: "tcp_rx_seg envB gB devB g3 sB3 = Some sB2" "conn TCP_ESTABLISHED devB port ?a lp (?y + 1) (?x + 1) (tcb_at j sB2)"
    "window_ok (tcb_at j sB2)" "tc_snd_una (tcb_at j sB2) = ?y + 1" "tc_rexmit (tcb_at j sB2) = []"
    "tcb_at l sB2 = (tcb_at l sB)\<lparr>tc_accept_queue := (tc_accept_queue (tcb_at l sB))[tc_accept_head (tcb_at l sB) := j],
      tc_accept_head := (tc_accept_head (tcb_at l sB) + 1) mod SOMAXCONN\<rparr>"
    using syn_received_ack [OF lb, unfolded g3s sB3(2), OF jB(1) b1(4,5) eB refl refl b1(7,8) jB(2), unfolded sB3(3), OF B(8), of envB gB] by blast
  have at: "tcb_at i sA2 = tA2" using a2(2) a1(2,3) sA0(1) by (simp add: tcb_at_def)
  have "\<forall>t \<in> {tcb_at i sA2, tcb_at j sB2}. window_ok t \<and> tc_snd_una t = tc_snd_nxt t \<and> tc_rexmit t = []"
    using a2(3-6) b2(2-5) at by (auto simp: conn_def)
  moreover have "tc_accept_head (tcb_at l sB2) = (tc_accept_head (tcb_at l sB) + 1) mod SOMAXCONN"
    "tc_accept_queue (tcb_at l sB2) = (tc_accept_queue (tcb_at l sB))[tc_accept_head (tcb_at l sB) := j]" by (simp_all add: b2(6))
  ultimately show ?thesis using a1(1) b1(1) i2 a2(1) i3 b2(1) a2(3) b2(2) at by metis
qed

definition tcp_client_example :: tcp where
  "tcp_client_example = \<lparr>tp_tcbs = [tcb_zero, tcb_zero], tp_eph = 49152, tp_isn = 1000,
     tp_net = net_known_example\<lparr>n_km := replicate 9 True\<rparr>\<rparr>"

definition tcp_server_example :: tcp where
  "tcp_server_example = \<lparr>tp_tcbs = [tcb_zero\<lparr>tc_active := True, tc_state := TCP_LISTEN, tc_local_port := 80,
       tc_accept_queue := replicate SOMAXCONN 0\<rparr>, tcb_zero], tp_eph = 49152, tp_isn = 0xFFFFFFFF,
     tp_net = (net_example (replicate 9 True))\<lparr>n_arp :=
       [\<lparr>ae_ip = 0x0F02000A, ae_mac = [2, 0, 0, 0, 0, 7], ae_timestamp = 900, ae_valid = True\<rparr>]\<rparr>\<rparr>"

theorem tcp_handshake_witness:
  "\<exists>lp sA1 sB1 sA2 sB2. let devA = dev_example 0x0F02000A 7; devB = dev_example 0x0202000A 8 in
     tcp_sock_connect (\<lambda>_ n. n) (\<lambda>_. 0) [devA] 3 None 0x0202000A 80 tcp_client_example = Some (sA1, Some 0) \<and>
     tcp_input (\<lambda>_ n. n) (\<lambda>_. 0) devB (last_frame sA1 @ [0, 0]) tcp_server_example = Some sB1 \<and>
     tcp_input (\<lambda>_ n. n) (\<lambda>_. 0) devA (last_frame sB1 @ [0, 0]) sA1 = Some sA2 \<and>
     tcp_input (\<lambda>_ n. n) (\<lambda>_. 0) devB (last_frame sA2 @ [0, 0]) sB1 = Some sB2 \<and>
     conn TCP_ESTABLISHED devA lp 0x0202000A 80 1001 0 (tcb_at 0 sA2) \<and>
     conn TCP_ESTABLISHED devB 80 0x0F02000A lp 0 1001 (tcb_at 1 sB2) \<and>
     tc_accept_head (tcb_at 0 sB2) = 1 \<and> tc_accept_queue (tcb_at 0 sB2) ! 0 = 1"
proof -
  let ?A = "dev_example 0x0F02000A 7" and ?B = "dev_example 0x0202000A 8"
  let ?a = tcp_client_example and ?b = tcp_server_example
  note ex = dev_example_def net_known_example_def net_example_def arp_init_def
  have ip: "nd_ip ?A = 0x0F02000A" "nd_ip ?B = 0x0202000A" by (simp_all add: dev_example_def)
  have A: "tcb_free_slot (tp_tcbs ?a) 0 = Some 0" "length (tp_tcbs ?a) < 65536" "n_km (tp_net ?a) = replicate 9 True @ []"
      "ip_route (nd_ip ?B) [?A] = Some (?A, 0x0202000A)" "length (nd_mac ?A) = 6" "nd_send ?A \<noteq> None"
      "arp_known ?A (nd_ip ?B) (nd_mac ?B) (tp_net ?a)"
    by (simp_all add: tcp_client_example_def tcb_zero_def ip_route_def arp_known_def is_broadcast_def next_hop_def ex)
  have B: "tcb_free_slot (tp_tcbs ?b) 0 = Some 1" "tcp_tcb_lookup_listen 80 ?b = Some 0" "n_km (tp_net ?b) = replicate 9 True @ []"
      "\<forall>t \<in> set (tp_tcbs ?b). tc_active t \<longrightarrow> tc_remote_ip t \<noteq> nd_ip ?A" "length (nd_mac ?B) = 6" "nd_send ?B \<noteq> None"
      "arp_known ?B (nd_ip ?A) (nd_mac ?A) (tp_net ?b)"
      "(tc_accept_head (tcb_at 0 ?b) + 1) mod SOMAXCONN \<noteq> tc_accept_tail (tcb_at 0 ?b)"
    by (simp_all add: tcp_server_example_def tcb_zero_def tcp_tcb_lookup_listen_def arp_known_def is_broadcast_def next_hop_def tcb_at_def ex)
  have v: "tp_isn ?a + 1 = 1001" "tp_isn ?b + 1 = 0" "(tc_accept_head (tcb_at 0 ?b) + 1) mod SOMAXCONN = 1"
      "(tc_accept_queue (tcb_at 0 ?b))[tc_accept_head (tcb_at 0 ?b) := 1] ! 0 = 1"
    by (simp_all add: tcp_client_example_def tcp_server_example_def tcb_at_def tcb_zero_def)
  show ?thesis
    using tcp_handshake [OF A B, where envA = "\<lambda>_ n. n" and envB = "\<lambda>_ n. n" and gA = "\<lambda>_. 0" and gB = "\<lambda>_. 0"
        and sk = 3 and ?pad1.0 = "[0, 0]" and ?pad2.0 = "[0, 0]" and ?pad3.0 = "[0, 0]"]
    unfolding ip v Let_def using v(4) by metis
qed

end
