(* ===== verification/Spec2Isabelle.thy ===== *)
theory Spec2Isabelle
  imports Cred_Machine Vmm_Fork Bcache_Refine Kstring Path Fd_Refs Ext2_Alloc Udp Icmp Sched Signal Tcp_Handshake
begin

text \<open>
  \<^bold>\<open>EXO\_OS: a verification library of the kernel.\<close>

  The program is a small multiprocessor kernel for x86-64, written in C under
  \<^verbatim>\<open>src/src/kernel\<close>, with a GPT reader in Zig and path helpers in Rust beside it.  System
  calls (\<^verbatim>\<open>syscall/\<close>) act on the current task (\<^verbatim>\<open>sched/\<close>), its memory (\<^verbatim>\<open>mm/\<close>), its files
  (\<^verbatim>\<open>fs/\<close>), its signals and pipes (\<^verbatim>\<open>ipc/\<close>) and its sockets (\<^verbatim>\<open>net/\<close>).

  \<^bold>\<open>Conventions.\<close>  Fixed-width integers are words of their width, so wrap-around is
  the machine's.  A C structure is a record; a pointer is a number into a store, NULL
  is \<open>None\<close>.  An operation takes the state and returns the new one with the value the C
  function returns; error numbers are negative integers as in the code.  A dereference of
  NULL or a self-deadlock is the result \<open>None\<close> where it can happen.  The outcome of
  a heap allocation and what other parties do while an operation sleeps are arguments.

  \<^bold>\<open>Theories and sources.\<close>
  \<^item> \<open>Exo_Prelude\<close>: words, error numbers, casts, masks and list facts.
    \<open>Task_Model\<close>: the records of \<^verbatim>\<open>sched/cred.h\<close>, \<^verbatim>\<open>sched/task.h\<close> and the per-CPU state of
    \<^verbatim>\<open>sched/sched.c\<close>, in one kernel state.
  \<^item> \<open>Cred\<close>, \<open>Cred_Machine\<close>: \<^verbatim>\<open>sched/cred.h\<close>, the identity, capability, prctl and seccomp
    calls of \<^verbatim>\<open>syscall/syscall.c\<close>, the credential part of \<^verbatim>\<open>sys_execve\<close>; as a state machine
    with invariants for every run.
  \<^item> \<open>Runq\<close>, \<open>Task_Tree\<close>, \<open>Sched\<close>: run queues, task creation and destruction, the tree of
    tasks, the tick, sleeping, blocking and exit (\<^verbatim>\<open>sched/sched.c\<close>, \<^verbatim>\<open>sched/task.c\<close>).
    \<open>Ktimer\<close>: software timers (\<^verbatim>\<open>lib/timer.c\<close>).
  \<^item> \<open>Signal\<close>: dispositions, delivery to user handlers and return (\<^verbatim>\<open>ipc/signal.c\<close>).
  \<^item> \<open>Pmm\<close>: the physical page allocator (\<^verbatim>\<open>mm/pmm.c\<close>).  \<open>Vma\<close>: the list of memory areas
    (\<^verbatim>\<open>syscall/proc_syscalls.c\<close>).
  \<^item> \<open>Queues\<close>: the contract of bounded queues and intrusive lists, interpreted by
    the components that provide them.
  \<^item> \<open>Netutil\<close>, \<open>Skbuff\<close>, \<open>Net_Link\<close>, \<open>Ip4\<close>, \<open>Udp\<close>, \<open>Icmp\<close>, \<open>Tcp\<close>, \<open>Tcp_Stream\<close>,
    \<open>Tcp_Handshake\<close>: byte order and checksum, packet buffers, Ethernet and ARP, IPv4, UDP,
    ICMP and TCP (\<^verbatim>\<open>net/\<close>, \<^verbatim>\<open>drivers/net/netdev.c\<close>).

  \<^bold>\<open>Not modelled.\<close>  Assembly and device code (\<^verbatim>\<open>arch/\<close>, most of \<^verbatim>\<open>drivers/\<close>): its meaning is in
  the hardware it programs.  Graphics and the vendored font renderer.  The disk file
  systems and the textual pseudo file systems.  The tools under \<^verbatim>\<open>tools/\<close>, which run in user
  space or on the build host.
\<close>

end
